(* ===== verification/Doom_Prelude.thy ===== *)
theory Doom_Prelude
  imports Main "HOL-Library.Word" "HOL-Library.Monad_Syntax"
begin

text \<open>
  Shared vocabulary of the development: the machine integers of the engine as words, C
  strings as byte lists, the result type that makes the undefined behaviour and the fatal
  errors of the C code values, and the small lemmas on lists and words that several
  components use.

  A C \<open>int\<close> and a C \<open>unsigned int\<close> are both \<open>u32\<close>: arithmetic wraps, an unsigned
  comparison is \<open><\<close>, a signed one is \<open><s\<close>.
\<close>

unbundle bit_operations_syntax

type_synonym u8 = "8 word"
type_synonym u16 = "16 word"
type_synonym u32 = "32 word"
type_synonym u64 = "64 word"

text \<open>A C string (without its terminating NUL) or a buffer.\<close>

type_synonym bytes = "u8 list"

named_theorems rest_simps \<open>how a read moves the unread rest of a packet\<close>
named_theorems frame_simps \<open>what an operation leaves unchanged\<close>
named_theorems inv_intros \<open>operations keep the invariant of their component\<close>

subsection \<open>Failing computations\<close>

text \<open>
  \<open>OutOfBounds\<close> is an array access outside its object and \<open>NullDeref\<close> a use of a null
  pointer, \<open>BadPointer\<close> the use of one that points to no such object, all undefined behaviour in C.
  \<open>DivByZero\<close> is a division by zero. \<open>IError\<close> is a call of \<open>I_Error\<close>, which ends
  the process. \<open>Diverges\<close> is a loop that does not end.
\<close>

datatype fault = OutOfBounds | NullDeref | BadPointer | IError | Diverges | DivByZero

type_synonym 'a res = "fault + 'a"

definition bindR :: "'a res \<Rightarrow> ('a \<Rightarrow> 'b res) \<Rightarrow> 'b res" where
  "bindR m f = (case m of Inl e \<Rightarrow> Inl e | Inr x \<Rightarrow> f x)"

lemma bindR_Inl [simp]: "bindR (Inl e) f = Inl e"
  by (simp add: bindR_def)

lemma bindR_Inr [simp]: "bindR (Inr x) f = f x"
  by (simp add: bindR_def)

lemma bindR_eq_Inr: "bindR m f = Inr y \<longleftrightarrow> (\<exists>x. m = Inr x \<and> f x = Inr y)"
  by (cases m) auto

lemma bindR_eq_Inl: "bindR m f = Inl e \<longleftrightarrow> m = Inl e \<or> (\<exists>x. m = Inr x \<and> f x = Inl e)"
  by (cases m) auto

lemma bindR_assoc: "bindR (bindR m f) g = bindR m (\<lambda>x. bindR (f x) g)"
  by (cases m) auto

text \<open>A loop over a list whose body may fail.\<close>

fun foldR :: "('a \<Rightarrow> 's \<Rightarrow> 's res) \<Rightarrow> 'a list \<Rightarrow> 's \<Rightarrow> 's res" where
  "foldR f [] s = Inr s"
| "foldR f (x # xs) s = bindR (f x s) (foldR f xs)"

lemma foldR_append: "foldR f (xs @ ys) s = bindR (foldR f xs s) (foldR f ys)"
proof (induction xs arbitrary: s)
  case Nil
  then show ?case by simp
next
  case (Cons x xs)
  then show ?case by (cases "f x s") simp_all
qed

text \<open>An invariant that every body keeps, and under which no body fails.\<close>

lemma foldR_safe:
  assumes "\<And>x s. x \<in> set xs \<Longrightarrow> P s \<Longrightarrow> \<exists>s'. f x s = Inr s' \<and> P s'" and "P s"
  shows "\<exists>s'. foldR f xs s = Inr s' \<and> P s'"
  using assms
proof (induction xs arbitrary: s)
  case Nil
  then show ?case by simp
next
  case (Cons x xs)
  from Cons.prems obtain t where t: "f x s = Inr t" "P t"
    by (meson list.set_intros(1))
  from Cons.prems(1) have "\<And>x s. x \<in> set xs \<Longrightarrow> P s \<Longrightarrow> \<exists>s'. f x s = Inr s' \<and> P s'"
    by (meson list.set_intros(2))
  from Cons.IH[OF this t(2)] t(1) show ?case by simp
qed

lemma foldR_inv:
  assumes "foldR f xs s = Inr s'" and "P s"
    and "\<And>x s s'. x \<in> set xs \<Longrightarrow> P s \<Longrightarrow> f x s = Inr s' \<Longrightarrow> P s'"
  shows "P s'"
  using assms
proof (induction xs arbitrary: s)
  case Nil
  then show ?case by simp
next
  case (Cons x xs)
  from Cons.prems(1) obtain t where t: "f x s = Inr t" "foldR f xs t = Inr s'"
    by (auto simp: bindR_eq_Inr)
  from Cons.prems(3)[OF _ Cons.prems(2) t(1)] have "P t" by simp
  from Cons.IH[OF t(2) this] Cons.prems(3) show ?case
    by (meson list.set_intros(2))
qed

subsection \<open>C strings\<close>

definition cstr :: "string \<Rightarrow> bytes" where
  "cstr s = map of_char s"

text \<open>\<open>M_StringCopy(dest, src, n)\<close>: what \<open>dest\<close> holds afterwards, for \<open>n \<ge> 1\<close>.\<close>

definition M_StringCopy :: "bytes \<Rightarrow> nat \<Rightarrow> bytes" where
  "M_StringCopy src dest_size = take (dest_size - 1) src"

text \<open>The value \<open>M_StringCopy\<close> returns: whether nothing was cut off.\<close>

definition M_StringCopy_ret :: "bytes \<Rightarrow> nat \<Rightarrow> bool" where
  "M_StringCopy_ret src dest_size \<longleftrightarrow>
     dest_size \<ge> 1 \<and> length (M_StringCopy src dest_size) = length src"

text \<open>\<open>M_snprintf\<close> and \<open>M_vsnprintf\<close>: the formatted text, cut to the buffer.\<close>

definition M_snprintf :: "nat \<Rightarrow> bytes \<Rightarrow> bytes" where
  "M_snprintf buf_len text = take (buf_len - 1) text"

lemma set_take_notin: "x \<notin> set xs \<Longrightarrow> x \<notin> set (take n xs)"
  using in_set_takeD by fastforce

lemma M_StringCopy_no_nul: "0 \<notin> set s \<Longrightarrow> 0 \<notin> set (M_StringCopy s n)"
  by (simp add: M_StringCopy_def set_take_notin)

lemma M_StringCopy_length: "1 \<le> n \<Longrightarrow> length (M_StringCopy s n) < n"
  by (simp add: M_StringCopy_def)

lemma M_StringCopy_id: "length s < n \<Longrightarrow> M_StringCopy s n = s"
  by (simp add: M_StringCopy_def)

subsection \<open>Lists\<close>

lemma drop_eq_ConsD: "drop n xs = y # ys \<Longrightarrow> n < length xs \<and> xs ! n = y \<and> drop (Suc n) xs = ys"
  by (metis Cons_nth_drop_Suc drop_all leI list.distinct(1) list.inject)

lemma count_filter_update:
  assumes "i < length xs"
  shows "length (filter P (xs[i := x])) + (if P (xs ! i) then 1 else 0)
       = length (filter P xs) + (if P x then 1 else 0)"
  using assms
proof (induction xs arbitrary: i)
  case Nil
  then show ?case by simp
next
  case (Cons y ys)
  then show ?case by (cases i) auto
qed

lemma list_all_update: "list_all P xs \<Longrightarrow> P x \<Longrightarrow> list_all P (xs[i := x])"
  by (auto simp: list_all_iff dest: set_update_subset_insert [THEN subsetD])

lemma list_all_nth: "list_all P xs \<Longrightarrow> i < length xs \<Longrightarrow> P (xs ! i)"
  by (simp add: list_all_length)

lemma list_all_mono: "list_all P xs \<Longrightarrow> (\<And>x. P x \<Longrightarrow> Q x) \<Longrightarrow> list_all Q xs"
  by (simp add: list_all_iff)

lemma list_all_subset: "list_all P xs \<Longrightarrow> set ys \<subseteq> set xs \<Longrightarrow> list_all P ys"
  by (auto simp: list_all_iff)

subsection \<open>Words\<close>

lemma byte_of_u32_of_byte [simp]: "ucast (ucast (b :: u8) :: u32) = b"
  by (rule bit_word_eqI) (simp add: bit_simps)

lemma ff_mask: "(0xff :: 'a::len word) = mask 8" by (simp add: mask_eq_exp_minus_1)

lemma take_bit_ucast_u8 [simp]: "take_bit 8 (ucast (b :: u8) :: u32) = ucast b"
  by (rule bit_word_eqI) (auto simp: bit_simps dest: bit_imp_le_length)

lemma take_bit_ucast_u16 [simp]: "take_bit 16 (ucast (b :: u16) :: u32) = ucast b"
  by (rule bit_word_eqI) (auto simp: bit_simps dest: bit_imp_le_length)

lemma signed_take_bit_31 [simp]: "signed_take_bit 31 (d :: u32) = d"
proof (rule bit_word_eqI)
  fix n assume "n < LENGTH(32)"
  then have "n < 31 \<or> n = 31" by auto
  then show "bit (signed_take_bit 31 d) n = bit d n" by (auto simp: bit_simps)
qed

lemma take_bit_32 [simp]: "take_bit 32 (d :: u32) = d"
  by (rule bit_word_eqI) (auto simp: bit_simps dest: bit_imp_le_length)

lemma ucast_u8_back [simp]: "ucast (ucast i :: u8) = take_bit 8 (i :: u32)"
  by (rule bit_word_eqI) (auto simp: bit_simps dest: bit_imp_le_length)

lemma ucast_and_ff [simp]: "ucast (i AND 0xff :: u32) = (ucast i :: u8)"
  by (rule bit_word_eqI) (auto simp: ff_mask bit_simps dest: bit_imp_le_length)

text \<open>Decoding two or four big-endian bytes gives back the number they were cut from.\<close>

lemma join_bytes_16 [simp]:
  "push_bit 8 (take_bit 8 (drop_bit 8 i)) OR take_bit 8 i = take_bit 16 (i :: u32)"
  by (rule bit_word_eqI) (auto simp: bit_simps)

lemma join_bytes_32 [simp]:
  "push_bit 24 (take_bit 8 (drop_bit 24 i)) OR push_bit 16 (take_bit 8 (drop_bit 16 i)) OR
   take_bit 16 i = (i :: u32)" (is "?l = i")
proof (rule bit_word_eqI)
  fix n assume n: "n < LENGTH(32)"
  consider "n < 16" | "16 \<le> n" "n < 24" | "24 \<le> n" "n < 32"
    using n by fastforce
  then show "bit ?l n = bit i n"
    by cases (auto simp: bit_simps)
qed

lemma take_bit_16_of_byte [simp]: "take_bit 16 (ucast (b :: u8) :: u32) = ucast b"
  by (rule bit_word_eqI) (auto simp: bit_simps dest: bit_imp_le_length)

lemma take_bit_16_high_byte [simp]:
  "take_bit 16 (push_bit 8 (ucast (b :: u8)) :: u32) = push_bit 8 (ucast b)"
proof (rule bit_word_eqI)
  fix n
  have "bit b (n - 8) \<Longrightarrow> n - 8 < 8" by (auto dest: bit_imp_le_length)
  then show "bit (take_bit 16 (push_bit 8 (ucast b)) :: u32) n =
      bit (push_bit 8 (ucast b) :: u32) n"
    by (auto simp: bit_simps)
qed

text \<open>C division of signed integers truncates towards zero.\<close>

definition c_quot :: "int \<Rightarrow> int \<Rightarrow> int" where
  "c_quot a b = sgn a * sgn b * (\<bar>a\<bar> div \<bar>b\<bar>)"

definition c_div :: "u32 \<Rightarrow> u32 \<Rightarrow> u32" where
  "c_div a b = word_of_int (c_quot (sint a) (sint b))"

text \<open>The values a field of a given width can carry.\<close>

definition fits_u8 :: "u32 \<Rightarrow> bool" where "fits_u8 i \<longleftrightarrow> i < 256"
definition fits_u16 :: "u32 \<Rightarrow> bool" where "fits_u16 i \<longleftrightarrow> i < 65536"
definition fits_s8 :: "u32 \<Rightarrow> bool" where "fits_s8 i \<longleftrightarrow> - 128 \<le>s i \<and> i <s 128"
definition fits_s16 :: "u32 \<Rightarrow> bool" where "fits_s16 i \<longleftrightarrow> - 32768 \<le>s i \<and> i <s 32768"

lemma fits_u8_iff: "fits_u8 i \<longleftrightarrow> take_bit 8 i = i"
  by (simp add: fits_u8_def word_less_def word_uint_eq_iff unsigned_take_bit_eq
      take_bit_int_eq_self_iff)

lemma fits_u16_iff: "fits_u16 i \<longleftrightarrow> take_bit 16 i = i"
  by (simp add: fits_u16_def word_less_def word_uint_eq_iff unsigned_take_bit_eq
      take_bit_int_eq_self_iff)

lemma sint_signed_take_bit:
  "n < 31 \<Longrightarrow> sint (signed_take_bit n (w :: u32)) = signed_take_bit n (sint w)"
  by (rule bit_eqI) (auto simp: bit_simps min_def)

lemma signed_take_bit_self_iff:
  "n < 31 \<Longrightarrow> signed_take_bit n i = i \<longleftrightarrow> - (2 ^ n) \<le> sint i \<and> sint (i :: u32) < 2 ^ n"
  using signed_take_bit_int_eq_self_iff[of n "sint i"] sint_signed_take_bit[of n i]
  by (metis signed_word_eqI)

lemma sint_eq_uint_small: "uint v < 2 ^ 31 \<Longrightarrow> sint (v :: u32) = uint v"
  using signed_take_bit_int_eq_self_iff[of 31 "uint v"] uint_ge_0[of v]
  by (simp add: sint_uint)

lemma fits_u8_sint: "fits_u8 v \<Longrightarrow> 0 \<le> sint v \<and> sint v < 256"
  using sint_eq_uint_small[of v] by (simp add: fits_u8_def word_less_def)

lemma fits_s8_iff: "fits_s8 i \<longleftrightarrow> signed_take_bit 7 i = i"
  by (simp add: fits_s8_def signed_take_bit_self_iff word_sle_eq word_sless_alt)

lemma fits_s16_iff: "fits_s16 i \<longleftrightarrow> signed_take_bit 15 i = i"
  by (simp add: fits_s16_def signed_take_bit_self_iff word_sle_eq word_sless_alt)

lemma signed_take_bit_take_bit [simp]:
  "signed_take_bit 7 (take_bit 8 i) = signed_take_bit 7 (i :: u32)"
  "signed_take_bit 15 (take_bit 16 i) = signed_take_bit 15 (i :: u32)"
  by (simp_all add: signed_take_bit_eq_iff_take_bit_eq)

text \<open>
  The sign extension the signed reads write out (clear the top bit, subtract its weight) is
  two's complement sign extension.
\<close>

lemma sign_extend_step:
  fixes d :: u32
  assumes "k < 32" "take_bit (Suc k) d = d"
  shows "(if d AND push_bit k 1 \<noteq> 0 then (d AND NOT (push_bit k 1)) - push_bit k 1 else d)
       = signed_take_bit k d"
proof -
  have b: "d AND push_bit k 1 \<noteq> 0 \<longleftrightarrow> bit d k"
    by (simp add: push_bit_eq_mult and_exp_eq_0_iff_not_bit) 
  show ?thesis
  proof (cases "bit d k")
    case True
    have "d AND NOT (push_bit k 1) = take_bit k d"
    proof (rule bit_word_eqI)
      fix n
      have "bit d n \<Longrightarrow> n < Suc k" by (metis assms(2) bit_take_bit_iff)
      then show "bit (d AND NOT (push_bit k 1)) n = bit (take_bit k d) n" if "n < LENGTH(32)"
        using that by (auto simp: bit_simps)
    qed
    moreover have "take_bit k d OR NOT (mask k) = take_bit k d + NOT (mask k)"
      by (rule disjunctive_add [symmetric]) (simp add: bit_simps)
    ultimately show ?thesis using True b
      by (simp add: signed_take_bit_def minus_exp_eq_not_mask push_bit_eq_mult flip: minus_exp_eq_not_mask)
  next
    case False
    have "take_bit k d = d"
    proof (rule bit_word_eqI)
      fix n
      have "bit d n \<Longrightarrow> n < Suc k" by (metis assms(2) bit_take_bit_iff)
      then show "bit (take_bit k d) n = bit d n" using False
        by (auto simp: bit_simps less_Suc_eq)
    qed
    then show ?thesis using False b by (simp add: signed_take_bit_def)
  qed
qed

subsection \<open>Words as natural numbers\<close>

lemma mod_once: "m \<le> x \<Longrightarrow> x < m + m \<Longrightarrow> x mod m = (x :: int) - m"
  using minus_mod_self2 [of x m] mod_pos_pos_trivial [of "x - m" m] by linarith

lemma unat_bound: "unat (w :: u32) < 4294967296"
  using unsigned_less [of w] by simp

lemma sint_cases:
  "sint (w :: u32) = (if unat w < 2147483648 then int (unat w) else int (unat w) - 4294967296)"
proof -
  define x where "x = uint w"
  have b: "0 \<le> x" "x < 4294967296" using uint_lt2p [of w] by (simp_all add: x_def)
  have "sint w = (x + 2147483648) mod 4294967296 - 2147483648"
    by (simp add: x_def sint_uint signed_take_bit_eq_take_bit_shift take_bit_eq_mod)
  also have "\<dots> = (if x < 2147483648 then x else x - 4294967296)"
    using b mod_once [of 4294967296 "x + 2147483648"] by simp
  finally have "sint w = (if x < 2147483648 then x else x - 4294967296)" .
  moreover have "x = int (unat w)" by (simp add: x_def)
  ultimately show ?thesis by (simp only: of_nat_less_numeral_iff)
qed

lemma unat_of_nat_small: "n < 4294967296 \<Longrightarrow> unat (of_nat n :: u32) = n"
  by (simp add: unsigned_of_nat take_bit_nat_eq_self)

lemma sint_nat: "n < 2147483648 \<Longrightarrow> sint (of_nat n :: u32) = int n"
  by (simp add: sint_cases unat_of_nat_small)

lemma sint_of_int32: "- 2147483648 \<le> i \<Longrightarrow> i < 2147483648 \<Longrightarrow> sint (word_of_int i :: u32) = i"
  by (simp add: signed_of_int signed_take_bit_int_eq_self)

lemma word_sint: "(word_of_int (sint w) :: 'w :: len word) = w"
  by simp

lemma sint_u32_range: "- 2147483648 \<le> sint (w :: u32)" "sint (w :: u32) < 2147483648"
  using sint_greater_eq [of w] sint_less [of w] by simp_all

lemma sle_nat_iff:
  assumes "n < 2147483648"
  shows "of_nat n \<le>s (w :: u32) \<longleftrightarrow> unat w < 2147483648 \<and> n \<le> unat w"
proof -
  have n: "sint (of_nat n :: u32) = int n" using assms by (simp add: sint_cases unat_of_nat_small)
  show ?thesis
  proof (cases "unat w < 2147483648")
    case True
    then have "sint w = int (unat w)" unfolding sint_cases by (simp only: if_True)
    then show ?thesis using True n by (simp only: word_sle_eq of_nat_le_iff simp_thms)
  next
    case False
    then have "sint w = int (unat w) - 4294967296" unfolding sint_cases by (simp only: if_False)
    then have "sint w < 0" using unat_bound [of w] by linarith
    then show ?thesis using False n by (simp add: word_sle_eq)
  qed
qed

lemma sless_0_iff: "w <s (0 :: u32) \<longleftrightarrow> 2147483648 \<le> unat w"
  using sle_nat_iff [of 0 w] by (simp add: word_sle_eq word_sless_alt) linarith

lemma zero_sle_iff: "(0 :: u32) \<le>s w \<longleftrightarrow> unat w < 2147483648"
  using sle_nat_iff [of 0 w] by simp

lemma unat_minus_wrap:
  "unat (a - b :: u32) = (if unat b \<le> unat a then unat a - unat b else unat a + 4294967296 - unat b)"
  by (simp add: unat_sub_if')

lemma unat_plus_1: "unat (a :: u32) < 4294967295 \<Longrightarrow> unat (a + 1) = Suc (unat a)"
  by (subst unat_plus_if') simp

end
