(* ===== verification/Net_Packet.thy ===== *)
theory Net_Packet
  imports Doom_Prelude
begin

text \<open>
  The network packet buffer (\<open>engine/src/net_packet.c\<close>): a growing byte buffer with a read
  position. \<open>pdata\<close> holds the first \<open>len\<close> bytes of the C buffer, \<open>palloced\<close> its
  allocated size, \<open>ppos\<close> the read position; the bytes between \<open>len\<close> and \<open>alloced\<close>
  are never read and are not modelled. A write that ran past the allocation would leave
  \<open>length (pdata p) > palloced p\<close>, which \<open>pkt_ok\<close> excludes. The static counter
  \<open>total_packet_memory\<close> is write-only and is left out.

  The locale \<open>packet_codec\<close> is the interface every wire format of the program offers to the
  code above it: a writer that appends the encoding of a value and a reader that takes it
  back off the front of the unread bytes.
\<close>

subsection \<open>The buffer and its operations\<close>

record net_packet =
  pdata :: bytes
  palloced :: nat
  ppos :: nat

definition NET_NewPacket :: "nat \<Rightarrow> net_packet" where
  "NET_NewPacket initial_size =
     (let size = (if initial_size = 0 then 256 else initial_size)
      in \<lparr>pdata = [], palloced = size, ppos = 0\<rparr>)"

definition NET_PacketDup :: "net_packet \<Rightarrow> net_packet" where
  "NET_PacketDup packet =
     (let newpacket = NET_NewPacket (length (pdata packet))
      in newpacket\<lparr>pdata := pdata packet\<rparr>)"

definition NET_ReadInt8 :: "net_packet \<Rightarrow> (u32 \<times> net_packet) option" where
  "NET_ReadInt8 packet =
     (if ppos packet + 1 > length (pdata packet) then None
      else Some (ucast (pdata packet ! ppos packet), packet\<lparr>ppos := ppos packet + 1\<rparr>))"

definition NET_ReadInt16 :: "net_packet \<Rightarrow> (u32 \<times> net_packet) option" where
  "NET_ReadInt16 packet =
     (if ppos packet + 2 > length (pdata packet) then None
      else let p = (\<lambda>i. ucast (pdata packet ! (ppos packet + i)) :: u32)
           in Some (push_bit 8 (p 0) OR p 1, packet\<lparr>ppos := ppos packet + 2\<rparr>))"

definition NET_ReadInt32 :: "net_packet \<Rightarrow> (u32 \<times> net_packet) option" where
  "NET_ReadInt32 packet =
     (if ppos packet + 4 > length (pdata packet) then None
      else let p = (\<lambda>i. ucast (pdata packet ! (ppos packet + i)) :: u32)
           in Some (push_bit 24 (p 0) OR push_bit 16 (p 1) OR push_bit 8 (p 2) OR p 3,
                    packet\<lparr>ppos := ppos packet + 4\<rparr>))"

text \<open>The signed reads clear the sign bit and subtract its weight.\<close>

definition NET_ReadSInt8 :: "net_packet \<Rightarrow> (u32 \<times> net_packet) option" where
  "NET_ReadSInt8 packet = do {
     (data, packet) \<leftarrow> NET_ReadInt8 packet;
     Some (if data AND push_bit 7 1 \<noteq> 0
           then (data AND NOT (push_bit 7 1)) - push_bit 7 1 else data, packet)
   }"

definition NET_ReadSInt16 :: "net_packet \<Rightarrow> (u32 \<times> net_packet) option" where
  "NET_ReadSInt16 packet = do {
     (data, packet) \<leftarrow> NET_ReadInt16 packet;
     Some (if data AND push_bit 15 1 \<noteq> 0
           then (data AND NOT (push_bit 15 1)) - push_bit 15 1 else data, packet)
   }"

definition NET_ReadSInt32 :: "net_packet \<Rightarrow> (u32 \<times> net_packet) option" where
  "NET_ReadSInt32 packet = do {
     (data, packet) \<leftarrow> NET_ReadInt32 packet;
     Some (if data AND push_bit 31 1 \<noteq> 0
           then (data AND NOT (push_bit 31 1)) - push_bit 31 1 else data, packet)
   }"

text \<open>The search for the terminating NUL: the position where the loop stops.\<close>

function skip_to_nul :: "bytes \<Rightarrow> nat \<Rightarrow> nat" where
  "skip_to_nul d pos =
     (if pos < length d \<and> d ! pos \<noteq> 0 then skip_to_nul d (Suc pos) else pos)"
  by pat_completeness auto
termination
  by (relation "measure (\<lambda>(d, pos). length d - pos)") auto

declare skip_to_nul.simps [simp del]

text \<open>
  The pointer \<open>NET_ReadString\<close> returns is the string up to its NUL; \<open>None\<close> is NULL.
  Either way the position moves.
\<close>

definition NET_ReadString :: "net_packet \<Rightarrow> bytes option \<times> net_packet" where
  "NET_ReadString packet =
     (let start = ppos packet;
          pos = skip_to_nul (pdata packet) start
      in if pos \<ge> length (pdata packet) then (None, packet\<lparr>ppos := pos\<rparr>)
         else (Some (take (pos - start) (drop start (pdata packet))), packet\<lparr>ppos := pos + 1\<rparr>))"

text \<open>\<open>isprint\<close> in the C locale, or a newline.\<close>

definition safe_char :: "u8 \<Rightarrow> bool" where
  "safe_char c \<longleftrightarrow> (32 \<le> c \<and> c < 127) \<or> c = 10"

text \<open>
  The in-place compaction of \<open>NET_ReadSafeString\<close>: \<open>r\<close> reads, \<open>w\<close> writes, both
  indices into the packet's buffer. It returns the buffer and the final \<open>w\<close>, where the NUL
  is stored.
\<close>

function sanitize :: "bytes \<Rightarrow> nat \<Rightarrow> nat \<Rightarrow> bytes \<times> nat" where
  "sanitize d r w =
     (if r < length d \<and> d ! r \<noteq> 0
      then if safe_char (d ! r) then sanitize (d[w := d ! r]) (Suc r) (Suc w)
           else sanitize d (Suc r) w
      else (d[w := 0], w))"
  by pat_completeness auto
termination
  by (relation "measure (\<lambda>(d, r, w). length d - r)") auto

declare sanitize.simps [simp del]

definition NET_ReadSafeString :: "net_packet \<Rightarrow> bytes option \<times> net_packet" where
  "NET_ReadSafeString packet =
     (let start = ppos packet
      in case NET_ReadString packet of
           (None, packet) \<Rightarrow> (None, packet)
         | (Some _, packet) \<Rightarrow>
             (let (d, w) = sanitize (pdata packet) start start
              in (Some (take (w - start) (drop start d)), packet\<lparr>pdata := d\<rparr>)))"

definition NET_IncreasePacket :: "net_packet \<Rightarrow> net_packet" where
  "NET_IncreasePacket packet = packet\<lparr>palloced := palloced packet * 2\<rparr>"

definition NET_WriteInt8 :: "net_packet \<Rightarrow> u32 \<Rightarrow> net_packet" where
  "NET_WriteInt8 packet i =
     (let packet = (if length (pdata packet) + 1 > palloced packet
                    then NET_IncreasePacket packet else packet)
      in packet\<lparr>pdata := pdata packet @ [ucast i]\<rparr>)"

definition NET_WriteInt16 :: "net_packet \<Rightarrow> u32 \<Rightarrow> net_packet" where
  "NET_WriteInt16 packet i =
     (let packet = (if length (pdata packet) + 2 > palloced packet
                    then NET_IncreasePacket packet else packet)
      in packet\<lparr>pdata := pdata packet @
           [ucast (drop_bit 8 i AND 0xff), ucast (i AND 0xff)]\<rparr>)"

definition NET_WriteInt32 :: "net_packet \<Rightarrow> u32 \<Rightarrow> net_packet" where
  "NET_WriteInt32 packet i =
     (let packet = (if length (pdata packet) + 4 > palloced packet
                    then NET_IncreasePacket packet else packet)
      in packet\<lparr>pdata := pdata packet @
           [ucast (drop_bit 24 i AND 0xff), ucast (drop_bit 16 i AND 0xff),
            ucast (drop_bit 8 i AND 0xff), ucast (i AND 0xff)]\<rparr>)"

text \<open>
  The doubling loop of \<open>NET_WriteString\<close>. With \<open>palloced = 0\<close> the C loop would not
  end; \<open>NET_NewPacket\<close> never makes such a packet and no operation leads to one
  (\<open>pkt_ok\<close> below), so the guard on 0 is never what stops the recursion.
\<close>

function grow :: "nat \<Rightarrow> net_packet \<Rightarrow> net_packet" where
  "grow need packet =
     (if palloced packet \<noteq> 0 \<and> need > palloced packet
      then grow need (NET_IncreasePacket packet) else packet)"
  by pat_completeness auto
termination
  by (relation "measure (\<lambda>(need, packet). need - palloced packet)")
     (auto simp: NET_IncreasePacket_def)

declare grow.simps [simp del]

definition NET_WriteString :: "net_packet \<Rightarrow> bytes \<Rightarrow> net_packet" where
  "NET_WriteString packet string =
     (let string_size = length string + 1;
          packet = grow (length (pdata packet) + string_size) packet
      in packet\<lparr>pdata := pdata packet @ M_StringCopy string string_size @ [0]\<rparr>)"

subsection \<open>The unread rest of a packet\<close>

definition rest :: "net_packet \<Rightarrow> bytes" where
  "rest p = drop (ppos p) (pdata p)"

definition adv :: "nat \<Rightarrow> net_packet \<Rightarrow> net_packet" where
  "adv n p = p\<lparr>ppos := ppos p + n\<rparr>"

lemma rest_adv [simp, rest_simps]: "rest (adv n p) = drop n (rest p)"
  by (simp add: rest_def adv_def add.commute)

lemma adv_adv [simp, rest_simps]: "adv m (adv n p) = adv (n + m) p"
  by (simp add: adv_def add.assoc)

lemma adv_0 [simp]: "adv 0 p = p"
  by (simp add: adv_def)

lemma adv_nums:
  "adv 2 p = adv (Suc (Suc 0)) p" "adv 4 p = adv (Suc (Suc (Suc (Suc 0)))) p"
  by (simp_all add: eval_nat_numeral)

lemma pdata_adv [simp]: "pdata (adv n p) = pdata p"
  by (simp add: adv_def)

lemma rest_Cons_pos: "rest p = b # r \<Longrightarrow> ppos p < length (pdata p)"
  unfolding rest_def using drop_eq_ConsD by fastforce

lemma rest_nth: "i < length (rest p) \<Longrightarrow> rest p ! i = pdata p ! (ppos p + i)"
  by (simp add: rest_def)

lemma length_rest: "length (rest p) = length (pdata p) - ppos p"
  by (simp add: rest_def)

lemma NET_ReadInt8_rest:
  "NET_ReadInt8 p = (case rest p of [] \<Rightarrow> None | b # _ \<Rightarrow> Some (ucast b, adv 1 p))"
  by (cases "rest p")
     (auto simp: NET_ReadInt8_def rest_def adv_def dest: drop_eq_ConsD)

lemma NET_ReadInt16_rest:
  "NET_ReadInt16 p = (case rest p of
      b0 # b1 # _ \<Rightarrow> Some (push_bit 8 (ucast b0) OR ucast b1, adv 2 p) | _ \<Rightarrow> None)"
proof (cases "2 \<le> length (rest p)")
  case True
  then obtain b0 b1 r where r: "rest p = b0 # b1 # r"
    by (metis (no_types) One_nat_def Suc_1 Suc_le_length_iff)
  then have "pdata p ! ppos p = b0" "pdata p ! Suc (ppos p) = b1"
    using rest_nth[of 0 p] rest_nth[of 1 p] by auto
  moreover have "ppos p + 2 \<le> length (pdata p)" using True by (simp add: length_rest)
  ultimately show ?thesis
    by (simp add: NET_ReadInt16_def r adv_def Let_def)
next
  case False
  then have "ppos p + 2 > length (pdata p)" by (simp add: length_rest)
  with False show ?thesis
    by (auto simp: NET_ReadInt16_def split: list.split)
qed

lemma NET_ReadInt32_rest:
  "NET_ReadInt32 p = (case rest p of
      b0 # b1 # b2 # b3 # _ \<Rightarrow>
        Some (push_bit 24 (ucast b0) OR push_bit 16 (ucast b1) OR push_bit 8 (ucast b2)
              OR ucast b3, adv 4 p) | _ \<Rightarrow> None)"
proof (cases "4 \<le> length (rest p)")
  case True
  then obtain b0 b1 b2 b3 r where r: "rest p = b0 # b1 # b2 # b3 # r"
    by (auto simp: Suc_le_length_iff numeral_eq_Suc)
  then have "pdata p ! ppos p = b0" "pdata p ! (ppos p + 1) = b1"
    "pdata p ! (ppos p + 2) = b2" "pdata p ! (ppos p + 3) = b3"
    using rest_nth[of 0 p] rest_nth[of 1 p] rest_nth[of 2 p] rest_nth[of 3 p] by auto
  moreover have "ppos p + 4 \<le> length (pdata p)" using True by (simp add: length_rest)
  ultimately show ?thesis
    by (simp add: NET_ReadInt32_def r adv_def Let_def)
next
  case False
  then have "ppos p + 4 > length (pdata p)" by (simp add: length_rest)
  with False show ?thesis
    by (auto simp: NET_ReadInt32_def split: list.split)
qed

subsection \<open>What each operation does\<close>

definition pkt_ok :: "net_packet \<Rightarrow> bool" where
  "pkt_ok p \<longleftrightarrow> length (pdata p) \<le> palloced p \<and> 4 \<le> palloced p"

lemma pkt_ok_NewPacket [inv_intros]: "n = 0 \<or> 4 \<le> n \<Longrightarrow> pkt_ok (NET_NewPacket n)"
  by (auto simp: pkt_ok_def NET_NewPacket_def)

lemma pkt_ok_WriteInt8 [inv_intros]: "pkt_ok p \<Longrightarrow> pkt_ok (NET_WriteInt8 p i)"
  by (auto simp: pkt_ok_def NET_WriteInt8_def NET_IncreasePacket_def)

lemma pkt_ok_WriteInt16 [inv_intros]: "pkt_ok p \<Longrightarrow> pkt_ok (NET_WriteInt16 p i)"
  by (auto simp: pkt_ok_def NET_WriteInt16_def NET_IncreasePacket_def)

lemma pkt_ok_WriteInt32 [inv_intros]: "pkt_ok p \<Longrightarrow> pkt_ok (NET_WriteInt32 p i)"
  by (auto simp: pkt_ok_def NET_WriteInt32_def NET_IncreasePacket_def)

lemma grow_alloced:
  "0 < palloced p \<Longrightarrow> need \<le> palloced (grow need p) \<and> palloced p \<le> palloced (grow need p)"
proof (induction need p rule: grow.induct)
  case (1 need p)
  show ?case
  proof (cases "need > palloced p")
    case True
    with 1 have "need \<le> palloced (grow need (NET_IncreasePacket p))
        \<and> palloced (NET_IncreasePacket p) \<le> palloced (grow need (NET_IncreasePacket p))"
      by (simp add: NET_IncreasePacket_def)
    with True "1.prems" show ?thesis
      by (auto simp: grow.simps [of need p] NET_IncreasePacket_def)
  next
    case False
    then show ?thesis by (simp add: grow.simps [of need p])
  qed
qed

lemma grow_frame [simp]: "pdata (grow need p) = pdata p" "ppos (grow need p) = ppos p"
proof (induction need p rule: grow.induct)
  case (1 need p)
  {
    case 1
    then show ?case using "1.IH" by (simp add: grow.simps [of need p] NET_IncreasePacket_def)
  next
    case 2
    then show ?case using "1.IH" by (simp add: grow.simps [of need p] NET_IncreasePacket_def)
  }
qed

lemma pkt_ok_WriteString [inv_intros]:
  assumes "pkt_ok p"
  shows "pkt_ok (NET_WriteString p s)"
proof -
  let ?need = "length (pdata p) + (length s + 1)"
  from assms have "?need \<le> palloced (grow ?need p) \<and> palloced p \<le> palloced (grow ?need p)"
    by (intro grow_alloced) (simp add: pkt_ok_def)
  with assms show ?thesis
    by (simp add: pkt_ok_def NET_WriteString_def M_StringCopy_def)
qed

lemma WriteInt8_frame [simp]:
  "pdata (NET_WriteInt8 p i) = pdata p @ [ucast i]" "ppos (NET_WriteInt8 p i) = ppos p"
  by (simp_all add: NET_WriteInt8_def NET_IncreasePacket_def)

lemma WriteInt16_frame [simp]:
  "pdata (NET_WriteInt16 p i) = pdata p @ [ucast (drop_bit 8 i), ucast i]"
  "ppos (NET_WriteInt16 p i) = ppos p"
  by (simp_all add: NET_WriteInt16_def NET_IncreasePacket_def)

lemma WriteInt32_frame [simp]:
  "pdata (NET_WriteInt32 p i) =
     pdata p @ [ucast (drop_bit 24 i), ucast (drop_bit 16 i), ucast (drop_bit 8 i), ucast i]"
  "ppos (NET_WriteInt32 p i) = ppos p"
  by (simp_all add: NET_WriteInt32_def NET_IncreasePacket_def)

lemma WriteString_frame [simp]:
  "pdata (NET_WriteString p s) = pdata p @ s @ [0]" "ppos (NET_WriteString p s) = ppos p"
  by (simp_all add: NET_WriteString_def M_StringCopy_def)

lemma NewPacket_frame [simp]: "pdata (NET_NewPacket n) = []" "ppos (NET_NewPacket n) = 0"
  by (simp_all add: NET_NewPacket_def Let_def)

text \<open>The signed reads sign-extend.\<close>

lemma NET_ReadSInt8_rest:
  "NET_ReadSInt8 p =
     (case rest p of [] \<Rightarrow> None | b # _ \<Rightarrow> Some (signed_take_bit 7 (ucast b), adv 1 p))"
  using sign_extend_step[of 7 "ucast b" for b :: u8]
  by (simp add: NET_ReadSInt8_def NET_ReadInt8_rest split: list.split del: push_bit_of_1)

lemma NET_ReadSInt16_read:
  "NET_ReadSInt16 p = map_option (\<lambda>(d, q). (signed_take_bit 15 d, q)) (NET_ReadInt16 p)"
proof (cases "NET_ReadInt16 p")
  case None
  then show ?thesis by (simp add: NET_ReadSInt16_def)
next
  case (Some a)
  obtain d q where a: "a = (d, q)" by (cases a)
  from Some a have "take_bit 16 d = d"
    by (auto simp: NET_ReadInt16_def Let_def split: if_splits)
  then show ?thesis using Some a sign_extend_step[of 15 d]
    by (simp add: NET_ReadSInt16_def del: push_bit_of_1)
qed

lemma NET_ReadSInt32_read: "NET_ReadSInt32 p = NET_ReadInt32 p"
proof (cases "NET_ReadInt32 p")
  case None
  then show ?thesis by (simp add: NET_ReadSInt32_def)
next
  case (Some a)
  obtain d q where a: "a = (d, q)" by (cases a)
  with Some sign_extend_step[of 31 d] show ?thesis
    by (simp add: NET_ReadSInt32_def del: push_bit_of_1)
qed

subsection \<open>Strings\<close>

lemma skip_to_nul_ge: "start \<le> skip_to_nul d start"
proof (induction d start rule: skip_to_nul.induct)
  case (1 d pos)
  then show ?case by (subst skip_to_nul.simps) (auto intro: Suc_leD)
qed

lemma skip_to_nul_found:
  "drop pos d = s @ 0 # r \<Longrightarrow> 0 \<notin> set s \<Longrightarrow> skip_to_nul d pos = pos + length s"
proof (induction s arbitrary: pos)
  case Nil
  then have "d ! pos = 0" using drop_eq_ConsD[of pos d 0 r] by simp
  then show ?case by (simp add: skip_to_nul.simps)
next
  case (Cons c s)
  then have c: "pos < length d" "d ! pos = c" "drop (Suc pos) d = s @ 0 # r"
    using drop_eq_ConsD[of pos d c "s @ 0 # r"] by auto
  from Cons.IH[OF c(3)] Cons.prems(2) have "skip_to_nul d (Suc pos) = Suc pos + length s"
    by simp
  with c Cons.prems(2) show ?case by (simp add: skip_to_nul.simps [of d pos])
qed

lemma skip_to_nul_none:
  "0 \<notin> set (drop pos d) \<Longrightarrow> pos \<le> length d \<Longrightarrow> skip_to_nul d pos = length d"
proof (induction d pos rule: skip_to_nul.induct)
  case (1 d pos)
  show ?case
  proof (cases "pos < length d")
    case True
    with "1.prems" have "d ! pos \<noteq> 0" "0 \<notin> set (drop (Suc pos) d)"
      by (metis Cons_nth_drop_Suc list.set_intros)+
    with True "1.IH" show ?thesis by (simp add: skip_to_nul.simps [of d pos])
  next
    case False
    with "1.prems" have "pos = length d" by simp
    then show ?thesis by (simp add: skip_to_nul.simps [of d "length d"])
  qed
qed

lemma NET_ReadString_found:
  assumes "rest p = s @ 0 # r" "0 \<notin> set s"
  shows "NET_ReadString p = (Some s, adv (length s + 1) p)"
proof -
  have skip: "skip_to_nul (pdata p) (ppos p) = ppos p + length s"
    using assms unfolding rest_def by (rule skip_to_nul_found)
  have "ppos p + length s < length (pdata p)"
  proof -
    have "length (rest p) = length s + 1 + length r" using assms(1) by simp
    then show ?thesis by (simp add: length_rest)
  qed
  then show ?thesis using assms
    by (simp add: NET_ReadString_def Let_def skip adv_def rest_def)
qed

lemma NET_ReadString_none:
  assumes "0 \<notin> set (rest p)" "ppos p \<le> length (pdata p)"
  shows "NET_ReadString p = (None, p\<lparr>ppos := length (pdata p)\<rparr>)"
  using assms skip_to_nul_none[of "ppos p" "pdata p"]
  by (simp add: NET_ReadString_def Let_def rest_def)

lemma nul_split: "0 \<in> set (xs :: bytes) \<Longrightarrow> \<exists>s r. xs = s @ 0 # r \<and> 0 \<notin> set s"
  by (metis split_list_first)

text \<open>Whatever the packet holds, a string that is read has no NUL in it.\<close>

lemma NET_ReadString_no_nul:
  assumes "NET_ReadString p = (Some s, q)"
  shows "0 \<notin> set s" "pdata q = pdata p" "ppos p < ppos q" "ppos q \<le> length (pdata q)"
    "rest p = s @ 0 # rest q"
proof -
  have pos: "ppos p \<le> length (pdata p)"
    using assms skip_to_nul_ge[of "ppos p" "pdata p"]
    by (auto simp: NET_ReadString_def Let_def split: if_splits)
  have "0 \<in> set (rest p)"
    using assms pos NET_ReadString_none[of p] by (metis Pair_inject option.distinct(1))
  then obtain s' r where sr: "rest p = s' @ 0 # r" "0 \<notin> set s'" using nul_split by blast
  with assms NET_ReadString_found[OF sr] have eq: "s = s'" "q = adv (length s + 1) p" by auto
  show "0 \<notin> set s" "pdata q = pdata p" "ppos p < ppos q" using sr eq by (auto simp: adv_def)
  show "rest p = s @ 0 # rest q" using sr eq by simp
  have "length (rest p) \<ge> length s + 1" using sr eq by simp
  then show "ppos q \<le> length (pdata q)" using eq by (simp add: adv_def length_rest)
qed

text \<open>
  The in-place filter of \<open>NET_ReadSafeString\<close>: over a region that holds \<open>s\<close> and its NUL it
  leaves the filtered string, its NUL, and the stale tail of the old string behind.
\<close>

lemma sanitize_region:
  assumes "d = pre @ kept @ junk @ s @ 0 # post" "0 \<notin> set s"
    and "w = length pre + length kept" "r = length pre + length kept + length junk"
  shows "\<exists>junk'. sanitize d r w =
      (pre @ kept @ filter safe_char s @ 0 # junk' @ post, w + length (filter safe_char s))
    \<and> length (filter safe_char s) + length junk' = length junk + length s"
  using assms
proof (induction s arbitrary: d kept junk w r)
  case Nil
  have "d ! r = 0" using Nil by (auto simp: nth_append)
  then have stop: "sanitize d r w = (d[w := 0], w)" by (simp add: sanitize.simps [of d r w])
  show ?case
  proof (cases junk)
    case Nil': Nil
    then show ?thesis using Nil unfolding stop
      by (intro exI[of _ "[]"]) (simp add: list_update_append)
  next
    case (Cons j js)
    then show ?thesis using Nil unfolding stop
      by (intro exI[of _ "js @ [0]"]) (simp add: list_update_append)
  qed
next
  case (Cons c s)
  have dr: "d ! r = c" "r < length d" "c \<noteq> 0" using Cons.prems by (auto simp: nth_append)
  show ?case
  proof (cases "safe_char c")
    case False
    have "d = pre @ kept @ (junk @ [c]) @ s @ 0 # post" using Cons.prems by simp
    from Cons.IH[OF this] Cons.prems obtain junk' where
      "sanitize d (Suc r) w = (pre @ kept @ filter safe_char s @ 0 # junk' @ post,
          w + length (filter safe_char s))"
      "length (filter safe_char s) + length junk' = length (junk @ [c]) + length s"
      by auto
    moreover have "sanitize d r w = sanitize d (Suc r) w"
      using dr False by (simp add: sanitize.simps [of d r w])
    ultimately show ?thesis using False by auto
  next
    case True
    have "\<exists>junk2. d[w := c] = pre @ (kept @ [c]) @ junk2 @ s @ 0 # post
        \<and> length junk2 = length junk"
    proof (cases junk)
      case Nil
      then show ?thesis using Cons.prems by (simp add: list_update_append)
    next
      case J: (Cons j js)
      then show ?thesis using Cons.prems
        by (intro exI[of _ "js @ [c]"]) (simp add: list_update_append)
    qed
    then obtain junk2 where j2: "d[w := c] = pre @ (kept @ [c]) @ junk2 @ s @ 0 # post"
      "length junk2 = length junk" by blast
    from Cons.IH[OF j2(1)] Cons.prems j2(2) obtain junk' where
      "sanitize (d[w := c]) (Suc r) (Suc w) =
         (pre @ (kept @ [c]) @ filter safe_char s @ 0 # junk' @ post,
          Suc w + length (filter safe_char s))"
      "length (filter safe_char s) + length junk' = length junk2 + length s"
      by auto
    moreover have "sanitize d r w = sanitize (d[w := c]) (Suc r) (Suc w)"
      using dr True by (simp add: sanitize.simps [of d r w])
    ultimately show ?thesis using True j2(2) by auto
  qed
qed

lemma NET_ReadSafeString_filter:
  assumes "rest p = s @ 0 # r" "0 \<notin> set s"
  shows "\<exists>q. NET_ReadSafeString p = (Some (filter safe_char s), q) \<and> rest q = r
    \<and> ppos q = ppos p + length s + 1 \<and> length (pdata q) = length (pdata p)
    \<and> take (ppos p) (pdata q) = take (ppos p) (pdata p)"
proof -
  let ?pre = "take (ppos p) (pdata p)" and ?k = "filter safe_char s"
  have "length (rest p) > 0" using assms(1) by simp
  then have len: "length ?pre = ppos p" by (simp add: length_rest)
  have "pdata p = ?pre @ [] @ [] @ s @ 0 # r"
    using assms(1) append_take_drop_id[of "ppos p" "pdata p"] by (simp add: rest_def)
  from sanitize_region[OF this assms(2) refl refl] len obtain junk where
    san: "sanitize (pdata p) (ppos p) (ppos p) = (?pre @ ?k @ 0 # junk @ r, ppos p + length ?k)"
    and junk: "length ?k + length junk = length s" by auto
  let ?d = "?pre @ ?k @ 0 # junk @ r"
  have "NET_ReadSafeString p = (Some ?k, (adv (length s + 1) p)\<lparr>pdata := ?d\<rparr>)"
    using NET_ReadString_found[OF assms] san len by (simp add: NET_ReadSafeString_def Let_def)
  moreover have "length (pdata p) = ppos p + length s + 1 + length r"
    using assms(1) len length_rest[of p] by simp
  ultimately show ?thesis using len
    by (auto simp: rest_def adv_def simp flip: junk)
qed

subsection \<open>The interface of a wire format\<close>

text \<open>
  A wire format is a writer \<open>wr\<close>, a reader \<open>rd\<close>, the bytes \<open>enc\<close> a value is sent as
  and the values \<open>wf\<close> the format can carry. The writer only appends \<open>enc x\<close> and keeps the
  buffer inside its allocation; the reader takes \<open>enc x\<close> back off the front of the unread
  bytes, whatever follows.
\<close>

fun write_all :: "(net_packet \<Rightarrow> 'a \<Rightarrow> net_packet) \<Rightarrow> net_packet \<Rightarrow> 'a list \<Rightarrow> net_packet" where
  "write_all wr p [] = p"
| "write_all wr p (x # xs) = write_all wr (wr p x) xs"

fun read_n :: "(net_packet \<Rightarrow> ('a \<times> net_packet) option) \<Rightarrow> nat \<Rightarrow> net_packet
    \<Rightarrow> ('a list \<times> net_packet) option" where
  "read_n rd 0 p = Some ([], p)"
| "read_n rd (Suc n) p = do {
     (x, p) \<leftarrow> rd p;
     (xs, p) \<leftarrow> read_n rd n p;
     Some (x # xs, p)
   }"

locale packet_codec =
  fixes wr :: "net_packet \<Rightarrow> 'a \<Rightarrow> net_packet"
    and rd :: "net_packet \<Rightarrow> ('a \<times> net_packet) option"
    and enc :: "'a \<Rightarrow> bytes"
    and wf :: "'a \<Rightarrow> bool"
  assumes wr_data: "pdata (wr p x) = pdata p @ enc x"
    and wr_pos: "ppos (wr p x) = ppos p"
    and wr_ok: "pkt_ok p \<Longrightarrow> pkt_ok (wr p x)"
    and rd_enc: "wf x \<Longrightarrow> rest p = enc x @ r \<Longrightarrow> rd p = Some (x, adv (length (enc x)) p)"
begin

lemma wr_rest: "ppos p \<le> length (pdata p) \<Longrightarrow> rest (wr p x) = rest p @ enc x"
  by (simp add: rest_def wr_data wr_pos)

text \<open>A value written at the end of a fully read packet is read back.\<close>

lemma round_trip:
  assumes "wf x" "ppos p = length (pdata p)"
  shows "rd (wr p x) = Some (x, adv (length (enc x)) (wr p x))"
proof -
  have "rest (wr p x) = enc x @ []" by (simp add: rest_def wr_data wr_pos assms(2))
  with assms(1) show ?thesis by (rule rd_enc)
qed

lemma round_trip_new: "wf x \<Longrightarrow> \<exists>q. rd (wr (NET_NewPacket n) x) = Some (x, q)"
  by (rule exI) (rule round_trip, simp_all)

text \<open>No encoding is a proper prefix of another: messages can follow each other.\<close>

lemma enc_prefix_free:
  assumes "wf x" "wf y" "enc x @ r = enc y @ s"
  shows "x = y \<and> r = s"
proof -
  let ?p = "\<lparr>pdata = enc x @ r, palloced = 4, ppos = 0\<rparr>"
  have "rest ?p = enc x @ r" "rest ?p = enc y @ s" using assms(3) by (simp_all add: rest_def)
  from rd_enc[OF assms(1) this(1)] rd_enc[OF assms(2) this(2)] have "x = y" by simp
  with assms(3) show ?thesis by simp
qed

lemma write_all_frame:
  "pdata (write_all wr p xs) = pdata p @ concat (map enc xs)"
  "ppos (write_all wr p xs) = ppos p"
  by (induction xs arbitrary: p) (simp_all add: wr_data wr_pos)

lemma write_all_ok: "pkt_ok p \<Longrightarrow> pkt_ok (write_all wr p xs)"
  by (induction xs arbitrary: p) (simp_all add: wr_ok)

lemma read_n_enc:
  "\<forall>x \<in> set xs. wf x \<Longrightarrow> rest p = concat (map enc xs) @ r \<Longrightarrow>
   read_n rd (length xs) p = Some (xs, adv (length (concat (map enc xs))) p)"
proof (induction xs arbitrary: p)
  case Nil
  then show ?case by simp
next
  case (Cons x xs)
  have "rd p = Some (x, adv (length (enc x)) p)"
    using Cons.prems by (intro rd_enc) auto
  moreover have "read_n rd (length xs) (adv (length (enc x)) p) =
      Some (xs, adv (length (concat (map enc xs))) (adv (length (enc x)) p))"
    using Cons.prems by (intro Cons.IH) auto
  ultimately show ?case by simp
qed

end

lemma int8_codec: "packet_codec NET_WriteInt8 NET_ReadInt8 (\<lambda>i. [ucast i]) fits_u8"
  by unfold_locales (auto simp: NET_ReadInt8_rest fits_u8_iff intro: inv_intros)

interpretation int8: packet_codec NET_WriteInt8 NET_ReadInt8 "\<lambda>i. [ucast i]" fits_u8
  by (rule int8_codec)

interpretation sint8: packet_codec NET_WriteInt8 NET_ReadSInt8 "\<lambda>i. [ucast i]" fits_s8
  by unfold_locales (auto simp: NET_ReadSInt8_rest fits_s8_iff intro: inv_intros)

interpretation int16: packet_codec NET_WriteInt16 NET_ReadInt16
  "\<lambda>i. [ucast (drop_bit 8 i), ucast i]" fits_u16
  by unfold_locales (auto simp: NET_ReadInt16_rest adv_nums fits_u16_iff intro: inv_intros)

interpretation sint16: packet_codec NET_WriteInt16 NET_ReadSInt16
  "\<lambda>i. [ucast (drop_bit 8 i), ucast i]" fits_s16
  by unfold_locales
    (auto simp: NET_ReadSInt16_read NET_ReadInt16_rest adv_nums fits_s16_iff intro: inv_intros)

interpretation int32: packet_codec NET_WriteInt32 NET_ReadInt32
  "\<lambda>i. [ucast (drop_bit 24 i), ucast (drop_bit 16 i), ucast (drop_bit 8 i), ucast i]" "\<lambda>_. True"
  by unfold_locales (auto simp: NET_ReadInt32_rest adv_nums intro: inv_intros)

interpretation sint32: packet_codec NET_WriteInt32 NET_ReadSInt32
  "\<lambda>i. [ucast (drop_bit 24 i), ucast (drop_bit 16 i), ucast (drop_bit 8 i), ucast i]" "\<lambda>_. True"
  by unfold_locales (auto simp: NET_ReadSInt32_read NET_ReadInt32_rest adv_nums intro: inv_intros)

text \<open>A read that fails with NULL, as a failed computation.\<close>

definition read_cstring :: "net_packet \<Rightarrow> (bytes \<times> net_packet) option" where
  "read_cstring p = (case NET_ReadString p of (None, _) \<Rightarrow> None | (Some s, q) \<Rightarrow> Some (s, q))"

interpretation cstring: packet_codec NET_WriteString read_cstring
  "\<lambda>s. s @ [0]" "\<lambda>s. 0 \<notin> set s"
  by unfold_locales (auto simp: read_cstring_def NET_ReadString_found intro: inv_intros)

end
