(* ===== verification/Net_Structrw.thy ===== *)
theory Net_Structrw
  imports Net_Packet
begin

text \<open>
  The structures that travel inside packets (\<open>engine/src/net_structrw.c\<close>, with the types of
  \<open>net_defs.h\<close> and \<open>d_ticcmd.h\<close>): connect data, game settings, query data, player
  commands and their differences, waiting data, checksums and protocol names.

  A C struct is a record whose fields carry the struct's initials as a prefix. A C array
  keeps its declared length. A reader of a struct takes the struct's previous content where
  the code leaves fields unwritten; \<open>None\<close> is the return value \<open>false\<close>. Reading game
  settings can write past \<open>player_classes\<close>, so it has a \<open>fault\<close> result as well.
\<close>

definition NET_MAXPLAYERS :: nat where "NET_MAXPLAYERS = 8"
definition MAXPLAYERNAME :: nat where "MAXPLAYERNAME = 30"
definition BACKUPTICS :: nat where "BACKUPTICS = 128"

lemmas net_consts = NET_MAXPLAYERS_def MAXPLAYERNAME_def BACKUPTICS_def

datatype net_protocol = NET_PROTOCOL_CHOCOLATE_DOOM_0 | NET_PROTOCOL_UNKNOWN

definition NET_NUM_PROTOCOLS :: nat where "NET_NUM_PROTOCOLS = 1"

subsection \<open>Types\<close>

record ticcmd =
  forwardmove :: u8
  sidemove :: u8
  angleturn :: u16
  chatchar :: u8
  buttons :: u8
  consistancy :: u8
  buttons2 :: u8
  inventory :: u32
  lookfly :: u8
  arti :: u8

record net_connect_data =
  cd_gamemode :: u32
  cd_gamemission :: u32
  cd_lowres_turn :: u32
  cd_drone :: u32
  cd_max_players :: u32
  cd_is_freedoom :: u32
  cd_wad_sha1sum :: bytes
  cd_deh_sha1sum :: bytes
  cd_player_class :: u32

record net_gamesettings =
  gs_ticdup :: u32
  gs_extratics :: u32
  gs_deathmatch :: u32
  gs_episode :: u32
  gs_nomonsters :: u32
  gs_fast_monsters :: u32
  gs_respawn_monsters :: u32
  gs_map :: u32
  gs_skill :: u32
  gs_gameversion :: u32
  gs_lowres_turn :: u32
  gs_new_sync :: u32
  gs_timelimit :: u32
  gs_loadgame :: u32
  gs_random :: u32
  gs_num_players :: u32
  gs_consoleplayer :: u32
  gs_player_classes :: "u32 list"

definition NET_TICDIFF_FORWARD :: u32 where "NET_TICDIFF_FORWARD = push_bit 0 1"
definition NET_TICDIFF_SIDE :: u32 where "NET_TICDIFF_SIDE = push_bit 1 1"
definition NET_TICDIFF_TURN :: u32 where "NET_TICDIFF_TURN = push_bit 2 1"
definition NET_TICDIFF_BUTTONS :: u32 where "NET_TICDIFF_BUTTONS = push_bit 3 1"
definition NET_TICDIFF_CONSISTANCY :: u32 where "NET_TICDIFF_CONSISTANCY = push_bit 4 1"
definition NET_TICDIFF_CHATCHAR :: u32 where "NET_TICDIFF_CHATCHAR = push_bit 5 1"
definition NET_TICDIFF_RAVEN :: u32 where "NET_TICDIFF_RAVEN = push_bit 6 1"
definition NET_TICDIFF_STRIFE :: u32 where "NET_TICDIFF_STRIFE = push_bit 7 1"

lemmas ticdiff_flags = NET_TICDIFF_FORWARD_def NET_TICDIFF_SIDE_def NET_TICDIFF_TURN_def
  NET_TICDIFF_BUTTONS_def NET_TICDIFF_CONSISTANCY_def NET_TICDIFF_CHATCHAR_def
  NET_TICDIFF_RAVEN_def NET_TICDIFF_STRIFE_def

record net_ticdiff =
  td_diff :: u32
  td_cmd :: ticcmd

text \<open>\<open>has d f\<close> is the C test \<open>d->diff & f\<close>.\<close>

definition has :: "net_ticdiff \<Rightarrow> u32 \<Rightarrow> bool" where
  "has d flag \<longleftrightarrow> td_diff d AND flag \<noteq> 0"

record net_full_ticcmd =
  fc_latency :: u32
  fc_seq :: u32
  fc_playeringame :: "bool list"
  fc_cmds :: "net_ticdiff list"

record net_querydata =
  qd_version :: bytes
  qd_server_state :: u32
  qd_num_players :: u32
  qd_max_players :: u32
  qd_gamemode :: u32
  qd_gamemission :: u32
  qd_description :: bytes
  qd_protocol :: net_protocol

record net_waitdata =
  wd_num_players :: u32
  wd_num_drones :: u32
  wd_ready_players :: u32
  wd_max_players :: u32
  wd_is_controller :: u32
  wd_consoleplayer :: u32
  wd_player_names :: "bytes list"
  wd_player_addrs :: "bytes list"
  wd_wad_sha1sum :: bytes
  wd_deh_sha1sum :: bytes
  wd_is_freedoom :: u32

subsection \<open>Blobs: checksums and seeds\<close>

definition NET_ReadBlob :: "net_packet \<Rightarrow> nat \<Rightarrow> (bytes \<times> net_packet) option" where
  "NET_ReadBlob packet len = do {
     (bs, packet) \<leftarrow> read_n NET_ReadInt8 len packet;
     Some (map ucast bs, packet)
   }"

definition NET_WriteBlob :: "net_packet \<Rightarrow> bytes \<Rightarrow> net_packet" where
  "NET_WriteBlob packet buf = write_all NET_WriteInt8 packet (map ucast buf)"

definition NET_ReadSHA1Sum :: "net_packet \<Rightarrow> (bytes \<times> net_packet) option" where
  "NET_ReadSHA1Sum packet = NET_ReadBlob packet 20"

definition NET_WriteSHA1Sum :: "net_packet \<Rightarrow> bytes \<Rightarrow> net_packet" where
  "NET_WriteSHA1Sum packet digest = NET_WriteBlob packet digest"

definition NET_ReadPRNGSeed :: "net_packet \<Rightarrow> (bytes \<times> net_packet) option" where
  "NET_ReadPRNGSeed packet = NET_ReadBlob packet 16"

definition NET_WritePRNGSeed :: "net_packet \<Rightarrow> bytes \<Rightarrow> net_packet" where
  "NET_WritePRNGSeed packet seed = NET_WriteBlob packet seed"

subsection \<open>Connect data\<close>

definition NET_WriteConnectData :: "net_packet \<Rightarrow> net_connect_data \<Rightarrow> net_packet" where
  "NET_WriteConnectData packet data =
     (let p = NET_WriteInt8 packet (cd_gamemode data);
          p = NET_WriteInt8 p (cd_gamemission data);
          p = NET_WriteInt8 p (cd_lowres_turn data);
          p = NET_WriteInt8 p (cd_drone data);
          p = NET_WriteInt8 p (cd_max_players data);
          p = NET_WriteInt8 p (cd_is_freedoom data);
          p = NET_WriteSHA1Sum p (cd_wad_sha1sum data);
          p = NET_WriteSHA1Sum p (cd_deh_sha1sum data)
      in NET_WriteInt8 p (cd_player_class data))"

definition NET_ReadConnectData :: "net_packet \<Rightarrow> (net_connect_data \<times> net_packet) option" where
  "NET_ReadConnectData p = do {
     (gamemode, p) \<leftarrow> NET_ReadInt8 p;
     (gamemission, p) \<leftarrow> NET_ReadInt8 p;
     (lowres_turn, p) \<leftarrow> NET_ReadInt8 p;
     (drone, p) \<leftarrow> NET_ReadInt8 p;
     (max_players, p) \<leftarrow> NET_ReadInt8 p;
     (is_freedoom, p) \<leftarrow> NET_ReadInt8 p;
     (wad, p) \<leftarrow> NET_ReadSHA1Sum p;
     (deh, p) \<leftarrow> NET_ReadSHA1Sum p;
     (player_class, p) \<leftarrow> NET_ReadInt8 p;
     Some (\<lparr>cd_gamemode = gamemode, cd_gamemission = gamemission, cd_lowres_turn = lowres_turn,
            cd_drone = drone, cd_max_players = max_players, cd_is_freedoom = is_freedoom,
            cd_wad_sha1sum = wad, cd_deh_sha1sum = deh, cd_player_class = player_class\<rparr>, p)
   }"

subsection \<open>Game settings\<close>

text \<open>
  \<open>settings->player_classes[i]\<close> is read and written for \<open>i < num_players\<close>; the array has
  \<open>NET_MAXPLAYERS\<close> elements.
\<close>

function write_player_classes :: "nat \<Rightarrow> net_gamesettings \<Rightarrow> net_packet \<Rightarrow> net_packet res" where
  "write_player_classes i s p =
     (if int i < sint (gs_num_players s)
      then if i < NET_MAXPLAYERS
           then write_player_classes (Suc i) s (NET_WriteInt8 p (gs_player_classes s ! i))
           else Inl OutOfBounds
      else Inr p)"
  by pat_completeness auto
termination
  by (relation "measure (\<lambda>(i, s, p). NET_MAXPLAYERS - i)") auto

function read_player_classes ::
  "nat \<Rightarrow> net_gamesettings \<Rightarrow> net_packet \<Rightarrow> (net_gamesettings \<times> net_packet) option res" where
  "read_player_classes i s p =
     (if int i < sint (gs_num_players s)
      then case NET_ReadInt8 p of
             None \<Rightarrow> Inr None
           | Some (c, p) \<Rightarrow>
               if i < NET_MAXPLAYERS
               then read_player_classes (Suc i)
                      (s\<lparr>gs_player_classes := (gs_player_classes s)[i := c]\<rparr>) p
               else Inl OutOfBounds
      else Inr (Some (s, p)))"
  by pat_completeness auto
termination
  by (relation "measure (\<lambda>(i, s, p). NET_MAXPLAYERS - i)") auto

declare write_player_classes.simps [simp del] read_player_classes.simps [simp del]

definition NET_WriteSettings :: "net_packet \<Rightarrow> net_gamesettings \<Rightarrow> net_packet res" where
  "NET_WriteSettings packet s =
     (let p = NET_WriteInt8 packet (gs_ticdup s);
          p = NET_WriteInt8 p (gs_extratics s);
          p = NET_WriteInt8 p (gs_deathmatch s);
          p = NET_WriteInt8 p (gs_nomonsters s);
          p = NET_WriteInt8 p (gs_fast_monsters s);
          p = NET_WriteInt8 p (gs_respawn_monsters s);
          p = NET_WriteInt8 p (gs_episode s);
          p = NET_WriteInt8 p (gs_map s);
          p = NET_WriteInt8 p (gs_skill s);
          p = NET_WriteInt8 p (gs_gameversion s);
          p = NET_WriteInt8 p (gs_lowres_turn s);
          p = NET_WriteInt8 p (gs_new_sync s);
          p = NET_WriteInt32 p (gs_timelimit s);
          p = NET_WriteInt8 p (gs_loadgame s);
          p = NET_WriteInt8 p (gs_random s);
          p = NET_WriteInt8 p (gs_num_players s);
          p = NET_WriteInt8 p (gs_consoleplayer s)
      in write_player_classes 0 s p)"

definition read_settings_header ::
  "net_packet \<Rightarrow> net_gamesettings \<Rightarrow> (net_gamesettings \<times> net_packet) option" where
  "read_settings_header p s = do {
     (ticdup, p) \<leftarrow> NET_ReadInt8 p;
     (extratics, p) \<leftarrow> NET_ReadInt8 p;
     (deathmatch, p) \<leftarrow> NET_ReadInt8 p;
     (nomonsters, p) \<leftarrow> NET_ReadInt8 p;
     (fast_monsters, p) \<leftarrow> NET_ReadInt8 p;
     (respawn_monsters, p) \<leftarrow> NET_ReadInt8 p;
     (episode, p) \<leftarrow> NET_ReadInt8 p;
     (map', p) \<leftarrow> NET_ReadInt8 p;
     (skill, p) \<leftarrow> NET_ReadSInt8 p;
     (gameversion, p) \<leftarrow> NET_ReadInt8 p;
     (lowres_turn, p) \<leftarrow> NET_ReadInt8 p;
     (new_sync, p) \<leftarrow> NET_ReadInt8 p;
     (timelimit, p) \<leftarrow> NET_ReadInt32 p;
     (loadgame, p) \<leftarrow> NET_ReadSInt8 p;
     (random, p) \<leftarrow> NET_ReadInt8 p;
     (num_players, p) \<leftarrow> NET_ReadInt8 p;
     (consoleplayer, p) \<leftarrow> NET_ReadSInt8 p;
     Some (\<lparr>gs_ticdup = ticdup, gs_extratics = extratics, gs_deathmatch = deathmatch,
            gs_episode = episode, gs_nomonsters = nomonsters, gs_fast_monsters = fast_monsters,
            gs_respawn_monsters = respawn_monsters, gs_map = map', gs_skill = skill,
            gs_gameversion = gameversion, gs_lowres_turn = lowres_turn, gs_new_sync = new_sync,
            gs_timelimit = timelimit, gs_loadgame = loadgame, gs_random = random,
            gs_num_players = num_players, gs_consoleplayer = consoleplayer,
            gs_player_classes = gs_player_classes s\<rparr>, p)
   }"

definition NET_ReadSettings ::
  "net_packet \<Rightarrow> net_gamesettings \<Rightarrow> (net_gamesettings \<times> net_packet) option res" where
  "NET_ReadSettings p s0 =
     (case read_settings_header p s0 of
        None \<Rightarrow> Inr None
      | Some (s, p) \<Rightarrow> read_player_classes 0 s p)"

subsection \<open>Player commands and their differences\<close>

text \<open>A field that is sent only when its flag is set.\<close>

definition write_field :: "bool \<Rightarrow> (net_packet \<Rightarrow> 'v \<Rightarrow> net_packet) \<Rightarrow> 'v \<Rightarrow> net_packet \<Rightarrow> net_packet"
  where "write_field c wr v p = (if c then wr p v else p)"

definition read_field :: "bool \<Rightarrow> (net_packet \<Rightarrow> ('v \<times> net_packet) option) \<Rightarrow>
    ('v \<Rightarrow> ticcmd \<Rightarrow> ticcmd) \<Rightarrow> ticcmd \<times> net_packet \<Rightarrow> (ticcmd \<times> net_packet) option"
  where "read_field c rd upd = (\<lambda>(cmd, p).
    if c then do { (v, p) \<leftarrow> rd p; Some (upd v cmd, p) } else Some (cmd, p))"

text \<open>
  \<open>angleturn\<close> in one byte, a multiple of 256, or in two bytes. The struct members are
  promoted to \<open>int\<close> before they are passed on.
\<close>

definition write_turn :: "bool \<Rightarrow> net_packet \<Rightarrow> u16 \<Rightarrow> net_packet" where
  "write_turn lowres_turn p a =
     (if lowres_turn then NET_WriteInt8 p (c_div (scast a) 256) else NET_WriteInt16 p (scast a))"

definition read_turn :: "bool \<Rightarrow> net_packet \<Rightarrow> (u16 \<times> net_packet) option" where
  "read_turn lowres_turn p =
     (if lowres_turn then do { (sval, p) \<leftarrow> NET_ReadSInt8 p; Some (ucast (sval * 256), p) }
      else do { (sval, p) \<leftarrow> NET_ReadSInt16 p; Some (ucast sval, p) })"

definition NET_WriteTiccmdDiff :: "net_packet \<Rightarrow> net_ticdiff \<Rightarrow> bool \<Rightarrow> net_packet" where
  "NET_WriteTiccmdDiff packet diff lowres_turn =
     (let cmd = td_cmd diff;
          p = NET_WriteInt8 packet (td_diff diff);
          p = write_field (has diff NET_TICDIFF_FORWARD) NET_WriteInt8 (scast (forwardmove cmd)) p;
          p = write_field (has diff NET_TICDIFF_SIDE) NET_WriteInt8 (scast (sidemove cmd)) p;
          p = write_field (has diff NET_TICDIFF_TURN) (write_turn lowres_turn) (angleturn cmd) p;
          p = write_field (has diff NET_TICDIFF_BUTTONS) NET_WriteInt8 (ucast (buttons cmd)) p;
          p = write_field (has diff NET_TICDIFF_CONSISTANCY) NET_WriteInt8
                (ucast (consistancy cmd)) p;
          p = write_field (has diff NET_TICDIFF_CHATCHAR) NET_WriteInt8 (ucast (chatchar cmd)) p;
          p = write_field (has diff NET_TICDIFF_RAVEN) NET_WriteInt8 (ucast (lookfly cmd)) p;
          p = write_field (has diff NET_TICDIFF_RAVEN) NET_WriteInt8 (ucast (arti cmd)) p;
          p = write_field (has diff NET_TICDIFF_STRIFE) NET_WriteInt8 (ucast (buttons2 cmd)) p;
          p = write_field (has diff NET_TICDIFF_STRIFE) NET_WriteInt16 (inventory cmd) p
      in p)"

text \<open>\<open>diff0\<close> is what \<open>*diff\<close> held before: the fields that are not sent keep it.\<close>

definition NET_ReadTiccmdDiff ::
  "net_packet \<Rightarrow> net_ticdiff \<Rightarrow> bool \<Rightarrow> (net_ticdiff \<times> net_packet) option" where
  "NET_ReadTiccmdDiff p diff0 lowres_turn = do {
     (flags, p) \<leftarrow> NET_ReadInt8 p;
     let diff = diff0\<lparr>td_diff := flags\<rparr>;
     s \<leftarrow> read_field (has diff NET_TICDIFF_FORWARD) NET_ReadSInt8
            (\<lambda>v cmd. cmd\<lparr>forwardmove := ucast v\<rparr>) (td_cmd diff, p);
     s \<leftarrow> read_field (has diff NET_TICDIFF_SIDE) NET_ReadSInt8
            (\<lambda>v cmd. cmd\<lparr>sidemove := ucast v\<rparr>) s;
     s \<leftarrow> read_field (has diff NET_TICDIFF_TURN) (read_turn lowres_turn)
            (\<lambda>v cmd. cmd\<lparr>angleturn := v\<rparr>) s;
     s \<leftarrow> read_field (has diff NET_TICDIFF_BUTTONS) NET_ReadInt8
            (\<lambda>v cmd. cmd\<lparr>buttons := ucast v\<rparr>) s;
     s \<leftarrow> read_field (has diff NET_TICDIFF_CONSISTANCY) NET_ReadInt8
            (\<lambda>v cmd. cmd\<lparr>consistancy := ucast v\<rparr>) s;
     s \<leftarrow> read_field (has diff NET_TICDIFF_CHATCHAR) NET_ReadInt8
            (\<lambda>v cmd. cmd\<lparr>chatchar := ucast v\<rparr>) s;
     s \<leftarrow> read_field (has diff NET_TICDIFF_RAVEN) NET_ReadInt8
            (\<lambda>v cmd. cmd\<lparr>lookfly := ucast v\<rparr>) s;
     s \<leftarrow> read_field (has diff NET_TICDIFF_RAVEN) NET_ReadInt8
            (\<lambda>v cmd. cmd\<lparr>arti := ucast v\<rparr>) s;
     s \<leftarrow> read_field (has diff NET_TICDIFF_STRIFE) NET_ReadInt8
            (\<lambda>v cmd. cmd\<lparr>buttons2 := ucast v\<rparr>) s;
     (cmd, p) \<leftarrow> read_field (has diff NET_TICDIFF_STRIFE) NET_ReadInt16
            (\<lambda>v cmd. cmd\<lparr>inventory := v\<rparr>) s;
     Some (diff\<lparr>td_cmd := cmd\<rparr>, p)
   }"

text \<open>\<open>if (c) d |= flag;\<close> and \<open>if (c) dest->field = v;\<close>.\<close>

definition flag_if :: "bool \<Rightarrow> u32 \<Rightarrow> u32 \<Rightarrow> u32" where
  "flag_if c flag d = (if c then d OR flag else d)"

definition set_if :: "bool \<Rightarrow> ('a \<Rightarrow> 'a) \<Rightarrow> 'a \<Rightarrow> 'a" where
  "set_if c f x = (if c then f x else x)"

definition NET_TiccmdDiff :: "ticcmd \<Rightarrow> ticcmd \<Rightarrow> net_ticdiff" where
  "NET_TiccmdDiff tic1 tic2 =
     (let d = 0;
          d = flag_if (forwardmove tic1 \<noteq> forwardmove tic2) NET_TICDIFF_FORWARD d;
          d = flag_if (sidemove tic1 \<noteq> sidemove tic2) NET_TICDIFF_SIDE d;
          d = flag_if (angleturn tic1 \<noteq> angleturn tic2) NET_TICDIFF_TURN d;
          d = flag_if (buttons tic1 \<noteq> buttons tic2) NET_TICDIFF_BUTTONS d;
          d = flag_if (consistancy tic1 \<noteq> consistancy tic2) NET_TICDIFF_CONSISTANCY d;
          d = flag_if (chatchar tic2 \<noteq> 0) NET_TICDIFF_CHATCHAR d;
          d = flag_if (lookfly tic1 \<noteq> lookfly tic2 \<or> arti tic2 \<noteq> 0) NET_TICDIFF_RAVEN d;
          d = flag_if (buttons2 tic1 \<noteq> buttons2 tic2 \<or> inventory tic2 \<noteq> 0)
                NET_TICDIFF_STRIFE d
      in \<lparr>td_diff = d, td_cmd = tic2\<rparr>)"

definition NET_TiccmdPatch :: "ticcmd \<Rightarrow> net_ticdiff \<Rightarrow> ticcmd" where
  "NET_TiccmdPatch src diff =
     (let cmd = td_cmd diff; x = src;
          x = set_if (has diff NET_TICDIFF_FORWARD) (\<lambda>x. x\<lparr>forwardmove := forwardmove cmd\<rparr>) x;
          x = set_if (has diff NET_TICDIFF_SIDE) (\<lambda>x. x\<lparr>sidemove := sidemove cmd\<rparr>) x;
          x = set_if (has diff NET_TICDIFF_TURN) (\<lambda>x. x\<lparr>angleturn := angleturn cmd\<rparr>) x;
          x = set_if (has diff NET_TICDIFF_BUTTONS) (\<lambda>x. x\<lparr>buttons := buttons cmd\<rparr>) x;
          x = set_if (has diff NET_TICDIFF_CONSISTANCY)
                (\<lambda>x. x\<lparr>consistancy := consistancy cmd\<rparr>) x;
          x = x\<lparr>chatchar := (if has diff NET_TICDIFF_CHATCHAR then chatchar cmd else 0)\<rparr>;
          x = (if has diff NET_TICDIFF_RAVEN
               then x\<lparr>lookfly := lookfly cmd, arti := arti cmd\<rparr> else x\<lparr>arti := 0\<rparr>);
          x = (if has diff NET_TICDIFF_STRIFE
               then x\<lparr>buttons2 := buttons2 cmd, inventory := inventory cmd\<rparr>
               else x\<lparr>inventory := 0\<rparr>)
      in x)"

subsection \<open>The commands of all players for one tic\<close>

text \<open>The loops over the player numbers; \<open>pig\<close> is \<open>cmd->playeringame\<close>.\<close>

fun read_cmds :: "bool \<Rightarrow> bool list \<Rightarrow> nat list \<Rightarrow> net_ticdiff list \<Rightarrow> net_packet
    \<Rightarrow> (net_ticdiff list \<times> net_packet) option" where
  "read_cmds lowres_turn pig [] cmds p = Some (cmds, p)"
| "read_cmds lowres_turn pig (i # is) cmds p =
     (if pig ! i
      then do {
        (d, p) \<leftarrow> NET_ReadTiccmdDiff p (cmds ! i) lowres_turn;
        read_cmds lowres_turn pig is (cmds[i := d]) p
      }
      else read_cmds lowres_turn pig is cmds p)"

fun write_cmds :: "bool \<Rightarrow> bool list \<Rightarrow> nat list \<Rightarrow> net_ticdiff list \<Rightarrow> net_packet \<Rightarrow> net_packet"
  where
  "write_cmds lowres_turn pig [] cmds p = p"
| "write_cmds lowres_turn pig (i # is) cmds p =
     write_cmds lowres_turn pig is cmds
       (if pig ! i then NET_WriteTiccmdDiff p (cmds ! i) lowres_turn else p)"

fun player_bitfield :: "bool list \<Rightarrow> nat list \<Rightarrow> u32 \<Rightarrow> u32" where
  "player_bitfield pig [] bitfield = bitfield"
| "player_bitfield pig (i # is) bitfield =
     player_bitfield pig is (if pig ! i then bitfield OR push_bit i 1 else bitfield)"

definition NET_ReadFullTiccmd ::
  "net_packet \<Rightarrow> net_full_ticcmd \<Rightarrow> bool \<Rightarrow> (net_full_ticcmd \<times> net_packet) option" where
  "NET_ReadFullTiccmd p cmd lowres_turn = do {
     (latency, p) \<leftarrow> NET_ReadSInt16 p;
     (bitfield, p) \<leftarrow> NET_ReadInt8 p;
     let pig = map (\<lambda>i. bitfield AND push_bit i 1 \<noteq> 0) [0..<NET_MAXPLAYERS];
     (cmds, p) \<leftarrow> read_cmds lowres_turn pig [0..<NET_MAXPLAYERS] (fc_cmds cmd) p;
     Some (cmd\<lparr>fc_latency := latency, fc_playeringame := pig, fc_cmds := cmds\<rparr>, p)
   }"

definition NET_WriteFullTiccmd :: "net_packet \<Rightarrow> net_full_ticcmd \<Rightarrow> bool \<Rightarrow> net_packet" where
  "NET_WriteFullTiccmd p cmd lowres_turn =
     (let p = NET_WriteInt16 p (fc_latency cmd);
          bitfield = player_bitfield (fc_playeringame cmd) [0..<NET_MAXPLAYERS] 0;
          p = NET_WriteInt8 p bitfield
      in write_cmds lowres_turn (fc_playeringame cmd) [0..<NET_MAXPLAYERS] (fc_cmds cmd) p)"

subsection \<open>Waiting data\<close>

text \<open>The loop \<open>for (i = 0; i < data->num_players && i < NET_MAXPLAYERS; ++i)\<close>.\<close>

definition name_indices :: "u32 \<Rightarrow> nat list" where
  "name_indices num_players = [0..<min (nat (sint num_players)) NET_MAXPLAYERS]"

fun write_names :: "nat list \<Rightarrow> net_waitdata \<Rightarrow> net_packet \<Rightarrow> net_packet" where
  "write_names [] data p = p"
| "write_names (i # is) data p =
     write_names is data
       (NET_WriteString (NET_WriteString p (wd_player_names data ! i)) (wd_player_addrs data ! i))"

text \<open>A string that fits \<open>MAXPLAYERNAME\<close>, or \<open>return false\<close>.\<close>

definition read_short_string :: "net_packet \<Rightarrow> (bytes \<times> net_packet) option" where
  "read_short_string p =
     (case NET_ReadString p of
        (None, _) \<Rightarrow> None
      | (Some s, p) \<Rightarrow> if length s \<ge> MAXPLAYERNAME then None
                        else Some (M_StringCopy s MAXPLAYERNAME, p))"

fun read_names :: "nat list \<Rightarrow> net_waitdata \<Rightarrow> net_packet \<Rightarrow> (net_waitdata \<times> net_packet) option" where
  "read_names [] data p = Some (data, p)"
| "read_names (i # is) data p = do {
     (s, p) \<leftarrow> read_short_string p;
     let data = data\<lparr>wd_player_names := (wd_player_names data)[i := s]\<rparr>;
     (s, p) \<leftarrow> read_short_string p;
     let data = data\<lparr>wd_player_addrs := (wd_player_addrs data)[i := s]\<rparr>;
     read_names is data p
   }"

definition NET_WriteWaitData :: "net_packet \<Rightarrow> net_waitdata \<Rightarrow> net_packet" where
  "NET_WriteWaitData packet data =
     (let p = NET_WriteInt8 packet (wd_num_players data);
          p = NET_WriteInt8 p (wd_num_drones data);
          p = NET_WriteInt8 p (wd_ready_players data);
          p = NET_WriteInt8 p (wd_max_players data);
          p = NET_WriteInt8 p (wd_is_controller data);
          p = NET_WriteInt8 p (wd_consoleplayer data);
          p = write_names (name_indices (wd_num_players data)) data p;
          p = NET_WriteSHA1Sum p (wd_wad_sha1sum data);
          p = NET_WriteSHA1Sum p (wd_deh_sha1sum data)
      in NET_WriteInt8 p (wd_is_freedoom data))"

definition NET_ReadWaitData ::
  "net_packet \<Rightarrow> net_waitdata \<Rightarrow> (net_waitdata \<times> net_packet) option" where
  "NET_ReadWaitData p data = do {
     (num_players, p) \<leftarrow> NET_ReadInt8 p;
     (num_drones, p) \<leftarrow> NET_ReadInt8 p;
     (ready_players, p) \<leftarrow> NET_ReadInt8 p;
     (max_players, p) \<leftarrow> NET_ReadInt8 p;
     (is_controller, p) \<leftarrow> NET_ReadInt8 p;
     (consoleplayer, p) \<leftarrow> NET_ReadSInt8 p;
     let data = data\<lparr>wd_num_players := num_players, wd_num_drones := num_drones,
                     wd_ready_players := ready_players, wd_max_players := max_players,
                     wd_is_controller := is_controller, wd_consoleplayer := consoleplayer\<rparr>;
     (data, p) \<leftarrow> read_names (name_indices num_players) data p;
     (wad, p) \<leftarrow> NET_ReadSHA1Sum p;
     (deh, p) \<leftarrow> NET_ReadSHA1Sum p;
     (is_freedoom, p) \<leftarrow> NET_ReadInt8 p;
     Some (data\<lparr>wd_wad_sha1sum := wad, wd_deh_sha1sum := deh, wd_is_freedoom := is_freedoom\<rparr>, p)
   }"

subsection \<open>Protocol names\<close>

definition protocol_names :: "(net_protocol \<times> bytes) list" where
  "protocol_names = [(NET_PROTOCOL_CHOCOLATE_DOOM_0, cstr ''CHOCOLATE_DOOM_0'')]"

fun find_protocol_name :: "(net_protocol \<times> bytes) list \<Rightarrow> bytes \<Rightarrow> net_protocol" where
  "find_protocol_name [] name = NET_PROTOCOL_UNKNOWN"
| "find_protocol_name ((protocol, n) # ps) name =
     (if n = name then protocol else find_protocol_name ps name)"

definition ParseProtocolName :: "bytes \<Rightarrow> net_protocol" where
  "ParseProtocolName name = find_protocol_name protocol_names name"

definition NET_ReadProtocol :: "net_packet \<Rightarrow> net_protocol \<times> net_packet" where
  "NET_ReadProtocol packet =
     (case NET_ReadString packet of
        (None, p) \<Rightarrow> (NET_PROTOCOL_UNKNOWN, p)
      | (Some name, p) \<Rightarrow> (ParseProtocolName name, p))"

definition NET_WriteProtocol :: "net_packet \<Rightarrow> net_protocol \<Rightarrow> net_packet res" where
  "NET_WriteProtocol packet protocol =
     (case List.find (\<lambda>(pr, name). pr = protocol) protocol_names of
        Some (pr, name) \<Rightarrow> Inr (NET_WriteString packet name)
      | None \<Rightarrow> Inl IError)"

fun read_protocols :: "nat \<Rightarrow> net_protocol \<Rightarrow> net_packet \<Rightarrow> net_protocol \<times> net_packet" where
  "read_protocols 0 result p = (result, p)"
| "read_protocols (Suc n) result p =
     (case NET_ReadString p of
        (None, p) \<Rightarrow> (NET_PROTOCOL_UNKNOWN, p)
      | (Some name, p) \<Rightarrow>
          let pr = ParseProtocolName name
          in read_protocols n (if pr \<noteq> NET_PROTOCOL_UNKNOWN then pr else result) p)"

definition NET_ReadProtocolList :: "net_packet \<Rightarrow> net_protocol \<times> net_packet" where
  "NET_ReadProtocolList packet =
     (case NET_ReadInt8 packet of
        None \<Rightarrow> (NET_PROTOCOL_UNKNOWN, packet)
      | Some (num_protocols, p) \<Rightarrow> read_protocols (unat num_protocols) NET_PROTOCOL_UNKNOWN p)"

text \<open>The enum values below \<open>NET_NUM_PROTOCOLS\<close>, in order.\<close>

definition all_protocols :: "net_protocol list" where
  "all_protocols = [NET_PROTOCOL_CHOCOLATE_DOOM_0]"

definition NET_WriteProtocolList :: "net_packet \<Rightarrow> net_packet res" where
  "NET_WriteProtocolList packet =
     foldR (\<lambda>pr p. NET_WriteProtocol p pr) all_protocols
       (NET_WriteInt8 packet (of_nat NET_NUM_PROTOCOLS))"

subsection \<open>Query data\<close>

definition NET_ReadQueryData :: "net_packet \<Rightarrow> (net_querydata \<times> net_packet) option" where
  "NET_ReadQueryData p =
     (case NET_ReadSafeString p of
        (None, _) \<Rightarrow> None
      | (Some version, p) \<Rightarrow> do {
          (server_state, p) \<leftarrow> NET_ReadInt8 p;
          (num_players, p) \<leftarrow> NET_ReadInt8 p;
          (max_players, p) \<leftarrow> NET_ReadInt8 p;
          (gamemode, p) \<leftarrow> NET_ReadInt8 p;
          (gamemission, p) \<leftarrow> NET_ReadInt8 p;
          let (description, p) = NET_ReadSafeString p;
          let (protocol, p) = NET_ReadProtocolList p;
          (case description of
             None \<Rightarrow> None
           | Some d \<Rightarrow> Some (\<lparr>qd_version = version, qd_server_state = server_state,
               qd_num_players = num_players, qd_max_players = max_players,
               qd_gamemode = gamemode, qd_gamemission = gamemission,
               qd_description = d, qd_protocol = protocol\<rparr>, p))
        })"

definition NET_WriteQueryData :: "net_packet \<Rightarrow> net_querydata \<Rightarrow> net_packet res" where
  "NET_WriteQueryData packet query =
     (let p = NET_WriteString packet (qd_version query);
          p = NET_WriteInt8 p (qd_server_state query);
          p = NET_WriteInt8 p (qd_num_players query);
          p = NET_WriteInt8 p (qd_max_players query);
          p = NET_WriteInt8 p (qd_gamemode query);
          p = NET_WriteInt8 p (qd_gamemission query);
          p = NET_WriteString p (qd_description query)
      in NET_WriteProtocolList p)"

end
