(* ===== verification/Net_Structrw_Codec.thy ===== *)
theory Net_Structrw_Codec
  imports Net_Structrw
begin

text \<open>
  The wire formats of \<open>net_structrw.c\<close> are packet codecs: for each structure, the bytes it is
  sent as, the values that survive the trip, and the proof that reading takes back exactly
  what writing appended. The difference and patch operations on player commands are
  inverse to each other.
\<close>

subsection \<open>Narrow signed fields\<close>

lemma sbyte_back [simp]: "ucast (scast (x :: u8) :: u32) = x"
  by (rule bit_word_eqI) (auto simp: bit_simps)

lemma sbyte_extend [simp]: "signed_take_bit 7 (ucast x) = (scast (x :: u8) :: u32)"
  by (rule bit_word_eqI) (auto simp: bit_simps min_def)

lemma ushort_drop [simp]: "ucast (drop_bit 8 (scast (a :: u16) :: u32)) = (ucast (drop_bit 8 a) :: u8)"
  by (rule bit_word_eqI) (auto simp: bit_simps)
lemma ushort_low [simp]: "ucast (scast (a :: u16) :: u32) = (ucast a :: u8)"
  by (rule bit_word_eqI) (auto simp: bit_simps)

lemma short_join [simp]:
  "ucast (signed_take_bit 15 (push_bit 8 (ucast (ucast (drop_bit 8 a) :: u8)) OR ucast (ucast a :: u8) :: u32)) = (a :: u16)"
  (is "ucast ?l = a")
proof (rule bit_word_eqI)
  fix n assume "n < LENGTH(16)"
  then consider "n < 8" | "8 \<le> n" "n < 15" | "n = 15" by fastforce
  then show "bit (ucast ?l :: u16) n = bit a n"
    by cases (auto simp: bit_simps)
qed

lemma low_turn_enc:
  assumes "take_bit 8 a = 0"
  shows "ucast (c_div (scast a) 256) = (ucast (drop_bit 8 (a :: u16)) :: u8)"
proof -
  have dvd: "256 dvd sint a"
  proof -
    have "take_bit 8 (sint a) = 0"
    proof (rule bit_eqI)
      fix n
      have "bit (take_bit 8 a) n = False" using assms by simp
      then show "bit (take_bit 8 (sint a)) n = bit (0::int) n"
        by (auto simp: bit_simps min_def split: if_splits)
    qed
    then show ?thesis by (simp add: take_bit_eq_mod dvd_eq_mod_eq_0)
  qed
  then have "c_quot (sint a) 256 = sint a div 256"
    unfolding c_quot_def
    by (cases "sint a" rule: linorder_cases[of _ 0]) auto
  moreover have "sint (scast a :: u32) = sint a"
    by (rule bit_eqI) (auto simp: bit_simps min_def)
  ultimately have "c_div (scast a) 256 = word_of_int (drop_bit 8 (sint a))"
    by (simp add: c_div_def drop_bit_eq_div)
  moreover have "n < 8 \<Longrightarrow> n < 7 \<or> n = 7" for n :: nat by auto
  ultimately show ?thesis
    by (intro bit_word_eqI) (fastforce simp: bit_simps min_def)
qed

lemma low_turn_dec:
  assumes "take_bit 8 a = 0"
  shows "ucast (scast (ucast (drop_bit 8 a) :: u8) * 256 :: u32) = (a :: u16)"
proof (rule bit_word_eqI)
  fix n assume "n < LENGTH(16)"
  have shift: "(x :: u32) * 256 = push_bit 8 x" for x by (simp add: push_bit_eq_mult)
  have "bit (take_bit 8 a) n = False" using assms by simp
  then have low: "bit a n \<Longrightarrow> 8 \<le> n" by (auto simp: bit_simps)
  show "bit (ucast (scast (ucast (drop_bit 8 a) :: u8) * 256 :: u32) :: u16) n = bit a n"
    using low \<open>n < LENGTH(16)\<close> by (cases "8 \<le> n") (auto simp: shift bit_simps)
qed

definition field_bytes :: "bool \<Rightarrow> bytes \<Rightarrow> bytes" where
  "field_bytes c e = (if c then e else [])"

lemma write_field_data:
  assumes "\<And>p. pdata (wr p v) = pdata p @ e" "\<And>p. ppos (wr p v) = ppos p"
    "\<And>p. pkt_ok p \<Longrightarrow> pkt_ok (wr p v)"
  shows "pdata (write_field c wr v p) = pdata p @ field_bytes c e"
    "ppos (write_field c wr v p) = ppos p" "pkt_ok p \<Longrightarrow> pkt_ok (write_field c wr v p)"
  using assms by (simp_all add: write_field_def field_bytes_def)

definition turn_bytes :: "bool \<Rightarrow> u16 \<Rightarrow> bytes" where
  "turn_bytes low a = (if low then [ucast (c_div (scast a) 256)] else [ucast (drop_bit 8 a), ucast a])"

definition enc_ticdiff :: "bool \<Rightarrow> net_ticdiff \<Rightarrow> bytes" where
  "enc_ticdiff low d = (let c = td_cmd d in
     [ucast (td_diff d)]
     @ field_bytes (has d NET_TICDIFF_FORWARD) [forwardmove c]
     @ field_bytes (has d NET_TICDIFF_SIDE) [sidemove c]
     @ field_bytes (has d NET_TICDIFF_TURN) (turn_bytes low (angleturn c))
     @ field_bytes (has d NET_TICDIFF_BUTTONS) [buttons c]
     @ field_bytes (has d NET_TICDIFF_CONSISTANCY) [consistancy c]
     @ field_bytes (has d NET_TICDIFF_CHATCHAR) [chatchar c]
     @ field_bytes (has d NET_TICDIFF_RAVEN) [lookfly c]
     @ field_bytes (has d NET_TICDIFF_RAVEN) [arti c]
     @ field_bytes (has d NET_TICDIFF_STRIFE) [buttons2 c]
     @ field_bytes (has d NET_TICDIFF_STRIFE)
         [ucast (drop_bit 8 (inventory c)), ucast (inventory c)])"

lemma write_turn_data:
  "pdata (write_turn low p a) = pdata p @ turn_bytes low a"
  "ppos (write_turn low p a) = ppos p" "pkt_ok p \<Longrightarrow> pkt_ok (write_turn low p a)"
  by (auto simp: write_turn_def turn_bytes_def intro: inv_intros)

lemma read_turn_enc:
  assumes "low \<Longrightarrow> take_bit 8 a = 0" "rest p = turn_bytes low a @ r"
  shows "read_turn low p = Some (a, adv (length (turn_bytes low a)) p)"
  using assms
  by (auto simp: read_turn_def turn_bytes_def NET_ReadSInt8_rest NET_ReadSInt16_read
      NET_ReadInt16_rest low_turn_enc low_turn_dec adv_nums short_join[unfolded byte_of_u32_of_byte])

definition ticdiff_ok :: "bool \<Rightarrow> net_ticdiff \<Rightarrow> bool" where
  "ticdiff_ok low d \<longleftrightarrow> fits_u8 (td_diff d)
     \<and> (low \<longrightarrow> has d NET_TICDIFF_TURN \<longrightarrow> take_bit 8 (angleturn (td_cmd d)) = 0)
     \<and> (has d NET_TICDIFF_STRIFE \<longrightarrow> fits_u16 (inventory (td_cmd d)))"

text \<open>What reading the encoding of \<open>d\<close> leaves in a structure that held \<open>d0\<close>.\<close>

definition overlay :: "ticcmd \<Rightarrow> net_ticdiff \<Rightarrow> ticcmd" where
  "overlay c0 d =
     (let c = td_cmd d; x = c0;
          x = set_if (has d NET_TICDIFF_FORWARD) (\<lambda>x. x\<lparr>forwardmove := forwardmove c\<rparr>) x;
          x = set_if (has d NET_TICDIFF_SIDE) (\<lambda>x. x\<lparr>sidemove := sidemove c\<rparr>) x;
          x = set_if (has d NET_TICDIFF_TURN) (\<lambda>x. x\<lparr>angleturn := angleturn c\<rparr>) x;
          x = set_if (has d NET_TICDIFF_BUTTONS) (\<lambda>x. x\<lparr>buttons := buttons c\<rparr>) x;
          x = set_if (has d NET_TICDIFF_CONSISTANCY) (\<lambda>x. x\<lparr>consistancy := consistancy c\<rparr>) x;
          x = set_if (has d NET_TICDIFF_CHATCHAR) (\<lambda>x. x\<lparr>chatchar := chatchar c\<rparr>) x;
          x = set_if (has d NET_TICDIFF_RAVEN) (\<lambda>x. x\<lparr>lookfly := lookfly c\<rparr>) x;
          x = set_if (has d NET_TICDIFF_RAVEN) (\<lambda>x. x\<lparr>arti := arti c\<rparr>) x;
          x = set_if (has d NET_TICDIFF_STRIFE) (\<lambda>x. x\<lparr>buttons2 := buttons2 c\<rparr>) x;
          x = set_if (has d NET_TICDIFF_STRIFE) (\<lambda>x. x\<lparr>inventory := inventory c\<rparr>) x
      in x)"

lemma byte_step:
  assumes "rest p = field_bytes c [b] @ r"
  shows "read_field c NET_ReadInt8 upd (cmd, p) =
      Some (set_if c (upd (ucast b)) cmd, adv (length (field_bytes c [b])) p)"
    "read_field c NET_ReadSInt8 upd (cmd, p) =
      Some (set_if c (upd (scast b)) cmd, adv (length (field_bytes c [b])) p)"
    "rest (adv (length (field_bytes c [b])) p) = r"
  using assms
  by (simp_all add: read_field_def field_bytes_def set_if_def NET_ReadInt8_rest NET_ReadSInt8_rest)

lemma turn_step:
  assumes "rest p = field_bytes c (turn_bytes low a) @ r" "c \<longrightarrow> low \<longrightarrow> take_bit 8 a = 0"
  shows "read_field c (read_turn low) upd (cmd, p) =
      Some (set_if c (upd a) cmd, adv (length (field_bytes c (turn_bytes low a))) p)"
    "rest (adv (length (field_bytes c (turn_bytes low a))) p) = r"
  using assms
  by (simp_all add: read_field_def field_bytes_def set_if_def read_turn_enc[of low a p r])

lemma short_step:
  assumes "rest p = field_bytes c [ucast (drop_bit 8 i), ucast i] @ r" "c \<longrightarrow> fits_u16 i"
  shows "read_field c NET_ReadInt16 upd (cmd, p) =
      Some (set_if c (upd i) cmd,
            adv (length (field_bytes c [ucast (drop_bit 8 i), ucast i])) p)"
    "rest (adv (length (field_bytes c [ucast (drop_bit 8 i), ucast i])) p) = r"
  using assms
  by (simp_all add: read_field_def field_bytes_def set_if_def int16.rd_enc[of i p r])

lemma has_flags [simp]: "has (d0\<lparr>td_diff := td_diff d\<rparr>) flag = has d flag"
  by (simp add: has_def)

definition enc_ticdiff_fields :: "bool \<Rightarrow> net_ticdiff \<Rightarrow> bytes \<Rightarrow> bytes" where
  "enc_ticdiff_fields low d r = (let c = td_cmd d in
     field_bytes (has d NET_TICDIFF_FORWARD) [forwardmove c]
     @ field_bytes (has d NET_TICDIFF_SIDE) [sidemove c]
     @ field_bytes (has d NET_TICDIFF_TURN) (turn_bytes low (angleturn c))
     @ field_bytes (has d NET_TICDIFF_BUTTONS) [buttons c]
     @ field_bytes (has d NET_TICDIFF_CONSISTANCY) [consistancy c]
     @ field_bytes (has d NET_TICDIFF_CHATCHAR) [chatchar c]
     @ field_bytes (has d NET_TICDIFF_RAVEN) [lookfly c]
     @ field_bytes (has d NET_TICDIFF_RAVEN) [arti c]
     @ field_bytes (has d NET_TICDIFF_STRIFE) [buttons2 c]
     @ field_bytes (has d NET_TICDIFF_STRIFE)
         [ucast (drop_bit 8 (inventory c)), ucast (inventory c)] @ r)"

lemma enc_ticdiff_split: "enc_ticdiff low d @ r = ucast (td_diff d) # enc_ticdiff_fields low d r"
  by (simp add: enc_ticdiff_def enc_ticdiff_fields_def Let_def)

lemma NET_ReadTiccmdDiff_enc:
  assumes ok: "ticdiff_ok low d" and start: "rest p = enc_ticdiff low d @ r"
  shows "NET_ReadTiccmdDiff p d0 low =
    Some (\<lparr>td_diff = td_diff d, td_cmd = overlay (td_cmd d0) d\<rparr>,
          adv (length (enc_ticdiff low d)) p)"
proof -
  have p0: "NET_ReadInt8 p = Some (td_diff d, adv 1 p)"
    using ok start by (simp add: enc_ticdiff_split NET_ReadInt8_rest ticdiff_ok_def fits_u8_iff)
  have "rest (adv 1 p) = enc_ticdiff_fields low d r"
    unfolding rest_adv start enc_ticdiff_split by simp
  note r0 = this[unfolded enc_ticdiff_fields_def Let_def]
  have turn: "has d NET_TICDIFF_TURN \<longrightarrow> low \<longrightarrow> take_bit 8 (angleturn (td_cmd d)) = 0"
    using ok by (simp add: ticdiff_ok_def)
  have inv: "has d NET_TICDIFF_STRIFE \<longrightarrow> fits_u16 (inventory (td_cmd d))"
    using ok by (simp add: ticdiff_ok_def)
  note s1 = byte_step[OF r0] note s2 = byte_step[OF s1(3)]
  note s3 = turn_step[OF s2(3) turn]
  note s4 = byte_step[OF s3(2)] note s5 = byte_step[OF s4(3)] note s6 = byte_step[OF s5(3)]
  note s7 = byte_step[OF s6(3)] note s8 = byte_step[OF s7(3)] note s9 = byte_step[OF s8(3)]
  note s10 = short_step[OF s9(3) inv]
  show ?thesis
    unfolding NET_ReadTiccmdDiff_def p0 bind.bind_lunit Option.bind.simps prod.case Let_def
      has_flags s1(2) s2(2) s3(1) s4(1) s5(1) s6(1) s7(1) s8(1) s9(1) s10(1)
    by (simp add: overlay_def enc_ticdiff_def Let_def add.assoc)
qed

lemma write_field_simps:
  "pdata (write_field c NET_WriteInt8 v p) = pdata p @ field_bytes c [ucast v]"
  "ppos (write_field c NET_WriteInt8 v p) = ppos p"
  "pkt_ok p \<Longrightarrow> pkt_ok (write_field c NET_WriteInt8 v p)"
  "pdata (write_field c NET_WriteInt16 v p) = pdata p @ field_bytes c [ucast (drop_bit 8 v), ucast v]"
  "ppos (write_field c NET_WriteInt16 v p) = ppos p"
  "pkt_ok p \<Longrightarrow> pkt_ok (write_field c NET_WriteInt16 v p)"
  "pdata (write_field c (write_turn low) a p) = pdata p @ field_bytes c (turn_bytes low a)"
  "ppos (write_field c (write_turn low) a p) = ppos p"
  "pkt_ok p \<Longrightarrow> pkt_ok (write_field c (write_turn low) a p)"
  by (rule write_field_data; simp add: inv_intros write_turn_data)+

lemma NET_WriteTiccmdDiff_frame [simp]:
  "pdata (NET_WriteTiccmdDiff p d low) = pdata p @ enc_ticdiff low d"
  "ppos (NET_WriteTiccmdDiff p d low) = ppos p"
  "pkt_ok p \<Longrightarrow> pkt_ok (NET_WriteTiccmdDiff p d low)"
  by (simp_all add: NET_WriteTiccmdDiff_def Let_def write_field_simps enc_ticdiff_def inv_intros)

lemma sel_set_if: "(\<And>x. f (g x) = f x) \<Longrightarrow> f (set_if c g x) = f x"
  by (simp add: set_if_def)

lemmas sel_set_if_other =
  sel_set_if[where f = forwardmove] sel_set_if[where f = sidemove]
  sel_set_if[where f = angleturn] sel_set_if[where f = chatchar]
  sel_set_if[where f = buttons] sel_set_if[where f = consistancy]
  sel_set_if[where f = buttons2] sel_set_if[where f = inventory]
  sel_set_if[where f = lookfly] sel_set_if[where f = arti]

lemma sel_set_if_same:
  "forwardmove (set_if c (forwardmove_update k) x) = (if c then k (forwardmove x) else forwardmove x)"
  "sidemove (set_if c (sidemove_update k) x) = (if c then k (sidemove x) else sidemove x)"
  "angleturn (set_if c (angleturn_update h) x) = (if c then h (angleturn x) else angleturn x)"
  "chatchar (set_if c (chatchar_update k) x) = (if c then k (chatchar x) else chatchar x)"
  "buttons (set_if c (buttons_update k) x) = (if c then k (buttons x) else buttons x)"
  "consistancy (set_if c (consistancy_update k) x) = (if c then k (consistancy x) else consistancy x)"
  "buttons2 (set_if c (buttons2_update k) x) = (if c then k (buttons2 x) else buttons2 x)"
  "inventory (set_if c (inventory_update j) x) = (if c then j (inventory x) else inventory x)"
  "lookfly (set_if c (lookfly_update k) x) = (if c then k (lookfly x) else lookfly x)"
  "arti (set_if c (arti_update k) x) = (if c then k (arti x) else arti x)"
  by (simp_all add: set_if_def)

lemmas sel_set_ifs = sel_set_if_other sel_set_if_same

lemma overlay_fields:
  "forwardmove (overlay c0 d) = (if has d NET_TICDIFF_FORWARD then forwardmove (td_cmd d) else forwardmove c0)"
  "sidemove (overlay c0 d) = (if has d NET_TICDIFF_SIDE then sidemove (td_cmd d) else sidemove c0)"
  "angleturn (overlay c0 d) = (if has d NET_TICDIFF_TURN then angleturn (td_cmd d) else angleturn c0)"
  "chatchar (overlay c0 d) = (if has d NET_TICDIFF_CHATCHAR then chatchar (td_cmd d) else chatchar c0)"
  "buttons (overlay c0 d) = (if has d NET_TICDIFF_BUTTONS then buttons (td_cmd d) else buttons c0)"
  "consistancy (overlay c0 d) = (if has d NET_TICDIFF_CONSISTANCY then consistancy (td_cmd d) else consistancy c0)"
  "buttons2 (overlay c0 d) = (if has d NET_TICDIFF_STRIFE then buttons2 (td_cmd d) else buttons2 c0)"
  "inventory (overlay c0 d) = (if has d NET_TICDIFF_STRIFE then inventory (td_cmd d) else inventory c0)"
  "lookfly (overlay c0 d) = (if has d NET_TICDIFF_RAVEN then lookfly (td_cmd d) else lookfly c0)"
  "arti (overlay c0 d) = (if has d NET_TICDIFF_RAVEN then arti (td_cmd d) else arti c0)"
  by (simp_all add: overlay_def Let_def sel_set_ifs)

lemma patch_fields:
  "forwardmove (NET_TiccmdPatch src d) = (if has d NET_TICDIFF_FORWARD then forwardmove (td_cmd d) else forwardmove src)"
  "sidemove (NET_TiccmdPatch src d) = (if has d NET_TICDIFF_SIDE then sidemove (td_cmd d) else sidemove src)"
  "angleturn (NET_TiccmdPatch src d) = (if has d NET_TICDIFF_TURN then angleturn (td_cmd d) else angleturn src)"
  "chatchar (NET_TiccmdPatch src d) = (if has d NET_TICDIFF_CHATCHAR then chatchar (td_cmd d) else 0)"
  "buttons (NET_TiccmdPatch src d) = (if has d NET_TICDIFF_BUTTONS then buttons (td_cmd d) else buttons src)"
  "consistancy (NET_TiccmdPatch src d) = (if has d NET_TICDIFF_CONSISTANCY then consistancy (td_cmd d) else consistancy src)"
  "buttons2 (NET_TiccmdPatch src d) = (if has d NET_TICDIFF_STRIFE then buttons2 (td_cmd d) else buttons2 src)"
  "inventory (NET_TiccmdPatch src d) = (if has d NET_TICDIFF_STRIFE then inventory (td_cmd d) else 0)"
  "lookfly (NET_TiccmdPatch src d) = (if has d NET_TICDIFF_RAVEN then lookfly (td_cmd d) else lookfly src)"
  "arti (NET_TiccmdPatch src d) = (if has d NET_TICDIFF_RAVEN then arti (td_cmd d) else 0)"
  by (simp_all add: NET_TiccmdPatch_def Let_def sel_set_ifs)

lemma patch_overlay:
  "NET_TiccmdPatch src \<lparr>td_diff = td_diff d, td_cmd = overlay c0 d\<rparr> = NET_TiccmdPatch src d"
proof -
  have h: "has \<lparr>td_diff = td_diff d, td_cmd = overlay c0 d\<rparr> f = has d f" for f
    by (simp add: has_def)
  show ?thesis
    by (rule ticcmd.equality) (simp_all add: patch_fields h overlay_fields)
qed

interpretation ticdiff: packet_codec "\<lambda>p d. NET_WriteTiccmdDiff p d low"
  "\<lambda>p. NET_ReadTiccmdDiff p d0 low" "enc_ticdiff low"
  "\<lambda>d. ticdiff_ok low d \<and> overlay (td_cmd d0) d = td_cmd d" for low d0
  by unfold_locales (auto simp: NET_ReadTiccmdDiff_enc)

lemma has_flag_if:
  "has \<lparr>td_diff = x, td_cmd = c\<rparr> (push_bit k 1) \<longleftrightarrow> bit x k"
  by (simp add: has_def push_bit_eq_mult and_exp_eq_0_iff_not_bit)

lemma bit_flag_if: "bit (flag_if c (push_bit j 1) x) k = (bit x k \<or> c \<and> j = k \<and> k < 32)"
  by (auto simp: flag_if_def bit_simps)

lemma NET_TiccmdDiff_flags:
  "has (NET_TiccmdDiff t1 t2) NET_TICDIFF_FORWARD \<longleftrightarrow> forwardmove t1 \<noteq> forwardmove t2"
  "has (NET_TiccmdDiff t1 t2) NET_TICDIFF_SIDE \<longleftrightarrow> sidemove t1 \<noteq> sidemove t2"
  "has (NET_TiccmdDiff t1 t2) NET_TICDIFF_TURN \<longleftrightarrow> angleturn t1 \<noteq> angleturn t2"
  "has (NET_TiccmdDiff t1 t2) NET_TICDIFF_BUTTONS \<longleftrightarrow> buttons t1 \<noteq> buttons t2"
  "has (NET_TiccmdDiff t1 t2) NET_TICDIFF_CONSISTANCY \<longleftrightarrow> consistancy t1 \<noteq> consistancy t2"
  "has (NET_TiccmdDiff t1 t2) NET_TICDIFF_CHATCHAR \<longleftrightarrow> chatchar t2 \<noteq> 0"
  "has (NET_TiccmdDiff t1 t2) NET_TICDIFF_RAVEN \<longleftrightarrow> lookfly t1 \<noteq> lookfly t2 \<or> arti t2 \<noteq> 0"
  "has (NET_TiccmdDiff t1 t2) NET_TICDIFF_STRIFE \<longleftrightarrow>
     buttons2 t1 \<noteq> buttons2 t2 \<or> inventory t2 \<noteq> 0"
  unfolding NET_TiccmdDiff_def Let_def ticdiff_flags has_flag_if bit_flag_if by simp_all

lemma NET_TiccmdDiff_cmd [simp]: "td_cmd (NET_TiccmdDiff t1 t2) = t2"
  by (simp add: NET_TiccmdDiff_def Let_def)

lemma patch_diff: "NET_TiccmdPatch t1 (NET_TiccmdDiff t1 t2) = t2"
  by (rule ticcmd.equality) (auto simp: patch_fields NET_TiccmdDiff_flags)

lemma fits_flag_if: "fits_u8 x \<Longrightarrow> k < 8 \<Longrightarrow> fits_u8 (flag_if c (push_bit k 1) x)"
  by (auto simp: fits_u8_iff flag_if_def bit_simps intro!: bit_word_eqI
      simp del: push_bit_of_1 dest: bit_imp_le_length)

lemma NET_TiccmdDiff_fits: "fits_u8 (td_diff (NET_TiccmdDiff t1 t2))"
  unfolding NET_TiccmdDiff_def Let_def ticdiff_flags net_ticdiff.simps
  by (intro fits_flag_if) (simp_all add: fits_u8_def)
subsection \<open>Blobs and connect data\<close>

lemma NET_ReadBlob_enc:
  assumes "rest p = b @ r"
  shows "NET_ReadBlob p (length b) = Some (b, adv (length b) p)"
proof -
  have "rest p = concat (map (\<lambda>i. [ucast i]) (map ucast b :: u32 list)) @ r"
    using assms by (simp add: comp_def)
  from int8.read_n_enc[OF _ this] show ?thesis
    by (simp add: NET_ReadBlob_def fits_u8_iff comp_def)
qed

lemma NET_WriteBlob_frame [simp]:
  "pdata (NET_WriteBlob p b) = pdata p @ b" "ppos (NET_WriteBlob p b) = ppos p"
  "pkt_ok p \<Longrightarrow> pkt_ok (NET_WriteBlob p b)"
  by (simp_all add: NET_WriteBlob_def int8.write_all_frame int8.write_all_ok comp_def)

interpretation blob: packet_codec NET_WriteBlob "\<lambda>p. NET_ReadBlob p n" "\<lambda>b. b"
  "\<lambda>b. length b = n" for n
  by unfold_locales (auto simp: NET_ReadBlob_enc)

interpretation sha1: packet_codec NET_WriteSHA1Sum NET_ReadSHA1Sum "\<lambda>b. b" "\<lambda>b. length b = 20"
  unfolding NET_WriteSHA1Sum_def NET_ReadSHA1Sum_def by (rule blob.packet_codec_axioms)

interpretation prng_seed: packet_codec NET_WritePRNGSeed NET_ReadPRNGSeed "\<lambda>b. b"
  "\<lambda>b. length b = 16"
  unfolding NET_WritePRNGSeed_def NET_ReadPRNGSeed_def by (rule blob.packet_codec_axioms)

lemma NET_WriteSHA1Sum_frame [simp]:
  "pdata (NET_WriteSHA1Sum p b) = pdata p @ b" "ppos (NET_WriteSHA1Sum p b) = ppos p"
  "pkt_ok p \<Longrightarrow> pkt_ok (NET_WriteSHA1Sum p b)"
  by (simp_all add: NET_WriteSHA1Sum_def)

definition enc_connect :: "net_connect_data \<Rightarrow> bytes" where
  "enc_connect d =
     [ucast (cd_gamemode d), ucast (cd_gamemission d), ucast (cd_lowres_turn d),
      ucast (cd_drone d), ucast (cd_max_players d), ucast (cd_is_freedoom d)]
     @ cd_wad_sha1sum d @ cd_deh_sha1sum d @ [ucast (cd_player_class d)]"

definition connect_ok :: "net_connect_data \<Rightarrow> bool" where
  "connect_ok d \<longleftrightarrow> fits_u8 (cd_gamemode d) \<and> fits_u8 (cd_gamemission d)
     \<and> fits_u8 (cd_lowres_turn d) \<and> fits_u8 (cd_drone d) \<and> fits_u8 (cd_max_players d)
     \<and> fits_u8 (cd_is_freedoom d) \<and> fits_u8 (cd_player_class d)
     \<and> length (cd_wad_sha1sum d) = 20 \<and> length (cd_deh_sha1sum d) = 20"

lemma NET_ReadConnectData_enc:
  assumes "connect_ok d" "rest p = enc_connect d @ r"
  shows "NET_ReadConnectData p = Some (d, adv (length (enc_connect d)) p)"
proof -
  have "NET_ReadSHA1Sum (adv 6 p) = Some (cd_wad_sha1sum d, adv 20 (adv 6 p))"
    using sha1.rd_enc[of "cd_wad_sha1sum d" "adv 6 p" "cd_deh_sha1sum d @ [ucast (cd_player_class d)] @ r"] assms
    by (simp add: enc_connect_def connect_ok_def)
  moreover have "NET_ReadSHA1Sum (adv 26 p) = Some (cd_deh_sha1sum d, adv 20 (adv 26 p))"
    using sha1.rd_enc[of "cd_deh_sha1sum d" "adv 26 p" "[ucast (cd_player_class d)] @ r"] assms
    by (simp add: enc_connect_def connect_ok_def)
  moreover have "adv (Suc (Suc (Suc (Suc (Suc (Suc 0)))))) p = adv 6 p"
    by (simp add: eval_nat_numeral)
  ultimately show ?thesis using assms
    by (simp add: NET_ReadConnectData_def NET_ReadInt8_rest enc_connect_def connect_ok_def
        fits_u8_iff)
qed

interpretation connect: packet_codec NET_WriteConnectData NET_ReadConnectData enc_connect connect_ok
  by unfold_locales
    (auto simp: NET_ReadConnectData_enc NET_WriteConnectData_def enc_connect_def Let_def inv_intros)

subsection \<open>Game settings\<close>

definition enc_settings_header :: "net_gamesettings \<Rightarrow> bytes" where
  "enc_settings_header s =
     [ucast (gs_ticdup s), ucast (gs_extratics s), ucast (gs_deathmatch s),
      ucast (gs_nomonsters s), ucast (gs_fast_monsters s), ucast (gs_respawn_monsters s),
      ucast (gs_episode s), ucast (gs_map s), ucast (gs_skill s), ucast (gs_gameversion s),
      ucast (gs_lowres_turn s), ucast (gs_new_sync s),
      ucast (drop_bit 24 (gs_timelimit s)), ucast (drop_bit 16 (gs_timelimit s)),
      ucast (drop_bit 8 (gs_timelimit s)), ucast (gs_timelimit s),
      ucast (gs_loadgame s), ucast (gs_random s), ucast (gs_num_players s),
      ucast (gs_consoleplayer s)]"

lemma length_enc_settings_header [simp]: "length (enc_settings_header s) = 20"
  by (simp add: enc_settings_header_def)

definition enc_settings :: "net_gamesettings \<Rightarrow> bytes" where
  "enc_settings s = enc_settings_header s
     @ map ucast (take (nat (sint (gs_num_players s))) (gs_player_classes s))"

definition settings_header_ok :: "net_gamesettings \<Rightarrow> bool" where
  "settings_header_ok s \<longleftrightarrow> fits_u8 (gs_ticdup s) \<and> fits_u8 (gs_extratics s)
     \<and> fits_u8 (gs_deathmatch s) \<and> fits_u8 (gs_nomonsters s) \<and> fits_u8 (gs_fast_monsters s)
     \<and> fits_u8 (gs_respawn_monsters s) \<and> fits_u8 (gs_episode s) \<and> fits_u8 (gs_map s)
     \<and> fits_s8 (gs_skill s) \<and> fits_u8 (gs_gameversion s) \<and> fits_u8 (gs_lowres_turn s)
     \<and> fits_u8 (gs_new_sync s) \<and> fits_s8 (gs_loadgame s) \<and> fits_u8 (gs_random s)
     \<and> fits_u8 (gs_num_players s) \<and> fits_s8 (gs_consoleplayer s)"

lemma read_settings_header_enc:
  assumes "settings_header_ok s" "rest p = enc_settings_header s @ r"
  shows "read_settings_header p s0 =
      Some (s\<lparr>gs_player_classes := gs_player_classes s0\<rparr>, adv 20 p)"
  using assms
  by (simp add: read_settings_header_def NET_ReadInt8_rest NET_ReadSInt8_rest NET_ReadInt32_rest
      enc_settings_header_def settings_header_ok_def fits_u8_iff fits_s8_iff)

lemma player_classes_length [simp]:
  "length (gs_player_classes (s\<lparr>gs_player_classes := (gs_player_classes s)[i := c]\<rparr>)) =
     length (gs_player_classes s)"
  by simp

text \<open>
  The loop over \<open>player_classes\<close>, from index \<open>i\<close> on: when the packet holds the classes
  \<open>cs\<close> of the remaining players and they fit the array, they are stored and nothing else.
\<close>

lemma read_player_classes_enc:
  assumes "int (i + length cs) = sint (gs_num_players s)" "i + length cs \<le> NET_MAXPLAYERS"
    and "length (gs_player_classes s) = NET_MAXPLAYERS" "\<forall>c \<in> set cs. fits_u8 c"
    and "rest p = map ucast cs @ r"
  shows "read_player_classes i s p =
    Inr (Some (s\<lparr>gs_player_classes :=
          take i (gs_player_classes s) @ cs @ drop (i + length cs) (gs_player_classes s)\<rparr>,
        adv (length cs) p))"
  using assms
proof (induction cs arbitrary: i s p)
  case Nil
  then show ?case by (simp add: read_player_classes.simps [of i])
next
  case (Cons c cs)
  let ?s = "s\<lparr>gs_player_classes := (gs_player_classes s)[i := c]\<rparr>"
  have "NET_ReadInt8 p = Some (c, adv 1 p)"
    using Cons.prems by (simp add: NET_ReadInt8_rest fits_u8_iff)
  then have "read_player_classes i s p = read_player_classes (Suc i) ?s (adv 1 p)"
    using Cons.prems by (subst read_player_classes.simps) simp
  also have "\<dots> = Inr (Some (?s\<lparr>gs_player_classes := take (Suc i) (gs_player_classes ?s) @ cs
      @ drop (Suc i + length cs) (gs_player_classes ?s)\<rparr>, adv (length cs) (adv 1 p)))"
    using Cons.prems by (intro Cons.IH) auto
  also have "take (Suc i) (gs_player_classes ?s) = take i (gs_player_classes s) @ [c]"
    using Cons.prems by (simp add: take_Suc_conv_app_nth)
  finally show ?case by (simp add: add.commute)
qed

lemma write_player_classes_frame:
  assumes "sint (gs_num_players s) \<le> int NET_MAXPLAYERS"
    and "length (gs_player_classes s) = NET_MAXPLAYERS"
  shows "\<exists>q. write_player_classes i s p = Inr q \<and> ppos q = ppos p \<and> (pkt_ok p \<longrightarrow> pkt_ok q)
    \<and> pdata q = pdata p
        @ map ucast (drop i (take (nat (sint (gs_num_players s))) (gs_player_classes s)))"
  using assms
proof (induction i s p rule: write_player_classes.induct)
  case (1 i s p)
  show ?case
  proof (cases "int i < sint (gs_num_players s)")
    case True
    with "1.prems" have i: "i < NET_MAXPLAYERS" "i < nat (sint (gs_num_players s))" by auto
    from "1.IH"[OF True i(1)] "1.prems" obtain q where
      q: "write_player_classes (Suc i) s (NET_WriteInt8 p (gs_player_classes s ! i)) = Inr q"
      "ppos q = ppos p" "pkt_ok p \<longrightarrow> pkt_ok q"
      "pdata q = pdata p @ ucast (gs_player_classes s ! i) #
         map ucast (drop (Suc i) (take (nat (sint (gs_num_players s))) (gs_player_classes s)))"
      by (auto intro: inv_intros)
    have "drop i (take (nat (sint (gs_num_players s))) (gs_player_classes s)) =
        gs_player_classes s ! i #
        drop (Suc i) (take (nat (sint (gs_num_players s))) (gs_player_classes s))"
      using i "1.prems" by (subst Cons_nth_drop_Suc [symmetric]) auto
    with q True i show ?thesis by (simp add: write_player_classes.simps [of i])
  next
    case False
    then show ?thesis by (simp add: write_player_classes.simps [of i])
  qed
qed

definition settings_ok :: "net_gamesettings \<Rightarrow> bool" where
  "settings_ok s \<longleftrightarrow> settings_header_ok s \<and> 0 \<le> sint (gs_num_players s)
     \<and> sint (gs_num_players s) \<le> int NET_MAXPLAYERS
     \<and> length (gs_player_classes s) = NET_MAXPLAYERS
     \<and> (\<forall>c \<in> set (gs_player_classes s). fits_u8 c)"

lemma NET_WriteSettings_frame:
  assumes "sint (gs_num_players s) \<le> int NET_MAXPLAYERS"
    and "length (gs_player_classes s) = NET_MAXPLAYERS"
  shows "\<exists>q. NET_WriteSettings p s = Inr q \<and> ppos q = ppos p \<and> (pkt_ok p \<longrightarrow> pkt_ok q)
    \<and> pdata q = pdata p @ enc_settings s"
proof -
  define h where "h = NET_WriteInt8 (NET_WriteInt8 (NET_WriteInt8 (NET_WriteInt8 (NET_WriteInt32
    (NET_WriteInt8 (NET_WriteInt8 (NET_WriteInt8 (NET_WriteInt8 (NET_WriteInt8 (NET_WriteInt8
    (NET_WriteInt8 (NET_WriteInt8 (NET_WriteInt8 (NET_WriteInt8 (NET_WriteInt8 (NET_WriteInt8 p
    (gs_ticdup s)) (gs_extratics s)) (gs_deathmatch s)) (gs_nomonsters s)) (gs_fast_monsters s))
    (gs_respawn_monsters s)) (gs_episode s)) (gs_map s)) (gs_skill s)) (gs_gameversion s))
    (gs_lowres_turn s)) (gs_new_sync s)) (gs_timelimit s)) (gs_loadgame s)) (gs_random s))
    (gs_num_players s)) (gs_consoleplayer s)"
  have "pdata h = pdata p @ enc_settings_header s" "ppos h = ppos p" "pkt_ok p \<Longrightarrow> pkt_ok h"
    by (simp_all add: h_def enc_settings_header_def inv_intros)
  moreover have "NET_WriteSettings p s = write_player_classes 0 s h"
    by (simp add: NET_WriteSettings_def h_def)
  ultimately show ?thesis
    using write_player_classes_frame[OF assms, of 0 h] by (auto simp: enc_settings_def)
qed

text \<open>What the writer sent is read back; array elements past \<open>num_players\<close> are untouched.\<close>

lemma NET_ReadSettings_enc:
  assumes ok: "settings_ok s" and s0: "length (gs_player_classes s0) = NET_MAXPLAYERS"
    and start: "rest p = enc_settings s @ r"
  shows "NET_ReadSettings p s0 = Inr (Some (s\<lparr>gs_player_classes :=
      take (nat (sint (gs_num_players s))) (gs_player_classes s)
      @ drop (nat (sint (gs_num_players s))) (gs_player_classes s0)\<rparr>,
    adv (length (enc_settings s)) p))"
proof -
  let ?n = "nat (sint (gs_num_players s))"
  let ?cs = "take ?n (gs_player_classes s)"
  let ?s = "s\<lparr>gs_player_classes := gs_player_classes s0\<rparr>"
  have h: "read_settings_header p s0 = Some (?s, adv 20 p)"
    using ok start by (intro read_settings_header_enc) (auto simp: settings_ok_def enc_settings_def)
  have len: "length ?cs = ?n" using ok by (auto simp: settings_ok_def)
  have "rest (adv 20 p) = map ucast ?cs @ r"
    using start by (simp add: enc_settings_def)
  then have "read_player_classes 0 ?s (adv 20 p) = Inr (Some (?s\<lparr>gs_player_classes :=
      take 0 (gs_player_classes ?s) @ ?cs @ drop (0 + length ?cs) (gs_player_classes ?s)\<rparr>,
      adv (length ?cs) (adv 20 p)))"
    using ok s0 len
    by (intro read_player_classes_enc) (auto simp: settings_ok_def dest: in_set_takeD)
  with h len show ?thesis
    by (simp add: NET_ReadSettings_def enc_settings_def)
qed

text \<open>
  The array overrun: with more than \<open>NET_MAXPLAYERS\<close> players announced and as many class
  bytes in the packet, the loop stores past the end of \<open>player_classes\<close>.
\<close>

lemma read_player_classes_overrun:
  assumes "i \<le> NET_MAXPLAYERS" "int NET_MAXPLAYERS < sint (gs_num_players s)"
    and "NET_MAXPLAYERS < i + length (rest p)"
  shows "read_player_classes i s p = Inl OutOfBounds"
  using assms
proof (induction i s p rule: read_player_classes.induct)
  case (1 i s p)
  from "1.prems" obtain b r where b: "rest p = b # r" by (cases "rest p") auto
  then have rd: "NET_ReadInt8 p = Some (ucast b, adv 1 p)" by (simp add: NET_ReadInt8_rest)
  have lt: "int i < sint (gs_num_players s)" using "1.prems" by linarith
  show ?case
  proof (cases "i < NET_MAXPLAYERS")
    case True
    have "read_player_classes (Suc i)
        (s\<lparr>gs_player_classes := (gs_player_classes s)[i := ucast b]\<rparr>) (adv 1 p) = Inl OutOfBounds"
      using "1.prems" True b by (intro "1.IH"[OF lt rd refl True]) auto
    with rd lt True show ?thesis by (simp add: read_player_classes.simps [of i])
  next
    case False
    with rd lt show ?thesis by (simp add: read_player_classes.simps [of i])
  qed
qed

lemma read_player_classes_safe:
  assumes "sint (gs_num_players s) \<le> int NET_MAXPLAYERS"
  shows "read_player_classes i s p \<noteq> Inl e"
  using assms
proof (induction i s p rule: read_player_classes.induct)
  case (1 i s p)
  show ?case
  proof (cases "int i < sint (gs_num_players s)")
    case True
    with "1.prems" have "i < NET_MAXPLAYERS" by linarith
    with True "1.IH" "1.prems" show ?thesis
      by (simp add: read_player_classes.simps [of i] split: option.split)
  next
    case False
    then show ?thesis by (simp add: read_player_classes.simps [of i])
  qed
qed

lemma NET_ReadInt8_fits: "NET_ReadInt8 p = Some (v, q) \<Longrightarrow> fits_u8 v"
  by (auto simp: NET_ReadInt8_def fits_u8_iff split: if_splits)

lemma read_settings_header_players:
  assumes "read_settings_header p s0 = Some (s, q)"
  shows "fits_u8 (gs_num_players s)" "gs_player_classes s = gs_player_classes s0"
  using assms
  by (auto simp: read_settings_header_def bind_eq_Some_conv dest: NET_ReadInt8_fits)

lemma read_player_classes_length:
  "read_player_classes i s p = Inr (Some (t, q)) \<Longrightarrow>
   length (gs_player_classes t) = length (gs_player_classes s) \<and> gs_num_players t = gs_num_players s"
proof (induction i s p rule: read_player_classes.induct)
  case (1 i s p)
  from "1.prems" show ?case
    by (subst (asm) read_player_classes.simps)
      (auto split: if_splits option.splits dest!: "1.IH")
qed

subsection \<open>The commands of all players\<close>

definition merge_ticdiff :: "net_ticdiff \<Rightarrow> net_ticdiff \<Rightarrow> net_ticdiff" where
  "merge_ticdiff d0 d = \<lparr>td_diff = td_diff d, td_cmd = overlay (td_cmd d0) d\<rparr>"

definition enc_cmds :: "bool \<Rightarrow> bool list \<Rightarrow> nat list \<Rightarrow> net_ticdiff list \<Rightarrow> bytes" where
  "enc_cmds low pig is cmds =
     concat (map (\<lambda>i. if pig ! i then enc_ticdiff low (cmds ! i) else []) is)"

fun merge_cmds :: "bool list \<Rightarrow> nat list \<Rightarrow> net_ticdiff list \<Rightarrow> net_ticdiff list \<Rightarrow> net_ticdiff list"
  where
  "merge_cmds pig [] cmds cmds0 = cmds0"
| "merge_cmds pig (i # is) cmds cmds0 =
     merge_cmds pig is cmds
       (if pig ! i then cmds0[i := merge_ticdiff (cmds0 ! i) (cmds ! i)] else cmds0)"

lemma length_merge_cmds [simp]: "length (merge_cmds pig is cmds cmds0) = length cmds0"
  by (induction pig "is" cmds cmds0 rule: merge_cmds.induct) auto

lemma merge_cmds_nth:
  "distinct is \<Longrightarrow> j < length cmds0 \<Longrightarrow> merge_cmds pig is cmds cmds0 ! j =
     (if j \<in> set is \<and> pig ! j then merge_ticdiff (cmds0 ! j) (cmds ! j) else cmds0 ! j)"
proof (induction "is" arbitrary: cmds0)
  case Nil
  then show ?case by simp
next
  case (Cons i "is")
  then show ?case by (cases "i = j") auto
qed

lemma write_cmds_frame [simp]:
  "pdata (write_cmds low pig is cmds p) = pdata p @ enc_cmds low pig is cmds"
  "ppos (write_cmds low pig is cmds p) = ppos p"
  by (induction low pig "is" cmds p rule: write_cmds.induct) (simp_all add: enc_cmds_def)

lemma pkt_ok_write_cmds: "pkt_ok p \<Longrightarrow> pkt_ok (write_cmds low pig is cmds p)"
  by (induction low pig "is" cmds p rule: write_cmds.induct) simp_all

lemma read_cmds_enc:
  assumes "\<forall>i \<in> set is. pig ! i \<longrightarrow> ticdiff_ok low (cmds ! i)"
    and "rest p = enc_cmds low pig is cmds @ r"
  shows "read_cmds low pig is cmds0 p =
    Some (merge_cmds pig is cmds cmds0, adv (length (enc_cmds low pig is cmds)) p)"
  using assms
proof (induction "is" arbitrary: cmds0 p)
  case Nil
  then show ?case by (simp add: enc_cmds_def)
next
  case (Cons i "is")
  let ?n = "length (enc_ticdiff low (cmds ! i))"
  show ?case
  proof (cases "pig ! i")
    case True
    have "NET_ReadTiccmdDiff p (cmds0 ! i) low =
        Some (merge_ticdiff (cmds0 ! i) (cmds ! i), adv ?n p)"
      unfolding merge_ticdiff_def
      by (rule NET_ReadTiccmdDiff_enc[where r = "enc_cmds low pig is cmds @ r"])
        (use Cons.prems True in \<open>auto simp: enc_cmds_def\<close>)
    moreover have "read_cmds low pig is (cmds0[i := merge_ticdiff (cmds0 ! i) (cmds ! i)]) (adv ?n p)
        = Some (merge_cmds pig is cmds (cmds0[i := merge_ticdiff (cmds0 ! i) (cmds ! i)]),
            adv (length (enc_cmds low pig is cmds)) (adv ?n p))"
      using Cons.prems True by (intro Cons.IH) (auto simp: enc_cmds_def)
    ultimately show ?thesis using True by (simp add: enc_cmds_def)
  next
    case False
    have "read_cmds low pig is cmds0 p = Some (merge_cmds pig is cmds cmds0,
        adv (length (enc_cmds low pig is cmds)) p)"
      using Cons.prems False by (intro Cons.IH) (auto simp: enc_cmds_def)
    with False show ?thesis by (simp add: enc_cmds_def)
  qed
qed

lemma bit_player_bitfield:
  "bit (player_bitfield pig is b) k \<longleftrightarrow> bit b k \<or> k \<in> set is \<and> pig ! k \<and> k < 32"
  by (induction pig "is" b rule: player_bitfield.induct) (auto simp: bit_simps)

lemma player_bitfield_back:
  assumes "length pig = NET_MAXPLAYERS"
  shows "map (\<lambda>i. player_bitfield pig [0..<NET_MAXPLAYERS] 0 AND push_bit i 1 \<noteq> 0)
     [0..<NET_MAXPLAYERS] = pig"
proof (rule nth_equalityI)
  fix i
  assume "i < length (map (\<lambda>i. player_bitfield pig [0..<NET_MAXPLAYERS] 0 AND push_bit i 1 \<noteq> 0)
     [0..<NET_MAXPLAYERS])"
  then have "i < 8" by (simp add: net_consts)
  then show "map (\<lambda>i. player_bitfield pig [0..<NET_MAXPLAYERS] 0 AND push_bit i 1 \<noteq> 0)
     [0..<NET_MAXPLAYERS] ! i = pig ! i"
    by (simp add: net_consts push_bit_eq_mult and_exp_eq_0_iff_not_bit bit_player_bitfield
        del: upt_Suc)
qed (use assms in simp)

lemma player_bitfield_fits: "fits_u8 (player_bitfield pig [0..<NET_MAXPLAYERS] 0)"
  unfolding fits_u8_iff
  by (rule bit_word_eqI) (auto simp: bit_take_bit_iff bit_player_bitfield net_consts)

definition enc_full :: "bool \<Rightarrow> net_full_ticcmd \<Rightarrow> bytes" where
  "enc_full low c =
     [ucast (drop_bit 8 (fc_latency c)), ucast (fc_latency c),
      ucast (player_bitfield (fc_playeringame c) [0..<NET_MAXPLAYERS] 0)]
     @ enc_cmds low (fc_playeringame c) [0..<NET_MAXPLAYERS] (fc_cmds c)"

definition full_ok :: "bool \<Rightarrow> net_full_ticcmd \<Rightarrow> bool" where
  "full_ok low c \<longleftrightarrow> fits_s16 (fc_latency c) \<and> length (fc_playeringame c) = NET_MAXPLAYERS
     \<and> (\<forall>i < NET_MAXPLAYERS. fc_playeringame c ! i \<longrightarrow> ticdiff_ok low (fc_cmds c ! i))"

lemma NET_WriteFullTiccmd_frame [simp]:
  "pdata (NET_WriteFullTiccmd p c low) = pdata p @ enc_full low c"
  "ppos (NET_WriteFullTiccmd p c low) = ppos p"
  "pkt_ok p \<Longrightarrow> pkt_ok (NET_WriteFullTiccmd p c low)"
  by (simp_all add: NET_WriteFullTiccmd_def Let_def enc_full_def pkt_ok_write_cmds inv_intros)

lemma NET_ReadFullTiccmd_enc:
  assumes ok: "full_ok low c" and start: "rest p = enc_full low c @ r"
  shows "NET_ReadFullTiccmd p c0 low = Some (c0\<lparr>fc_latency := fc_latency c,
      fc_playeringame := fc_playeringame c,
      fc_cmds := merge_cmds (fc_playeringame c) [0..<NET_MAXPLAYERS] (fc_cmds c) (fc_cmds c0)\<rparr>,
    adv (length (enc_full low c)) p)"
proof -
  let ?b = "player_bitfield (fc_playeringame c) [0..<NET_MAXPLAYERS] 0"
  let ?e = "enc_cmds low (fc_playeringame c) [0..<NET_MAXPLAYERS] (fc_cmds c)"
  have 1: "NET_ReadSInt16 p = Some (fc_latency c, adv 2 p)"
    using ok start
    by (subst sint16.rd_enc[where x = "fc_latency c" and r = "ucast ?b # ?e @ r"])
      (auto simp: full_ok_def enc_full_def adv_nums)
  have 2: "NET_ReadInt8 (adv 2 p) = Some (?b, adv 3 p)"
    using start player_bitfield_fits
    by (subst int8.rd_enc[where x = ?b and r = "?e @ r"])
      (auto simp: enc_full_def)
  have 3: "read_cmds low (fc_playeringame c) [0..<NET_MAXPLAYERS] (fc_cmds c0) (adv 3 p) =
      Some (merge_cmds (fc_playeringame c) [0..<NET_MAXPLAYERS] (fc_cmds c) (fc_cmds c0),
        adv (length ?e) (adv 3 p))"
    using ok start by (intro read_cmds_enc) (auto simp: full_ok_def enc_full_def)
  show ?thesis
    using ok player_bitfield_back[of "fc_playeringame c"]
    by (simp add: NET_ReadFullTiccmd_def 1 2 3 Let_def full_ok_def)
       (simp add: enc_full_def numeral_3_eq_3)
qed

subsection \<open>Waiting data\<close>

lemma short_string_enc:
  assumes "rest p = s @ 0 # r" "0 \<notin> set s" "length s < MAXPLAYERNAME"
  shows "read_short_string p = Some (s, adv (length s + 1) p)"
  using assms by (simp add: read_short_string_def NET_ReadString_found M_StringCopy_id)

definition enc_names :: "nat list \<Rightarrow> net_waitdata \<Rightarrow> bytes" where
  "enc_names is d =
     concat (map (\<lambda>i. wd_player_names d ! i @ 0 # wd_player_addrs d ! i @ [0]) is)"

definition name_ok :: "bytes \<Rightarrow> bool" where
  "name_ok s \<longleftrightarrow> 0 \<notin> set s \<and> length s < MAXPLAYERNAME"

lemma write_names_frame [simp]:
  "pdata (write_names is d p) = pdata p @ enc_names is d"
  "ppos (write_names is d p) = ppos p"
  by (induction "is" d p rule: write_names.induct) (simp_all add: enc_names_def)

lemma pkt_ok_write_names: "pkt_ok p \<Longrightarrow> pkt_ok (write_names is d p)"
  by (induction "is" d p rule: write_names.induct) (simp_all add: inv_intros)

fun copy_list :: "nat list \<Rightarrow> 'a list \<Rightarrow> 'a list \<Rightarrow> 'a list" where
  "copy_list [] src dst = dst"
| "copy_list (i # is) src dst = copy_list is src (dst[i := src ! i])"

lemma length_copy_list [simp]: "length (copy_list is src dst) = length dst"
  by (induction "is" src dst rule: copy_list.induct) auto

lemma copy_list_nth:
  "i < length dst \<Longrightarrow> copy_list is src dst ! i = (if i \<in> set is then src ! i else dst ! i)"
proof (induction "is" arbitrary: dst)
  case Nil
  then show ?case by simp
next
  case (Cons j "is")
  then show ?case by (cases "i = j") auto
qed

definition copy_names :: "nat list \<Rightarrow> net_waitdata \<Rightarrow> net_waitdata \<Rightarrow> net_waitdata" where
  "copy_names is d d0 = d0
     \<lparr>wd_player_names := copy_list is (wd_player_names d) (wd_player_names d0),
      wd_player_addrs := copy_list is (wd_player_addrs d) (wd_player_addrs d0)\<rparr>"

lemma read_names_enc:
  assumes "\<forall>i \<in> set is. name_ok (wd_player_names d ! i) \<and> name_ok (wd_player_addrs d ! i)"
    and "rest p = enc_names is d @ r"
  shows "read_names is d0 p = Some (copy_names is d d0, adv (length (enc_names is d)) p)"
  using assms
proof (induction "is" arbitrary: d0 p)
  case Nil
  then show ?case by (simp add: enc_names_def copy_names_def)
next
  case (Cons i "is")
  let ?n = "wd_player_names d ! i" and ?a = "wd_player_addrs d ! i"
  have r0: "rest p = ?n @ 0 # ?a @ 0 # enc_names is d @ r"
    using Cons.prems by (simp add: enc_names_def)
  have 1: "read_short_string p = Some (?n, adv (length ?n + 1) p)"
    using Cons.prems r0 by (intro short_string_enc) (auto simp: name_ok_def)
  have 2: "read_short_string (adv (length ?n + 1) p) =
      Some (?a, adv (length ?a + 1) (adv (length ?n + 1) p))"
    using Cons.prems r0 by (intro short_string_enc) (auto simp: name_ok_def)
  have 3: "read_names is d1 (adv (length ?a + 1) (adv (length ?n + 1) p)) =
      Some (copy_names is d d1, adv (length (enc_names is d))
        (adv (length ?a + 1) (adv (length ?n + 1) p)))" for d1
    using Cons.prems r0 by (intro Cons.IH) auto
  show ?case
    using 3 by (simp add: 1 2[simplified] enc_names_def Let_def add.assoc copy_names_def)
qed

definition enc_wait :: "net_waitdata \<Rightarrow> bytes" where
  "enc_wait d =
     [ucast (wd_num_players d), ucast (wd_num_drones d), ucast (wd_ready_players d),
      ucast (wd_max_players d), ucast (wd_is_controller d), ucast (wd_consoleplayer d)]
     @ enc_names (name_indices (wd_num_players d)) d
     @ wd_wad_sha1sum d @ wd_deh_sha1sum d @ [ucast (wd_is_freedoom d)]"

definition wait_ok :: "net_waitdata \<Rightarrow> bool" where
  "wait_ok d \<longleftrightarrow> fits_u8 (wd_num_players d) \<and> fits_u8 (wd_num_drones d)
     \<and> fits_u8 (wd_ready_players d) \<and> fits_u8 (wd_max_players d) \<and> fits_u8 (wd_is_controller d)
     \<and> fits_s8 (wd_consoleplayer d) \<and> fits_u8 (wd_is_freedoom d)
     \<and> length (wd_wad_sha1sum d) = 20 \<and> length (wd_deh_sha1sum d) = 20
     \<and> (\<forall>i \<in> set (name_indices (wd_num_players d)).
          name_ok (wd_player_names d ! i) \<and> name_ok (wd_player_addrs d ! i))"

lemma NET_WriteWaitData_frame [simp]:
  "pdata (NET_WriteWaitData p d) = pdata p @ enc_wait d"
  "ppos (NET_WriteWaitData p d) = ppos p"
  "pkt_ok p \<Longrightarrow> pkt_ok (NET_WriteWaitData p d)"
  by (simp_all add: NET_WriteWaitData_def Let_def enc_wait_def pkt_ok_write_names inv_intros)

lemma NET_ReadWaitData_enc:
  assumes ok: "wait_ok d" and start: "rest p = enc_wait d @ r"
  shows "NET_ReadWaitData p d0 =
    Some (copy_names (name_indices (wd_num_players d)) d
       (d\<lparr>wd_player_names := wd_player_names d0, wd_player_addrs := wd_player_addrs d0\<rparr>),
     adv (length (enc_wait d)) p)"
proof -
  let ?is = "name_indices (wd_num_players d)"
  let ?wad = "wd_wad_sha1sum d" and ?deh = "wd_deh_sha1sum d"
  let ?tl = "ucast (wd_is_freedoom d) # r"
  let ?d1 = "d0\<lparr>wd_num_players := wd_num_players d, wd_num_drones := wd_num_drones d,
    wd_ready_players := wd_ready_players d, wd_max_players := wd_max_players d,
    wd_is_controller := wd_is_controller d, wd_consoleplayer := wd_consoleplayer d\<rparr>"
  define p1 where "p1 = adv (Suc (Suc (Suc (Suc (Suc (Suc 0)))))) p"
  define p2 where "p2 = adv (length (enc_names ?is d)) p1"
  define p3 where "p3 = adv 20 p2"
  define p4 where "p4 = adv 20 p3"
  have r1: "rest p1 = enc_names ?is d @ ?wad @ ?deh @ ?tl"
    using start by (simp add: p1_def enc_wait_def)
  have r2: "rest p2 = ?wad @ ?deh @ ?tl" using r1 by (simp add: p2_def)
  have r3: "rest p3 = ?deh @ ?tl" using r2 ok by (simp add: p3_def wait_ok_def)
  have r4: "rest p4 = ?tl" using r3 ok by (simp add: p4_def wait_ok_def)
  have 1: "read_names ?is ?d1 p1 = Some (copy_names ?is d ?d1, p2)"
    unfolding p2_def using ok r1 by (intro read_names_enc) (auto simp: wait_ok_def)
  have 2: "NET_ReadSHA1Sum p2 = Some (?wad, p3)" "NET_ReadSHA1Sum p3 = Some (?deh, p4)"
    using sha1.rd_enc[OF _ r2] sha1.rd_enc[OF _ r3] ok by (simp_all add: p3_def p4_def wait_ok_def)
  have 4: "adv (length (enc_wait d)) p = adv (Suc 0) p4"
    using ok by (simp add: p4_def p3_def p2_def p1_def enc_wait_def wait_ok_def)
  have start': "rest p = [ucast (wd_num_players d), ucast (wd_num_drones d),
      ucast (wd_ready_players d), ucast (wd_max_players d), ucast (wd_is_controller d),
      ucast (wd_consoleplayer d)] @ rest p1"
    using start r1 by (simp add: enc_wait_def)
  from ok show ?thesis unfolding 4
    by (simp add: NET_ReadWaitData_def NET_ReadInt8_rest NET_ReadSInt8_rest start' Let_def
        wait_ok_def fits_u8_iff fits_s8_iff p1_def[symmetric] 1 2 r4 copy_names_def)
qed

subsection \<open>Protocol names and query data\<close>

lemma protocol_name_no_nul: "0 \<notin> set (cstr ''CHOCOLATE_DOOM_0'')"
  by (simp add: cstr_def)

lemma NET_WriteProtocol_known:
  "NET_WriteProtocol p NET_PROTOCOL_CHOCOLATE_DOOM_0 =
     Inr (NET_WriteString p (cstr ''CHOCOLATE_DOOM_0''))"
  by (simp add: NET_WriteProtocol_def protocol_names_def)

lemma NET_WriteProtocol_unknown: "NET_WriteProtocol p NET_PROTOCOL_UNKNOWN = Inl IError"
  by (simp add: NET_WriteProtocol_def protocol_names_def)

lemma NET_ReadProtocol_enc:
  assumes "rest p = cstr ''CHOCOLATE_DOOM_0'' @ 0 # r"
  shows "NET_ReadProtocol p =
    (NET_PROTOCOL_CHOCOLATE_DOOM_0, adv (length (cstr ''CHOCOLATE_DOOM_0'') + 1) p)"
  using NET_ReadString_found[OF assms protocol_name_no_nul]
  by (simp add: NET_ReadProtocol_def ParseProtocolName_def protocol_names_def)

definition enc_protocols :: bytes where
  "enc_protocols = 1 # cstr ''CHOCOLATE_DOOM_0'' @ [0]"

lemma NET_WriteProtocolList_frame:
  "\<exists>q. NET_WriteProtocolList p = Inr q \<and> ppos q = ppos p \<and> (pkt_ok p \<longrightarrow> pkt_ok q)
     \<and> pdata q = pdata p @ enc_protocols"
  by (simp add: NET_WriteProtocolList_def all_protocols_def NET_WriteProtocol_known
      enc_protocols_def NET_NUM_PROTOCOLS_def inv_intros)

lemma NET_ReadProtocolList_enc:
  assumes "rest p = enc_protocols @ r"
  shows "NET_ReadProtocolList p = (NET_PROTOCOL_CHOCOLATE_DOOM_0, adv (length enc_protocols) p)"
proof -
  have "rest (adv 1 p) = cstr ''CHOCOLATE_DOOM_0'' @ 0 # r"
    using assms by (simp add: enc_protocols_def)
  from NET_ReadString_found[OF this protocol_name_no_nul] assms show ?thesis
    by (simp add: NET_ReadProtocolList_def NET_ReadInt8_rest enc_protocols_def
        ParseProtocolName_def protocol_names_def)
qed

text \<open>
  The negotiated protocol is the last known name of the list; a list cut short by the end of
  the packet negotiates nothing.
\<close>

lemma read_protocols_enc:
  assumes "rest p = concat (map (\<lambda>n. n @ [0]) names) @ r" "\<forall>n \<in> set names. 0 \<notin> set n"
  shows "read_protocols (length names) result p =
    (if cstr ''CHOCOLATE_DOOM_0'' \<in> set names then NET_PROTOCOL_CHOCOLATE_DOOM_0 else result,
     adv (length (concat (map (\<lambda>n. n @ [0]) names))) p)"
  using assms
proof (induction names arbitrary: p result)
  case Nil
  then show ?case by simp
next
  case (Cons n names)
  have "NET_ReadString p = (Some n, adv (length n + 1) p)"
    using Cons.prems by (intro NET_ReadString_found) auto
  moreover have "rest (adv (length n + 1) p) = concat (map (\<lambda>n. n @ [0]) names) @ r"
    using Cons.prems by simp
  moreover have "ParseProtocolName n = (if n = cstr ''CHOCOLATE_DOOM_0''
      then NET_PROTOCOL_CHOCOLATE_DOOM_0 else NET_PROTOCOL_UNKNOWN)"
    by (auto simp: ParseProtocolName_def protocol_names_def)
  ultimately show ?case using Cons.prems(2) Cons.IH[of "adv (length n + 1) p"]
    by (auto simp: Let_def add.assoc)
qed

definition enc_query :: "net_querydata \<Rightarrow> bytes" where
  "enc_query q = qd_version q @ 0 #
     [ucast (qd_server_state q), ucast (qd_num_players q), ucast (qd_max_players q),
      ucast (qd_gamemode q), ucast (qd_gamemission q)]
     @ qd_description q @ 0 # enc_protocols"

definition query_ok :: "net_querydata \<Rightarrow> bool" where
  "query_ok q \<longleftrightarrow> 0 \<notin> set (qd_version q) \<and> 0 \<notin> set (qd_description q)
     \<and> fits_u8 (qd_server_state q) \<and> fits_u8 (qd_num_players q) \<and> fits_u8 (qd_max_players q)
     \<and> fits_u8 (qd_gamemode q) \<and> fits_u8 (qd_gamemission q)"

lemma NET_WriteQueryData_frame:
  "\<exists>r. NET_WriteQueryData p q = Inr r \<and> ppos r = ppos p \<and> (pkt_ok p \<longrightarrow> pkt_ok r)
     \<and> pdata r = pdata p @ enc_query q"
proof -
  define h where "h = NET_WriteString (NET_WriteInt8 (NET_WriteInt8 (NET_WriteInt8 (NET_WriteInt8
    (NET_WriteInt8 (NET_WriteString p (qd_version q)) (qd_server_state q)) (qd_num_players q))
    (qd_max_players q)) (qd_gamemode q)) (qd_gamemission q)) (qd_description q)"
  have "NET_WriteQueryData p q = NET_WriteProtocolList h"
    by (simp add: NET_WriteQueryData_def h_def)
  moreover have "pkt_ok p \<Longrightarrow> pkt_ok h" "ppos h = ppos p"
    by (simp_all add: h_def inv_intros)
  ultimately show ?thesis
    using NET_WriteProtocolList_frame[of h] by (auto simp: enc_query_def h_def)
qed

lemma NET_ReadQueryData_enc:
  assumes ok: "query_ok q" and start: "rest p = enc_query q @ r"
  shows "\<exists>p'. NET_ReadQueryData p = Some (q\<lparr>qd_version := filter safe_char (qd_version q),
      qd_description := filter safe_char (qd_description q),
      qd_protocol := NET_PROTOCOL_CHOCOLATE_DOOM_0\<rparr>, p')"
proof -
  let ?ints = "[ucast (qd_server_state q), ucast (qd_num_players q), ucast (qd_max_players q),
      ucast (qd_gamemode q), ucast (qd_gamemission q)]"
  have "rest p = qd_version q @ 0 # ?ints @ qd_description q @ 0 # enc_protocols @ r"
    using start by (simp add: enc_query_def)
  from NET_ReadSafeString_filter[OF this] ok obtain p1 where
    p1: "NET_ReadSafeString p = (Some (filter safe_char (qd_version q)), p1)"
    "rest p1 = ?ints @ qd_description q @ 0 # enc_protocols @ r"
    by (auto simp: query_ok_def)
  define p2 where "p2 = adv (Suc (Suc (Suc (Suc (Suc 0))))) p1"
  have "rest p2 = qd_description q @ 0 # enc_protocols @ r"
    using p1(2) by (simp add: p2_def)
  from NET_ReadSafeString_filter[OF this] ok obtain p3 where
    p3: "NET_ReadSafeString p2 = (Some (filter safe_char (qd_description q)), p3)"
    "rest p3 = enc_protocols @ r"
    by (auto simp: query_ok_def)
  from ok show ?thesis
    by (simp add: NET_ReadQueryData_def p1 p3(1) NET_ReadProtocolList_enc[OF p3(2)] Let_def
        NET_ReadInt8_rest query_ok_def fits_u8_iff p2_def[symmetric])
qed

end
