(* ===== verification/Net_Wire.thy ===== *)
theory Net_Wire
  imports Net_Structrw_Codec
begin

text \<open>
  What the packet layer and the structure codecs together guarantee: for each message of the
  protocol, the value that \<open>net_structrw.c\<close> reads back is the value it wrote, the packets stay
  inside their buffers, and the one reader that can leave its array is characterised exactly.
\<close>

subsection \<open>Packets\<close>

text \<open>Whatever bytes a peer sends as a NUL-terminated string, \<open>NET_ReadSafeString\<close> returns
  exactly its printable characters and newlines, in order, and goes on after the terminator.\<close>

theorem safe_string_read:
  assumes "rest p = s @ 0 # r" "0 \<notin> set s"
  shows "\<exists>q. NET_ReadSafeString p = (Some (filter safe_char s), q) \<and> rest q = r"
  using NET_ReadSafeString_filter [OF assms] by blast

theorem safe_string_read_witness:
  "\<exists>q. NET_ReadSafeString \<lparr>pdata = [65, 7, 66, 0, 9], palloced = 5, ppos = 0\<rparr> = (Some [65, 66], q)
     \<and> rest q = [9]"
  using safe_string_read [of "\<lparr>pdata = [65, 7, 66, 0, 9], palloced = 5, ppos = 0\<rparr>" "[65, 7, 66]" "[9]"]
  by (simp add: rest_def safe_char_def)

text \<open>C40: A packet never outgrows its buffer: with the sizes the code allocates, every writer keeps
  the length of the data within the allocated bytes.\<close>

theorem writers_stay_in_buffer:
  assumes "pkt_ok p"
  shows "pkt_ok (NET_WriteInt8 p i) \<and> pkt_ok (NET_WriteInt16 p i) \<and> pkt_ok (NET_WriteInt32 p i)
    \<and> pkt_ok (NET_WriteString p s) \<and> pkt_ok (NET_WriteBlob p s)
    \<and> pkt_ok (NET_WriteFullTiccmd p c low) \<and> pkt_ok (NET_WriteWaitData p d)"
  using assms by (simp_all add: inv_intros)

theorem writers_stay_in_buffer_witness:
  "pkt_ok (NET_WriteString (NET_NewPacket 10) (cstr ''A string longer than ten bytes''))"
  using writers_stay_in_buffer [of "NET_NewPacket 10"] by (simp add: pkt_ok_NewPacket)

subsection \<open>Commands\<close>

text \<open>Sending a player's command as the difference to the previous one loses nothing.\<close>

theorem ticcmd_difference_wire:
  assumes "fits_u16 (inventory t2)" "low \<longrightarrow> take_bit 8 (angleturn t2) = 0"
  shows "\<exists>q d. NET_ReadTiccmdDiff (NET_WriteTiccmdDiff (NET_NewPacket n) (NET_TiccmdDiff t1 t2) low) d0 low
      = Some (d, q) \<and> NET_TiccmdPatch t1 d = t2"
proof -
  let ?d = "NET_TiccmdDiff t1 t2"
  have "ticdiff_ok low ?d" using assms by (simp add: ticdiff_ok_def NET_TiccmdDiff_fits)
  moreover have "rest (NET_WriteTiccmdDiff (NET_NewPacket n) ?d low) = enc_ticdiff low ?d @ []"
    by (simp add: rest_def)
  ultimately show ?thesis
    using NET_ReadTiccmdDiff_enc patch_overlay [of t1 ?d "td_cmd d0"] patch_diff [of t1 t2] by metis
qed

definition stop_cmd :: ticcmd where
  "stop_cmd = \<lparr>forwardmove = 0, sidemove = 0, angleturn = 0, chatchar = 0, buttons = 0,
     consistancy = 0, buttons2 = 0, inventory = 0, lookfly = 0, arti = 0\<rparr>"

text \<open>C26: The commands of all players for a tic survive the wire: latency, the set of players in
  the game, and for each of them a difference that patches any command the same way.\<close>

theorem full_ticcmd_wire:
  assumes "full_ok low c" "length (fc_cmds c0) = NET_MAXPLAYERS"
  shows "\<exists>q c'. NET_ReadFullTiccmd (NET_WriteFullTiccmd (NET_NewPacket n) c low) c0 low = Some (c', q)
    \<and> fc_latency c' = fc_latency c \<and> fc_playeringame c' = fc_playeringame c
    \<and> (\<forall>i < NET_MAXPLAYERS. \<forall>cmd. fc_playeringame c ! i \<longrightarrow>
         NET_TiccmdPatch cmd (fc_cmds c' ! i) = NET_TiccmdPatch cmd (fc_cmds c ! i))"
proof -
  let ?cs = "merge_cmds (fc_playeringame c) [0..<NET_MAXPLAYERS] (fc_cmds c) (fc_cmds c0)"
  have "rest (NET_WriteFullTiccmd (NET_NewPacket n) c low) = enc_full low c @ []"
    by (simp add: rest_def)
  from NET_ReadFullTiccmd_enc [OF assms(1) this] have
    "NET_ReadFullTiccmd (NET_WriteFullTiccmd (NET_NewPacket n) c low) c0 low = Some (c0\<lparr>fc_latency := fc_latency c,
      fc_playeringame := fc_playeringame c, fc_cmds := ?cs\<rparr>, adv (length (enc_full low c)) (NET_WriteFullTiccmd (NET_NewPacket n) c low))" .
  moreover have "NET_TiccmdPatch cmd (?cs ! i) = NET_TiccmdPatch cmd (fc_cmds c ! i)"
    if "i < NET_MAXPLAYERS" "fc_playeringame c ! i" for i cmd
    using that assms(2) by (simp add: merge_cmds_nth merge_ticdiff_def patch_overlay)
  ultimately show ?thesis by fastforce
qed

definition no_diff :: net_ticdiff where "no_diff = \<lparr>td_diff = 0, td_cmd = stop_cmd\<rparr>"

definition sample_full :: net_full_ticcmd where
  "sample_full = \<lparr>fc_latency = 7, fc_seq = 0,
     fc_playeringame = [True, False, True, False, False, False, False, False],
     fc_cmds = [no_diff, no_diff, NET_TiccmdDiff stop_cmd (stop_cmd\<lparr>sidemove := 40\<rparr>),
       no_diff, no_diff, no_diff, no_diff, no_diff]\<rparr>"

theorem full_ticcmd_wire_witness:
  "\<exists>q c'. NET_ReadFullTiccmd (NET_WriteFullTiccmd (NET_NewPacket 100) sample_full False)
       (sample_full\<lparr>fc_cmds := replicate 8 no_diff\<rparr>) False = Some (c', q)
    \<and> NET_TiccmdPatch stop_cmd (fc_cmds c' ! 2) = stop_cmd\<lparr>sidemove := 40\<rparr>"
proof -
  have a: "ticdiff_ok False no_diff"
    by (simp add: ticdiff_ok_def no_diff_def fits_u8_def has_def)
  have b: "ticdiff_ok False (NET_TiccmdDiff stop_cmd (stop_cmd\<lparr>sidemove := 40\<rparr>))"
    by (simp add: ticdiff_ok_def NET_TiccmdDiff_fits stop_cmd_def fits_u16_def)
  have "\<forall>d \<in> set (fc_cmds sample_full). ticdiff_ok False d"
    using a b by (simp add: sample_full_def)
  moreover have "length (fc_cmds sample_full) = 8" by (simp add: sample_full_def)
  ultimately have "\<forall>i < 8. ticdiff_ok False (fc_cmds sample_full ! i)" using nth_mem by metis
  then have "full_ok False sample_full"
    by (simp add: full_ok_def net_consts) (simp add: fits_s16_def sample_full_def net_consts word_sle_eq word_sless_alt)
  from full_ticcmd_wire [OF this, of "sample_full\<lparr>fc_cmds := replicate 8 no_diff\<rparr>" 100] show ?thesis
    by (auto simp: net_consts sample_full_def patch_diff)
qed


text \<open>C28: Game settings for at most eight players survive the wire, the player classes of the
  players in the game included.\<close>

theorem settings_wire:
  assumes "settings_ok s" "length (gs_player_classes s0) = NET_MAXPLAYERS"
  shows "\<exists>q q' s'. NET_WriteSettings (NET_NewPacket n) s = Inr q
    \<and> NET_ReadSettings q s0 = Inr (Some (s', q'))
    \<and> s'\<lparr>gs_player_classes := gs_player_classes s\<rparr> = s
    \<and> (\<forall>i < nat (sint (gs_num_players s)). gs_player_classes s' ! i = gs_player_classes s ! i)"
proof -
  have "sint (gs_num_players s) \<le> int NET_MAXPLAYERS" "length (gs_player_classes s) = NET_MAXPLAYERS"
    using assms(1) by (simp_all add: settings_ok_def)
  from NET_WriteSettings_frame [OF this, of "NET_NewPacket n"] obtain q where
    q: "NET_WriteSettings (NET_NewPacket n) s = Inr q" "rest q = enc_settings s @ []"
    by (auto simp: rest_def)
  from q(1) NET_ReadSettings_enc [OF assms q(2)] show ?thesis
    using assms(1) by (auto simp: settings_ok_def nth_append)
qed

definition sample_settings :: net_gamesettings where
  "sample_settings = \<lparr>gs_ticdup = 1, gs_extratics = 1, gs_deathmatch = 0, gs_episode = 1, gs_nomonsters = 0,
     gs_fast_monsters = 0, gs_respawn_monsters = 0, gs_map = 1, gs_skill = 2, gs_gameversion = 4,
     gs_lowres_turn = 0, gs_new_sync = 1, gs_timelimit = 0, gs_loadgame = - 1, gs_random = 0,
     gs_num_players = 2, gs_consoleplayer = 1, gs_player_classes = [0, 0, 0, 0, 0, 0, 0, 0]\<rparr>"

lemma sample_settings_ok: "settings_ok sample_settings"
  by (simp add: settings_ok_def settings_header_ok_def sample_settings_def fits_u8_def fits_s8_def net_consts
    word_sle_eq word_sless_alt)

theorem settings_wire_witness:
  "\<exists>q q' s'. NET_WriteSettings (NET_NewPacket 100) sample_settings = Inr q
    \<and> NET_ReadSettings q (sample_settings\<lparr>gs_ticdup := 9\<rparr>) = Inr (Some (s', q')) \<and> gs_ticdup s' = 1"
  using settings_wire [OF sample_settings_ok, of "sample_settings\<lparr>gs_ticdup := 9\<rparr>" 100]
  by (auto simp: sample_settings_def net_consts dest!: arg_cong [where f = gs_ticdup])

lemma read_player_classes_short:
  "i + length (rest p) \<le> NET_MAXPLAYERS \<Longrightarrow> read_player_classes i s p \<noteq> Inl e"
proof (induction i s p rule: read_player_classes.induct)
  case (1 i s p)
  show ?case
  proof (cases "rest p")
    case Nil
    then show ?thesis by (simp add: read_player_classes.simps [of i] NET_ReadInt8_rest)
  next
    case (Cons b r)
    with "1.prems" have "i < NET_MAXPLAYERS" by simp
    with Cons "1.IH" "1.prems" show ?thesis
      by (simp add: read_player_classes.simps [of i] NET_ReadInt8_rest)
  qed
qed

text \<open>C27: \<open>NET_ReadSettings\<close> stores outside \<open>player_classes\<close> exactly when the packet announces
  more than eight players and carries more than eight classes: the count is not checked.\<close>

theorem settings_read_fault:
  assumes "settings_header_ok h" "length (gs_player_classes s0) = NET_MAXPLAYERS"
    and "rest p = enc_settings_header h @ classes"
  shows "(\<exists>e. NET_ReadSettings p s0 = Inl e) \<longleftrightarrow>
     8 < sint (gs_num_players h) \<and> 8 < length classes"
proof -
  let ?s = "h\<lparr>gs_player_classes := gs_player_classes s0\<rparr>"
  have hd: "read_settings_header p s0 = Some (?s, adv 20 p)"
    using assms by (intro read_settings_header_enc) auto
  have r: "rest (adv 20 p) = classes" using assms(3) by simp
  show ?thesis
  proof (cases "8 < sint (gs_num_players h)")
    case False
    then show ?thesis using read_player_classes_safe [of ?s 0 "adv 20 p"]
      by (simp add: NET_ReadSettings_def hd net_consts)
  next
    case big: True
    show ?thesis
    proof (cases "8 < length classes")
      case True
      then have "read_player_classes 0 ?s (adv 20 p) = Inl OutOfBounds"
        using big r by (intro read_player_classes_overrun) (simp_all add: net_consts del: rest_adv)
      then show ?thesis using big True by (simp add: NET_ReadSettings_def hd)
    next
      case False
      then have "read_player_classes 0 ?s (adv 20 p) \<noteq> Inl e" for e
        using r by (intro read_player_classes_short) (simp add: net_consts del: rest_adv)
      then show ?thesis using False by (simp add: NET_ReadSettings_def hd)
    qed
  qed
qed

theorem settings_read_fault_witness:
  "\<exists>e. NET_ReadSettings \<lparr>pdata = enc_settings_header (sample_settings\<lparr>gs_num_players := 9\<rparr>)
       @ replicate 9 0, palloced = 100, ppos = 0\<rparr> sample_settings = Inl e"
proof -
  let ?h = "sample_settings\<lparr>gs_num_players := 9\<rparr>"
  have h: "settings_header_ok ?h"
    using sample_settings_ok by (simp add: settings_ok_def settings_header_ok_def fits_u8_def)
  have l: "length (gs_player_classes sample_settings) = NET_MAXPLAYERS"
    by (simp add: sample_settings_def net_consts)
  show ?thesis
    by (subst settings_read_fault [OF h l, of _ "replicate 9 0"]) (simp_all add: rest_def)
qed

text \<open>Waiting data survives the wire: all counts and checksums, and the names and addresses of
  the players that are announced.\<close>

theorem wait_data_wire:
  assumes "wait_ok d" "length (wd_player_names d0) = NET_MAXPLAYERS"
    "length (wd_player_addrs d0) = NET_MAXPLAYERS"
  shows "\<exists>q d'. NET_ReadWaitData (NET_WriteWaitData (NET_NewPacket n) d) d0 = Some (d', q)
    \<and> d'\<lparr>wd_player_names := wd_player_names d, wd_player_addrs := wd_player_addrs d\<rparr> = d
    \<and> (\<forall>i < NET_MAXPLAYERS. i < nat (sint (wd_num_players d)) \<longrightarrow>
         wd_player_names d' ! i = wd_player_names d ! i \<and> wd_player_addrs d' ! i = wd_player_addrs d ! i)"
proof -
  have "rest (NET_WriteWaitData (NET_NewPacket n) d) = enc_wait d @ []" by (simp add: rest_def)
  from NET_ReadWaitData_enc [OF assms(1) this, of d0] show ?thesis
    using assms(2,3) by (simp add: copy_names_def copy_list_nth name_indices_def)
qed

definition sample_wait :: net_waitdata where
  "sample_wait = \<lparr>wd_num_players = 1, wd_num_drones = 0, wd_ready_players = 1, wd_max_players = 8,
     wd_is_controller = 1, wd_consoleplayer = 0,
     wd_player_names = (replicate 8 [])[0 := cstr ''Ann''],
     wd_player_addrs = (replicate 8 [])[0 := cstr ''local''],
     wd_wad_sha1sum = replicate 20 1, wd_deh_sha1sum = replicate 20 2, wd_is_freedoom = 0\<rparr>"

theorem wait_data_wire_witness:
  "\<exists>q d'. NET_ReadWaitData (NET_WriteWaitData (NET_NewPacket 10) sample_wait)
      (sample_wait\<lparr>wd_player_names := replicate 8 []\<rparr>) = Some (d', q)
    \<and> wd_player_names d' ! 0 = cstr ''Ann''"
proof -
  have ok: "wait_ok sample_wait"
    by (simp add: wait_ok_def sample_wait_def fits_u8_def fits_s8_def name_indices_def name_ok_def net_consts
      cstr_def word_sle_eq word_sless_alt)
  show ?thesis
    using wait_data_wire [OF ok, of "sample_wait\<lparr>wd_player_names := replicate 8 []\<rparr>" 10]
    by (auto simp: sample_wait_def net_consts)
qed


text \<open>The connect data a client sends with its SYN survives the wire unchanged.\<close>

theorem connect_data_wire:
  assumes "connect_ok d"
  shows "\<exists>q. NET_ReadConnectData (NET_WriteConnectData (NET_NewPacket n) d) = Some (d, q)"
  using assms by (rule connect.round_trip_new)

theorem connect_data_wire_witness:
  "\<exists>q. NET_ReadConnectData (NET_WriteConnectData (NET_NewPacket 10)
     \<lparr>cd_gamemode = 2, cd_gamemission = 1, cd_lowres_turn = 0, cd_drone = 0, cd_max_players = 4,
      cd_is_freedoom = 0, cd_wad_sha1sum = replicate 20 1, cd_deh_sha1sum = replicate 20 2,
      cd_player_class = 0\<rparr>) =
     Some (\<lparr>cd_gamemode = 2, cd_gamemission = 1, cd_lowres_turn = 0, cd_drone = 0, cd_max_players = 4,
      cd_is_freedoom = 0, cd_wad_sha1sum = replicate 20 1, cd_deh_sha1sum = replicate 20 2,
      cd_player_class = 0\<rparr>, q)"
  by (rule connect_data_wire) (simp add: connect_ok_def fits_u8_def)

text \<open>Protocol negotiation finds the known protocol in a peer's list wherever it stands, and no
  protocol when the list does not name it.\<close>

theorem protocol_negotiation:
  assumes "length names < 256" "\<forall>n \<in> set names. 0 \<notin> set n"
    and "rest p = of_nat (length names) # concat (map (\<lambda>n. n @ [0]) names) @ r"
  shows "fst (NET_ReadProtocolList p) = (if cstr ''CHOCOLATE_DOOM_0'' \<in> set names
     then NET_PROTOCOL_CHOCOLATE_DOOM_0 else NET_PROTOCOL_UNKNOWN)"
proof -
  have "rest (adv 1 p) = concat (map (\<lambda>n. n @ [0]) names) @ r" using assms(3) by simp
  note e = read_protocols_enc [OF this assms(2), of NET_PROTOCOL_UNKNOWN]
  have "unat (ucast (of_nat (length names) :: u8) :: u32) = length names"
    using assms(1) by (simp add: unsigned_ucast_eq unsigned_of_nat take_bit_nat_eq_self)
  then show ?thesis using assms(3) e
    by (simp add: NET_ReadProtocolList_def NET_ReadInt8_rest)
qed

text \<open>A query response survives the wire, up to the filtering of its two strings.\<close>

theorem query_data_wire:
  assumes "query_ok q"
  shows "\<exists>p p'. NET_WriteQueryData (NET_NewPacket n) q = Inr p
    \<and> NET_ReadQueryData p = Some (q\<lparr>qd_version := filter safe_char (qd_version q),
        qd_description := filter safe_char (qd_description q),
        qd_protocol := NET_PROTOCOL_CHOCOLATE_DOOM_0\<rparr>, p')"
proof -
  obtain p where p: "NET_WriteQueryData (NET_NewPacket n) q = Inr p" "rest p = enc_query q @ []"
    using NET_WriteQueryData_frame [of "NET_NewPacket n" q] by (auto simp: rest_def)
  from p(1) NET_ReadQueryData_enc [OF assms p(2)] show ?thesis by blast
qed

theorem query_data_wire_witness:
  "\<exists>p p'. NET_WriteQueryData (NET_NewPacket 10) \<lparr>qd_version = cstr ''1.0'', qd_server_state = 0,
       qd_num_players = 1, qd_max_players = 8, qd_gamemode = 2, qd_gamemission = 1,
       qd_description = cstr ''DM'', qd_protocol = NET_PROTOCOL_UNKNOWN\<rparr> = Inr p
    \<and> NET_ReadQueryData p = Some (\<lparr>qd_version = cstr ''1.0'', qd_server_state = 0,
       qd_num_players = 1, qd_max_players = 8, qd_gamemode = 2, qd_gamemission = 1,
       qd_description = cstr ''DM'', qd_protocol = NET_PROTOCOL_CHOCOLATE_DOOM_0\<rparr>, p')"
  using query_data_wire [of "\<lparr>qd_version = cstr ''1.0'', qd_server_state = 0,
       qd_num_players = 1, qd_max_players = 8, qd_gamemode = 2, qd_gamemission = 1,
       qd_description = cstr ''DM'', qd_protocol = NET_PROTOCOL_UNKNOWN\<rparr>" 10]
  by (simp add: query_ok_def cstr_def fits_u8_def safe_char_def)

end
