(* ===== verification/D_Mode.thy ===== *)
theory D_Mode
  imports Doom_Prelude
begin

text \<open>
  Game modes, missions and versions (\<open>engine/src/d_mode.c\<close>, \<open>d_mode.h\<close>). The functions are
  called on numbers that came over the network, so the enumerations are numbers here, with
  one constant per enumerator.
\<close>

type_synonym GameMission_t = u32
type_synonym GameMode_t = u32
type_synonym GameVersion_t = u32

definition doom :: GameMission_t where "doom = 0"
definition doom2 :: GameMission_t where "doom2 = 1"
definition pack_tnt :: GameMission_t where "pack_tnt = 2"
definition pack_plut :: GameMission_t where "pack_plut = 3"
definition pack_chex :: GameMission_t where "pack_chex = 4"
definition pack_hacx :: GameMission_t where "pack_hacx = 5"
definition heretic :: GameMission_t where "heretic = 6"
definition hexen :: GameMission_t where "hexen = 7"
definition strife :: GameMission_t where "strife = 8"
definition pack_nerve :: GameMission_t where "pack_nerve = 9"
definition pack_master :: GameMission_t where "pack_master = 10"
definition no_mission :: GameMission_t where "no_mission = 11"

definition shareware :: GameMode_t where "shareware = 0"
definition registered :: GameMode_t where "registered = 1"
definition commercial :: GameMode_t where "commercial = 2"
definition retail :: GameMode_t where "retail = 3"
definition indetermined :: GameMode_t where "indetermined = 4"

definition exe_doom_1_666 :: GameVersion_t where "exe_doom_1_666 = 1"
definition exe_doom_1_7 :: GameVersion_t where "exe_doom_1_7 = 2"
definition exe_doom_1_8 :: GameVersion_t where "exe_doom_1_8 = 3"
definition exe_doom_1_9 :: GameVersion_t where "exe_doom_1_9 = 4"
definition exe_hacx :: GameVersion_t where "exe_hacx = 5"
definition exe_ultimate :: GameVersion_t where "exe_ultimate = 6"
definition exe_final :: GameVersion_t where "exe_final = 7"
definition exe_final2 :: GameVersion_t where "exe_final2 = 8"
definition exe_chex :: GameVersion_t where "exe_chex = 9"
definition exe_heretic_1_3 :: GameVersion_t where "exe_heretic_1_3 = 10"
definition exe_hexen_1_1 :: GameVersion_t where "exe_hexen_1_1 = 11"
definition exe_strife_1_2 :: GameVersion_t where "exe_strife_1_2 = 12"
definition exe_strife_1_31 :: GameVersion_t where "exe_strife_1_31 = 13"

definition sk_noitems :: u32 where "sk_noitems = - 1"
definition sk_nightmare :: u32 where "sk_nightmare = 4"

lemmas mission_defs = doom_def doom2_def pack_tnt_def pack_plut_def pack_chex_def pack_hacx_def
  heretic_def hexen_def strife_def pack_nerve_def pack_master_def no_mission_def
lemmas mode_defs = shareware_def registered_def commercial_def retail_def indetermined_def
lemmas version_defs = exe_doom_1_666_def exe_doom_1_7_def exe_doom_1_8_def exe_doom_1_9_def
  exe_hacx_def exe_ultimate_def exe_final_def exe_final2_def exe_chex_def exe_heretic_1_3_def
  exe_hexen_1_1_def exe_strife_1_2_def exe_strife_1_31_def

record valid_mode =
  vm_mission :: GameMission_t
  vm_mode :: GameMode_t
  vm_episode :: u32
  vm_map :: u32

definition valid_modes :: "valid_mode list" where
  "valid_modes = [
     \<lparr>vm_mission = pack_chex, vm_mode = retail, vm_episode = 1, vm_map = 5\<rparr>,
     \<lparr>vm_mission = doom, vm_mode = shareware, vm_episode = 1, vm_map = 9\<rparr>,
     \<lparr>vm_mission = doom, vm_mode = registered, vm_episode = 3, vm_map = 9\<rparr>,
     \<lparr>vm_mission = doom, vm_mode = retail, vm_episode = 4, vm_map = 9\<rparr>,
     \<lparr>vm_mission = doom2, vm_mode = commercial, vm_episode = 1, vm_map = 32\<rparr>,
     \<lparr>vm_mission = pack_tnt, vm_mode = commercial, vm_episode = 1, vm_map = 32\<rparr>,
     \<lparr>vm_mission = pack_plut, vm_mode = commercial, vm_episode = 1, vm_map = 32\<rparr>,
     \<lparr>vm_mission = pack_hacx, vm_mode = commercial, vm_episode = 1, vm_map = 32\<rparr>,
     \<lparr>vm_mission = pack_nerve, vm_mode = commercial, vm_episode = 1, vm_map = 9\<rparr>,
     \<lparr>vm_mission = pack_master, vm_mode = commercial, vm_episode = 1, vm_map = 21\<rparr>,
     \<lparr>vm_mission = heretic, vm_mode = shareware, vm_episode = 1, vm_map = 9\<rparr>,
     \<lparr>vm_mission = heretic, vm_mode = registered, vm_episode = 3, vm_map = 9\<rparr>,
     \<lparr>vm_mission = heretic, vm_mode = retail, vm_episode = 5, vm_map = 9\<rparr>,
     \<lparr>vm_mission = hexen, vm_mode = commercial, vm_episode = 1, vm_map = 60\<rparr>,
     \<lparr>vm_mission = strife, vm_mode = commercial, vm_episode = 1, vm_map = 34\<rparr>]"

definition D_ValidGameMode :: "GameMission_t \<Rightarrow> GameMode_t \<Rightarrow> bool" where
  "D_ValidGameMode mission mode \<longleftrightarrow>
     list_ex (\<lambda>v. vm_mode v = mode \<and> vm_mission v = mission) valid_modes"

text \<open>The episode and map are C \<open>int\<close>s: the comparisons are signed.\<close>

definition D_ValidEpisodeMap :: "GameMission_t \<Rightarrow> GameMode_t \<Rightarrow> u32 \<Rightarrow> u32 \<Rightarrow> bool" where
  "D_ValidEpisodeMap mission mode episode map' =
     (if mission = heretic \<and> mode = retail \<and> episode = 6 then 1 \<le>s map' \<and> map' \<le>s 3
      else if mission = heretic \<and> mode = registered \<and> episode = 4 then map' = 1
      else case List.find (\<lambda>v. mission = vm_mission v \<and> mode = vm_mode v) valid_modes of
             Some v \<Rightarrow> 1 \<le>s episode \<and> episode \<le>s vm_episode v \<and> 1 \<le>s map' \<and> map' \<le>s vm_map v
           | None \<Rightarrow> False)"

text \<open>
  The loop of \<open>D_GetNumEpisodes\<close>; \<open>None\<close> is a loop that has not stopped after \<open>fuel\<close>
  rounds. No table entry has more than five episodes, so seven rounds are enough.
\<close>

fun count_episodes :: "nat \<Rightarrow> GameMission_t \<Rightarrow> GameMode_t \<Rightarrow> u32 \<Rightarrow> u32 option" where
  "count_episodes 0 mission mode episode = None"
| "count_episodes (Suc fuel) mission mode episode =
     (if D_ValidEpisodeMap mission mode episode 1
      then count_episodes fuel mission mode (episode + 1) else Some (episode - 1))"

definition D_GetNumEpisodes :: "GameMission_t \<Rightarrow> GameMode_t \<Rightarrow> u32 option" where
  "D_GetNumEpisodes mission mode = count_episodes 8 mission mode 1"

definition valid_versions :: "(GameMission_t \<times> GameVersion_t) list" where
  "valid_versions = [
     (doom, exe_doom_1_666), (doom, exe_doom_1_7), (doom, exe_doom_1_8), (doom, exe_doom_1_9),
     (doom, exe_hacx), (doom, exe_ultimate), (doom, exe_final), (doom, exe_final2),
     (doom, exe_chex), (heretic, exe_heretic_1_3), (hexen, exe_hexen_1_1),
     (strife, exe_strife_1_2), (strife, exe_strife_1_31)]"

definition D_ValidGameVersion :: "GameMission_t \<Rightarrow> GameVersion_t \<Rightarrow> bool" where
  "D_ValidGameVersion mission version =
     (let mission = (if mission = doom2 \<or> mission = pack_plut \<or> mission = pack_tnt
                       \<or> mission = pack_hacx \<or> mission = pack_chex
                       \<or> mission = pack_nerve \<or> mission = pack_master
                     then doom else mission)
      in list_ex (\<lambda>(m, v). m = mission \<and> v = version) valid_versions)"

definition D_IsEpisodeMap :: "GameMission_t \<Rightarrow> bool" where
  "D_IsEpisodeMap mission \<longleftrightarrow> mission = doom \<or> mission = heretic \<or> mission = pack_chex"

definition D_GameMissionString :: "GameMission_t \<Rightarrow> bytes" where
  "D_GameMissionString mission =
     (if mission = doom then cstr ''doom''
      else if mission = doom2 then cstr ''doom2''
      else if mission = pack_tnt then cstr ''tnt''
      else if mission = pack_plut then cstr ''plutonia''
      else if mission = pack_hacx then cstr ''hacx''
      else if mission = pack_chex then cstr ''chex''
      else if mission = heretic then cstr ''heretic''
      else if mission = hexen then cstr ''hexen''
      else if mission = strife then cstr ''strife''
      else cstr ''none'')"

definition D_GameModeString :: "GameMode_t \<Rightarrow> bytes" where
  "D_GameModeString mode =
     (if mode = shareware then cstr ''shareware''
      else if mode = registered then cstr ''registered''
      else if mode = commercial then cstr ''commercial''
      else if mode = retail then cstr ''retail''
      else cstr ''unknown'')"

text \<open>A mode/mission pair that can be played has a first episode, and \<open>D_GetNumEpisodes\<close> returns.\<close>

lemma valid_mode_has_map:
  "D_ValidGameMode mission mode \<Longrightarrow> D_ValidEpisodeMap mission mode 1 1"
  by (auto simp: D_ValidGameMode_def D_ValidEpisodeMap_def valid_modes_def mission_defs mode_defs
      word_sle_eq)

lemma valid_episode_mode:
  "D_ValidEpisodeMap mission mode e m \<Longrightarrow> D_ValidGameMode mission mode"
  by (auto simp: D_ValidGameMode_def D_ValidEpisodeMap_def valid_modes_def mission_defs mode_defs
      split: if_splits option.splits)

lemma indetermined_invalid: "\<not> D_ValidGameMode mission indetermined"
  by (simp add: D_ValidGameMode_def valid_modes_def mode_defs)

end
