(* ===== verification/Net_Common.thy ===== *)
theory Net_Common
  imports Net_Structrw D_Mode
begin

text \<open>
  The connection layer (\<open>engine/src/net_common.c\<close>): keepalives, timeouts, orderly
  disconnection and the reliable packets that are resent until they are acknowledged.

  A \<open>net_addr\<close> is the identity of a \<open>net_addr_t\<close>; sending a packet is one datagram, the
  address and the bytes, added to the output of the operation. Every operation that reads the
  clock takes the time \<open>now\<close> that \<open>I_GetTimeMS\<close> returns while it runs. Times are C
  \<open>int\<close>s that wrap; differences with the unsigned \<open>nowtime\<close> are unsigned. The debug log
  (\<open>NET_Log\<close>, \<open>NET_LogPacket\<close>, \<open>NET_OpenLog\<close>) is output only and is left out.
\<close>

type_synonym net_addr = nat
type_synonym datagram = "net_addr \<times> bytes"

definition CONNECTION_TIMEOUT_LEN :: u32 where "CONNECTION_TIMEOUT_LEN = 30"
definition KEEPALIVE_PERIOD :: u32 where "KEEPALIVE_PERIOD = 1"
definition MAX_RETRIES :: u32 where "MAX_RETRIES = 5"
definition NET_RELIABLE_PACKET :: u32 where "NET_RELIABLE_PACKET = push_bit 15 1"

definition NET_PACKET_TYPE_SYN :: u32 where "NET_PACKET_TYPE_SYN = 0"
definition NET_PACKET_TYPE_REJECTED :: u32 where "NET_PACKET_TYPE_REJECTED = 2"
definition NET_PACKET_TYPE_KEEPALIVE :: u32 where "NET_PACKET_TYPE_KEEPALIVE = 3"
definition NET_PACKET_TYPE_WAITING_DATA :: u32 where "NET_PACKET_TYPE_WAITING_DATA = 4"
definition NET_PACKET_TYPE_GAMESTART :: u32 where "NET_PACKET_TYPE_GAMESTART = 5"
definition NET_PACKET_TYPE_GAMEDATA :: u32 where "NET_PACKET_TYPE_GAMEDATA = 6"
definition NET_PACKET_TYPE_GAMEDATA_ACK :: u32 where "NET_PACKET_TYPE_GAMEDATA_ACK = 7"
definition NET_PACKET_TYPE_DISCONNECT :: u32 where "NET_PACKET_TYPE_DISCONNECT = 8"
definition NET_PACKET_TYPE_DISCONNECT_ACK :: u32 where "NET_PACKET_TYPE_DISCONNECT_ACK = 9"
definition NET_PACKET_TYPE_RELIABLE_ACK :: u32 where "NET_PACKET_TYPE_RELIABLE_ACK = 10"
definition NET_PACKET_TYPE_GAMEDATA_RESEND :: u32 where "NET_PACKET_TYPE_GAMEDATA_RESEND = 11"
definition NET_PACKET_TYPE_CONSOLE_MESSAGE :: u32 where "NET_PACKET_TYPE_CONSOLE_MESSAGE = 12"
definition NET_PACKET_TYPE_QUERY :: u32 where "NET_PACKET_TYPE_QUERY = 13"
definition NET_PACKET_TYPE_QUERY_RESPONSE :: u32 where "NET_PACKET_TYPE_QUERY_RESPONSE = 14"
definition NET_PACKET_TYPE_LAUNCH :: u32 where "NET_PACKET_TYPE_LAUNCH = 15"
definition NET_PACKET_TYPE_NAT_HOLE_PUNCH :: u32 where "NET_PACKET_TYPE_NAT_HOLE_PUNCH = 16"

lemmas packet_types = NET_PACKET_TYPE_SYN_def NET_PACKET_TYPE_REJECTED_def
  NET_PACKET_TYPE_KEEPALIVE_def NET_PACKET_TYPE_WAITING_DATA_def NET_PACKET_TYPE_GAMESTART_def
  NET_PACKET_TYPE_GAMEDATA_def NET_PACKET_TYPE_GAMEDATA_ACK_def NET_PACKET_TYPE_DISCONNECT_def
  NET_PACKET_TYPE_DISCONNECT_ACK_def NET_PACKET_TYPE_RELIABLE_ACK_def
  NET_PACKET_TYPE_GAMEDATA_RESEND_def NET_PACKET_TYPE_CONSOLE_MESSAGE_def
  NET_PACKET_TYPE_QUERY_def NET_PACKET_TYPE_QUERY_RESPONSE_def NET_PACKET_TYPE_LAUNCH_def
  NET_PACKET_TYPE_NAT_HOLE_PUNCH_def

subsection \<open>State\<close>

datatype net_connstate =
    NET_CONN_STATE_CONNECTING
  | NET_CONN_STATE_CONNECTED
  | NET_CONN_STATE_DISCONNECTING
  | NET_CONN_STATE_DISCONNECTED
  | NET_CONN_STATE_DISCONNECTED_SLEEP

datatype net_disconnect_reason =
    NET_DISCONNECT_LOCAL
  | NET_DISCONNECT_REMOTE
  | NET_DISCONNECT_TIMEOUT

record net_reliable_packet =
  rp_packet :: net_packet
  rp_last_send_time :: u32
  rp_seq :: u32

record net_connection =
  cn_state :: net_connstate
  cn_disconnect_reason :: net_disconnect_reason
  cn_addr :: net_addr
  cn_protocol :: net_protocol
  cn_last_send_time :: u32
  cn_num_retries :: u32
  cn_keepalive_send_time :: u32
  cn_keepalive_recv_time :: u32
  cn_reliable_packets :: "net_reliable_packet list"
  cn_reliable_send_seq :: u32
  cn_reliable_recv_seq :: u32

subsection \<open>Operations\<close>

text \<open>
  \<open>NET_Conn_Init\<close> leaves \<open>disconnect_reason\<close> and \<open>keepalive_send_time\<close> as they were.
\<close>

definition NET_Conn_Init ::
  "u32 \<Rightarrow> net_connection \<Rightarrow> net_addr \<Rightarrow> net_protocol \<Rightarrow> net_connection" where
  "NET_Conn_Init now conn addr protocol = conn
     \<lparr>cn_last_send_time := - 1, cn_num_retries := 0, cn_addr := addr, cn_protocol := protocol,
      cn_reliable_packets := [], cn_reliable_send_seq := 0, cn_reliable_recv_seq := 0,
      cn_keepalive_recv_time := now\<rparr>"

definition NET_Conn_InitClient ::
  "u32 \<Rightarrow> net_connection \<Rightarrow> net_addr \<Rightarrow> net_protocol \<Rightarrow> net_connection" where
  "NET_Conn_InitClient now conn addr protocol =
     (NET_Conn_Init now conn addr protocol)\<lparr>cn_state := NET_CONN_STATE_CONNECTING\<rparr>"

definition NET_Conn_InitServer ::
  "u32 \<Rightarrow> net_connection \<Rightarrow> net_addr \<Rightarrow> net_protocol \<Rightarrow> net_connection" where
  "NET_Conn_InitServer now conn addr protocol =
     (NET_Conn_Init now conn addr protocol)\<lparr>cn_state := NET_CONN_STATE_CONNECTED\<rparr>"

definition NET_Conn_SendPacket ::
  "u32 \<Rightarrow> net_connection \<Rightarrow> net_packet \<Rightarrow> net_connection \<times> datagram list" where
  "NET_Conn_SendPacket now conn packet =
     (conn\<lparr>cn_keepalive_send_time := now\<rparr>, [(cn_addr conn, pdata packet)])"

definition NET_Conn_ParseDisconnect :: "u32 \<Rightarrow> net_connection \<Rightarrow> net_connection \<times> datagram list"
  where
  "NET_Conn_ParseDisconnect now conn =
     (let reply = NET_WriteInt16 (NET_NewPacket 10) NET_PACKET_TYPE_DISCONNECT_ACK;
          (conn, out) = NET_Conn_SendPacket now conn reply
      in (conn\<lparr>cn_last_send_time := now, cn_state := NET_CONN_STATE_DISCONNECTED_SLEEP,
               cn_disconnect_reason := NET_DISCONNECT_REMOTE\<rparr>, out))"

definition NET_Conn_ParseDisconnectACK :: "net_connection \<Rightarrow> net_connection" where
  "NET_Conn_ParseDisconnectACK conn =
     (if cn_state conn = NET_CONN_STATE_DISCONNECTING
      then conn\<lparr>cn_state := NET_CONN_STATE_DISCONNECTED,
                cn_disconnect_reason := NET_DISCONNECT_LOCAL, cn_last_send_time := - 1\<rparr>
      else conn)"

definition NET_Conn_ParseReliableACK :: "net_connection \<Rightarrow> net_packet \<Rightarrow> net_connection" where
  "NET_Conn_ParseReliableACK conn packet =
     (case NET_ReadInt8 packet of
        None \<Rightarrow> conn
      | Some (seq, _) \<Rightarrow>
          (case cn_reliable_packets conn of
             [] \<Rightarrow> conn
           | rp # rps \<Rightarrow>
               if seq = (rp_seq rp + 1) AND 0xff then conn\<lparr>cn_reliable_packets := rps\<rparr>
               else conn))"

text \<open>The result is whether the packet is to be discarded, with the rest of the packet.\<close>

definition NET_Conn_ReliablePacket :: "u32 \<Rightarrow> net_connection \<Rightarrow> net_packet
    \<Rightarrow> bool \<times> net_connection \<times> net_packet \<times> datagram list" where
  "NET_Conn_ReliablePacket now conn packet =
     (case NET_ReadInt8 packet of
        None \<Rightarrow> (True, conn, packet, [])
      | Some (seq, packet) \<Rightarrow>
          (let (result, conn) =
                 (if seq \<noteq> cn_reliable_recv_seq conn AND 0xff then (True, conn)
                  else (False, conn\<lparr>cn_reliable_recv_seq :=
                                     (cn_reliable_recv_seq conn + 1) AND 0xff\<rparr>));
               reply = NET_WriteInt16 (NET_NewPacket 10) NET_PACKET_TYPE_RELIABLE_ACK;
               reply = NET_WriteInt8 reply (cn_reliable_recv_seq conn AND 0xff);
               (conn, out) = NET_Conn_SendPacket now conn reply
           in (result, conn, packet, out)))"

text \<open>
  \<open>NET_Conn_Packet\<close>: whether the common code ate the packet; the connection; the packet,
  read past the reliable header; the packet type, its reliable bit removed; the output.
\<close>

record conn_result =
  cr_eaten :: bool
  cr_conn :: net_connection
  cr_packet :: net_packet
  cr_type :: u32
  cr_out :: "datagram list"

definition conn_dispatch ::
  "u32 \<Rightarrow> net_connection \<Rightarrow> net_packet \<Rightarrow> u32 \<Rightarrow> datagram list \<Rightarrow> conn_result" where
  "conn_dispatch now conn packet packet_type out =
     (if packet_type = NET_PACKET_TYPE_DISCONNECT then
        let (conn, out') = NET_Conn_ParseDisconnect now conn
        in \<lparr>cr_eaten = True, cr_conn = conn, cr_packet = packet, cr_type = packet_type,
            cr_out = out @ out'\<rparr>
      else if packet_type = NET_PACKET_TYPE_DISCONNECT_ACK then
        \<lparr>cr_eaten = True, cr_conn = NET_Conn_ParseDisconnectACK conn, cr_packet = packet,
         cr_type = packet_type, cr_out = out\<rparr>
      else if packet_type = NET_PACKET_TYPE_KEEPALIVE then
        \<lparr>cr_eaten = True, cr_conn = conn, cr_packet = packet, cr_type = packet_type,
         cr_out = out\<rparr>
      else if packet_type = NET_PACKET_TYPE_RELIABLE_ACK then
        \<lparr>cr_eaten = True, cr_conn = NET_Conn_ParseReliableACK conn packet, cr_packet = packet,
         cr_type = packet_type, cr_out = out\<rparr>
      else
        \<lparr>cr_eaten = False, cr_conn = conn, cr_packet = packet, cr_type = packet_type,
         cr_out = out\<rparr>)"

definition NET_Conn_Packet :: "u32 \<Rightarrow> net_connection \<Rightarrow> net_packet \<Rightarrow> u32 \<Rightarrow> conn_result" where
  "NET_Conn_Packet now conn packet packet_type =
     (let conn = conn\<lparr>cn_keepalive_recv_time := now\<rparr>
      in if packet_type AND NET_RELIABLE_PACKET \<noteq> 0
         then case NET_Conn_ReliablePacket now conn packet of
                (True, conn, packet, out) \<Rightarrow>
                  \<lparr>cr_eaten = True, cr_conn = conn, cr_packet = packet, cr_type = packet_type,
                   cr_out = out\<rparr>
              | (False, conn, packet, out) \<Rightarrow>
                  conn_dispatch now conn packet (packet_type AND NOT NET_RELIABLE_PACKET) out
         else conn_dispatch now conn packet packet_type [])"

definition NET_Conn_Disconnect :: "net_connection \<Rightarrow> net_connection" where
  "NET_Conn_Disconnect conn =
     (if cn_state conn \<noteq> NET_CONN_STATE_DISCONNECTED
       \<and> cn_state conn \<noteq> NET_CONN_STATE_DISCONNECTING
       \<and> cn_state conn \<noteq> NET_CONN_STATE_DISCONNECTED_SLEEP
      then conn\<lparr>cn_state := NET_CONN_STATE_DISCONNECTING,
                cn_disconnect_reason := NET_DISCONNECT_LOCAL, cn_last_send_time := - 1,
                cn_num_retries := 0\<rparr>
      else conn)"

text \<open>\<open>NET_Conn_Run\<close> on a connected, a disconnecting and a sleeping connection.\<close>

definition conn_run_connected :: "u32 \<Rightarrow> net_connection \<Rightarrow> net_connection \<times> datagram list" where
  "conn_run_connected now conn =
     (let conn = (if now - cn_keepalive_recv_time conn > CONNECTION_TIMEOUT_LEN * 1000
                  then conn\<lparr>cn_state := NET_CONN_STATE_DISCONNECTED,
                            cn_disconnect_reason := NET_DISCONNECT_TIMEOUT\<rparr>
                  else conn);
          (conn, out1) =
            (if now - cn_keepalive_send_time conn > KEEPALIVE_PERIOD * 1000
             then NET_Conn_SendPacket now conn
                    (NET_WriteInt16 (NET_NewPacket 10) NET_PACKET_TYPE_KEEPALIVE)
             else (conn, []));
          (conn, out2) =
            (case cn_reliable_packets conn of
               [] \<Rightarrow> (conn, [])
             | rp # rps \<Rightarrow>
                 if rp_last_send_time rp <s 0 \<or> now - rp_last_send_time rp > 1000
                 then let (conn, out) = NET_Conn_SendPacket now conn (rp_packet rp)
                      in (conn\<lparr>cn_reliable_packets := rp\<lparr>rp_last_send_time := now\<rparr> # rps\<rparr>, out)
                 else (conn, []))
      in (conn, out1 @ out2))"

definition conn_run_disconnecting :: "u32 \<Rightarrow> net_connection \<Rightarrow> net_connection \<times> datagram list"
  where
  "conn_run_disconnecting now conn =
     (if cn_last_send_time conn <s 0 \<or> now - cn_last_send_time conn > 1000
      then if cn_num_retries conn <s MAX_RETRIES
           then let (conn, out) = NET_Conn_SendPacket now conn
                      (NET_WriteInt16 (NET_NewPacket 10) NET_PACKET_TYPE_DISCONNECT)
                in (conn\<lparr>cn_last_send_time := now, cn_num_retries := cn_num_retries conn + 1\<rparr>, out)
           else (conn\<lparr>cn_state := NET_CONN_STATE_DISCONNECTED,
                      cn_disconnect_reason := NET_DISCONNECT_LOCAL\<rparr>, [])
      else (conn, []))"

definition NET_Conn_Run :: "u32 \<Rightarrow> net_connection \<Rightarrow> net_connection \<times> datagram list" where
  "NET_Conn_Run now conn =
     (case cn_state conn of
        NET_CONN_STATE_CONNECTED \<Rightarrow> conn_run_connected now conn
      | NET_CONN_STATE_DISCONNECTING \<Rightarrow> conn_run_disconnecting now conn
      | NET_CONN_STATE_DISCONNECTED_SLEEP \<Rightarrow>
          (if now - cn_last_send_time conn > 5000
           then (conn\<lparr>cn_state := NET_CONN_STATE_DISCONNECTED,
                      cn_disconnect_reason := NET_DISCONNECT_REMOTE\<rparr>, [])
           else (conn, []))
      | _ \<Rightarrow> (conn, []))"

text \<open>
  \<open>NET_Conn_NewReliable\<close> appends a packet to the queue and returns a pointer to it, which the
  caller goes on writing to: \<open>on_new_reliable\<close> is such a write.
\<close>

definition NET_Conn_NewReliable :: "net_connection \<Rightarrow> u32 \<Rightarrow> net_connection" where
  "NET_Conn_NewReliable conn packet_type =
     (let packet = NET_NewPacket 100;
          packet = NET_WriteInt16 packet (packet_type OR NET_RELIABLE_PACKET);
          packet = NET_WriteInt8 packet (cn_reliable_send_seq conn AND 0xff);
          rp = \<lparr>rp_packet = packet, rp_last_send_time = - 1, rp_seq = cn_reliable_send_seq conn\<rparr>
      in conn\<lparr>cn_reliable_packets := cn_reliable_packets conn @ [rp],
              cn_reliable_send_seq := (cn_reliable_send_seq conn + 1) AND 0xff\<rparr>)"

definition on_new_reliable :: "(net_packet \<Rightarrow> net_packet) \<Rightarrow> net_connection \<Rightarrow> net_connection" where
  "on_new_reliable f conn =
     (let rp = last (cn_reliable_packets conn)
      in conn\<lparr>cn_reliable_packets :=
                butlast (cn_reliable_packets conn) @ [rp\<lparr>rp_packet := f (rp_packet rp)\<rparr>]\<rparr>)"

definition NET_ExpandTicNum :: "u32 \<Rightarrow> u32 \<Rightarrow> u32" where
  "NET_ExpandTicNum relative b =
     (let h = relative AND NOT 0xff;
          l = relative AND 0xff;
          result = h OR b;
          result = (if l < 0x40 \<and> b > 0xb0 then result - 0x100 else result)
      in if l > 0xb0 \<and> b < 0x40 then result + 0x100 else result)"

definition NET_ValidGameSettings :: "GameMode_t \<Rightarrow> GameMission_t \<Rightarrow> net_gamesettings \<Rightarrow> bool" where
  "NET_ValidGameSettings mode mission settings =
     (if gs_ticdup settings \<le>s 0 then False
      else if gs_extratics settings <s 0 then False
      else if gs_deathmatch settings <s 0 \<or> 3 <s gs_deathmatch settings then False
      else if gs_skill settings <s sk_noitems \<or> sk_nightmare <s gs_skill settings then False
      else if \<not> D_ValidGameVersion mission (gs_gameversion settings) then False
      else if \<not> D_ValidEpisodeMap mission mode (gs_episode settings) (gs_map settings) then False
      else True)"

subsection \<open>Expanding the low byte of a tic number\<close>

lemma low_byte_split: "(r AND NOT 0xff) + (x AND 0xff) = (r AND NOT 0xff) OR (x AND (0xff :: u32))"
  by (rule disjunctive_add) (auto simp: ff_mask bit_simps)

lemma low_byte_id: "(r AND NOT 0xff) + (r AND 0xff) = (r :: u32)"
  unfolding low_byte_split by (rule bit_word_eqI) (auto simp: ff_mask bit_simps)

lemma uint_low_byte: "uint ((x :: u32) AND 0xff) = uint x mod 256"
proof -
  have "x AND 0xff = take_bit 8 x" unfolding ff_mask by (rule take_bit_eq_mask [symmetric])
  then have "uint (x AND 0xff) = uint (take_bit 8 x)" by (rule arg_cong)
  also have "\<dots> = uint x mod 256" by (simp only: unsigned_take_bit_eq) (simp add: take_bit_eq_mod)
  finally show ?thesis .
qed

lemma low_byte_add: "uint ((r + word_of_int d :: u32) AND 0xff) = (uint r + d) mod 256"
proof -
  have "uint (r + word_of_int d :: u32) = (uint r + d) mod 2 ^ 32"
    by (simp only: uint_word_ariths uint_word_of_int mod_simps) simp
  then show ?thesis by (simp add: uint_low_byte mod_mod_cancel)
qed

lemma near_bytes:
  fixes r d :: int
  assumes "\<bar>d\<bar> \<le> 64" and l: "l = r mod 256" and b: "b = (r + d) mod 256"
  obtains "l < 64" "b > 176" "d = b - l - 256"
    | "l > 176" "b < 64" "d = b - l + 256"
    | "\<not> (l < 64 \<and> b > 176)" "\<not> (l > 176 \<and> b < 64)" "d = b - l"
proof -
  obtain k m where r: "r = 256 * k + l" "r + d = 256 * m + b"
    unfolding l b by (metis mult_div_mod_eq)
  define q where "q = m - k"
  have d: "d = b - l + 256 * q" using r unfolding q_def by simp
  have lb: "0 \<le> l" "l < 256" "0 \<le> b" "b < 256" by (simp_all add: l b)
  with d assms(1) have "q = -1 \<or> q = 0 \<or> q = 1" by arith
  then consider "q = -1" | "q = 0" | "q = 1" by blast
  then show ?thesis
  proof cases
    case 2
    then have "d = b - l" "\<not> (l < 64 \<and> b > 176)" "\<not> (l > 176 \<and> b < 64)"
      using d assms(1) by arith+
    then show ?thesis by (rule that(3) [rotated 2])
  qed (use that(1,2) d lb assms(1) in auto)
qed

lemma NET_ExpandTicNum_near:
  assumes "\<bar>d\<bar> \<le> 64"
  shows "NET_ExpandTicNum relative ((relative + word_of_int d) AND 0xff) = relative + word_of_int d"
proof -
  define base where "base = relative AND NOT 0xff"
  define l where "l = relative AND 0xff"
  define b where "b = (relative + word_of_int d) AND 0xff"
  have rel: "relative = base + l" unfolding base_def l_def by (rule low_byte_id [symmetric])
  have l: "uint l = uint relative mod 256" unfolding l_def by (rule uint_low_byte)
  have b: "uint b = (uint relative + d) mod 256" unfolding b_def by (rule low_byte_add)
  have j: "base OR b = base + b" unfolding base_def b_def by (rule low_byte_split [symmetric])
  have cmp: "l < 0x40 \<longleftrightarrow> uint l < 64" "b < 0x40 \<longleftrightarrow> uint b < 64" "0xb0 < l \<longleftrightarrow> 176 < uint l" "0xb0 < b \<longleftrightarrow> 176 < uint b"
    by (simp_all add: word_less_def)
  have w: "word_of_int d = (b - l + of_int k :: u32)" if "d = uint b - uint l + k" for k
    unfolding that by simp
  have e: "NET_ExpandTicNum relative b =
      (if uint l > 176 \<and> uint b < 64
       then (if uint l < 64 \<and> uint b > 176 then base + b - 256 else base + b) + 256
       else (if uint l < 64 \<and> uint b > 176 then base + b - 256 else base + b))"
    unfolding NET_ExpandTicNum_def Let_def base_def [symmetric] l_def [symmetric] j cmp by simp
  have "NET_ExpandTicNum relative b = relative + word_of_int d"
  proof (rule near_bytes [OF assms l b])
    assume "uint l < 64" "uint b > 176" "d = uint b - uint l - 256"
    then show ?thesis unfolding e using w [where k = "- 256"] by (auto simp: rel)
  next
    assume "uint l > 176" "uint b < 64" "d = uint b - uint l + 256"
    then show ?thesis unfolding e using w [where k = "256"] by (auto simp: rel)
  next
    assume "\<not> (uint l < 64 \<and> uint b > 176)" "\<not> (uint l > 176 \<and> uint b < 64)" "d = uint b - uint l"
    then show ?thesis unfolding e using w [where k = "0"] by (auto simp: rel)
  qed
  then show ?thesis unfolding b_def .
qed

lemma expand_65: "NET_ExpandTicNum 255 ((255 + 65) AND 0xff) \<noteq> 255 + 65"
  by (simp add: NET_ExpandTicNum_def)

subsection \<open>Orderly disconnection\<close>

text \<open>A connection run at the given times, with nothing received in between.\<close>

fun conn_runs :: "u32 list \<Rightarrow> net_connection \<Rightarrow> net_connection \<times> datagram list" where
  "conn_runs [] c = (c, [])"
| "conn_runs (t # ts) c = (let (c, out) = NET_Conn_Run t c; (c, out') = conn_runs ts c in (c, out @ out'))"

lemma run_disconnected: "cn_state c = NET_CONN_STATE_DISCONNECTED \<Longrightarrow> NET_Conn_Run t c = (c, [])"
  by (simp add: NET_Conn_Run_def)

lemma runs_disconnected: "cn_state c = NET_CONN_STATE_DISCONNECTED \<Longrightarrow> conn_runs ts c = (c, [])"
  by (induction ts) (simp_all add: run_disconnected)

lemma small_retries: "k \<le> 5 \<Longrightarrow> (of_nat k <s MAX_RETRIES) = (k < 5)"
proof -
  assume "k \<le> 5"
  then have "k = 0 \<or> k = 1 \<or> k = 2 \<or> k = 3 \<or> k = 4 \<or> k = 5" by arith
  then show ?thesis by (auto simp: MAX_RETRIES_def word_sless_alt)
qed

lemma run_disconnecting:
  assumes "cn_state c = NET_CONN_STATE_DISCONNECTING" "cn_num_retries c = of_nat k" "k \<le> 5"
  shows "NET_Conn_Run t c =
    (if cn_last_send_time c <s 0 \<or> t - cn_last_send_time c > 1000
     then if k < 5 then (c\<lparr>cn_keepalive_send_time := t, cn_last_send_time := t, cn_num_retries := of_nat k + 1\<rparr>,
           [(cn_addr c, [0, 8])])
       else (c\<lparr>cn_state := NET_CONN_STATE_DISCONNECTED, cn_disconnect_reason := NET_DISCONNECT_LOCAL\<rparr>, [])
     else (c, []))"
proof -
  have "NET_WriteInt16 (NET_NewPacket 10) NET_PACKET_TYPE_DISCONNECT = \<lparr>pdata = [0, 8], palloced = 10, ppos = 0\<rparr>"
    by (simp add: NET_WriteInt16_def NET_NewPacket_def NET_PACKET_TYPE_DISCONNECT_def)
  then show ?thesis
    using assms(1,2) small_retries [OF assms(3)]
    by (simp add: NET_Conn_Run_def conn_run_disconnecting_def NET_Conn_SendPacket_def)
qed

lemma runs_bound:
  "cn_state c = NET_CONN_STATE_DISCONNECTING \<Longrightarrow> cn_num_retries c = of_nat k \<Longrightarrow> k \<le> 5 \<Longrightarrow>
   length (snd (conn_runs ts c)) \<le> 5 - k"
proof (induction ts arbitrary: c k)
  case Nil
  then show ?case by simp
next
  case (Cons t ts)
  show ?case
  proof (cases "cn_last_send_time c <s 0 \<or> t - cn_last_send_time c > 1000")
    case False
    then show ?thesis using Cons by (auto simp: run_disconnecting split: prod.split dest!: Cons.IH)
  next
    case True
    show ?thesis
    proof (cases "k < 5")
      case True': True
      let ?c = "c\<lparr>cn_keepalive_send_time := t, cn_last_send_time := t, cn_num_retries := of_nat k + 1\<rparr>"
      have "length (snd (conn_runs ts ?c)) \<le> 5 - Suc k"
        by (rule Cons.IH) (use Cons.prems True' in auto)
      then show ?thesis using run_disconnecting [OF Cons.prems, of t] True True'
        by (auto simp: Let_def split: prod.split)
    next
      case False
      then show ?thesis using run_disconnecting [OF Cons.prems, of t] True
        by (auto simp: Let_def runs_disconnected split: prod.split)
    qed
  qed
qed

fun spaced :: "u32 \<Rightarrow> u32 list \<Rightarrow> bool" where
  "spaced t [] = True"
| "spaced t (t' # ts) = (t' - t > 1000 \<and> spaced t' ts)"

lemma runs_end:
  "cn_state c = NET_CONN_STATE_DISCONNECTING \<Longrightarrow> cn_num_retries c = of_nat k \<Longrightarrow> k \<le> 5 \<Longrightarrow>
   spaced (cn_last_send_time c) ts \<Longrightarrow> 5 - k < length ts \<Longrightarrow>
   cn_state (fst (conn_runs ts c)) = NET_CONN_STATE_DISCONNECTED"
proof (induction ts arbitrary: c k)
  case Nil
  then show ?case by simp
next
  case (Cons t ts)
  have due: "t - cn_last_send_time c > 1000" using Cons.prems by simp
  show ?case
  proof (cases "k < 5")
    case True
    let ?c = "c\<lparr>cn_keepalive_send_time := t, cn_last_send_time := t, cn_num_retries := of_nat k + 1\<rparr>"
    have "cn_state (fst (conn_runs ts ?c)) = NET_CONN_STATE_DISCONNECTED"
      by (rule Cons.IH [of _ "Suc k"]) (use Cons.prems True in auto)
    then show ?thesis using run_disconnecting [OF Cons.prems(1-3), of t] due True
      by (auto simp: Let_def split: prod.split)
  next
    case False
    then show ?thesis using run_disconnecting [OF Cons.prems(1-3), of t] due
      by (auto simp: Let_def runs_disconnected split: prod.split)
  qed
qed

lemma disc_bound:
  assumes "cn_state c = NET_CONN_STATE_CONNECTED"
  shows "length (snd (conn_runs ts (NET_Conn_Disconnect c))) \<le> 5"
  using assms runs_bound [of "NET_Conn_Disconnect c" 0] by (simp add: NET_Conn_Disconnect_def)

lemma disc_end:
  assumes "cn_state c = NET_CONN_STATE_CONNECTED" "spaced t ts" "5 \<le> length ts"
  shows "cn_state (fst (conn_runs (t # ts) (NET_Conn_Disconnect c))) = NET_CONN_STATE_DISCONNECTED"
proof -
  let ?c = "NET_Conn_Disconnect c"
  let ?c' = "?c\<lparr>cn_keepalive_send_time := t, cn_last_send_time := t, cn_num_retries := of_nat 0 + 1\<rparr>"
  have c: "cn_state ?c = NET_CONN_STATE_DISCONNECTING" "cn_num_retries ?c = of_nat 0" "cn_last_send_time ?c = - 1"
    using assms(1) by (simp_all add: NET_Conn_Disconnect_def)
  have "(- 1 :: u32) <s 0" by (simp add: word_sless_alt)
  then have "NET_Conn_Run t ?c = (?c', [(cn_addr ?c, [0, 8])])"
    using run_disconnecting [OF c(1,2), of t] c(3) by simp
  moreover have "cn_state (fst (conn_runs ts ?c')) = NET_CONN_STATE_DISCONNECTED"
    by (rule runs_end [of _ 1]) (use c assms in auto)
  ultimately show ?thesis by (auto simp: Let_def split: prod.split)
qed
subsection \<open>Properties\<close>

text \<open>A tic number is recovered from its low byte whenever it is at most 64 tics away from the
  reference tic, across the wrap of the byte and of the counter.\<close>

theorem expand_tic_near:
  assumes "\<bar>d\<bar> \<le> 64"
  shows "NET_ExpandTicNum relative ((relative + word_of_int d) AND 0xff) = relative + word_of_int d"
  using assms by (rule NET_ExpandTicNum_near)

text \<open>C25: A local disconnect ends. However often the connection is run, at most five DISCONNECT
  packets go out, and when the runs are more than a second apart the connection is
  disconnected after six of them, whether or not the peer ever answers.\<close>

theorem disconnect_ends:
  assumes "cn_state c = NET_CONN_STATE_CONNECTED"
  shows "length (snd (conn_runs ts (NET_Conn_Disconnect c))) \<le> 5
    \<and> (spaced t ts \<longrightarrow> 5 \<le> length ts \<longrightarrow>
       cn_state (fst (conn_runs (t # ts) (NET_Conn_Disconnect c))) = NET_CONN_STATE_DISCONNECTED)"
  using disc_bound [OF assms] disc_end [OF assms] by blast

definition fresh_conn :: net_connection where
  "fresh_conn = NET_Conn_InitServer 0
     \<lparr>cn_state = NET_CONN_STATE_DISCONNECTED, cn_disconnect_reason = NET_DISCONNECT_LOCAL, cn_addr = 0,
      cn_protocol = NET_PROTOCOL_UNKNOWN, cn_last_send_time = 0, cn_num_retries = 0,
      cn_keepalive_send_time = 0, cn_keepalive_recv_time = 0, cn_reliable_packets = [],
      cn_reliable_send_seq = 0, cn_reliable_recv_seq = 0\<rparr> 1 NET_PROTOCOL_CHOCOLATE_DOOM_0"

theorem disconnect_ends_witness:
  "cn_state (fst (conn_runs [0, 2000, 4000, 6000, 8000, 10000] (NET_Conn_Disconnect fresh_conn)))
     = NET_CONN_STATE_DISCONNECTED"
  using disconnect_ends [of fresh_conn "[2000, 4000, 6000, 8000, 10000]" 0]
  by (simp add: fresh_conn_def NET_Conn_InitServer_def)

end
