(* ===== verification/Net_Server_State.thy ===== *)
theory Net_Server_State
  imports Net_Common
begin

text \<open>
  The state of the game server (\<open>engine/src/net_server.c\<close>) and the operations on it that send
  nothing: who is connected, player numbers, the controlling client, the receive window.

  The static variables of the file are the fields of the record \<open>server\<close>. A pointer to a client
  is its index in \<open>clients\<close>. The receive window \<open>recvwindow[BACKUPTICS][NET_MAXPLAYERS]\<close> is
  the flat list of its 1024 entries, in memory order, so that an index outside a row lands where
  it lands in C, and an access outside the array is the fault \<open>OutOfBounds\<close>. A client's name is
  \<open>None\<close> when its memory has been freed or was never allocated; reading it then is the fault
  \<open>NullDeref\<close>. Two fields are not variables of the file: \<open>sv_out\<close>, the datagrams sent so far,
  and \<open>sv_refs\<close>, the reference counts of the addresses (\<open>net_io.c\<close>).

  The environment \<open>env\<close> holds what the server reads from outside: the clock, which is taken to
  stand still during one call, the name service of each network module, the command line, and the
  contents of uninitialised local variables. The memory of an address whose count reaches zero is
  freed by its network module, which is outside this component; only the counts are kept.
\<close>

definition MAXNETNODES :: nat where "MAXNETNODES = 16"

definition MASTER_REFRESH_PERIOD :: u32 where "MASTER_REFRESH_PERIOD = 30"
definition MASTER_RESOLVE_PERIOD :: u32 where "MASTER_RESOLVE_PERIOD = 8 * 60 * 60"

definition PACKAGE_STRING :: bytes where "PACKAGE_STRING = cstr ''WebDOOM 1.0.0''"

datatype net_server_state =
    SERVER_WAITING_LAUNCH
  | SERVER_WAITING_START
  | SERVER_IN_GAME

record net_client =
  cl_active :: bool
  cl_player_number :: u32
  cl_addr :: net_addr
  cl_connection :: net_connection
  cl_last_send_time :: u32
  cl_name :: "bytes option"
  cl_ready :: bool
  cl_connect_time :: u32
  cl_last_gamedata_time :: u32
  cl_recording_lowres :: bool
  cl_sendseq :: u32
  cl_sendqueue :: "net_full_ticcmd list"
  cl_acknowledged :: u32
  cl_max_players :: u32
  cl_drone :: bool
  cl_wad_sha1sum :: bytes
  cl_deh_sha1sum :: bytes
  cl_is_freedoom :: u32
  cl_player_class :: u32

record net_client_recv =
  rc_active :: bool
  rc_latency :: u32
  rc_resend_time :: u32
  rc_diff :: net_ticdiff

record server =
  server_state :: net_server_state
  server_initialized :: bool
  clients :: "net_client list"
  sv_players :: "nat option list"
  sv_gamemode :: GameMode_t
  sv_gamemission :: GameMission_t
  sv_settings :: net_gamesettings
  master_server :: "net_addr option"
  master_refresh_time :: u32
  master_resolve_time :: u32
  recvwindow_start :: u32
  recvwindow :: "net_client_recv list"
  registered_with_master :: bool
  got_master_response :: bool
  sv_out :: "datagram list"
  sv_refs :: "net_addr \<Rightarrow> int"

record env =
  e_now :: u32
  e_addr_to_string :: "net_addr \<Rightarrow> bytes"
  e_resolve :: "(bytes \<Rightarrow> net_addr option) list"
  e_servername :: "bytes option"
  e_privateserver :: bool
  e_junk_diff :: net_ticdiff
  e_junk_cmd :: net_full_ticcmd
  e_junk_settings :: net_gamesettings
  e_junk_wait :: net_waitdata

subsection \<open>What is zeroed, what is filled with ones\<close>

definition zero_ticcmd :: ticcmd where
  "zero_ticcmd = \<lparr>forwardmove = 0, sidemove = 0, angleturn = 0, chatchar = 0, buttons = 0,
     consistancy = 0, buttons2 = 0, inventory = 0, lookfly = 0, arti = 0\<rparr>"

definition zero_recv :: net_client_recv where
  "zero_recv = \<lparr>rc_active = False, rc_latency = 0, rc_resend_time = 0,
     rc_diff = \<lparr>td_diff = 0, td_cmd = zero_ticcmd\<rparr>\<rparr>"

definition ff_ticcmd :: ticcmd where
  "ff_ticcmd = \<lparr>forwardmove = - 1, sidemove = - 1, angleturn = - 1, chatchar = - 1, buttons = - 1,
     consistancy = - 1, buttons2 = - 1, inventory = - 1, lookfly = - 1, arti = - 1\<rparr>"

definition ff_full_ticcmd :: net_full_ticcmd where
  "ff_full_ticcmd = \<lparr>fc_latency = - 1, fc_seq = - 1, fc_playeringame = replicate NET_MAXPLAYERS True,
     fc_cmds = replicate NET_MAXPLAYERS \<lparr>td_diff = - 1, td_cmd = ff_ticcmd\<rparr>\<rparr>"

subsection \<open>Access to the state\<close>

abbreviation client :: "server \<Rightarrow> nat \<Rightarrow> net_client" where
  "client s i \<equiv> clients s ! i"

definition upd_client :: "nat \<Rightarrow> (net_client \<Rightarrow> net_client) \<Rightarrow> server \<Rightarrow> server" where
  "upd_client i f s = s\<lparr>clients := (clients s)[i := f (clients s ! i)]\<rparr>"

definition emit :: "datagram list \<Rightarrow> server \<Rightarrow> server" where
  "emit out s = s\<lparr>sv_out := sv_out s @ out\<rparr>"

text \<open>An operation of \<open>net_common.c\<close> on the connection of a client.\<close>

definition on_connection ::
  "nat \<Rightarrow> (net_connection \<Rightarrow> net_connection \<times> datagram list) \<Rightarrow> server \<Rightarrow> server" where
  "on_connection i f s =
     (let (c, out) = f (cl_connection (client s i))
      in emit out (upd_client i (\<lambda>cl. cl\<lparr>cl_connection := c\<rparr>) s))"

text \<open>A new reliable packet for a client, and what is written to it.\<close>

definition send_reliable :: "nat \<Rightarrow> u32 \<Rightarrow> (net_packet \<Rightarrow> net_packet) \<Rightarrow> server \<Rightarrow> server" where
  "send_reliable i packet_type f s =
     on_connection i (\<lambda>c. (on_new_reliable f (NET_Conn_NewReliable c packet_type), [])) s"

definition send_reliableR ::
  "nat \<Rightarrow> u32 \<Rightarrow> (net_packet \<Rightarrow> net_packet res) \<Rightarrow> server \<Rightarrow> server res" where
  "send_reliableR i packet_type f s =
     (let c = NET_Conn_NewReliable (cl_connection (client s i)) packet_type
      in bindR (f (rp_packet (last (cn_reliable_packets c))))
           (\<lambda>p. Inr (on_connection i (\<lambda>_. (on_new_reliable (\<lambda>_. p) c, [])) s)))"

text \<open>\<open>recvwindow[a][b]\<close>.\<close>

definition rw_index :: "u32 \<Rightarrow> u32 \<Rightarrow> int" where
  "rw_index a b = sint a * int NET_MAXPLAYERS + sint b"

definition rw_valid :: "u32 \<Rightarrow> u32 \<Rightarrow> bool" where
  "rw_valid a b \<longleftrightarrow> 0 \<le> rw_index a b \<and> rw_index a b < int (BACKUPTICS * NET_MAXPLAYERS)"

definition rw_get :: "server \<Rightarrow> u32 \<Rightarrow> u32 \<Rightarrow> net_client_recv res" where
  "rw_get s a b =
     (if rw_valid a b then Inr (recvwindow s ! nat (rw_index a b)) else Inl OutOfBounds)"

definition rw_upd ::
  "u32 \<Rightarrow> u32 \<Rightarrow> (net_client_recv \<Rightarrow> net_client_recv) \<Rightarrow> server \<Rightarrow> server res" where
  "rw_upd a b f s =
     (if rw_valid a b
      then let k = nat (rw_index a b)
           in Inr (s\<lparr>recvwindow := (recvwindow s)[k := f (recvwindow s ! k)]\<rparr>)
      else Inl OutOfBounds)"

text \<open>\<open>NET_ReferenceAddress\<close> and \<open>NET_ReleaseAddress\<close> on an address that is not NULL.\<close>

definition NET_ReferenceAddress :: "net_addr \<Rightarrow> server \<Rightarrow> server" where
  "NET_ReferenceAddress a s = s\<lparr>sv_refs := (sv_refs s)(a := sv_refs s a + 1)\<rparr>"

definition NET_ReleaseAddress :: "net_addr \<Rightarrow> server \<Rightarrow> server" where
  "NET_ReleaseAddress a s = s\<lparr>sv_refs := (sv_refs s)(a := sv_refs s a - 1)\<rparr>"

subsection \<open>Who is connected\<close>

definition ClientConnected :: "net_client \<Rightarrow> bool" where
  "ClientConnected cl \<longleftrightarrow> cl_active cl \<and> cn_state (cl_connection cl) = NET_CONN_STATE_CONNECTED"

definition NET_SV_DisconnectClient :: "nat \<Rightarrow> server \<Rightarrow> server" where
  "NET_SV_DisconnectClient i s =
     (if cl_active (client s i) then on_connection i (\<lambda>c. (NET_Conn_Disconnect c, [])) s else s)"

fun assign_players :: "nat list \<Rightarrow> nat \<Rightarrow> server \<Rightarrow> (nat \<times> server) res" where
  "assign_players [] pl s = Inr (pl, s)"
| "assign_players (i # is) pl s =
     (if ClientConnected (client s i) then
        if \<not> cl_drone (client s i) then
          if pl < NET_MAXPLAYERS then
            assign_players is (Suc pl)
              (upd_client i (\<lambda>cl. cl\<lparr>cl_player_number := of_nat pl\<rparr>)
                (s\<lparr>sv_players := (sv_players s)[pl := Some i]\<rparr>))
          else Inl OutOfBounds
        else assign_players is pl (upd_client i (\<lambda>cl. cl\<lparr>cl_player_number := - 1\<rparr>) s)
      else assign_players is pl s)"

definition NET_SV_AssignPlayers :: "server \<Rightarrow> server res" where
  "NET_SV_AssignPlayers s =
     bindR (assign_players [0..<MAXNETNODES] 0 s)
       (\<lambda>(pl, s). Inr (s\<lparr>sv_players := take pl (sv_players s) @ replicate (NET_MAXPLAYERS - pl) None\<rparr>))"

definition player_connected :: "server \<Rightarrow> nat option \<Rightarrow> bool" where
  "player_connected s p \<longleftrightarrow> (case p of None \<Rightarrow> False | Some i \<Rightarrow> ClientConnected (client s i))"

definition NET_SV_NumPlayers :: "server \<Rightarrow> nat" where
  "NET_SV_NumPlayers s = length (filter (player_connected s) (sv_players s))"

definition NET_SV_NumReadyPlayers :: "server \<Rightarrow> nat" where
  "NET_SV_NumReadyPlayers s =
     length (filter (\<lambda>cl. ClientConnected cl \<and> \<not> cl_drone cl \<and> cl_ready cl) (clients s))"

definition NET_SV_MaxPlayers :: "server \<Rightarrow> u32" where
  "NET_SV_MaxPlayers s =
     (case List.find ClientConnected (clients s) of
        Some cl \<Rightarrow> cl_max_players cl
      | None \<Rightarrow> of_nat NET_MAXPLAYERS)"

definition NET_SV_NumDrones :: "server \<Rightarrow> nat" where
  "NET_SV_NumDrones s = length (filter (\<lambda>cl. ClientConnected cl \<and> cl_drone cl) (clients s))"

definition NET_SV_NumClients :: "server \<Rightarrow> nat" where
  "NET_SV_NumClients s = length (filter ClientConnected (clients s))"

fun find_controller :: "server \<Rightarrow> nat list \<Rightarrow> nat option \<Rightarrow> nat option" where
  "find_controller s [] best = best"
| "find_controller s (i # is) best =
     (if \<not> ClientConnected (client s i) \<or> cl_drone (client s i) then find_controller s is best
      else find_controller s is
        (case best of
           None \<Rightarrow> Some i
         | Some b \<Rightarrow> if cl_connect_time (client s i) < cl_connect_time (client s b) then Some i
                     else Some b))"

definition NET_SV_Controller :: "server \<Rightarrow> nat option" where
  "NET_SV_Controller s = find_controller s [0..<MAXNETNODES] None"

definition NET_SV_LatestAcknowledged :: "server \<Rightarrow> u32" where
  "NET_SV_LatestAcknowledged s =
     foldl (\<lambda>lowtic cl. if ClientConnected cl \<and> cl_acknowledged cl < lowtic then cl_acknowledged cl
                          else lowtic) (- 1) (clients s)"

definition NET_SV_FindClient :: "net_addr \<Rightarrow> server \<Rightarrow> nat option" where
  "NET_SV_FindClient addr s =
     List.find (\<lambda>i. cl_active (client s i) \<and> cl_addr (client s i) = addr) [0..<MAXNETNODES]"

definition AllNodesReady :: "server \<Rightarrow> bool" where
  "AllNodesReady s \<longleftrightarrow> list_all (\<lambda>cl. ClientConnected cl \<longrightarrow> cl_ready cl) (clients s)"

definition NET_SV_ExpandTicNum :: "server \<Rightarrow> u32 \<Rightarrow> u32" where
  "NET_SV_ExpandTicNum s b = NET_ExpandTicNum (recvwindow_start s) b"

subsection \<open>The receive window\<close>

text \<open>Whether the first tic of the window is complete: the first missing player ends the scan.\<close>

fun should_advance :: "server \<Rightarrow> nat list \<Rightarrow> bool res" where
  "should_advance s [] = Inr True"
| "should_advance s (i # is) =
     (if \<not> player_connected s (sv_players s ! i) then should_advance s is
      else bindR (rw_get s 0 (of_nat i))
             (\<lambda>r. if \<not> rc_active r then Inr False else should_advance s is))"

definition advance_one :: "server \<Rightarrow> server" where
  "advance_one s = s\<lparr>recvwindow := drop NET_MAXPLAYERS (recvwindow s) @ replicate NET_MAXPLAYERS zero_recv,
     recvwindow_start := recvwindow_start s + 1\<rparr>"

function advance_to :: "u32 \<Rightarrow> server \<Rightarrow> server res" where
  "advance_to lowtic s =
     (if recvwindow_start s < lowtic
      then bindR (should_advance s [0..<NET_MAXPLAYERS])
             (\<lambda>adv. if adv then advance_to lowtic (advance_one s) else Inr s)
      else Inr s)"
  by pat_completeness auto

termination
proof (relation "measure (\<lambda>(lowtic, s). unat lowtic - unat (recvwindow_start s))")
  fix lowtic :: u32 and s :: server and x
  assume lt: "recvwindow_start s < lowtic"
  then have "recvwindow_start s \<noteq> - 1" using word_order.not_eq_extremum by fastforce
  then have "unat (recvwindow_start s + 1) = Suc (unat (recvwindow_start s))"
    by (metis unatSuc add.commute add.inverse_unique)
  moreover have "unat (recvwindow_start s) < unat lowtic" using lt by (simp add: word_less_nat_alt)
  ultimately show "((lowtic, advance_one s), lowtic, s)
      \<in> measure (\<lambda>(lowtic, s). unat lowtic - unat (recvwindow_start s))"
    by (simp add: advance_one_def)
qed simp

declare advance_to.simps [simp del]

definition NET_SV_AdvanceWindow :: "server \<Rightarrow> server res" where
  "NET_SV_AdvanceWindow s =
     (if NET_SV_NumPlayers s = 0 then Inr s else advance_to (NET_SV_LatestAcknowledged s) s)"

end
