(* ===== verification/Net_Server.thy ===== *)
theory Net_Server
  imports Net_Server_State
begin

text \<open>
  The handlers of the game server (\<open>engine/src/net_server.c\<close>): one definition per packet type
  and per periodic task, composed as \<open>NET_SV_Packet\<close>, \<open>NET_SV_RunClient\<close> and \<open>NET_SV_Run\<close>
  compose them. A handler is a function from the environment and the state to the new state, or
  to the fault the C code runs into. The text the server prints and logs is left out.
\<close>

subsection \<open>Messages to clients\<close>

definition NET_SV_SendConsoleMessage :: "nat \<Rightarrow> bytes \<Rightarrow> server \<Rightarrow> server" where
  "NET_SV_SendConsoleMessage i text s =
     send_reliable i NET_PACKET_TYPE_CONSOLE_MESSAGE
       (\<lambda>p. NET_WriteString p (M_snprintf 1024 text)) s"

definition NET_SV_BroadcastMessage :: "bytes \<Rightarrow> server \<Rightarrow> server" where
  "NET_SV_BroadcastMessage text s =
     (let buf = M_snprintf 1024 text
      in fold (\<lambda>i s. if ClientConnected (client s i) then NET_SV_SendConsoleMessage i buf s else s)
           [0..<MAXNETNODES] s)"

text \<open>The names and addresses of the waiting players, read through \<open>sv_players\<close>.\<close>

fun wait_names :: "env \<Rightarrow> server \<Rightarrow> nat list \<Rightarrow> net_waitdata \<Rightarrow> net_waitdata res" where
  "wait_names e s [] d = Inr d"
| "wait_names e s (k # ks) d =
     (case sv_players s ! k of
        None \<Rightarrow> Inl NullDeref
      | Some j \<Rightarrow>
          case cl_name (client s j) of
            None \<Rightarrow> Inl NullDeref
          | Some name \<Rightarrow>
              wait_names e s ks
                (d\<lparr>wd_player_names := (wd_player_names d)[k := M_StringCopy name MAXPLAYERNAME],
                   wd_player_addrs := (wd_player_addrs d)
                     [k := M_StringCopy (e_addr_to_string e (cl_addr (client s j))) MAXPLAYERNAME]\<rparr>))"

definition wait_data :: "env \<Rightarrow> server \<Rightarrow> nat \<Rightarrow> net_waitdata res" where
  "wait_data e s i =
     (let controller = NET_SV_Controller s;
          src = (case controller of None \<Rightarrow> i | Some c \<Rightarrow> c);
          d = (e_junk_wait e)
            \<lparr>wd_num_players := of_nat (NET_SV_NumPlayers s),
             wd_num_drones := of_nat (NET_SV_NumDrones s),
             wd_ready_players := of_nat (NET_SV_NumReadyPlayers s),
             wd_max_players := NET_SV_MaxPlayers s,
             wd_is_controller := (if controller = Some i then 1 else 0),
             wd_consoleplayer := cl_player_number (client s i),
             wd_wad_sha1sum := cl_wad_sha1sum (client s src),
             wd_deh_sha1sum := cl_deh_sha1sum (client s src),
             wd_is_freedoom := cl_is_freedoom (client s src)\<rparr>
      in wait_names e s [0..<NET_SV_NumPlayers s] d)"

definition NET_SV_SendWaitingData :: "env \<Rightarrow> nat \<Rightarrow> server \<Rightarrow> server res" where
  "NET_SV_SendWaitingData e i s =
     bindR (NET_SV_AssignPlayers s) (\<lambda>s.
     bindR (wait_data e s i) (\<lambda>d.
     let packet = NET_WriteInt16 (NET_NewPacket 10) NET_PACKET_TYPE_WAITING_DATA;
         packet = NET_WriteWaitData packet d
     in Inr (on_connection i (\<lambda>c. NET_Conn_SendPacket (e_now e) c packet) s)))"

subsection \<open>Connecting\<close>

definition NET_SV_SendReject :: "net_addr \<Rightarrow> bytes \<Rightarrow> server \<Rightarrow> server" where
  "NET_SV_SendReject addr msg s =
     (let packet = NET_WriteInt16 (NET_NewPacket 10) NET_PACKET_TYPE_REJECTED;
          packet = NET_WriteString packet msg
      in emit [(addr, pdata packet)] s)"

definition NET_SV_InitNewClient ::
  "env \<Rightarrow> nat \<Rightarrow> net_addr \<Rightarrow> net_protocol \<Rightarrow> server \<Rightarrow> server" where
  "NET_SV_InitNewClient e i addr protocol s =
     upd_client i (\<lambda>cl. cl
       \<lparr>cl_active := True, cl_connect_time := e_now e,
        cl_connection := NET_Conn_InitServer (e_now e) (cl_connection cl) addr protocol,
        cl_addr := addr, cl_last_send_time := - 1, cl_sendseq := 0, cl_acknowledged := 0,
        cl_drone := False, cl_ready := False, cl_last_gamedata_time := 0,
        cl_sendqueue := replicate BACKUPTICS ff_full_ticcmd\<rparr>)
       (NET_ReferenceAddress addr s)"

definition NET_MAGIC_NUMBER :: u32 where "NET_MAGIC_NUMBER = 1454104972"
definition NET_OLD_MAGIC_NUMBER :: u32 where "NET_OLD_MAGIC_NUMBER = 3436803284"

definition old_version_text :: bytes where
  "old_version_text =
     cstr ''You are using an old client version that is not supported by '' @
     cstr ''this server. This server is running '' @ PACKAGE_STRING @ cstr ''.''"

definition version_mismatch_text :: "bytes \<Rightarrow> bytes" where
  "version_mismatch_text client_version =
     M_snprintf 256
      (cstr ''Version mismatch: server version is: '' @ PACKAGE_STRING @ cstr ''; '' @
       cstr ''client is: '' @ client_version @
       cstr ''. No common compatible protocol could be '' @ cstr ''negotiated.'')"

definition game_mismatch_text ::
  "GameMission_t \<Rightarrow> GameMode_t \<Rightarrow> GameMission_t \<Rightarrow> GameMode_t \<Rightarrow> bytes" where
  "game_mismatch_text mission mode cmission cmode =
     M_snprintf 128
      (cstr ''Game mismatch: server is '' @ D_GameMissionString mission @ cstr '' ('' @
       D_GameModeString mode @ cstr ''), client is '' @ D_GameMissionString cmission @
       cstr '' ('' @ D_GameModeString cmode @ cstr '')'')"

text \<open>
  The slot a valid SYN is given: the client's own slot, deactivated when its last connection has
  ended, or the first free one. \<open>None\<close> means that the handler returns.
\<close>

definition syn_slot :: "nat option \<Rightarrow> server \<Rightarrow> (nat \<times> server) option" where
  "syn_slot cl s =
     (case cl of
        None \<Rightarrow> map_option (\<lambda>i. (i, s)) (List.find (\<lambda>i. \<not> cl_active (client s i)) [0..<MAXNETNODES])
      | Some i \<Rightarrow>
          Some (i, if cn_state (cl_connection (client s i)) = NET_CONN_STATE_DISCONNECTED
                   then upd_client i (\<lambda>cl. cl\<lparr>cl_active := False\<rparr>) s else s))"

text \<open>A new client is set up in slot \<open>i\<close> and told so.\<close>

definition syn_accept :: "env \<Rightarrow> nat \<Rightarrow> net_addr \<Rightarrow> net_protocol \<Rightarrow> net_connect_data \<Rightarrow> bytes
    \<Rightarrow> server \<Rightarrow> server res" where
  "syn_accept e i addr protocol data player_name s =
     (let s = NET_SV_InitNewClient e i addr protocol s;
          s = upd_client i (\<lambda>cl. cl
                \<lparr>cl_wad_sha1sum := cd_wad_sha1sum data, cl_deh_sha1sum := cd_deh_sha1sum data,
                 cl_is_freedoom := cd_is_freedoom data, cl_max_players := cd_max_players data,
                 cl_name := Some player_name, cl_recording_lowres := cd_lowres_turn data \<noteq> 0,
                 cl_drone := cd_drone data \<noteq> 0, cl_player_class := cd_player_class data\<rparr>) s
      in send_reliableR i NET_PACKET_TYPE_SYN
           (\<lambda>p. NET_WriteProtocol (NET_WriteString p PACKAGE_STRING) protocol) s)"

text \<open>A SYN that has been read completely, when new connections are accepted.\<close>

definition syn_connect :: "env \<Rightarrow> nat option \<Rightarrow> net_addr \<Rightarrow> net_protocol \<Rightarrow> net_connect_data
    \<Rightarrow> bytes \<Rightarrow> server \<Rightarrow> server res" where
  "syn_connect e cl addr protocol data player_name s =
     bindR (NET_SV_AssignPlayers s) (\<lambda>s.
     let num_players = NET_SV_NumPlayers s
     in if (cd_drone data = 0 \<and> NET_SV_MaxPlayers s \<le>s of_nat num_players)
           \<or> NET_SV_NumClients s \<ge> MAXNETNODES
        then Inr (NET_SV_SendReject addr (cstr ''Server is full!'') s)
        else
          let s = (if num_players = 0 \<and> cd_drone data = 0
                   then s\<lparr>sv_gamemode := cd_gamemode data, sv_gamemission := cd_gamemission data\<rparr>
                   else s)
          in if cd_gamemode data \<noteq> sv_gamemode s \<or> cd_gamemission data \<noteq> sv_gamemission s
             then Inr (NET_SV_SendReject addr
                    (game_mismatch_text (sv_gamemission s) (sv_gamemode s)
                       (cd_gamemission data) (cd_gamemode data)) s)
             else case syn_slot cl s of
                    None \<Rightarrow> Inr s
                  | Some (i, s) \<Rightarrow>
                      if cl_active (client s i) then Inr s
                      else syn_accept e i addr protocol data player_name s)"

definition NET_SV_ParseSYN ::
  "env \<Rightarrow> net_packet \<Rightarrow> nat option \<Rightarrow> net_addr \<Rightarrow> server \<Rightarrow> server res" where
  "NET_SV_ParseSYN e packet cl addr s =
     (case NET_ReadInt32 packet of
        None \<Rightarrow> Inr s
      | Some (magic, packet) \<Rightarrow>
     if magic = NET_OLD_MAGIC_NUMBER then Inr (NET_SV_SendReject addr old_version_text s)
     else if magic \<noteq> NET_MAGIC_NUMBER then Inr s
     else case NET_ReadString packet of
        (None, _) \<Rightarrow> Inr s
      | (Some client_version, packet) \<Rightarrow>
     case NET_ReadProtocolList packet of (protocol, packet) \<Rightarrow>
     if protocol = NET_PROTOCOL_UNKNOWN
     then Inr (NET_SV_SendReject addr (version_mismatch_text client_version) s)
     else case NET_ReadConnectData packet of
        None \<Rightarrow> Inr s
      | Some (data, packet) \<Rightarrow>
     if \<not> D_ValidGameMode (cd_gamemission data) (cd_gamemode data)
        \<or> of_nat NET_MAXPLAYERS <s cd_max_players data
     then Inr s
     else case NET_ReadString packet of
        (None, _) \<Rightarrow> Inr s
      | (Some player_name, _) \<Rightarrow>
     if server_state s \<noteq> SERVER_WAITING_LAUNCH
     then Inr (NET_SV_SendReject addr (cstr ''Server is not currently accepting connections'') s)
     else syn_connect e cl addr protocol data player_name s)"

subsection \<open>Starting a game\<close>

definition NET_SV_ParseLaunch :: "nat \<Rightarrow> server \<Rightarrow> server res" where
  "NET_SV_ParseLaunch i s =
     (if NET_SV_Controller s \<noteq> Some i then Inr s
      else if server_state s \<noteq> SERVER_WAITING_LAUNCH then Inr s
      else bindR (NET_SV_AssignPlayers s) (\<lambda>s.
        let num_players = NET_SV_NumPlayers s;
            s = fold (\<lambda>j s. if ClientConnected (client s j)
                       then send_reliable j NET_PACKET_TYPE_LAUNCH
                              (\<lambda>p. NET_WriteInt8 p (of_nat num_players)) s
                       else s) [0..<MAXNETNODES] s
        in Inr (s\<lparr>server_state := SERVER_WAITING_START\<rparr>)))"

definition player_field :: "server \<Rightarrow> (net_client \<Rightarrow> 'a) \<Rightarrow> 'a \<Rightarrow> nat option \<Rightarrow> 'a" where
  "player_field s f d p = (case p of None \<Rightarrow> d | Some i \<Rightarrow> f (client s i))"

definition game_settings :: "server \<Rightarrow> net_gamesettings" where
  "game_settings s = (sv_settings s)
     \<lparr>gs_lowres_turn :=
        (if list_ex (player_field s cl_recording_lowres False) (sv_players s) then 1 else 0),
      gs_num_players := of_nat (NET_SV_NumPlayers s),
      gs_player_classes := map (player_field s cl_player_class 0) (sv_players s)\<rparr>"

text \<open>The game start message to one client.\<close>

definition send_start :: "env \<Rightarrow> nat \<Rightarrow> server \<Rightarrow> server res" where
  "send_start e i s =
     (if \<not> ClientConnected (client s i) then Inr s
      else
        let s = upd_client i (\<lambda>cl. cl\<lparr>cl_last_gamedata_time := e_now e\<rparr>) s;
            s = s\<lparr>sv_settings := (sv_settings s)\<lparr>gs_consoleplayer := cl_player_number (client s i)\<rparr>\<rparr>
        in send_reliableR i NET_PACKET_TYPE_GAMESTART (\<lambda>p. NET_WriteSettings p (sv_settings s)) s)"

definition StartGame :: "env \<Rightarrow> server \<Rightarrow> server res" where
  "StartGame e s =
     bindR (NET_SV_AssignPlayers s) (\<lambda>s.
     bindR (foldR (send_start e) [0..<MAXNETNODES] (s\<lparr>sv_settings := game_settings s\<rparr>)) (\<lambda>s.
     Inr (s\<lparr>server_state := SERVER_IN_GAME,
            recvwindow := replicate (BACKUPTICS * NET_MAXPLAYERS) zero_recv,
            recvwindow_start := 0\<rparr>)))"

definition CheckStartGame :: "env \<Rightarrow> server \<Rightarrow> server res" where
  "CheckStartGame e s = (if \<not> AllNodesReady s then Inr s else StartGame e s)"

definition SendAllWaitingData :: "env \<Rightarrow> server \<Rightarrow> server res" where
  "SendAllWaitingData e s =
     foldR (\<lambda>i s. if ClientConnected (client s i) \<and> cl_ready (client s i)
                  then NET_SV_SendWaitingData e i s else Inr s) [0..<MAXNETNODES] s"

definition game_start_ready :: "env \<Rightarrow> nat \<Rightarrow> server \<Rightarrow> server res" where
  "game_start_ready e i s =
     bindR (CheckStartGame e (upd_client i (\<lambda>cl. cl\<lparr>cl_ready := True\<rparr>) s)) (SendAllWaitingData e)"

definition NET_SV_ParseGameStart :: "env \<Rightarrow> net_packet \<Rightarrow> nat \<Rightarrow> server \<Rightarrow> server res" where
  "NET_SV_ParseGameStart e packet i s =
     (if server_state s \<noteq> SERVER_WAITING_START then Inr s
      else if NET_SV_Controller s = Some i then
        bindR (NET_ReadSettings packet (e_junk_settings e)) (\<lambda>r.
          case r of
            None \<Rightarrow> Inr s
          | Some (settings, _) \<Rightarrow>
              if \<not> NET_ValidGameSettings (sv_gamemode s) (sv_gamemission s) settings then Inr s
              else game_start_ready e i (s\<lparr>sv_settings := settings\<rparr>))
      else game_start_ready e i s)"

subsection \<open>Game data\<close>

text \<open>The loop \<open>for (i=start; i<=end; ++i)\<close> over C \<open>int\<close>s.\<close>

definition int_range :: "u32 \<Rightarrow> u32 \<Rightarrow> u32 list" where
  "int_range start end =
     (if start \<le>s end then map (\<lambda>k. start + of_nat k) [0..<Suc (unat (end - start))] else [])"

definition NET_SV_SendResendRequest ::
  "env \<Rightarrow> nat \<Rightarrow> u32 \<Rightarrow> u32 \<Rightarrow> server \<Rightarrow> server res" where
  "NET_SV_SendResendRequest e i start end s =
     (let packet = NET_WriteInt16 (NET_NewPacket 20) NET_PACKET_TYPE_GAMEDATA_RESEND;
          packet = NET_WriteInt32 packet start;
          packet = NET_WriteInt8 packet (end - start + 1);
          s = on_connection i (\<lambda>c. NET_Conn_SendPacket (e_now e) c packet) s
      in foldR (\<lambda>t s.
           let index = t - recvwindow_start s
           in if of_nat BACKUPTICS \<le>s index then Inr s
              else rw_upd index (cl_player_number (client s i))
                     (\<lambda>r. r\<lparr>rc_resend_time := e_now e\<rparr>) s)
           (int_range start end) s)"

definition need_resend :: "u32 \<Rightarrow> net_client_recv \<Rightarrow> bool" where
  "need_resend now r \<longleftrightarrow> \<not> rc_active r \<and> rc_resend_time r \<noteq> 0 \<and> rc_resend_time r + 300 < now"

text \<open>
  The scan of \<open>NET_SV_CheckResends\<close>: \<open>run\<close> is the current run of tics to request, the pair
  of \<open>resend_start\<close> and \<open>resend_end\<close>, or \<open>None\<close> when \<open>resend_start\<close> is -1.
\<close>

definition request_run :: "env \<Rightarrow> nat \<Rightarrow> (nat \<times> nat) option \<Rightarrow> server \<Rightarrow> server res" where
  "request_run e i run s =
     (case run of
        None \<Rightarrow> Inr s
      | Some (a, b) \<Rightarrow> NET_SV_SendResendRequest e i (recvwindow_start s + of_nat a)
                         (recvwindow_start s + of_nat b) s)"

fun check_resends ::
  "env \<Rightarrow> nat \<Rightarrow> u32 \<Rightarrow> nat list \<Rightarrow> (nat \<times> nat) option \<Rightarrow> server \<Rightarrow> server res" where
  "check_resends e i player [] run s = request_run e i run s"
| "check_resends e i player (k # ks) run s =
     bindR (rw_get s (of_nat k) player) (\<lambda>r.
       if need_resend (e_now e) r
       then check_resends e i player ks
              (Some (case run of None \<Rightarrow> k | Some (a, _) \<Rightarrow> a, k)) s
       else bindR (request_run e i run s) (check_resends e i player ks None))"

definition NET_SV_CheckResends :: "env \<Rightarrow> nat \<Rightarrow> server \<Rightarrow> server res" where
  "NET_SV_CheckResends e i s =
     check_resends e i (cl_player_number (client s i)) [0..<BACKUPTICS] None s"

text \<open>
  The tics of a game data packet. The result is \<open>None\<close> with the state when the packet ends
  early, which ends the handler.
\<close>

fun parse_tics :: "env \<Rightarrow> nat \<Rightarrow> u32 \<Rightarrow> u32 \<Rightarrow> nat list \<Rightarrow> net_packet \<Rightarrow> server
    \<Rightarrow> (bool \<times> server) res" where
  "parse_tics e i player seq [] packet s = Inr (True, s)"
| "parse_tics e i player seq (k # ks) packet s =
     (case NET_ReadSInt16 packet of
        None \<Rightarrow> Inr (False, s)
      | Some (latency, packet) \<Rightarrow>
     case NET_ReadTiccmdDiff packet (e_junk_diff e) (gs_lowres_turn (sv_settings s) \<noteq> 0) of
        None \<Rightarrow> Inr (False, s)
      | Some (diff, packet) \<Rightarrow>
     let index = seq + of_nat k - recvwindow_start s
     in if index <s 0 \<or> of_nat BACKUPTICS \<le>s index then parse_tics e i player seq ks packet s
        else bindR (rw_upd index player
                      (\<lambda>r. r\<lparr>rc_active := True, rc_diff := diff, rc_latency := latency\<rparr>) s)
               (\<lambda>s. parse_tics e i player seq ks packet
                      (upd_client i (\<lambda>cl. cl\<lparr>cl_last_gamedata_time := e_now e\<rparr>) s)))"

definition acknowledge :: "nat \<Rightarrow> u32 \<Rightarrow> server \<Rightarrow> server" where
  "acknowledge i ackseq s =
     (if cl_acknowledged (client s i) < ackseq
      then upd_client i (\<lambda>cl. cl\<lparr>cl_acknowledged := ackseq\<rparr>) s else s)"

text \<open>How far back from tic \<open>n\<close> of the window the run of missing, unrequested tics reaches.\<close>

fun resend_start :: "server \<Rightarrow> u32 \<Rightarrow> nat \<Rightarrow> nat res" where
  "resend_start s player 0 = Inr 0"
| "resend_start s player (Suc index) =
     bindR (rw_get s (of_nat index) player) (\<lambda>r.
       if rc_active r \<or> rc_resend_time r \<noteq> 0 then Inr (Suc index)
       else resend_start s player index)"

text \<open>Requests for the tics missing just before tic \<open>seq\<close>.\<close>

definition request_missing :: "env \<Rightarrow> nat \<Rightarrow> u32 \<Rightarrow> u32 \<Rightarrow> server \<Rightarrow> server res" where
  "request_missing e i player seq s =
     (let resend_end = seq - recvwindow_start s
      in if resend_end \<le>s 0 then Inr s
         else
           let resend_end = (if of_nat BACKUPTICS \<le>s resend_end then BACKUPTICS - 1
                             else unat resend_end)
           in bindR (resend_start s player resend_end) (\<lambda>start.
              if start < resend_end
              then NET_SV_SendResendRequest e i (recvwindow_start s + of_nat start)
                     (recvwindow_start s + of_nat resend_end - 1) s
              else Inr s))"

definition NET_SV_ParseGameData :: "env \<Rightarrow> net_packet \<Rightarrow> nat \<Rightarrow> server \<Rightarrow> server res" where
  "NET_SV_ParseGameData e packet i s =
     (if server_state s \<noteq> SERVER_IN_GAME then Inr s
      else if cl_drone (client s i) then Inr s
      else
     let player = cl_player_number (client s i)
     in case NET_ReadInt8 packet of None \<Rightarrow> Inr s | Some (ackseq, packet) \<Rightarrow>
        case NET_ReadInt8 packet of None \<Rightarrow> Inr s | Some (seq, packet) \<Rightarrow>
        case NET_ReadInt8 packet of None \<Rightarrow> Inr s | Some (num_tics, packet) \<Rightarrow>
     let ackseq = NET_SV_ExpandTicNum s ackseq;
         seq = NET_SV_ExpandTicNum s seq
     in bindR (parse_tics e i player seq [0..<unat num_tics] packet s) (\<lambda>(complete, s).
        if \<not> complete then Inr s
        else request_missing e i player seq (acknowledge i ackseq s)))"

definition NET_SV_ParseGameDataACK :: "net_packet \<Rightarrow> nat \<Rightarrow> server \<Rightarrow> server" where
  "NET_SV_ParseGameDataACK packet i s =
     (if server_state s \<noteq> SERVER_IN_GAME then s
      else case NET_ReadInt8 packet of
             None \<Rightarrow> s
           | Some (ackseq, _) \<Rightarrow> acknowledge i (NET_SV_ExpandTicNum s ackseq) s)"

subsection \<open>The send queue\<close>

definition queue_slot :: "net_client \<Rightarrow> u32 \<Rightarrow> net_full_ticcmd" where
  "queue_slot cl t = cl_sendqueue cl ! (unat t mod BACKUPTICS)"

text \<open>
  Both loops over the send queue run while the slot of tic \<open>t\<close> holds tic \<open>t\<close>. Tics \<open>t\<close> and
  \<open>t + 128\<close> share a slot, so neither loop takes more than 128 steps, even where the loop
  condition \<open>t <= last\<close> never fails because \<open>last\<close> is the greatest unsigned number.
\<close>

lemma slot_period: "queue_slot cl (t + 128) = queue_slot cl t"
proof -
  have "unat (t + 128) mod 128 = unat t mod 128"
    by (simp add: unat_word_ariths mod_mod_cancel)
  then show ?thesis by (simp add: queue_slot_def BACKUPTICS_def)
qed

definition tics_held :: "net_client \<Rightarrow> u32 \<Rightarrow> nat" where
  "tics_held cl t = (LEAST n. fc_seq (queue_slot cl (t + of_nat n)) \<noteq> t + of_nat n)"

lemma tics_held_ex: "\<exists>n \<le> 128. fc_seq (queue_slot cl (t + of_nat n)) \<noteq> t + of_nat n"
proof (cases "fc_seq (queue_slot cl t) = t")
  case True
  then have "fc_seq (queue_slot cl (t + of_nat 128)) \<noteq> t + of_nat 128"
    by (simp add: slot_period)
  then show ?thesis by blast
next
  case False
  then show ?thesis by (intro exI [of _ 0]) simp
qed

lemma tics_held_step:
  assumes "fc_seq (queue_slot cl t) = t"
  shows "tics_held cl (t + 1) < tics_held cl t"
proof -
  let ?P = "\<lambda>n. fc_seq (queue_slot cl (t + of_nat n)) \<noteq> t + of_nat n"
  obtain n where "?P n" using tics_held_ex by blast
  then have ex: "?P (tics_held cl t)" unfolding tics_held_def by (rule LeastI)
  have "tics_held cl t \<noteq> 0" using ex assms by (metis add.right_neutral semiring_1_class.of_nat_0)
  then obtain m where m: "tics_held cl t = Suc m" using not0_implies_Suc by blast
  have "fc_seq (queue_slot cl (t + 1 + of_nat m)) \<noteq> t + 1 + of_nat m"
    using ex unfolding m by (simp add: add.assoc)
  then have "tics_held cl (t + 1) \<le> m" unfolding tics_held_def by (rule Least_le)
  then show ?thesis using m by simp
qed

function write_tics :: "net_client \<Rightarrow> bool \<Rightarrow> u32 \<Rightarrow> u32 \<Rightarrow> net_packet \<Rightarrow> net_packet res" where
  "write_tics cl lowres t final packet =
     (if t \<le> final
      then if fc_seq (queue_slot cl t) \<noteq> t then Inl IError
           else write_tics cl lowres (t + 1) final (NET_WriteFullTiccmd packet (queue_slot cl t) lowres)
      else Inr packet)"
  by pat_completeness auto
termination
  by (relation "measure (\<lambda>(cl, lowres, t, final, packet). tics_held cl t)")
    (simp_all add: tics_held_step)

declare write_tics.simps [simp del]

function have_tics :: "net_client \<Rightarrow> u32 \<Rightarrow> u32 \<Rightarrow> bool" where
  "have_tics cl t final =
     (if t \<le> final
      then if fc_seq (queue_slot cl t) \<noteq> t then False else have_tics cl (t + 1) final
      else True)"
  by pat_completeness auto
termination
  by (relation "measure (\<lambda>(cl, t, final). tics_held cl t)") (simp_all add: tics_held_step)

declare have_tics.simps [simp del]

definition NET_SV_SendTics :: "env \<Rightarrow> nat \<Rightarrow> u32 \<Rightarrow> u32 \<Rightarrow> server \<Rightarrow> server res" where
  "NET_SV_SendTics e i start end s =
     (let packet = NET_WriteInt16 (NET_NewPacket 500) NET_PACKET_TYPE_GAMEDATA;
          packet = NET_WriteInt8 packet (start AND 0xff);
          packet = NET_WriteInt8 packet (end - start + 1)
      in bindR (write_tics (client s i) (gs_lowres_turn (sv_settings s) \<noteq> 0) start end packet)
           (\<lambda>packet. Inr (on_connection i (\<lambda>c. NET_Conn_SendPacket (e_now e) c packet) s)))"

definition NET_SV_ParseResendRequest :: "env \<Rightarrow> net_packet \<Rightarrow> nat \<Rightarrow> server \<Rightarrow> server res" where
  "NET_SV_ParseResendRequest e packet i s =
     (case NET_ReadInt32 packet of None \<Rightarrow> Inr s | Some (start, packet) \<Rightarrow>
      case NET_ReadInt8 packet of None \<Rightarrow> Inr s | Some (num_tics, packet) \<Rightarrow>
      let final = start + num_tics - 1
      in if \<not> have_tics (client s i) start final then Inr s
         else NET_SV_SendTics e i start final s)"

text \<open>Whether a complete set of the other players' commands is there, and of how many.\<close>

fun pump_players :: "server \<Rightarrow> nat \<Rightarrow> u32 \<Rightarrow> nat list \<Rightarrow> nat \<Rightarrow> nat option res" where
  "pump_players s i recv_index [] num_players = Inr (Some num_players)"
| "pump_players s i recv_index (k # ks) num_players =
     (if sv_players s ! k = Some i then pump_players s i recv_index ks num_players
      else if \<not> player_connected s (sv_players s ! k) then pump_players s i recv_index ks num_players
      else bindR (rw_get s recv_index (of_nat k)) (\<lambda>r.
        if \<not> rc_active r then Inr None
        else pump_players s i recv_index ks (Suc num_players)))"

fun pump_cmd ::
  "server \<Rightarrow> nat \<Rightarrow> u32 \<Rightarrow> nat list \<Rightarrow> net_full_ticcmd \<Rightarrow> net_full_ticcmd res" where
  "pump_cmd s i recv_index [] cmd = Inr cmd"
| "pump_cmd s i recv_index (k # ks) cmd =
     (if sv_players s ! k = Some i \<or> sv_players s ! k = None
      then pump_cmd s i recv_index ks
             (cmd\<lparr>fc_playeringame := (fc_playeringame cmd)[k := False]\<rparr>)
      else bindR (rw_get s recv_index (of_nat k)) (\<lambda>r.
        if \<not> rc_active r
        then pump_cmd s i recv_index ks (cmd\<lparr>fc_playeringame := (fc_playeringame cmd)[k := False]\<rparr>)
        else pump_cmd s i recv_index ks
          (cmd\<lparr>fc_playeringame := (fc_playeringame cmd)[k := True],
               fc_cmds := (fc_cmds cmd)[k := rc_diff r],
               fc_latency := (if fc_latency cmd <s rc_latency r then rc_latency r
                              else fc_latency cmd)\<rparr>)))"

text \<open>
  \<open>sendseq % BACKUPTICS\<close> as an index: \<open>sendseq\<close> is a signed number, and the remainder of a
  negative one is not positive.
\<close>

definition sendqueue_index :: "u32 \<Rightarrow> nat res" where
  "sendqueue_index sendseq =
     (if sendseq <s 0 \<and> unat sendseq mod BACKUPTICS \<noteq> 0 then Inl OutOfBounds
      else Inr (unat sendseq mod BACKUPTICS))"

definition pump_tic :: "env \<Rightarrow> nat \<Rightarrow> u32 \<Rightarrow> server \<Rightarrow> server res" where
  "pump_tic e i recv_index s =
     (let sendseq = cl_sendseq (client s i);
          cmd = (e_junk_cmd e)\<lparr>fc_seq := sendseq, fc_latency := 0\<rparr>
      in bindR (pump_cmd s i recv_index [0..<NET_MAXPLAYERS] cmd) (\<lambda>cmd.
         bindR (sendqueue_index sendseq) (\<lambda>slot.
         let s = upd_client i (\<lambda>cl. cl\<lparr>cl_sendqueue := (cl_sendqueue cl)[slot := cmd]\<rparr>) s;
             starttic = sendseq - gs_extratics (sv_settings s);
             starttic = (if starttic <s 0 then 0 else starttic)
         in bindR (NET_SV_SendTics e i starttic sendseq s) (\<lambda>s.
            Inr (upd_client i (\<lambda>cl. cl\<lparr>cl_sendseq := sendseq + 1\<rparr>) s)))))"

definition NET_SV_PumpSendQueue :: "env \<Rightarrow> nat \<Rightarrow> server \<Rightarrow> server res" where
  "NET_SV_PumpSendQueue e i s =
     (let sendseq = cl_sendseq (client s i);
          recv_index = sendseq - recvwindow_start s
      in if sendseq - NET_SV_LatestAcknowledged s > 40 then Inr s
         else if recv_index <s 0 \<or> of_nat BACKUPTICS \<le>s recv_index then Inr s
         else bindR (pump_players s i recv_index [0..<NET_MAXPLAYERS] 0) (\<lambda>r.
           case r of
             None \<Rightarrow> Inr s
           | Some num_players \<Rightarrow>
               if num_players = 0 \<and> sendseq > recvwindow_start s + 10 then Inr s
               else pump_tic e i recv_index s))"

text \<open>The first entry \<open>recvwindow[player][i]\<close> that is not active: the indices are as in the code.\<close>

fun first_missing :: "server \<Rightarrow> u32 \<Rightarrow> nat list \<Rightarrow> nat option res" where
  "first_missing s player [] = Inr None"
| "first_missing s player (k # ks) =
     bindR (rw_get s player (of_nat k)) (\<lambda>r.
       if \<not> rc_active r then Inr (Some k) else first_missing s player ks)"

definition NET_SV_CheckDeadlock :: "env \<Rightarrow> nat \<Rightarrow> server \<Rightarrow> server res" where
  "NET_SV_CheckDeadlock e i s =
     (if cl_drone (client s i) then Inr s
      else if \<not> 1000 <s e_now e - cl_last_gamedata_time (client s i) then Inr s
      else bindR (first_missing s (cl_player_number (client s i)) [0..<BACKUPTICS]) (\<lambda>r.
        case r of
          None \<Rightarrow> Inr s
        | Some k \<Rightarrow>
            bindR (NET_SV_SendResendRequest e i (recvwindow_start s + of_nat k)
                     (recvwindow_start s + of_nat k + 5) s) (\<lambda>s.
            let s = upd_client i (\<lambda>cl. cl\<lparr>cl_last_gamedata_time := e_now e\<rparr>) s
            in if cl_acknowledged (client s i) < cl_sendseq (client s i)
               then NET_SV_SendTics e i (cl_acknowledged (client s i))
                      (cl_sendseq (client s i) - 1) s
               else Inr s)))"

subsection \<open>Queries and the master server\<close>

definition MASTER_SERVER_ADDRESS :: bytes where
  "MASTER_SERVER_ADDRESS = cstr ''master.chocolate-doom.org:2342''"

definition NET_MASTER_PACKET_TYPE_ADD :: u32 where "NET_MASTER_PACKET_TYPE_ADD = 0"
definition NET_MASTER_PACKET_TYPE_ADD_RESPONSE :: u32 where
  "NET_MASTER_PACKET_TYPE_ADD_RESPONSE = 1"
definition NET_MASTER_PACKET_TYPE_NAT_HOLE_PUNCH :: u32 where
  "NET_MASTER_PACKET_TYPE_NAT_HOLE_PUNCH = 10"

fun server_state_code :: "net_server_state \<Rightarrow> u32" where
  "server_state_code SERVER_WAITING_LAUNCH = 0"
| "server_state_code SERVER_WAITING_START = 1"
| "server_state_code SERVER_IN_GAME = 2"

definition NET_SV_SendQueryResponse :: "env \<Rightarrow> net_addr \<Rightarrow> server \<Rightarrow> server res" where
  "NET_SV_SendQueryResponse e addr s =
     (let querydata = \<lparr>qd_version = PACKAGE_STRING,
            qd_server_state = server_state_code (server_state s),
            qd_num_players = of_nat (NET_SV_NumPlayers s), qd_max_players = NET_SV_MaxPlayers s,
            qd_gamemode = sv_gamemode s, qd_gamemission = sv_gamemission s,
            qd_description = (case e_servername e of Some n \<Rightarrow> n | None \<Rightarrow> cstr ''Unnamed server''),
            qd_protocol = NET_PROTOCOL_UNKNOWN\<rparr>;
          reply = NET_WriteInt16 (NET_NewPacket 64) NET_PACKET_TYPE_QUERY_RESPONSE
      in bindR (NET_WriteQueryData reply querydata) (\<lambda>reply. Inr (emit [(addr, pdata reply)] s)))"

text \<open>
  \<open>NET_ResolveAddress\<close> on the server's context asks its modules in turn, and returns the first
  address found, referenced.
\<close>

fun resolve_in :: "(bytes \<Rightarrow> net_addr option) list \<Rightarrow> bytes \<Rightarrow> net_addr option" where
  "resolve_in [] name = None"
| "resolve_in (m # modules) name =
     (case m name of None \<Rightarrow> resolve_in modules name | Some a \<Rightarrow> Some a)"

definition NET_ResolveAddress :: "env \<Rightarrow> bytes \<Rightarrow> server \<Rightarrow> net_addr option \<times> server" where
  "NET_ResolveAddress e name s =
     (case resolve_in (e_resolve e) name of
        None \<Rightarrow> (None, s)
      | Some a \<Rightarrow> (Some a, NET_ReferenceAddress a s))"

definition NET_SV_ParseHolePunch :: "env \<Rightarrow> net_packet \<Rightarrow> server \<Rightarrow> server" where
  "NET_SV_ParseHolePunch e packet s =
     (case NET_ReadString packet of
        (None, _) \<Rightarrow> s
      | (Some addr_string, _) \<Rightarrow>
          case NET_ResolveAddress e addr_string s of
            (None, s) \<Rightarrow> s
          | (Some addr, s) \<Rightarrow>
              let sendpacket = NET_WriteInt16 (NET_NewPacket 16) NET_PACKET_TYPE_NAT_HOLE_PUNCH
              in NET_ReleaseAddress addr (emit [(addr, pdata sendpacket)] s))"

definition NET_Query_ResolveMaster :: "env \<Rightarrow> server \<Rightarrow> net_addr option \<times> server" where
  "NET_Query_ResolveMaster e s = NET_ResolveAddress e MASTER_SERVER_ADDRESS s"

text \<open>Sending to the address NULL dereferences it.\<close>

definition NET_Query_AddToMaster :: "net_addr option \<Rightarrow> server \<Rightarrow> server res" where
  "NET_Query_AddToMaster master_addr s =
     (case master_addr of
        None \<Rightarrow> Inl NullDeref
      | Some a \<Rightarrow> Inr (emit [(a, pdata (NET_WriteInt16 (NET_NewPacket 10)
                                        NET_MASTER_PACKET_TYPE_ADD))] s))"

definition NET_Query_AddResponse :: "net_packet \<Rightarrow> server \<Rightarrow> server" where
  "NET_Query_AddResponse packet s =
     (case NET_ReadInt16 packet of
        None \<Rightarrow> s
      | Some (result, _) \<Rightarrow>
          (if result \<noteq> 0 then s\<lparr>registered_with_master := True\<rparr> else s)
            \<lparr>got_master_response := True\<rparr>)"

definition NET_SV_MasterPacket :: "env \<Rightarrow> net_packet \<Rightarrow> server \<Rightarrow> server" where
  "NET_SV_MasterPacket e packet s =
     (case NET_ReadInt16 packet of
        None \<Rightarrow> s
      | Some (packet_type, packet) \<Rightarrow>
          if packet_type = NET_MASTER_PACKET_TYPE_ADD_RESPONSE then NET_Query_AddResponse packet s
          else if packet_type = NET_MASTER_PACKET_TYPE_NAT_HOLE_PUNCH
          then NET_SV_ParseHolePunch e packet s
          else s)"

definition UpdateMasterServer :: "env \<Rightarrow> server \<Rightarrow> server res" where
  "UpdateMasterServer e s =
     (let now = e_now e;
          s = (if now - master_resolve_time s > MASTER_RESOLVE_PERIOD * 1000
               then let (new_addr, s) = NET_Query_ResolveMaster e s;
                        s = (case master_server s of None \<Rightarrow> s | Some a \<Rightarrow> NET_ReleaseAddress a s)
                    in s\<lparr>master_server := new_addr, master_resolve_time := now\<rparr>
               else s)
      in if now - master_refresh_time s > MASTER_REFRESH_PERIOD * 1000
         then bindR (NET_Query_AddToMaster (master_server s) s)
                (\<lambda>s. Inr (s\<lparr>master_refresh_time := now\<rparr>))
         else Inr s)"

definition NET_SV_RegisterWithMaster :: "env \<Rightarrow> server \<Rightarrow> server res" where
  "NET_SV_RegisterWithMaster e s =
     (let s = (if \<not> e_privateserver e
               then let (a, s) = NET_Query_ResolveMaster e s in s\<lparr>master_server := a\<rparr>
               else s\<lparr>master_server := None\<rparr>)
      in if master_server s \<noteq> None
         then bindR (NET_Query_AddToMaster (master_server s) s)
                (\<lambda>s. Inr (s\<lparr>master_refresh_time := e_now e, master_resolve_time := e_now e\<rparr>))
         else Inr s)"

subsection \<open>Packets\<close>

definition client_packet :: "env \<Rightarrow> u32 \<Rightarrow> net_packet \<Rightarrow> nat \<Rightarrow> server \<Rightarrow> server res" where
  "client_packet e packet_type packet i s =
     (if packet_type = NET_PACKET_TYPE_GAMESTART then NET_SV_ParseGameStart e packet i s
      else if packet_type = NET_PACKET_TYPE_LAUNCH then NET_SV_ParseLaunch i s
      else if packet_type = NET_PACKET_TYPE_GAMEDATA then NET_SV_ParseGameData e packet i s
      else if packet_type = NET_PACKET_TYPE_GAMEDATA_ACK
      then Inr (NET_SV_ParseGameDataACK packet i s)
      else if packet_type = NET_PACKET_TYPE_GAMEDATA_RESEND
      then NET_SV_ParseResendRequest e packet i s
      else Inr s)"

definition NET_SV_Packet :: "env \<Rightarrow> net_packet \<Rightarrow> net_addr \<Rightarrow> server \<Rightarrow> server res" where
  "NET_SV_Packet e packet addr s =
     (if master_server s = Some addr then Inr (NET_SV_MasterPacket e packet s)
      else
     let cl = NET_SV_FindClient addr s
     in case NET_ReadInt16 packet of
          None \<Rightarrow> Inr s
        | Some (packet_type, packet) \<Rightarrow>
     if packet_type = NET_PACKET_TYPE_SYN then NET_SV_ParseSYN e packet cl addr s
     else if packet_type = NET_PACKET_TYPE_QUERY then NET_SV_SendQueryResponse e addr s
     else case cl of
            None \<Rightarrow> Inr s
          | Some i \<Rightarrow>
              let r = NET_Conn_Packet (e_now e) (cl_connection (client s i)) packet packet_type;
                  s = on_connection i (\<lambda>_. (cr_conn r, cr_out r)) s
              in if cr_eaten r then Inr s
                 else client_packet e (cr_type r) (cr_packet r) i s)"

subsection \<open>Periodic work\<close>

definition NET_SV_GameEnded :: "server \<Rightarrow> server" where
  "NET_SV_GameEnded s =
     fold NET_SV_DisconnectClient [0..<MAXNETNODES]
       (s\<lparr>server_state := SERVER_WAITING_LAUNCH, sv_gamemode := indetermined\<rparr>)"

text \<open>A broadcast that names a client.\<close>

definition broadcast_about :: "nat \<Rightarrow> (bytes \<Rightarrow> bytes) \<Rightarrow> server \<Rightarrow> server res" where
  "broadcast_about i text s =
     (case cl_name (client s i) of
        None \<Rightarrow> Inl NullDeref
      | Some name \<Rightarrow> Inr (NET_SV_BroadcastMessage (text name) s))"

definition timed_out_text :: "bytes \<Rightarrow> bytes" where
  "timed_out_text name = cstr ''Client '' @ [39] @ name @ [39] @ cstr '' timed out and disconnected''"

definition aborted_text :: "bytes \<Rightarrow> bytes" where
  "aborted_text name = cstr ''Game startup aborted because '' @ cstr ''player '' @ [39] @ name @
     [39] @ cstr '' disconnected.''"

text \<open>What happens to a client whose connection has ended.\<close>

definition client_gone :: "nat \<Rightarrow> server \<Rightarrow> server res" where
  "client_gone i s =
     (let s = upd_client i (\<lambda>cl. cl\<lparr>cl_active := False\<rparr>) s
      in bindR (if server_state s = SERVER_WAITING_START \<and> \<not> cl_drone (client s i)
                then bindR (broadcast_about i aborted_text s) (\<lambda>s. Inr (NET_SV_GameEnded s))
                else Inr s) (\<lambda>s.
         let s = upd_client i (\<lambda>cl. cl\<lparr>cl_name := None\<rparr>) s;
             s = NET_ReleaseAddress (cl_addr (client s i)) s
         in Inr (if NET_SV_NumPlayers s = 0 then NET_SV_GameEnded s else s)))"

definition client_work :: "env \<Rightarrow> nat \<Rightarrow> server \<Rightarrow> server res" where
  "client_work e i s =
     (if \<not> ClientConnected (client s i) then Inr s
      else bindR
        (if server_state s = SERVER_WAITING_LAUNCH
            \<and> (cl_last_send_time (client s i) <s 0
               \<or> 1000 <s e_now e - cl_last_send_time (client s i))
         then bindR (NET_SV_SendWaitingData e i s)
                (\<lambda>s. Inr (upd_client i (\<lambda>cl. cl\<lparr>cl_last_send_time := e_now e\<rparr>) s))
         else Inr s) (\<lambda>s.
        if server_state s = SERVER_IN_GAME
        then bindR (NET_SV_PumpSendQueue e i s) (NET_SV_CheckDeadlock e i)
        else Inr s))"

definition NET_SV_RunClient :: "env \<Rightarrow> nat \<Rightarrow> server \<Rightarrow> server res" where
  "NET_SV_RunClient e i s =
     (let s = on_connection i (NET_Conn_Run (e_now e)) s;
          gone = (cn_state (cl_connection (client s i)) = NET_CONN_STATE_DISCONNECTED)
      in bindR (if gone
                  \<and> cn_disconnect_reason (cl_connection (client s i)) = NET_DISCONNECT_TIMEOUT
                then broadcast_about i timed_out_text s else Inr s) (\<lambda>s.
         bindR (if gone then client_gone i s else Inr s) (client_work e i)))"

definition NET_SV_Init :: "server \<Rightarrow> server res" where
  "NET_SV_Init s =
     bindR (NET_SV_AssignPlayers
              (s\<lparr>clients := map (\<lambda>cl. cl\<lparr>cl_active := False\<rparr>) (clients s)\<rparr>)) (\<lambda>s.
     Inr (s\<lparr>server_state := SERVER_WAITING_LAUNCH, sv_gamemode := indetermined,
            server_initialized := True\<rparr>))"

text \<open>
  One call of \<open>NET_SV_Run\<close>; \<open>incoming\<close> are the packets that \<open>NET_RecvPacket\<close> yields before it
  returns false, each with its sender.
\<close>

definition receive_one :: "env \<Rightarrow> datagram \<Rightarrow> server \<Rightarrow> server res" where
  "receive_one e d s =
     bindR (NET_SV_Packet e \<lparr>pdata = snd d, palloced = length (snd d), ppos = 0\<rparr> (fst d)
              (NET_ReferenceAddress (fst d) s))
       (\<lambda>s. Inr (NET_ReleaseAddress (fst d) s))"

definition run_game :: "env \<Rightarrow> server \<Rightarrow> server res" where
  "run_game e s =
     bindR (NET_SV_AdvanceWindow s)
       (foldR (\<lambda>k s. case sv_players s ! k of
                        None \<Rightarrow> Inr s
                      | Some i \<Rightarrow> if ClientConnected (client s i) then NET_SV_CheckResends e i s
                                 else Inr s) [0..<NET_MAXPLAYERS])"

definition NET_SV_Run :: "env \<Rightarrow> datagram list \<Rightarrow> server \<Rightarrow> server res" where
  "NET_SV_Run e incoming s =
     (if \<not> server_initialized s then Inr s
      else bindR (foldR (receive_one e) incoming s) (\<lambda>s.
           bindR (if master_server s \<noteq> None then UpdateMasterServer e s else Inr s) (\<lambda>s.
           bindR (foldR (\<lambda>i s. if cl_active (client s i) then NET_SV_RunClient e i s else Inr s)
                    [0..<MAXNETNODES] s) (\<lambda>s.
           case server_state s of
             SERVER_WAITING_LAUNCH \<Rightarrow> Inr s
           | SERVER_WAITING_START \<Rightarrow> CheckStartGame e s
           | SERVER_IN_GAME \<Rightarrow> run_game e s))))"

text \<open>
  \<open>NET_SV_Shutdown\<close>: the clients are disconnected, then the server is run until none is active
  or five seconds have passed. Each element of the list is what one turn of the loop sees; the
  result is \<open>None\<close> when the list ends before the loop does.
\<close>

fun shutdown_loop :: "u32 \<Rightarrow> (env \<times> datagram list) list \<Rightarrow> server \<Rightarrow> server option res" where
  "shutdown_loop start_time [] s = Inr None"
| "shutdown_loop start_time ((e, incoming) # turns) s =
     (let running = list_ex cl_active (clients s) \<and> \<not> 5000 <s e_now e - start_time
      in bindR (NET_SV_Run e incoming s) (\<lambda>s.
         if running then shutdown_loop start_time turns s else Inr (Some s)))"

definition NET_SV_Shutdown :: "u32 \<Rightarrow> (env \<times> datagram list) list \<Rightarrow> server \<Rightarrow> server option res"
  where
  "NET_SV_Shutdown start_time turns s =
     (if \<not> server_initialized s then Inr (Some s)
      else shutdown_loop start_time turns
             (fold (\<lambda>i s. if cl_active (client s i) then NET_SV_DisconnectClient i s else s)
                [0..<MAXNETNODES] s))"

end
