(* ===== verification/Net_Server_Inv.thy ===== *)
theory Net_Server_Inv
  imports Net_Server Net_Structrw_Codec
begin

text \<open>
  The invariant of the game server and what the handlers do to it. \<open>sv_ok\<close> says that the
  arrays have their sizes, that every active client has a name, that at most eight connected
  clients play, that the send queue of a client holds its last 128 tics, and that in a game
  every playing client has a player number that \<open>sv_players\<close> maps back to it.

  Most handlers are \<open>calm\<close>: they connect nobody, and leave player numbers and send queues
  alone. A calm change keeps the invariant; the handlers that are not calm (assigning player
  numbers, accepting a client, starting a game, generating a tic, dropping a client) are treated
  one by one.
\<close>

subsection \<open>The invariant\<close>

definition full_cmd_ok :: "net_full_ticcmd \<Rightarrow> bool" where
  "full_cmd_ok c \<longleftrightarrow> length (fc_playeringame c) = NET_MAXPLAYERS \<and> length (fc_cmds c) = NET_MAXPLAYERS"

definition holds_tics :: "net_client \<Rightarrow> bool" where
  "holds_tics cl \<longleftrightarrow> (\<forall>t. unat t < unat (cl_sendseq cl) \<longrightarrow> unat (cl_sendseq cl) \<le> unat t + BACKUPTICS
     \<longrightarrow> fc_seq (queue_slot cl t) = t)"

definition client_ok :: "net_client \<Rightarrow> bool" where
  "client_ok cl \<longleftrightarrow>
     (cl_active cl \<longrightarrow> cl_name cl \<noteq> None)
   \<and> (ClientConnected cl \<longrightarrow> cl_max_players cl \<le>s of_nat NET_MAXPLAYERS)
   \<and> length (cl_sendqueue cl) = BACKUPTICS \<and> list_all full_cmd_ok (cl_sendqueue cl)
   \<and> holds_tics cl
   \<and> unat (cl_sendseq cl) \<le> unat (cl_acknowledged cl) + 41"

definition playing :: "net_client \<Rightarrow> bool" where
  "playing cl \<longleftrightarrow> ClientConnected cl \<and> \<not> cl_drone cl"

definition numbered :: "server \<Rightarrow> nat \<Rightarrow> bool" where
  "numbered s i \<longleftrightarrow> (\<exists>k < NET_MAXPLAYERS. cl_player_number (client s i) = of_nat k
     \<and> sv_players s ! k = Some i)"

text \<open>No client is ahead of the window; outside a game no tic has been generated for anyone.\<close>

definition in_step :: "server \<Rightarrow> net_client \<Rightarrow> bool" where
  "in_step s cl \<longleftrightarrow>
     (if server_state s = SERVER_IN_GAME
      then unat (cl_sendseq cl) \<le> unat (recvwindow_start s) + BACKUPTICS else cl_sendseq cl = 0)"

definition paced :: "server \<Rightarrow> bool" where
  "paced s \<longleftrightarrow> (\<forall>i < MAXNETNODES. ClientConnected (client s i) \<longrightarrow> in_step s (client s i))"

definition no_drone_plays :: "server \<Rightarrow> bool" where
  "no_drone_plays s \<longleftrightarrow> (\<forall>i. Some i \<in> set (sv_players s) \<longrightarrow> \<not> cl_drone (client s i))"

definition sv_ok :: "server \<Rightarrow> bool" where
  "sv_ok s \<longleftrightarrow>
     length (clients s) = MAXNETNODES
   \<and> length (sv_players s) = NET_MAXPLAYERS
   \<and> length (recvwindow s) = BACKUPTICS * NET_MAXPLAYERS
   \<and> length (gs_player_classes (sv_settings s)) = NET_MAXPLAYERS
   \<and> (\<forall>i. Some i \<in> set (sv_players s) \<longrightarrow> i < MAXNETNODES)
   \<and> list_all client_ok (clients s)
   \<and> length (filter playing (clients s)) \<le> NET_MAXPLAYERS
   \<and> (server_state s = SERVER_IN_GAME \<longrightarrow>
        (\<forall>i < MAXNETNODES. playing (client s i) \<longrightarrow> numbered s i) \<and> no_drone_plays s)
   \<and> paced s"

subsection \<open>Changes that keep the invariant\<close>

definition calm_client :: "net_client \<Rightarrow> net_client \<Rightarrow> bool" where
  "calm_client c c' \<longleftrightarrow>
     (cl_active c' \<longrightarrow> cl_active c) \<and> (ClientConnected c' \<longrightarrow> ClientConnected c)
   \<and> cl_name c' = cl_name c \<and> cl_drone c' = cl_drone c
   \<and> cl_player_number c' = cl_player_number c \<and> cl_max_players c' = cl_max_players c
   \<and> cl_sendqueue c' = cl_sendqueue c \<and> cl_sendseq c' = cl_sendseq c
   \<and> unat (cl_acknowledged c) \<le> unat (cl_acknowledged c')"

definition calm :: "server \<Rightarrow> server \<Rightarrow> bool" where
  "calm s s' \<longleftrightarrow>
     list_all2 calm_client (clients s) (clients s')
   \<and> sv_players s' = sv_players s
   \<and> length (recvwindow s') = length (recvwindow s)
   \<and> length (gs_player_classes (sv_settings s')) = length (gs_player_classes (sv_settings s))
   \<and> gs_extratics (sv_settings s') = gs_extratics (sv_settings s)
   \<and> recvwindow_start s' = recvwindow_start s
   \<and> (server_state s' = SERVER_IN_GAME \<longrightarrow> server_state s = SERVER_IN_GAME)
   \<and> (server_state s = SERVER_IN_GAME \<and> server_state s' \<noteq> SERVER_IN_GAME
        \<longrightarrow> list_all (\<lambda>cl. \<not> ClientConnected cl) (clients s'))"

lemma calm_client_refl [simp]: "calm_client c c"
  by (simp add: calm_client_def)

lemma calm_client_trans: "calm_client a b \<Longrightarrow> calm_client b c \<Longrightarrow> calm_client a c"
  by (auto simp: calm_client_def)

lemma calm_refl [simp]: "calm s s"
  by (simp add: calm_def list.rel_refl)

lemma calm_clients_trans:
  "list_all2 calm_client as bs \<Longrightarrow> list_all2 calm_client bs cs \<Longrightarrow> list_all2 calm_client as cs"
  by (rule list_all2_trans) (rule calm_client_trans)

lemma calm_none: "list_all2 calm_client cs cs' \<Longrightarrow> list_all (\<lambda>cl. \<not> ClientConnected cl) cs
    \<Longrightarrow> list_all (\<lambda>cl. \<not> ClientConnected cl) cs'"
  by (induction rule: list_all2_induct) (auto simp: calm_client_def)

lemma calm_trans:
  assumes "calm a b" "calm b c"
  shows "calm a c"
proof -
  have "list_all2 calm_client (clients a) (clients c)"
    using assms calm_clients_trans by (auto simp: calm_def)
  then show ?thesis using assms calm_none [of "clients b" "clients c"] by (auto simp: calm_def)
qed

lemma calm_client_ok: "calm_client c c' \<Longrightarrow> client_ok c \<Longrightarrow> client_ok c'"
  by (auto simp: calm_client_def client_ok_def holds_tics_def queue_slot_def)

lemma calm_playing: "calm_client c c' \<Longrightarrow> playing c' \<Longrightarrow> playing c"
  by (auto simp: calm_client_def playing_def)

lemma count_calm: "list_all2 calm_client cs cs' \<Longrightarrow> length (filter playing cs') \<le> length (filter playing cs)"
  by (induction rule: list_all2_induct) (auto dest: calm_playing)

lemma paced_fields [simp]:
  "paced (s\<lparr>sv_settings := x\<rparr>) = paced s" "paced (s\<lparr>sv_gamemode := a\<rparr>) = paced s"
  "paced (s\<lparr>sv_gamemode := a, sv_gamemission := b\<rparr>) = paced s"
  "paced (s\<lparr>master_server := c\<rparr>) = paced s"
  "paced (s\<lparr>master_refresh_time := d\<rparr>) = paced s"
  "paced (s\<lparr>master_resolve_time := d\<rparr>) = paced s"
  "paced (s\<lparr>registered_with_master := r\<rparr>) = paced s"
  "paced (s\<lparr>got_master_response := r\<rparr>) = paced s"
  by (simp_all add: paced_def in_step_def)

lemma no_drone_fields [simp]:
  "no_drone_plays (s\<lparr>sv_settings := x\<rparr>) = no_drone_plays s"
  "no_drone_plays (s\<lparr>sv_gamemode := a\<rparr>) = no_drone_plays s"
  "no_drone_plays (s\<lparr>sv_gamemode := a, sv_gamemission := b\<rparr>) = no_drone_plays s"
  "no_drone_plays (s\<lparr>master_server := c\<rparr>) = no_drone_plays s"
  "no_drone_plays (s\<lparr>master_refresh_time := d\<rparr>) = no_drone_plays s"
  "no_drone_plays (s\<lparr>master_resolve_time := d\<rparr>) = no_drone_plays s"
  "no_drone_plays (s\<lparr>registered_with_master := r\<rparr>) = no_drone_plays s"
  "no_drone_plays (s\<lparr>got_master_response := r\<rparr>) = no_drone_plays s"
  by (simp_all add: no_drone_plays_def)

lemma calm_no_drone:
  assumes "calm s s'" "no_drone_plays s" "\<forall>i. Some i \<in> set (sv_players s) \<longrightarrow> i < length (clients s)"
  shows "no_drone_plays s'"
  using assms by (auto simp: no_drone_plays_def calm_def list_all2_conv_all_nth calm_client_def)

lemma calm_paced:
  assumes "calm s s'" "paced s" "length (clients s) = MAXNETNODES"
  shows "paced s'"
proof -
  have "in_step s' (client s' i)" if "i < MAXNETNODES" "ClientConnected (client s' i)" for i
  proof -
    have i: "i < length (clients s)" "i < length (clients s')"
      using that(1) assms(1,3) list_all2_lengthD by (fastforce simp: calm_def)+
    have c: "calm_client (client s i) (client s' i)"
      using i assms(1) by (simp add: calm_def list_all2_conv_all_nth)
    then have "in_step s (client s i)" using assms(2) that by (auto simp: paced_def calm_client_def)
    moreover have "server_state s' = SERVER_IN_GAME \<longleftrightarrow> server_state s = SERVER_IN_GAME"
      using assms(1) that(2) i by (auto simp: calm_def list_all_length)
    ultimately show ?thesis using c assms(1) by (simp add: in_step_def calm_client_def calm_def)
  qed
  then show ?thesis by (simp add: paced_def)
qed

lemma calm_ok:
  assumes "calm s s'" "sv_ok s"
  shows "sv_ok s'"
proof -
  have l: "list_all2 calm_client (clients s) (clients s')" using assms(1) by (simp add: calm_def)
  have "list_all client_ok (clients s')"
    using l assms(2) by (metis sv_ok_def list_all_length list_all2_conv_all_nth calm_client_ok)
  moreover have "length (filter playing (clients s')) \<le> NET_MAXPLAYERS"
    using count_calm [OF l] assms(2) by (simp add: sv_ok_def)
  moreover have "numbered s' i"
    if "server_state s' = SERVER_IN_GAME" "i < MAXNETNODES" "playing (client s' i)" for i
  proof -
    have c: "calm_client (client s i) (client s' i)"
      using l that(2) assms(2) by (auto simp: sv_ok_def list_all2_conv_all_nth)
    have "server_state s = SERVER_IN_GAME" using assms(1) that(1) by (auto simp: calm_def)
    then have "numbered s i" using assms(2) that calm_playing [OF c] by (auto simp: sv_ok_def)
    then show ?thesis using c assms(1) by (simp add: numbered_def calm_client_def calm_def)
  qed
  moreover have "server_state s' = SERVER_IN_GAME \<longrightarrow> no_drone_plays s'"
    using calm_no_drone [OF assms(1)] assms by (auto simp: sv_ok_def calm_def)
  moreover have "paced s'" by (rule calm_paced [OF assms(1)]) (use assms(2) in \<open>simp_all add: sv_ok_def\<close>)
  ultimately show ?thesis using assms l list_all2_lengthD [OF l] by (auto simp: sv_ok_def calm_def)
qed

lemma calm_fold: "(\<And>x s. x \<in> set xs \<Longrightarrow> calm s (f x s)) \<Longrightarrow> calm s (fold f xs s)"
proof (induction xs arbitrary: s)
  case Nil
  then show ?case by simp
next
  case (Cons x xs)
  have "calm (f x s) (fold f xs (f x s))" by (rule Cons.IH) (simp add: Cons.prems)
  then show ?case using Cons.prems [of x s] by (auto intro: calm_trans)
qed

lemma calm_foldR:
  "foldR f xs s = Inr s' \<Longrightarrow> (\<And>x s s'. x \<in> set xs \<Longrightarrow> f x s = Inr s' \<Longrightarrow> calm s s') \<Longrightarrow> calm s s'"
  by (rule foldR_inv [where P = "calm s"]) (auto intro: calm_trans)

lemma calm_upd_client: "calm_client (client s i) (f (client s i)) \<Longrightarrow> calm s (upd_client i f s)"
  by (cases "i < length (clients s)")
    (auto simp: calm_def upd_client_def list_all2_conv_all_nth nth_list_update)

lemma calm_emit [simp]: "calm s (emit out s)"
  by (simp add: calm_def emit_def list.rel_refl)

lemma clients_emit [simp]: "clients (emit out s) = clients s" by (simp add: emit_def)

text \<open>What the operations of the connection layer do to the connection's state.\<close>

definition keeps_off :: "net_connection \<Rightarrow> net_connection \<Rightarrow> bool" where
  "keeps_off c c' \<longleftrightarrow> (cn_state c' = NET_CONN_STATE_CONNECTED \<longrightarrow> cn_state c = NET_CONN_STATE_CONNECTED)"

lemma calm_on_connection:
  assumes "keeps_off (cl_connection (client s i)) (fst (f (cl_connection (client s i))))"
  shows "calm s (on_connection i f s)"
proof -
  obtain c out where f: "f (cl_connection (client s i)) = (c, out)" by fastforce
  have "calm_client (client s i) ((client s i)\<lparr>cl_connection := c\<rparr>)"
    using assms by (simp add: f keeps_off_def calm_client_def ClientConnected_def)
  then have "calm s (upd_client i (\<lambda>cl. cl\<lparr>cl_connection := c\<rparr>) s)" by (rule calm_upd_client)
  then show ?thesis by (simp add: on_connection_def f calm_trans)
qed

lemma keeps_off_same: "cn_state c' = cn_state c \<Longrightarrow> keeps_off c c'"
  by (simp add: keeps_off_def)

lemma run_not_connecting: "keeps_off c (fst (NET_Conn_Run now c))"
proof (cases "cn_state c")
  case NET_CONN_STATE_CONNECTED
  then show ?thesis by (simp add: keeps_off_def)
qed (auto simp: keeps_off_def NET_Conn_Run_def conn_run_disconnecting_def NET_Conn_SendPacket_def)

lemma keeps_off_ops [simp]:
  "keeps_off c (fst (NET_Conn_SendPacket now c p))"
  "keeps_off c (NET_Conn_Disconnect c)"
  "keeps_off c (NET_Conn_NewReliable c ty)"
  "keeps_off c (on_new_reliable f c)"
  "keeps_off c (on_new_reliable f (NET_Conn_NewReliable c ty))"
  "keeps_off c (fst (NET_Conn_Run now c))"
  by (simp_all add: keeps_off_same NET_Conn_SendPacket_def NET_Conn_NewReliable_def Let_def
     on_new_reliable_def run_not_connecting) (simp add: keeps_off_def NET_Conn_Disconnect_def)

lemma ReliablePacket_state: "cn_state (fst (snd (NET_Conn_ReliablePacket now c p))) = cn_state c"
  by (simp add: NET_Conn_ReliablePacket_def NET_Conn_SendPacket_def Let_def split: option.split prod.split)

lemma dispatch_keeps_off: "keeps_off c (cr_conn (conn_dispatch now c p ty out))"
  by (simp add: conn_dispatch_def keeps_off_def NET_Conn_ParseDisconnect_def NET_Conn_SendPacket_def
     NET_Conn_ParseDisconnectACK_def NET_Conn_ParseReliableACK_def Let_def split: option.split list.split prod.split)

lemma keeps_off_Packet [simp]: "keeps_off c (cr_conn (NET_Conn_Packet now c p ty))"
proof -
  let ?c = "c\<lparr>cn_keepalive_recv_time := now\<rparr>"
  obtain eat c' p' out where r: "NET_Conn_ReliablePacket now ?c p = (eat, c', p', out)" by (metis surj_pair)
  have "cn_state c' = cn_state c" using ReliablePacket_state [of now ?c p] by (simp add: r)
  then show ?thesis
    using dispatch_keeps_off [of c' now p' "ty AND NOT NET_RELIABLE_PACKET" out]
      dispatch_keeps_off [of ?c now p ty "[]"]
    by (cases eat) (auto simp: NET_Conn_Packet_def r keeps_off_def Let_def)
qed

subsection \<open>Handlers that are calm\<close>

lemma calm_send_reliable: "calm s (send_reliable i ty f s)"
  unfolding send_reliable_def by (rule calm_on_connection) simp

lemma calm_send_reliableR: "send_reliableR i ty f s = Inr s' \<Longrightarrow> calm s s'"
  unfolding send_reliableR_def by (auto simp: bindR_eq_Inr Let_def intro!: calm_on_connection)

lemma calm_fields [simp]:
  "calm s (NET_ReferenceAddress a s)" "calm s (NET_ReleaseAddress a s)"
  by (simp_all add: calm_def NET_ReferenceAddress_def NET_ReleaseAddress_def list.rel_refl)

lemma calm_console: "calm s (NET_SV_SendConsoleMessage i t s)"
  unfolding NET_SV_SendConsoleMessage_def by (rule calm_send_reliable)

lemma calm_broadcast: "calm s (NET_SV_BroadcastMessage t s)"
  unfolding NET_SV_BroadcastMessage_def Let_def by (rule calm_fold) (simp add: calm_console)

lemma calm_reject: "calm s (NET_SV_SendReject a t s)"
  unfolding NET_SV_SendReject_def Let_def by simp

lemma calm_disconnect: "calm s (NET_SV_DisconnectClient i s)"
  unfolding NET_SV_DisconnectClient_def by (simp add: calm_on_connection)

lemma disconnect_client:
  "i < length (clients s) \<Longrightarrow> \<not> ClientConnected (client (NET_SV_DisconnectClient i s) i)"
  by (auto simp: NET_SV_DisconnectClient_def on_connection_def upd_client_def ClientConnected_def
      NET_Conn_Disconnect_def)

lemma calm_clientD: "calm s s' \<Longrightarrow> i < length (clients s) \<Longrightarrow> calm_client (client s i) (client s' i)"
  by (simp add: calm_def list_all2_conv_all_nth)

lemma calm_length: "calm s s' \<Longrightarrow> length (clients s') = length (clients s)"
  by (auto simp: calm_def dest: list_all2_lengthD)

lemma disconnect_all:
  "i \<in> set xs \<Longrightarrow> i < length (clients s) \<Longrightarrow>
   \<not> ClientConnected (client (fold NET_SV_DisconnectClient xs s) i)"
proof (induction xs arbitrary: s)
  case (Cons x xs)
  let ?t = "NET_SV_DisconnectClient x s"
  have l: "i < length (clients ?t)" using calm_length [OF calm_disconnect [of s x]] Cons.prems by simp
  have c: "calm ?t (fold NET_SV_DisconnectClient xs ?t)" by (rule calm_fold) (rule calm_disconnect)
  show ?case
  proof (cases "i = x")
    case True
    then have "\<not> ClientConnected (client ?t i)" using disconnect_client Cons.prems by simp
    then show ?thesis using calm_clientD [OF c l] by (auto simp: calm_client_def)
  next
    case False
    then show ?thesis using Cons l by simp
  qed
qed simp

lemma game_ended_none:
  "length (clients s) = MAXNETNODES \<Longrightarrow> list_all (\<lambda>cl. \<not> ClientConnected cl) (clients (NET_SV_GameEnded s))"
proof -
  let ?s = "s\<lparr>server_state := SERVER_WAITING_LAUNCH, sv_gamemode := indetermined\<rparr>"
  assume l: "length (clients s) = MAXNETNODES"
  have "calm ?s (NET_SV_GameEnded s)"
    unfolding NET_SV_GameEnded_def by (rule calm_fold) (rule calm_disconnect)
  from calm_length [OF this] show ?thesis
    using disconnect_all [of _ "[0..<MAXNETNODES]" ?s] l by (auto simp: NET_SV_GameEnded_def list_all_length)
qed

lemma game_ended_state: "server_state (NET_SV_GameEnded s) = SERVER_WAITING_LAUNCH"
proof -
  have "server_state (fold NET_SV_DisconnectClient xs t) = server_state t" for xs t
    by (induction xs arbitrary: t)
      (auto simp: NET_SV_DisconnectClient_def on_connection_def upd_client_def emit_def split_def Let_def)
  then show ?thesis by (simp add: NET_SV_GameEnded_def)
qed

lemma calm_game_ended:
  assumes "length (clients s) = MAXNETNODES"
  shows "calm s (NET_SV_GameEnded s)"
proof -
  let ?s = "s\<lparr>server_state := SERVER_WAITING_LAUNCH, sv_gamemode := indetermined\<rparr>"
  have "calm ?s (NET_SV_GameEnded s)"
    unfolding NET_SV_GameEnded_def by (rule calm_fold) (rule calm_disconnect)
  then show ?thesis using game_ended_none [OF assms] game_ended_state [of s] by (auto simp: calm_def)
qed

lemma calm_rw_upd: "rw_upd a b f s = Inr s' \<Longrightarrow> calm s s'"
  by (auto simp: rw_upd_def calm_def Let_def list.rel_refl split: if_splits)

lemma calm_SendResendRequest:
  assumes "NET_SV_SendResendRequest e i a b s = Inr s'"
  shows "calm s s'"
proof -
  obtain f g where s': "foldR f (int_range a b) (on_connection i (\<lambda>c. NET_Conn_SendPacket (e_now e) c g) s) = Inr s'"
    and f: "f = (\<lambda>t s. let index = t - recvwindow_start s
           in if of_nat BACKUPTICS \<le>s index then Inr s
              else rw_upd index (cl_player_number (client s i)) (\<lambda>r. r\<lparr>rc_resend_time := e_now e\<rparr>) s)"
    using assms unfolding NET_SV_SendResendRequest_def Let_def by blast
  have "calm (on_connection i (\<lambda>c. NET_Conn_SendPacket (e_now e) c g) s) s'"
    by (rule calm_foldR [OF s']) (auto simp: f Let_def calm_rw_upd split: if_splits)
  then show ?thesis by (rule calm_trans [OF calm_on_connection, rotated]) simp
qed

lemma calm_gamedata_time: "calm s (upd_client i (\<lambda>cl. cl\<lparr>cl_last_gamedata_time := t\<rparr>) s)"
  by (rule calm_upd_client) (simp add: calm_client_def ClientConnected_def)

lemma calm_request_run: "request_run e i run s = Inr s' \<Longrightarrow> calm s s'"
  by (auto simp: request_run_def calm_SendResendRequest split: option.splits)

lemma calm_check_resends: "check_resends e i pl ks run s = Inr s' \<Longrightarrow> calm s s'"
proof (induction e i pl ks run s rule: check_resends.induct)
  case (1 e i pl run s)
  then show ?case by (simp add: calm_request_run)
next
  case (2 e i pl k ks run s)
  from "2.prems" obtain r where r: "rw_get s (of_nat k) pl = Inr r" by (auto simp: bindR_eq_Inr)
  show ?case
  proof (cases "need_resend (e_now e) r")
    case True
    with "2.prems" r "2.IH"(1) [OF True] show ?thesis by simp
  next
    case False
    with "2.prems" r obtain t where t: "request_run e i run s = Inr t" "check_resends e i pl ks None t = Inr s'"
      by (auto simp: bindR_eq_Inr)
    with "2.IH"(2) [OF False] show ?thesis by (blast intro: calm_trans calm_request_run)
  qed
qed

lemma calm_acknowledge: "calm s (acknowledge i a s)"
  by (auto simp: acknowledge_def calm_client_def ClientConnected_def word_less_nat_alt intro!: calm_upd_client)

lemma calm_parse_tics: "parse_tics e i pl seq ks p s = Inr (b, s') \<Longrightarrow> calm s s'"
proof (induction ks arbitrary: p s)
  case Nil
  then show ?case by simp
next
  case (Cons k ks)
  have st: "calm s s'" if "rw_upd a c f s = Inr x"
    "parse_tics e i pl seq ks q (upd_client i (cl_last_gamedata_time_update (\<lambda>_. e_now e)) x) = Inr (b, s')"
    for a c f x q
    using calm_trans [OF calm_rw_upd [OF that(1)] calm_trans [OF calm_gamedata_time Cons.IH [OF that(2)]]] .
  show ?case using Cons.prems
    by (auto simp: bindR_eq_Inr Let_def split: option.splits if_splits)
      (erule Cons.IH, erule Cons.IH, erule st, assumption)
qed

lemma calm_ParseGameDataACK: "calm s (NET_SV_ParseGameDataACK p i s)"
  by (simp add: NET_SV_ParseGameDataACK_def calm_acknowledge split: option.split)

lemma calm_SendTics: "NET_SV_SendTics e i a b s = Inr s' \<Longrightarrow> calm s s'"
  by (auto simp: NET_SV_SendTics_def Let_def bindR_eq_Inr intro!: calm_on_connection)

lemma calm_ParseResendRequest: "NET_SV_ParseResendRequest e p i s = Inr s' \<Longrightarrow> calm s s'"
  by (auto simp: NET_SV_ParseResendRequest_def Let_def calm_SendTics split: option.splits if_splits)

lemma calm_request_missing:
  assumes "request_missing e i pl seq s = Inr s'"
  shows "calm s s'"
proof (cases "s' = s")
  case False
  with assms obtain a b where "NET_SV_SendResendRequest e i a b s = Inr s'"
    unfolding request_missing_def Let_def by (auto simp: bindR_eq_Inr split: if_splits)
  then show ?thesis by (rule calm_SendResendRequest)
qed simp

lemma calm_ParseGameData:
  assumes "NET_SV_ParseGameData e p i s = Inr s'"
  shows "calm s s'"
proof (cases "s' = s")
  case False
  with assms obtain pl seq ks q complete s1 ackseq where
    t: "parse_tics e i pl seq ks q s = Inr (complete, s1)" and
    rest: "(if \<not> complete then Inr s1 else request_missing e i pl seq (acknowledge i ackseq s1)) = Inr s'"
    unfolding NET_SV_ParseGameData_def Let_def
    by (auto simp: bindR_eq_Inr split: if_splits option.splits)
  have "calm s1 s'"
  proof (cases complete)
    case True
    with rest have "calm (acknowledge i ackseq s1) s'" by (simp add: calm_request_missing)
    then show ?thesis by (rule calm_trans [OF calm_acknowledge])
  qed (use rest in simp)
  then show ?thesis using calm_parse_tics [OF t] by (rule calm_trans [rotated])
qed simp


subsection \<open>Player numbers\<close>

definition players_in :: "server \<Rightarrow> nat list \<Rightarrow> nat list" where
  "players_in s is = filter (\<lambda>i. playing (client s i)) is"

fun renumber :: "nat list \<Rightarrow> nat \<Rightarrow> net_client list \<Rightarrow> net_client list" where
  "renumber [] pl cs = cs"
| "renumber (i # is) pl cs =
     (if playing (cs ! i) then renumber is (Suc pl) (cs[i := (cs ! i)\<lparr>cl_player_number := of_nat pl\<rparr>])
      else if ClientConnected (cs ! i) then renumber is pl (cs[i := (cs ! i)\<lparr>cl_player_number := - 1\<rparr>])
      else renumber is pl cs)"

lemma renumber_playing [simp]:
  "playing (c\<lparr>cl_player_number := n\<rparr>) = playing c"
  "ClientConnected (c\<lparr>cl_player_number := n\<rparr>) = ClientConnected c"
  by (simp_all add: playing_def ClientConnected_def)

lemma upd_same: "i < length xs \<Longrightarrow> (\<And>x. P (f x) = P x) \<Longrightarrow> P (xs[i := f (xs ! i)] ! j) = P (xs ! j)"
  by (cases "i = j") auto

lemma length_renumber [simp]: "length (renumber is pl cs) = length cs"
  by (induction "is" pl cs rule: renumber.induct) auto

lemma assign_players_eq:
  "\<forall>i \<in> set is. i < length (clients s) \<Longrightarrow> length (sv_players s) = NET_MAXPLAYERS \<Longrightarrow>
   pl + length (players_in s is) \<le> NET_MAXPLAYERS \<Longrightarrow>
   assign_players is pl s = Inr (pl + length (players_in s is),
     s\<lparr>clients := renumber is pl (clients s),
       sv_players := take pl (sv_players s) @ map Some (players_in s is)
         @ drop (pl + length (players_in s is)) (sv_players s)\<rparr>)"
proof (induction "is" arbitrary: pl s)
  case Nil
  then show ?case by (simp add: players_in_def)
next
  case (Cons i "is")
  have i: "i < length (clients s)" using Cons.prems by simp
  show ?case
  proof (cases "playing (client s i)")
    case True
    let ?s = "upd_client i (\<lambda>cl. cl\<lparr>cl_player_number := of_nat pl\<rparr>)
                (s\<lparr>sv_players := (sv_players s)[pl := Some i]\<rparr>)"
    have pl: "pl < NET_MAXPLAYERS" using Cons.prems True by (simp add: players_in_def)
    have pin: "players_in ?s is = players_in s is"
      using upd_same [OF i, of playing] by (simp add: players_in_def upd_client_def)
    have "assign_players is (Suc pl) ?s = Inr (Suc pl + length (players_in ?s is),
       ?s\<lparr>clients := renumber is (Suc pl) (clients ?s),
         sv_players := take (Suc pl) (sv_players ?s) @ map Some (players_in ?s is)
           @ drop (Suc pl + length (players_in ?s is)) (sv_players ?s)\<rparr>)"
      using Cons.prems True pin by (intro Cons.IH) (auto simp: upd_client_def players_in_def)
    moreover have "take (Suc pl) ((sv_players s)[pl := Some i]) = take pl (sv_players s) @ [Some i]"
      using pl Cons.prems by (simp add: take_Suc_conv_app_nth)
    ultimately show ?thesis using True pl pin
      by (simp add: playing_def players_in_def upd_client_def)
  next
    case False
    show ?thesis
    proof (cases "ClientConnected (client s i)")
      case True
      let ?s = "upd_client i (\<lambda>cl. cl\<lparr>cl_player_number := - 1\<rparr>) s"
      have pin: "players_in ?s is = players_in s is"
        using upd_same [OF i, of playing] by (simp add: players_in_def upd_client_def)
      have "assign_players is pl ?s = Inr (pl + length (players_in ?s is),
         ?s\<lparr>clients := renumber is pl (clients ?s),
           sv_players := take pl (sv_players ?s) @ map Some (players_in ?s is)
             @ drop (pl + length (players_in ?s is)) (sv_players ?s)\<rparr>)"
        using Cons.prems False pin by (intro Cons.IH) (auto simp: upd_client_def players_in_def)
      then show ?thesis using True False pin
        by (simp add: playing_def players_in_def upd_client_def)
    next
      case F: False
      have "assign_players is pl s = Inr (pl + length (players_in s is),
         s\<lparr>clients := renumber is pl (clients s),
           sv_players := take pl (sv_players s) @ map Some (players_in s is)
             @ drop (pl + length (players_in s is)) (sv_players s)\<rparr>)"
        using Cons.prems False by (intro Cons.IH) (auto simp: players_in_def)
      then show ?thesis using F by (simp add: playing_def players_in_def)
    qed
  qed
qed

lemma renumber_nth:
  "distinct is \<Longrightarrow> \<forall>i \<in> set is. i < length cs \<Longrightarrow> j < length cs \<Longrightarrow>
   renumber is pl cs ! j =
     (if j \<in> set is \<and> playing (cs ! j)
      then (cs ! j)\<lparr>cl_player_number := of_nat (pl + length (filter (\<lambda>i. playing (cs ! i)) (takeWhile (\<lambda>i. i \<noteq> j) is)))\<rparr>
      else if j \<in> set is \<and> ClientConnected (cs ! j) then (cs ! j)\<lparr>cl_player_number := - 1\<rparr>
      else cs ! j)"
proof (induction "is" arbitrary: pl cs)
  case Nil
  then show ?case by simp
next
  case (Cons i "is")
  have i: "i < length cs" using Cons.prems by simp
  have fl: "filter (\<lambda>k. playing (cs[i := (cs ! i)\<lparr>cl_player_number := n\<rparr>] ! k)) xs = filter (\<lambda>k. playing (cs ! k)) xs" for n xs
    using upd_same [OF i, of playing] by simp
  show ?case
  proof (cases "i = j")
    case True
    then show ?thesis using Cons by (auto simp: Cons.IH playing_def)
  next
    case False
    then show ?thesis using Cons.prems by (auto simp: Cons.IH fl)
  qed
qed


definition players :: "server \<Rightarrow> nat list" where
  "players s = players_in s [0..<MAXNETNODES]"

lemma count_players:
  assumes "length (clients s) = MAXNETNODES"
  shows "length (players s) = length (filter playing (clients s))"
proof -
  have c: "clients s = map (client s) [0..<MAXNETNODES]"
    unfolding assms [symmetric] by (rule map_nth [symmetric])
  have "filter playing (map (client s) [0..<MAXNETNODES]) = map (client s) (players s)"
    by (simp only: filter_map players_def players_in_def comp_def)
  then have "length (filter playing (map (client s) [0..<MAXNETNODES])) = length (players s)"
    by (simp only: length_map)
  then show ?thesis using c by argo
qed

lemma upt_split: "j < n \<Longrightarrow> [0..<n] = [0..<j] @ j # [Suc j..<n]"
  using upt_add_eq_append [of 0 j "n - j"] by (simp add: upt_conv_Cons)

lemma players_props:
  "distinct (players s)" "i \<in> set (players s) \<longleftrightarrow> i < MAXNETNODES \<and> playing (client s i)"
  by (auto simp: players_def players_in_def)

text \<open>What \<open>NET_SV_AssignPlayers\<close> does, all at once.\<close>

definition assigned :: "server \<Rightarrow> server" where
  "assigned s = s\<lparr>clients := renumber [0..<MAXNETNODES] 0 (clients s),
     sv_players := map Some (players s) @ replicate (NET_MAXPLAYERS - length (players s)) None\<rparr>"

lemma AssignPlayers_eq:
  assumes "length (clients s) = MAXNETNODES" "length (sv_players s) = NET_MAXPLAYERS"
    "length (filter playing (clients s)) \<le> NET_MAXPLAYERS"
  shows "NET_SV_AssignPlayers s = Inr (assigned s)"
proof -
  have n: "length (players s) \<le> NET_MAXPLAYERS" using assms count_players by simp
  have "assign_players [0..<MAXNETNODES] 0 s = Inr (0 + length (players_in s [0..<MAXNETNODES]),
     s\<lparr>clients := renumber [0..<MAXNETNODES] 0 (clients s),
       sv_players := take 0 (sv_players s) @ map Some (players_in s [0..<MAXNETNODES])
         @ drop (0 + length (players_in s [0..<MAXNETNODES])) (sv_players s)\<rparr>)"
    using assms n by (intro assign_players_eq) (simp_all add: players_def)
  then show ?thesis
    by (simp add: NET_SV_AssignPlayers_def assigned_def players_def)
qed

lemma assigned_frame [simp]:
  "server_state (assigned s) = server_state s" "recvwindow (assigned s) = recvwindow s"
  "sv_settings (assigned s) = sv_settings s" "recvwindow_start (assigned s) = recvwindow_start s"
  "length (clients (assigned s)) = length (clients s)" "sv_out (assigned s) = sv_out s"
  "sv_gamemode (assigned s) = sv_gamemode s" "sv_gamemission (assigned s) = sv_gamemission s"
  "master_server (assigned s) = master_server s" "server_initialized (assigned s) = server_initialized s"
  by (simp_all add: assigned_def)

lemma takeWhile_upt: "j < n \<Longrightarrow> takeWhile (\<lambda>i. i \<noteq> j) [0..<n] = [0..<j]"
proof -
  assume "j < n"
  then have "[0..<n] = [0..<j] @ j # [Suc j..<n]"
    by (rule upt_split)
  then show ?thesis by (simp add: takeWhile_append takeWhile_eq_all_conv)
qed

lemma assigned_client:
  assumes "length (clients s) = MAXNETNODES" "i < MAXNETNODES"
  shows "client (assigned s) i =
    (if playing (client s i) then (client s i)\<lparr>cl_player_number := of_nat (length (players_in s [0..<i]))\<rparr>
     else if ClientConnected (client s i) then (client s i)\<lparr>cl_player_number := - 1\<rparr>
     else client s i)"
  using assms by (simp add: assigned_def renumber_nth takeWhile_upt players_in_def)

lemma players_nth:
  assumes "i < MAXNETNODES" "playing (client s i)"
  shows "length (players_in s [0..<i]) < length (players s)"
    "players s ! length (players_in s [0..<i]) = i"
proof -
  have "[0..<MAXNETNODES] = [0..<i] @ i # [Suc i..<MAXNETNODES]"
    using assms(1) by (rule upt_split)
  then have "players s = players_in s [0..<i] @ i # players_in s [Suc i..<MAXNETNODES]"
    using assms(2) unfolding players_def players_in_def by simp
  then show "length (players_in s [0..<i]) < length (players s)"
    "players s ! length (players_in s [0..<i]) = i" by simp_all
qed

lemma assigned_playing:
  assumes "length (clients s) = MAXNETNODES" "i < MAXNETNODES"
  shows "playing (client (assigned s) i) = playing (client s i)"
    "ClientConnected (client (assigned s) i) = ClientConnected (client s i)"
  using assms by (simp_all add: assigned_client)

lemma assigned_sv_players:
  "sv_players (assigned s) = map Some (players s) @ replicate (NET_MAXPLAYERS - length (players s)) None"
  by (simp add: assigned_def)

lemma assigned_numbered:
  assumes "length (clients s) = MAXNETNODES" "length (filter playing (clients s)) \<le> NET_MAXPLAYERS"
    and "i < MAXNETNODES" "playing (client s i)"
  shows "numbered (assigned s) i"
proof -
  have n: "length (players s) \<le> NET_MAXPLAYERS" using assms count_players by simp
  note p = players_nth [OF assms(3,4)]
  have "sv_players (assigned s) ! length (players_in s [0..<i]) = Some i"
    using p by (simp add: assigned_sv_players nth_append)
  then show ?thesis
    using p(1) n assms unfolding numbered_def
    by (intro exI [of _ "length (players_in s [0..<i])"]) (simp add: assigned_client)
qed

lemma assigned_no_drone: "length (clients s) = MAXNETNODES \<Longrightarrow> no_drone_plays (assigned s)"
  by (auto simp: no_drone_plays_def assigned_sv_players players_props(2) assigned_client playing_def)

lemma client_ok_number [simp]: "client_ok (c\<lparr>cl_player_number := n\<rparr>) = client_ok c"
  by (simp add: client_ok_def holds_tics_def queue_slot_def)

lemma assigned_count:
  assumes "length (clients s) = MAXNETNODES"
  shows "players (assigned s) = players s"
  using assms by (auto simp: players_def players_in_def assigned_playing intro!: filter_cong)

lemma assigned_ok:
  assumes "sv_ok s"
  shows "sv_ok (assigned s)"
proof -
  have l: "length (clients s) = MAXNETNODES" "length (filter playing (clients s)) \<le> NET_MAXPLAYERS"
    using assms by (simp_all add: sv_ok_def)
  have n: "length (players s) \<le> NET_MAXPLAYERS" using l count_players by simp
  have "client_ok (client (assigned s) i)" if "i < MAXNETNODES" for i
    using assms that by (simp add: assigned_client sv_ok_def list_all_length)
  then have "list_all client_ok (clients (assigned s))" using l by (simp add: list_all_length)
  moreover have "length (filter playing (clients (assigned s))) \<le> NET_MAXPLAYERS"
    using count_players [of "assigned s"] assigned_count [OF l(1)] l n by simp
  moreover have "\<forall>i. Some i \<in> set (sv_players (assigned s)) \<longrightarrow> i < MAXNETNODES"
    by (auto simp: assigned_sv_players players_props(2))
  moreover have "no_drone_plays (assigned s)" by (rule assigned_no_drone [OF l(1)])
  moreover have "paced (assigned s)"
    using assms l(1) by (auto simp: sv_ok_def paced_def in_step_def assigned_client)
  ultimately show ?thesis
    using assms n assigned_numbered [OF l] by (auto simp: sv_ok_def assigned_sv_players assigned_playing)
qed

lemma AssignPlayers_ok: "sv_ok s \<Longrightarrow> NET_SV_AssignPlayers s = Inr (assigned s)"
  by (rule AssignPlayers_eq) (simp_all add: sv_ok_def)

lemma NumPlayers_assigned:
  assumes "length (clients s) = MAXNETNODES" 
  shows "NET_SV_NumPlayers (assigned s) = length (players s)"
proof -
  have "filter (player_connected (assigned s)) (map Some (players s)) = map Some (players s)"
    using assms by (auto simp: player_connected_def filter_id_conv players_props(2) assigned_playing playing_def)
  then show ?thesis
    by (simp add: NET_SV_NumPlayers_def assigned_sv_players player_connected_def filter_empty_conv)
qed


lemma ok_lengths: "sv_ok s \<Longrightarrow> length (clients s) = MAXNETNODES" "sv_ok s \<Longrightarrow> length (sv_players s) = NET_MAXPLAYERS"
  by (simp_all add: sv_ok_def)

lemma ok_client: "sv_ok s \<Longrightarrow> i < MAXNETNODES \<Longrightarrow> client_ok (client s i)"
  by (simp add: sv_ok_def list_all_length)

lemma ok_players: "sv_ok s \<Longrightarrow> length (players s) \<le> NET_MAXPLAYERS"
  by (simp add: count_players sv_ok_def)

subsection \<open>Waiting data\<close>

lemma wait_names_total:
  "\<forall>k \<in> set ks. \<exists>j. sv_players s ! k = Some j \<and> cl_name (client s j) \<noteq> None \<Longrightarrow>
   \<exists>d'. wait_names e s ks d = Inr d'"
proof (induction ks arbitrary: d)
  case Nil
  then show ?case by simp
next
  case (Cons k ks)
  then obtain j name where "sv_players s ! k = Some j" "cl_name (client s j) = Some name" by auto
  then show ?case using Cons by simp
qed

lemma wait_data_total:
  assumes "sv_ok s"
  shows "\<exists>d. wait_data e (assigned s) i = Inr d"
proof -
  have "\<exists>j. sv_players (assigned s) ! k = Some j \<and> cl_name (client (assigned s) j) \<noteq> None"
    if "k < NET_SV_NumPlayers (assigned s)" for k
  proof -
    have k: "k < length (players s)" using that assms by (simp add: NumPlayers_assigned ok_lengths)
    then have "players s ! k \<in> set (players s)" by simp
    then have p: "players s ! k < MAXNETNODES" "playing (client s (players s ! k))"
      using players_props by blast+
    then have "cl_name (client (assigned s) (players s ! k)) \<noteq> None"
      using ok_client [OF assms p(1)] ok_lengths(1) [OF assms]
      by (simp add: assigned_client client_ok_def playing_def ClientConnected_def)
    then show ?thesis using k by (simp add: assigned_sv_players nth_append)
  qed
  then show ?thesis unfolding wait_data_def Let_def by (intro wait_names_total) simp
qed

lemma SendWaitingData_safe:
  assumes "sv_ok s"
  shows "\<exists>s'. NET_SV_SendWaitingData e i s = Inr s' \<and> calm (assigned s) s'"
  using wait_data_total [OF assms, of e i] AssignPlayers_ok [OF assms]
  by (auto simp: NET_SV_SendWaitingData_def Let_def intro!: calm_on_connection)

lemma SendWaitingData_ok:
  assumes "sv_ok s"
  shows "\<exists>s'. NET_SV_SendWaitingData e i s = Inr s' \<and> sv_ok s'"
  using SendWaitingData_safe [OF assms] assigned_ok [OF assms] calm_ok by blast

lemma SendAllWaitingData_ok:
  assumes "sv_ok s"
  shows "\<exists>s'. SendAllWaitingData e s = Inr s' \<and> sv_ok s'"
  unfolding SendAllWaitingData_def
  by (rule foldR_safe [where P = sv_ok, OF _ assms]) (simp add: SendWaitingData_ok)

subsection \<open>Starting a game\<close>

definition all_numbered :: "server \<Rightarrow> bool" where
  "all_numbered s \<longleftrightarrow> (\<forall>i < MAXNETNODES. playing (client s i) \<longrightarrow> numbered s i)"

lemma calm_numbered:
  assumes "calm s s'" "all_numbered s" "length (clients s) = MAXNETNODES"
  shows "all_numbered s'"
proof -
  have "numbered s' i" if "i < MAXNETNODES" "playing (client s' i)" for i
  proof -
    have c: "calm_client (client s i) (client s' i)"
      using assms(1,3) that(1) by (auto simp: calm_def list_all2_conv_all_nth)
    then have "numbered s i" using assms(2) that calm_playing by (auto simp: all_numbered_def)
    then show ?thesis using c assms(1) by (simp add: numbered_def calm_client_def calm_def)
  qed
  then show ?thesis by (simp add: all_numbered_def)
qed

definition start_ok :: "u32 \<Rightarrow> server \<Rightarrow> bool" where
  "start_ok x s \<longleftrightarrow> sv_ok s \<and> all_numbered s \<and> no_drone_plays s \<and> server_state s \<noteq> SERVER_IN_GAME
     \<and> gs_extratics (sv_settings s) = x \<and> sint (gs_num_players (sv_settings s)) \<le> int NET_MAXPLAYERS"

lemma send_reliable_settings [simp]:
  "sv_settings (emit out s) = sv_settings s" "sv_settings (upd_client i f s) = sv_settings s"
  "sv_settings (on_connection i g s) = sv_settings s"
  by (simp_all add: emit_def upd_client_def on_connection_def split_def Let_def)

lemma send_start_ok:
  assumes "start_ok x s"
  shows "\<exists>s'. send_start e i s = Inr s' \<and> start_ok x s'"
proof (cases "ClientConnected (client s i)")
  case False
  then show ?thesis using assms by (simp add: send_start_def)
next
  case True
  define s1 where "s1 = upd_client i (\<lambda>cl. cl\<lparr>cl_last_gamedata_time := e_now e\<rparr>) s"
  define s2 where "s2 = s1\<lparr>sv_settings := (sv_settings s1)\<lparr>gs_consoleplayer := cl_player_number (client s1 i)\<rparr>\<rparr>"
  have c2: "calm s s2"
    by (rule calm_trans [OF calm_gamedata_time [of s i "e_now e"]])
      (simp add: s2_def s1_def calm_def list.rel_refl)
  have st: "sint (gs_num_players (sv_settings s2)) \<le> int NET_MAXPLAYERS"
    "length (gs_player_classes (sv_settings s2)) = NET_MAXPLAYERS"
    using assms by (simp_all add: s2_def s1_def start_ok_def sv_ok_def)
  let ?c = "NET_Conn_NewReliable (cl_connection (client s2 i)) NET_PACKET_TYPE_GAMESTART"
  obtain q where q: "NET_WriteSettings (rp_packet (last (cn_reliable_packets ?c))) (sv_settings s2) = Inr q"
    using NET_WriteSettings_frame [OF st] by blast
  define s3 where "s3 = on_connection i (\<lambda>_. (on_new_reliable (\<lambda>_. q) ?c, [])) s2"
  have r: "send_start e i s = Inr s3"
    using True q by (simp add: send_start_def send_reliableR_def Let_def s3_def s2_def s1_def)
  have "calm s2 s3" unfolding s3_def by (rule calm_on_connection) simp
  then have c3: "calm s s3" using c2 calm_trans by blast
  have "sint (gs_num_players (sv_settings s3)) \<le> int NET_MAXPLAYERS" using st by (simp add: s3_def)
  moreover have "server_state s3 \<noteq> SERVER_IN_GAME" "gs_extratics (sv_settings s3) = x"
    using c3 assms unfolding calm_def start_ok_def by blast+
  moreover have "sv_ok s3" "all_numbered s3"
    using calm_ok [OF c3] calm_numbered [OF c3] assms by (simp_all add: start_ok_def ok_lengths)
  moreover have "no_drone_plays s3"
    using assms by (intro calm_no_drone [OF c3]) (simp_all add: start_ok_def sv_ok_def)
  ultimately show ?thesis using r by (simp add: start_ok_def)
qed

lemma sint_small: "n \<le> NET_MAXPLAYERS \<Longrightarrow> sint (of_nat n :: u32) = int n"
proof -
  assume "n \<le> NET_MAXPLAYERS"
  then have n: "n < 2 ^ 31" by (simp add: net_consts)
  then have "uint (of_nat n :: u32) = int n" by (simp add: unsigned_of_nat take_bit_nat_eq_self)
  then show ?thesis using sint_eq_uint_small [of "of_nat n"] n by simp
qed

lemma enter_game_ok:
  assumes "sv_ok s" "all_numbered s" "no_drone_plays s" "server_state s \<noteq> SERVER_IN_GAME"
  shows "sv_ok (s\<lparr>server_state := SERVER_IN_GAME,
            recvwindow := replicate (BACKUPTICS * NET_MAXPLAYERS) zero_recv, recvwindow_start := 0\<rparr>)"
    (is "sv_ok ?t")
proof -
  have "numbered ?t i = numbered s i" for i by (simp add: numbered_def)
  then have "\<forall>i < MAXNETNODES. playing (client ?t i) \<longrightarrow> numbered ?t i"
    using assms(2) by (simp add: all_numbered_def)
  moreover have "no_drone_plays ?t" using assms(3) by (simp add: no_drone_plays_def)
  moreover have "paced ?t" using assms(1,4) by (simp add: sv_ok_def paced_def in_step_def)
  moreover have "length (recvwindow ?t) = BACKUPTICS * NET_MAXPLAYERS" by (simp del: mult_eq_if)
  moreover have "clients ?t = clients s" "sv_players ?t = sv_players s" "sv_settings ?t = sv_settings s"
    by simp_all
  ultimately show ?thesis using assms(1) unfolding sv_ok_def by (metis (no_types))
qed

lemma StartGame_ok:
  assumes "sv_ok s" "server_state s \<noteq> SERVER_IN_GAME"
  shows "\<exists>s'. StartGame e s = Inr s' \<and> sv_ok s' \<and> server_state s' = SERVER_IN_GAME
    \<and> gs_extratics (sv_settings s') = gs_extratics (sv_settings s)"
proof -
  let ?a = "assigned s"
  let ?s1 = "?a\<lparr>sv_settings := game_settings ?a\<rparr>"
  have a: "sv_ok ?a" by (rule assigned_ok [OF assms(1)])
  have l: "length (clients s) = MAXNETNODES" "length (filter playing (clients s)) \<le> NET_MAXPLAYERS"
    using assms by (simp_all add: sv_ok_def)
  have "sv_ok ?s1" using a by (simp add: sv_ok_def game_settings_def numbered_def)
  moreover have "all_numbered ?s1"
    using assigned_numbered [OF l] l by (auto simp: all_numbered_def assigned_playing numbered_def)
  moreover have "sint (gs_num_players (sv_settings ?s1)) \<le> int NET_MAXPLAYERS"
    using ok_players [OF assms(1)] by (simp add: game_settings_def NumPlayers_assigned l sint_small)
  moreover have "gs_extratics (sv_settings ?s1) = gs_extratics (sv_settings s)"
    by (simp add: game_settings_def)
  moreover have "no_drone_plays ?s1" using assigned_no_drone [OF l(1)] by simp
  ultimately have "start_ok (gs_extratics (sv_settings s)) ?s1" using assms(2) by (simp add: start_ok_def)
  from foldR_safe [where P = "start_ok (gs_extratics (sv_settings s))" and f = "send_start e", OF _ this] obtain s2 where
    s2: "foldR (send_start e) [0..<MAXNETNODES] ?s1 = Inr s2" "start_ok (gs_extratics (sv_settings s)) s2"
    using send_start_ok by blast
  have "sv_ok (s2\<lparr>server_state := SERVER_IN_GAME,
            recvwindow := replicate (BACKUPTICS * NET_MAXPLAYERS) zero_recv, recvwindow_start := 0\<rparr>)"
    using s2(2) by (intro enter_game_ok) (simp_all add: start_ok_def)
  then show ?thesis using s2 AssignPlayers_ok [OF assms(1)] by (simp add: StartGame_def start_ok_def)
qed

lemma CheckStartGame_ok: "sv_ok s \<Longrightarrow> server_state s \<noteq> SERVER_IN_GAME \<Longrightarrow>
    \<exists>s'. CheckStartGame e s = Inr s' \<and> sv_ok s'
      \<and> gs_extratics (sv_settings s') = gs_extratics (sv_settings s)"
  using StartGame_ok by (auto simp: CheckStartGame_def)

lemma calm_ready: "calm s (upd_client i (\<lambda>cl. cl\<lparr>cl_ready := True\<rparr>) s)"
  by (rule calm_upd_client) (simp add: calm_client_def ClientConnected_def)

lemma game_start_ready_ok:
  assumes "sv_ok s" "server_state s \<noteq> SERVER_IN_GAME"
  shows "\<exists>s'. game_start_ready e i s = Inr s' \<and> sv_ok s'"
proof -
  obtain t where t: "CheckStartGame e (upd_client i (\<lambda>cl. cl\<lparr>cl_ready := True\<rparr>) s) = Inr t" "sv_ok t"
    using CheckStartGame_ok [OF calm_ok [OF calm_ready assms(1)]] assms(2) by (auto simp: upd_client_def)
  with SendAllWaitingData_ok [OF t(2)] show ?thesis by (simp add: game_start_ready_def)
qed


definition env_ok :: "env \<Rightarrow> bool" where
  "env_ok e \<longleftrightarrow> length (gs_player_classes (e_junk_settings e)) = NET_MAXPLAYERS
     \<and> full_cmd_ok (e_junk_cmd e)"

lemma ReadSettings_length:
  "NET_ReadSettings p s0 = Inr (Some (s, q)) \<Longrightarrow> length (gs_player_classes s) = length (gs_player_classes s0)"
  by (auto simp: NET_ReadSettings_def split: option.splits
      dest!: read_player_classes_length read_settings_header_players(2))

lemma ParseGameStart_cases:
  assumes "sv_ok s" "env_ok e"
  obtains (ok) s' where "NET_SV_ParseGameStart e p i s = Inr s'" "sv_ok s'"
    | (fault) f where "NET_SV_ParseGameStart e p i s = Inl f" "NET_SV_Controller s = Some i"
        "server_state s = SERVER_WAITING_START" "NET_ReadSettings p (e_junk_settings e) = Inl f"
proof (cases "server_state s = SERVER_WAITING_START \<and> NET_SV_Controller s = Some i")
  case False
  then have "NET_SV_ParseGameStart e p i s = Inr s \<or>
      NET_SV_ParseGameStart e p i s = game_start_ready e i s \<and> server_state s = SERVER_WAITING_START"
    by (auto simp: NET_SV_ParseGameStart_def)
  then show ?thesis using ok game_start_ready_ok [OF assms(1)] assms(1) by fastforce
next
  case True
  show ?thesis
  proof (cases "NET_ReadSettings p (e_junk_settings e)")
    case (Inl f)
    then show ?thesis using True by (intro fault) (auto simp: NET_SV_ParseGameStart_def)
  next
    case (Inr r)
    show ?thesis
    proof (cases r)
      case None
      then show ?thesis using True Inr assms by (intro ok) (auto simp: NET_SV_ParseGameStart_def)
    next
      case (Some x)
      obtain st q where x: "x = (st, q)" by fastforce
      let ?s = "s\<lparr>sv_settings := st\<rparr>"
      have "length (gs_player_classes st) = NET_MAXPLAYERS"
        using ReadSettings_length [of p "e_junk_settings e" st q] Inr Some x assms(2) by (simp add: env_ok_def)
      then have "sv_ok ?s" using assms(1) by (simp add: sv_ok_def numbered_def)
      then obtain s' where "game_start_ready e i ?s = Inr s'" "sv_ok s'"
        using game_start_ready_ok [of ?s] True by auto
      then show ?thesis using True Inr Some x assms ok
        by (cases "NET_ValidGameSettings (sv_gamemode s) (sv_gamemission s) st")
          (auto simp: NET_SV_ParseGameStart_def)
    qed
  qed
qed

lemma calm_start_state:
  "server_state s \<noteq> SERVER_IN_GAME \<Longrightarrow> calm s (s\<lparr>server_state := SERVER_WAITING_START\<rparr>)"
  by (simp add: calm_def list.rel_refl)

lemma send_launch_ok:
  assumes "sv_ok s" "server_state s \<noteq> SERVER_IN_GAME"
  shows "sv_ok ((fold (\<lambda>j s. if ClientConnected (client s j)
                       then send_reliable j NET_PACKET_TYPE_LAUNCH (\<lambda>p. NET_WriteInt8 p n) s
                       else s) xs s)\<lparr>server_state := SERVER_WAITING_START\<rparr>)" (is "sv_ok (?t\<lparr>server_state := _\<rparr>)")
proof -
  have c: "calm s ?t" by (rule calm_fold) (simp add: calm_send_reliable)
  then have "server_state ?t \<noteq> SERVER_IN_GAME" using assms(2) unfolding calm_def by blast
  from calm_ok [OF calm_trans [OF c calm_start_state [OF this]] assms(1)] show ?thesis .
qed

lemma ParseLaunch_ok:
  assumes "sv_ok s"
  shows "\<exists>s'. NET_SV_ParseLaunch i s = Inr s' \<and> sv_ok s'"
  using assms AssignPlayers_ok [OF assms] send_launch_ok [OF assigned_ok [OF assms]]
  by (auto simp: NET_SV_ParseLaunch_def Let_def)

subsection \<open>New clients\<close>

lemma client_ok_inactive: "client_ok c \<Longrightarrow> client_ok (c\<lparr>cl_active := False\<rparr>)"
  by (auto simp: client_ok_def ClientConnected_def holds_tics_def queue_slot_def)

lemma ff_cmd_ok: "full_cmd_ok ff_full_ticcmd"
  by (simp add: full_cmd_ok_def ff_full_ticcmd_def)

lemma find_connected:
  assumes "sv_ok s"
  shows "NET_SV_MaxPlayers s \<le>s of_nat NET_MAXPLAYERS"
proof (cases "List.find ClientConnected (clients s)")
  case None
  then show ?thesis by (simp add: NET_SV_MaxPlayers_def)
next
  case (Some c)
  then have "c \<in> set (clients s)" "ClientConnected c" by (auto simp: find_Some_iff)
  then have "client_ok c" using assms by (auto simp: sv_ok_def list_all_iff)
  then show ?thesis using Some \<open>ClientConnected c\<close> by (simp add: NET_SV_MaxPlayers_def client_ok_def)
qed

text \<open>A client put into a slot that was not connected.\<close>

lemma new_client_ok:
  assumes "sv_ok s" "i < MAXNETNODES" "\<not> ClientConnected (client s i)" "client_ok c"
    and "playing c \<longrightarrow> length (players s) < NET_MAXPLAYERS" "server_state s \<noteq> SERVER_IN_GAME"
    and "cl_sendseq c = 0"
  shows "sv_ok (upd_client i (\<lambda>_. c) s)"
proof -
  have l: "i < length (clients s)" using assms by (simp add: ok_lengths)
  have "length (filter playing ((clients s)[i := c])) + 0 = length (filter playing (clients s)) + (if playing c then 1 else 0)"
    using count_filter_update [OF l, of playing c] assms(3) by (simp add: playing_def)
  also have "\<dots> \<le> NET_MAXPLAYERS"
    using assms(1,5) count_players [of s] by (auto simp: sv_ok_def)
  finally have n: "length (filter playing ((clients s)[i := c])) \<le> NET_MAXPLAYERS" by simp
  have "paced (upd_client i (\<lambda>_. c) s)"
    using assms l by (auto simp: sv_ok_def paced_def in_step_def upd_client_def nth_list_update)
  then show ?thesis
    using n assms by (auto simp: sv_ok_def upd_client_def intro: list_all_update)
qed


lemma protocol_written:
  "protocol \<noteq> NET_PROTOCOL_UNKNOWN \<Longrightarrow> \<exists>q. NET_WriteProtocol p protocol = Inr q"
  by (cases protocol) (simp_all add: NET_WriteProtocol_known)

lemma syn_accept_ok:
  assumes "sv_ok s" "i < MAXNETNODES" "\<not> ClientConnected (client s i)"
    and "protocol \<noteq> NET_PROTOCOL_UNKNOWN" "cd_max_players data \<le>s of_nat NET_MAXPLAYERS"
    and "cd_drone data = 0 \<longrightarrow> length (players s) < NET_MAXPLAYERS" "server_state s \<noteq> SERVER_IN_GAME"
  shows "\<exists>s'. syn_accept e i addr protocol data name s = Inr s' \<and> sv_ok s'"
proof -
  let ?s0 = "NET_ReferenceAddress addr s"
  let ?c = "(client s i)
       \<lparr>cl_active := True, cl_connect_time := e_now e,
        cl_connection := NET_Conn_InitServer (e_now e) (cl_connection (client s i)) addr protocol,
        cl_addr := addr, cl_last_send_time := - 1, cl_sendseq := 0, cl_acknowledged := 0,
        cl_drone := False, cl_ready := False, cl_last_gamedata_time := 0,
        cl_sendqueue := replicate BACKUPTICS ff_full_ticcmd,
        cl_wad_sha1sum := cd_wad_sha1sum data, cl_deh_sha1sum := cd_deh_sha1sum data,
        cl_is_freedoom := cd_is_freedoom data, cl_max_players := cd_max_players data,
        cl_name := Some name, cl_recording_lowres := cd_lowres_turn data \<noteq> 0,
        cl_drone := cd_drone data \<noteq> 0, cl_player_class := cd_player_class data\<rparr>"
  define s1 where "s1 = upd_client i (\<lambda>_. ?c) ?s0"
  have s0: "sv_ok ?s0" by (rule calm_ok [OF calm_fields(1) assms(1)])
  have cl: "clients ?s0 = clients s" "server_state ?s0 = server_state s"
    by (simp_all add: NET_ReferenceAddress_def)
  then have pl: "players ?s0 = players s" by (simp add: players_def players_in_def)
  have "client_ok ?c"
    using assms(5) by (simp add: client_ok_def holds_tics_def ff_cmd_ok list_all_iff)
  then have ok1: "sv_ok s1"
    unfolding s1_def using assms s0 cl pl
    by (intro new_client_ok) (auto simp: playing_def)
  have i: "i < length (clients s)" using assms by (simp add: ok_lengths)
  then have e: "syn_accept e i addr protocol data name s =
      send_reliableR i NET_PACKET_TYPE_SYN (\<lambda>p. NET_WriteProtocol (NET_WriteString p PACKAGE_STRING) protocol) s1"
    by (simp add: syn_accept_def NET_SV_InitNewClient_def Let_def s1_def upd_client_def NET_ReferenceAddress_def)
  obtain s2 where s2: "send_reliableR i NET_PACKET_TYPE_SYN (\<lambda>p. NET_WriteProtocol (NET_WriteString p PACKAGE_STRING) protocol) s1 = Inr s2"
    unfolding send_reliableR_def Let_def using protocol_written [OF assms(4)] by (metis bindR_Inr)
  show ?thesis using e s2 calm_ok [OF calm_send_reliableR [OF s2] ok1] by simp
qed

lemma syn_slot_ok:
  assumes "syn_slot cl s = Some (i, s')" "sv_ok s" "\<forall>j. cl = Some j \<longrightarrow> j < MAXNETNODES"
  shows "i < MAXNETNODES" "sv_ok s'" "players s' = players s" "server_state s' = server_state s"
    "\<not> cl_active (client s' i) \<Longrightarrow> \<not> ClientConnected (client s' i)"
proof -
  let ?f = "\<lambda>cl. cl\<lparr>cl_active := False\<rparr>"
  have c: "calm s (upd_client i ?f s)"
    by (rule calm_upd_client) (simp add: calm_client_def ClientConnected_def)
  have pl: "players (upd_client j ?f s) = players s"
    if "cn_state (cl_connection (client s j)) = NET_CONN_STATE_DISCONNECTED" for j
  proof -
    have "playing (client (upd_client j ?f s) k) = playing (client s k)" if "k < MAXNETNODES" for k
      using \<open>cn_state _ = _\<close> that assms(2)
      by (cases "j = k") (auto simp: upd_client_def playing_def ClientConnected_def ok_lengths)
    then show ?thesis by (auto simp: players_def players_in_def intro!: filter_cong)
  qed
  show "i < MAXNETNODES" "sv_ok s'" "players s' = players s" "server_state s' = server_state s"
    using assms calm_ok [OF c] pl
    by (auto simp: syn_slot_def find_Some_iff upd_client_def split: option.splits if_splits)
qed (simp add: ClientConnected_def)

lemma signed_less_8: "\<not> a \<le>s of_nat n \<Longrightarrow> a \<le>s of_nat NET_MAXPLAYERS \<Longrightarrow> n \<le> NET_MAXPLAYERS \<Longrightarrow> n < NET_MAXPLAYERS"
  using sint_small [of n] sint_small [of NET_MAXPLAYERS] by (cases "n = NET_MAXPLAYERS") auto

lemma sv_ok_fields [simp]:
  "sv_ok (s\<lparr>sv_gamemode := a, sv_gamemission := b\<rparr>) = sv_ok s"
  "sv_ok (s\<lparr>master_server := c\<rparr>) = sv_ok s"
  "sv_ok (s\<lparr>master_refresh_time := d\<rparr>) = sv_ok s"
  "sv_ok (s\<lparr>master_resolve_time := d\<rparr>) = sv_ok s"
  "sv_ok (s\<lparr>registered_with_master := r\<rparr>) = sv_ok s"
  "sv_ok (s\<lparr>got_master_response := r\<rparr>) = sv_ok s"
  by (simp_all add: sv_ok_def numbered_def)

lemma syn_connect_ok:
  assumes "sv_ok s" "\<forall>j. cl = Some j \<longrightarrow> j < MAXNETNODES"
    and "protocol \<noteq> NET_PROTOCOL_UNKNOWN" "cd_max_players data \<le>s of_nat NET_MAXPLAYERS"
    and "server_state s \<noteq> SERVER_IN_GAME"
  shows "\<exists>s'. syn_connect e cl addr protocol data name s = Inr s' \<and> sv_ok s'"
proof -
  let ?a = "assigned s"
  have a: "sv_ok ?a" by (rule assigned_ok [OF assms(1)])
  have pl: "players ?a = players s" "NET_SV_NumPlayers ?a = length (players s)"
    using assms(1) by (simp_all add: assigned_count NumPlayers_assigned ok_lengths)
  define b where "b = (if length (players s) = 0 \<and> cd_drone data = 0
      then ?a\<lparr>sv_gamemode := cd_gamemode data, sv_gamemission := cd_gamemission data\<rparr> else ?a)"
  have b: "sv_ok b" "players b = players s" "server_state b = server_state s" "clients b = clients ?a"
    using a pl by (simp_all add: b_def players_def players_in_def)
  show ?thesis
  proof (cases "(cd_drone data = 0 \<and> NET_SV_MaxPlayers ?a \<le>s of_nat (length (players s))) \<or> NET_SV_NumClients ?a \<ge> MAXNETNODES")
    case True
    then show ?thesis using AssignPlayers_ok [OF assms(1)] pl calm_ok [OF calm_reject a]
      by (simp add: syn_connect_def)
  next
    case room: False
    have free: "cd_drone data = 0 \<longrightarrow> length (players s) < NET_MAXPLAYERS"
      using room signed_less_8 find_connected [OF a] ok_players [OF assms(1)] by blast
    have e: "syn_connect e cl addr protocol data name s =
      (if cd_gamemode data \<noteq> sv_gamemode b \<or> cd_gamemission data \<noteq> sv_gamemission b
       then Inr (NET_SV_SendReject addr (game_mismatch_text (sv_gamemission b) (sv_gamemode b)
                (cd_gamemission data) (cd_gamemode data)) b)
       else case syn_slot cl b of None \<Rightarrow> Inr b
            | Some (i, t) \<Rightarrow> if cl_active (client t i) then Inr t
                           else syn_accept e i addr protocol data name t)"
      using room unfolding syn_connect_def AssignPlayers_ok [OF assms(1)] bindR_Inr Let_def pl(2) b_def [symmetric]
      by (simp only: if_False)
    show ?thesis
    proof (cases "cd_gamemode data \<noteq> sv_gamemode b \<or> cd_gamemission data \<noteq> sv_gamemission b")
      case True
      then show ?thesis using e calm_ok [OF calm_reject b(1)] by simp
    next
      case False
      show ?thesis
      proof (cases "syn_slot cl b")
        case None
        then show ?thesis using e False b(1) by simp
      next
        case (Some x)
        obtain i t where x: "x = (i, t)" by fastforce
        note sl = syn_slot_ok [OF Some [unfolded x] b(1) assms(2)]
        show ?thesis
        proof (cases "cl_active (client t i)")
          case True
          then show ?thesis using e False Some x sl(2) by simp
        next
          case inactive: False
          have "\<exists>s'. syn_accept e i addr protocol data name t = Inr s' \<and> sv_ok s'"
            using sl inactive assms free b by (intro syn_accept_ok) auto
          then show ?thesis using e False Some x inactive by simp
        qed
      qed
    qed
  qed
qed

lemma not_signed_less: "\<not> (a <s (b :: u32)) \<Longrightarrow> b \<le>s a"
  by (simp add: word_sle_eq word_sless_alt)

lemma ParseSYN_ok:
  assumes "sv_ok s" "\<forall>j. cl = Some j \<longrightarrow> j < MAXNETNODES"
  shows "\<exists>s'. NET_SV_ParseSYN e p cl addr s = Inr s' \<and> sv_ok s'"
proof -
  have r: "\<exists>s'. Inr (NET_SV_SendReject addr t s) = Inr s' \<and> sv_ok s'" for t
    using calm_ok [OF calm_reject assms(1)] by blast
  have c: "\<exists>s'. syn_connect e cl addr protocol data name s = Inr s' \<and> sv_ok s'"
    if "protocol \<noteq> NET_PROTOCOL_UNKNOWN" "\<not> of_nat NET_MAXPLAYERS <s cd_max_players data"
      "\<not> server_state s \<noteq> SERVER_WAITING_LAUNCH" for protocol data name
    by (rule syn_connect_ok [OF assms that(1) not_signed_less [OF that(2)]]) (use that(3) in simp)
  show ?thesis
    unfolding NET_SV_ParseSYN_def
    using assms(1) r c by (auto split: option.split prod.split if_splits)
qed

end
