(* ===== verification/Net_Server_Safety.thy ===== *)
theory Net_Server_Safety
  imports Net_Server_Inv
begin

text \<open>
  The handlers of a running game never run into a fault: the accesses to the receive window stay
  inside it, and a tic taken from a send queue is the tic wanted. What this rests on is the
  invariant \<open>sv_ok\<close>, settings with fewer than 128 extra tics (\<open>settings_sane\<close>), and a game that
  has not run for two years (\<open>early\<close>: the tic counters are still positive C \<open>int\<close>s).
\<close>

subsection \<open>Access to the receive window\<close>

lemma rw_valid_nat:
  "a < BACKUPTICS \<Longrightarrow> b < NET_MAXPLAYERS \<Longrightarrow> rw_valid (of_nat a) (of_nat b)"
  by (auto simp: rw_valid_def rw_index_def sint_nat net_consts)

lemma rw_valid_swapped:
  "a < NET_MAXPLAYERS \<Longrightarrow> b < BACKUPTICS \<Longrightarrow> rw_valid (of_nat a) (of_nat b)"
  by (auto simp: rw_valid_def rw_index_def sint_nat net_consts)

lemma rw_valid_word:
  assumes "\<not> a <s 0" "\<not> of_nat BACKUPTICS \<le>s a" "b < NET_MAXPLAYERS"
  shows "rw_valid a (of_nat b)"
proof -
  have "unat a < BACKUPTICS"
    using assms(1,2) sle_nat_iff [of BACKUPTICS a] by (auto simp: sless_0_iff net_consts)
  from rw_valid_nat [OF this assms(3)] show ?thesis by simp
qed

lemma rw_get_valid: "rw_valid a b \<Longrightarrow> \<exists>r. rw_get s a b = Inr r"
  by (simp add: rw_get_def)

lemma rw_upd_valid: "rw_valid a b \<Longrightarrow> \<exists>s'. rw_upd a b f s = Inr s'"
  by (simp add: rw_upd_def Let_def)

lemma rw_upd_frame:
  "rw_upd a b f s = Inr s' \<Longrightarrow> clients s' = clients s \<and> recvwindow_start s' = recvwindow_start s
     \<and> sv_players s' = sv_players s \<and> server_state s' = server_state s \<and> sv_settings s' = sv_settings s
     \<and> sv_out s' = sv_out s"
  by (auto simp: rw_upd_def Let_def split: if_splits)

subsection \<open>Resend requests\<close>

lemma int_range_nat:
  assumes "x \<le> y" "y < 2147483648" "t \<in> set (int_range (rs + of_nat x) (rs + of_nat y))"
  obtains z where "x \<le> z" "z \<le> y" "t - rs = of_nat z"
proof -
  have "unat (of_nat y - of_nat x :: u32) = y - x"
    using assms(1,2) by (simp add: unat_minus_wrap unat_of_nat_small)
  then have "unat (rs + of_nat y - (rs + of_nat x)) = y - x" by simp
  then have "t \<in> (\<lambda>k. rs + of_nat x + of_nat k) ` {0..<Suc (y - x)}"
    using assms(3) unfolding int_range_def by (simp del: upt_Suc split: if_splits)
  then obtain k where "t = rs + of_nat x + of_nat k" "k \<in> {0..<Suc (y - x)}" by (rule imageE)
  then show ?thesis using assms(1) by (intro that [of "x + k"]) auto
qed

lemma client_upd:
  "client (upd_client i f s) j = (if i = j \<and> i < length (clients s) then f (client s j) else client s j)"
  by (cases "i = j") (auto simp: upd_client_def list_update_beyond)

lemma on_connection_client:
  "client (on_connection i f s) j = (if i = j \<and> i < length (clients s)
     then (client s j)\<lparr>cl_connection := fst (f (cl_connection (client s j)))\<rparr> else client s j)"
  by (simp add: on_connection_def client_upd split_def Let_def)

lemma on_connection_frame [simp]:
  "recvwindow_start (on_connection i f s) = recvwindow_start s"
  "recvwindow (on_connection i f s) = recvwindow s"
  "sv_players (on_connection i f s) = sv_players s"
  "server_state (on_connection i f s) = server_state s"
  "length (clients (on_connection i f s)) = length (clients s)"
  by (simp_all add: on_connection_def upd_client_def emit_def split_def Let_def)

definition same_player :: "nat \<Rightarrow> server \<Rightarrow> server \<Rightarrow> bool" where
  "same_player i s s' \<longleftrightarrow> cl_player_number (client s' i) = cl_player_number (client s i)
     \<and> recvwindow_start s' = recvwindow_start s"

lemma SendResendRequest_safe:
  assumes "cl_player_number (client s i) = of_nat pl" "pl < NET_MAXPLAYERS" "x \<le> y" "y < 2147483648"
    and "a = recvwindow_start s + of_nat x" "b = recvwindow_start s + of_nat y"
  shows "\<exists>s'. NET_SV_SendResendRequest e i a b s = Inr s' \<and> same_player i s s'"
proof -
  let ?packet = "NET_WriteInt8 (NET_WriteInt32 (NET_WriteInt16 (NET_NewPacket 20) NET_PACKET_TYPE_GAMEDATA_RESEND) a)
      (b - a + 1)"
  let ?s = "on_connection i (\<lambda>c. NET_Conn_SendPacket (e_now e) c ?packet) s"
  have "same_player i s ?s" by (simp add: same_player_def on_connection_client)
  moreover have "\<exists>t'. (let index = t - recvwindow_start s1
           in if of_nat BACKUPTICS \<le>s index then Inr s1
              else rw_upd index (cl_player_number (client s1 i)) (\<lambda>r. r\<lparr>rc_resend_time := e_now e\<rparr>) s1) = Inr t'
        \<and> same_player i s t'"
    if t: "t \<in> set (int_range a b)" and s1: "same_player i s s1" for t s1
  proof -
    obtain z where z: "x \<le> z" "z \<le> y" "t - recvwindow_start s = of_nat z"
      using int_range_nat [OF assms(3,4), of t "recvwindow_start s"] t assms(5,6) by metis
    have idx: "t - recvwindow_start s1 = of_nat z" "cl_player_number (client s1 i) = of_nat pl"
      using s1 z assms(1) by (simp_all add: same_player_def)
    show ?thesis
    proof (cases "of_nat BACKUPTICS \<le>s (of_nat z :: u32)")
      case True
      then show ?thesis using s1 idx by simp
    next
      case False
      have "\<not> (of_nat z :: u32) <s 0" using z assms(4) by (simp add: sless_0_iff unat_of_nat_small)
      from rw_valid_word [OF this False assms(2)] have v: "rw_valid (of_nat z) (of_nat pl)" .
      obtain t' where t': "rw_upd (of_nat z) (of_nat pl) (\<lambda>r. r\<lparr>rc_resend_time := e_now e\<rparr>) s1 = Inr t'"
        using rw_upd_valid [OF v] by blast
      then show ?thesis using False s1 idx rw_upd_frame [OF t'] by (simp add: same_player_def Let_def)
    qed
  qed
  ultimately show ?thesis
    unfolding NET_SV_SendResendRequest_def Let_def by (intro foldR_safe) (auto simp: Let_def)
qed

lemma request_run_safe:
  assumes "cl_player_number (client s i) = of_nat pl" "pl < NET_MAXPLAYERS"
    "\<forall>a b. run = Some (a, b) \<longrightarrow> a \<le> b \<and> b < BACKUPTICS"
  shows "\<exists>s'. request_run e i run s = Inr s' \<and> same_player i s s'"
proof (cases run)
  case None
  then show ?thesis by (simp add: request_run_def same_player_def)
next
  case (Some ab)
  obtain a b where ab: "run = Some (a, b)" "a \<le> b" "b < BACKUPTICS" using assms(3) Some by (cases ab) auto
  then have "\<exists>s'. NET_SV_SendResendRequest e i (recvwindow_start s + of_nat a) (recvwindow_start s + of_nat b) s
      = Inr s' \<and> same_player i s s'"
    using assms by (intro SendResendRequest_safe) (auto simp: net_consts)
  then show ?thesis using ab by (simp add: request_run_def)
qed

lemma check_resends_safe:
  assumes "cl_player_number (client s i) = of_nat pl" "pl < NET_MAXPLAYERS"
    "\<forall>k \<in> set ks. k < BACKUPTICS" "sorted ks" "\<forall>a b. run = Some (a, b) \<longrightarrow> a \<le> b \<and> b < BACKUPTICS \<and> (\<forall>k \<in> set ks. b \<le> k)"
  shows "\<exists>s'. check_resends e i (of_nat pl) ks run s = Inr s'"
  using assms
proof (induction ks arbitrary: run s)
  case Nil
  then have "\<forall>a b. run = Some (a, b) \<longrightarrow> a \<le> b \<and> b < BACKUPTICS" by blast
  from request_run_safe [OF Nil.prems(1,2) this] show ?case by auto
next
  case (Cons k ks)
  have "rw_valid (of_nat k) (of_nat pl)" using Cons.prems by (simp add: rw_valid_nat)
  then obtain r where r: "rw_get s (of_nat k) (of_nat pl) = Inr r" using rw_get_valid by blast
  show ?case
  proof (cases "need_resend (e_now e) r")
    case True
    have "\<exists>s'. check_resends e i (of_nat pl) ks (Some (case run of None \<Rightarrow> k | Some (a, _) \<Rightarrow> a, k)) s = Inr s'"
      by (rule Cons.IH) (use Cons.prems in \<open>auto split: option.splits\<close>)
    then show ?thesis using r True by simp
  next
    case False
    have "\<forall>a b. run = Some (a, b) \<longrightarrow> a \<le> b \<and> b < BACKUPTICS" using Cons.prems(5) by blast
    then obtain s1 where s1: "request_run e i run s = Inr s1" "same_player i s s1"
      using request_run_safe Cons.prems(1,2) by blast
    have "\<exists>s'. check_resends e i (of_nat pl) ks None s1 = Inr s'"
      using Cons.prems s1(2) by (intro Cons.IH) (auto simp: same_player_def)
    then show ?thesis using r False s1 by simp
  qed
qed

lemma CheckResends_safe:
  assumes "numbered s i"
  shows "\<exists>s'. NET_SV_CheckResends e i s = Inr s'"
proof -
  obtain pl where pl: "cl_player_number (client s i) = of_nat pl" "pl < NET_MAXPLAYERS"
    using assms by (auto simp: numbered_def)
  show ?thesis unfolding NET_SV_CheckResends_def pl(1)
    by (rule check_resends_safe [OF pl]) auto
qed

subsection \<open>Sending tics\<close>

lemma unat_max [simp]: "unat (- 1 :: u32) = 4294967295"
  by (simp add: unsigned_minus_1_eq_mask mask_eq_exp_minus_1)

lemma not_max: "b \<noteq> - 1 \<Longrightarrow> unat (b :: u32) < 4294967295"
proof -
  assume "b \<noteq> - 1"
  then have "b < - 1" by (simp add: word_order.not_eq_extremum)
  then have "unat b < unat (- 1 :: u32)" by (simp only: word_less_nat_alt)
  then show ?thesis by simp
qed

lemma queue_write_tics:
  "(\<forall>x. unat t \<le> unat x \<longrightarrow> unat x \<le> unat b \<longrightarrow> fc_seq (queue_slot cl x) = x) \<Longrightarrow> b \<noteq> - 1 \<Longrightarrow>
   \<exists>q. write_tics cl low t b p = Inr q"
proof (induction cl low t b p rule: write_tics.induct)
  case (1 cl low t b p)
  show ?case
  proof (cases "t \<le> b")
    case True
    then have tb: "unat t \<le> unat b" by (simp add: word_le_nat_alt)
    then have held: "fc_seq (queue_slot cl t) = t" using "1.prems"(1) by blast
    have "unat b < 4294967295" using "1.prems"(2) by (rule not_max)
    then have "unat (t + 1) = Suc (unat t)" using tb by (intro unat_plus_1) simp
    then have "\<exists>q. write_tics cl low (t + 1) b (NET_WriteFullTiccmd p (queue_slot cl t) low) = Inr q"
      using True held "1.prems" by (intro "1.IH") auto
    then show ?thesis using True held by (simp add: write_tics.simps [of cl low t])
  next
    case False
    then show ?thesis by (simp add: write_tics.simps [of cl low t])
  qed
qed

lemma SendTics_safe:
  assumes "\<forall>x. unat a \<le> unat x \<longrightarrow> unat x \<le> unat b \<longrightarrow> fc_seq (queue_slot (client s i) x) = x" "b \<noteq> - 1"
  shows "\<exists>s'. NET_SV_SendTics e i a b s = Inr s'"
proof -
  obtain q where "write_tics (client s i) (gs_lowres_turn (sv_settings s) \<noteq> 0) a b
     (NET_WriteInt8 (NET_WriteInt8 (NET_WriteInt16 (NET_NewPacket 500) NET_PACKET_TYPE_GAMEDATA) (a AND 0xff)) (b - a + 1)) = Inr q"
    using queue_write_tics [OF assms] by blast
  then show ?thesis by (simp add: NET_SV_SendTics_def)
qed

text \<open>A scan that found every tic makes the write loop succeed: both follow the same slots.\<close>

lemma have_tics_write:
  "have_tics cl t b \<Longrightarrow> \<exists>q. write_tics cl low t b p = Inr q"
proof (induction cl low t b p rule: write_tics.induct)
  case (1 cl low t b p)
  from "1.prems" "1.IH" show ?case
    by (subst write_tics.simps) (subst (asm) have_tics.simps, auto split: if_splits)
qed

lemma ParseResendRequest_safe: "\<exists>s'. NET_SV_ParseResendRequest e p i s = Inr s'"
proof (cases "NET_SV_ParseResendRequest e p i s = Inr s")
  case False
  then obtain a b where h: "have_tics (client s i) a b"
    and r: "NET_SV_ParseResendRequest e p i s = NET_SV_SendTics e i a b s"
    by (auto simp: NET_SV_ParseResendRequest_def Let_def split: option.splits if_splits)
  show ?thesis unfolding r NET_SV_SendTics_def Let_def
    using have_tics_write [OF h] by (metis bindR_Inr)
qed blast

text \<open>What the scan decides.\<close>

lemma have_tics_iff:
  assumes "b \<noteq> - 1"
  shows "have_tics cl t b \<longleftrightarrow> (\<forall>x. t \<le> x \<longrightarrow> x \<le> b \<longrightarrow> fc_seq (queue_slot cl x) = x)"
  using assms
proof (induction cl t b rule: have_tics.induct)
  case (1 cl t b)
  show ?case
  proof (cases "t \<le> b \<and> fc_seq (queue_slot cl t) = t")
    case True
    have "unat b < 4294967295" using "1.prems" by (rule not_max)
    with True have "unat (t + 1) = Suc (unat t)"
      by (intro unat_plus_1) (simp add: word_le_nat_alt)
    then have "t \<le> x \<longleftrightarrow> x = t \<or> t + 1 \<le> x" for x
      by (auto simp: word_le_nat_alt Suc_le_eq le_less word_unat_eq_iff)
    then show ?thesis using True 1 by (subst have_tics.simps) auto
  next
    case False
    then show ?thesis by (subst have_tics.simps) (auto intro: order.trans)
  qed
qed


lemma have_tics_max: "b = - 1 \<Longrightarrow> \<not> have_tics cl t b"
proof (induction cl t b rule: have_tics.induct)
  case (1 cl t b)
  then show ?case by (subst have_tics.simps) auto
qed

subsection \<open>Generating a tic\<close>

lemma pump_players_total:
  "unat recv_index < BACKUPTICS \<Longrightarrow> \<forall>k \<in> set ks. k < NET_MAXPLAYERS \<Longrightarrow>
   \<exists>r. pump_players s i recv_index ks n = Inr r"
proof (induction ks arbitrary: n)
  case Nil
  then show ?case by simp
next
  case (Cons k ks)
  have "rw_valid recv_index (of_nat k)"
    using rw_valid_nat [OF Cons.prems(1), of k] Cons.prems(2) by simp
  then obtain r where "rw_get s recv_index (of_nat k) = Inr r" using rw_get_valid by blast
  then show ?case using Cons by simp
qed

lemma pump_cmd_total:
  "unat recv_index < BACKUPTICS \<Longrightarrow> \<forall>k \<in> set ks. k < NET_MAXPLAYERS \<Longrightarrow> full_cmd_ok cmd \<Longrightarrow>
   \<exists>c. pump_cmd s i recv_index ks cmd = Inr c \<and> full_cmd_ok c \<and> fc_seq c = fc_seq cmd"
proof (induction ks arbitrary: cmd)
  case Nil
  then show ?case by simp
next
  case (Cons k ks)
  have "rw_valid recv_index (of_nat k)"
    using rw_valid_nat [OF Cons.prems(1), of k] Cons.prems(2) by simp
  then obtain r where r: "rw_get s recv_index (of_nat k) = Inr r" using rw_get_valid by blast
  let ?c1 = "cmd\<lparr>fc_playeringame := (fc_playeringame cmd)[k := False]\<rparr>"
  let ?c2 = "cmd\<lparr>fc_playeringame := (fc_playeringame cmd)[k := True], fc_cmds := (fc_cmds cmd)[k := rc_diff r],
               fc_latency := (if fc_latency cmd <s rc_latency r then rc_latency r else fc_latency cmd)\<rparr>"
  have "full_cmd_ok ?c1" "full_cmd_ok ?c2" using Cons.prems(3) by (simp_all add: full_cmd_ok_def)
  then have "\<exists>c. pump_cmd s i recv_index ks ?c1 = Inr c \<and> full_cmd_ok c \<and> fc_seq c = fc_seq cmd"
    "\<exists>c. pump_cmd s i recv_index ks ?c2 = Inr c \<and> full_cmd_ok c \<and> fc_seq c = fc_seq cmd"
    using Cons.IH [of ?c1] Cons.IH [of ?c2] Cons.prems by auto
  then show ?case using r by simp
qed

lemma LatestAcknowledged_le:
  assumes "c \<in> set (clients s)" "ClientConnected c"
  shows "NET_SV_LatestAcknowledged s \<le> cl_acknowledged c"
proof -
  let ?f = "\<lambda>lowtic cl. if ClientConnected cl \<and> cl_acknowledged cl < lowtic then cl_acknowledged cl else lowtic"
  have mono: "foldl ?f a cs \<le> a" for a :: u32 and cs
    by (induction cs arbitrary: a) (auto intro: order.trans less_imp_le)
  have "c \<in> set cs \<Longrightarrow> foldl ?f a cs \<le> cl_acknowledged c" for a :: u32 and cs
  proof (induction cs arbitrary: a)
    case (Cons d cs)
    show ?case
    proof (cases "c = d")
      case True
      have "foldl ?f (?f a c) cs \<le> ?f a c" by (rule mono)
      also have "?f a c \<le> cl_acknowledged c" using assms(2) by auto
      finally show ?thesis using True by (simp only: foldl_Cons)
    next
      case False
      then show ?thesis using Cons by simp
    qed
  qed simp
  then show ?thesis using assms(1) by (simp add: NET_SV_LatestAcknowledged_def)
qed

lemma pump_distance:
  assumes "\<not> 40 < sendseq - low" "low \<le> ack"
  shows "unat sendseq \<le> unat (ack :: u32) + 40"
proof -
  have "unat (sendseq - low) \<le> 40" using assms(1) by (simp add: word_less_nat_alt)
  then show ?thesis using assms(2) unat_bound [of low]
    by (auto simp: unat_minus_wrap word_le_nat_alt split: if_splits)
qed

subsection \<open>A new tic for a client\<close>

definition settings_sane :: "server \<Rightarrow> bool" where
  "settings_sane s \<longleftrightarrow> unat (gs_extratics (sv_settings s)) < BACKUPTICS"

lemma start_tic:
  fixes n x :: u32
  assumes "unat n < 2147483648" "unat x < BACKUPTICS"
  shows "unat n \<le> unat (if n - x <s 0 then 0 else n - x) + unat x"
  using assms by (auto simp: sless_0_iff unat_minus_wrap net_consts split: if_splits)

lemma holds_next:
  assumes "holds_tics cl" "length (cl_sendqueue cl) = BACKUPTICS" "fc_seq cmd = cl_sendseq cl"
    and "unat (cl_sendseq cl) < 2147483648"
    and "unat x \<le> unat (cl_sendseq cl)" "unat (cl_sendseq cl) < unat x + BACKUPTICS"
  shows "fc_seq (queue_slot (cl\<lparr>cl_sendqueue := (cl_sendqueue cl)[unat (cl_sendseq cl) mod BACKUPTICS := cmd]\<rparr>) x) = x"
proof (cases "x = cl_sendseq cl")
  case True
  then show ?thesis using assms(2,3) by (simp add: queue_slot_def net_consts)
next
  case False
  then have lt: "unat x < unat (cl_sendseq cl)" using assms(5) by (auto simp: word_unat_eq_iff le_less)
  have "unat x mod BACKUPTICS \<noteq> unat (cl_sendseq cl) mod BACKUPTICS"
  proof
    assume "unat x mod BACKUPTICS = unat (cl_sendseq cl) mod BACKUPTICS"
    then have "BACKUPTICS dvd unat (cl_sendseq cl) - unat x"
      using lt by (metis mod_eq_dvd_iff_nat less_imp_le_nat)
    then show False using lt assms(6) by (auto dest: dvd_imp_le)
  qed
  moreover have "fc_seq (queue_slot cl x) = x" using assms(1,6) lt by (simp add: holds_tics_def)
  ultimately show ?thesis by (simp add: queue_slot_def)
qed

lemma client_ok_pushed:
  assumes "client_ok cl" "full_cmd_ok cmd" "fc_seq cmd = cl_sendseq cl"
    and "unat (cl_sendseq cl) < 2147483648" "unat (cl_sendseq cl) \<le> unat (cl_acknowledged cl) + 40"
  shows "client_ok (cl\<lparr>cl_sendqueue := (cl_sendqueue cl)[unat (cl_sendseq cl) mod BACKUPTICS := cmd],
     cl_sendseq := cl_sendseq cl + 1\<rparr>)"
proof -
  let ?q = "(cl_sendqueue cl)[unat (cl_sendseq cl) mod BACKUPTICS := cmd]"
  have n: "unat (cl_sendseq cl + 1) = Suc (unat (cl_sendseq cl))" using assms(4) by (intro unat_plus_1) simp
  have l: "length (cl_sendqueue cl) = BACKUPTICS" "holds_tics cl" using assms(1) by (simp_all add: client_ok_def)
  have "fc_seq (queue_slot (cl\<lparr>cl_sendqueue := ?q\<rparr>) t) = t"
    if "unat t < Suc (unat (cl_sendseq cl))" "Suc (unat (cl_sendseq cl)) \<le> unat t + BACKUPTICS" for t
    using that by (intro holds_next [OF l(2,1) assms(3,4)]) auto
  then have "holds_tics (cl\<lparr>cl_sendqueue := ?q, cl_sendseq := cl_sendseq cl + 1\<rparr>)"
    by (simp add: holds_tics_def n queue_slot_def)
  moreover have "list_all full_cmd_ok ?q" using assms(1,2) by (simp add: client_ok_def list_all_update)
  ultimately show ?thesis using assms n by (simp add: client_ok_def ClientConnected_def)
qed

text \<open>Changing a client without connecting it or changing its number.\<close>

lemma sv_ok_upd:
  assumes "sv_ok s" "i < MAXNETNODES" "client_ok (f (client s i))"
    "playing (f (client s i)) \<longrightarrow> playing (client s i)"
    "cl_player_number (f (client s i)) = cl_player_number (client s i)"
    "ClientConnected (f (client s i)) \<longrightarrow> in_step s (f (client s i))"
    "cl_drone (f (client s i)) = cl_drone (client s i)"
  shows "sv_ok (upd_client i f s)"
proof -
  have l: "i < length (clients s)" using assms by (simp add: ok_lengths)
  have "length (filter playing ((clients s)[i := f (client s i)])) \<le> length (filter playing (clients s))"
    using count_filter_update [OF l, of playing "f (client s i)"] assms(4) by (auto split: if_splits)
  moreover have "numbered (upd_client i f s) j = numbered s j" for j
  proof -
    have "cl_player_number (client (upd_client i f s) j) = cl_player_number (client s j)"
      using assms(5) by (auto simp: client_upd)
    moreover have "sv_players (upd_client i f s) = sv_players s" by (simp add: upd_client_def)
    ultimately show ?thesis by (simp add: numbered_def)
  qed
  moreover have "playing (client (upd_client i f s) j) \<longrightarrow> playing (client s j)" for j
    using assms(4) by (auto simp: client_upd)
  moreover have "server_state s = SERVER_IN_GAME \<longrightarrow> no_drone_plays (upd_client i f s)"
    using assms(1,7) by (auto simp: sv_ok_def no_drone_plays_def client_upd) (simp_all add: upd_client_def)
  moreover have "paced (upd_client i f s)"
    using assms(1,6) by (auto simp: sv_ok_def paced_def client_upd)
      (simp_all add: in_step_def upd_client_def)
  ultimately show ?thesis
    using assms(1,3) by (auto simp: sv_ok_def list_all_update upd_client_def)
qed

text \<open>What a handler of a running game leaves alone.\<close>

definition steady :: "server \<Rightarrow> server \<Rightarrow> bool" where
  "steady s s' \<longleftrightarrow> length (clients s') = length (clients s)
     \<and> gs_extratics (sv_settings s') = gs_extratics (sv_settings s)
     \<and> recvwindow_start s' = recvwindow_start s
     \<and> (server_state s' = SERVER_IN_GAME \<longrightarrow> server_state s = SERVER_IN_GAME)
     \<and> (\<forall>j < length (clients s). ClientConnected (client s' j) \<longrightarrow> ClientConnected (client s j))"

lemma calm_steady: "calm s s' \<Longrightarrow> steady s s'"
  using calm_length [of s s'] calm_clientD [of s s'] by (auto simp: steady_def calm_def calm_client_def)

lemma steady_trans: "steady a b \<Longrightarrow> steady b c \<Longrightarrow> steady a c"
  by (auto simp: steady_def)

lemma steady_calm: "steady s t \<Longrightarrow> calm t s' \<Longrightarrow> steady s s'"
  using steady_trans calm_steady by blast

lemma pump_tic_ok:
  assumes ok: "sv_ok s" "i < MAXNETNODES" "env_ok e" "settings_sane s"
    and idx: "unat recv_index < BACKUPTICS"
    and n: "unat (cl_sendseq (client s i)) < 2147483648"
    and ack: "unat (cl_sendseq (client s i)) \<le> unat (cl_acknowledged (client s i)) + 40"
    and game: "server_state s = SERVER_IN_GAME"
      "unat (cl_sendseq (client s i)) < unat (recvwindow_start s) + BACKUPTICS"
  shows "\<exists>s'. pump_tic e i recv_index s = Inr s' \<and> sv_ok s' \<and> steady s s'"
proof -
  let ?cl = "client s i"
  let ?seq = "cl_sendseq ?cl"
  have i: "i < length (clients s)" using ok by (simp add: ok_lengths)
  have c: "client_ok ?cl" using ok_client [OF ok(1,2)] .
  obtain cmd where cmd: "pump_cmd s i recv_index [0..<NET_MAXPLAYERS] ((e_junk_cmd e)\<lparr>fc_seq := ?seq, fc_latency := 0\<rparr>) = Inr cmd"
    "full_cmd_ok cmd" "fc_seq cmd = ?seq"
    using pump_cmd_total [OF idx, of "[0..<NET_MAXPLAYERS]" "(e_junk_cmd e)\<lparr>fc_seq := ?seq, fc_latency := 0\<rparr>" s i] ok(3)
    by (auto simp: env_ok_def full_cmd_ok_def)
  have slot: "sendqueue_index ?seq = Inr (unat ?seq mod BACKUPTICS)"
    using n by (simp add: sendqueue_index_def sless_0_iff)
  let ?f = "\<lambda>cl. cl\<lparr>cl_sendqueue := (cl_sendqueue cl)[unat ?seq mod BACKUPTICS := cmd]\<rparr>"
  define s1 where "s1 = upd_client i ?f s"
  let ?start = "if ?seq - gs_extratics (sv_settings s1) <s 0 then 0 else ?seq - gs_extratics (sv_settings s1)"
  have st: "gs_extratics (sv_settings s1) = gs_extratics (sv_settings s)" by (simp add: s1_def)
  have c1: "client s1 i = ?f ?cl" using i by (simp add: s1_def client_upd)
  have held: "fc_seq (queue_slot (client s1 i) x) = x" if "unat ?start \<le> unat x" "unat x \<le> unat ?seq" for x
  proof -
    have "unat ?seq < unat x + BACKUPTICS"
      using start_tic [OF n, of "gs_extratics (sv_settings s1)"] ok(4) that(1) st
      by (simp add: settings_sane_def)
    then show ?thesis unfolding c1
      using c cmd(3) n that(2) by (intro holds_next) (auto simp: client_ok_def)
  qed
  have "?seq \<noteq> - 1" using n by auto
  then obtain s2 where s2: "NET_SV_SendTics e i ?start ?seq s1 = Inr s2"
    using SendTics_safe [of ?start ?seq s1 i] held by blast
  define s3 where "s3 = upd_client i (\<lambda>cl. cl\<lparr>cl_sendseq := ?seq + 1\<rparr>) s2"
  have r: "pump_tic e i recv_index s = Inr s3"
    unfolding pump_tic_def Let_def cmd(1) bindR_Inr slot s1_def [symmetric] s2 s3_def ..
  obtain q where q: "s2 = on_connection i (\<lambda>c. NET_Conn_SendPacket (e_now e) c q) s1"
    using s2 by (auto simp: NET_SV_SendTics_def Let_def bindR_eq_Inr)
  let ?g = "\<lambda>cl. (?f cl)\<lparr>cl_sendseq := cl_sendseq cl + 1\<rparr>"
  define t where "t = upd_client i ?g s"
  have n1: "unat (?seq + 1) = Suc (unat ?seq)" using n by (intro unat_plus_1) simp
  have "sv_ok t" unfolding t_def
    using ok c cmd n ack game n1
    by (intro sv_ok_upd client_ok_pushed) (auto simp: playing_def ClientConnected_def in_step_def)
  moreover have "calm t s3"
  proof -
    obtain c' out where f: "NET_Conn_SendPacket (e_now e) (cl_connection ?cl) q = (c', out)" by fastforce
    have k: "keeps_off (cl_connection ?cl) c'" using keeps_off_ops(1) [of "cl_connection ?cl" "e_now e" q] by (simp add: f)
    have s1f: "clients s1 = (clients s)[i := ?f ?cl]" by (simp add: s1_def upd_client_def)
    have "clients s2 = (clients s)[i := (?f ?cl)\<lparr>cl_connection := c'\<rparr>]"
      using i f by (simp add: q on_connection_def upd_client_def emit_def s1f)
    then have "clients s3 = (clients s)[i := (?f ?cl)\<lparr>cl_connection := c', cl_sendseq := ?seq + 1\<rparr>]"
      using i by (simp add: s3_def upd_client_def)
    moreover have "clients t = (clients s)[i := ?g ?cl]" by (simp add: t_def upd_client_def)
    moreover have "calm_client (?g ?cl) ((?f ?cl)\<lparr>cl_connection := c', cl_sendseq := ?seq + 1\<rparr>)"
      using k by (auto simp: calm_client_def ClientConnected_def keeps_off_def)
    ultimately have "list_all2 calm_client (clients t) (clients s3)"
      by (simp add: list_all2_update_cong list.rel_refl)
    moreover have "sv_players s3 = sv_players t" "recvwindow s3 = recvwindow t" "sv_settings s3 = sv_settings t"
      "server_state s3 = server_state t" "recvwindow_start s3 = recvwindow_start t"
      by (simp_all add: s3_def t_def q s1_def on_connection_def upd_client_def emit_def split_def Let_def)
    ultimately show ?thesis by (simp add: calm_def)
  qed
  moreover have "steady s t"
    using i by (auto simp: steady_def t_def client_upd ClientConnected_def) (simp_all add: upd_client_def)
  ultimately show ?thesis using r calm_ok steady_calm by blast
qed

definition early :: "server \<Rightarrow> bool" where
  "early s \<longleftrightarrow> unat (recvwindow_start s) + BACKUPTICS < 2147483648"

lemma pump_index:
  assumes "\<not> seq - rs <s 0" "\<not> of_nat BACKUPTICS \<le>s seq - rs" "unat rs + BACKUPTICS < 2147483648"
  shows "unat (seq - rs :: u32) < BACKUPTICS" "unat seq < 2147483648"
    "unat seq < unat rs + BACKUPTICS"
proof -
  show b: "unat (seq - rs) < BACKUPTICS"
    using assms(1,2) sle_nat_iff [of BACKUPTICS "seq - rs"] by (auto simp: sless_0_iff net_consts)
  show "unat seq < 2147483648" "unat seq < unat rs + BACKUPTICS"
    using b assms(3) unat_bound [of seq] unat_bound [of rs] by (auto simp: unat_minus_wrap net_consts split: if_splits)
qed

lemma PumpSendQueue_ok:
  assumes ok: "sv_ok s" "i < MAXNETNODES" "env_ok e" "settings_sane s" "early s"
    and conn: "ClientConnected (client s i)" and game: "server_state s = SERVER_IN_GAME"
  shows "\<exists>s'. NET_SV_PumpSendQueue e i s = Inr s' \<and> sv_ok s' \<and> steady s s'"
proof -
  let ?seq = "cl_sendseq (client s i)" and ?rs = "recvwindow_start s"
  show ?thesis
  proof (cases "40 < ?seq - NET_SV_LatestAcknowledged s \<or> ?seq - ?rs <s 0 \<or> of_nat BACKUPTICS \<le>s ?seq - ?rs")
    case True
    then show ?thesis using ok calm_steady by (auto simp: NET_SV_PumpSendQueue_def Let_def)
  next
    case False
    note idx = pump_index [of ?seq ?rs]
    have b: "unat (?seq - ?rs) < BACKUPTICS" "unat ?seq < 2147483648"
        "unat ?seq < unat ?rs + BACKUPTICS"
      using idx False ok(5) by (auto simp: early_def)
    obtain r where r: "pump_players s i (?seq - ?rs) [0..<NET_MAXPLAYERS] 0 = Inr r"
      using pump_players_total [OF b(1), of "[0..<NET_MAXPLAYERS]" s i 0] by auto
    have "client s i \<in> set (clients s)" using ok by (simp add: ok_lengths)
    from LatestAcknowledged_le [OF this conn] have ack: "unat ?seq \<le> unat (cl_acknowledged (client s i)) + 40"
      using False by (intro pump_distance) auto
    have "\<exists>s'. pump_tic e i (?seq - ?rs) s = Inr s' \<and> sv_ok s' \<and> steady s s'"
      by (rule pump_tic_ok [OF ok(1-4) b(1,2) ack game b(3)])
    then show ?thesis using False r ok(1) calm_steady [OF calm_refl [of s]]
      by (cases r) (auto simp: NET_SV_PumpSendQueue_def Let_def)
  qed
qed

subsection \<open>Deadlocks\<close>

lemma calm_CheckDeadlock:
  assumes "NET_SV_CheckDeadlock e i s = Inr s'"
  shows "calm s s'"
proof (cases "s' = s")
  case False
  with assms obtain a b s1 where r: "NET_SV_SendResendRequest e i a b s = Inr s1"
    and rest: "s' = upd_client i (\<lambda>cl. cl\<lparr>cl_last_gamedata_time := e_now e\<rparr>) s1 \<or>
      (\<exists>c d. NET_SV_SendTics e i c d (upd_client i (\<lambda>cl. cl\<lparr>cl_last_gamedata_time := e_now e\<rparr>) s1) = Inr s')"
    unfolding NET_SV_CheckDeadlock_def Let_def
    by (auto simp: bindR_eq_Inr split: if_splits option.splits; blast)
  from rest have "calm s1 s'"
    using calm_gamedata_time calm_SendTics calm_trans by blast
  then show ?thesis using calm_SendResendRequest [OF r] by (rule calm_trans [rotated])
qed simp

lemma first_missing_total:
  "pl < NET_MAXPLAYERS \<Longrightarrow> \<forall>k \<in> set ks. k < BACKUPTICS \<Longrightarrow>
   \<exists>r. first_missing s (of_nat pl) ks = Inr r \<and> (\<forall>k. r = Some k \<longrightarrow> k \<in> set ks)"
proof (induction ks)
  case Nil
  then show ?case by simp
next
  case (Cons k ks)
  have "rw_valid (of_nat pl) (of_nat k)" using Cons.prems by (simp add: rw_valid_swapped)
  then obtain r where "rw_get s (of_nat pl) (of_nat k) = Inr r" using rw_get_valid by blast
  then show ?case using Cons by fastforce
qed

lemma CheckDeadlock_safe:
  assumes ok: "sv_ok s" "i < MAXNETNODES" "playing (client s i) \<longrightarrow> numbered s i" "ClientConnected (client s i)"
    and n: "unat (cl_sendseq (client s i)) < 2147483648"
  shows "\<exists>s'. NET_SV_CheckDeadlock e i s = Inr s'"
proof (cases "cl_drone (client s i) \<or> \<not> 1000 <s e_now e - cl_last_gamedata_time (client s i)")
  case True
  then show ?thesis by (auto simp: NET_SV_CheckDeadlock_def)
next
  case False
  then have "numbered s i" using ok(3,4) by (simp add: playing_def)
  then obtain pl where pl: "cl_player_number (client s i) = of_nat pl" "pl < NET_MAXPLAYERS"
    by (auto simp: numbered_def)
  obtain r where r: "first_missing s (of_nat pl) [0..<BACKUPTICS] = Inr r" "\<forall>k. r = Some k \<longrightarrow> k < BACKUPTICS"
    using first_missing_total [OF pl(2), of "[0..<BACKUPTICS]" s] by auto
  show ?thesis
  proof (cases r)
    case None
    then show ?thesis using False r by (simp add: NET_SV_CheckDeadlock_def pl(1))
  next
    case (Some k)
    have k: "k < BACKUPTICS" using r Some by simp
    have "\<exists>s1. NET_SV_SendResendRequest e i (recvwindow_start s + of_nat k) (recvwindow_start s + of_nat k + 5) s = Inr s1
       \<and> same_player i s s1"
      using k by (intro SendResendRequest_safe [OF pl, of k "k + 5"]) (auto simp: net_consts add.commute)
    then obtain s1 where s1: "NET_SV_SendResendRequest e i (recvwindow_start s + of_nat k) (recvwindow_start s + of_nat k + 5) s = Inr s1"
      by blast
    let ?s2 = "upd_client i (\<lambda>cl. cl\<lparr>cl_last_gamedata_time := e_now e\<rparr>) s1"
    have c: "calm s ?s2" by (rule calm_trans [OF calm_SendResendRequest [OF s1] calm_gamedata_time])
    have i: "i < length (clients s)" using ok by (simp add: ok_lengths)
    note cc = calm_clientD [OF c i]
    have ok2: "client_ok (client ?s2 i)" by (rule calm_client_ok [OF cc ok_client [OF ok(1,2)]])
    have seq: "cl_sendseq (client ?s2 i) = cl_sendseq (client s i)" using cc by (simp add: calm_client_def)
    have "\<exists>s3. NET_SV_SendTics e i (cl_acknowledged (client ?s2 i)) (cl_sendseq (client ?s2 i) - 1) ?s2 = Inr s3"
      if lt: "cl_acknowledged (client ?s2 i) < cl_sendseq (client ?s2 i)"
    proof (rule SendTics_safe)
      have pos: "unat (cl_sendseq (client ?s2 i)) > 0" using lt by (simp add: word_less_nat_alt)
      then have m: "unat (cl_sendseq (client ?s2 i) - 1) = unat (cl_sendseq (client ?s2 i)) - 1"
        by (simp add: unat_minus_wrap)
      show "cl_sendseq (client ?s2 i) - 1 \<noteq> - 1"
      proof
        assume "cl_sendseq (client ?s2 i) - 1 = - 1"
        then have "unat (cl_sendseq (client ?s2 i)) - 1 = 4294967295" using m by (metis unat_max)
        then show False using n seq by simp
      qed
      show "\<forall>x. unat (cl_acknowledged (client ?s2 i)) \<le> unat x \<longrightarrow> unat x \<le> unat (cl_sendseq (client ?s2 i) - 1) \<longrightarrow>
          fc_seq (queue_slot (client ?s2 i) x) = x"
        using ok2 m pos by (auto simp: client_ok_def holds_tics_def net_consts)
    qed
    then show ?thesis using False r Some s1 by (simp add: NET_SV_CheckDeadlock_def pl(1) Let_def)
  qed
qed

end
