(* ===== verification/Net_Server_Run.thy ===== *)
theory Net_Server_Run
  imports Net_Server_Safety
begin

text \<open>
  The server as a whole. One turn of a client (\<open>NET_SV_RunClient\<close>), one call of \<open>NET_SV_Run\<close>
  and one packet (\<open>NET_SV_Packet\<close>) keep the invariant, and the places where a packet can drive
  the C code into undefined behaviour are named exactly.
\<close>

subsection \<open>One client's turn\<close>

lemma steady_refl [simp]: "steady s s" by (simp add: steady_def)

lemma steady_same: "steady s s' \<Longrightarrow> settings_sane s' = settings_sane s" "steady s s' \<Longrightarrow> early s' = early s"
  by (simp_all add: steady_def settings_sane_def early_def)

lemma broadcast_about_ok:
  assumes "cl_name (client s i) \<noteq> None"
  shows "\<exists>s'. broadcast_about i t s = Inr s' \<and> calm s s'"
  using assms by (auto simp: broadcast_about_def calm_broadcast)

lemma sv_ok_drop_name:
  assumes "sv_ok s" "i < MAXNETNODES" "\<not> cl_active (client s i)"
  shows "sv_ok (upd_client i (\<lambda>cl. cl\<lparr>cl_name := None\<rparr>) s)" "steady s (upd_client i (\<lambda>cl. cl\<lparr>cl_name := None\<rparr>) s)"
proof -
  have "client_ok (client s i)" using assms ok_client by blast
  then have "client_ok ((client s i)\<lparr>cl_name := None\<rparr>)"
    using assms(3) by (simp add: client_ok_def holds_tics_def queue_slot_def ClientConnected_def)
  then show "sv_ok (upd_client i (\<lambda>cl. cl\<lparr>cl_name := None\<rparr>) s)"
    using assms by (intro sv_ok_upd) (simp_all add: playing_def ClientConnected_def)
  show "steady s (upd_client i (\<lambda>cl. cl\<lparr>cl_name := None\<rparr>) s)"
    by (auto simp: steady_def client_upd ClientConnected_def) (simp_all add: upd_client_def)
qed

lemma client_gone_ok:
  assumes "sv_ok s" "i < MAXNETNODES" "cl_name (client s i) \<noteq> None"
  shows "\<exists>s'. client_gone i s = Inr s' \<and> sv_ok s' \<and> steady s s'"
proof -
  define s1 where "s1 = upd_client i (\<lambda>cl. cl\<lparr>cl_active := False\<rparr>) s"
  have i: "i < length (clients s)" using assms by (simp add: ok_lengths)
  have c1: "calm s s1" unfolding s1_def by (rule calm_upd_client) (simp add: calm_client_def ClientConnected_def)
  have a1: "\<not> cl_active (client s1 i)" "cl_name (client s1 i) \<noteq> None"
    using i assms(3) by (simp_all add: s1_def client_upd)
  have "\<exists>s2. (if server_state s1 = SERVER_WAITING_START \<and> \<not> cl_drone (client s1 i)
                then bindR (broadcast_about i aborted_text s1) (\<lambda>s. Inr (NET_SV_GameEnded s))
                else Inr s1) = Inr s2 \<and> calm s1 s2"
  proof (cases "server_state s1 = SERVER_WAITING_START \<and> \<not> cl_drone (client s1 i)")
    case True
    obtain t where t: "broadcast_about i aborted_text s1 = Inr t" "calm s1 t"
      using broadcast_about_ok [OF a1(2)] by blast
    have "length (clients t) = MAXNETNODES"
      using calm_length [OF t(2)] calm_length [OF c1] assms(1) by (simp add: ok_lengths)
    from calm_trans [OF t(2) calm_game_ended [OF this]] show ?thesis using True t by simp
  qed auto
  then obtain s2 where s2: "(if server_state s1 = SERVER_WAITING_START \<and> \<not> cl_drone (client s1 i)
                then bindR (broadcast_about i aborted_text s1) (\<lambda>s. Inr (NET_SV_GameEnded s))
                else Inr s1) = Inr s2" "calm s1 s2" by blast
  have c2: "calm s s2" by (rule calm_trans [OF c1 s2(2)])
  have ok2: "sv_ok s2" by (rule calm_ok [OF c2 assms(1)])
  have "i < length (clients s1)" using calm_length [OF c1] i by simp
  from calm_clientD [OF s2(2) this] a1(1) have a2: "\<not> cl_active (client s2 i)" by (auto simp: calm_client_def)
  define s3 where "s3 = upd_client i (\<lambda>cl. cl\<lparr>cl_name := None\<rparr>) s2"
  have ok3: "sv_ok s3" "steady s2 s3" using sv_ok_drop_name [OF ok2 assms(2) a2] by (simp_all add: s3_def)
  define s4 where "s4 = NET_ReleaseAddress (cl_addr (client s3 i)) s3"
  have c4: "calm s3 s4" by (simp add: s4_def)
  then have ok4: "sv_ok s4" using calm_ok ok3 by blast
  define s5 where "s5 = (if NET_SV_NumPlayers s4 = 0 then NET_SV_GameEnded s4 else s4)"
  have c5: "calm s4 s5" using calm_game_ended ok4 by (simp add: s5_def ok_lengths)
  have "client_gone i s = Inr s5"
    unfolding client_gone_def Let_def s1_def [symmetric] s2(1) bindR_Inr s3_def [symmetric] s4_def [symmetric]
      s5_def ..
  moreover have "sv_ok s5" by (rule calm_ok [OF c5 ok4])
  moreover have "steady s s5"
    using calm_steady [OF c2] ok3(2) calm_steady [OF c4] calm_steady [OF c5] steady_trans by blast
  ultimately show ?thesis by blast
qed

lemma assigned_steady:
  assumes "length (clients s) = MAXNETNODES"
  shows "steady s (assigned s)"
  using assms by (simp add: steady_def assigned_playing)

lemma SendWaitingData_steady:
  assumes "sv_ok s"
  shows "\<exists>s'. NET_SV_SendWaitingData e i s = Inr s' \<and> sv_ok s' \<and> steady s s'"
proof -
  obtain s' where s': "NET_SV_SendWaitingData e i s = Inr s'" "calm (assigned s) s'"
    using SendWaitingData_safe [OF assms] by blast
  have "steady s (assigned s)" using assms by (intro assigned_steady) (simp add: ok_lengths)
  then show ?thesis using s' calm_ok [OF s'(2) assigned_ok [OF assms]] steady_calm by blast
qed

lemma SendTics_form:
  assumes "NET_SV_SendTics e i a b s = Inr s'"
  obtains q where "s' = on_connection i (\<lambda>c. NET_Conn_SendPacket (e_now e) c q) s"
  using assms by (auto simp: NET_SV_SendTics_def Let_def bindR_eq_Inr)

definition same_seat :: "nat \<Rightarrow> server \<Rightarrow> server \<Rightarrow> bool" where
  "same_seat i s s' \<longleftrightarrow> server_state s' = server_state s \<and> sv_players s' = sv_players s
     \<and> cl_player_number (client s' i) = cl_player_number (client s i)
     \<and> cl_drone (client s' i) = cl_drone (client s i)
     \<and> ClientConnected (client s' i) = ClientConnected (client s i)"

lemma same_seat_refl [simp]: "same_seat i s s" by (simp add: same_seat_def)

lemma same_seat_trans: "same_seat i a b \<Longrightarrow> same_seat i b c \<Longrightarrow> same_seat i a c"
  by (simp add: same_seat_def)

lemma same_seat_connection: "same_seat i s (on_connection i (\<lambda>c. NET_Conn_SendPacket now c q) s)"
proof -
  have "server_state (on_connection i f s) = server_state s" "sv_players (on_connection i f s) = sv_players s"
    for f by (simp_all add: on_connection_def upd_client_def emit_def split_def Let_def)
  then show ?thesis
    by (simp add: same_seat_def on_connection_client ClientConnected_def NET_Conn_SendPacket_def)
qed

lemma same_seat_SendTics: "NET_SV_SendTics e i a b s = Inr s' \<Longrightarrow> same_seat i s s'"
  using SendTics_form same_seat_connection by metis

lemma same_seat_upd:
  "same_seat i s (upd_client i (\<lambda>cl. cl\<lparr>cl_sendqueue := f cl\<rparr>) s)"
  "same_seat i s (upd_client i (\<lambda>cl. cl\<lparr>cl_sendseq := n\<rparr>) s)"
  by (simp_all add: same_seat_def client_upd ClientConnected_def) (simp_all add: upd_client_def)

lemma same_seat_tic:
  assumes "pump_tic e i r s = Inr s'"
  shows "same_seat i s s'"
proof -
  obtain cmd slot a b t where
    t: "NET_SV_SendTics e i a b (upd_client i (\<lambda>cl. cl\<lparr>cl_sendqueue := (cl_sendqueue cl)[slot := cmd]\<rparr>) s) = Inr t"
      "s' = upd_client i (\<lambda>cl. cl\<lparr>cl_sendseq := cl_sendseq (client s i) + 1\<rparr>) t"
    using assms unfolding pump_tic_def Let_def bindR_eq_Inr by blast
  show ?thesis unfolding t(2)
    by (rule same_seat_trans [OF same_seat_trans [OF same_seat_upd(1) same_seat_SendTics [OF t(1)]] same_seat_upd(2)])
qed

lemma same_seat_pump:
  assumes "NET_SV_PumpSendQueue e i s = Inr s'"
  shows "same_seat i s s'"
proof (cases "s' = s")
  case False
  then obtain r where "pump_tic e i r s = Inr s'"
    using assms unfolding NET_SV_PumpSendQueue_def Let_def
    by (auto simp: bindR_eq_Inr split: if_splits option.splits)
  then show ?thesis by (rule same_seat_tic)
qed simp

definition turn_ok :: "server \<Rightarrow> bool" where
  "turn_ok s \<longleftrightarrow> sv_ok s \<and> settings_sane s \<and> (server_state s = SERVER_IN_GAME \<longrightarrow> early s)"

lemma turn_steady: "turn_ok s \<Longrightarrow> steady s s' \<Longrightarrow> sv_ok s' \<Longrightarrow> turn_ok s'"
  by (auto simp: turn_ok_def steady_same) (auto simp: steady_def early_def)

lemma game_turn_ok:
  assumes "turn_ok s" "i < MAXNETNODES" "env_ok e" "ClientConnected (client s i)" "server_state s = SERVER_IN_GAME"
  shows "\<exists>s'. bindR (NET_SV_PumpSendQueue e i s) (NET_SV_CheckDeadlock e i) = Inr s' \<and> sv_ok s' \<and> steady s s'"
proof -
  obtain t where t: "NET_SV_PumpSendQueue e i s = Inr t" "sv_ok t" "steady s t"
    using PumpSendQueue_ok [of s i e] assms by (auto simp: turn_ok_def)
  note fr = same_seat_pump [OF t(1), unfolded same_seat_def]
  have c: "ClientConnected (client t i)" using fr assms(4) by simp
  have "in_step t (client t i)" using t(2) c assms(2) by (simp add: sv_ok_def paced_def)
  moreover have "early t" using assms t(3) by (simp add: turn_ok_def steady_same)
  ultimately have n: "unat (cl_sendseq (client t i)) < 2147483648"
    using fr assms(5) by (simp add: in_step_def early_def)
  have "playing (client t i) \<longrightarrow> numbered t i"
    using t(2) fr assms by (simp add: sv_ok_def)
  from CheckDeadlock_safe [OF t(2) assms(2) this c n] obtain s' where
    s': "NET_SV_CheckDeadlock e i t = Inr s'" by blast
  from calm_CheckDeadlock [OF this] have c: "calm t s'" .
  show ?thesis using t s' calm_ok [OF c t(2)] steady_calm [OF t(3) c] by simp
qed

lemma calm_send_time: "calm s (upd_client i (\<lambda>cl. cl\<lparr>cl_last_send_time := t\<rparr>) s)"
  by (rule calm_upd_client) (simp add: calm_client_def ClientConnected_def)

lemma client_work_ok:
  assumes "turn_ok s" "i < MAXNETNODES" "env_ok e"
  shows "\<exists>s'. client_work e i s = Inr s' \<and> sv_ok s' \<and> steady s s'"
proof (cases "ClientConnected (client s i)")
  case False
  then show ?thesis using assms by (simp add: client_work_def turn_ok_def)
next
  case True
  have ok: "sv_ok s" using assms(1) by (simp add: turn_ok_def)
  show ?thesis
  proof (cases "server_state s = SERVER_WAITING_LAUNCH
            \<and> (cl_last_send_time (client s i) <s 0 \<or> 1000 <s e_now e - cl_last_send_time (client s i))")
    case send: True
    obtain t where t: "NET_SV_SendWaitingData e i s = Inr t" "sv_ok t" "steady s t"
      using SendWaitingData_steady [OF ok] by blast
    let ?u = "upd_client i (\<lambda>cl. cl\<lparr>cl_last_send_time := e_now e\<rparr>) t"
    have "server_state t \<noteq> SERVER_IN_GAME" using t(3) send by (auto simp: steady_def)
    then have "server_state ?u \<noteq> SERVER_IN_GAME" by (simp add: upd_client_def)
    then have "client_work e i s = Inr ?u" using True send t(1) by (simp add: client_work_def)
    then show ?thesis using calm_ok [OF calm_send_time t(2)] steady_calm [OF t(3) calm_send_time] by blast
  next
    case no: False
    then show ?thesis
      using True ok game_turn_ok [OF assms True]
      by (cases "server_state s = SERVER_IN_GAME") (auto simp: client_work_def)
  qed
qed

lemma RunClient_ok:
  assumes "turn_ok s" "i < MAXNETNODES" "env_ok e" "cl_active (client s i)"
  shows "\<exists>s'. NET_SV_RunClient e i s = Inr s' \<and> sv_ok s' \<and> steady s s'"
proof -
  define s1 where "s1 = on_connection i (NET_Conn_Run (e_now e)) s"
  define gone where "gone = (cn_state (cl_connection (client s1 i)) = NET_CONN_STATE_DISCONNECTED)"
  define timed where "timed = (gone \<and> cn_disconnect_reason (cl_connection (client s1 i)) = NET_DISCONNECT_TIMEOUT)"
  have ok: "sv_ok s" using assms(1) by (simp add: turn_ok_def)
  have i: "i < length (clients s)" using ok assms(2) by (simp add: ok_lengths)
  have c1: "calm s s1" unfolding s1_def by (rule calm_on_connection) simp
  have "cl_name (client s i) \<noteq> None" using ok_client [OF ok assms(2)] assms(4) by (simp add: client_ok_def)
  then have n1: "cl_name (client s1 i) \<noteq> None" using calm_clientD [OF c1 i] by (simp add: calm_client_def)
  have "\<exists>s2. (if timed then broadcast_about i timed_out_text s1 else Inr s1) = Inr s2 \<and> calm s1 s2"
    using broadcast_about_ok [OF n1] by simp
  then obtain s2 where s2: "(if timed then broadcast_about i timed_out_text s1 else Inr s1) = Inr s2" "calm s1 s2"
    by blast
  have i1: "i < length (clients s1)" using calm_length [OF c1] i by simp
  have n2: "cl_name (client s2 i) \<noteq> None" using calm_clientD [OF s2(2) i1] n1 by (simp add: calm_client_def)
  have c2: "calm s s2" by (rule calm_trans [OF c1 s2(2)])
  have ok2: "sv_ok s2" by (rule calm_ok [OF c2 ok])
  have "\<exists>s3. (if gone then client_gone i s2 else Inr s2) = Inr s3 \<and> sv_ok s3 \<and> steady s2 s3"
    using client_gone_ok [OF ok2 assms(2) n2] ok2 by simp
  then obtain s3 where s3: "(if gone then client_gone i s2 else Inr s2) = Inr s3" "sv_ok s3" "steady s2 s3" by blast
  have st: "steady s s3" using calm_steady [OF c2] s3(3) steady_trans by blast
  obtain s4 where s4: "client_work e i s3 = Inr s4" "sv_ok s4" "steady s3 s4"
    using client_work_ok [OF turn_steady [OF assms(1) st s3(2)] assms(2,3)] by blast
  have "NET_SV_RunClient e i s = Inr s4"
    unfolding NET_SV_RunClient_def Let_def s1_def [symmetric] gone_def [symmetric] timed_def [symmetric]
      s2(1) bindR_Inr s3(1) s4(1) ..
  then show ?thesis using s4 steady_trans [OF st s4(3)] by blast
qed

lemma run_clients_ok:
  assumes "turn_ok s" "env_ok e"
  shows "\<exists>s'. foldR (\<lambda>i s. if cl_active (client s i) then NET_SV_RunClient e i s else Inr s)
                    [0..<MAXNETNODES] s = Inr s' \<and> sv_ok s' \<and> steady s s'"
proof -
  have "\<exists>s'. foldR (\<lambda>i s. if cl_active (client s i) then NET_SV_RunClient e i s else Inr s)
                    [0..<MAXNETNODES] s = Inr s' \<and> turn_ok s' \<and> steady s s'"
  proof (rule foldR_safe [where P = "\<lambda>t. turn_ok t \<and> steady s t"])
    fix i t assume "i \<in> set [0..<MAXNETNODES]" and t: "turn_ok t \<and> steady s t"
    then have i: "i < MAXNETNODES" by simp
    show "\<exists>s'. (if cl_active (client t i) then NET_SV_RunClient e i t else Inr t) = Inr s' \<and> turn_ok s' \<and> steady s s'"
      using RunClient_ok [OF _ i assms(2), of t] t turn_steady steady_trans
      by (cases "cl_active (client t i)") auto
  qed (use assms in simp)
  then show ?thesis by (auto simp: turn_ok_def)
qed

subsection \<open>The receive window advances\<close>

lemma should_advance_total:
  "\<forall>i \<in> set ks. i < NET_MAXPLAYERS \<Longrightarrow> \<exists>b. should_advance s ks = Inr b"
proof (induction ks)
  case (Cons i ks)
  have "rw_valid (of_nat 0) (of_nat i)" using Cons.prems by (intro rw_valid_nat) (auto simp: net_consts)
  then obtain r where "rw_get s 0 (of_nat i) = Inr r" using rw_get_valid by fastforce
  moreover obtain b where "should_advance s ks = Inr b" using Cons by auto
  ultimately have "should_advance s (i # ks) =
      Inr (if player_connected s (sv_players s ! i) \<and> \<not> rc_active r then False else b)" by simp
  then show ?case by blast
qed (auto intro: exI [of _ True])

lemma advance_one_ok:
  assumes "sv_ok s" "recvwindow_start s < lowtic"
  shows "sv_ok (advance_one s)"
proof -
  have "unat (recvwindow_start s) < unat lowtic" using assms(2) by (simp add: word_less_nat_alt)
  then have "unat (recvwindow_start s + 1) = Suc (unat (recvwindow_start s))"
    using unat_bound [of lowtic] by (intro unat_plus_1) simp
  then have "paced (advance_one s)"
    using assms(1) by (auto simp: sv_ok_def paced_def in_step_def advance_one_def split: if_splits)
  moreover have "numbered (advance_one s) i = numbered s i" for i
    by (simp add: numbered_def advance_one_def)
  moreover have "no_drone_plays (advance_one s) = no_drone_plays s"
    by (simp add: no_drone_plays_def advance_one_def)
  ultimately show ?thesis using assms(1) unfolding sv_ok_def
    by (simp add: advance_one_def net_consts)
qed

lemma advance_one_frame [simp]:
  "server_state (advance_one s) = server_state s" "sv_settings (advance_one s) = sv_settings s"
  "sv_players (advance_one s) = sv_players s" "clients (advance_one s) = clients s"
  "recvwindow_start (advance_one s) = recvwindow_start s + 1"
  by (simp_all add: advance_one_def)

lemma advance_to_ok:
  "sv_ok s \<Longrightarrow> \<exists>s'. advance_to lowtic s = Inr s' \<and> sv_ok s' \<and> server_state s' = server_state s
     \<and> gs_extratics (sv_settings s') = gs_extratics (sv_settings s)"
proof (induction lowtic s rule: advance_to.induct)
  case (1 lowtic s)
  obtain b where b: "should_advance s [0..<NET_MAXPLAYERS] = Inr b"
    using should_advance_total [of "[0..<NET_MAXPLAYERS]" s] by auto
  show ?case
  proof (cases "recvwindow_start s < lowtic \<and> b")
    case True
    then have "sv_ok (advance_one s)" by (intro advance_one_ok [OF "1.prems", of lowtic]) simp
    with True show ?thesis using "1.IH" [OF _ b] b advance_to.simps [of lowtic s] by simp
  next
    case False
    then show ?thesis using "1.prems" b advance_to.simps [of lowtic s] by auto
  qed
qed

lemma AdvanceWindow_ok:
  "sv_ok s \<Longrightarrow> \<exists>s'. NET_SV_AdvanceWindow s = Inr s' \<and> sv_ok s' \<and> server_state s' = server_state s
     \<and> gs_extratics (sv_settings s') = gs_extratics (sv_settings s)"
  using advance_to_ok by (auto simp: NET_SV_AdvanceWindow_def)

lemma calm_CheckResends: "NET_SV_CheckResends e i s = Inr s' \<Longrightarrow> calm s s'"
  by (simp add: NET_SV_CheckResends_def calm_check_resends)

lemma rw_upd_state: "rw_upd a b f s = Inr s' \<Longrightarrow> server_state s' = server_state s"
  by (auto simp: rw_upd_def Let_def split: if_splits)

lemma SendResendRequest_state:
  assumes "NET_SV_SendResendRequest e i a b s = Inr s'"
  shows "server_state s' = server_state s"
proof -
  obtain f g where s': "foldR f (int_range a b) (on_connection i (\<lambda>c. NET_Conn_SendPacket (e_now e) c g) s) = Inr s'"
    and f: "f = (\<lambda>t s. let index = t - recvwindow_start s
           in if of_nat BACKUPTICS \<le>s index then Inr s
              else rw_upd index (cl_player_number (client s i)) (\<lambda>r. r\<lparr>rc_resend_time := e_now e\<rparr>) s)"
    using assms unfolding NET_SV_SendResendRequest_def Let_def by blast
  show ?thesis
  proof (rule foldR_inv [OF s', where P = "\<lambda>t. server_state t = server_state s"])
    show "server_state (on_connection i (\<lambda>c. NET_Conn_SendPacket (e_now e) c g) s) = server_state s"
      by (simp add: on_connection_def upd_client_def emit_def split_def Let_def)
  qed (auto simp: f Let_def rw_upd_state split: if_splits)
qed

lemma check_resends_state: "check_resends e i pl ks run s = Inr s' \<Longrightarrow> server_state s' = server_state s"
proof (induction ks arbitrary: run s)
  case Nil
  then show ?case by (auto simp: request_run_def SendResendRequest_state split: option.splits)
next
  case (Cons k ks)
  have r: "request_run e i run s = Inr t \<Longrightarrow> server_state t = server_state s" for t
    by (auto simp: request_run_def SendResendRequest_state split: option.splits)
  obtain q where q: "rw_get s (of_nat k) pl = Inr q" using Cons.prems by (auto simp: bindR_eq_Inr)
  show ?case
  proof (cases "need_resend (e_now e) q")
    case True
    with Cons.prems q show ?thesis by (simp add: Cons.IH)
  next
    case False
    with Cons.prems q obtain t where "request_run e i run s = Inr t" "check_resends e i pl ks None t = Inr s'"
      by (auto simp: bindR_eq_Inr)
    then show ?thesis using r Cons.IH by metis
  qed
qed

lemma CheckResends_state: "NET_SV_CheckResends e i s = Inr s' \<Longrightarrow> server_state s' = server_state s"
  by (simp add: NET_SV_CheckResends_def check_resends_state)

lemma game_numbered:
  assumes "sv_ok s" "server_state s = SERVER_IN_GAME" "sv_players s ! k = Some i" "k < NET_MAXPLAYERS"
    and "ClientConnected (client s i)"
  shows "numbered s i"
proof -
  have m: "Some i \<in> set (sv_players s)" using assms by (metis nth_mem ok_lengths(2))
  then have "i < MAXNETNODES" "\<not> cl_drone (client s i)"
    using assms by (auto simp: sv_ok_def no_drone_plays_def)
  then show ?thesis using assms by (simp add: sv_ok_def playing_def)
qed

lemma run_game_ok:
  assumes "sv_ok s" "server_state s = SERVER_IN_GAME"
  shows "\<exists>s'. run_game e s = Inr s' \<and> sv_ok s'"
proof -
  obtain t where t: "NET_SV_AdvanceWindow s = Inr t" "sv_ok t" "server_state t = SERVER_IN_GAME"
    using AdvanceWindow_ok [OF assms(1)] assms(2) by auto
  let ?f = "\<lambda>k s. case sv_players s ! k of None \<Rightarrow> Inr s
      | Some i \<Rightarrow> if ClientConnected (client s i) then NET_SV_CheckResends e i s else Inr s"
  have "\<exists>s'. foldR ?f [0..<NET_MAXPLAYERS] t = Inr s' \<and> sv_ok s' \<and> server_state s' = SERVER_IN_GAME"
  proof (rule foldR_safe [where P = "\<lambda>s. sv_ok s \<and> server_state s = SERVER_IN_GAME"])
    fix k u assume k: "k \<in> set [0..<NET_MAXPLAYERS]" and u: "sv_ok u \<and> server_state u = SERVER_IN_GAME"
    show "\<exists>s'. ?f k u = Inr s' \<and> sv_ok s' \<and> server_state s' = SERVER_IN_GAME"
    proof (cases "\<exists>i. sv_players u ! k = Some i \<and> ClientConnected (client u i)")
      case True
      then obtain i where i: "sv_players u ! k = Some i" "ClientConnected (client u i)" by blast
      then have "numbered u i" using game_numbered [of u k i] u k by simp
      then obtain s' where s': "NET_SV_CheckResends e i u = Inr s'" using CheckResends_safe by blast
      have "sv_ok s'" using calm_ok [OF calm_CheckResends [OF s']] u by blast
      moreover have "server_state s' = server_state u" by (rule CheckResends_state [OF s'])
      ultimately show ?thesis using i s' u by simp
    next
      case False
      then show ?thesis using u by (auto split: option.split)
    qed
  qed (use t in simp)
  then show ?thesis using t(1) by (auto simp: run_game_def)
qed

end
