(* ===== verification/Net_Server_Packets.thy ===== *)
theory Net_Server_Packets
  imports Net_Server_Run
begin

text \<open>
  Packets. A packet either leaves the server in a state that satisfies the invariant or runs into
  one of two faults (\<open>client_fault\<close>): game settings that announce too many players, from the
  controlling client, and game data from a client that is no longer connected. Then one call of
  \<open>NET_SV_Run\<close> as a whole, and the state after \<open>NET_SV_Init\<close>.
\<close>

subsection \<open>Packets\<close>

lemma parse_tics_safe:
  assumes "pl < NET_MAXPLAYERS"
  shows "\<exists>r. parse_tics e i (of_nat pl) seq ks p s = Inr r"
proof (induction ks arbitrary: p s)
  case Nil
  then show ?case by auto
next
  case (Cons k ks)
  have v: "\<exists>s'. rw_upd a (of_nat pl) f s = Inr s'" if "\<not> (a <s 0 \<or> of_nat BACKUPTICS \<le>s a)" for a f
    using that rw_valid_word [OF _ _ assms] rw_upd_valid by blast
  show ?case
  proof (cases "NET_ReadSInt16 p")
    case None
    then show ?thesis by auto
  next
    case (Some x)
    obtain latency q where x: "x = (latency, q)" by fastforce
    show ?thesis
    proof (cases "NET_ReadTiccmdDiff q (e_junk_diff e) (gs_lowres_turn (sv_settings s) \<noteq> 0)")
      case None
      then show ?thesis using Some x by auto
    next
      case d: (Some y)
      obtain diff r where y: "y = (diff, r)" by fastforce
      let ?ix = "seq + of_nat k - recvwindow_start s"
      show ?thesis
      proof (cases "?ix <s 0 \<or> of_nat BACKUPTICS \<le>s ?ix")
        case True
        then show ?thesis using Some x d y Cons by (simp add: Let_def)
      next
        case False
        from v [OF this] obtain t where
          "rw_upd ?ix (of_nat pl) (\<lambda>r. r\<lparr>rc_active := True, rc_diff := diff, rc_latency := latency\<rparr>) s = Inr t"
          by blast
        then show ?thesis using Some x d y False Cons by (simp add: Let_def)
      qed
    qed
  qed
qed

lemma resend_start_safe:
  "pl < NET_MAXPLAYERS \<Longrightarrow> n < BACKUPTICS + 1 \<Longrightarrow> \<exists>r \<le> n. resend_start s (of_nat pl) n = Inr r"
proof (induction n)
  case 0
  then show ?case by simp
next
  case (Suc n)
  then have "rw_valid (of_nat n) (of_nat pl)" by (intro rw_valid_nat) simp_all
  then obtain r where "rw_get s (of_nat n) (of_nat pl) = Inr r" using rw_get_valid by blast
  then show ?case using Suc by (auto simp: le_Suc_eq)
qed

lemma sle_0_iff: "x \<le>s (0 :: u32) \<longleftrightarrow> x = 0 \<or> x <s 0"
  by (auto simp: word_sle_eq word_sless_alt order_le_less signed_eq_0_iff)

lemma request_missing_safe:
  assumes "cl_player_number (client s i) = of_nat pl" "pl < NET_MAXPLAYERS"
  shows "\<exists>s'. request_missing e i (of_nat pl) seq s = Inr s'"
proof (cases "seq - recvwindow_start s \<le>s 0")
  case True
  then show ?thesis by (simp add: request_missing_def)
next
  case False
  define n where "n = (if of_nat BACKUPTICS \<le>s seq - recvwindow_start s then BACKUPTICS - 1
      else unat (seq - recvwindow_start s))"
  have n: "n < BACKUPTICS"
  proof (cases "of_nat BACKUPTICS \<le>s seq - recvwindow_start s")
    case False
    then show ?thesis using \<open>\<not> _ \<le>s 0\<close> sle_nat_iff [of BACKUPTICS "seq - recvwindow_start s"]
      by (auto simp: n_def sle_0_iff sless_0_iff net_consts)
  qed (simp add: n_def net_consts)
  obtain r where r: "resend_start s (of_nat pl) n = Inr r" "r \<le> n"
    using resend_start_safe [OF assms(2), of n] n by auto
  have e: "request_missing e i (of_nat pl) seq s =
      (if r < n then NET_SV_SendResendRequest e i (recvwindow_start s + of_nat r)
                     (recvwindow_start s + of_nat n - 1) s else Inr s)"
    using False r(1) unfolding request_missing_def Let_def n_def [symmetric] by simp
  show ?thesis
  proof (cases "r < n")
    case True
    have "\<exists>s'. NET_SV_SendResendRequest e i (recvwindow_start s + of_nat r) (recvwindow_start s + of_nat n - 1) s
        = Inr s' \<and> same_player i s s'"
      using True n by (intro SendResendRequest_safe [OF assms, of r "n - 1"]) (auto simp: net_consts of_nat_diff)
    then show ?thesis using e True by auto
  next
    case False
    then show ?thesis using e by simp
  qed
qed

lemma ParseGameData_safe:
  assumes "numbered s i" "i < length (clients s)"
  shows "\<exists>s'. NET_SV_ParseGameData e p i s = Inr s'"
proof -
  obtain pl where pl: "cl_player_number (client s i) = of_nat pl" "pl < NET_MAXPLAYERS"
    using assms(1) by (auto simp: numbered_def)
  have "\<exists>s'. bindR (parse_tics e i (of_nat pl) seq ks q s) (\<lambda>(complete, s).
        if \<not> complete then Inr s
        else request_missing e i (of_nat pl) seq (acknowledge i ackseq s)) = Inr s'" for seq ks q ackseq
  proof -
    obtain complete t where t: "parse_tics e i (of_nat pl) seq ks q s = Inr (complete, t)"
      using parse_tics_safe [OF pl(2)] by fastforce
    have c: "calm s (acknowledge i ackseq t)"
      by (rule calm_trans [OF calm_parse_tics [OF t] calm_acknowledge])
    have "cl_player_number (client (acknowledge i ackseq t) i) = of_nat pl"
      using calm_clientD [OF c assms(2)] pl(1) by (simp add: calm_client_def)
    from request_missing_safe [OF this pl(2)] show ?thesis using t by simp
  qed
  then show ?thesis
    by (auto simp: NET_SV_ParseGameData_def pl(1) Let_def split: option.split)
qed

lemma ParseGameData_cases:
  assumes "sv_ok s" "i < MAXNETNODES"
  obtains (ok) s' where "NET_SV_ParseGameData e p i s = Inr s'" "sv_ok s'"
    | (fault) f where "NET_SV_ParseGameData e p i s = Inl f" "server_state s = SERVER_IN_GAME"
        "\<not> cl_drone (client s i)" "\<not> ClientConnected (client s i)"
proof (cases "NET_SV_ParseGameData e p i s")
  case (Inr s')
  show ?thesis by (rule ok [OF Inr]) (rule calm_ok [OF calm_ParseGameData [OF Inr] assms(1)])
next
  case (Inl f)
  have g: "server_state s = SERVER_IN_GAME" "\<not> cl_drone (client s i)"
    using Inl by (auto simp: NET_SV_ParseGameData_def split: if_splits)
  have "\<not> ClientConnected (client s i)"
  proof
    assume "ClientConnected (client s i)"
    then have "numbered s i" using assms g by (simp add: sv_ok_def playing_def)
    then show False using ParseGameData_safe [of s i e p] assms Inl by (auto simp: ok_lengths)
  qed
  then show ?thesis using fault Inl g by blast
qed

lemma FindClient_Some:
  "NET_SV_FindClient addr s = Some i \<Longrightarrow> i < MAXNETNODES \<and> cl_active (client s i) \<and> cl_addr (client s i) = addr"
  by (auto simp: NET_SV_FindClient_def find_Some_iff)

lemma calm_HolePunch: "calm s (NET_SV_ParseHolePunch e p s)"
proof -
  have "calm s (NET_ReleaseAddress a (emit out (NET_ReferenceAddress a s)))" for a out
    by (rule calm_trans [OF calm_trans [OF calm_fields(1) calm_emit] calm_fields(2)])
  then show ?thesis
    by (simp add: NET_SV_ParseHolePunch_def NET_ResolveAddress_def Let_def split: prod.split option.split)
qed

lemma calm_MasterPacket: "calm s (NET_SV_MasterPacket e p s)"
  by (simp add: NET_SV_MasterPacket_def calm_HolePunch NET_Query_AddResponse_def split: option.split prod.split)
    (simp add: calm_def list.rel_refl)

lemma SendQueryResponse_calm: "\<exists>s'. NET_SV_SendQueryResponse e addr s = Inr s' \<and> calm s s'"
  unfolding NET_SV_SendQueryResponse_def Let_def using NET_WriteQueryData_frame by (metis bindR_Inr calm_emit)

definition client_fault :: "env \<Rightarrow> u32 \<Rightarrow> net_packet \<Rightarrow> nat \<Rightarrow> server \<Rightarrow> fault \<Rightarrow> bool" where
  "client_fault e ty p i s f \<longleftrightarrow>
     (ty = NET_PACKET_TYPE_GAMESTART \<and> server_state s = SERVER_WAITING_START
        \<and> NET_SV_Controller s = Some i \<and> NET_ReadSettings p (e_junk_settings e) = Inl f)
   \<or> (ty = NET_PACKET_TYPE_GAMEDATA \<and> server_state s = SERVER_IN_GAME
        \<and> \<not> cl_drone (client s i) \<and> \<not> ClientConnected (client s i))"

lemma client_packet_cases:
  assumes "sv_ok s" "env_ok e" "i < MAXNETNODES"
  obtains (ok) s' where "client_packet e ty p i s = Inr s'" "sv_ok s'"
    | (fault) f where "client_packet e ty p i s = Inl f" "client_fault e ty p i s f"
proof -
  have codes: "NET_PACKET_TYPE_GAMESTART \<noteq> NET_PACKET_TYPE_GAMEDATA"
    "NET_PACKET_TYPE_LAUNCH \<noteq> NET_PACKET_TYPE_GAMEDATA" by (simp_all add: packet_types)
  consider "ty = NET_PACKET_TYPE_GAMESTART" | "ty = NET_PACKET_TYPE_GAMEDATA"
    | "ty \<noteq> NET_PACKET_TYPE_GAMESTART" "ty \<noteq> NET_PACKET_TYPE_GAMEDATA" by blast
  then show ?thesis
  proof cases
    case 1
    have e: "client_packet e ty p i s = NET_SV_ParseGameStart e p i s" using 1 by (simp add: client_packet_def)
    show ?thesis
    proof (cases rule: ParseGameStart_cases [OF assms(1,2), of p i])
      case (1 s')
      then show ?thesis using e ok by simp
    next
      case (2 f)
      then show ?thesis using e fault \<open>ty = _\<close> by (simp add: client_fault_def)
    qed
  next
    case 2
    have e: "client_packet e ty p i s = NET_SV_ParseGameData e p i s"
      using 2 codes by (simp add: client_packet_def)
    show ?thesis
    proof (cases rule: ParseGameData_cases [OF assms(1,3), of e p])
      case (1 s')
      then show ?thesis using e ok by simp
    next
      case (2 f)
      then show ?thesis using e fault \<open>ty = _\<close> by (simp add: client_fault_def)
    qed
  next
    case 3
    obtain s1 where s1: "NET_SV_ParseLaunch i s = Inr s1" "sv_ok s1" using ParseLaunch_ok [OF assms(1)] by blast
    obtain s2 where s2: "NET_SV_ParseResendRequest e p i s = Inr s2" using ParseResendRequest_safe by blast
    have ok2: "sv_ok s2" by (rule calm_ok [OF calm_ParseResendRequest [OF s2] assms(1)])
    have "\<exists>s'. client_packet e ty p i s = Inr s' \<and> sv_ok s'"
      using 3 s1 s2 ok2 calm_ok [OF calm_ParseGameDataACK assms(1)] assms(1) by (simp add: client_packet_def)
    then show ?thesis using ok by blast
  qed
qed


definition packet_fault :: "env \<Rightarrow> net_packet \<Rightarrow> net_addr \<Rightarrow> server \<Rightarrow> fault \<Rightarrow> bool" where
  "packet_fault e p addr s f \<longleftrightarrow>
     (\<exists>i ty q. NET_SV_FindClient addr s = Some i \<and> NET_ReadInt16 p = Some (ty, q)
        \<and> (let r = NET_Conn_Packet (e_now e) (cl_connection (client s i)) q ty
            in \<not> cr_eaten r
             \<and> client_fault e (cr_type r) (cr_packet r) i (on_connection i (\<lambda>_. (cr_conn r, cr_out r)) s) f))"

lemma Packet_cases:
  assumes "sv_ok s" "env_ok e"
  obtains (ok) s' where "NET_SV_Packet e p addr s = Inr s'" "sv_ok s'"
    | (fault) f where "NET_SV_Packet e p addr s = Inl f" "packet_fault e p addr s f"
proof (cases "master_server s = Some addr")
  case True
  then show ?thesis using ok calm_ok [OF calm_MasterPacket assms(1)] by (simp add: NET_SV_Packet_def)
next
  case m: False
  show ?thesis
  proof (cases "NET_ReadInt16 p")
    case None
    then show ?thesis using m ok assms(1) by (simp add: NET_SV_Packet_def)
  next
    case (Some x)
    obtain ty q where x: "x = (ty, q)" by fastforce
    let ?cl = "NET_SV_FindClient addr s"
    have cl: "\<forall>j. ?cl = Some j \<longrightarrow> j < MAXNETNODES" using FindClient_Some by blast
    show ?thesis
    proof (cases "ty = NET_PACKET_TYPE_SYN \<or> ty = NET_PACKET_TYPE_QUERY \<or> ?cl = None")
      case True
      obtain s1 where s1: "NET_SV_ParseSYN e q ?cl addr s = Inr s1" "sv_ok s1"
        using ParseSYN_ok [OF assms(1) cl] by blast
      obtain s2 where s2: "NET_SV_SendQueryResponse e addr s = Inr s2" "sv_ok s2"
        using SendQueryResponse_calm calm_ok assms(1) by blast
      have "\<exists>s'. NET_SV_Packet e p addr s = Inr s' \<and> sv_ok s'"
        using m Some x True s1 s2 assms(1)
        by (cases "ty = NET_PACKET_TYPE_SYN"; cases "ty = NET_PACKET_TYPE_QUERY")
          (auto simp: NET_SV_Packet_def Let_def)
      then show ?thesis using ok by blast
    next
      case False
      then obtain i where i: "?cl = Some i" "i < MAXNETNODES" using cl by blast
      define r where "r = NET_Conn_Packet (e_now e) (cl_connection (client s i)) q ty"
      define t where "t = on_connection i (\<lambda>_. (cr_conn r, cr_out r)) s"
      have c: "calm s t" unfolding t_def r_def by (rule calm_on_connection) simp
      have t: "sv_ok t" by (rule calm_ok [OF c assms(1)])
      have e: "NET_SV_Packet e p addr s =
          (if cr_eaten r then Inr t else client_packet e (cr_type r) (cr_packet r) i t)"
        using m Some x False i by (simp add: NET_SV_Packet_def Let_def r_def t_def)
      show ?thesis
      proof (cases "cr_eaten r")
        case True
        then show ?thesis using e ok t by simp
      next
        case ne: False
        show ?thesis
        proof (cases rule: client_packet_cases [OF t assms(2) i(2), of "cr_type r" "cr_packet r"])
          case (1 s')
          then show ?thesis using e ne ok by simp
        next
          case (2 f)
          have "packet_fault e p addr s f"
            unfolding packet_fault_def Let_def
            using i(1) Some x ne 2(2) unfolding r_def t_def by blast
          then show ?thesis using fault 2(1) e ne by simp
        qed
      qed
    qed
  qed
qed

subsection \<open>The master server\<close>

lemma UpdateMasterServer_cases:
  assumes "sv_ok s" "master_server s \<noteq> None"
  obtains (ok) s' where "UpdateMasterServer e s = Inr s'" "calm s s'"
    | (fault) "UpdateMasterServer e s = Inl NullDeref" "resolve_in (e_resolve e) MASTER_SERVER_ADDRESS = None"
        "MASTER_RESOLVE_PERIOD * 1000 < e_now e - master_resolve_time s"
        "MASTER_REFRESH_PERIOD * 1000 < e_now e - master_refresh_time s"
proof -
  have fields: "calm s (t\<lparr>master_server := a, master_resolve_time := b\<rparr>)"
    "calm s (t\<lparr>master_refresh_time := b\<rparr>)" if "calm s t" for t a b
    using that by (auto simp: calm_def)
  obtain m where m: "master_server s = Some m" using assms(2) by blast
  define t where "t = (if MASTER_RESOLVE_PERIOD * 1000 < e_now e - master_resolve_time s
     then (NET_ReleaseAddress m (snd (NET_Query_ResolveMaster e s)))
            \<lparr>master_server := fst (NET_Query_ResolveMaster e s), master_resolve_time := e_now e\<rparr>
     else s)"
  have rm: "master_server (snd (NET_Query_ResolveMaster e s)) = Some m"
    using m by (simp add: NET_Query_ResolveMaster_def NET_ResolveAddress_def NET_ReferenceAddress_def split: option.split)
  have "calm s (snd (NET_Query_ResolveMaster e s))"
    by (simp add: NET_Query_ResolveMaster_def NET_ResolveAddress_def split: option.split)
  then have c: "calm s t" unfolding t_def by (simp add: fields calm_trans [OF _ calm_fields(2)])
  have e: "UpdateMasterServer e s =
      (if MASTER_REFRESH_PERIOD * 1000 < e_now e - master_refresh_time t
       then bindR (NET_Query_AddToMaster (master_server t) t) (\<lambda>s. Inr (s\<lparr>master_refresh_time := e_now e\<rparr>))
       else Inr t)"
    using rm unfolding UpdateMasterServer_def Let_def t_def by (simp add: split_def)
  have mr: "master_refresh_time t = master_refresh_time s"
    by (simp add: t_def NET_ReleaseAddress_def NET_Query_ResolveMaster_def NET_ResolveAddress_def
        NET_ReferenceAddress_def split: option.split)
  show ?thesis
  proof (cases "master_server t")
    case None
    then have l: "MASTER_RESOLVE_PERIOD * 1000 < e_now e - master_resolve_time s"
        "fst (NET_Query_ResolveMaster e s) = None"
      using m unfolding t_def by (auto split: if_splits)
    then have "resolve_in (e_resolve e) MASTER_SERVER_ADDRESS = None"
      by (simp add: NET_Query_ResolveMaster_def NET_ResolveAddress_def split: option.splits)
    then show ?thesis using None e l mr ok [of t] c fault
      by (cases "MASTER_REFRESH_PERIOD * 1000 < e_now e - master_refresh_time s")
        (auto simp: NET_Query_AddToMaster_def)
  next
    case (Some a)
    have "calm s ((emit out t)\<lparr>master_refresh_time := e_now e\<rparr>)" for out
      by (rule fields(2)) (rule calm_trans [OF c calm_emit])
    then show ?thesis using Some e ok c
      by (cases "MASTER_REFRESH_PERIOD * 1000 < e_now e - master_refresh_time t")
        (auto simp: NET_Query_AddToMaster_def)
  qed
qed

subsection \<open>One call of the server\<close>

text \<open>Everything after the packets have been read.\<close>

definition after_packets :: "env \<Rightarrow> server \<Rightarrow> server res" where
  "after_packets e s = bindR (if master_server s \<noteq> None then UpdateMasterServer e s else Inr s) (\<lambda>s.
           bindR (foldR (\<lambda>i s. if cl_active (client s i) then NET_SV_RunClient e i s else Inr s)
                    [0..<MAXNETNODES] s) (\<lambda>s.
           case server_state s of
             SERVER_WAITING_LAUNCH \<Rightarrow> Inr s
           | SERVER_WAITING_START \<Rightarrow> CheckStartGame e s
           | SERVER_IN_GAME \<Rightarrow> run_game e s))"

lemma Run_split: "server_initialized s \<Longrightarrow>
    NET_SV_Run e incoming s = bindR (foldR (receive_one e) incoming s) (after_packets e)"
  unfolding NET_SV_Run_def after_packets_def by (simp cong del: option.case_cong)

lemma turn_calm: "turn_ok s \<Longrightarrow> calm s s' \<Longrightarrow> turn_ok s'"
  using calm_ok calm_steady turn_steady by (metis turn_ok_def)

lemma after_packets_ok:
  assumes "turn_ok s" "env_ok e" "resolve_in (e_resolve e) MASTER_SERVER_ADDRESS \<noteq> None"
  shows "\<exists>s'. after_packets e s = Inr s' \<and> sv_ok s'"
proof -
  have "\<exists>t. (if master_server s \<noteq> None then UpdateMasterServer e s else Inr s) = Inr t \<and> calm s t"
  proof (cases "master_server s = None")
    case False
    show ?thesis
      by (rule UpdateMasterServer_cases [of s e]) (use False assms in \<open>auto simp: turn_ok_def\<close>)
  qed simp
  then obtain t where t: "(if master_server s \<noteq> None then UpdateMasterServer e s else Inr s) = Inr t" "calm s t" by blast
  obtain u where u: "foldR (\<lambda>i s. if cl_active (client s i) then NET_SV_RunClient e i s else Inr s)
                    [0..<MAXNETNODES] t = Inr u" "sv_ok u"
    using run_clients_ok [OF turn_calm [OF assms(1) t(2)] assms(2)] by blast
  have e: "after_packets e s = (case server_state u of
             SERVER_WAITING_LAUNCH \<Rightarrow> Inr u
           | SERVER_WAITING_START \<Rightarrow> CheckStartGame e u
           | SERVER_IN_GAME \<Rightarrow> run_game e u)"
    unfolding after_packets_def t(1) bindR_Inr u(1) ..
  show ?thesis unfolding e
    using u(2) CheckStartGame_ok [OF u(2)] run_game_ok [OF u(2)] by (cases "server_state u") auto
qed

lemma receive_one_ok:
  assumes "sv_ok s" "env_ok e" "receive_one e d s = Inr s'"
  shows "sv_ok s'"
proof -
  have ok: "sv_ok (NET_ReferenceAddress (fst d) s)" by (rule calm_ok [OF calm_fields(1) assms(1)])
  obtain t where t: "NET_SV_Packet e \<lparr>pdata = snd d, palloced = length (snd d), ppos = 0\<rparr> (fst d)
      (NET_ReferenceAddress (fst d) s) = Inr t" "s' = NET_ReleaseAddress (fst d) t"
    using assms(3) by (auto simp: receive_one_def bindR_eq_Inr)
  have "sv_ok t"
    by (rule Packet_cases [OF ok assms(2), of "\<lparr>pdata = snd d, palloced = length (snd d), ppos = 0\<rparr>" "fst d"])
      (use t(1) in simp_all)
  then show ?thesis unfolding t(2) by (rule calm_ok [OF calm_fields(2)])
qed

lemma receive_all_ok:
  assumes "sv_ok s" "env_ok e" "foldR (receive_one e) incoming s = Inr s'"
  shows "sv_ok s'"
  using assms(3,1) by (rule foldR_inv) (use receive_one_ok [OF _ assms(2)] in blast)

lemma Init_ok:
  assumes "length (clients s) = MAXNETNODES" "length (sv_players s) = NET_MAXPLAYERS"
    "length (recvwindow s) = BACKUPTICS * NET_MAXPLAYERS"
    "length (gs_player_classes (sv_settings s)) = NET_MAXPLAYERS"
    "list_all (\<lambda>cl. length (cl_sendqueue cl) = BACKUPTICS \<and> list_all full_cmd_ok (cl_sendqueue cl)
        \<and> cl_sendseq cl = 0) (clients s)"
  shows "\<exists>s'. NET_SV_Init s = Inr s' \<and> sv_ok s'"
proof -
  let ?s = "s\<lparr>clients := map (\<lambda>cl. cl\<lparr>cl_active := False\<rparr>) (clients s)\<rparr>"
  have np: "filter playing (clients ?s) = []"
    by (simp add: filter_empty_conv playing_def ClientConnected_def)
  then have a: "NET_SV_AssignPlayers ?s = Inr (assigned ?s)"
    using assms by (intro AssignPlayers_eq) simp_all
  have nc: "\<not> ClientConnected (client ?s i)" if "i < MAXNETNODES" for i
    using that assms(1) by (simp add: ClientConnected_def)
  then have pl: "players ?s = []" using assms(1) players_props(2) [of _ ?s]
    by (auto simp: playing_def ClientConnected_def intro!: filter_False simp: players_def players_in_def)
  have cl: "client (assigned ?s) i = (client s i)\<lparr>cl_active := False\<rparr>" if "i < MAXNETNODES" for i
    using assigned_client [of ?s i] nc [OF that] that assms(1) by (simp add: playing_def)
  have cok: "client_ok (client (assigned ?s) i)" if "i < MAXNETNODES" for i
    using assms(1,5) that by (simp add: cl list_all_length client_ok_def ClientConnected_def holds_tics_def)
  let ?t = "(assigned ?s)\<lparr>server_state := SERVER_WAITING_LAUNCH, sv_gamemode := indetermined, server_initialized := True\<rparr>"
  have lt: "length (clients (assigned ?s)) = MAXNETNODES" using assms(1) by simp
  have "length (filter playing (clients (assigned ?s))) \<le> NET_MAXPLAYERS"
    using count_players [OF lt] assigned_count [of ?s] assms(1) pl by simp
  moreover have "list_all client_ok (clients (assigned ?s))" using cok lt by (simp add: list_all_length)
  moreover have "sv_players (assigned ?s) = replicate NET_MAXPLAYERS None"
    by (simp add: assigned_sv_players pl)
  moreover have "paced ?t" using lt by (auto simp: paced_def cl ClientConnected_def)
  ultimately have "sv_ok ?t" using assms(1-4) lt by (auto simp: sv_ok_def)
  then show ?thesis using a by (simp add: NET_SV_Init_def)
qed

end
