(* ===== verification/Net_Server_Spec.thy ===== *)
theory Net_Server_Spec
  imports Net_Server_Packets
begin

text \<open>
  What the operations on the receive window, the choice of the controller and the send queue
  compute, stated over a table of the window (\<open>tic_entry s t k\<close> is tic \<open>t\<close> of player \<open>k\<close>) and
  an order of the clients (\<open>older\<close>).
\<close>

subsection \<open>The receive window as a table\<close>

definition tic_entry :: "server \<Rightarrow> nat \<Rightarrow> nat \<Rightarrow> net_client_recv" where
  "tic_entry s t k = recvwindow s ! (t * NET_MAXPLAYERS + k)"

lemma rw_get_entry:
  assumes "t < BACKUPTICS" "k < NET_MAXPLAYERS"
  shows "rw_get s (of_nat t) (of_nat k) = Inr (tic_entry s t k)"
proof -
  have "rw_valid (of_nat t) (of_nat k)" using assms by (rule rw_valid_nat)
  moreover have "nat (rw_index (of_nat t) (of_nat k)) = t * NET_MAXPLAYERS + k"
    using assms by (simp add: rw_index_def sint_nat net_consts)
  ultimately show ?thesis by (simp add: rw_get_def tic_entry_def)
qed

lemma rw_get_word:
  assumes "unat a < BACKUPTICS" "k < NET_MAXPLAYERS"
  shows "rw_get s a (of_nat k) = Inr (tic_entry s (unat a) k)"
  using rw_get_entry [OF assms, of s] by simp

lemma should_advance_iff:
  "\<forall>k \<in> set ks. k < NET_MAXPLAYERS \<Longrightarrow> should_advance s ks =
     Inr (\<forall>k \<in> set ks. player_connected s (sv_players s ! k) \<longrightarrow> rc_active (tic_entry s 0 k))"
proof (induction ks)
  case (Cons k ks)
  have "rw_get s 0 (of_nat k) = Inr (tic_entry s 0 k)"
    using rw_get_word [of 0 k s] Cons.prems by (simp add: net_consts)
  then show ?case using Cons by auto
qed simp

lemma entry_advance_one:
  assumes "length (recvwindow s) = BACKUPTICS * NET_MAXPLAYERS" "t < BACKUPTICS" "k < NET_MAXPLAYERS"
  shows "tic_entry (advance_one s) t k = (if t + 1 < BACKUPTICS then tic_entry s (t + 1) k else zero_recv)"
  using assms by (auto simp: tic_entry_def advance_one_def nth_append net_consts ac_simps)

lemma player_connected_advance [simp]: "player_connected (advance_one s) p = player_connected s p"
  by (simp add: player_connected_def split: option.split)

definition advanced :: "server \<Rightarrow> nat \<Rightarrow> server \<Rightarrow> bool" where
  "advanced s n s' \<longleftrightarrow>
     unat (recvwindow_start s') = unat (recvwindow_start s) + n
   \<and> (\<forall>t < BACKUPTICS. \<forall>k < NET_MAXPLAYERS.
        tic_entry s' t k = (if t + n < BACKUPTICS then tic_entry s (t + n) k else zero_recv))
   \<and> (\<forall>t < n. \<forall>k < NET_MAXPLAYERS. player_connected s (sv_players s ! k) \<longrightarrow>
        t < BACKUPTICS \<and> rc_active (tic_entry s t k))"

lemma advanced_0: "advanced s 0 s" by (simp add: advanced_def)

lemma advanced_Suc:
  assumes "advanced (advance_one s) n s'" "length (recvwindow s) = BACKUPTICS * NET_MAXPLAYERS"
    and "unat (recvwindow_start s + 1) = Suc (unat (recvwindow_start s))"
    and "\<forall>k < NET_MAXPLAYERS. player_connected s (sv_players s ! k) \<longrightarrow> rc_active (tic_entry s 0 k)"
  shows "advanced s (Suc n) s'"
proof -
  have "t < BACKUPTICS \<and> rc_active (tic_entry s t k)"
    if "t < Suc n" "k < NET_MAXPLAYERS" "player_connected s (sv_players s ! k)" for t k
  proof (cases t)
    case 0
    then show ?thesis using that assms(4) by (simp add: net_consts)
  next
    case (Suc u)
    then have u: "u < BACKUPTICS" "rc_active (tic_entry (advance_one s) u k)"
      using assms(1) that by (auto simp: advanced_def)
    then show ?thesis using entry_advance_one [OF assms(2) u(1) that(2)] Suc
      by (auto simp: zero_recv_def split: if_splits)
  qed
  moreover have "tic_entry s' t k = (if t + Suc n < BACKUPTICS then tic_entry s (t + Suc n) k else zero_recv)"
    if "t < BACKUPTICS" "k < NET_MAXPLAYERS" for t k
    using assms(1) that entry_advance_one [OF assms(2) _ that(2), of "t + n"]
    by (auto simp: advanced_def)
  ultimately show ?thesis using assms(1,3) by (simp add: advanced_def)
qed

lemma advance_to_spec:
  "sv_ok s \<Longrightarrow> \<exists>s' n. advance_to low s = Inr s' \<and> advanced s n s'
     \<and> (n = 0 \<or> recvwindow_start s' \<le> low) \<and> clients s' = clients s \<and> sv_players s' = sv_players s
     \<and> (low \<le> recvwindow_start s' \<or> (\<exists>k < NET_MAXPLAYERS.
          player_connected s (sv_players s ! k) \<and> \<not> rc_active (tic_entry s' 0 k)))"
proof (induction low s rule: advance_to.induct)
  case (1 low s)
  let ?all = "\<forall>k < NET_MAXPLAYERS. player_connected s (sv_players s ! k) \<longrightarrow> rc_active (tic_entry s 0 k)"
  have b: "should_advance s [0..<NET_MAXPLAYERS] = Inr ?all"
    using should_advance_iff [of "[0..<NET_MAXPLAYERS]" s] by auto
  show ?case
  proof (cases "recvwindow_start s < low \<and> ?all")
    case True
    then have ok: "sv_ok (advance_one s)" by (intro advance_one_ok [OF "1.prems", of low]) simp
    obtain s' n where s': "advance_to low (advance_one s) = Inr s'" "advanced (advance_one s) n s'"
      "n = 0 \<or> recvwindow_start s' \<le> low" "clients s' = clients s" "sv_players s' = sv_players s"
      "low \<le> recvwindow_start s' \<or> (\<exists>k < NET_MAXPLAYERS.
          player_connected s (sv_players s ! k) \<and> \<not> rc_active (tic_entry s' 0 k))"
      using "1.IH" [OF _ b] True ok by auto
    have lt: "unat (recvwindow_start s) < unat low" using True by (simp add: word_less_nat_alt)
    then have st: "unat (recvwindow_start s + 1) = Suc (unat (recvwindow_start s))"
      using unat_bound [of low] by (intro unat_plus_1) simp
    have ad: "advanced s (Suc n) s'"
      using "1.prems" True by (intro advanced_Suc [OF s'(2) _ st]) (simp_all add: sv_ok_def)
    have "recvwindow_start s' \<le> low"
      using s'(2,3) st lt by (auto simp: advanced_def word_le_nat_alt)
    then show ?thesis using s' ad True b advance_to.simps [of low s] by auto
  next
    case False
    then have "advance_to low s = Inr s" using b advance_to.simps [of low s] by auto
    then show ?thesis using False advanced_0 by (auto simp: not_less)
  qed
qed

subsection \<open>The controller\<close>

definition older :: "server \<Rightarrow> nat \<Rightarrow> nat \<Rightarrow> bool" where
  "older s i j \<longleftrightarrow> cl_connect_time (client s i) < cl_connect_time (client s j)
     \<or> cl_connect_time (client s i) = cl_connect_time (client s j) \<and> i \<le> j"

lemma older_order: "older s i i" "older s i j \<Longrightarrow> older s j k \<Longrightarrow> older s i k"
  "older s i j \<Longrightarrow> older s j i \<Longrightarrow> i = j"
  by (auto simp: older_def)

lemma find_controller_spec:
  assumes "sorted_wrt (<) is" "\<forall>b. best = Some b \<longrightarrow> playing (client s b) \<and> (\<forall>i \<in> set is. b < i)"
  shows "case find_controller s is best of
      None \<Rightarrow> best = None \<and> (\<forall>i \<in> set is. \<not> playing (client s i))
    | Some r \<Rightarrow> (best = Some r \<or> r \<in> set is) \<and> playing (client s r)
        \<and> (\<forall>j. best = Some j \<or> j \<in> set is \<and> playing (client s j) \<longrightarrow> older s r j)"
  using assms
proof (induction "is" arbitrary: best)
  case Nil
  then show ?case by (auto simp: older_order split: option.split)
next
  case (Cons i "is")
  show ?case
  proof (cases "playing (client s i)")
    case False
    then have e: "find_controller s (i # is) best = find_controller s is best" by (simp add: playing_def)
    have "case find_controller s is best of
      None \<Rightarrow> best = None \<and> (\<forall>i \<in> set is. \<not> playing (client s i))
    | Some r \<Rightarrow> (best = Some r \<or> r \<in> set is) \<and> playing (client s r)
        \<and> (\<forall>j. best = Some j \<or> j \<in> set is \<and> playing (client s j) \<longrightarrow> older s r j)"
      using Cons.prems by (intro Cons.IH) auto
    then show ?thesis unfolding e using False by (cases "find_controller s is best") auto
  next
    case True
    define b where "b = (case best of None \<Rightarrow> i
      | Some b \<Rightarrow> if cl_connect_time (client s i) < cl_connect_time (client s b) then i else b)"
    have e: "find_controller s (i # is) best = find_controller s is (Some b)"
      using True by (auto simp: playing_def b_def split: option.split)
    have b: "playing (client s b)" "\<forall>j \<in> set is. b < j" "b = i \<or> best = Some b"
      "older s b i" "\<forall>j. best = Some j \<longrightarrow> older s b j"
      using Cons.prems True by (auto simp: b_def older_def not_less split: option.split)
    have ih: "case find_controller s is (Some b) of
      None \<Rightarrow> Some b = None \<and> (\<forall>i \<in> set is. \<not> playing (client s i))
    | Some r \<Rightarrow> (Some b = Some r \<or> r \<in> set is) \<and> playing (client s r)
        \<and> (\<forall>j. Some b = Some j \<or> j \<in> set is \<and> playing (client s j) \<longrightarrow> older s r j)"
      using Cons.prems b by (intro Cons.IH) auto
    then obtain r where r: "find_controller s is (Some b) = Some r" by (auto split: option.splits)
    with ih have ro: "r = b \<or> r \<in> set is" "playing (client s r)" "older s r b"
      "\<forall>j \<in> set is. playing (client s j) \<longrightarrow> older s r j" by auto
    have "best = Some r \<or> r \<in> set (i # is)" using ro(1) b(3) by auto
    moreover have "older s r j" if "best = Some j \<or> j \<in> set (i # is) \<and> playing (client s j)" for j
    proof (cases "j \<in> set is \<and> playing (client s j)")
      case True
      then show ?thesis using ro(4) by simp
    next
      case False
      then have "older s b j" using that b(4,5) by auto
      with ro(3) show ?thesis by (rule older_order(2))
    qed
    ultimately show ?thesis unfolding e r using ro(2) by simp
  qed
qed

lemma Controller_spec:
  "NET_SV_Controller s = Some i \<longleftrightarrow> i < MAXNETNODES \<and> playing (client s i)
     \<and> (\<forall>j < MAXNETNODES. playing (client s j) \<longrightarrow> older s i j)"
proof -
  have sp: "case NET_SV_Controller s of
      None \<Rightarrow> (\<forall>i < MAXNETNODES. \<not> playing (client s i))
    | Some r \<Rightarrow> r < MAXNETNODES \<and> playing (client s r)
        \<and> (\<forall>j < MAXNETNODES. playing (client s j) \<longrightarrow> older s r j)"
    using find_controller_spec [of "[0..<MAXNETNODES]" None s] unfolding NET_SV_Controller_def
    by (auto split: option.splits)
  show ?thesis
  proof
    assume "NET_SV_Controller s = Some i"
    then show "i < MAXNETNODES \<and> playing (client s i)
     \<and> (\<forall>j < MAXNETNODES. playing (client s j) \<longrightarrow> older s i j)" using sp by simp
  next
    assume i: "i < MAXNETNODES \<and> playing (client s i)
     \<and> (\<forall>j < MAXNETNODES. playing (client s j) \<longrightarrow> older s i j)"
    with sp obtain r where r: "NET_SV_Controller s = Some r" "r < MAXNETNODES" "playing (client s r)"
      "older s r i" by (auto split: option.splits)
    with i have "i = r" using older_order(3) by blast
    with r show "NET_SV_Controller s = Some i" by simp
  qed
qed

subsection \<open>What is put into the send queue\<close>

definition takes_from :: "server \<Rightarrow> nat \<Rightarrow> nat \<Rightarrow> nat \<Rightarrow> bool" where
  "takes_from s i n k \<longleftrightarrow> sv_players s ! k \<noteq> Some i \<and> sv_players s ! k \<noteq> None \<and> rc_active (tic_entry s n k)"

lemma pump_cmd_spec:
  assumes "unat r < BACKUPTICS"
  shows "\<forall>k \<in> set ks. k < NET_MAXPLAYERS \<Longrightarrow> distinct ks \<Longrightarrow> full_cmd_ok cmd \<Longrightarrow>
    \<exists>cmd'. pump_cmd s i r ks cmd = Inr cmd' \<and> full_cmd_ok cmd' \<and> fc_seq cmd' = fc_seq cmd
      \<and> (\<forall>k < NET_MAXPLAYERS. fc_playeringame cmd' ! k =
           (if k \<in> set ks then takes_from s i (unat r) k else fc_playeringame cmd ! k))
      \<and> (\<forall>k < NET_MAXPLAYERS. fc_cmds cmd' ! k =
           (if k \<in> set ks \<and> takes_from s i (unat r) k then rc_diff (tic_entry s (unat r) k)
            else fc_cmds cmd ! k))"
proof (induction ks arbitrary: cmd)
  case Nil
  then show ?case by simp
next
  case (Cons k ks)
  have k: "k < NET_MAXPLAYERS" "k \<notin> set ks" using Cons.prems by auto
  have g: "rw_get s r (of_nat k) = Inr (tic_entry s (unat r) k)" by (rule rw_get_word [OF assms k(1)])
  let ?t = "takes_from s i (unat r) k"
  define c where "c = (if ?t then cmd\<lparr>fc_playeringame := (fc_playeringame cmd)[k := True],
               fc_cmds := (fc_cmds cmd)[k := rc_diff (tic_entry s (unat r) k)],
               fc_latency := (if fc_latency cmd <s rc_latency (tic_entry s (unat r) k)
                  then rc_latency (tic_entry s (unat r) k) else fc_latency cmd)\<rparr>
      else cmd\<lparr>fc_playeringame := (fc_playeringame cmd)[k := False]\<rparr>)"
  have e: "pump_cmd s i r (k # ks) cmd = pump_cmd s i r ks c"
    using g by (auto simp: c_def takes_from_def)
  have c: "full_cmd_ok c" "fc_seq c = fc_seq cmd"
    using Cons.prems by (auto simp: c_def full_cmd_ok_def)
  have cp: "fc_playeringame c ! j = (if j = k then ?t else fc_playeringame cmd ! j)"
    "fc_cmds c ! j = (if j = k \<and> ?t then rc_diff (tic_entry s (unat r) k) else fc_cmds cmd ! j)"
    if "j < NET_MAXPLAYERS" for j
    using that k Cons.prems(3) by (auto simp: c_def full_cmd_ok_def nth_list_update)
  obtain cmd' where cmd': "pump_cmd s i r ks c = Inr cmd'" "full_cmd_ok cmd'" "fc_seq cmd' = fc_seq c"
    "\<forall>j < NET_MAXPLAYERS. fc_playeringame cmd' ! j =
       (if j \<in> set ks then takes_from s i (unat r) j else fc_playeringame c ! j)"
    "\<forall>j < NET_MAXPLAYERS. fc_cmds cmd' ! j =
       (if j \<in> set ks \<and> takes_from s i (unat r) j then rc_diff (tic_entry s (unat r) j) else fc_cmds c ! j)"
    using Cons.IH [of c] Cons.prems c by auto
  show ?case using cmd' cp c(2) k(2) unfolding e by auto
qed

lemma pump_players_spec:
  assumes "unat r < BACKUPTICS" "pump_players s i r ks n = Inr (Some m)" "\<forall>k \<in> set ks. k < NET_MAXPLAYERS"
  shows "\<forall>k \<in> set ks. sv_players s ! k \<noteq> Some i \<longrightarrow> player_connected s (sv_players s ! k)
    \<longrightarrow> rc_active (tic_entry s (unat r) k)"
  using assms(2,3)
proof (induction ks arbitrary: n)
  case (Cons k ks)
  have "rw_get s r (of_nat k) = Inr (tic_entry s (unat r) k)" using Cons.prems by (intro rw_get_word [OF assms(1)]) simp
  then show ?case using Cons by (auto split: if_splits)
qed simp

lemma SendTics_queue:
  "NET_SV_SendTics e i a b s = Inr s' \<Longrightarrow> cl_sendqueue (client s' i) = cl_sendqueue (client s i)"
  by (erule SendTics_form) (simp add: on_connection_client)

lemma pump_tic_spec:
  assumes "sv_ok s" "i < MAXNETNODES" "env_ok e" "unat r < BACKUPTICS" "pump_tic e i r s = Inr s'"
  defines "seq \<equiv> cl_sendseq (client s i)" and "c \<equiv> queue_slot (client s' i) (cl_sendseq (client s i))"
  shows "cl_sendseq (client s' i) = seq + 1" "fc_seq c = seq"
    "\<forall>k < NET_MAXPLAYERS. fc_playeringame c ! k = takes_from s i (unat r) k"
    "\<forall>k < NET_MAXPLAYERS. takes_from s i (unat r) k \<longrightarrow> fc_cmds c ! k = rc_diff (tic_entry s (unat r) k)"
proof -
  have i: "i < length (clients s)" using assms by (simp add: ok_lengths)
  let ?c0 = "(e_junk_cmd e)\<lparr>fc_seq := seq, fc_latency := 0\<rparr>"
  have "full_cmd_ok ?c0" using assms(3) by (simp add: env_ok_def full_cmd_ok_def)
  from pump_cmd_spec [OF assms(4) _ _ this, of "[0..<NET_MAXPLAYERS]" s i] obtain cmd where
    cmd: "pump_cmd s i r [0..<NET_MAXPLAYERS] ?c0 = Inr cmd" "fc_seq cmd = seq"
    "\<forall>k < NET_MAXPLAYERS. fc_playeringame cmd ! k = takes_from s i (unat r) k"
    "\<forall>k < NET_MAXPLAYERS. takes_from s i (unat r) k \<longrightarrow> fc_cmds cmd ! k = rc_diff (tic_entry s (unat r) k)"
    by auto
  obtain slot a b t where slot: "sendqueue_index seq = Inr slot" and
    t: "NET_SV_SendTics e i a b (upd_client i (\<lambda>cl. cl\<lparr>cl_sendqueue := (cl_sendqueue cl)[slot := cmd]\<rparr>) s) = Inr t"
      "s' = upd_client i (\<lambda>cl. cl\<lparr>cl_sendseq := seq + 1\<rparr>) t"
    using assms(5) cmd(1) unfolding pump_tic_def Let_def bindR_eq_Inr seq_def [symmetric] by auto
  have sl: "slot = unat seq mod BACKUPTICS" using slot by (auto simp: sendqueue_index_def split: if_splits)
  have lt: "i < length (clients t)" using calm_length [OF calm_SendTics [OF t(1)]] i by (simp add: upd_client_def)
  have q: "cl_sendqueue (client s' i) = (cl_sendqueue (client s i))[slot := cmd]"
    using SendTics_queue [OF t(1)] i lt unfolding t(2) by (simp add: client_upd)
  show "cl_sendseq (client s' i) = seq + 1" using lt unfolding t(2) by (simp add: client_upd)
  have "length (cl_sendqueue (client s i)) = BACKUPTICS" using ok_client [OF assms(1,2)] by (simp add: client_ok_def)
  then have "c = cmd" unfolding c_def queue_slot_def q sl seq_def by (simp add: net_consts)
  then show "fc_seq c = seq" "\<forall>k < NET_MAXPLAYERS. fc_playeringame c ! k = takes_from s i (unat r) k"
    "\<forall>k < NET_MAXPLAYERS. takes_from s i (unat r) k \<longrightarrow> fc_cmds c ! k = rc_diff (tic_entry s (unat r) k)"
    using cmd by simp_all
qed

end
