(* ===== verification/Net_Server_Samples.thy ===== *)
theory Net_Server_Samples
  imports Net_Server_Spec
begin

text \<open>
  Concrete states of the server on which the properties are applied: the zeroed static variables, a
  lobby with two players, and a game of the two.
\<close>

subsection \<open>Sample states\<close>

text \<open>The static variables of the server before \<open>NET_SV_Init\<close>: all bytes are zero.\<close>

definition blank_conn :: net_connection where
  "blank_conn = \<lparr>cn_state = NET_CONN_STATE_CONNECTING, cn_disconnect_reason = NET_DISCONNECT_LOCAL,
     cn_addr = 0, cn_protocol = NET_PROTOCOL_CHOCOLATE_DOOM_0, cn_last_send_time = 0, cn_num_retries = 0,
     cn_keepalive_send_time = 0, cn_keepalive_recv_time = 0, cn_reliable_packets = [],
     cn_reliable_send_seq = 0, cn_reliable_recv_seq = 0\<rparr>"

definition blank_cmd :: net_full_ticcmd where
  "blank_cmd = \<lparr>fc_latency = 0, fc_seq = 0, fc_playeringame = replicate NET_MAXPLAYERS False,
     fc_cmds = replicate NET_MAXPLAYERS \<lparr>td_diff = 0, td_cmd = zero_ticcmd\<rparr>\<rparr>"

definition blank_client :: net_client where
  "blank_client = \<lparr>cl_active = False, cl_player_number = 0, cl_addr = 0, cl_connection = blank_conn,
     cl_last_send_time = 0, cl_name = None, cl_ready = False, cl_connect_time = 0,
     cl_last_gamedata_time = 0, cl_recording_lowres = False, cl_sendseq = 0,
     cl_sendqueue = replicate BACKUPTICS blank_cmd, cl_acknowledged = 0, cl_max_players = 0,
     cl_drone = False, cl_wad_sha1sum = replicate 20 0, cl_deh_sha1sum = replicate 20 0,
     cl_is_freedoom = 0, cl_player_class = 0\<rparr>"

definition blank_settings :: net_gamesettings where
  "blank_settings = \<lparr>gs_ticdup = 0, gs_extratics = 0, gs_deathmatch = 0, gs_episode = 0,
     gs_nomonsters = 0, gs_fast_monsters = 0, gs_respawn_monsters = 0, gs_map = 0, gs_skill = 0,
     gs_gameversion = 0, gs_lowres_turn = 0, gs_new_sync = 0, gs_timelimit = 0, gs_loadgame = 0,
     gs_random = 0, gs_num_players = 0, gs_consoleplayer = 0,
     gs_player_classes = replicate NET_MAXPLAYERS 0\<rparr>"

definition blank_server :: server where
  "blank_server = \<lparr>server_state = SERVER_WAITING_LAUNCH, server_initialized = False,
     clients = replicate MAXNETNODES blank_client, sv_players = replicate NET_MAXPLAYERS None,
     sv_gamemode = 0, sv_gamemission = 0, sv_settings = blank_settings, master_server = None,
     master_refresh_time = 0, master_resolve_time = 0, recvwindow_start = 0,
     recvwindow = replicate (BACKUPTICS * NET_MAXPLAYERS) zero_recv,
     registered_with_master = False, got_master_response = False, sv_out = [], sv_refs = (\<lambda>_. 0)\<rparr>"

definition blank_env :: env where
  "blank_env = \<lparr>e_now = 5000, e_addr_to_string = (\<lambda>_. cstr ''host''), e_resolve = [\<lambda>_. Some 99],
     e_servername = None, e_privateserver = True, e_junk_diff = \<lparr>td_diff = 0, td_cmd = zero_ticcmd\<rparr>,
     e_junk_cmd = blank_cmd, e_junk_settings = blank_settings,
     e_junk_wait = \<lparr>wd_num_players = 0, wd_num_drones = 0, wd_ready_players = 0, wd_max_players = 0,
       wd_is_controller = 0, wd_consoleplayer = 0, wd_player_names = replicate NET_MAXPLAYERS [],
       wd_player_addrs = replicate NET_MAXPLAYERS [], wd_wad_sha1sum = [], wd_deh_sha1sum = [],
       wd_is_freedoom = 0\<rparr>\<rparr>"

text \<open>A client that connected from address \<open>a\<close> at time \<open>t\<close>.\<close>

definition joined :: "net_addr \<Rightarrow> u32 \<Rightarrow> net_client" where
  "joined a t = blank_client\<lparr>cl_active := True, cl_addr := a, cl_connect_time := t,
     cl_name := Some (cstr ''player''), cl_max_players := 8,
     cl_connection := blank_conn\<lparr>cn_state := NET_CONN_STATE_CONNECTED, cn_addr := a\<rparr>\<rparr>"

definition lobby :: server where
  "lobby = blank_server\<lparr>server_initialized := True,
     clients := [joined 11 300, joined 12 200] @ replicate 14 blank_client\<rparr>"

definition in_game :: server where
  "in_game = lobby\<lparr>server_state := SERVER_IN_GAME, sv_players := [Some 0, Some 1] @ replicate 6 None,
     clients := [joined 11 300, (joined 12 200)\<lparr>cl_player_number := 1\<rparr>] @ replicate 14 blank_client\<rparr>"

lemma env_blank: "env_ok blank_env"
  by (simp add: env_ok_def blank_env_def blank_settings_def full_cmd_ok_def blank_cmd_def)

lemma blank_client_ok: "client_ok blank_client" "client_ok (joined a t)"
  "client_ok ((joined a t)\<lparr>cl_player_number := n\<rparr>)"
  by (simp_all add: client_ok_def blank_client_def joined_def holds_tics_def ClientConnected_def
      full_cmd_ok_def blank_cmd_def list_all_iff net_consts word_sle_eq)

lemma blank_playing: "\<not> playing blank_client" "playing (joined a t)"
  "playing ((joined a t)\<lparr>cl_player_number := n\<rparr>)" "\<not> ClientConnected blank_client"
  by (simp_all add: playing_def ClientConnected_def blank_client_def joined_def blank_conn_def)

lemma sample_seq: "cl_sendseq blank_client = 0" "cl_sendseq (joined a t) = 0"
  by (simp_all add: blank_client_def joined_def)

lemma sample_ok:
  assumes "length cs = MAXNETNODES" "list_all client_ok cs" "list_all (\<lambda>cl. cl_sendseq cl = 0) cs"
    "length (filter playing cs) \<le> NET_MAXPLAYERS" "st \<noteq> SERVER_IN_GAME"
  shows "sv_ok (blank_server\<lparr>server_initialized := b, clients := cs, server_state := st\<rparr>)"
proof -
  have "paced (blank_server\<lparr>server_initialized := b, clients := cs, server_state := st\<rparr>)"
    using assms by (simp add: paced_def in_step_def list_all_length)
  then show ?thesis using assms by (simp add: sv_ok_def blank_server_def blank_settings_def)
qed

lemma sixteen: "replicate MAXNETNODES x = x # x # replicate 14 x"
  by (simp add: MAXNETNODES_def numeral_eq_Suc)

lemma lobby_ok: "sv_ok lobby"
proof -
  have "sv_ok (blank_server\<lparr>server_initialized := True,
    clients := [joined 11 300, joined 12 200] @ replicate 14 blank_client, server_state := SERVER_WAITING_LAUNCH\<rparr>)"
    by (rule sample_ok) (simp_all add: blank_client_ok blank_playing sample_seq list_all_iff net_consts MAXNETNODES_def)
  then show ?thesis by (simp add: lobby_def blank_server_def)
qed

lemma in_game_client: "i < MAXNETNODES \<Longrightarrow> client in_game i =
    (if i = 0 then joined 11 300 else if i = 1 then (joined 12 200)\<lparr>cl_player_number := 1\<rparr> else blank_client)"
  by (auto simp: in_game_def nth_Cons MAXNETNODES_def split: nat.split)

lemma in_game_ok: "sv_ok in_game"
proof -
  have n: "numbered in_game i" if i: "i < MAXNETNODES" "playing (client in_game i)" for i
  proof -
    have "i = 0 \<or> i = 1" using i by (simp add: in_game_client blank_playing split: if_splits)
    moreover have "sv_players in_game ! 0 = Some 0" "sv_players in_game ! 1 = Some 1"
      by (simp_all add: in_game_def)
    moreover have "cl_player_number (client in_game 0) = of_nat 0" "cl_player_number (client in_game 1) = of_nat 1"
      by (simp_all add: in_game_client MAXNETNODES_def joined_def blank_client_def)
    ultimately show ?thesis unfolding numbered_def net_consts
      by (metis zero_less_numeral one_less_numeral_iff semiring_norm(76) One_nat_def)
  qed
  have "no_drone_plays in_game"
    by (simp add: no_drone_plays_def in_game_def joined_def blank_client_def)
  moreover have "paced in_game"
    by (simp add: paced_def in_step_def in_game_client sample_seq)
  moreover have "length (filter playing (clients in_game)) \<le> NET_MAXPLAYERS"
    by (simp add: in_game_def blank_playing net_consts)
  ultimately show ?thesis using n
    by (simp add: sv_ok_def in_game_def lobby_def blank_server_def blank_settings_def blank_client_ok
        list_all_iff net_consts MAXNETNODES_def)
qed

end
