(* ===== verification/Net_Server_Props.thy ===== *)
theory Net_Server_Props
  imports Net_Server_Samples
begin

text \<open>
  The properties of the game server, each applied to a concrete state as well.
\<close>

subsection \<open>Properties\<close>

lemma init_sound: "\<exists>s. NET_SV_Init blank_server = Inr s \<and> sv_ok s"
  by (rule Init_ok) (simp_all add: blank_server_def blank_settings_def list_all_iff blank_client_def
      full_cmd_ok_def blank_cmd_def)

text \<open>The server starts in a sound state: from zeroed static variables \<open>NET_SV_Init\<close> runs
  through and establishes the invariant \<open>sv_ok\<close>, waiting for a launch, with no client connected.\<close>

theorem server_starts_sound:
  "\<exists>s. NET_SV_Init blank_server = Inr s \<and> sv_ok s \<and> server_state s = SERVER_WAITING_LAUNCH
     \<and> server_initialized s \<and> NET_SV_NumPlayers s = 0"
proof -
  obtain s where s: "NET_SV_Init blank_server = Inr s" "sv_ok s" using init_sound by blast
  then obtain t n where t: "assign_players [0..<MAXNETNODES] 0 (blank_server\<lparr>clients := map (\<lambda>cl. cl\<lparr>cl_active := False\<rparr>)
      (clients blank_server)\<rparr>) = Inr (n, t)"
    and s': "s = (t\<lparr>sv_players := take n (sv_players t) @ replicate (NET_MAXPLAYERS - n) None\<rparr>)
       \<lparr>server_state := SERVER_WAITING_LAUNCH, sv_gamemode := indetermined, server_initialized := True\<rparr>"
    by (auto simp: NET_SV_Init_def NET_SV_AssignPlayers_def bindR_eq_Inr)
  have nobody: "assign_players xs 0 u = Inr (0, u)"
    if "\<forall>i \<in> set xs. \<not> ClientConnected (client u i)" for xs u
    using that by (induction xs) auto
  have "n = 0" using t by (subst (asm) nobody)
      (auto simp: blank_server_def blank_client_def ClientConnected_def)
  then have "NET_SV_NumPlayers s = 0"
    by (simp add: s' NET_SV_NumPlayers_def player_connected_def filter_empty_conv)
  then show ?thesis using s by (simp add: s')
qed

text \<open>C4: Whatever a packet contains and whoever sends it, the server keeps its invariant, unless the
  C code has already run into one of the two faults below.\<close>

theorem server_packet_invariant:
  assumes "sv_ok s" "env_ok e" "NET_SV_Packet e p addr s = Inr s'"
  shows "sv_ok s'"
  by (rule Packet_cases [OF assms(1,2), of p addr]) (use assms(3) in simp_all)

theorem server_packet_invariant_witness:
  "\<exists>s'. NET_SV_Packet blank_env \<lparr>pdata = [0, 13], palloced = 2, ppos = 0\<rparr> 11 lobby = Inr s' \<and> sv_ok s'"
proof -
  have r: "NET_ReadInt16 \<lparr>pdata = [0, 13], palloced = 2, ppos = 0\<rparr> = Some (13, \<lparr>pdata = [0, 13], palloced = 2, ppos = 2\<rparr>)"
    by code_simp
  have m: "master_server lobby \<noteq> Some 11" by (simp add: lobby_def blank_server_def)
  obtain s' where "NET_SV_SendQueryResponse blank_env 11 lobby = Inr s'" using SendQueryResponse_calm by blast
  then have "NET_SV_Packet blank_env \<lparr>pdata = [0, 13], palloced = 2, ppos = 0\<rparr> 11 lobby = Inr s'"
    using r m by (simp add: NET_SV_Packet_def packet_types)
  then show ?thesis using server_packet_invariant [OF lobby_ok env_blank] by blast
qed

text \<open>C3: A packet makes the server run into undefined behaviour in two cases only: the controlling
  client announces more players in its game settings than \<open>player_classes\<close> holds, or game data
  comes from a client that is no longer connected (its player number is stale then).\<close>

theorem server_packet_faults:
  assumes "sv_ok s" "env_ok e" "NET_SV_Packet e p addr s = Inl f"
  shows "\<exists>i ty q. NET_SV_FindClient addr s = Some i \<and> NET_ReadInt16 p = Some (ty, q)
    \<and> (let r = NET_Conn_Packet (e_now e) (cl_connection (client s i)) q ty;
            t = on_connection i (\<lambda>_. (cr_conn r, cr_out r)) s
        in \<not> cr_eaten r
         \<and> (cr_type r = NET_PACKET_TYPE_GAMESTART \<and> server_state t = SERVER_WAITING_START
               \<and> NET_SV_Controller t = Some i \<and> NET_ReadSettings (cr_packet r) (e_junk_settings e) = Inl f
           \<or> cr_type r = NET_PACKET_TYPE_GAMEDATA \<and> server_state t = SERVER_IN_GAME
               \<and> \<not> cl_drone (client t i) \<and> \<not> ClientConnected (client t i)))"
proof (rule Packet_cases [OF assms(1,2), of p addr])
  fix g assume g: "NET_SV_Packet e p addr s = Inl g" "packet_fault e p addr s g"
  then have "g = f" using assms(3) by simp
  with g(2) show ?thesis unfolding packet_fault_def client_fault_def Let_def by blast
qed (use assms(3) in simp)

definition stale :: server where
  "stale = in_game\<lparr>clients := [joined 11 300, (joined 12 200)\<lparr>cl_player_number := - 1,
     cl_connection := blank_conn\<lparr>cn_state := NET_CONN_STATE_DISCONNECTED_SLEEP\<rparr>\<rparr>] @ replicate 14 blank_client\<rparr>"

lemma stale_client: "i < MAXNETNODES \<Longrightarrow> client stale i =
    (if i = 0 then joined 11 300 else if i = 1 then (joined 12 200)\<lparr>cl_player_number := - 1,
     cl_connection := blank_conn\<lparr>cn_state := NET_CONN_STATE_DISCONNECTED_SLEEP\<rparr>\<rparr> else blank_client)"
  by (auto simp: stale_def nth_Cons MAXNETNODES_def split: nat.split)

lemma stale_ok: "sv_ok stale"
proof -
  have k: "client_ok ((joined 12 200)\<lparr>cl_player_number := - 1,
      cl_connection := blank_conn\<lparr>cn_state := NET_CONN_STATE_DISCONNECTED_SLEEP\<rparr>\<rparr>)"
    using blank_client_ok(2) [of 12 200]
    by (simp add: client_ok_def ClientConnected_def holds_tics_def queue_slot_def joined_def)
  have np: "\<not> playing ((joined 12 200)\<lparr>cl_player_number := - 1,
      cl_connection := blank_conn\<lparr>cn_state := NET_CONN_STATE_DISCONNECTED_SLEEP\<rparr>\<rparr>)"
    by (simp add: playing_def ClientConnected_def)
  have "numbered stale i" if i: "i < MAXNETNODES" "playing (client stale i)" for i
  proof -
    have "i = 0" using i np by (simp add: stale_client blank_playing split: if_splits)
    moreover have "sv_players stale ! 0 = Some 0" by (simp add: stale_def in_game_def)
    moreover have "cl_player_number (client stale 0) = of_nat 0"
      by (simp add: stale_client MAXNETNODES_def joined_def blank_client_def)
    ultimately show ?thesis unfolding numbered_def net_consts by (metis zero_less_numeral)
  qed
  moreover have "no_drone_plays stale"
    by (simp add: no_drone_plays_def stale_def in_game_def joined_def blank_client_def)
  moreover have "paced stale" by (simp add: paced_def in_step_def stale_client sample_seq joined_def)
  moreover have "length (filter playing (clients stale)) \<le> NET_MAXPLAYERS"
    by (simp add: stale_def blank_playing np net_consts)
  ultimately show ?thesis
    by (simp add: sv_ok_def stale_def in_game_def lobby_def blank_server_def blank_settings_def
        blank_client_ok k list_all_iff net_consts MAXNETNODES_def)
qed

lemma stale_fault: "NET_SV_Packet blank_env \<lparr>pdata = [0, 6, 0, 0, 1, 0, 0, 0], palloced = 8, ppos = 0\<rparr> 12 stale
    = Inl OutOfBounds"
proof -
  have "case NET_SV_Packet blank_env \<lparr>pdata = [0, 6, 0, 0, 1, 0, 0, 0], palloced = 8, ppos = 0\<rparr> 12 stale of
      Inl f \<Rightarrow> f = OutOfBounds | Inr _ \<Rightarrow> False"
    by code_simp
  then show ?thesis by (simp split: sum.splits)
qed

theorem server_packet_faults_witness:
  "\<exists>i ty q. NET_SV_FindClient 12 stale = Some i \<and> NET_ReadInt16 \<lparr>pdata = [0, 6, 0, 0, 1, 0, 0, 0], palloced = 8, ppos = 0\<rparr> = Some (ty, q)
    \<and> (let r = NET_Conn_Packet (e_now blank_env) (cl_connection (client stale i)) q ty;
            t = on_connection i (\<lambda>_. (cr_conn r, cr_out r)) stale
        in \<not> cr_eaten r
         \<and> (cr_type r = NET_PACKET_TYPE_GAMESTART \<and> server_state t = SERVER_WAITING_START
               \<and> NET_SV_Controller t = Some i \<and> NET_ReadSettings (cr_packet r) (e_junk_settings blank_env) = Inl OutOfBounds
           \<or> cr_type r = NET_PACKET_TYPE_GAMEDATA \<and> server_state t = SERVER_IN_GAME
               \<and> \<not> cl_drone (client t i) \<and> \<not> ClientConnected (client t i)))"
  using server_packet_faults [OF stale_ok env_blank stale_fault] .








text \<open>The controller, whose settings and launch the server obeys, is the player that has been
  connected longest, the one in the lower slot if two connected in the same millisecond; drones are
  never chosen.\<close>

theorem controller_is_oldest:
  "NET_SV_Controller s = Some i \<longleftrightarrow> i < MAXNETNODES \<and> playing (client s i)
     \<and> (\<forall>j < MAXNETNODES. playing (client s j) \<longrightarrow>
          cl_connect_time (client s i) < cl_connect_time (client s j)
          \<or> cl_connect_time (client s i) = cl_connect_time (client s j) \<and> i \<le> j)"
  unfolding Controller_spec older_def ..

theorem controller_is_oldest_witness: "NET_SV_Controller lobby = Some 1"
proof -
  have c: "client lobby j = (if j = 0 then joined 11 300 else if j = 1 then joined 12 200 else blank_client)"
    if "j < MAXNETNODES" for j
    using that by (auto simp: lobby_def nth_Cons MAXNETNODES_def split: nat.split)
  have m: "1 < MAXNETNODES" by (simp add: MAXNETNODES_def)
  have "client lobby 1 = joined 12 200" using c [OF m] by simp
  then show ?thesis unfolding controller_is_oldest
    using m by (auto simp: c blank_playing split: if_splits) (simp_all add: joined_def)
qed

text \<open>\<open>NET_SV_AssignPlayers\<close> never writes outside \<open>sv_players\<close>: it fills it with the connected
  clients that are no drones, in slot order, and gives each its position there as its number.\<close>

theorem players_are_numbered:
  assumes "sv_ok s"
  shows "\<exists>s'. NET_SV_AssignPlayers s = Inr s'
    \<and> (let ps = filter (\<lambda>i. playing (client s i)) [0..<MAXNETNODES]
       in sv_players s' = map Some ps @ replicate (NET_MAXPLAYERS - length ps) None
        \<and> length ps \<le> NET_MAXPLAYERS
        \<and> (\<forall>k < length ps. cl_player_number (client s' (ps ! k)) = of_nat k)
        \<and> (\<forall>i < MAXNETNODES. ClientConnected (client s i) \<and> cl_drone (client s i)
             \<longrightarrow> cl_player_number (client s' i) = - 1))"
proof -
  have ps: "filter (\<lambda>i. playing (client s i)) [0..<MAXNETNODES] = players s"
    by (simp add: players_def players_in_def)
  have "cl_player_number (client (assigned s) (players s ! k)) = of_nat k" if k: "k < length (players s)" for k
  proof -
    have m: "players s ! k < MAXNETNODES" "playing (client s (players s ! k))"
      using k players_props(2) nth_mem by blast+
    have "players s ! length (players_in s [0..<players s ! k]) = players s ! k"
      "length (players_in s [0..<players s ! k]) < length (players s)"
      using players_nth [OF m] by simp_all
    then have "length (players_in s [0..<players s ! k]) = k"
      using k players_props(1) nth_eq_iff_index_eq by blast
    then show ?thesis using assigned_client [OF ok_lengths(1) [OF assms] m(1)] m(2) by simp
  qed
  moreover have "cl_player_number (client (assigned s) i) = - 1"
    if "i < MAXNETNODES" "ClientConnected (client s i) \<and> cl_drone (client s i)" for i
    using that assigned_client [OF ok_lengths(1) [OF assms] that(1)] by (simp add: playing_def)
  ultimately show ?thesis
    using AssignPlayers_ok [OF assms] ok_players [OF assms]
    by (simp add: ps Let_def assigned_sv_players)
qed

text \<open>C6: The receive window moves on exactly as far as it may: \<open>NET_SV_AdvanceWindow\<close> drops a prefix
  of \<open>n\<close> tics, each complete for every connected player, shifts the others down, clears the rest,
  never passes the tic that all clients have acknowledged, and stops only there or at an
  incomplete tic.\<close>

theorem window_advances:
  assumes "sv_ok s" "NET_SV_NumPlayers s \<noteq> 0"
  shows "\<exists>s' n. NET_SV_AdvanceWindow s = Inr s'
    \<and> unat (recvwindow_start s') = unat (recvwindow_start s) + n
    \<and> (\<forall>t < BACKUPTICS. \<forall>k < NET_MAXPLAYERS.
         tic_entry s' t k = (if t + n < BACKUPTICS then tic_entry s (t + n) k else zero_recv))
    \<and> (\<forall>t < n. \<forall>k < NET_MAXPLAYERS. player_connected s (sv_players s ! k) \<longrightarrow>
         t < BACKUPTICS \<and> rc_active (tic_entry s t k))
    \<and> (n = 0 \<or> recvwindow_start s' \<le> NET_SV_LatestAcknowledged s)
    \<and> (NET_SV_LatestAcknowledged s \<le> recvwindow_start s' \<or> (\<exists>k < NET_MAXPLAYERS.
         player_connected s (sv_players s ! k) \<and> \<not> rc_active (tic_entry s' 0 k)))"
  using advance_to_spec [OF assms(1), of "NET_SV_LatestAcknowledged s"] assms(2)
  by (fastforce simp: NET_SV_AdvanceWindow_def advanced_def)

theorem window_advances_witness:
  "\<exists>s' n. NET_SV_AdvanceWindow in_game = Inr s'
    \<and> unat (recvwindow_start s') = unat (recvwindow_start in_game) + n"
proof -
  have "NET_SV_NumPlayers in_game \<noteq> 0"
    by (simp add: NET_SV_NumPlayers_def in_game_def player_connected_def joined_def ClientConnected_def)
  from window_advances [OF in_game_ok this] show ?thesis by blast
qed

text \<open>C5: A tic generated for a client holds, under the client's next sequence number, exactly the
  commands the window has of the other players for that tic, and it is generated only when every
  other connected player's command is there.\<close>

theorem pumped_tic:
  assumes "sv_ok s" "i < MAXNETNODES" "env_ok e" "NET_SV_PumpSendQueue e i s = Inr s'" "s' \<noteq> s"
  shows "let seq = cl_sendseq (client s i); n = unat (seq - recvwindow_start s);
             c = cl_sendqueue (client s' i) ! (unat seq mod BACKUPTICS)
    in n < BACKUPTICS \<and> cl_sendseq (client s' i) = seq + 1 \<and> fc_seq c = seq
     \<and> (\<forall>k < NET_MAXPLAYERS. sv_players s ! k \<noteq> Some i \<longrightarrow> player_connected s (sv_players s ! k)
          \<longrightarrow> rc_active (tic_entry s n k))
     \<and> (\<forall>k < NET_MAXPLAYERS. fc_playeringame c ! k \<longleftrightarrow>
          sv_players s ! k \<noteq> Some i \<and> sv_players s ! k \<noteq> None \<and> rc_active (tic_entry s n k))
     \<and> (\<forall>k < NET_MAXPLAYERS. fc_playeringame c ! k \<longrightarrow> fc_cmds c ! k = rc_diff (tic_entry s n k))"
proof -
  let ?seq = "cl_sendseq (client s i)"
  let ?r = "?seq - recvwindow_start s"
  have nb: "\<not> (?r <s 0 \<or> of_nat BACKUPTICS \<le>s ?r)" and
    t: "pump_tic e i ?r s = Inr s'" "\<exists>m. pump_players s i ?r [0..<NET_MAXPLAYERS] 0 = Inr (Some m)"
    using assms(4,5) unfolding NET_SV_PumpSendQueue_def Let_def
    by (auto simp: bindR_eq_Inr split: if_splits option.splits)
  have n: "unat ?r < BACKUPTICS"
    using nb sle_nat_iff [of BACKUPTICS ?r] by (auto simp: sless_0_iff net_consts)
  have act: "\<forall>k < NET_MAXPLAYERS. sv_players s ! k \<noteq> Some i \<longrightarrow> player_connected s (sv_players s ! k)
          \<longrightarrow> rc_active (tic_entry s (unat ?r) k)"
    using t(2) pump_players_spec [OF n] by fastforce
  show ?thesis
    using n act pump_tic_spec [OF assms(1-3) n t(1)] unfolding Let_def queue_slot_def takes_from_def by blast
qed

definition pump_ready :: server where
  "pump_ready = in_game\<lparr>recvwindow := replicate (BACKUPTICS * NET_MAXPLAYERS)
     (zero_recv\<lparr>rc_active := True, rc_diff := \<lparr>td_diff = 1, td_cmd = zero_ticcmd\<lparr>forwardmove := 25\<rparr>\<rparr>\<rparr>)\<rparr>"

lemma pump_ready_ok: "sv_ok pump_ready"
proof -
  have "calm in_game pump_ready"
    by (simp add: calm_def pump_ready_def in_game_def lobby_def blank_server_def list.rel_refl)
  then show ?thesis using in_game_ok by (rule calm_ok)
qed

lemma pump_ready_facts:
  "pump_players pump_ready 0 0 [0..<NET_MAXPLAYERS] 0 = Inr (Some 1)"
  "NET_SV_LatestAcknowledged pump_ready = 0"
  by code_simp+

theorem pumped_tic_witness:
  "\<exists>s'. NET_SV_PumpSendQueue blank_env 0 pump_ready = Inr s' \<and> s' \<noteq> pump_ready
     \<and> fc_seq (cl_sendqueue (client s' 0) ! 0) = 0"
proof -
  have z: "cl_sendseq (client pump_ready 0) = 0" "ClientConnected (client pump_ready 0)"
      "recvwindow_start pump_ready = 0"
    by (simp_all add: pump_ready_def in_game_def lobby_def blank_server_def joined_def blank_client_def
        ClientConnected_def)
  have i: "0 < MAXNETNODES" "0 < BACKUPTICS" by (simp_all add: MAXNETNODES_def net_consts)
  have e: "NET_SV_PumpSendQueue blank_env 0 pump_ready = pump_tic blank_env 0 0 pump_ready"
    using z pump_ready_facts by (simp add: NET_SV_PumpSendQueue_def net_consts word_sle_eq)
  have "settings_sane pump_ready" "early pump_ready" "server_state pump_ready = SERVER_IN_GAME"
    by (simp_all add: settings_sane_def early_def pump_ready_def in_game_def lobby_def blank_server_def
        blank_settings_def net_consts)
  from PumpSendQueue_ok [OF pump_ready_ok i(1) env_blank this(1,2) z(2) this(3)]
  obtain s' where s': "NET_SV_PumpSendQueue blank_env 0 pump_ready = Inr s'" by blast
  have "cl_sendseq (client s' 0) = 1"
    using pump_tic_spec(1) [OF pump_ready_ok i(1) env_blank _ s' [unfolded e]] i(2) z by simp
  then have ne: "s' \<noteq> pump_ready" using z by auto
  show ?thesis using pumped_tic [OF pump_ready_ok i(1) env_blank s' ne] s' ne z
    by (simp add: Let_def)
qed

text \<open>The scan of a retransmission request succeeds exactly when the client's send queue still
  holds every tic asked for.\<close>

theorem resend_scan:
  assumes "final \<noteq> - 1"
  shows "have_tics cl start final \<longleftrightarrow>
    (\<forall>t. start \<le> t \<longrightarrow> t \<le> final \<longrightarrow> fc_seq (cl_sendqueue cl ! (unat t mod BACKUPTICS)) = t)"
  using have_tics_iff [OF assms] by (simp add: queue_slot_def)

theorem resend_scan_witness: "have_tics blank_client 0 0"
  using resend_scan [of 0 blank_client 0]
  by (simp add: blank_client_def blank_cmd_def net_consts)

text \<open>No retransmission request, however forged, makes the server stop with "Wanted to send ...":
  the handler returns, and it sends the tics only when it has them all.\<close>

theorem resend_request_never_fails:
  "\<exists>s'. NET_SV_ParseResendRequest e p i s = Inr s'
     \<and> (s' = s \<or> (\<exists>start final q. have_tics (client s i) start final
          \<and> s' = on_connection i (\<lambda>c. NET_Conn_SendPacket (e_now e) c q) s))"
proof -
  obtain s' where s': "NET_SV_ParseResendRequest e p i s = Inr s'" using ParseResendRequest_safe by blast
  show ?thesis
  proof (cases "s' = s")
    case False
    then obtain a b where h: "have_tics (client s i) a b" "NET_SV_SendTics e i a b s = Inr s'"
      using s' by (auto simp: NET_SV_ParseResendRequest_def Let_def split: option.splits if_splits)
    then show ?thesis using s' SendTics_form [OF h(2)] by metis
  qed (use s' in auto)
qed

text \<open>C37: Once a game has been launched nobody joins: a SYN then changes no client, no player number
  and not the state of the server, whatever it contains.\<close>

theorem late_syn_refused:
  assumes "server_state s \<noteq> SERVER_WAITING_LAUNCH" "NET_SV_ParseSYN e p cl addr s = Inr s'"
  shows "s' = s\<lparr>sv_out := sv_out s'\<rparr>"
  using assms
  by (auto simp: NET_SV_ParseSYN_def NET_SV_SendReject_def emit_def Let_def
      split: option.splits prod.splits if_splits)

theorem late_syn_refused_witness:
  "\<exists>s'. NET_SV_ParseSYN blank_env \<lparr>pdata = [0xcc, 0xda, 0x4d, 0x94], palloced = 4, ppos = 0\<rparr> None 7 in_game = Inr s'
     \<and> s' = in_game\<lparr>sv_out := sv_out s'\<rparr>"
proof -
  have "case NET_SV_ParseSYN blank_env \<lparr>pdata = [0xcc, 0xda, 0x4d, 0x94], palloced = 4, ppos = 0\<rparr> None 7 in_game of
      Inl _ \<Rightarrow> False | Inr s' \<Rightarrow> True" by code_simp
  then obtain s' where s': "NET_SV_ParseSYN blank_env \<lparr>pdata = [0xcc, 0xda, 0x4d, 0x94], palloced = 4, ppos = 0\<rparr>
      None 7 in_game = Inr s'" by (auto split: sum.splits)
  have "server_state in_game \<noteq> SERVER_WAITING_LAUNCH" by (simp add: in_game_def)
  from late_syn_refused [OF this s'] s' show ?thesis by blast
qed

text \<open>C38: When the launched lobby has emptied (each client has sent DISCONNECT, so none is connected and
  none counts as unready), the server starts a game with no players, although a player leaving at
  that point is meant to abort the start.\<close>

theorem empty_game_starts:
  assumes "sv_ok s" "server_state s = SERVER_WAITING_START"
    and "\<forall>i < MAXNETNODES. \<not> ClientConnected (client s i)"
  shows "\<exists>s'. CheckStartGame e s = Inr s' \<and> server_state s' = SERVER_IN_GAME"
proof -
  have "AllNodesReady s" using assms(1,3) by (auto simp: AllNodesReady_def list_all_length ok_lengths)
  then show ?thesis using StartGame_ok [OF assms(1)] assms(2) by (auto simp: CheckStartGame_def)
qed

definition deserted :: server where
  "deserted = blank_server\<lparr>server_initialized := True, clients := replicate MAXNETNODES blank_client,
     server_state := SERVER_WAITING_START\<rparr>"

theorem empty_game_starts_witness:
  "\<exists>s'. CheckStartGame blank_env deserted = Inr s' \<and> server_state s' = SERVER_IN_GAME"
proof (rule empty_game_starts)
  show "sv_ok deserted" unfolding deserted_def
    by (rule sample_ok) (simp_all add: blank_client_ok blank_playing sample_seq list_all_iff)
qed (simp_all add: deserted_def blank_playing)

text \<open>C39: Keeping the registration with the master server alive dereferences a NULL address exactly when
  the master server's name is due for resolution, does not resolve, and the registration is due too.\<close>

theorem master_lost_fault:
  assumes "master_server s = Some a"
  shows "UpdateMasterServer e s = Inl f \<longleftrightarrow> f = NullDeref
    \<and> MASTER_RESOLVE_PERIOD * 1000 < e_now e - master_resolve_time s
    \<and> resolve_in (e_resolve e) MASTER_SERVER_ADDRESS = None
    \<and> MASTER_REFRESH_PERIOD * 1000 < e_now e - master_refresh_time s"
  using assms
  by (auto simp: UpdateMasterServer_def Let_def NET_Query_ResolveMaster_def NET_ResolveAddress_def
      NET_Query_AddToMaster_def NET_ReferenceAddress_def NET_ReleaseAddress_def split: option.splits if_splits)

theorem master_lost_fault_witness:
  "UpdateMasterServer (blank_env\<lparr>e_now := 28900000, e_resolve := []\<rparr>) (lobby\<lparr>master_server := Some 99\<rparr>)
     = Inl NullDeref"
proof -
  have m: "master_server (lobby\<lparr>master_server := Some 99\<rparr>) = Some 99" by simp
  show ?thesis unfolding master_lost_fault [OF m]
    by (simp add: MASTER_RESOLVE_PERIOD_def MASTER_REFRESH_PERIOD_def blank_env_def lobby_def
        blank_server_def word_less_nat_alt)
qed

end
