(* ===== verification/Queue_Interface.thy ===== *)
theory Queue_Interface
  imports Doom_Prelude
begin

text \<open>
  What the users of the bounded queues of the engine rely on: a queue holds at most \<open>cap\<close> items,
  refuses further ones, and hands out the accepted ones in order. The interface is the locale
  \<open>bounded_queue\<close>, with the reference implementation \<open>fifo\<close> on lists; its main lemma says that a
  provider cannot be told apart from \<open>fifo\<close> by any sequence of operations.
\<close>

datatype 'a queue_op = Push 'a | Pop

datatype 'a queue_reply = Accepted bool | Popped "'a option"

fun run_queue :: "('a \<Rightarrow> 'q \<Rightarrow> 'q \<times> bool) \<Rightarrow> ('q \<Rightarrow> ('a \<times> 'q) option) \<Rightarrow> 'a queue_op list \<Rightarrow> 'q
    \<Rightarrow> 'a queue_reply list" where
  "run_queue push pop [] q = []"
| "run_queue push pop (Push x # ops) q =
     (case push x q of (q', ok) \<Rightarrow> Accepted ok # run_queue push pop ops q')"
| "run_queue push pop (Pop # ops) q =
     (case pop q of
        None \<Rightarrow> Popped None # run_queue push pop ops q
      | Some (x, q') \<Rightarrow> Popped (Some x) # run_queue push pop ops q')"

fun queue_after :: "('a \<Rightarrow> 'q \<Rightarrow> 'q \<times> bool) \<Rightarrow> ('q \<Rightarrow> ('a \<times> 'q) option) \<Rightarrow> 'a queue_op list \<Rightarrow> 'q \<Rightarrow> 'q"
where
  "queue_after push pop [] q = q"
| "queue_after push pop (Push x # ops) q = queue_after push pop ops (fst (push x q))"
| "queue_after push pop (Pop # ops) q =
     queue_after push pop ops (case pop q of None \<Rightarrow> q | Some (x, q') \<Rightarrow> q')"

fun offered :: "'a queue_op list \<Rightarrow> 'a list" where
  "offered [] = []"
| "offered (Push x # ops) = x # offered ops"
| "offered (Pop # ops) = offered ops"

definition fifo_push :: "nat \<Rightarrow> 'a \<Rightarrow> 'a list \<Rightarrow> 'a list \<times> bool" where
  "fifo_push cap x xs = (if length xs < cap then (xs @ [x], True) else (xs, False))"

fun fifo_pop :: "'a list \<Rightarrow> ('a \<times> 'a list) option" where
  "fifo_pop [] = None"
| "fifo_pop (x # xs) = Some (x, xs)"

text \<open>The replies in which an item was accepted or handed out.\<close>

fun taken_in :: "'a queue_op list \<Rightarrow> 'a queue_reply list \<Rightarrow> 'a list" where
  "taken_in (Push x # ops) (Accepted True # rs) = x # taken_in ops rs"
| "taken_in (_ # ops) (_ # rs) = taken_in ops rs"
| "taken_in _ _ = []"

fun handed_out :: "'a queue_reply list \<Rightarrow> 'a list" where
  "handed_out [] = []"
| "handed_out (Popped (Some x) # rs) = x # handed_out rs"
| "handed_out (_ # rs) = handed_out rs"

locale bounded_queue =
  fixes cap :: nat
    and empty :: "'q"
    and push :: "'a \<Rightarrow> 'q \<Rightarrow> 'q \<times> bool"
    and pop :: "'q \<Rightarrow> ('a \<times> 'q) option"
    and invar :: "'q \<Rightarrow> bool"
    and contents :: "'q \<Rightarrow> 'a list"
  assumes invar_empty: "invar empty"
    and contents_empty: "contents empty = []"
    and invar_push: "invar q \<Longrightarrow> invar (fst (push x q))"
    and contents_push: "invar q \<Longrightarrow> (contents (fst (push x q)), snd (push x q)) = fifo_push cap x (contents q)"
    and invar_pop: "invar q \<Longrightarrow> pop q = Some (x, q') \<Longrightarrow> invar q'"
    and contents_pop: "invar q \<Longrightarrow> map_option (\<lambda>(x, q). (x, contents q)) (pop q) = fifo_pop (contents q)"
begin

lemma runs_as_fifo:
  "invar q \<Longrightarrow> run_queue push pop ops q = run_queue (fifo_push cap) fifo_pop ops (contents q)"
proof (induction ops arbitrary: q)
  case Nil
  then show ?case by simp
next
  case (Cons op ops)
  show ?case
  proof (cases op)
    case (Push x)
    obtain q' ok where p: "push x q = (q', ok)" by fastforce
    have "invar q'" "fifo_push cap x (contents q) = (contents q', ok)"
      using invar_push [OF Cons.prems, of x] contents_push [OF Cons.prems, of x] p by simp_all
    then show ?thesis using Push p Cons.IH by simp
  next
    case Pop
    show ?thesis
    proof (cases "pop q")
      case None
      then have "fifo_pop (contents q) = None" using contents_pop [OF Cons.prems] by simp
      then show ?thesis using Pop None Cons by simp
    next
      case (Some y)
      obtain x q' where y: "y = (x, q')" by fastforce
      have "invar q'" "fifo_pop (contents q) = Some (x, contents q')"
        using invar_pop [OF Cons.prems] contents_pop [OF Cons.prems] Some y by simp_all
      then show ?thesis using Pop Some y Cons.IH by simp
    qed
  qed
qed

lemma contents_bounded: "invar q \<Longrightarrow> length (contents q) \<le> cap \<Longrightarrow> length (contents (fst (push x q))) \<le> cap"
  using contents_push [of q x] by (auto simp: fifo_push_def split: if_splits)

end

text \<open>The reference queue hands out what it accepted, in order, and nothing else.\<close>

lemma fifo_order:
  "\<exists>left. xs @ taken_in ops (run_queue (fifo_push cap) fifo_pop ops xs)
     = handed_out (run_queue (fifo_push cap) fifo_pop ops xs) @ left \<and> (length xs \<le> cap \<longrightarrow> length left \<le> cap)"
proof (induction ops arbitrary: xs)
  case Nil
  then show ?case by simp
next
  case (Cons op ops)
  show ?case
  proof (cases op)
    case (Push x)
    show ?thesis
    proof (cases "length xs < cap")
      case True
      then show ?thesis using Push Cons.IH [of "xs @ [x]"] by (simp add: fifo_push_def)
    next
      case False
      then show ?thesis using Push Cons.IH [of xs] by (simp add: fifo_push_def)
    qed
  next
    case Pop
    show ?thesis
    proof (cases xs)
      case Nil
      then show ?thesis using Pop Cons.IH [of "[]"] by simp
    next
      case (Cons y ys)
      then show ?thesis using Pop Cons.IH [of ys] by auto
    qed
  qed
qed

context bounded_queue
begin

lemma delivers_in_order:
  "\<exists>left. taken_in ops (run_queue push pop ops empty) = handed_out (run_queue push pop ops empty) @ left
     \<and> length left \<le> cap"
  using fifo_order [of "[]" ops cap] runs_as_fifo [OF invar_empty, of ops] by (simp add: contents_empty)

end

lemma fifo_pop_None: "fifo_pop xs = None \<longleftrightarrow> xs = []"
  by (cases xs) simp_all

interpretation fifo: bounded_queue cap "[]" "fifo_push cap" fifo_pop "\<lambda>_. True" "\<lambda>xs. xs"
  for cap
  by unfold_locales (simp_all add: fifo_push_def option.map_ident split_def)

subsection \<open>Rings\<close>

text \<open>
  Both queues are rings of \<open>n\<close> slots with a head and a tail, one slot always free. The items are
  those from the head to before the tail, around the end.
\<close>

definition ring_items :: "'a list \<Rightarrow> nat \<Rightarrow> nat \<Rightarrow> 'a list" where
  "ring_items slots head tail =
     map (\<lambda>k. slots ! ((head + k) mod length slots)) [0..<(tail + length slots - head) mod length slots]"

definition ring_count :: "nat \<Rightarrow> nat \<Rightarrow> nat \<Rightarrow> nat" where
  "ring_count n h t = (if h \<le> t then t - h else t + n - h)"

lemma next_index: "h < n \<Longrightarrow> (h + 1) mod n = (if h + 1 = n then 0 else h + 1)" for h n :: nat
  by auto

lemma ring_index: "h < n \<Longrightarrow> k < n \<Longrightarrow> (h + k) mod n = (if h + k < n then h + k else h + k - n)" for h n :: nat
  by (auto simp: le_mod_geq not_less)

lemma ring_count_less: "h < n \<Longrightarrow> t < n \<Longrightarrow> ring_count n h t < n"
  by (auto simp: ring_count_def)

lemma next_less: "h < n \<Longrightarrow> (h + 1) mod n < n" for h n :: nat
  by simp

lemma ring_length:
  assumes "h < length xs" "t < length xs"
  shows "length (ring_items xs h t) = ring_count (length xs) h t"
proof (cases "h \<le> t")
  case True
  then have "t + length xs - h = (t - h) + length xs" by simp
  then have "(t + length xs - h) mod length xs = (t - h) mod length xs" by (metis mod_add_self2)
  then show ?thesis using True assms by (simp add: ring_items_def ring_count_def)
next
  case False
  then show ?thesis using assms by (simp add: ring_items_def ring_count_def)
qed

lemma ring_nth:
  assumes "h < length xs" "t < length xs" "k < ring_count (length xs) h t"
  shows "ring_items xs h t ! k = xs ! (if h + k < length xs then h + k else h + k - length xs)"
proof -
  have "k < length (ring_items xs h t)" "k < length xs"
    using assms by (auto simp: ring_length ring_count_def split: if_splits)
  then have "ring_items xs h t ! k = xs ! ((h + k) mod length xs)" by (simp add: ring_items_def)
  then show ?thesis using ring_index [OF assms(1) \<open>k < length xs\<close>] by simp
qed

lemma ring_empty: "h < length xs \<Longrightarrow> t < length xs \<Longrightarrow> ring_items xs h t = [] \<longleftrightarrow> h = t"
  unfolding length_0_conv [symmetric] by (simp only: ring_length) (auto simp: ring_count_def)

lemma ring_full:
  assumes "h < length xs" "t < length xs"
  shows "(t + 1) mod length xs = h \<longleftrightarrow> \<not> length (ring_items xs h t) < length xs - 1"
  unfolding ring_length [OF assms] next_index [OF assms(2)]
  using assms by (auto simp: ring_count_def split: if_splits)

lemma ring_push:
  assumes "h < length xs" "t < length xs" "(t + 1) mod length xs \<noteq> h"
  shows "ring_items (xs[t := x]) h ((t + 1) mod length xs) = ring_items xs h t @ [x]"
proof (rule nth_equalityI)
  let ?n = "length xs" and ?c = "ring_count (length xs) h t"
  have t': "(t + 1) mod ?n < ?n" using next_less [OF assms(2)] .
  have c: "ring_count ?n h ((t + 1) mod ?n) = Suc ?c"
    using assms next_index [OF assms(2)] by (auto simp: ring_count_def split: if_splits)
  have l': "length (ring_items (xs[t := x]) h ((t + 1) mod ?n)) = Suc ?c"
    using ring_length [of h "xs[t := x]" "(t + 1) mod ?n"] assms(1) t' c by simp
  show "length (ring_items (xs[t := x]) h ((t + 1) mod ?n)) = length (ring_items xs h t @ [x])"
    using l' ring_length [OF assms(1,2)] by simp
  fix k assume "k < length (ring_items (xs[t := x]) h ((t + 1) mod ?n))"
  then have k: "k < Suc ?c" using l' by simp
  have a: "ring_items (xs[t := x]) h ((t + 1) mod ?n) ! k
      = xs[t := x] ! (if h + k < ?n then h + k else h + k - ?n)"
    using ring_nth [of h "xs[t := x]" "(t + 1) mod ?n" k] assms(1) t' c k by simp
  show "ring_items (xs[t := x]) h ((t + 1) mod ?n) ! k = (ring_items xs h t @ [x]) ! k"
  proof (cases "k < ?c")
    case True
    then have "(if h + k < ?n then h + k else h + k - ?n) \<noteq> t"
      using assms by (auto simp: ring_count_def split: if_splits)
    then show ?thesis using True ring_nth [OF assms(1,2) True] ring_length [OF assms(1,2)]
      unfolding a by (simp add: nth_append)
  next
    case False
    then have "k = ?c" using k by simp
    moreover from this have "(if h + k < ?n then h + k else h + k - ?n) = t"
      using assms by (auto simp: ring_count_def split: if_splits)
    moreover have "(ring_items xs h t @ [x]) ! ?c = x"
      using nth_append_length [of "ring_items xs h t" x "[]"] ring_length [OF assms(1,2)] by simp
    ultimately show ?thesis using assms(2) unfolding a by simp
  qed
qed

lemma ring_count_pop:
  "h < n \<Longrightarrow> t < n \<Longrightarrow> h \<noteq> t \<Longrightarrow> ring_count n h t = Suc (ring_count n ((h + 1) mod n) t)"
  using next_index [of h n] by (auto simp: ring_count_def split: if_splits)

lemma ring_pop:
  assumes "h < length xs" "t < length xs" "h \<noteq> t"
  shows "ring_items xs h t = xs ! h # ring_items xs ((h + 1) mod length xs) t"
proof (rule nth_equalityI)
  let ?n = "length xs" and ?h = "(h + 1) mod length xs"
  have h': "?h < ?n" using next_less [OF assms(1)] .
  note c = ring_count_pop [OF assms]
  show "length (ring_items xs h t) = length (xs ! h # ring_items xs ?h t)"
    using c ring_length [OF assms(1,2)] ring_length [OF h' assms(2)] by simp
  fix k assume "k < length (ring_items xs h t)"
  then have k: "k < ring_count ?n h t" using ring_length [OF assms(1,2)] by simp
  show "ring_items xs h t ! k = (xs ! h # ring_items xs ?h t) ! k"
  proof (cases k)
    case 0
    then show ?thesis using ring_nth [OF assms(1,2) k] assms(1) by simp
  next
    case (Suc j)
    then have j: "j < ring_count ?n ?h t" using k c by simp
    have "(if h + k < ?n then h + k else h + k - ?n) = (if ?h + j < ?n then ?h + j else ?h + j - ?n)"
      using Suc assms(1) next_index [OF assms(1)] ring_count_less [OF h' assms(2)] j by auto
    then show ?thesis using Suc ring_nth [OF assms(1,2) k] ring_nth [OF h' assms(2) j] by simp
  qed
qed

lemma ring_erase:
  assumes "h < length xs" "t < length xs" "h \<noteq> t"
  shows "ring_items (xs[h := y]) ((h + 1) mod length xs) t = ring_items xs ((h + 1) mod length xs) t"
proof (rule nth_equalityI)
  let ?n = "length xs" and ?h = "(h + 1) mod length xs"
  have h': "?h < ?n" using next_less [OF assms(1)] .
  show "length (ring_items (xs[h := y]) ?h t) = length (ring_items xs ?h t)"
    by (simp add: ring_items_def)
  fix k assume "k < length (ring_items (xs[h := y]) ?h t)"
  then have k: "k < ring_count ?n ?h t"
    using ring_length [of ?h "xs[h := y]" t] h' assms(2) by simp
  define ix where "ix = (if ?h + k < ?n then ?h + k else ?h + k - ?n)"
  have ne: "h \<noteq> ix"
    using k assms next_index [OF assms(1)] by (auto simp: ring_count_def ix_def split: if_splits)
  have "ring_items (xs[h := y]) ?h t ! k = xs[h := y] ! ix"
    using ring_nth [of ?h "xs[h := y]" t k] h' assms(2) k unfolding ix_def by (simp only: length_list_update)
  also have "\<dots> = xs ! ix" by (rule nth_list_update_neq [OF ne])
  also have "\<dots> = ring_items xs ?h t ! k"
    using ring_nth [OF h' assms(2) k] unfolding ix_def by (rule sym)
  finally show "ring_items (xs[h := y]) ?h t ! k = ring_items xs ?h t ! k" .
qed

end
