(* ===== verification/Net_Loop.thy ===== *)
theory Net_Loop
  imports Queue_Interface Net_Packet
begin

text \<open>
  The loopback network module (\<open>engine/src/net_loop.c\<close>): two rings of 16 packets between a client
  and a server in the same process. A slot that was never written holds NULL (\<open>None\<close>). Whether a
  push was accepted is what its second result says; a refused packet is freed. The addresses of
  the two ends are constants, and only NULL resolves to them.
\<close>

definition MAX_QUEUE_SIZE :: nat where "MAX_QUEUE_SIZE = 16"

record packet_queue =
  pq_packets :: "net_packet option list"
  pq_head :: nat
  pq_tail :: nat

definition QueueInit :: "packet_queue \<Rightarrow> packet_queue" where
  "QueueInit queue = queue\<lparr>pq_head := 0, pq_tail := 0\<rparr>"

definition QueuePush :: "net_packet \<Rightarrow> packet_queue \<Rightarrow> packet_queue \<times> bool" where
  "QueuePush packet queue =
     (let new_tail = (pq_tail queue + 1) mod MAX_QUEUE_SIZE
      in if new_tail = pq_head queue then (queue, False)
         else (queue\<lparr>pq_packets := (pq_packets queue)[pq_tail queue := Some packet], pq_tail := new_tail\<rparr>,
               True))"

definition QueuePop :: "packet_queue \<Rightarrow> net_packet option \<times> packet_queue" where
  "QueuePop queue =
     (if pq_tail queue = pq_head queue then (None, queue)
      else let packet = pq_packets queue ! pq_head queue
           in (packet, queue\<lparr>pq_head := (pq_head queue + 1) mod MAX_QUEUE_SIZE\<rparr>))"

subsection \<open>The two ends\<close>

record loopback =
  client_queue :: packet_queue
  server_queue :: packet_queue

definition loop_client_addr :: nat where "loop_client_addr = 1"
definition loop_server_addr :: nat where "loop_server_addr = 2"

definition NET_CL_InitClient :: "loopback \<Rightarrow> loopback" where
  "NET_CL_InitClient st = st\<lparr>client_queue := QueueInit (client_queue st)\<rparr>"

definition NET_CL_InitServer :: "loopback \<Rightarrow> loopback res" where
  "NET_CL_InitServer st = Inl IError"

definition NET_CL_SendPacket :: "net_packet \<Rightarrow> loopback \<Rightarrow> loopback" where
  "NET_CL_SendPacket packet st =
     st\<lparr>server_queue := fst (QueuePush (NET_PacketDup packet) (server_queue st))\<rparr>"

definition NET_CL_RecvPacket :: "loopback \<Rightarrow> (nat \<times> net_packet) option \<times> loopback" where
  "NET_CL_RecvPacket st =
     (case QueuePop (client_queue st) of (popped, queue) \<Rightarrow>
      let st = st\<lparr>client_queue := queue\<rparr>
      in case popped of
           Some packet \<Rightarrow> (Some (loop_client_addr, packet), st)
         | None \<Rightarrow> (None, st))"

definition NET_CL_AddrToString :: bytes where
  "NET_CL_AddrToString = cstr ''local server''"

definition NET_CL_ResolveAddress :: "bytes option \<Rightarrow> nat option" where
  "NET_CL_ResolveAddress address = (if address = None then Some loop_client_addr else None)"

definition NET_SV_InitClient :: "loopback \<Rightarrow> loopback res" where
  "NET_SV_InitClient st = Inl IError"

definition NET_SV_InitServer :: "loopback \<Rightarrow> loopback" where
  "NET_SV_InitServer st = st\<lparr>server_queue := QueueInit (server_queue st)\<rparr>"

definition NET_SV_SendPacket :: "net_packet \<Rightarrow> loopback \<Rightarrow> loopback" where
  "NET_SV_SendPacket packet st =
     st\<lparr>client_queue := fst (QueuePush (NET_PacketDup packet) (client_queue st))\<rparr>"

definition NET_SV_RecvPacket :: "loopback \<Rightarrow> (nat \<times> net_packet) option \<times> loopback" where
  "NET_SV_RecvPacket st =
     (case QueuePop (server_queue st) of (popped, queue) \<Rightarrow>
      let st = st\<lparr>server_queue := queue\<rparr>
      in case popped of
           Some packet \<Rightarrow> (Some (loop_server_addr, packet), st)
         | None \<Rightarrow> (None, st))"

definition NET_SV_AddrToString :: bytes where
  "NET_SV_AddrToString = cstr ''local client''"

definition NET_SV_ResolveAddress :: "bytes option \<Rightarrow> nat option" where
  "NET_SV_ResolveAddress address = (if address = None then Some loop_server_addr else None)"

subsection \<open>The queue is a bounded queue\<close>

definition pq_ring :: "packet_queue \<Rightarrow> net_packet option list" where
  "pq_ring q = ring_items (pq_packets q) (pq_head q) (pq_tail q)"

definition pq_ok :: "packet_queue \<Rightarrow> bool" where
  "pq_ok q \<longleftrightarrow> length (pq_packets q) = MAX_QUEUE_SIZE \<and> pq_head q < MAX_QUEUE_SIZE
     \<and> pq_tail q < MAX_QUEUE_SIZE \<and> None \<notin> set (pq_ring q)"

definition pq_contents :: "packet_queue \<Rightarrow> net_packet list" where
  "pq_contents q = map the (pq_ring q)"

definition blank_queue :: packet_queue where
  "blank_queue = \<lparr>pq_packets = replicate MAX_QUEUE_SIZE None, pq_head = 0, pq_tail = 0\<rparr>"

lemma pq_push:
  assumes "pq_ok q"
  shows "pq_ok (fst (QueuePush p q))"
    and "(pq_contents (fst (QueuePush p q)), snd (QueuePush p q)) = fifo_push 15 p (pq_contents q)"
proof -
  let ?xs = "pq_packets q" and ?h = "pq_head q" and ?t = "pq_tail q"
  have l: "?h < length ?xs" "?t < length ?xs" "length ?xs = MAX_QUEUE_SIZE" using assms by (simp_all add: pq_ok_def)
  have full: "(?t + 1) mod MAX_QUEUE_SIZE = ?h \<longleftrightarrow> \<not> length (pq_contents q) < 15"
    using ring_full [OF l(1,2)] l(3) by (simp add: pq_contents_def pq_ring_def MAX_QUEUE_SIZE_def)
  have r: "ring_items (?xs[?t := Some p]) ?h ((?t + 1) mod MAX_QUEUE_SIZE) = pq_ring q @ [Some p]"
    if "(?t + 1) mod MAX_QUEUE_SIZE \<noteq> ?h"
    using ring_push [OF l(1,2)] that l(3) by (simp add: pq_ring_def)
  have m: "(?t + 1) mod MAX_QUEUE_SIZE < MAX_QUEUE_SIZE" by (simp add: MAX_QUEUE_SIZE_def)
  show "pq_ok (fst (QueuePush p q))"
    using assms r m by (auto simp: QueuePush_def Let_def pq_ok_def pq_ring_def)
  show "(pq_contents (fst (QueuePush p q)), snd (QueuePush p q)) = fifo_push 15 p (pq_contents q)"
  proof (cases "(?t + 1) mod MAX_QUEUE_SIZE = ?h")
    case True
    then show ?thesis using full by (simp add: QueuePush_def fifo_push_def)
  next
    case False
    then have "QueuePush p q = (q\<lparr>pq_packets := ?xs[?t := Some p], pq_tail := (?t + 1) mod MAX_QUEUE_SIZE\<rparr>, True)"
      by (simp add: QueuePush_def Let_def)
    then show ?thesis using full r [OF False] False by (simp add: fifo_push_def pq_contents_def pq_ring_def)
  qed
qed

definition loop_pop :: "packet_queue \<Rightarrow> (net_packet \<times> packet_queue) option" where
  "loop_pop q = (case QueuePop q of (Some p, q') \<Rightarrow> Some (p, q') | (None, _) \<Rightarrow> None)"

lemma pq_pop:
  assumes "pq_ok q"
  shows "pq_ring q = [] \<Longrightarrow> QueuePop q = (None, q)"
    and "pq_ring q = x # xs \<Longrightarrow> \<exists>p q'. x = Some p \<and> QueuePop q = (Some p, q') \<and> pq_ring q' = xs \<and> pq_ok q'"
proof -
  let ?xs = "pq_packets q" and ?h = "pq_head q" and ?t = "pq_tail q"
  have l: "?h < length ?xs" "?t < length ?xs" "length ?xs = MAX_QUEUE_SIZE" using assms by (simp_all add: pq_ok_def)
  have e: "pq_ring q = [] \<longleftrightarrow> ?h = ?t" using ring_empty [OF l(1,2)] by (simp add: pq_ring_def)
  show "pq_ring q = [] \<Longrightarrow> QueuePop q = (None, q)" using e by (simp add: QueuePop_def)
  assume r: "pq_ring q = x # xs"
  then have ne: "?h \<noteq> ?t" using e by simp
  let ?q = "q\<lparr>pq_head := (?h + 1) mod MAX_QUEUE_SIZE\<rparr>"
  have x: "x = ?xs ! ?h" "pq_ring ?q = xs"
    using ring_pop [OF l(1,2) ne] r l(3) by (simp_all add: pq_ring_def)
  obtain p where p: "x = Some p" using assms r by (cases x) (auto simp: pq_ok_def)
  have "QueuePop q = (x, ?q)" using ne by (simp add: QueuePop_def x(1))
  moreover have "pq_ok ?q" using assms r x(2) by (auto simp: pq_ok_def MAX_QUEUE_SIZE_def)
  ultimately show "\<exists>p q'. x = Some p \<and> QueuePop q = (Some p, q') \<and> pq_ring q' = xs \<and> pq_ok q'"
    using p x(2) by blast
qed

interpretation loop: bounded_queue 15 blank_queue QueuePush loop_pop pq_ok pq_contents
proof unfold_locales
  show "pq_ok blank_queue" "pq_contents blank_queue = []"
    by (simp_all add: pq_ok_def pq_contents_def pq_ring_def blank_queue_def ring_items_def MAX_QUEUE_SIZE_def)
next
  fix q x q' assume q: "pq_ok q" "loop_pop q = Some (x, q')"
  then show "pq_ok q'" using pq_pop [OF q(1)] by (cases "pq_ring q") (auto simp: loop_pop_def)
next
  fix q assume q: "pq_ok q"
  show "map_option (\<lambda>(x, q). (x, pq_contents q)) (loop_pop q) = fifo_pop (pq_contents q)"
    using pq_pop [OF q] by (cases "pq_ring q") (auto simp: pq_contents_def loop_pop_def)
qed (simp_all add: pq_push)

subsection \<open>Refinement\<close>

text \<open>What the two ends do with the module, and a run of it: for a receive, what was received. The
  specification is a pair of lists, the packets under way to the client and to the server.\<close>

datatype loop_op = ClientSends net_packet | ServerSends net_packet | ClientReceives | ServerReceives

fun run_loop :: "loop_op list \<Rightarrow> loopback \<Rightarrow> (nat \<times> net_packet) option list" where
  "run_loop [] st = []"
| "run_loop (ClientSends p # ops) st = run_loop ops (NET_CL_SendPacket p st)"
| "run_loop (ServerSends p # ops) st = run_loop ops (NET_SV_SendPacket p st)"
| "run_loop (ClientReceives # ops) st = (case NET_CL_RecvPacket st of (x, st) \<Rightarrow> x # run_loop ops st)"
| "run_loop (ServerReceives # ops) st = (case NET_SV_RecvPacket st of (x, st) \<Rightarrow> x # run_loop ops st)"

fun loop_spec :: "loop_op list \<Rightarrow> net_packet list \<Rightarrow> net_packet list \<Rightarrow> (nat \<times> net_packet) option list" where
  "loop_spec [] to_client to_server = []"
| "loop_spec (ClientSends p # ops) to_client to_server =
     loop_spec ops to_client (fst (fifo_push 15 (NET_PacketDup p) to_server))"
| "loop_spec (ServerSends p # ops) to_client to_server =
     loop_spec ops (fst (fifo_push 15 (NET_PacketDup p) to_client)) to_server"
| "loop_spec (ClientReceives # ops) [] to_server = None # loop_spec ops [] to_server"
| "loop_spec (ClientReceives # ops) (p # ps) to_server = Some (loop_client_addr, p) # loop_spec ops ps to_server"
| "loop_spec (ServerReceives # ops) to_client [] = None # loop_spec ops to_client []"
| "loop_spec (ServerReceives # ops) to_client (p # ps) = Some (loop_server_addr, p) # loop_spec ops to_client ps"

lemma loop_simulation:
  "pq_ok (client_queue st) \<Longrightarrow> pq_ok (server_queue st)
   \<Longrightarrow> run_loop ops st = loop_spec ops (pq_contents (client_queue st)) (pq_contents (server_queue st))"
proof (induction ops arbitrary: st)
  case Nil
  then show ?case by simp
next
  case (Cons op ops)
  note ok = Cons.prems
  show ?case
  proof (cases op)
    case (ClientSends p)
    then show ?thesis
      using Cons.IH [of "NET_CL_SendPacket p st"] ok loop.invar_push [OF ok(2)]
        arg_cong [OF loop.contents_push [OF ok(2), of "NET_PacketDup p"], of fst]
      by (simp add: NET_CL_SendPacket_def)
  next
    case (ServerSends p)
    then show ?thesis
      using Cons.IH [of "NET_SV_SendPacket p st"] ok loop.invar_push [OF ok(1)]
        arg_cong [OF loop.contents_push [OF ok(1), of "NET_PacketDup p"], of fst]
      by (simp add: NET_SV_SendPacket_def)
  next
    case ClientReceives
    show ?thesis
      using pq_pop [OF ok(1)] Cons.IH ok ClientReceives
      by (cases "pq_ring (client_queue st)") (auto simp: NET_CL_RecvPacket_def pq_contents_def Let_def)
  next
    case ServerReceives
    show ?thesis
      using pq_pop [OF ok(2)] Cons.IH ok ServerReceives
      by (cases "pq_ring (server_queue st)") (auto simp: NET_SV_RecvPacket_def pq_contents_def Let_def)
  qed
qed

text \<open>C35: The loopback transport is two independent first-in first-out queues of fifteen packets:
  whatever the client and the server send and receive, in whatever order, each receive returns what
  the specification with two lists returns.\<close>

theorem loopback_refines_fifo:
  "run_loop ops (NET_SV_InitServer (NET_CL_InitClient \<lparr>client_queue = blank_queue, server_queue = blank_queue\<rparr>))
     = loop_spec ops [] []"
proof -
  have "QueueInit blank_queue = blank_queue" by (simp add: QueueInit_def blank_queue_def)
  then show ?thesis
    by (simp add: loop_simulation loop.invar_empty loop.contents_empty NET_SV_InitServer_def NET_CL_InitClient_def)
qed

end
