(* ===== verification/Net_WS_Frame.thy ===== *)
theory Net_WS_Frame
  imports Queue_Interface "HOL-Library.Multiset"
begin

text \<open>
  The envelope of the room router and the bounded receive ring (\<open>engine/src/net_ws_frame.c\<close>).
  Items of the ring are pointers: \<open>None\<close> is NULL. \<open>wq_freed\<close> is not a field of the C structure:
  it records, in order, the items handed to \<open>free_item\<close>; \<open>wq_free\<close> says whether \<open>free_item\<close> is
  set.
\<close>

definition NET_WS_SEND_HEADER :: nat where "NET_WS_SEND_HEADER = 8"
definition NET_WS_RECV_HEADER :: nat where "NET_WS_RECV_HEADER = 4"
definition NET_WS_NODE_ROUTER :: u32 where "NET_WS_NODE_ROUTER = 0"
definition NET_WS_NODE_HOST :: u32 where "NET_WS_NODE_HOST = 1"
definition NET_WS_MAX_FRAME :: nat where "NET_WS_MAX_FRAME = 4096"
definition NET_WS_RECV_QUEUE :: nat where "NET_WS_RECV_QUEUE = 128"

lemmas ws_consts = NET_WS_SEND_HEADER_def NET_WS_RECV_HEADER_def NET_WS_NODE_ROUTER_def
  NET_WS_NODE_HOST_def NET_WS_MAX_FRAME_def NET_WS_RECV_QUEUE_def

subsection \<open>The envelope\<close>

definition NET_WS_WriteU32LE :: "u32 \<Rightarrow> bytes" where
  "NET_WS_WriteU32LE v =
     [ucast (v AND 0xff), ucast (drop_bit 8 v AND 0xff), ucast (drop_bit 16 v AND 0xff),
      ucast (drop_bit 24 v AND 0xff)]"

definition NET_WS_ReadU32LE :: "bytes \<Rightarrow> u32" where
  "NET_WS_ReadU32LE p =
     ucast (p ! 0) OR push_bit 8 (ucast (p ! 1)) OR push_bit 16 (ucast (p ! 2)) OR push_bit 24 (ucast (p ! 3))"

text \<open>The frame that is built, or \<open>None\<close> where the code returns the length 0.\<close>

definition NET_WS_BuildFrame :: "nat \<Rightarrow> u32 \<Rightarrow> u32 \<Rightarrow> bytes \<Rightarrow> bytes option" where
  "NET_WS_BuildFrame out_len to from payload =
     (if length payload > NET_WS_MAX_FRAME - NET_WS_SEND_HEADER then None
      else if length payload + NET_WS_SEND_HEADER > out_len then None
      else Some (NET_WS_WriteU32LE to @ NET_WS_WriteU32LE from @ payload))"

definition NET_WS_ParseFrame :: "bytes \<Rightarrow> (u32 \<times> bytes) option" where
  "NET_WS_ParseFrame frame =
     (if length frame < NET_WS_RECV_HEADER then None
      else if length frame > NET_WS_MAX_FRAME then None
      else Some (NET_WS_ReadU32LE frame, drop NET_WS_RECV_HEADER frame))"

lemma length_WriteU32LE [simp]: "length (NET_WS_WriteU32LE v) = 4"
  by (simp add: NET_WS_WriteU32LE_def)

lemma ff_byte: "(0xff :: u32) = mask 8" by (simp add: mask_eq_exp_minus_1)

lemma Read_WriteU32LE: "NET_WS_ReadU32LE (NET_WS_WriteU32LE v @ rest) = v"
proof (rule bit_word_eqI)
  fix n assume "n < LENGTH(32)"
  then consider "n < 8" | "8 \<le> n" "n < 16" | "16 \<le> n" "n < 24" | "24 \<le> n" "n < 32" by fastforce
  then show "bit (NET_WS_ReadU32LE (NET_WS_WriteU32LE v @ rest)) n = bit v n"
    by cases (auto simp: NET_WS_ReadU32LE_def NET_WS_WriteU32LE_def ff_byte bit_simps)
qed

subsection \<open>The receive ring\<close>

record 'a ws_queue =
  wq_items :: "'a option list"
  wq_froms :: "u32 list"
  wq_head :: nat
  wq_tail :: nat
  wq_free :: bool
  wq_drops :: u32
  wq_freed :: "'a option list"

definition NET_WS_QueueInit :: "bool \<Rightarrow> 'a ws_queue" where
  "NET_WS_QueueInit free_item =
     \<lparr>wq_items = replicate NET_WS_RECV_QUEUE None, wq_froms = replicate NET_WS_RECV_QUEUE 0,
      wq_head = 0, wq_tail = 0, wq_free = free_item, wq_drops = 0, wq_freed = []\<rparr>"

definition free_ws_item :: "'a option \<Rightarrow> 'a ws_queue \<Rightarrow> 'a ws_queue" where
  "free_ws_item item queue =
     (if wq_free queue then queue\<lparr>wq_freed := wq_freed queue @ [item]\<rparr> else queue)"

definition NET_WS_QueuePush :: "'a option \<times> u32 \<Rightarrow> 'a ws_queue \<Rightarrow> 'a ws_queue \<times> bool" where
  "NET_WS_QueuePush x queue =
     (case x of (item, from) \<Rightarrow>
      let new_tail = (wq_tail queue + 1) mod NET_WS_RECV_QUEUE
      in if new_tail = wq_head queue
         then let queue = free_ws_item item queue
              in (queue\<lparr>wq_drops := wq_drops queue + 1\<rparr>, False)
         else (queue\<lparr>wq_items := (wq_items queue)[wq_tail queue := item],
                     wq_froms := (wq_froms queue)[wq_tail queue := from], wq_tail := new_tail\<rparr>, True))"

definition NET_WS_QueuePop :: "'a ws_queue \<Rightarrow> (('a option \<times> u32) \<times> 'a ws_queue) option" where
  "NET_WS_QueuePop queue =
     (if wq_tail queue = wq_head queue then None
      else Some ((wq_items queue ! wq_head queue, wq_froms queue ! wq_head queue),
             queue\<lparr>wq_items := (wq_items queue)[wq_head queue := None],
                   wq_head := (wq_head queue + 1) mod NET_WS_RECV_QUEUE\<rparr>))"

text \<open>The loop of \<open>NET_WS_QueueDrain\<close>, \<open>None\<close> if it did not end.\<close>

partial_function (option) NET_WS_QueueDrain :: "'a ws_queue \<Rightarrow> 'a ws_queue option" where
  "NET_WS_QueueDrain queue =
     (case NET_WS_QueuePop queue of
        None \<Rightarrow> Some queue
      | Some ((item, from), queue) \<Rightarrow> NET_WS_QueueDrain (free_ws_item item queue))"

definition ws_contents :: "'a ws_queue \<Rightarrow> ('a option \<times> u32) list" where
  "ws_contents q = ring_items (zip (wq_items q) (wq_froms q)) (wq_head q) (wq_tail q)"

definition ws_ok :: "'a ws_queue \<Rightarrow> bool" where
  "ws_ok q \<longleftrightarrow> length (wq_items q) = NET_WS_RECV_QUEUE \<and> length (wq_froms q) = NET_WS_RECV_QUEUE
     \<and> wq_head q < NET_WS_RECV_QUEUE \<and> wq_tail q < NET_WS_RECV_QUEUE"

lemma ws_bounds:
  assumes "ws_ok q"
  shows "wq_head q < length (zip (wq_items q) (wq_froms q))" "wq_tail q < length (zip (wq_items q) (wq_froms q))"
    "length (zip (wq_items q) (wq_froms q)) = NET_WS_RECV_QUEUE"
  using assms by (simp_all add: ws_ok_def)

lemma free_ws_frame [simp]:
  "ws_ok (free_ws_item x q) = ws_ok q" "ws_contents (free_ws_item x q) = ws_contents q"
  "ws_ok (q\<lparr>wq_drops := d\<rparr>) = ws_ok q" "ws_contents (q\<lparr>wq_drops := d\<rparr>) = ws_contents q"
  "wq_free (free_ws_item x q) = wq_free q"
  by (simp_all add: free_ws_item_def ws_ok_def ws_contents_def)

lemma ws_push:
  assumes "ws_ok q"
  shows "ws_ok (fst (NET_WS_QueuePush x q))"
    and "(ws_contents (fst (NET_WS_QueuePush x q)), snd (NET_WS_QueuePush x q)) = fifo_push 127 x (ws_contents q)"
proof -
  note b = ws_bounds [OF assms]
  obtain item src where x: "x = (item, src)" by fastforce
  have full: "(wq_tail q + 1) mod NET_WS_RECV_QUEUE = wq_head q \<longleftrightarrow> \<not> length (ws_contents q) < 127"
    using ring_full [OF b(1,2)] unfolding b(3) ws_contents_def by (simp add: ws_consts)
  have m: "(wq_tail q + 1) mod NET_WS_RECV_QUEUE < NET_WS_RECV_QUEUE" by (simp add: ws_consts)
  show "ws_ok (fst (NET_WS_QueuePush x q))"
    using assms m by (auto simp: NET_WS_QueuePush_def x Let_def) (simp add: ws_ok_def)
  show "(ws_contents (fst (NET_WS_QueuePush x q)), snd (NET_WS_QueuePush x q)) = fifo_push 127 x (ws_contents q)"
  proof (cases "(wq_tail q + 1) mod NET_WS_RECV_QUEUE = wq_head q")
    case True
    then show ?thesis using full by (simp add: NET_WS_QueuePush_def x fifo_push_def Let_def)
  next
    case False
    have "ring_items ((zip (wq_items q) (wq_froms q))[wq_tail q := x]) (wq_head q) ((wq_tail q + 1) mod NET_WS_RECV_QUEUE)
        = ws_contents q @ [x]"
      using ring_push [OF b(1,2)] False unfolding b(3) ws_contents_def by simp
    then have "ws_contents (fst (NET_WS_QueuePush x q)) = ws_contents q @ [x]"
      using False by (simp add: NET_WS_QueuePush_def x Let_def ws_contents_def update_zip)
    then show ?thesis using False full by (simp add: NET_WS_QueuePush_def x Let_def fifo_push_def)
  qed
qed

lemma ws_pop:
  assumes "ws_ok q"
  shows "NET_WS_QueuePop q = None \<longleftrightarrow> ws_contents q = []"
    and "NET_WS_QueuePop q = Some (x, q') \<Longrightarrow>
      ws_contents q = x # ws_contents q' \<and> ws_ok q' \<and> wq_freed q' = wq_freed q \<and> wq_free q' = wq_free q"
proof -
  note b = ws_bounds [OF assms]
  show "NET_WS_QueuePop q = None \<longleftrightarrow> ws_contents q = []"
    using ring_empty [OF b(1,2)] by (auto simp: NET_WS_QueuePop_def ws_contents_def)
  assume p: "NET_WS_QueuePop q = Some (x, q')"
  then have ne: "wq_head q \<noteq> wq_tail q" by (auto simp: NET_WS_QueuePop_def split: if_splits)
  have x: "x = zip (wq_items q) (wq_froms q) ! wq_head q"
    and q': "q' = q\<lparr>wq_items := (wq_items q)[wq_head q := None], wq_head := (wq_head q + 1) mod NET_WS_RECV_QUEUE\<rparr>"
    using p assms by (auto simp: NET_WS_QueuePop_def ws_ok_def split: if_splits)
  have "zip ((wq_items q)[wq_head q := None]) (wq_froms q)
      = (zip (wq_items q) (wq_froms q))[wq_head q := (None, wq_froms q ! wq_head q)]"
    using assms by (simp add: update_zip)
  then have "ws_contents q' = ring_items (zip (wq_items q) (wq_froms q)) ((wq_head q + 1) mod NET_WS_RECV_QUEUE) (wq_tail q)"
    using ring_erase [OF b(1,2) ne] unfolding b(3) q' ws_contents_def by simp
  then show "ws_contents q = x # ws_contents q' \<and> ws_ok q' \<and> wq_freed q' = wq_freed q \<and> wq_free q' = wq_free q"
    using ring_pop [OF b(1,2) ne] assms unfolding b(3) x
    by (simp add: ws_contents_def q' ws_ok_def)
qed

interpretation ws: bounded_queue 127 "NET_WS_QueueInit b" NET_WS_QueuePush NET_WS_QueuePop ws_ok ws_contents
  for b
proof unfold_locales
  show "ws_ok (NET_WS_QueueInit b)" "ws_contents (NET_WS_QueueInit b) = []"
    by (simp_all add: ws_ok_def ws_contents_def NET_WS_QueueInit_def ring_items_def ws_consts)
next
  fix q :: "'a ws_queue" and x q' assume q: "ws_ok q" "NET_WS_QueuePop q = Some (x, q')"
  then show "ws_ok q'" using ws_pop(2) [OF q] by simp
next
  fix q :: "'a ws_queue" assume q: "ws_ok q"
  show "map_option (\<lambda>(x, q). (x, ws_contents q)) (NET_WS_QueuePop q) = fifo_pop (ws_contents q)"
  proof (cases "NET_WS_QueuePop q")
    case None
    then show ?thesis using ws_pop(1) [OF q] by simp
  next
    case (Some y)
    obtain x q' where y: "y = (x, q')" by fastforce
    then show ?thesis using ws_pop(2) [OF q Some [unfolded y]] Some by simp
  qed
qed (simp_all add: ws_push)

lemma drain_spec:
  "ws_ok q \<Longrightarrow> \<exists>q'. NET_WS_QueueDrain q = Some q' \<and> ws_ok q' \<and> ws_contents q' = []
     \<and> wq_free q' = wq_free q
     \<and> wq_freed q' = wq_freed q @ (if wq_free q then map fst (ws_contents q) else [])"
proof (induction "length (ws_contents q)" arbitrary: q rule: less_induct)
  case less
  show ?case
  proof (cases "NET_WS_QueuePop q")
    case None
    then show ?thesis using ws_pop(1) [OF less.prems] less.prems
      by (subst NET_WS_QueueDrain.simps) simp
  next
    case (Some y)
    obtain item src q1 where y: "y = ((item, src), q1)" by (metis surj_pair)
    note p = ws_pop(2) [OF less.prems Some [unfolded y]]
    obtain q' where "NET_WS_QueueDrain (free_ws_item item q1) = Some q'" "ws_ok q'" "ws_contents q' = []"
      "wq_free q' = wq_free q1"
      "wq_freed q' = wq_freed (free_ws_item item q1) @ (if wq_free q1 then map fst (ws_contents q1) else [])"
      using less.hyps [of "free_ws_item item q1"] p by auto
    then show ?thesis using Some y p
      by (subst NET_WS_QueueDrain.simps) (auto simp: free_ws_item_def)
  qed
qed

text \<open>The items a ring is responsible for: those it holds and those it has freed.\<close>

definition ws_owned :: "'a ws_queue \<Rightarrow> 'a option multiset" where
  "ws_owned q = mset (map fst (ws_contents q)) + mset (wq_freed q)"

lemma owned_push:
  assumes "ws_ok q" "wq_free q"
  shows "ws_owned (fst (NET_WS_QueuePush x q)) = add_mset (fst x) (ws_owned q)"
    and "wq_free (fst (NET_WS_QueuePush x q))"
proof -
  obtain item src where x: "x = (item, src)" by fastforce
  note c = ws_push(2) [OF assms(1), of x]
  show "wq_free (fst (NET_WS_QueuePush x q))"
    using assms by (auto simp: NET_WS_QueuePush_def x Let_def free_ws_item_def)
  show "ws_owned (fst (NET_WS_QueuePush x q)) = add_mset (fst x) (ws_owned q)"
  proof (cases "(wq_tail q + 1) mod NET_WS_RECV_QUEUE = wq_head q")
    case True
    then have r: "\<not> snd (NET_WS_QueuePush x q)"
      "wq_freed (fst (NET_WS_QueuePush x q)) = wq_freed q @ [item]"
      using assms by (simp_all add: NET_WS_QueuePush_def x Let_def free_ws_item_def)
    then have "ws_contents (fst (NET_WS_QueuePush x q)) = ws_contents q"
      using c by (auto simp: fifo_push_def split: if_splits)
    then show ?thesis using r x by (simp add: ws_owned_def)
  next
    case False
    then have r: "snd (NET_WS_QueuePush x q)" "wq_freed (fst (NET_WS_QueuePush x q)) = wq_freed q"
      by (simp_all add: NET_WS_QueuePush_def x Let_def)
    then have "ws_contents (fst (NET_WS_QueuePush x q)) = ws_contents q @ [x]"
      using c by (auto simp: fifo_push_def split: if_splits)
    then show ?thesis using r by (simp add: ws_owned_def)
  qed
qed

lemma owned_run:
  "ws_ok q \<Longrightarrow> wq_free q \<Longrightarrow>
   ws_ok (queue_after NET_WS_QueuePush NET_WS_QueuePop ops q)
   \<and> wq_free (queue_after NET_WS_QueuePush NET_WS_QueuePop ops q)
   \<and> mset (map fst (offered ops)) + ws_owned q
     = mset (map fst (handed_out (run_queue NET_WS_QueuePush NET_WS_QueuePop ops q)))
       + ws_owned (queue_after NET_WS_QueuePush NET_WS_QueuePop ops q)"
proof (induction ops arbitrary: q)
  case Nil
  then show ?case by simp
next
  case (Cons op ops)
  show ?case
  proof (cases op)
    case (Push x)
    let ?q = "fst (NET_WS_QueuePush x q)"
    have "ws_ok ?q" "wq_free ?q" "ws_owned ?q = add_mset (fst x) (ws_owned q)"
      using ws_push(1) owned_push Cons.prems by blast+
    then show ?thesis using Cons.IH [of ?q] Push by (simp add: split_def)
  next
    case Pop
    show ?thesis
    proof (cases "NET_WS_QueuePop q")
      case None
      then show ?thesis using Cons Pop by simp
    next
      case (Some y)
      obtain x q' where y: "y = (x, q')" by fastforce
      note p = ws_pop(2) [OF Cons.prems(1) Some [unfolded y]]
      have "ws_owned q = add_mset (fst x) (ws_owned q')" using p by (simp add: ws_owned_def)
      then show ?thesis using Cons.IH [of q'] p Cons.prems Pop Some y by simp
    qed
  qed
qed

subsection \<open>Properties\<close>

text \<open>C34: The receive ring is a first-in first-out queue of 127 items: no sequence of pushes and pops
  can tell it from a list that refuses the next item when it holds 127.\<close>

theorem ws_ring_refines_fifo:
  "run_queue NET_WS_QueuePush NET_WS_QueuePop ops (NET_WS_QueueInit b) = run_queue (fifo_push 127) fifo_pop ops []"
  using ws.runs_as_fifo [OF ws.invar_empty, of ops b] by (simp add: ws.contents_empty)

text \<open>C33: No item is leaked or freed twice: whatever is pushed and popped, draining the ring afterwards
  ends, leaves it empty, and every item ever offered to it has then been either handed out or freed,
  exactly once.\<close>

theorem ws_ring_frees_once:
  fixes ops :: "('a option \<times> u32) queue_op list"
  shows "\<exists>q. NET_WS_QueueDrain (queue_after NET_WS_QueuePush NET_WS_QueuePop ops (NET_WS_QueueInit True)) = Some q
     \<and> ws_contents q = []
     \<and> mset (map fst (offered ops))
       = mset (map fst (handed_out (run_queue NET_WS_QueuePush NET_WS_QueuePop ops (NET_WS_QueueInit True))))
         + mset (wq_freed q)"
proof -
  let ?q = "queue_after NET_WS_QueuePush NET_WS_QueuePop ops (NET_WS_QueueInit True)"
  have init: "wq_free (NET_WS_QueueInit True :: 'a ws_queue)" "ws_owned (NET_WS_QueueInit True :: 'a ws_queue) = {#}"
    using ws.contents_empty [of True] by (simp_all add: ws_owned_def) (simp_all add: NET_WS_QueueInit_def)
  note r = owned_run [OF ws.invar_empty init(1), of ops]
  then obtain q where q: "NET_WS_QueueDrain ?q = Some q" "ws_contents q = []"
    "wq_freed q = wq_freed ?q @ map fst (ws_contents ?q)"
    using drain_spec [of ?q] by auto
  then have "ws_owned ?q = mset (wq_freed q)" by (simp add: ws_owned_def)
  then have "mset (map fst (offered ops))
      = mset (map fst (handed_out (run_queue NET_WS_QueuePush NET_WS_QueuePop ops (NET_WS_QueueInit True))))
        + mset (wq_freed q)"
    using r init(2) by simp
  then show ?thesis using q(1,2) by blast
qed

text \<open>C36: An envelope that is built can be taken apart: the router strips the first word, which is the
  addressee, and the receiver reads back the sender and the payload; and a frame is built exactly
  when it fits the buffer and the limit of 4096 bytes, so nothing is ever truncated.\<close>

theorem ws_frame_roundtrip:
  "case NET_WS_BuildFrame out_len to from payload of
     None \<Rightarrow> length payload + 8 > 4096 \<or> length payload + 8 > out_len
   | Some frame \<Rightarrow> NET_WS_ReadU32LE frame = to \<and> length frame = length payload + 8 \<and> length frame \<le> 4096
       \<and> length frame \<le> out_len \<and> NET_WS_ParseFrame (drop 4 frame) = Some (from, payload)"
proof -
  have "NET_WS_ReadU32LE (NET_WS_WriteU32LE v @ xs) = v" for v xs by (rule Read_WriteU32LE)
  then show ?thesis by (auto simp: NET_WS_BuildFrame_def NET_WS_ParseFrame_def ws_consts)
qed

end
