(* ===== verification/Net_Websockets.thy ===== *)
theory Net_Websockets
  imports Net_WS_Frame Net_Packet
begin

text \<open>
  The WebSocket network module (\<open>engine/src/net_websockets.c\<close>): the life of its one socket, the
  callbacks, the announcement of a host, and the address table. A field of the state is the static
  variable of that name. The table owns its entries, so an address is the identity of its entry
  (\<open>ap_id\<close>); using one whose entry was freed is the fault \<open>NullDeref\<close>. \<open>ws_calls\<close> is not in the
  code: it is the list of the calls made to the socket library.

  The socket library is a parameter: \<open>ws_env\<close> says what its calls return, and \<open>we_reenter\<close> what
  the callbacks do that the library dispatches from within \<open>emscripten_websocket_close\<close>.
\<close>

datatype ws_state_t = WS_CLOSED | WS_CONNECTING | WS_OPEN | WS_FAILED

datatype ws_call = CallNew bytes | CallSend int bytes | CallClose int | CallDelete int

record addrpair =
  ap_id :: nat
  ap_node :: u32
  ap_refcount :: int

record websockets =
  websocket :: int
  ws_state :: ws_state_t
  local_node :: u32
  local_node_set :: bool
  announce_pending :: bool
  recv_queue :: "net_packet ws_queue"
  addr_table :: "addrpair option list"
  addr_table_size :: int
  next_id :: nat
  drops_bad_frame :: u32
  drops_not_open :: u32
  ws_calls :: "ws_call list"

record ws_env =
  we_supported :: bool
  we_wss :: "bytes option"
  we_new :: int
  we_send :: int
  we_entropy :: "nat \<Rightarrow> u32 option"
  we_ulong_max :: nat
  we_reenter :: "websockets \<Rightarrow> websockets res"

definition ws_boot :: websockets where
  "ws_boot = \<lparr>websocket = 0, ws_state = WS_CLOSED, local_node = 0, local_node_set = False,
     announce_pending = False, recv_queue = NET_WS_QueueInit False, addr_table = [],
     addr_table_size = -1, next_id = 0, drops_bad_frame = 0, drops_not_open = 0, ws_calls = []\<rparr>"

subsection \<open>The address table\<close>

definition InitAddrTable :: "websockets \<Rightarrow> websockets" where
  "InitAddrTable st = st\<lparr>addr_table_size := 16, addr_table := replicate 16 None\<rparr>"

text \<open>The search of \<open>FindAddress\<close>: the entry found, or the first free index if there is one.\<close>

fun scan_table :: "u32 \<Rightarrow> addrpair option list \<Rightarrow> nat \<Rightarrow> nat option \<Rightarrow> nat + nat option" where
  "scan_table node [] i empty_entry = Inr empty_entry"
| "scan_table node (None # table) i empty_entry =
     scan_table node table (i + 1) (if empty_entry = None then Some i else empty_entry)"
| "scan_table node (Some entry # table) i empty_entry =
     (if ap_node entry = node then Inl (ap_id entry) else scan_table node table (i + 1) empty_entry)"

definition FindAddress :: "u32 \<Rightarrow> websockets \<Rightarrow> nat \<times> websockets" where
  "FindAddress node st =
     (let st = (if addr_table_size st < 0 then InitAddrTable st else st)
      in case scan_table node (addr_table st) 0 None of
           Inl a \<Rightarrow> (a, st)
         | Inr empty_entry \<Rightarrow>
             let (empty_entry, st) =
                   (case empty_entry of
                      Some i \<Rightarrow> (i, st)
                    | None \<Rightarrow>
                        (length (addr_table st),
                         st\<lparr>addr_table := addr_table st @ replicate (length (addr_table st)) None,
                            addr_table_size := addr_table_size st * 2\<rparr>));
                 new_entry = \<lparr>ap_id = next_id st, ap_node = node, ap_refcount = 0\<rparr>
             in (next_id st, st\<lparr>addr_table := (addr_table st)[empty_entry := Some new_entry],
                                next_id := next_id st + 1\<rparr>))"

definition table_index :: "nat \<Rightarrow> addrpair option list \<Rightarrow> nat option" where
  "table_index a table =
     find (\<lambda>i. case table ! i of None \<Rightarrow> False | Some entry \<Rightarrow> ap_id entry = a) [0..<length table]"

definition NET_Websockets_FreeAddress :: "nat \<Rightarrow> websockets \<Rightarrow> websockets res" where
  "NET_Websockets_FreeAddress a st =
     (case table_index a (addr_table st) of
        Some i \<Rightarrow> Inr (st\<lparr>addr_table := (addr_table st)[i := None]\<rparr>)
      | None \<Rightarrow> Inl IError)"

definition addr_entry :: "nat \<Rightarrow> websockets \<Rightarrow> addrpair res" where
  "addr_entry a st =
     (case table_index a (addr_table st) of
        None \<Rightarrow> Inl NullDeref
      | Some i \<Rightarrow> (case addr_table st ! i of None \<Rightarrow> Inl NullDeref | Some entry \<Rightarrow> Inr entry))"

subsection \<open>The identity of this node\<close>

fun draw_node :: "ws_env \<Rightarrow> nat \<Rightarrow> nat \<Rightarrow> u32 res" where
  "draw_node e attempt 0 = Inl IError"
| "draw_node e attempt (Suc left) =
     (case we_entropy e attempt of
        None \<Rightarrow> draw_node e (attempt + 1) left
      | Some drawn \<Rightarrow>
          let node = drawn AND 0xffff
          in if node \<noteq> NET_WS_NODE_ROUTER \<and> node \<noteq> NET_WS_NODE_HOST then Inr node
             else draw_node e (attempt + 1) left)"

definition RandomNodeId :: "ws_env \<Rightarrow> u32 res" where
  "RandomNodeId e = draw_node e 0 16"

definition SetLocalNode :: "u32 \<Rightarrow> websockets \<Rightarrow> websockets" where
  "SetLocalNode node st =
     (if local_node_set st then st else st\<lparr>local_node := node, local_node_set := True\<rparr>)"

subsection \<open>The socket and its callbacks\<close>

definition called :: "ws_call \<Rightarrow> websockets \<Rightarrow> websockets" where
  "called c st = st\<lparr>ws_calls := ws_calls st @ [c]\<rparr>"

definition ShutdownSocket :: "ws_env \<Rightarrow> websockets \<Rightarrow> websockets res" where
  "ShutdownSocket e st =
     (let dying = websocket st;
          st = st\<lparr>websocket := 0\<rparr>
      in bindR (if dying > 0
                then bindR (we_reenter e (called (CallClose dying) st)) (\<lambda>st. Inr (called (CallDelete dying) st))
                else Inr st)
           (\<lambda>st. case NET_WS_QueueDrain (recv_queue st) of
                    None \<Rightarrow> Inl Diverges
                  | Some queue \<Rightarrow> Inr (st\<lparr>recv_queue := queue, ws_state := WS_FAILED\<rparr>)))"

definition StaleEvent :: "int \<Rightarrow> websockets \<Rightarrow> bool" where
  "StaleEvent socket st \<longleftrightarrow> websocket st \<le> 0 \<or> socket \<noteq> websocket st"

definition SendAnnounce :: "ws_env \<Rightarrow> websockets \<Rightarrow> websockets res" where
  "SendAnnounce e st =
     (case NET_WS_BuildFrame NET_WS_SEND_HEADER NET_WS_NODE_ROUTER (local_node st) [] of
        None \<Rightarrow> ShutdownSocket e st
      | Some frame \<Rightarrow>
          let st = called (CallSend (websocket st) frame) st
          in if we_send e < 0 then ShutdownSocket e st else Inr st)"

definition OnOpen :: "ws_env \<Rightarrow> int \<Rightarrow> websockets \<Rightarrow> websockets res" where
  "OnOpen e socket st =
     (if StaleEvent socket st then Inr st
      else let st = st\<lparr>ws_state := WS_OPEN\<rparr>
           in if announce_pending st then SendAnnounce e (st\<lparr>announce_pending := False\<rparr>) else Inr st)"

definition OnClose :: "ws_env \<Rightarrow> int \<Rightarrow> websockets \<Rightarrow> websockets res" where
  "OnClose e socket st = (if StaleEvent socket st then Inr st else ShutdownSocket e st)"

definition OnError :: "ws_env \<Rightarrow> int \<Rightarrow> websockets \<Rightarrow> websockets res" where
  "OnError e socket st = (if StaleEvent socket st then Inr st else ShutdownSocket e st)"

definition OnMessage :: "int \<Rightarrow> bool \<Rightarrow> bytes \<Rightarrow> websockets \<Rightarrow> websockets" where
  "OnMessage socket isText event_data st =
     (if StaleEvent socket st then st
      else if isText then st
      else case NET_WS_ParseFrame event_data of
             None \<Rightarrow> st\<lparr>drops_bad_frame := drops_bad_frame st + 1\<rparr>
           | Some (src, payload) \<Rightarrow>
               let packet = (NET_NewPacket (length payload))\<lparr>pdata := payload\<rparr>
               in st\<lparr>recv_queue := fst (NET_WS_QueuePush (Some packet, src) (recv_queue st))\<rparr>)"

subsection \<open>The operations of the module\<close>

definition InitWebSockets :: "ws_env \<Rightarrow> websockets \<Rightarrow> bool \<times> websockets" where
  "InitWebSockets e st =
     (if ws_state st = WS_OPEN \<or> ws_state st = WS_CONNECTING then (True, st)
      else if ws_state st = WS_FAILED then (False, st)
      else if \<not> we_supported e then (False, st\<lparr>ws_state := WS_FAILED\<rparr>)
      else case we_wss e of
             None \<Rightarrow> (False, st\<lparr>ws_state := WS_FAILED\<rparr>)
           | Some url \<Rightarrow>
               let st = called (CallNew url) (st\<lparr>websocket := we_new e\<rparr>)
               in if websocket st \<le> 0 then (False, st\<lparr>ws_state := WS_FAILED\<rparr>)
                  else (True, st\<lparr>recv_queue := NET_WS_QueueInit True, ws_state := WS_CONNECTING\<rparr>))"

definition NET_Websockets_InitClient :: "ws_env \<Rightarrow> websockets \<Rightarrow> (bool \<times> websockets) res" where
  "NET_Websockets_InitClient e st =
     bindR (RandomNodeId e) (\<lambda>node. Inr (InitWebSockets e (SetLocalNode node st)))"

definition NET_Websockets_InitServer :: "ws_env \<Rightarrow> websockets \<Rightarrow> (bool \<times> websockets) res" where
  "NET_Websockets_InitServer e st =
     (let (ok, st) = InitWebSockets e (SetLocalNode NET_WS_NODE_HOST st)
      in if \<not> ok then Inr (False, st)
         else if ws_state st = WS_OPEN then bindR (SendAnnounce e st) (\<lambda>st. Inr (True, st))
         else Inr (True, st\<lparr>announce_pending := True\<rparr>))"

text \<open>The address is \<open>None\<close> where the code's pointer or its handle is NULL (the broadcast address).\<close>

definition NET_Websockets_SendPacket :: "ws_env \<Rightarrow> nat option \<Rightarrow> net_packet \<Rightarrow> websockets \<Rightarrow> websockets res"
where
  "NET_Websockets_SendPacket e addr packet st =
     (case addr of
        None \<Rightarrow> Inr st
      | Some a \<Rightarrow>
          let (ok, st) = InitWebSockets e st
          in if \<not> ok \<or> ws_state st \<noteq> WS_OPEN then Inr (st\<lparr>drops_not_open := drops_not_open st + 1\<rparr>)
             else if length (pdata packet) > NET_WS_MAX_FRAME - NET_WS_SEND_HEADER
             then Inr (st\<lparr>drops_bad_frame := drops_bad_frame st + 1\<rparr>)
             else bindR (addr_entry a st) (\<lambda>entry.
               let capacity = length (pdata packet) + NET_WS_SEND_HEADER
               in case NET_WS_BuildFrame capacity (ap_node entry) (local_node st) (pdata packet) of
                    None \<Rightarrow> Inr (st\<lparr>drops_bad_frame := drops_bad_frame st + 1\<rparr>)
                  | Some frame \<Rightarrow>
                      let st = called (CallSend (websocket st) frame) st
                      in if we_send e < 0 then ShutdownSocket e st else Inr st))"

definition NET_Websockets_RecvPacket :: "websockets \<Rightarrow> (nat \<times> net_packet option) option \<times> websockets" where
  "NET_Websockets_RecvPacket st =
     (case NET_WS_QueuePop (recv_queue st) of
        None \<Rightarrow> (None, st)
      | Some ((item, src), queue) \<Rightarrow>
          let (a, st) = FindAddress src (st\<lparr>recv_queue := queue\<rparr>)
          in (Some (a, item), st))"

text \<open>\<open>%u\<close>, and \<open>strtoul\<close> in base ten: the value and the text after the number.\<close>

fun decimal :: "nat \<Rightarrow> bytes" where
  "decimal n = (if n < 10 then [of_nat (48 + n)] else decimal (n div 10) @ [of_nat (48 + n mod 10)])"

declare decimal.simps [simp del]

definition NET_Websockets_AddrToString :: "nat \<Rightarrow> nat \<Rightarrow> websockets \<Rightarrow> bytes res" where
  "NET_Websockets_AddrToString a buffer_len st =
     bindR (addr_entry a st) (\<lambda>entry.
       Inr (M_snprintf buffer_len (cstr ''ws node '' @ decimal (unat (ap_node entry)))))"

definition is_space :: "u8 \<Rightarrow> bool" where
  "is_space c \<longleftrightarrow> c = 32 \<or> 9 \<le> c \<and> c \<le> 13"

definition is_digit :: "u8 \<Rightarrow> bool" where
  "is_digit c \<longleftrightarrow> 48 \<le> c \<and> c \<le> 57"

fun digits_value :: "nat \<Rightarrow> bytes \<Rightarrow> nat \<times> bytes" where
  "digits_value v [] = (v, [])"
| "digits_value v (c # cs) =
     (if is_digit c then digits_value (v * 10 + (unat c - 48)) cs else (v, c # cs))"

definition strtoul10 :: "nat \<Rightarrow> bytes \<Rightarrow> nat \<times> bytes" where
  "strtoul10 ulong_max s =
     (let t = dropWhile is_space s;
          (negative, t) = (case t of
              c # cs \<Rightarrow> if c = 45 then (True, cs) else if c = 43 then (False, cs) else (False, t)
            | [] \<Rightarrow> (False, t))
      in case t of
           [] \<Rightarrow> (0, s)
         | c # cs \<Rightarrow>
             if \<not> is_digit c then (0, s)
             else let (v, end_text) = digits_value 0 t
                  in (if v > ulong_max then ulong_max
                      else if negative then (ulong_max + 1 - v) mod (ulong_max + 1) else v, end_text))"

definition NET_Websockets_ResolveAddress :: "ws_env \<Rightarrow> bytes option \<Rightarrow> websockets \<Rightarrow> nat option \<times> websockets" where
  "NET_Websockets_ResolveAddress e address st =
     (case address of
        None \<Rightarrow> (case FindAddress NET_WS_NODE_HOST st of (a, st) \<Rightarrow> (Some a, st))
      | Some address \<Rightarrow>
          let (node, end_text) = strtoul10 (we_ulong_max e) address
          in if length end_text = length address \<or> end_text \<noteq> [] \<or> node > 0xffffffff then (None, st)
             else case FindAddress (of_nat node) st of (a, st) \<Rightarrow> (Some a, st))"

end
