(* ===== verification/Net_Websockets_Inv.thy ===== *)
theory Net_Websockets_Inv
  imports Net_Websockets
begin

text \<open>
  The WebSocket module as a state machine: the events that reach it, the states they lead to, and
  the invariant of those states: the socket is open exactly while the state says so, and the calls
  made to the library follow one session (created once, closed once, nothing sent before it opens
  or after it is closed).
\<close>

datatype ws_callback =
  Opened int | Closed int | Failed int | Message int bool bytes

fun callback :: "ws_env \<Rightarrow> ws_callback \<Rightarrow> websockets \<Rightarrow> websockets res" where
  "callback e (Opened socket) st = OnOpen e socket st"
| "callback e (Closed socket) st = OnClose e socket st"
| "callback e (Failed socket) st = OnError e socket st"
| "callback e (Message socket isText event_data) st = Inr (OnMessage socket isText event_data st)"

definition callbacks :: "ws_env \<Rightarrow> ws_callback list \<Rightarrow> websockets \<Rightarrow> websockets res" where
  "callbacks e = foldR (callback e)"

datatype ws_event =
  InitClient | InitServer | Callback ws_callback | SendTo "nat option" net_packet
| Receive | Resolve "bytes option" | FreeAddr nat

fun on_event :: "ws_env \<Rightarrow> ws_event \<Rightarrow> websockets \<Rightarrow> websockets res" where
  "on_event e InitClient st = bindR (NET_Websockets_InitClient e st) (\<lambda>(_, st). Inr st)"
| "on_event e InitServer st = bindR (NET_Websockets_InitServer e st) (\<lambda>(_, st). Inr st)"
| "on_event e (Callback cb) st = callback e cb st"
| "on_event e (SendTo addr packet) st = NET_Websockets_SendPacket e addr packet st"
| "on_event e Receive st = Inr (snd (NET_Websockets_RecvPacket st))"
| "on_event e (Resolve address) st = Inr (snd (NET_Websockets_ResolveAddress e address st))"
| "on_event e (FreeAddr a) st = NET_Websockets_FreeAddress a st"

text \<open>All the library can do from within a call is to dispatch callbacks.\<close>

definition browser :: "ws_env \<Rightarrow> bool" where
  "browser e \<longleftrightarrow> (\<exists>e' cbs. we_reenter e = callbacks e' cbs)"

inductive ws_reach :: "ws_event list \<Rightarrow> websockets \<Rightarrow> bool" where
  boot: "ws_reach [] ws_boot"
| step: "ws_reach evs st \<Longrightarrow> browser e \<Longrightarrow> on_event e ev st = Inr st' \<Longrightarrow> ws_reach (evs @ [ev]) st'"

inductive_cases ws_reach_snocE: "ws_reach (evs @ [ev]) st"
inductive_simps ws_reach_Nil: "ws_reach [] st"

subsection \<open>Shutting down\<close>

lemma stale_callback: "websocket st \<le> 0 \<Longrightarrow> callback e cb st = Inr st"
  by (cases cb) (simp_all add: OnOpen_def OnClose_def OnError_def OnMessage_def StaleEvent_def)

lemma stale_callbacks: "websocket st \<le> 0 \<Longrightarrow> callbacks e cbs st = Inr st"
  by (induction cbs) (simp_all add: callbacks_def stale_callback)

lemma Shutdown_browser:
  "browser e \<Longrightarrow> ShutdownSocket e st = ShutdownSocket (e\<lparr>we_reenter := Inr\<rparr>) st"
  by (auto simp: browser_def ShutdownSocket_def Let_def called_def stale_callbacks)

definition closing_calls :: "websockets \<Rightarrow> ws_call list" where
  "closing_calls st =
     (if websocket st > 0 then [CallClose (websocket st), CallDelete (websocket st)] else [])"

lemma Shutdown_spec:
  assumes "browser e" "ws_ok (recv_queue st)"
  obtains q where "ShutdownSocket e st =
      Inr (st\<lparr>websocket := 0, ws_state := WS_FAILED, recv_queue := q, ws_calls := ws_calls st @ closing_calls st\<rparr>)"
    "ws_ok q" "ws_contents q = []"
proof -
  obtain q where q: "NET_WS_QueueDrain (recv_queue st) = Some q" "ws_ok q" "ws_contents q = []"
    using drain_spec [OF assms(2)] by blast
  have "ShutdownSocket e st =
      Inr (st\<lparr>websocket := 0, ws_state := WS_FAILED, recv_queue := q, ws_calls := ws_calls st @ closing_calls st\<rparr>)"
    unfolding Shutdown_browser [OF assms(1), of st]
    using q(1) by (simp add: ShutdownSocket_def Let_def called_def closing_calls_def)
  then show thesis using q(2,3) by (rule that)
qed

subsection \<open>The invariant\<close>

definition linked :: "websockets \<Rightarrow> bool" where
  "linked st \<longleftrightarrow> ws_state st = WS_CONNECTING \<or> ws_state st = WS_OPEN"

fun session_calls :: "ws_state_t \<Rightarrow> int \<Rightarrow> ws_call list \<Rightarrow> bool" where
  "session_calls WS_CLOSED socket calls \<longleftrightarrow> calls = []"
| "session_calls WS_CONNECTING socket calls \<longleftrightarrow> (\<exists>url. calls = [CallNew url])"
| "session_calls WS_OPEN socket calls \<longleftrightarrow> (\<exists>url frames. calls = CallNew url # map (CallSend socket) frames)"
| "session_calls WS_FAILED socket calls \<longleftrightarrow> calls = [] \<or> (\<exists>url. calls = [CallNew url])
     \<or> (\<exists>url h frames. h > 0 \<and> calls = CallNew url # map (CallSend h) frames @ [CallClose h, CallDelete h])"

definition ws_inv :: "websockets \<Rightarrow> bool" where
  "ws_inv st \<longleftrightarrow> ws_ok (recv_queue st) \<and> (websocket st > 0 \<longleftrightarrow> linked st)
     \<and> (\<not> linked st \<longrightarrow> ws_contents (recv_queue st) = [])
     \<and> (announce_pending st \<longrightarrow> ws_state st = WS_CONNECTING \<or> ws_state st = WS_FAILED)
     \<and> session_calls (ws_state st) (websocket st) (ws_calls st)"

lemma ws_inv_boot: "ws_inv ws_boot"
  using ws.invar_empty [of False] ws.contents_empty [of False]
  by (simp add: ws_inv_def ws_boot_def linked_def)

text \<open>What the invariant does not look at.\<close>

lemma ws_inv_frame [simp]:
  "ws_inv (st\<lparr>drops_bad_frame := a\<rparr>) = ws_inv st" "ws_inv (st\<lparr>drops_not_open := a\<rparr>) = ws_inv st"
  "ws_inv (st\<lparr>addr_table := t\<rparr>) = ws_inv st" "ws_inv (st\<lparr>addr_table_size := n\<rparr>) = ws_inv st"
  "ws_inv (st\<lparr>next_id := k\<rparr>) = ws_inv st" "ws_inv (st\<lparr>local_node := v\<rparr>) = ws_inv st"
  "ws_inv (st\<lparr>local_node_set := b\<rparr>) = ws_inv st"
  by (simp_all add: ws_inv_def linked_def)

text \<open>The frames handed to the socket, in order; and what closing or sending leaves alone.\<close>

fun sent :: "ws_call list \<Rightarrow> bytes list" where
  "sent [] = []"
| "sent (CallSend h frame # calls) = frame # sent calls"
| "sent (_ # calls) = sent calls"

lemma sent_append [simp]: "sent (xs @ ys) = sent xs @ sent ys"
  by (induction xs rule: sent.induct) simp_all

definition same_node :: "websockets \<Rightarrow> websockets \<Rightarrow> bool" where
  "same_node st st' \<longleftrightarrow> addr_table st' = addr_table st \<and> addr_table_size st' = addr_table_size st
     \<and> next_id st' = next_id st \<and> local_node st' = local_node st \<and> local_node_set st' = local_node_set st"

lemma same_node_refl [simp]: "same_node st st"
  by (simp add: same_node_def)

lemma same_node_trans: "same_node a b \<Longrightarrow> same_node b c \<Longrightarrow> same_node a c"
  by (simp add: same_node_def)

lemma Shutdown_inv:
  assumes "browser e" "ws_inv st" "linked st"
  shows "\<exists>st'. ShutdownSocket e st = Inr st' \<and> ws_inv st' \<and> ws_state st' = WS_FAILED
    \<and> sent (ws_calls st') = sent (ws_calls st) \<and> same_node st st'"
proof -
  have w: "ws_ok (recv_queue st)" "websocket st > 0" using assms by (simp_all add: ws_inv_def)
  obtain q where q: "ShutdownSocket e st =
      Inr (st\<lparr>websocket := 0, ws_state := WS_FAILED, recv_queue := q, ws_calls := ws_calls st @ closing_calls st\<rparr>)"
    "ws_ok q" "ws_contents q = []"
    by (rule Shutdown_spec [OF assms(1) w(1)])
  have "\<exists>url frames. ws_calls st = CallNew url # map (CallSend (websocket st)) frames"
  proof (cases "ws_state st = WS_OPEN")
    case True
    then show ?thesis using assms(2) by (simp add: ws_inv_def)
  next
    case False
    then obtain url where "ws_calls st = [CallNew url]"
      using assms(2,3) by (auto simp: ws_inv_def linked_def)
    then have "ws_calls st = CallNew url # map (CallSend (websocket st)) []" by simp
    then show ?thesis by blast
  qed
  then show ?thesis using q w(2)
    by (auto simp: ws_inv_def linked_def closing_calls_def same_node_def)
qed

lemma Send_inv:
  fixes frame e st
  defines "st1 \<equiv> called (CallSend (websocket st) frame) st"
  assumes "browser e" "ws_inv st" "ws_state st = WS_OPEN"
  shows "\<exists>st'. (if we_send e < 0 then ShutdownSocket e st1 else Inr st1) = Inr st' \<and> ws_inv st'
    \<and> (ws_state st' = WS_OPEN \<or> ws_state st' = WS_FAILED)
    \<and> sent (ws_calls st') = sent (ws_calls st) @ [frame] \<and> same_node st st'"
proof -
  obtain url frames where "ws_calls st = CallNew url # map (CallSend (websocket st)) frames"
    using assms(3,4) by (auto simp: ws_inv_def)
  then have "ws_calls st1 = CallNew url # map (CallSend (websocket st)) (frames @ [frame])"
    by (simp add: st1_def called_def)
  then have "session_calls WS_OPEN (websocket st) (ws_calls st1)" unfolding session_calls.simps by blast
  then have i: "ws_inv st1" using assms(3,4) by (simp add: st1_def ws_inv_def called_def linked_def)
  have l: "linked st1" "sent (ws_calls st1) = sent (ws_calls st) @ [frame]" "same_node st st1"
      "ws_state st1 = WS_OPEN"
    using assms(4) by (simp_all add: st1_def linked_def called_def same_node_def)
  show ?thesis
  proof (cases "we_send e < 0")
    case True
    then show ?thesis using Shutdown_inv [OF assms(2) i l(1)] l same_node_trans [OF l(3)] by auto
  next
    case False
    then show ?thesis using i l by simp
  qed
qed

lemma Announce_inv:
  assumes "browser e" "ws_inv st" "ws_state st = WS_OPEN"
  shows "\<exists>st'. SendAnnounce e st = Inr st' \<and> ws_inv st' \<and> (ws_state st' = WS_OPEN \<or> ws_state st' = WS_FAILED)
    \<and> sent (ws_calls st') = sent (ws_calls st) @
        [NET_WS_WriteU32LE NET_WS_NODE_ROUTER @ NET_WS_WriteU32LE (local_node st)] \<and> same_node st st'"
proof -
  have "NET_WS_BuildFrame NET_WS_SEND_HEADER NET_WS_NODE_ROUTER (local_node st) []
      = Some (NET_WS_WriteU32LE NET_WS_NODE_ROUTER @ NET_WS_WriteU32LE (local_node st))"
    by (simp add: NET_WS_BuildFrame_def ws_consts)
  then show ?thesis using Send_inv [OF assms] by (simp add: SendAnnounce_def Let_def)
qed

subsection \<open>The host\<close>

definition host_announce :: bytes where
  "host_announce = NET_WS_WriteU32LE NET_WS_NODE_ROUTER @ NET_WS_WriteU32LE NET_WS_NODE_HOST"

definition host_base :: "websockets \<Rightarrow> bool" where
  "host_base st \<longleftrightarrow> local_node_set st \<and> local_node st = NET_WS_NODE_HOST \<and> ws_state st \<noteq> WS_CLOSED
     \<and> (sent (ws_calls st) \<noteq> [] \<longrightarrow> hd (sent (ws_calls st)) = host_announce)"

definition host_inv :: "websockets \<Rightarrow> bool" where
  "host_inv st \<longleftrightarrow> host_base st \<and> (ws_state st = WS_CONNECTING \<longrightarrow> announce_pending st)
     \<and> (ws_state st = WS_OPEN \<longrightarrow> sent (ws_calls st) \<noteq> [])"

lemma host_frame [simp]:
  "host_inv (st\<lparr>drops_bad_frame := a\<rparr>) = host_inv st" "host_inv (st\<lparr>drops_not_open := a\<rparr>) = host_inv st"
  "host_inv (st\<lparr>addr_table := t\<rparr>) = host_inv st" "host_inv (st\<lparr>addr_table_size := n\<rparr>) = host_inv st"
  "host_inv (st\<lparr>next_id := k\<rparr>) = host_inv st" "host_inv (st\<lparr>recv_queue := q\<rparr>) = host_inv st"
  by (simp_all add: host_inv_def host_base_def)

text \<open>The invariant for a run that did (\<open>host\<close>) or did not begin as the host.\<close>

definition ws_run :: "bool \<Rightarrow> websockets \<Rightarrow> bool" where
  "ws_run host st \<longleftrightarrow> ws_inv st \<and> (host \<longrightarrow> host_inv st)"

lemma ws_run_frame [simp]:
  "ws_run h (st\<lparr>drops_bad_frame := a\<rparr>) = ws_run h st" "ws_run h (st\<lparr>drops_not_open := a\<rparr>) = ws_run h st"
  "ws_run h (st\<lparr>addr_table := t\<rparr>) = ws_run h st" "ws_run h (st\<lparr>addr_table_size := n\<rparr>) = ws_run h st"
  "ws_run h (st\<lparr>next_id := k\<rparr>) = ws_run h st"
  by (simp_all add: ws_run_def)

text \<open>What every operation does: it keeps the invariant, and does nothing to a failed socket.\<close>

definition evolves :: "bool \<Rightarrow> websockets \<Rightarrow> websockets \<Rightarrow> bool" where
  "evolves h st st' \<longleftrightarrow> ws_run h st'
     \<and> (ws_state st = WS_FAILED \<longrightarrow> ws_state st' = WS_FAILED \<and> ws_calls st' = ws_calls st)"

lemma Announce_evolves:
  assumes "browser e" "ws_inv st" "ws_state st = WS_OPEN" "h \<longrightarrow> host_base st"
  shows "\<exists>st'. SendAnnounce e st = Inr st' \<and> ws_run h st' \<and> same_node st st'"
  using Announce_inv [OF assms(1-3)] assms(3,4)
  by (auto simp: ws_run_def host_inv_def host_base_def same_node_def host_announce_def hd_append)

lemma Shutdown_evolves:
  assumes "browser e" "ws_run h st" "linked st"
  shows "\<exists>st'. ShutdownSocket e st = Inr st' \<and> ws_run h st' \<and> same_node st st'"
  using Shutdown_inv [OF assms(1) _ assms(3)] assms(2)
  by (auto simp: ws_run_def host_inv_def host_base_def same_node_def)

lemma not_stale: "ws_inv st \<Longrightarrow> \<not> StaleEvent socket st \<Longrightarrow> linked st"
  by (auto simp: StaleEvent_def ws_inv_def)

lemma OnOpen_evolves:
  assumes "browser e" "ws_run h st"
  shows "\<exists>st'. OnOpen e socket st = Inr st' \<and> evolves h st st' \<and> same_node st st'"
proof (cases "StaleEvent socket st")
  case True
  then show ?thesis using assms by (simp add: OnOpen_def evolves_def same_node_def)
next
  case live: False
  have i: "ws_inv st" using assms(2) by (simp add: ws_run_def)
  have l: "linked st" by (rule not_stale [OF i live])
  let ?st = "st\<lparr>ws_state := WS_OPEN, announce_pending := False\<rparr>"
  have o: "ws_inv ?st"
  proof (cases "ws_state st = WS_OPEN")
    case True
    then show ?thesis using i by (simp add: ws_inv_def linked_def)
  next
    case False
    then obtain url where "ws_calls st = CallNew url # map (CallSend (websocket st)) []"
      using i l by (auto simp: ws_inv_def linked_def)
    then have "session_calls WS_OPEN (websocket st) (ws_calls st)" unfolding session_calls.simps by blast
    then show ?thesis using i l by (simp add: ws_inv_def linked_def)
  qed
  have nf: "ws_state st \<noteq> WS_FAILED" using l by (auto simp: linked_def)
  show ?thesis
  proof (cases "announce_pending st")
    case True
    have "h \<longrightarrow> host_base ?st" using assms(2) by (simp add: ws_run_def host_inv_def host_base_def)
    from Announce_evolves [OF assms(1) o _ this] show ?thesis
      using live True nf by (auto simp: OnOpen_def Let_def evolves_def same_node_def)
  next
    case False
    have "OnOpen e socket st = Inr (st\<lparr>ws_state := WS_OPEN\<rparr>)"
      using live False by (simp add: OnOpen_def Let_def)
    also have "\<dots> = Inr ?st" using False by simp
    finally have e: "OnOpen e socket st = Inr ?st" .
    have "h \<longrightarrow> host_inv ?st" using assms(2) False l
      by (auto simp: ws_run_def host_inv_def host_base_def linked_def)
    then show ?thesis using nf o unfolding e by (simp add: evolves_def ws_run_def same_node_def)
  qed
qed

lemma Close_evolves:
  assumes "browser e" "ws_run h st"
  shows "\<exists>st'. OnClose e socket st = Inr st' \<and> evolves h st st' \<and> same_node st st'"
    and "\<exists>st'. OnError e socket st = Inr st' \<and> evolves h st st' \<and> same_node st st'"
proof -
  have "\<exists>st'. ShutdownSocket e st = Inr st' \<and> evolves h st st' \<and> same_node st st'" if "\<not> StaleEvent socket st"
  proof -
    have l: "linked st" using not_stale that assms(2) by (auto simp: ws_run_def)
    then have "ws_state st \<noteq> WS_FAILED" by (auto simp: linked_def)
    then show ?thesis using Shutdown_evolves [OF assms l] by (auto simp: evolves_def)
  qed
  then show "\<exists>st'. OnClose e socket st = Inr st' \<and> evolves h st st' \<and> same_node st st'"
    and "\<exists>st'. OnError e socket st = Inr st' \<and> evolves h st st' \<and> same_node st st'"
    using assms(2) by (auto simp: OnClose_def OnError_def evolves_def same_node_def)
qed

lemma queue_ws_run:
  "ws_run h st \<Longrightarrow> ws_ok q \<Longrightarrow> (\<not> linked st \<Longrightarrow> ws_contents q = []) \<Longrightarrow> ws_run h (st\<lparr>recv_queue := q\<rparr>)"
  by (auto simp: ws_run_def ws_inv_def linked_def)

lemma OnMessage_evolves:
  assumes "ws_run h st"
  shows "evolves h st (OnMessage socket isText event_data st) \<and> same_node st (OnMessage socket isText event_data st)"
proof (cases "StaleEvent socket st")
  case True
  then show ?thesis using assms by (simp add: OnMessage_def evolves_def same_node_def)
next
  case False
  have q: "linked st" "ws_ok (recv_queue st)"
    using not_stale [OF _ False] assms by (auto simp: ws_run_def ws_inv_def)
  then show ?thesis
    using assms False
    by (auto simp: OnMessage_def evolves_def same_node_def Let_def ws_push(1) intro!: queue_ws_run split: option.split)
qed

lemma callback_evolves:
  "browser e \<Longrightarrow> ws_run h st \<Longrightarrow> \<exists>st'. callback e cb st = Inr st' \<and> evolves h st st' \<and> same_node st st'"
  by (cases cb) (simp_all add: OnOpen_evolves Close_evolves OnMessage_evolves)

subsection \<open>The operations\<close>

lemma Init_ws:
  assumes "ws_inv st" "InitWebSockets e st = (ok, st')"
  shows "ws_inv st' \<and> (ok \<longleftrightarrow> linked st') \<and> ws_state st' \<noteq> WS_CLOSED \<and> same_node st st'
    \<and> (ws_state st = WS_CLOSED \<longrightarrow> ws_state st' \<noteq> WS_OPEN \<and> sent (ws_calls st') = [])
    \<and> (ws_state st \<noteq> WS_CLOSED \<longrightarrow> st' = st)"
proof (cases "ws_state st = WS_CLOSED")
  case False
  then show ?thesis using assms by (cases "ws_state st") (auto simp: InitWebSockets_def linked_def)
next
  case True
  have c: "\<not> announce_pending st" "ws_calls st = []" "ws_ok (recv_queue st)"
      "ws_contents (recv_queue st) = []" "\<not> websocket st > 0"
    using assms(1) True by (simp_all add: ws_inv_def linked_def)
  consider (down) "\<not> we_supported e \<or> we_wss e = None" "ok = False" "st' = st\<lparr>ws_state := WS_FAILED\<rparr>"
    | (refused) url where "we_wss e = Some url" "\<not> we_new e > 0" "ok = False"
        "st' = called (CallNew url) (st\<lparr>websocket := we_new e, ws_state := WS_FAILED\<rparr>)"
    | (created) url where "we_wss e = Some url" "we_new e > 0" "ok = True"
        "st' = called (CallNew url) (st\<lparr>websocket := we_new e, ws_state := WS_CONNECTING,
                 recv_queue := NET_WS_QueueInit True\<rparr>)"
    using assms(2) True
    by (cases "we_supported e"; cases "we_wss e"; cases "we_new e > 0")
      (auto simp: InitWebSockets_def Let_def called_def)
  then show ?thesis
  proof cases
    case down
    then show ?thesis using c True by (simp add: ws_inv_def linked_def same_node_def)
  next
    case refused
    then show ?thesis using c True by (simp add: ws_inv_def linked_def same_node_def called_def)
  next
    case created
    then show ?thesis using c True ws.invar_empty [of True]
      by (simp add: ws_inv_def linked_def same_node_def called_def)
  qed
qed

lemma SetLocalNode_inv [simp]: "ws_inv (SetLocalNode node st) = ws_inv st"
  by (simp add: SetLocalNode_def)

lemma SetLocalNode_proj [simp]:
  "ws_state (SetLocalNode node st) = ws_state st" "ws_calls (SetLocalNode node st) = ws_calls st"
  "linked (SetLocalNode node st) = linked st" "local_node_set (SetLocalNode node st)"
  by (simp_all add: SetLocalNode_def linked_def)

lemma SetLocalNode_host: "host_inv st \<Longrightarrow> SetLocalNode node st = st"
  by (simp add: SetLocalNode_def host_inv_def host_base_def)

lemma Init_evolves:
  assumes "ws_run h st" "InitWebSockets e st = (ok, st')"
  shows "evolves h st st'" "ok \<longleftrightarrow> linked st'"
  using Init_ws [OF _ assms(2)] assms(1) by (auto simp: evolves_def ws_run_def host_inv_def host_base_def)

lemma SetLocalNode_run: "ws_run h st \<Longrightarrow> ws_run h (SetLocalNode node st)"
  by (auto simp: ws_run_def SetLocalNode_host)

lemma InitClient_evolves:
  assumes "ws_run h st" "NET_Websockets_InitClient e st = Inr (ok, st')"
  shows "evolves h st st'"
proof -
  obtain node where "InitWebSockets e (SetLocalNode node st) = (ok, st')"
    using assms(2) by (auto simp: NET_Websockets_InitClient_def bindR_eq_Inr)
  from Init_evolves(1) [OF SetLocalNode_run [OF assms(1)] this] show ?thesis by (simp add: evolves_def)
qed

text \<open>The server's initialisation also establishes the host's invariant on a fresh module.\<close>

lemma InitServer_evolves:
  assumes "browser e" "ws_inv st" "h \<longrightarrow> host_inv st \<or> ws_state st = WS_CLOSED \<and> \<not> local_node_set st"
  shows "\<exists>ok st'. NET_Websockets_InitServer e st = Inr (ok, st') \<and> evolves h st st'"
proof -
  let ?s = "SetLocalNode NET_WS_NODE_HOST st"
  obtain ok st1 where i: "InitWebSockets e ?s = (ok, st1)" by fastforce
  have "ws_inv ?s" using assms(2) by simp
  note n = Init_ws [OF this i]
  have base: "host_base st1" if h
  proof (cases "ws_state st = WS_CLOSED")
    case True
    then have "ws_state st1 \<noteq> WS_CLOSED" "sent (ws_calls st1) = []" "same_node ?s st1" using n by simp_all
    moreover have "local_node_set ?s \<and> local_node ?s = NET_WS_NODE_HOST"
      using assms(3) that True by (auto simp: SetLocalNode_def host_inv_def host_base_def)
    ultimately show ?thesis by (simp add: host_base_def same_node_def)
  next
    case False
    then show ?thesis using n assms(3) that by (auto simp: SetLocalNode_host host_inv_def)
  qed
  consider (no) "\<not> ok" | (announce) "ok" "ws_state st1 = WS_OPEN" | (later) "ok" "ws_state st1 = WS_CONNECTING"
    using n by (auto simp: linked_def)
  then show ?thesis
  proof cases
    case no
    then have "NET_Websockets_InitServer e st = Inr (False, st1)" by (simp add: NET_Websockets_InitServer_def i)
    moreover have "\<not> linked st1" "ws_state st = WS_FAILED \<longrightarrow> st1 = ?s" using n no by auto
    moreover from this(1) have "ws_run h st1" using n base by (auto simp: ws_run_def host_inv_def linked_def)
    ultimately show ?thesis by (auto simp: evolves_def)
  next
    case announce
    obtain st' where a: "SendAnnounce e st1 = Inr st'" "ws_run h st'"
      using Announce_evolves [of e st1 h] assms(1) n announce(2) base by blast
    moreover have "ws_state st \<noteq> WS_FAILED" using n announce by (auto simp: linked_def)
    ultimately show ?thesis using announce by (auto simp: NET_Websockets_InitServer_def i evolves_def)
  next
    case later
    then have "NET_Websockets_InitServer e st = Inr (True, st1\<lparr>announce_pending := True\<rparr>)"
      by (simp add: NET_Websockets_InitServer_def i)
    moreover have "ws_run h (st1\<lparr>announce_pending := True\<rparr>)"
      using n base later by (auto simp: ws_run_def ws_inv_def linked_def host_inv_def host_base_def)
    moreover have "ws_state st \<noteq> WS_FAILED" using n later by (auto simp: linked_def)
    ultimately show ?thesis by (auto simp: evolves_def)
  qed
qed

lemma evolves_trans: "evolves h a b \<Longrightarrow> evolves h b c \<Longrightarrow> evolves h a c"
  by (simp add: evolves_def)

text \<open>A send faults on a dead address only.\<close>

lemma SendPacket_evolves:
  assumes "browser e" "ws_run h st"
  shows "\<exists>st'. NET_Websockets_SendPacket e None packet st = Inr st' \<and> evolves h st st'"
    and "NET_Websockets_SendPacket e (Some a) packet st = Inl f \<Longrightarrow> addr_entry a st = Inl f"
    and "NET_Websockets_SendPacket e (Some a) packet st = Inr st' \<Longrightarrow> evolves h st st' \<and> same_node st st'"
proof -
  show "\<exists>st'. NET_Websockets_SendPacket e None packet st = Inr st' \<and> evolves h st st'"
    using assms(2) by (simp add: NET_Websockets_SendPacket_def evolves_def)
  obtain ok st1 where i: "InitWebSockets e st = (ok, st1)" by fastforce
  have ev: "evolves h st st1" using Init_evolves [OF assms(2) i] by simp
  have sn: "same_node st st1" using Init_ws [OF _ i] assms(2) by (simp add: ws_run_def)
  have tab: "addr_entry a st1 = addr_entry a st"
  proof -
    have "addr_table st1 = addr_table st" using Init_ws [OF _ i] assms(2) by (simp add: ws_run_def same_node_def)
    then show ?thesis unfolding addr_entry_def by (simp only:)
  qed
  have main: "(case NET_Websockets_SendPacket e (Some a) packet st of
      Inl f \<Rightarrow> addr_entry a st = Inl f | Inr st' \<Rightarrow> evolves h st st' \<and> same_node st st')"
  proof (cases "ok \<and> ws_state st1 = WS_OPEN \<and> length (pdata packet) \<le> NET_WS_MAX_FRAME - NET_WS_SEND_HEADER")
    case False
    then show ?thesis using ev sn
      by (auto simp: NET_Websockets_SendPacket_def i Let_def evolves_def same_node_def)
  next
    case True
    show ?thesis
    proof (cases "addr_entry a st")
      case (Inl f)
      then show ?thesis using True tab by (simp add: NET_Websockets_SendPacket_def i Let_def)
    next
      case (Inr entry)
      let ?frame = "NET_WS_WriteU32LE (ap_node entry) @ NET_WS_WriteU32LE (local_node st1) @ pdata packet"
      let ?st = "called (CallSend (websocket st1) ?frame) st1"
      have "NET_WS_BuildFrame (length (pdata packet) + NET_WS_SEND_HEADER) (ap_node entry) (local_node st1)
          (pdata packet) = Some ?frame" using True by (simp add: NET_WS_BuildFrame_def)
      then have eq: "NET_Websockets_SendPacket e (Some a) packet st
          = (if we_send e < 0 then ShutdownSocket e ?st else Inr ?st)"
        using True tab Inr by (simp add: NET_Websockets_SendPacket_def i Let_def)
      have "ws_inv st1" using ev by (simp add: evolves_def ws_run_def)
      from Send_inv [OF assms(1) this, of ?frame] True
      obtain st' where s: "(if we_send e < 0 then ShutdownSocket e ?st else Inr ?st) = Inr st'" "ws_inv st'"
        "ws_state st' = WS_OPEN \<or> ws_state st' = WS_FAILED" "sent (ws_calls st') = sent (ws_calls st1) @ [?frame]"
        "same_node st1 st'" by auto
      have "h \<longrightarrow> host_inv st'" using ev s True
        by (auto simp: evolves_def ws_run_def host_inv_def host_base_def same_node_def hd_append)
      moreover have "ws_state st \<noteq> WS_FAILED" using ev True by (auto simp: evolves_def)
      ultimately show ?thesis using s eq same_node_trans [OF sn] by (simp add: evolves_def ws_run_def)
    qed
  qed
  show "NET_Websockets_SendPacket e (Some a) packet st = Inl f \<Longrightarrow> addr_entry a st = Inl f"
    and "NET_Websockets_SendPacket e (Some a) packet st = Inr st' \<Longrightarrow> evolves h st st' \<and> same_node st st'"
    using main by auto
qed

lemma Find_frame [simp]:
  "ws_run h (snd (FindAddress node st)) = ws_run h st" "ws_state (snd (FindAddress node st)) = ws_state st"
  "ws_calls (snd (FindAddress node st)) = ws_calls st"
  by (simp_all add: FindAddress_def InitAddrTable_def Let_def split: sum.split option.split)

lemma Find_evolves: "ws_run h st \<Longrightarrow> evolves h st (snd (FindAddress node st))"
  by (simp add: evolves_def)

lemma Receive_evolves:
  assumes "ws_run h st"
  shows "evolves h st (snd (NET_Websockets_RecvPacket st))"
proof (cases "NET_WS_QueuePop (recv_queue st)")
  case None
  then show ?thesis using assms by (simp add: NET_Websockets_RecvPacket_def evolves_def)
next
  case (Some y)
  obtain item src q where y: "y = ((item, src), q)" by (metis surj_pair)
  have ok: "ws_ok (recv_queue st)" using assms by (simp add: ws_run_def ws_inv_def)
  note p = ws_pop(2) [OF ok Some [unfolded y]]
  then have "ws_run h (st\<lparr>recv_queue := q\<rparr>)"
    using assms by (intro queue_ws_run) (auto simp: ws_run_def ws_inv_def)
  from Find_evolves [OF this, of src] show ?thesis
    using Some y by (simp add: NET_Websockets_RecvPacket_def Let_def split_def evolves_def)
qed

lemma Resolve_evolves: "ws_run h st \<Longrightarrow> evolves h st (snd (NET_Websockets_ResolveAddress e address st))"
  by (simp add: NET_Websockets_ResolveAddress_def split_def Let_def evolves_def split: option.split)

lemma Free_evolves: "ws_run h st \<Longrightarrow> NET_Websockets_FreeAddress a st = Inr st' \<Longrightarrow> evolves h st st'"
  by (auto simp: NET_Websockets_FreeAddress_def evolves_def split: option.splits)

lemma on_event_evolves:
  assumes "browser e" "ws_run h st" "on_event e ev st = Inr st'"
  shows "evolves h st st'"
proof (cases ev)
  case InitClient
  then show ?thesis using assms InitClient_evolves [OF assms(2), of e] by (auto simp: bindR_eq_Inr)
next
  case InitServer
  have "ws_inv st" "h \<longrightarrow> host_inv st \<or> ws_state st = WS_CLOSED \<and> \<not> local_node_set st"
    using assms(2) by (simp_all add: ws_run_def)
  then show ?thesis using assms InitServer InitServer_evolves [OF assms(1)] by fastforce
next
  case (Callback cb)
  then show ?thesis using assms(3) callback_evolves [OF assms(1,2), of cb] by auto
next
  case (SendTo addr packet)
  then show ?thesis
    using assms(3) SendPacket_evolves(1) [OF assms(1,2), of packet] SendPacket_evolves(3) [OF assms(1,2)]
    by (cases addr) auto
next
  case Receive
  then show ?thesis using assms Receive_evolves by auto
next
  case (Resolve address)
  then show ?thesis using assms Resolve_evolves by auto
next
  case (FreeAddr a)
  then show ?thesis using assms Free_evolves by auto
qed

text \<open>Every fault of an event, and the events that have one.\<close>

lemma on_event_fault:
  assumes "browser e" "ws_inv st" "on_event e ev st = Inl f"
  shows "(ev = InitClient \<and> RandomNodeId e = Inl f)
    \<or> (\<exists>a p. ev = SendTo (Some a) p \<and> addr_entry a st = Inl f)
    \<or> (\<exists>a. ev = FreeAddr a \<and> table_index a (addr_table st) = None \<and> f = IError)"
proof -
  have r: "ws_run False st" using assms(2) by (simp add: ws_run_def)
  show ?thesis
  proof (cases ev)
    case InitClient
    then show ?thesis using assms(3) by (auto simp: NET_Websockets_InitClient_def bindR_eq_Inl)
  next
    case InitServer
    then show ?thesis using assms(3) InitServer_evolves [OF assms(1,2), of False] by (auto simp: bindR_eq_Inl)
  next
    case (Callback cb)
    then show ?thesis using assms(3) callback_evolves [OF assms(1) r, of cb] by auto
  next
    case (SendTo addr packet)
    then show ?thesis
      using assms(3) SendPacket_evolves(1) [OF assms(1) r, of packet] SendPacket_evolves(2) [OF assms(1) r]
      by (cases addr) auto
  next
    case Receive
    then show ?thesis using assms(3) by simp
  next
    case (Resolve address)
    then show ?thesis using assms(3) by simp
  next
    case (FreeAddr a)
    then show ?thesis using assms(3) by (auto simp: NET_Websockets_FreeAddress_def split: option.splits)
  qed
qed

text \<open>Only receiving, resolving and freeing touch the address table.\<close>

definition same_table :: "websockets \<Rightarrow> websockets \<Rightarrow> bool" where
  "same_table st st' \<longleftrightarrow> addr_table st' = addr_table st \<and> addr_table_size st' = addr_table_size st
     \<and> next_id st' = next_id st"

lemma same_table_simps [simp]:
  "same_table st st" "same_table (SetLocalNode node st) st' = same_table st st'"
  "same_table st (st'\<lparr>announce_pending := b\<rparr>) = same_table st st'"
  by (simp_all add: same_table_def SetLocalNode_def)

lemma same_node_table: "same_node st st' \<Longrightarrow> same_table st st'"
  by (simp add: same_node_def same_table_def)

lemma same_table_trans: "same_table a b \<Longrightarrow> same_table b c \<Longrightarrow> same_table a c"
  by (simp add: same_table_def)

lemma Init_table:
  assumes "ws_inv st" "InitWebSockets e (SetLocalNode node st) = (ok, st')"
  shows "same_table st st'"
proof -
  have "same_node (SetLocalNode node st) st'" using Init_ws [OF _ assms(2)] assms(1) by simp
  from same_node_table [OF this] show ?thesis by simp
qed

lemma on_event_table:
  assumes "browser e" "ws_inv st" "on_event e ev st = Inr st'"
    "ev \<in> {InitClient, InitServer} \<or> (\<exists>cb. ev = Callback cb) \<or> (\<exists>a p. ev = SendTo a p)"
  shows "same_table st st'"
proof (cases ev)
  case InitClient
  then show ?thesis using assms(2,3) Init_table
    by (auto simp: NET_Websockets_InitClient_def bindR_eq_Inr)
next
  case InitServer
  obtain ok st1 where i: "InitWebSockets e (SetLocalNode NET_WS_NODE_HOST st) = (ok, st1)" by fastforce
  have t: "same_table st st1" by (rule Init_table [OF assms(2) i])
  have inv: "ws_inv st1" using Init_ws [OF _ i] assms(2) by simp
  show ?thesis
  proof (cases "ok \<and> ws_state st1 = WS_OPEN")
    case True
    then obtain st2 where "SendAnnounce e st1 = Inr st2" "same_node st1 st2"
      using Announce_inv [OF assms(1) inv] by blast
    then show ?thesis using True assms(3) InitServer t same_node_table [of st1 st2] same_table_trans
      by (auto simp: NET_Websockets_InitServer_def i)
  next
    case False
    then show ?thesis using assms(3) InitServer t
      by (auto simp: NET_Websockets_InitServer_def i split: if_splits)
  qed
next
  case (Callback cb)
  have "ws_run False st" using assms(2) by (simp add: ws_run_def)
  from callback_evolves [OF assms(1) this, of cb] show ?thesis
    using assms(3) Callback same_node_table by auto
next
  case (SendTo addr packet)
  have "ws_run False st" using assms(2) by (simp add: ws_run_def)
  from SendPacket_evolves(3) [OF assms(1) this] show ?thesis
    using assms(3) SendTo same_node_table by (cases addr) (auto simp: NET_Websockets_SendPacket_def)
qed (use assms(4) in simp_all)

lemma ws_reach_inv: "ws_reach evs st \<Longrightarrow> ws_run (evs \<noteq> [] \<and> hd evs = InitServer) st"
proof (induction rule: ws_reach.induct)
  case boot
  then show ?case by (simp add: ws_run_def ws_inv_boot)
next
  case (step evs st e ev st')
  show ?case
  proof (cases "evs = []")
    case False
    then show ?thesis using on_event_evolves [OF step.hyps(2) step.IH step.hyps(3)] by (simp add: evolves_def)
  next
    case True
    then have st: "st = ws_boot" using step.hyps(1) by (simp add: ws_reach_Nil)
    show ?thesis
    proof (cases "ev = InitServer")
      case first: True
      have "ws_state ws_boot = WS_CLOSED \<and> \<not> local_node_set ws_boot" by (simp add: ws_boot_def)
      then show ?thesis
        using InitServer_evolves [OF step.hyps(2) ws_inv_boot, of True] step.hyps(3) first True st
        by (auto simp: evolves_def)
    next
      case False
      have "ws_run False st" using step.IH True by simp
      from on_event_evolves [OF step.hyps(2) this step.hyps(3)] show ?thesis using False True
        by (simp add: evolves_def)
    qed
  qed
qed

end
