(* ===== verification/Net_IO.thy ===== *)
theory Net_IO
  imports Net_Loop Net_Websockets_Inv
begin

text \<open>
  The network layer (\<open>engine/src/net_io.c\<close>) over the two transports of this development: contexts
  of modules, the dispatch of packets to the module of an address, and the reference counts of
  addresses. The loopback addresses are static variables; an address of the WebSocket module is an
  entry of its table, and the reference count is a field of that entry. (The game server has its
  own, abstract view of the addresses in \<open>Net_Server_State\<close>.)
\<close>

datatype io_module = LoopClient | LoopServer | Websockets

datatype io_addr = LoopClientAddr | LoopServerAddr | WsAddr nat | Broadcast

record net_io =
  io_loop :: loopback
  io_ws :: websockets
  client_refs :: int
  server_refs :: int
  broadcast_refs :: int

type_synonym net_context = "io_module list"

definition MAX_MODULES :: nat where "MAX_MODULES = 16"

definition NET_NewContext :: net_context where
  "NET_NewContext = []"

definition NET_AddModule :: "net_context \<Rightarrow> io_module \<Rightarrow> net_context res" where
  "NET_AddModule ctx m = (if length ctx \<ge> MAX_MODULES then Inl IError else Inr (ctx @ [m]))"

subsection \<open>The module tables\<close>

definition loop_addr :: "nat \<Rightarrow> io_addr" where
  "loop_addr a = (if a = loop_client_addr then LoopClientAddr else LoopServerAddr)"

definition on_ws :: "(websockets \<Rightarrow> 'a \<times> websockets) \<Rightarrow> net_io \<Rightarrow> 'a \<times> net_io" where
  "on_ws f st = (case f (io_ws st) of (x, w) \<Rightarrow> (x, st\<lparr>io_ws := w\<rparr>))"

definition on_wsR :: "(websockets \<Rightarrow> websockets res) \<Rightarrow> net_io \<Rightarrow> net_io res" where
  "on_wsR f st = bindR (f (io_ws st)) (\<lambda>w. Inr (st\<lparr>io_ws := w\<rparr>))"

fun module_ResolveAddress :: "ws_env \<Rightarrow> io_module \<Rightarrow> bytes option \<Rightarrow> net_io \<Rightarrow> io_addr option \<times> net_io" where
  "module_ResolveAddress e LoopClient address st = (map_option loop_addr (NET_CL_ResolveAddress address), st)"
| "module_ResolveAddress e LoopServer address st = (map_option loop_addr (NET_SV_ResolveAddress address), st)"
| "module_ResolveAddress e Websockets address st =
     (case on_ws (NET_Websockets_ResolveAddress e address) st of (a, st) \<Rightarrow> (map_option WsAddr a, st))"

text \<open>The handle of an address, for the WebSocket module; the broadcast address has none.\<close>

fun ws_handle :: "io_addr \<Rightarrow> nat option" where
  "ws_handle (WsAddr a) = Some a"
| "ws_handle _ = None"

fun module_SendPacket :: "ws_env \<Rightarrow> io_module \<Rightarrow> io_addr \<Rightarrow> net_packet \<Rightarrow> net_io \<Rightarrow> net_io res" where
  "module_SendPacket e LoopClient addr packet st = Inr (st\<lparr>io_loop := NET_CL_SendPacket packet (io_loop st)\<rparr>)"
| "module_SendPacket e LoopServer addr packet st = Inr (st\<lparr>io_loop := NET_SV_SendPacket packet (io_loop st)\<rparr>)"
| "module_SendPacket e Websockets addr packet st = on_wsR (NET_Websockets_SendPacket e (ws_handle addr) packet) st"

text \<open>A received packet is a pointer: \<open>None\<close> is NULL.\<close>

fun module_RecvPacket :: "io_module \<Rightarrow> net_io \<Rightarrow> (io_addr \<times> net_packet option) option \<times> net_io" where
  "module_RecvPacket LoopClient st =
     (case NET_CL_RecvPacket (io_loop st) of
        (r, l) \<Rightarrow> (map_option (\<lambda>(a, p). (loop_addr a, Some p)) r, st\<lparr>io_loop := l\<rparr>))"
| "module_RecvPacket LoopServer st =
     (case NET_SV_RecvPacket (io_loop st) of
        (r, l) \<Rightarrow> (map_option (\<lambda>(a, p). (loop_addr a, Some p)) r, st\<lparr>io_loop := l\<rparr>))"
| "module_RecvPacket Websockets st =
     (case on_ws NET_Websockets_RecvPacket st of
        (r, st) \<Rightarrow> (map_option (\<lambda>(a, p). (WsAddr a, p)) r, st))"

fun addr_module :: "io_addr \<Rightarrow> io_module option" where
  "addr_module LoopClientAddr = Some LoopClient"
| "addr_module LoopServerAddr = Some LoopServer"
| "addr_module (WsAddr a) = Some Websockets"
| "addr_module Broadcast = None"

subsection \<open>References\<close>

definition set_entry :: "nat \<Rightarrow> addrpair \<Rightarrow> websockets \<Rightarrow> websockets" where
  "set_entry a entry w =
     (case table_index a (addr_table w) of
        None \<Rightarrow> w
      | Some i \<Rightarrow> w\<lparr>addr_table := (addr_table w)[i := Some entry]\<rparr>)"

text \<open>\<open>addr->refcount += n\<close>, with the count it leaves.\<close>

fun add_refs :: "int \<Rightarrow> io_addr \<Rightarrow> net_io \<Rightarrow> (int \<times> net_io) res" where
  "add_refs n LoopClientAddr st = Inr (client_refs st + n, st\<lparr>client_refs := client_refs st + n\<rparr>)"
| "add_refs n LoopServerAddr st = Inr (server_refs st + n, st\<lparr>server_refs := server_refs st + n\<rparr>)"
| "add_refs n (WsAddr a) st =
     bindR (addr_entry a (io_ws st)) (\<lambda>entry.
       let entry = entry\<lparr>ap_refcount := ap_refcount entry + n\<rparr>
       in Inr (ap_refcount entry, st\<lparr>io_ws := set_entry a entry (io_ws st)\<rparr>))"
| "add_refs n Broadcast st = Inr (broadcast_refs st + n, st\<lparr>broadcast_refs := broadcast_refs st + n\<rparr>)"

fun module_FreeAddress :: "io_addr \<Rightarrow> net_io \<Rightarrow> net_io res" where
  "module_FreeAddress LoopClientAddr st = Inr st"
| "module_FreeAddress LoopServerAddr st = Inr st"
| "module_FreeAddress (WsAddr a) st = on_wsR (NET_Websockets_FreeAddress a) st"
| "module_FreeAddress Broadcast st = Inl NullDeref"

definition NET_ReferenceAddress_io :: "io_addr option \<Rightarrow> net_io \<Rightarrow> net_io res" where
  "NET_ReferenceAddress_io addr st =
     (case addr of None \<Rightarrow> Inr st | Some addr \<Rightarrow> bindR (add_refs 1 addr st) (\<lambda>(_, st). Inr st))"

definition NET_ReleaseAddress_io :: "io_addr option \<Rightarrow> net_io \<Rightarrow> net_io res" where
  "NET_ReleaseAddress_io addr st =
     (case addr of
        None \<Rightarrow> Inr st
      | Some addr \<Rightarrow>
          bindR (add_refs (- 1) addr st) (\<lambda>(refcount, st).
            if refcount \<le> 0 then module_FreeAddress addr st else Inr st))"

subsection \<open>Contexts\<close>

fun NET_ResolveAddress_io :: "ws_env \<Rightarrow> net_context \<Rightarrow> bytes option \<Rightarrow> net_io \<Rightarrow> (io_addr option \<times> net_io) res"
where
  "NET_ResolveAddress_io e [] address st = Inr (None, st)"
| "NET_ResolveAddress_io e (m # ms) address st =
     (case module_ResolveAddress e m address st of
        (Some result, st) \<Rightarrow> bindR (NET_ReferenceAddress_io (Some result) st) (\<lambda>st. Inr (Some result, st))
      | (None, st) \<Rightarrow> NET_ResolveAddress_io e ms address st)"

definition NET_SendPacket :: "ws_env \<Rightarrow> io_addr \<Rightarrow> net_packet \<Rightarrow> net_io \<Rightarrow> net_io res" where
  "NET_SendPacket e addr packet st =
     (case addr_module addr of
        None \<Rightarrow> Inl NullDeref
      | Some m \<Rightarrow> module_SendPacket e m addr packet st)"

definition NET_SendBroadcast :: "ws_env \<Rightarrow> net_context \<Rightarrow> net_packet \<Rightarrow> net_io \<Rightarrow> net_io res" where
  "NET_SendBroadcast e ctx packet st =
     foldR (\<lambda>m st. module_SendPacket e m Broadcast packet st) ctx st"

fun NET_RecvPacket :: "net_context \<Rightarrow> net_io \<Rightarrow> ((io_addr \<times> net_packet option) option \<times> net_io) res" where
  "NET_RecvPacket [] st = Inr (None, st)"
| "NET_RecvPacket (m # ms) st =
     (case module_RecvPacket m st of
        (Some (addr, packet), st) \<Rightarrow>
          bindR (NET_ReferenceAddress_io (Some addr) st) (\<lambda>st. Inr (Some (addr, packet), st))
      | (None, st) \<Rightarrow> NET_RecvPacket ms st)"

definition NET_AddrToString :: "io_addr \<Rightarrow> net_io \<Rightarrow> bytes res" where
  "NET_AddrToString addr st =
     (case addr of
        LoopClientAddr \<Rightarrow> Inr (M_snprintf 127 NET_CL_AddrToString)
      | LoopServerAddr \<Rightarrow> Inr (M_snprintf 127 NET_SV_AddrToString)
      | WsAddr a \<Rightarrow> NET_Websockets_AddrToString a 127 (io_ws st)
      | Broadcast \<Rightarrow> Inl NullDeref)"

end
