(* ===== verification/Net_IO_Refs.thy ===== *)
theory Net_IO_Refs
  imports Net_IO
begin

text \<open>
  The accounting of the addresses of the WebSocket module: the reference count of every entry of
  its table is the number of references the users of the network layer hold, so no address is freed
  while it is in use, and none is left behind when the last reference is released.
\<close>

subsection \<open>The table\<close>

definition slot :: "addrpair option list \<Rightarrow> nat \<Rightarrow> addrpair \<Rightarrow> bool" where
  "slot table i x \<longleftrightarrow> i < length table \<and> table ! i = Some x"

definition entries :: "addrpair option list \<Rightarrow> addrpair set" where
  "entries table = {x. \<exists>i. slot table i x}"

definition table_ok :: "addrpair option list \<Rightarrow> bool" where
  "table_ok table \<longleftrightarrow> (\<forall>i j x y. slot table i x \<and> slot table j y
     \<and> (ap_id x = ap_id y \<or> ap_node x = ap_node y) \<longrightarrow> i = j)"

definition addr_inv :: "websockets \<Rightarrow> bool" where
  "addr_inv w \<longleftrightarrow> table_ok (addr_table w) \<and> (\<forall>x \<in> entries (addr_table w). ap_id x < next_id w)
     \<and> (addr_table_size w < 0 \<longrightarrow> addr_table w = [])
     \<and> (addr_table_size w \<ge> 0 \<longrightarrow> addr_table w \<noteq> [] \<and> addr_table_size w = int (length (addr_table w)))"

lemma slot_unique: "slot table i x \<Longrightarrow> slot table i y \<Longrightarrow> x = y"
  by (simp add: slot_def)

lemma table_okD:
  "table_ok table \<Longrightarrow> slot table i x \<Longrightarrow> slot table j y \<Longrightarrow> ap_id x = ap_id y \<or> ap_node x = ap_node y \<Longrightarrow> i = j"
  unfolding table_ok_def by blast

lemma table_okI:
  "(\<And>i j x y. slot table i x \<Longrightarrow> slot table j y \<Longrightarrow> ap_id x = ap_id y \<or> ap_node x = ap_node y \<Longrightarrow> i = j)
   \<Longrightarrow> table_ok table"
  unfolding table_ok_def by blast

lemma slot_entry: "slot table i x \<Longrightarrow> x \<in> entries table"
  by (auto simp: entries_def)

lemma entries_unique: "table_ok table \<Longrightarrow> x \<in> entries table \<Longrightarrow> y \<in> entries table
    \<Longrightarrow> ap_id x = ap_id y \<or> ap_node x = ap_node y \<Longrightarrow> x = y"
  unfolding entries_def using slot_unique table_okD by blast

lemma slot_update:
  "slot (table[i := v]) j x \<longleftrightarrow> (if j = i then i < length table \<and> v = Some x else slot table j x)"
  by (auto simp: slot_def nth_list_update)

lemma slot_bound: "slot table i x \<Longrightarrow> i < length table"
  by (simp add: slot_def)

lemma entries_update:
  assumes "table_ok table" "slot table i x"
  shows "entries (table[i := None]) = entries table - {x}"
    and "entries (table[i := Some y]) = insert y (entries table - {x})"
proof -
  have "slot table j z \<and> j \<noteq> i \<longleftrightarrow> slot table j z \<and> z \<noteq> x" for j z
    using table_okD [OF assms(1) assms(2), of j z] slot_unique [OF assms(2)] by auto
  then have "slot (table[i := v]) j z \<longleftrightarrow> (j = i \<and> v = Some z) \<or> (slot table j z \<and> z \<noteq> x)" for v j z
    using slot_bound [OF assms(2)] by (auto simp: slot_update)
  then show "entries (table[i := None]) = entries table - {x}"
    and "entries (table[i := Some y]) = insert y (entries table - {x})"
    unfolding entries_def by auto
qed

lemma slot_fill:
  assumes "i < length table" "table ! i = None"
  shows "slot (table[i := Some y]) j x \<longleftrightarrow> (j = i \<and> x = y) \<or> slot table j x"
  using assms by (auto simp: slot_update) (simp add: slot_def)

lemma entries_fill:
  assumes "i < length table" "table ! i = None"
  shows "entries (table[i := Some y]) = insert y (entries table)"
  unfolding entries_def using slot_fill [OF assms] by auto

lemma slot_grow: "slot (table @ replicate n None) i x \<longleftrightarrow> slot table i x"
  by (auto simp: slot_def nth_append)

lemma entries_grow [simp]: "entries (table @ replicate n None) = entries table"
  by (simp add: entries_def slot_grow)

lemma entries_blank [simp]: "entries (replicate n None) = {}" "entries [] = {}"
  by (auto simp: entries_def slot_def)

lemma table_ok_grow [simp]: "table_ok (table @ replicate n None) = table_ok table"
  by (simp add: table_ok_def slot_grow)

lemma table_ok_blank [simp]: "table_ok (replicate n None)" "table_ok []"
  by (auto simp: table_ok_def slot_def)

lemma table_ok_fill:
  assumes "table_ok table" "i < length table" "table ! i = None"
    "\<And>x. x \<in> entries table \<Longrightarrow> ap_id x \<noteq> ap_id y \<and> ap_node x \<noteq> ap_node y"
  shows "table_ok (table[i := Some y])"
proof (rule table_okI)
  fix k j a b
  assume "slot (table[i := Some y]) k a" "slot (table[i := Some y]) j b" "ap_id a = ap_id b \<or> ap_node a = ap_node b"
  then show "k = j" unfolding slot_fill [OF assms(2,3)]
    using table_okD [OF assms(1), of k a j b] assms(4) [OF slot_entry, of k a] assms(4) [OF slot_entry, of j b]
    by auto
qed

lemma table_ok_set:
  assumes "table_ok table" "slot table i x" "ap_id y = ap_id x" "ap_node y = ap_node x"
  shows "table_ok (table[i := Some y])"
proof (rule table_okI)
  have pre: "slot (table[i := Some y]) k a \<Longrightarrow> \<exists>a'. slot table k a' \<and> ap_id a' = ap_id a \<and> ap_node a' = ap_node a" for k a
    using assms(2-4) by (auto simp: slot_update split: if_splits)
  fix k j a b
  assume "slot (table[i := Some y]) k a" "slot (table[i := Some y]) j b" "ap_id a = ap_id b \<or> ap_node a = ap_node b"
  then obtain a' b' where "slot table k a'" "slot table j b'" "ap_id a' = ap_id b' \<or> ap_node a' = ap_node b'"
    using pre [of k a] pre [of j b] by auto
  then show "k = j" by (rule table_okD [OF assms(1)])
qed

lemma table_ok_clear:
  assumes "table_ok table"
  shows "table_ok (table[i := None])"
proof (rule table_okI)
  fix k j a b
  assume "slot (table[i := None]) k a" "slot (table[i := None]) j b" "ap_id a = ap_id b \<or> ap_node a = ap_node b"
  then show "k = j" using table_okD [OF assms, of k a j b] by (auto simp: slot_update split: if_splits)
qed

lemma table_index_slot: "table_index a table = Some i \<Longrightarrow> \<exists>x. slot table i x \<and> ap_id x = a"
  by (auto simp: table_index_def find_Some_iff slot_def split: option.splits)

lemma table_index_entry:
  assumes "x \<in> entries table"
  shows "\<exists>i. table_index (ap_id x) table = Some i"
proof -
  obtain i where "i < length table" "table ! i = Some x" using assms by (auto simp: entries_def slot_def)
  then have "table_index (ap_id x) table \<noteq> None"
    unfolding table_index_def find_None_iff by force
  then show ?thesis by blast
qed

lemma index_unique:
  assumes "table_ok table" "x \<in> entries table" "table_index (ap_id x) table = Some i"
  shows "slot table i x"
  using table_index_slot [OF assms(3)] entries_unique [OF assms(1) slot_entry assms(2)] by blast

text \<open>The search of \<open>FindAddress\<close>.\<close>

lemma scan_found: "scan_table node table k e = Inl a \<Longrightarrow> \<exists>x \<in> entries table. ap_node x = node \<and> ap_id x = a"
proof (induction node table k e rule: scan_table.induct)
  case (1 node i e)
  then show ?case by simp
next
  case (2 node table i e)
  then obtain x j where "slot table j x" "ap_node x = node" "ap_id x = a" by (auto simp: entries_def)
  then have "slot (None # table) (Suc j) x" by (simp add: slot_def)
  then show ?case using \<open>ap_node x = node\<close> \<open>ap_id x = a\<close> by (auto simp: entries_def)
next
  case (3 node entry table i e)
  show ?case
  proof (cases "ap_node entry = node")
    case True
    moreover have "slot (Some entry # table) 0 entry" by (simp add: slot_def)
    ultimately show ?thesis using 3 by (auto simp: entries_def)
  next
    case False
    then obtain x j where "slot table j x" "ap_node x = node" "ap_id x = a" using 3 by (auto simp: entries_def)
    moreover from this(1) have "slot (Some entry # table) (Suc j) x" by (simp add: slot_def)
    ultimately show ?thesis by (auto simp: entries_def)
  qed
qed

lemma scan_missing:
  "scan_table node table k e = Inr r \<Longrightarrow>
     (\<forall>i x. slot table i x \<longrightarrow> ap_node x \<noteq> node)
     \<and> (e \<noteq> None \<longrightarrow> r = e)
     \<and> (e = None \<longrightarrow> (case r of None \<Rightarrow> True | Some i \<Rightarrow> k \<le> i \<and> i - k < length table \<and> table ! (i - k) = None))"
proof (induction node table k e rule: scan_table.induct)
  case (1 node i e)
  then show ?case by (simp add: slot_def)
next
  case (2 node table i e)
  have s: "slot (None # table) j x \<Longrightarrow> \<exists>m. j = Suc m \<and> slot table m x" for j x
    by (cases j) (auto simp: slot_def)
  show ?case using 2 s by (cases e) (auto split: option.splits simp: Suc_le_eq nth_Cons')
next
  case (3 node entry table i e)
  have s: "slot (Some entry # table) j x \<Longrightarrow> j = 0 \<and> x = entry \<or> (\<exists>m. j = Suc m \<and> slot table m x)" for j x
    by (cases j) (auto simp: slot_def)
  show ?case using 3 s
    by (cases e) (auto split: option.splits if_splits simp: Suc_le_eq nth_Cons')
qed

lemma entry_lookup:
  assumes "table_ok (addr_table w)" "x \<in> entries (addr_table w)"
  obtains i where "table_index (ap_id x) (addr_table w) = Some i" "slot (addr_table w) i x"
    "addr_entry (ap_id x) w = Inr x"
proof -
  obtain i where i: "table_index (ap_id x) (addr_table w) = Some i" using table_index_entry [OF assms(2)] by blast
  moreover have "slot (addr_table w) i x" by (rule index_unique [OF assms i])
  moreover from this have "addr_entry (ap_id x) w = Inr x" using i by (simp add: addr_entry_def slot_def)
  ultimately show thesis by (rule that)
qed

lemma set_entry_spec:
  assumes "addr_inv w" "x \<in> entries (addr_table w)" "ap_id y = ap_id x" "ap_node y = ap_node x"
  shows "addr_inv (set_entry (ap_id x) y w)"
    and "entries (addr_table (set_entry (ap_id x) y w)) = insert y (entries (addr_table w) - {x})"
proof -
  have ok: "table_ok (addr_table w)" using assms(1) by (simp add: addr_inv_def)
  obtain i where i: "table_index (ap_id x) (addr_table w) = Some i" "slot (addr_table w) i x"
    by (rule entry_lookup [OF ok assms(2)])
  have w: "set_entry (ap_id x) y w = w\<lparr>addr_table := (addr_table w)[i := Some y]\<rparr>"
    by (simp add: set_entry_def i)
  show e: "entries (addr_table (set_entry (ap_id x) y w)) = insert y (entries (addr_table w) - {x})"
    unfolding w using entries_update(2) [OF ok i(2)] by simp
  show "addr_inv (set_entry (ap_id x) y w)"
    using assms e table_ok_set [OF ok i(2) assms(3,4)] unfolding w addr_inv_def by auto
qed

subsection \<open>References\<close>

text \<open>\<open>held\<close>: the references the users hold. While an address is being handed out or taken back
  (\<open>a\<close>), its entry may be without a reference.\<close>

definition refs_pre :: "io_addr list \<Rightarrow> nat \<Rightarrow> websockets \<Rightarrow> bool" where
  "refs_pre held a w \<longleftrightarrow> addr_inv w
     \<and> (\<forall>x \<in> entries (addr_table w). ap_refcount x = int (count_list held (WsAddr (ap_id x)))
          \<and> (ap_refcount x > 0 \<or> ap_id x = a))
     \<and> (\<forall>b. WsAddr b \<in> set held \<or> b = a \<longrightarrow> (\<exists>x \<in> entries (addr_table w). ap_id x = b))"

definition refs_ok :: "io_addr list \<Rightarrow> websockets \<Rightarrow> bool" where
  "refs_ok held w \<longleftrightarrow> addr_inv w
     \<and> (\<forall>x \<in> entries (addr_table w). ap_refcount x = int (count_list held (WsAddr (ap_id x))) \<and> ap_refcount x > 0)
     \<and> (\<forall>b. WsAddr b \<in> set held \<longrightarrow> (\<exists>x \<in> entries (addr_table w). ap_id x = b))"

lemma refs_ok_pre: "refs_ok held w \<Longrightarrow> WsAddr a \<in> set held \<Longrightarrow> refs_pre held a w"
  by (auto simp: refs_ok_def refs_pre_def)

lemma refs_cong:
  "addr_table w' = addr_table w \<Longrightarrow> addr_table_size w' = addr_table_size w \<Longrightarrow> next_id w' = next_id w
   \<Longrightarrow> refs_ok held w' = refs_ok held w"
  by (simp add: refs_ok_def addr_inv_def)

lemma refs_other: "(\<And>b. x \<noteq> WsAddr b) \<Longrightarrow> refs_ok (x # held) w = refs_ok held w"
  by (auto simp: refs_ok_def)

lemma FindAddress_refs:
  assumes "refs_ok held w" "FindAddress node w = (a, w')"
  shows "refs_pre held a w' \<and> (\<exists>x \<in> entries (addr_table w'). ap_id x = a \<and> ap_node x = node)"
proof -
  define w0 where "w0 = (if addr_table_size w < 0 then InitAddrTable w else w)"
  have inv: "addr_inv w" using assms(1) by (simp add: refs_ok_def)
  have e0: "entries (addr_table w0) = entries (addr_table w)"
    using inv by (auto simp: w0_def InitAddrTable_def addr_inv_def)
  have inv0: "addr_inv w0" using inv e0 by (auto simp: w0_def InitAddrTable_def addr_inv_def)
  have ok0: "refs_ok held w0" using assms(1) inv0 unfolding refs_ok_def e0 by blast
  show ?thesis
  proof (cases "scan_table node (addr_table w0) 0 None")
    case (Inl b)
    then have "a = b" "w' = w0" using assms(2) by (simp_all add: FindAddress_def w0_def [symmetric])
    then show ?thesis using scan_found [OF Inl] ok0 by (auto simp: refs_ok_def refs_pre_def)
  next
    case (Inr r)
    note miss = scan_missing [OF Inr]
    define w1 where "w1 = (if r = None then w0\<lparr>addr_table := addr_table w0 @ replicate (length (addr_table w0)) None,
        addr_table_size := addr_table_size w0 * 2\<rparr> else w0)"
    define i where "i = (case r of None \<Rightarrow> length (addr_table w0) | Some i \<Rightarrow> i)"
    define x where "x = \<lparr>ap_id = next_id w0, ap_node = node, ap_refcount = 0\<rparr>"
    have w': "a = next_id w0" "w' = w1\<lparr>addr_table := (addr_table w1)[i := Some x], next_id := next_id w0 + 1\<rparr>"
      using assms(2) Inr
      by (auto simp: FindAddress_def w0_def [symmetric] w1_def i_def x_def Let_def split: option.splits)
    have pos: "addr_table w0 \<noteq> []" "addr_table_size w0 = int (length (addr_table w0))"
      using inv0 inv by (auto simp: addr_inv_def w0_def InitAddrTable_def split: if_splits)
    have i: "i < length (addr_table w1)" "addr_table w1 ! i = None"
      using miss pos(1) by (auto simp: i_def w1_def nth_append split: option.splits)
    have e1: "entries (addr_table w1) = entries (addr_table w0)" "addr_inv w1"
      using inv0 pos by (auto simp: w1_def addr_inv_def)
    have e': "entries (addr_table w') = insert x (entries (addr_table w0))"
      unfolding w' using entries_fill [OF i] e1 by simp
    have new: "ap_id y \<noteq> ap_id x \<and> ap_node y \<noteq> ap_node x" if "y \<in> entries (addr_table w1)" for y
      using that inv0 miss unfolding e1(1) by (auto simp: x_def addr_inv_def entries_def)
    have "table_ok (addr_table w')"
      unfolding w' using table_ok_fill [OF _ i, of x] new e1(2) by (simp add: addr_inv_def)
    then have inv': "addr_inv w'" using e' e1 inv0 unfolding w'(2) addr_inv_def
      by (auto simp: x_def w1_def less_Suc_eq)
    have "WsAddr (next_id w0) \<notin> set held"
    proof
      assume "WsAddr (next_id w0) \<in> set held"
      then obtain y where "y \<in> entries (addr_table w0)" "ap_id y = next_id w0" using ok0 unfolding refs_ok_def by blast
      then show False using inv0 unfolding addr_inv_def by (metis less_irrefl)
    qed
    then have "count_list held (WsAddr (ap_id x)) = 0" by (simp add: x_def count_list_0_iff)
    then have "refs_pre held a w'" using ok0 inv' e' w'(1)
      by (auto simp: refs_pre_def refs_ok_def x_def)
    then show ?thesis using e' w'(1) by (auto simp: x_def)
  qed
qed

text \<open>Taking and giving back a reference.\<close>

definition io_refs_ok :: "io_addr list \<Rightarrow> net_io \<Rightarrow> bool" where
  "io_refs_ok held st \<longleftrightarrow> refs_ok held (io_ws st)"

lemma add_refs_spec:
  assumes "refs_pre held a (io_ws st)" "int (count_list held' (WsAddr a)) = int (count_list held (WsAddr a)) + n"
    "\<And>b. b \<noteq> a \<Longrightarrow> count_list held' (WsAddr b) = count_list held (WsAddr b)"
  shows "\<exists>st'. add_refs n (WsAddr a) st = Inr (int (count_list held' (WsAddr a)), st')
    \<and> refs_pre held' a (io_ws st') \<and> ws_state (io_ws st') = ws_state (io_ws st)"
proof -
  let ?w = "io_ws st"
  have inv: "addr_inv ?w" "table_ok (addr_table ?w)" using assms(1) by (simp_all add: refs_pre_def addr_inv_def)
  obtain x where x: "x \<in> entries (addr_table ?w)" "ap_id x = a" using assms(1) by (auto simp: refs_pre_def)
  have r: "ap_refcount x = int (count_list held (WsAddr a))" using assms(1) x by (auto simp: refs_pre_def)
  let ?y = "x\<lparr>ap_refcount := ap_refcount x + n\<rparr>"
  obtain i where "addr_entry a ?w = Inr x" using entry_lookup [OF inv(2) x(1)] x(2) by metis
  then have eq: "add_refs n (WsAddr a) st
      = Inr (int (count_list held' (WsAddr a)), st\<lparr>io_ws := set_entry a ?y ?w\<rparr>)"
    using r assms(2) by (simp add: Let_def)
  have s: "addr_inv (set_entry a ?y ?w)" "entries (addr_table (set_entry a ?y ?w)) = insert ?y (entries (addr_table ?w) - {x})"
    using set_entry_spec [OF inv(1) x(1), of ?y] x(2) by simp_all
  have others: "ap_id z \<noteq> a" if "z \<in> entries (addr_table ?w) - {x}" for z
    using that entries_unique [OF inv(2) _ x(1)] x(2) by auto
  have mem: "WsAddr b \<in> set held' \<longleftrightarrow> WsAddr b \<in> set held" if "b \<noteq> a" for b
    using assms(3) [OF that] count_list_0_iff [of held' "WsAddr b"] count_list_0_iff [of held "WsAddr b"] by simp
  have "refs_pre held' a (set_entry a ?y ?w)"
    unfolding refs_pre_def s(2)
  proof (intro conjI ballI allI impI)
    show "addr_inv (set_entry a ?y ?w)" by (rule s(1))
    fix z assume z: "z \<in> insert ?y (entries (addr_table ?w) - {x})"
    show "ap_refcount z = int (count_list held' (WsAddr (ap_id z)))"
      using z x r assms(1-3) others by (cases "z = ?y") (auto simp: refs_pre_def)
    show "0 < ap_refcount z \<or> ap_id z = a"
      using z x assms(1) others by (cases "z = ?y") (auto simp: refs_pre_def)
  next
    fix b assume b: "WsAddr b \<in> set held' \<or> b = a"
    show "\<exists>z \<in> insert ?y (entries (addr_table ?w) - {x}). ap_id z = b"
    proof (cases "b = a")
      case True
      then show ?thesis using x(2) by auto
    next
      case False
      then have "WsAddr b \<in> set held" using b mem by simp
      then obtain z where "z \<in> entries (addr_table ?w)" "ap_id z = b" using assms(1) by (auto simp: refs_pre_def)
      then show ?thesis using False x(2) by auto
    qed
  qed
  then show ?thesis using eq by (simp add: set_entry_def split: option.split)
qed

lemma Reference_refs:
  assumes "refs_pre held a (io_ws st)"
  shows "\<exists>st'. NET_ReferenceAddress_io (Some (WsAddr a)) st = Inr st' \<and> io_refs_ok (WsAddr a # held) st'"
proof -
  obtain st' where st': "add_refs 1 (WsAddr a) st = Inr (int (count_list (WsAddr a # held) (WsAddr a)), st')"
    "refs_pre (WsAddr a # held) a (io_ws st')"
    using add_refs_spec [OF assms, of "WsAddr a # held" 1] by auto
  then have "refs_ok (WsAddr a # held) (io_ws st')"
    by (auto simp: refs_ok_def refs_pre_def)
  then show ?thesis using st'(1) by (simp add: NET_ReferenceAddress_io_def io_refs_ok_def)
qed

lemma count_remove1: "x \<in> set xs \<Longrightarrow> count_list xs y = count_list (remove1 x xs) y + (if y = x then 1 else 0)"
  by (induction xs) auto

lemma Free_refs:
  assumes "refs_pre held a w" "WsAddr a \<notin> set held"
  shows "\<exists>w'. NET_Websockets_FreeAddress a w = Inr w' \<and> refs_ok held w'"
proof -
  have inv: "addr_inv w" "table_ok (addr_table w)" using assms(1) by (simp_all add: refs_pre_def addr_inv_def)
  obtain x where x: "x \<in> entries (addr_table w)" "ap_id x = a" using assms(1) by (auto simp: refs_pre_def)
  obtain i where i: "table_index a (addr_table w) = Some i" "slot (addr_table w) i x"
    using entry_lookup [OF inv(2) x(1)] x(2) by metis
  let ?w = "w\<lparr>addr_table := (addr_table w)[i := None]\<rparr>"
  have e: "entries (addr_table ?w) = entries (addr_table w) - {x}" using entries_update(1) [OF inv(2) i(2)] by simp
  have "addr_inv ?w" using inv(1) table_ok_clear [OF inv(2), of i] e by (auto simp: addr_inv_def)
  moreover have "ap_id z \<noteq> a" if "z \<in> entries (addr_table w) - {x}" for z
    using that entries_unique [OF inv(2) _ x(1)] x(2) by auto
  ultimately have "refs_ok held ?w" using assms x(2) unfolding refs_ok_def refs_pre_def e by blast
  then show ?thesis using i(1) by (simp add: NET_Websockets_FreeAddress_def)
qed

lemma Release_refs:
  assumes "refs_ok held (io_ws st)" "WsAddr a \<in> set held"
  shows "\<exists>st'. NET_ReleaseAddress_io (Some (WsAddr a)) st = Inr st' \<and> io_refs_ok (remove1 (WsAddr a) held) st'"
proof -
  let ?held = "remove1 (WsAddr a) held"
  have "int (count_list ?held (WsAddr a)) = int (count_list held (WsAddr a)) + - 1"
    using count_remove1 [OF assms(2), of "WsAddr a"] by simp
  moreover have "count_list ?held (WsAddr b) = count_list held (WsAddr b)" if "b \<noteq> a" for b
    using count_remove1 [OF assms(2), of "WsAddr b"] that by simp
  ultimately obtain st' where st': "add_refs (- 1) (WsAddr a) st = Inr (int (count_list ?held (WsAddr a)), st')"
    "refs_pre ?held a (io_ws st')"
    using add_refs_spec [OF refs_ok_pre [OF assms], of ?held "- 1"] by blast
  show ?thesis
  proof (cases "WsAddr a \<in> set ?held")
    case True
    then have "refs_ok ?held (io_ws st')" "count_list ?held (WsAddr a) > 0"
      using st'(2) count_list_0_iff [of ?held "WsAddr a"] by (auto simp: refs_ok_def refs_pre_def)
    then show ?thesis using st'(1) by (simp add: NET_ReleaseAddress_io_def io_refs_ok_def)
  next
    case False
    then obtain w' where "NET_Websockets_FreeAddress a (io_ws st') = Inr w'" "refs_ok ?held w'"
      using Free_refs [OF st'(2)] by blast
    moreover have "int (count_list ?held (WsAddr a)) = 0" using False count_notin by fastforce
    then have "add_refs (- 1) (WsAddr a) st = Inr (0, st')" using st'(1) by (simp only:)
    ultimately show ?thesis
      by (simp add: NET_ReleaseAddress_io_def io_refs_ok_def on_wsR_def del: add_refs.simps)
  qed
qed

subsection \<open>Users of the network layer\<close>

text \<open>What its users and the browser do: a reference is held for every address that was received or
  resolved, and is released once; packets are sent to addresses that are held.\<close>

datatype io_op =
  IoAdd io_module | IoReceive | IoResolve "bytes option" | IoReference io_addr | IoRelease io_addr
| IoSend io_addr net_packet | IoBroadcast net_packet | IoInit bool | IoCallback ws_callback

type_synonym io_user = "net_context \<times> io_addr list \<times> net_io"

fun io_do :: "ws_env \<Rightarrow> io_op \<Rightarrow> io_user \<Rightarrow> io_user res" where
  "io_do e (IoAdd m) (ctx, held, st) = bindR (NET_AddModule ctx m) (\<lambda>ctx. Inr (ctx, held, st))"
| "io_do e IoReceive (ctx, held, st) =
     bindR (NET_RecvPacket ctx st) (\<lambda>(r, st).
       Inr (ctx, (case r of None \<Rightarrow> held | Some (addr, p) \<Rightarrow> addr # held), st))"
| "io_do e (IoResolve address) (ctx, held, st) =
     bindR (NET_ResolveAddress_io e ctx address st) (\<lambda>(r, st).
       Inr (ctx, (case r of None \<Rightarrow> held | Some addr \<Rightarrow> addr # held), st))"
| "io_do e (IoReference addr) (ctx, held, st) =
     bindR (NET_ReferenceAddress_io (Some addr) st) (\<lambda>st. Inr (ctx, addr # held, st))"
| "io_do e (IoRelease addr) (ctx, held, st) =
     bindR (NET_ReleaseAddress_io (Some addr) st) (\<lambda>st. Inr (ctx, remove1 addr held, st))"
| "io_do e (IoSend addr packet) (ctx, held, st) =
     bindR (NET_SendPacket e addr packet st) (\<lambda>st. Inr (ctx, held, st))"
| "io_do e (IoBroadcast packet) (ctx, held, st) =
     bindR (NET_SendBroadcast e ctx packet st) (\<lambda>st. Inr (ctx, held, st))"
| "io_do e (IoInit server) (ctx, held, st) =
     bindR (on_wsR (on_event e (if server then InitServer else InitClient)) st) (\<lambda>st. Inr (ctx, held, st))"
| "io_do e (IoCallback cb) (ctx, held, st) =
     bindR (on_wsR (callback e cb) st) (\<lambda>st. Inr (ctx, held, st))"

text \<open>The operations a user may perform: those on addresses it holds, and, as no module table entry
  stands for the broadcast address, never on that one.\<close>

fun io_allowed :: "io_op \<Rightarrow> io_user \<Rightarrow> bool" where
  "io_allowed (IoReference addr) (ctx, held, st) \<longleftrightarrow> addr \<in> set held"
| "io_allowed (IoRelease addr) (ctx, held, st) \<longleftrightarrow> addr \<in> set held"
| "io_allowed (IoSend addr packet) (ctx, held, st) \<longleftrightarrow> addr \<in> set held"
| "io_allowed (IoAdd m) (ctx, held, st) \<longleftrightarrow> length ctx < MAX_MODULES"
| "io_allowed _ _ \<longleftrightarrow> True"

definition io_boot :: io_user where
  "io_boot = (NET_NewContext, [],
     \<lparr>io_loop = \<lparr>client_queue = blank_queue, server_queue = blank_queue\<rparr>, io_ws = ws_boot,
      client_refs = 0, server_refs = 0, broadcast_refs = 0\<rparr>)"

inductive io_reach :: "io_user \<Rightarrow> bool" where
  boot: "io_reach io_boot"
| step: "io_reach u \<Longrightarrow> browser e \<Longrightarrow> io_allowed op u \<Longrightarrow> io_do e op u = Inr u' \<Longrightarrow> io_reach u'"

fun io_inv :: "io_user \<Rightarrow> bool" where
  "io_inv (ctx, held, st) \<longleftrightarrow> length ctx \<le> MAX_MODULES \<and> Broadcast \<notin> set held
     \<and> refs_ok held (io_ws st) \<and> ws_inv (io_ws st)"

subsection \<open>The invariant\<close>

definition ws_good :: "io_addr list \<Rightarrow> websockets \<Rightarrow> bool" where
  "ws_good held w \<longleftrightarrow> refs_ok held w \<and> ws_inv w"

lemma ws_good_event:
  assumes "browser e" "ws_good held w" "on_event e ev w = Inr w'"
    "ev \<in> {InitClient, InitServer} \<or> (\<exists>cb. ev = Callback cb) \<or> (\<exists>a p. ev = SendTo a p)"
  shows "ws_good held w'"
proof -
  have "ws_inv w" "ws_run False w" using assms(2) by (simp_all add: ws_good_def ws_run_def)
  then have "same_table w w'" "ws_inv w'"
    using on_event_table [OF assms(1) _ assms(3,4)] on_event_evolves [OF assms(1) _ assms(3)]
    by (auto simp: evolves_def ws_run_def)
  then show ?thesis using assms(2) refs_cong [of w' w] by (simp add: ws_good_def same_table_def)
qed

text \<open>Handing out an address: from a module to its user, with the reference \<open>net_io\<close> takes.\<close>

definition handed :: "io_addr list \<Rightarrow> io_addr option \<Rightarrow> net_io \<Rightarrow> bool" where
  "handed held r st \<longleftrightarrow> ws_inv (io_ws st)
     \<and> (case r of Some (WsAddr a) \<Rightarrow> refs_pre held a (io_ws st) | _ \<Rightarrow> refs_ok held (io_ws st))
     \<and> r \<noteq> Some Broadcast"

lemma add_refs_ws: "add_refs n addr st = Inr (k, st') \<Longrightarrow> ws_inv (io_ws st') = ws_inv (io_ws st)"
  by (cases addr) (auto simp: Let_def bindR_eq_Inr set_entry_def split: option.splits)

lemma Reference_good:
  assumes "handed held (Some addr) st"
  shows "\<exists>st'. NET_ReferenceAddress_io (Some addr) st = Inr st' \<and> ws_good (addr # held) (io_ws st')"
proof (cases addr)
  case (WsAddr a)
  then obtain st' where "NET_ReferenceAddress_io (Some addr) st = Inr st'" "io_refs_ok (addr # held) st'"
    using Reference_refs [of held a st] assms by (auto simp: handed_def)
  moreover from this(1) have "ws_inv (io_ws st')"
    using assms add_refs_ws by (auto simp: handed_def NET_ReferenceAddress_io_def bindR_eq_Inr)
  ultimately show ?thesis by (simp add: ws_good_def io_refs_ok_def)
qed (use assms in \<open>auto simp: handed_def NET_ReferenceAddress_io_def ws_good_def refs_other\<close>)

lemma Find_handed:
  assumes "ws_good held (io_ws st)" "FindAddress node (io_ws st) = (a, w)"
  shows "handed held (Some (WsAddr a)) (st\<lparr>io_ws := w\<rparr>)"
proof -
  have "ws_run False w"
    using Find_frame(1) [of False node "io_ws st"] assms by (simp add: ws_good_def ws_run_def)
  then show ?thesis using FindAddress_refs [OF _ assms(2)] assms(1)
    by (simp add: handed_def ws_good_def ws_run_def)
qed

lemma loop_addr_simps [simp]: "loop_addr n \<noteq> Broadcast" "loop_addr n \<noteq> WsAddr a"
    "(case loop_addr n of WsAddr a \<Rightarrow> f a | _ \<Rightarrow> x) = x"
  by (simp_all add: loop_addr_def)

lemma Resolve_handed:
  assumes "ws_good held (io_ws st)" "module_ResolveAddress e m address st = (r, st')"
  shows "handed held r st'"
proof (cases m)
  case Websockets
  obtain a w where r: "NET_Websockets_ResolveAddress e address (io_ws st) = (a, w)" by fastforce
  then have st': "r = map_option WsAddr a" "st' = st\<lparr>io_ws := w\<rparr>" using assms(2) Websockets by (auto simp: on_ws_def)
  show ?thesis
  proof (cases a)
    case None
    then have "w = io_ws st" using r
      by (auto simp: NET_Websockets_ResolveAddress_def split: option.splits prod.splits if_splits)
    then show ?thesis using st' None assms(1) by (simp add: handed_def ws_good_def)
  next
    case (Some b)
    then obtain node where "FindAddress node (io_ws st) = (b, w)" using r
      by (auto simp: NET_Websockets_ResolveAddress_def split: option.splits prod.splits if_splits)
    then show ?thesis using Find_handed [OF assms(1)] st' Some by simp
  qed
qed (use assms in \<open>auto simp: handed_def ws_good_def NET_CL_ResolveAddress_def NET_SV_ResolveAddress_def
  split: if_splits\<close>)

lemma Receive_handed:
  assumes "ws_good held (io_ws st)" "module_RecvPacket m st = (r, st')"
  shows "handed held (map_option fst r) st'"
proof (cases m)
  case Websockets
  let ?w = "io_ws st"
  show ?thesis
  proof (cases "NET_WS_QueuePop (recv_queue ?w)")
    case None
    then show ?thesis using assms Websockets
      by (auto simp: on_ws_def NET_Websockets_RecvPacket_def handed_def ws_good_def)
  next
    case (Some y)
    obtain item src q where y: "y = ((item, src), q)" by (metis surj_pair)
    have ok: "ws_ok (recv_queue ?w)" using assms(1) by (simp add: ws_good_def ws_inv_def)
    note p = ws_pop(2) [OF ok Some [unfolded y]]
    have "ws_run False (?w\<lparr>recv_queue := q\<rparr>)"
      using assms(1) p by (intro queue_ws_run) (auto simp: ws_good_def ws_run_def ws_inv_def)
    moreover have "refs_ok held (?w\<lparr>recv_queue := q\<rparr>)"
      using assms(1) refs_cong [of "?w\<lparr>recv_queue := q\<rparr>" ?w held] by (simp add: ws_good_def)
    ultimately have g: "ws_good held (io_ws (st\<lparr>io_ws := ?w\<lparr>recv_queue := q\<rparr>\<rparr>))"
      by (simp add: ws_good_def ws_run_def)
    obtain a w where f: "FindAddress src (?w\<lparr>recv_queue := q\<rparr>) = (a, w)" by fastforce
    then show ?thesis
      using Find_handed [OF g, of src a w] assms(2) Websockets Some y
      by (auto simp: on_ws_def NET_Websockets_RecvPacket_def)
  qed
qed (use assms in \<open>auto simp: handed_def ws_good_def NET_CL_RecvPacket_def NET_SV_RecvPacket_def Let_def
  split: prod.splits option.splits\<close>)

lemma io_Resolve:
  "ws_good held (io_ws st) \<Longrightarrow> \<exists>r st'. NET_ResolveAddress_io e ms address st = Inr (r, st')
     \<and> ws_good ((case r of None \<Rightarrow> held | Some addr \<Rightarrow> addr # held)) (io_ws st')
     \<and> r \<noteq> Some Broadcast"
proof (induction ms arbitrary: st)
  case Nil
  then show ?case by simp
next
  case (Cons m ms)
  obtain r st1 where m: "module_ResolveAddress e m address st = (r, st1)" by fastforce
  note h = Resolve_handed [OF Cons.prems m]
  show ?case
  proof (cases r)
    case None
    then have "ws_good held (io_ws st1)" using h by (simp add: handed_def ws_good_def)
    from Cons.IH [OF this] show ?thesis using m None by simp
  next
    case (Some addr)
    then show ?thesis using Reference_good [of held addr st1] h m by (auto simp: handed_def)
  qed
qed

lemma io_Receive:
  "ws_good held (io_ws st) \<Longrightarrow> \<exists>r st'. NET_RecvPacket ms st = Inr (r, st')
     \<and> ws_good ((case r of None \<Rightarrow> held | Some (addr, p) \<Rightarrow> addr # held)) (io_ws st')
     \<and> map_option fst r \<noteq> Some Broadcast"
proof (induction ms arbitrary: st)
  case Nil
  then show ?case by simp
next
  case (Cons m ms)
  obtain r st1 where m: "module_RecvPacket m st = (r, st1)" by fastforce
  note h = Receive_handed [OF Cons.prems m]
  show ?case
  proof (cases r)
    case None
    then have "ws_good held (io_ws st1)" using h by (simp add: handed_def ws_good_def)
    from Cons.IH [OF this] show ?thesis using m None by simp
  next
    case (Some x)
    obtain addr p where "x = (addr, p)" by fastforce
    then show ?thesis using Reference_good [of held addr st1] h m Some by (auto simp: handed_def)
  qed
qed

lemma Release_ws:
  assumes "NET_ReleaseAddress_io (Some addr) st = Inr st'" "ws_inv (io_ws st)"
  shows "ws_inv (io_ws st')"
proof -
  obtain k st1 where st1: "add_refs (- 1) addr st = Inr (k, st1)"
    "(if k \<le> 0 then module_FreeAddress addr st1 else Inr st1) = Inr st'"
    using assms(1) by (auto simp: NET_ReleaseAddress_io_def bindR_eq_Inr)
  have inv: "ws_inv (io_ws st1)" using add_refs_ws [OF st1(1)] assms(2) by simp
  have "ws_inv (io_ws st')" if "module_FreeAddress addr st1 = Inr st'"
    using that inv
    by (cases addr) (auto simp: on_wsR_def bindR_eq_Inr NET_Websockets_FreeAddress_def split: option.splits)
  then show ?thesis using st1(2) inv by (cases "k \<le> 0") simp_all
qed

lemma io_Release:
  assumes "ws_good held (io_ws st)" "addr \<in> set held" "addr \<noteq> Broadcast"
  shows "\<exists>st'. NET_ReleaseAddress_io (Some addr) st = Inr st' \<and> ws_good (remove1 addr held) (io_ws st')"
proof (cases "\<exists>a. addr = WsAddr a")
  case True
  then obtain a where a: "addr = WsAddr a" by blast
  then obtain st' where "NET_ReleaseAddress_io (Some addr) st = Inr st'" "io_refs_ok (remove1 addr held) st'"
    using Release_refs [of held st a] assms(1,2) by (auto simp: ws_good_def)
  moreover from this(1) have "ws_inv (io_ws st')"
    using assms(1) Release_ws by (auto simp: ws_good_def)
  ultimately show ?thesis by (auto simp: ws_good_def io_refs_ok_def)
next
  case False
  then have "refs_ok (remove1 addr held) w = refs_ok held w" for w
  proof -
    have "count_list (remove1 addr held) (WsAddr b) = count_list held (WsAddr b)" for b
      using False assms(2) count_remove1 [OF assms(2), of "WsAddr b"] by auto
    moreover have "WsAddr b \<in> set (remove1 addr held) \<longleftrightarrow> WsAddr b \<in> set held" for b
      using False by (metis in_set_remove1)
    ultimately show ?thesis unfolding refs_ok_def by simp
  qed
  then show ?thesis using False assms
    by (cases addr) (auto simp: NET_ReleaseAddress_io_def ws_good_def)
qed

lemma io_Send:
  assumes "browser e" "ws_good held (io_ws st)" "addr = Broadcast \<or> addr \<in> set held"
  shows "\<exists>st'. module_SendPacket e m addr packet st = Inr st' \<and> ws_good held (io_ws st')"
proof (cases m)
  case Websockets
  have r: "ws_run False (io_ws st)" using assms(2) by (simp add: ws_good_def ws_run_def)
  have "\<exists>w. NET_Websockets_SendPacket e (ws_handle addr) packet (io_ws st) = Inr w"
  proof (cases "ws_handle addr")
    case None
    then show ?thesis using SendPacket_evolves(1) [OF assms(1) r] by fastforce
  next
    case (Some a)
    then have "addr = WsAddr a" by (cases addr) auto
    then obtain x where x: "x \<in> entries (addr_table (io_ws st))" "ap_id x = a"
      using assms(2,3) by (auto simp: ws_good_def refs_ok_def)
    have "table_ok (addr_table (io_ws st))" using assms(2) by (simp add: ws_good_def refs_ok_def addr_inv_def)
    from entry_lookup [OF this x(1)] x(2) have "addr_entry a (io_ws st) = Inr x" by metis
    then show ?thesis using SendPacket_evolves(2) [OF assms(1) r, of a packet] Some
      by (cases "NET_Websockets_SendPacket e (Some a) packet (io_ws st)") auto
  qed
  then obtain w where w: "NET_Websockets_SendPacket e (ws_handle addr) packet (io_ws st) = Inr w" by blast
  have "on_event e (SendTo (ws_handle addr) packet) (io_ws st) = Inr w" using w by simp
  from ws_good_event [OF assms(1,2) this] show ?thesis using w Websockets by (simp add: on_wsR_def)
qed (use assms in simp_all)

lemma draw_node_fault: "draw_node e k n = Inl f \<Longrightarrow> f = IError"
  by (induction e k n rule: draw_node.induct) (auto simp: Let_def split: option.splits if_splits)

lemma io_boot_inv: "io_inv io_boot"
  using ws_inv_boot
  by (simp add: io_boot_def NET_NewContext_def refs_ok_def addr_inv_def ws_boot_def)

lemma io_step_inv:
  assumes "io_inv u" "browser e" "io_allowed op u"
  shows "(\<exists>u'. io_do e op u = Inr u' \<and> io_inv u') \<or> (op = IoInit False \<and> RandomNodeId e = Inl IError
    \<and> io_do e op u = Inl IError)"
proof -
  obtain ctx held st where u: "u = (ctx, held, st)" by (metis surj_pair)
  have g: "ws_good held (io_ws st)" and b: "Broadcast \<notin> set held" and c: "length ctx \<le> MAX_MODULES"
    using assms(1) u by (simp_all add: ws_good_def)
  note fin = ws_good_def
  show ?thesis
  proof (cases op)
    case (IoAdd m)
    then show ?thesis using assms u by (simp add: NET_AddModule_def)
  next
    case IoReceive
    obtain r st' where "NET_RecvPacket ctx st = Inr (r, st')" "map_option fst r \<noteq> Some Broadcast"
      "ws_good (case r of None \<Rightarrow> held | Some (addr, p) \<Rightarrow> addr # held) (io_ws st')"
      using io_Receive [OF g] by blast
    then show ?thesis using IoReceive u b c by (cases r) (auto simp: fin)
  next
    case (IoResolve address)
    obtain r st' where "NET_ResolveAddress_io e ctx address st = Inr (r, st')" "r \<noteq> Some Broadcast"
      "ws_good (case r of None \<Rightarrow> held | Some addr \<Rightarrow> addr # held) (io_ws st')"
      using io_Resolve [OF g] by blast
    then show ?thesis using IoResolve u b c by (cases r) (auto simp: fin)
  next
    case (IoReference addr)
    have a: "addr \<in> set held" "addr \<noteq> Broadcast" using assms(3) u b IoReference by auto
    have "handed held (Some addr) st"
      using g a refs_ok_pre [of held "io_ws st"] by (cases addr) (auto simp: handed_def fin)
    from Reference_good [OF this] show ?thesis using IoReference u a b c by (auto simp: fin)
  next
    case (IoRelease addr)
    have a: "addr \<in> set held" "addr \<noteq> Broadcast" using assms(3) u b IoRelease by auto
    have "Broadcast \<notin> set (remove1 addr held)" using b by (meson notin_set_remove1)
    then show ?thesis using io_Release [OF g a] IoRelease u c by (auto simp: fin)
  next
    case (IoSend addr packet)
    have a: "addr \<in> set held" "addr \<noteq> Broadcast" using assms(3) u b IoSend by auto
    have "addr_module addr \<noteq> None" using a(2) by (cases addr) simp_all
    then obtain m where "addr_module addr = Some m" by blast
    then show ?thesis using io_Send [OF assms(2) g, of addr m packet] a IoSend u b c
      by (auto simp: NET_SendPacket_def fin)
  next
    case (IoBroadcast packet)
    have "\<exists>st'. foldR (\<lambda>m st. module_SendPacket e m Broadcast packet st) ctx st = Inr st' \<and> ws_good held (io_ws st')"
      by (rule foldR_safe) (use io_Send [OF assms(2)] g in blast)+
    then show ?thesis using IoBroadcast u b c by (auto simp: NET_SendBroadcast_def fin)
  next
    case (IoInit server)
    let ?ev = "if server then InitServer else InitClient"
    show ?thesis
    proof (cases "on_event e ?ev (io_ws st)")
      case (Inl f)
      then have "?ev = InitClient \<and> RandomNodeId e = Inl f"
        using on_event_fault [OF assms(2) _ Inl] g by (auto simp: fin split: if_splits)
      moreover from this have "f = IError" using draw_node_fault [of e 0 16 f] by (simp add: RandomNodeId_def)
      ultimately show ?thesis using Inl IoInit u by (simp add: on_wsR_def split: if_splits)
    next
      case (Inr w)
      from ws_good_event [OF assms(2) g this] have "ws_good held w" by simp
      then show ?thesis using Inr IoInit u b c by (simp add: on_wsR_def fin)
    qed
  next
    case (IoCallback cb)
    have "ws_run False (io_ws st)" using g by (simp add: fin ws_run_def)
    then obtain w where w: "callback e cb (io_ws st) = Inr w" using callback_evolves [OF assms(2)] by blast
    then have "on_event e (Callback cb) (io_ws st) = Inr w" by simp
    from ws_good_event [OF assms(2) g this] have "ws_good held w" by simp
    then show ?thesis using w IoCallback u b c by (simp add: on_wsR_def fin)
  qed
qed

lemma io_reach_inv: "io_reach u \<Longrightarrow> io_inv u"
proof (induction rule: io_reach.induct)
  case boot
  then show ?case by (rule io_boot_inv)
next
  case (step u e op u')
  then show ?case using io_step_inv [OF step.IH step.hyps(2,3)] by auto
qed

end
