(* ===== verification/Net_Websockets_Props.thy ===== *)
theory Net_Websockets_Props
  imports Net_Websockets_Inv
begin

text \<open>
  The properties of the WebSocket module, over every sequence of its operations and of the
  callbacks of the browser.
\<close>

definition ws_sample_env :: ws_env where
  "ws_sample_env = \<lparr>we_supported = True, we_wss = Some [119], we_new = 7, we_send = 0,
     we_entropy = (\<lambda>_. Some 0x12345), we_ulong_max = 0xffffffff, we_reenter = callbacks undefined []\<rparr>"

lemma browser_sample [simp]: "browser ws_sample_env" "browser (ws_sample_env\<lparr>we_send := n\<rparr>)"
  by (auto simp: browser_def ws_sample_env_def)

text \<open>A host before and after its socket opened, and a module without WebSockets.\<close>

definition ws_hosting :: "bool \<Rightarrow> websockets" where
  "ws_hosting opened = ws_boot\<lparr>local_node := 1, local_node_set := True, websocket := 7,
     recv_queue := NET_WS_QueueInit True, ws_state := (if opened then WS_OPEN else WS_CONNECTING),
     announce_pending := \<not> opened,
     ws_calls := CallNew [119] # (if opened then [CallSend 7 [0, 0, 0, 0, 1, 0, 0, 0]] else [])\<rparr>"

definition ws_refused :: websockets where
  "ws_refused = ws_boot\<lparr>local_node := 1, local_node_set := True, ws_state := WS_FAILED\<rparr>"

lemma hosting_reached: "ws_reach [InitServer] (ws_hosting False)"
    "ws_reach (InitServer # [Callback (Opened 7)]) (ws_hosting True)"
proof -
  have "on_event ws_sample_env InitServer ws_boot = Inr (ws_hosting False)"
    by (simp add: NET_Websockets_InitServer_def SetLocalNode_def InitWebSockets_def ws_boot_def ws_sample_env_def
        called_def ws_hosting_def ws_consts)
  from ws_reach.step [OF ws_reach.boot browser_sample(1) this] show r: "ws_reach [InitServer] (ws_hosting False)"
    by simp
  have "on_event ws_sample_env (Callback (Opened 7)) (ws_hosting False) = Inr (ws_hosting True)"
    by (simp add: OnOpen_def StaleEvent_def SendAnnounce_def NET_WS_BuildFrame_def NET_WS_WriteU32LE_def
        ws_sample_env_def called_def ws_hosting_def ws_boot_def ws_consts Let_def)
  from ws_reach.step [OF r browser_sample(1) this]
  show "ws_reach (InitServer # [Callback (Opened 7)]) (ws_hosting True)" by simp
qed

lemma refused_reached: "ws_reach [InitServer] ws_refused" "ws_state ws_refused = WS_FAILED"
    "on_event ws_sample_env (Callback (Opened 7)) ws_refused = Inr ws_refused"
proof -
  have b: "browser (ws_sample_env\<lparr>we_supported := False\<rparr>)" by (auto simp: browser_def ws_sample_env_def)
  have "on_event (ws_sample_env\<lparr>we_supported := False\<rparr>) InitServer ws_boot = Inr ws_refused"
    by (simp add: NET_Websockets_InitServer_def SetLocalNode_def InitWebSockets_def ws_boot_def ws_sample_env_def
        ws_refused_def ws_consts)
  from ws_reach.step [OF ws_reach.boot b this] show "ws_reach [InitServer] ws_refused" by simp
  show "ws_state ws_refused = WS_FAILED" "on_event ws_sample_env (Callback (Opened 7)) ws_refused = Inr ws_refused"
    by (simp_all add: ws_refused_def OnOpen_def StaleEvent_def ws_boot_def)
qed

text \<open>C32: Closing the socket may dispatch the module's own callbacks before the close call returns.
  Whatever these are, and for whatever socket, shutting down does the same as if none came: the
  handle is retired first, so every one of them is stale.\<close>

theorem ws_shutdown_not_reentrant:
  "ShutdownSocket (e\<lparr>we_reenter := callbacks e' cbs\<rparr>) st = ShutdownSocket (e\<lparr>we_reenter := Inr\<rparr>) st"
proof -
  have "browser (e\<lparr>we_reenter := callbacks e' cbs\<rparr>)" by (auto simp: browser_def)
  from Shutdown_browser [OF this, of st] show ?thesis by simp
qed

text \<open>C31: In every state the module can get into, the socket handle is live exactly while the state is
  connecting or open, nothing is queued otherwise, and the calls made to the socket library are those
  of at most one session: one creation, frames only while it is open, one close and one deletion.\<close>

theorem ws_one_session:
  assumes "ws_reach evs st"
  shows "(websocket st > 0 \<longleftrightarrow> ws_state st \<in> {WS_CONNECTING, WS_OPEN})
    \<and> (websocket st \<le> 0 \<longrightarrow> ws_contents (recv_queue st) = [])
    \<and> session_calls (ws_state st) (websocket st) (ws_calls st)"
  using ws_reach_inv [OF assms] by (auto simp: ws_run_def ws_inv_def linked_def)

theorem ws_one_session_witness: "session_calls WS_OPEN 7 (ws_calls (ws_hosting True))"
  using ws_one_session [OF hosting_reached(2)] by (simp add: ws_hosting_def)

text \<open>Failure is final: once the session has failed, no operation and no callback changes that,
  nothing more is sent and no further socket is created.\<close>

theorem ws_failed_is_final:
  assumes "ws_reach evs st" "ws_state st = WS_FAILED" "browser e" "on_event e ev st = Inr st'"
  shows "ws_state st' = WS_FAILED \<and> ws_calls st' = ws_calls st \<and> websocket st' \<le> 0
    \<and> ws_contents (recv_queue st') = []"
proof -
  have "evolves False st st'"
    using on_event_evolves [OF assms(3) _ assms(4)] ws_reach_inv [OF assms(1)] by (simp add: ws_run_def)
  then show ?thesis using assms(2) by (auto simp: evolves_def ws_run_def ws_inv_def linked_def)
qed

text \<open>A host claims its room before anything else: when the module is first initialised as a
  server, the first frame it ever sends is the announcement from node 1 to the router, and the
  session is never open without it having been sent.\<close>

theorem ws_host_announces_first:
  assumes "ws_reach (InitServer # evs) st"
  shows "(sent (ws_calls st) \<noteq> [] \<longrightarrow> hd (sent (ws_calls st)) = [0, 0, 0, 0, 1, 0, 0, 0])
    \<and> (ws_state st = WS_OPEN \<longrightarrow> sent (ws_calls st) \<noteq> [])"
proof -
  have "host_announce = [0, 0, 0, 0, 1, 0, 0, 0]"
    by (simp add: host_announce_def NET_WS_WriteU32LE_def ws_consts)
  then show ?thesis using ws_reach_inv [OF assms] by (auto simp: ws_run_def host_inv_def host_base_def)
qed

text \<open>The only faults of the module: no node identity could be drawn in sixteen attempts, or the
  caller used an address that is not in the table. No loop of it runs forever.\<close>

theorem ws_faults:
  assumes "ws_reach evs st" "browser e" "on_event e ev st = Inl f"
  shows "(ev = InitClient \<and> RandomNodeId e = Inl f)
    \<or> (\<exists>a p. ev = SendTo (Some a) p \<and> addr_entry a st = Inl f)
    \<or> (\<exists>a. ev = FreeAddr a \<and> table_index a (addr_table st) = None \<and> f = IError)"
  using on_event_fault [OF assms(2) _ assms(3)] ws_reach_inv [OF assms(1)] by (simp add: ws_run_def)

theorem ws_faults_witness: "table_index 3 (addr_table ws_boot) = None"
proof -
  have "on_event ws_sample_env (FreeAddr 3) ws_boot = Inl IError"
    by (simp add: NET_Websockets_FreeAddress_def table_index_def ws_boot_def)
  from ws_faults [OF ws_reach.boot browser_sample(1) this] show ?thesis by simp
qed

lemma digit_byte:
  assumes "n < 10"
  shows "is_digit (of_nat (48 + n)) \<and> unat (of_nat (48 + n) :: u8) - 48 = n"
proof -
  have "unat (of_nat (48 + n) :: u8) = 48 + n"
    unfolding unat_of_nat using assms by (simp add: take_bit_nat_eq_self_iff)
  then show ?thesis using assms unfolding is_digit_def word_le_nat_alt by simp
qed

lemma digits_decimal: "digits_value v (decimal n @ xs) = digits_value (v * 10 ^ length (decimal n) + n) xs"
proof (induction n arbitrary: v xs rule: decimal.induct)
  case (1 n)
  show ?case
  proof (cases "n < 10")
    case True
    then show ?thesis using digit_byte [OF True] by (subst (1 2) decimal.simps) simp
  next
    case False
    have d: "decimal n = decimal (n div 10) @ [of_nat (48 + n mod 10)]" using False by (subst decimal.simps) simp
    have "digits_value v (decimal n @ xs)
        = digits_value (v * 10 ^ length (decimal (n div 10)) + n div 10) (of_nat (48 + n mod 10) # xs)"
      unfolding d using 1 [OF False] by simp
    also have "\<dots> = digits_value ((v * 10 ^ length (decimal (n div 10)) + n div 10) * 10 + n mod 10) xs"
      using digit_byte [of "n mod 10"] by simp
    also have "(v * 10 ^ length (decimal (n div 10)) + n div 10) * 10 + n mod 10
        = v * 10 ^ length (decimal n) + n" unfolding d by (simp add: algebra_simps)
    finally show ?thesis .
  qed
qed

lemma decimal_head: "\<exists>c cs. decimal n = c # cs \<and> is_digit c"
proof (induction n rule: decimal.induct)
  case (1 n)
  show ?case
  proof (cases "n < 10")
    case True
    then show ?thesis using digit_byte [OF True] by (subst decimal.simps) simp
  next
    case False
    then show ?thesis using 1 by (subst decimal.simps) auto
  qed
qed

lemma digit_not_sign: "is_digit c \<Longrightarrow> \<not> is_space c \<and> c \<noteq> 45 \<and> c \<noteq> 43"
  unfolding is_digit_def is_space_def word_le_nat_alt word_unat_eq_iff by auto

lemma strtoul_decimal: "n \<le> ulong_max \<Longrightarrow> strtoul10 ulong_max (decimal n) = (n, [])"
proof -
  assume n: "n \<le> ulong_max"
  obtain c cs where d: "decimal n = c # cs" "is_digit c" using decimal_head by blast
  have "digits_value 0 (c # cs) = (n, [])" using digits_decimal [of 0 n "[]"] d by simp
  then show ?thesis using n d digit_not_sign [OF d(2)] by (simp add: strtoul10_def Let_def del: digits_value.simps)
qed

text \<open>The decimal text of a node id, which is what a client is given, resolves to the address of
  that node. With the 32-bit \<open>unsigned long\<close> of the browser target, the check against 0xffffffff never
  fires: an id that is too large is not refused but resolves to node 4294967295.\<close>

theorem ws_resolve_node:
  "NET_Websockets_ResolveAddress (e\<lparr>we_ulong_max := 0xffffffff\<rparr>) (Some (decimal (unat node))) st
     = (case FindAddress node st of (a, st') \<Rightarrow> (Some a, st'))
   \<and> fst (NET_Websockets_ResolveAddress (e\<lparr>we_ulong_max := 0xffffffff\<rparr>) (Some (cstr ''4294967296'')) st)
     = Some (fst (FindAddress 0xffffffff st))
   \<and> fst (NET_Websockets_ResolveAddress (e\<lparr>we_ulong_max := 0xffffffffffffffff\<rparr>) (Some (cstr ''4294967296'')) st)
     = None"
proof -
  have n: "unat node \<le> 0xffffffff" using unat_bound [of node] by simp
  have big: "strtoul10 0xffffffff (cstr ''4294967296'') = (0xffffffff, [])"
    "strtoul10 0xffffffffffffffff (cstr ''4294967296'') = (4294967296, [])"
    by (simp_all add: strtoul10_def cstr_def is_space_def is_digit_def Let_def)
  have "length (cstr ''4294967296'') = 10" by (simp add: cstr_def)
  then show ?thesis using strtoul_decimal [OF n] n big decimal_head [of "unat node"]
    by (auto simp: NET_Websockets_ResolveAddress_def split_def)
qed

end
