(* ===== verification/Net_IO_Props.thy ===== *)
theory Net_IO_Props
  imports Net_IO_Refs Net_Websockets_Props
begin

text \<open>
  The properties of the network layer over the loopback and the WebSocket transport, over every
  sequence of operations of its users and of callbacks of the browser.
\<close>

text \<open>A sample run: the WebSocket module is registered, and the room's host is looked up.\<close>

fun io_after :: "io_op list \<Rightarrow> io_user \<Rightarrow> io_user" where
  "io_after [] u = u"
| "io_after (op # ops) u = io_after ops (case io_do ws_sample_env op u of Inr u' \<Rightarrow> u' | Inl _ \<Rightarrow> u)"

definition io_sample :: io_user where
  "io_sample = io_after [IoAdd Websockets, IoResolve None] io_boot"

lemma io_step_reached:
  assumes "io_reach u" "io_allowed op u" "op \<noteq> IoInit False"
  shows "io_reach (case io_do ws_sample_env op u of Inr u' \<Rightarrow> u' | Inl _ \<Rightarrow> u)"
proof (cases "io_do ws_sample_env op u")
  case (Inl f)
  then show ?thesis using assms(1) by simp
next
  case (Inr u')
  from io_reach.step [OF assms(1) browser_sample(1) assms(2) this] show ?thesis using Inr by simp
qed

lemma io_sample_reached: "io_reach io_sample"
  unfolding io_sample_def io_after.simps
  by (intro io_step_reached io_reach.boot)
    (simp_all add: io_boot_def NET_NewContext_def MAX_MODULES_def NET_AddModule_def)

lemma sixteen_slots: "replicate 16 None = [None, None, None, None, None, None, None, None,
    None, None, None, None, None, None, None, None]"
  by (simp add: numeral_eq_Suc)

lemma io_sample_held: "fst (snd io_sample) = [WsAddr 0]"
  by (simp add: io_sample_def io_boot_def ws_boot_def NET_NewContext_def NET_AddModule_def MAX_MODULES_def
      on_ws_def NET_Websockets_ResolveAddress_def FindAddress_def InitAddrTable_def sixteen_slots
      NET_ReferenceAddress_io_def addr_entry_def table_index_def upt_rec)

text \<open>C29: The reference counts are exact: the count of every entry of the address table is the number
  of references held to it, and positive; no reference is dangling; two addresses of the same node
  are the same pointer; and when every reference has been released the table is empty, so a session
  whose peers come and go does not grow it.\<close>

theorem net_addresses_accounted:
  assumes "io_reach (ctx, held, st)"
  shows "(\<forall>x \<in> entries (addr_table (io_ws st)).
            ap_refcount x = int (count_list held (WsAddr (ap_id x))) \<and> ap_refcount x > 0)
    \<and> (\<forall>a. WsAddr a \<in> set held \<longrightarrow> (\<exists>x \<in> entries (addr_table (io_ws st)). ap_id x = a))
    \<and> (\<forall>x \<in> entries (addr_table (io_ws st)). \<forall>y \<in> entries (addr_table (io_ws st)).
          ap_node x = ap_node y \<longrightarrow> x = y)
    \<and> ((\<forall>a. WsAddr a \<notin> set held) \<longrightarrow> entries (addr_table (io_ws st)) = {})"
proof -
  have r: "refs_ok held (io_ws st)" using io_reach_inv [OF assms] by simp
  then have "table_ok (addr_table (io_ws st))" by (simp add: refs_ok_def addr_inv_def)
  then have "x = y" if "x \<in> entries (addr_table (io_ws st))" "y \<in> entries (addr_table (io_ws st))"
    "ap_node x = ap_node y" for x y using entries_unique that by blast
  moreover have "entries (addr_table (io_ws st)) = {}" if "\<forall>a. WsAddr a \<notin> set held"
    using r that by (fastforce simp: refs_ok_def count_notin)
  ultimately show ?thesis using r unfolding refs_ok_def by blast
qed

theorem net_addresses_accounted_witness:
  "\<exists>x \<in> entries (addr_table (io_ws (snd (snd io_sample)))). ap_id x = 0 \<and> ap_refcount x = 1"
proof -
  have "io_reach (fst io_sample, [WsAddr 0], snd (snd io_sample))"
    using io_sample_reached io_sample_held by (metis prod.collapse)
  from net_addresses_accounted [OF this] show ?thesis by fastforce
qed



end
