(* ===== verification/Net_Client.thy ===== *)
theory Net_Client
  imports Net_Server
begin

text \<open>
  The game client (\<open>engine/src/net_client.c\<close>). The static variables of the file and of
  \<open>UpdateClockSync\<close> are the fields of the record \<open>net_cl\<close>. Three fields are no variables of the
  file: \<open>cl_out\<close>, the datagrams sent; \<open>cl_ticcalls\<close>, the calls made of \<open>D_ReceiveTic\<close>, where
  \<open>None\<close> is the call with NULL that reports the end of the connection; and \<open>server_refs\<close>, the
  references to the server's address. \<open>D_ReceiveTic\<close> touches none of this state.

  \<open>cl_env\<close> holds what comes from outside: the clock, the contents of uninitialised local variables,
  and \<open>ce_pid\<close>, the PID filter of \<open>UpdateClockSync\<close>, which is computed in floating point.
  Printed and logged text is left out.
\<close>

datatype net_clientstate =
    CLIENT_STATE_WAITING_LAUNCH
  | CLIENT_STATE_WAITING_START
  | CLIENT_STATE_IN_GAME

record net_server_recv =
  sr_active :: bool
  sr_resend_time :: u32
  sr_cmd :: net_full_ticcmd

record net_server_send =
  ss_active :: bool
  ss_seq :: u32
  ss_time :: u32
  ss_cmd :: net_ticdiff

record net_cl =
  client_connection :: net_connection
  client_state :: net_clientstate
  server_addr :: "net_addr option"
  cl_settings :: net_gamesettings
  net_client_reject_reason :: "bytes option"
  net_client_connected :: bool
  net_client_received_wait_data :: bool
  net_client_wait_data :: net_waitdata
  net_waiting_for_launch :: bool
  net_player_name :: "bytes option"
  drone :: bool
  last_ticcmd :: ticcmd
  send_queue :: "net_server_send list"
  recvwindow_cmd_base :: "ticcmd list"
  cw_start :: u32
  cw :: "net_server_recv list"
  need_to_acknowledge :: bool
  gamedata_recv_time :: u32
  last_latency :: u32
  last_error :: u32
  cumul_error :: u32
  offsetms :: u32
  net_local_wad_sha1sum :: bytes
  net_local_deh_sha1sum :: bytes
  net_local_is_freedoom :: u32
  cl_out :: "datagram list"
  cl_ticcalls :: "(ticcmd list \<times> bool list) option list"
  server_refs :: int

record cl_env =
  ce_now :: u32
  ce_pid :: "u32 \<Rightarrow> u32 \<Rightarrow> u32 \<Rightarrow> u32"
  ce_junk_ticcmds :: "ticcmd list"
  ce_junk_cmd :: net_full_ticcmd
  ce_junk_wait :: net_waitdata
  ce_addr_to_string :: "net_addr \<Rightarrow> bytes"
  ce_resolve :: "(bytes \<Rightarrow> net_addr option) list"
  ce_init_client :: bool

definition blank_server_recv :: net_server_recv where
  "blank_server_recv = \<lparr>sr_active = False, sr_resend_time = 0,
     sr_cmd = \<lparr>fc_latency = 0, fc_seq = 0, fc_playeringame = replicate NET_MAXPLAYERS False,
       fc_cmds = replicate NET_MAXPLAYERS \<lparr>td_diff = 0, td_cmd = zero_ticcmd\<rparr>\<rparr>\<rparr>"

definition blank_server_send :: net_server_send where
  "blank_server_send = \<lparr>ss_active = False, ss_seq = 0, ss_time = 0,
     ss_cmd = \<lparr>td_diff = 0, td_cmd = zero_ticcmd\<rparr>\<rparr>"

text \<open>An operation of \<open>net_common.c\<close> on the client's connection; a new reliable packet.\<close>

definition cl_connection_op :: "(net_connection \<Rightarrow> net_connection \<times> datagram list) \<Rightarrow> net_cl \<Rightarrow> net_cl" where
  "cl_connection_op f s =
     (case f (client_connection s) of
        (c, out) \<Rightarrow> s\<lparr>client_connection := c, cl_out := cl_out s @ out\<rparr>)"

definition NET_CL_ExpandTicNum :: "net_cl \<Rightarrow> u32 \<Rightarrow> u32" where
  "NET_CL_ExpandTicNum s b = NET_ExpandTicNum (cw_start s) b"

definition NET_CL_Disconnected :: "net_cl \<Rightarrow> net_cl" where
  "NET_CL_Disconnected s = s\<lparr>cl_ticcalls := cl_ticcalls s @ [None]\<rparr>"

text \<open>\<open>send_queue[seq % BACKUPTICS]\<close> for an unsigned \<open>seq\<close>.\<close>

definition send_slot :: "net_cl \<Rightarrow> u32 \<Rightarrow> net_server_send" where
  "send_slot s seq = send_queue s ! (unat seq mod BACKUPTICS)"

definition UpdateClockSync :: "cl_env \<Rightarrow> u32 \<Rightarrow> u32 \<Rightarrow> net_cl \<Rightarrow> net_cl" where
  "UpdateClockSync e seq remote_latency s =
     (let slot = send_slot s seq
      in if seq < ss_seq slot then s
         else let latency = (if seq = ss_seq slot then ce_now e - ss_time slot else 0);
                  error = latency - remote_latency;
                  cumul = cumul_error s + error
              in s\<lparr>cumul_error := cumul, offsetms := ce_pid e error cumul (last_error s),
                   last_error := error, last_latency := latency\<rparr>)"

subsection \<open>The receive window\<close>

text \<open>The loop of \<open>NET_CL_ExpandFullTiccmd\<close> over the players, on \<open>recvwindow_cmd_base\<close> and \<open>ticcmds\<close>.\<close>

fun expand_players :: "net_cl \<Rightarrow> net_full_ticcmd \<Rightarrow> nat list \<Rightarrow> ticcmd list \<Rightarrow> ticcmd list
    \<Rightarrow> ticcmd list \<times> ticcmd list" where
  "expand_players s cmd [] base ticcmds = (base, ticcmds)"
| "expand_players s cmd (i # is) base ticcmds =
     (if of_nat i = gs_consoleplayer (cl_settings s) \<and> \<not> drone s then expand_players s cmd is base ticcmds
      else if fc_playeringame cmd ! i
      then let new = NET_TiccmdPatch (base ! i) (fc_cmds cmd ! i)
           in expand_players s cmd is (base[i := new]) (ticcmds[i := new])
      else expand_players s cmd is base ticcmds)"

definition NET_CL_ExpandFullTiccmd :: "net_full_ticcmd \<Rightarrow> ticcmd list \<Rightarrow> net_cl \<Rightarrow> ticcmd list \<times> net_cl" where
  "NET_CL_ExpandFullTiccmd cmd ticcmds s =
     (case expand_players s cmd [0..<NET_MAXPLAYERS] (recvwindow_cmd_base s) ticcmds of
        (base, ticcmds) \<Rightarrow> (ticcmds, s\<lparr>recvwindow_cmd_base := base\<rparr>))"

text \<open>One round of the loop of \<open>NET_CL_AdvanceWindow\<close>. Each takes an entry out of the window, so there
  are at most as many rounds as active entries.\<close>

definition advance_tic :: "ticcmd list \<Rightarrow> net_cl \<Rightarrow> ticcmd list \<times> net_cl" where
  "advance_tic ticcmds s =
     (let cmd = sr_cmd (cw s ! 0);
          (ticcmds, s) = NET_CL_ExpandFullTiccmd cmd ticcmds s;
          s = s\<lparr>cl_ticcalls := cl_ticcalls s @ [Some (ticcmds, fc_playeringame cmd)]\<rparr>
      in (ticcmds, s\<lparr>cw := tl (cw s) @ [blank_server_recv], cw_start := cw_start s + 1\<rparr>))"

lemma advance_tic_window [simp]: "cw (snd (advance_tic ticcmds s)) = tl (cw s) @ [blank_server_recv]"
  by (simp add: advance_tic_def NET_CL_ExpandFullTiccmd_def split_def Let_def)

lemma advance_tic_shrinks:
  assumes "cw s \<noteq> []" "sr_active (cw s ! 0)" "advance_tic ticcmds s = (ticcmds', s')"
  shows "length (filter sr_active (cw s')) < length (filter sr_active (cw s))"
proof -
  have "cw s' = tl (cw s) @ [blank_server_recv]" using advance_tic_window [of ticcmds s] assms(3) by (metis snd_conv)
  then show ?thesis using assms(1,2) by (cases "cw s") (auto simp: blank_server_recv_def)
qed

function advance_window :: "ticcmd list \<Rightarrow> net_cl \<Rightarrow> net_cl" where
  "advance_window ticcmds s =
     (if cw s \<noteq> [] \<and> sr_active (cw s ! 0)
      then case advance_tic ticcmds s of (ticcmds, s) \<Rightarrow> advance_window ticcmds s
      else s)"
  by pat_completeness auto
termination
  by (relation "measure (\<lambda>(ticcmds, s). length (filter sr_active (cw s)))")
    (auto intro: advance_tic_shrinks split: prod.split)

declare advance_window.simps [simp del]

definition NET_CL_AdvanceWindow :: "cl_env \<Rightarrow> net_cl \<Rightarrow> net_cl" where
  "NET_CL_AdvanceWindow e s = advance_window (ce_junk_ticcmds e) s"

subsection \<open>Sending\<close>

definition NET_CL_Shutdown :: "net_cl \<Rightarrow> net_cl" where
  "NET_CL_Shutdown s =
     (if net_client_connected s
      then s\<lparr>net_client_connected := False, server_refs := server_refs s - (if server_addr s = None then 0 else 1)\<rparr>
      else s)"

definition NET_CL_LaunchGame :: "net_cl \<Rightarrow> net_cl" where
  "NET_CL_LaunchGame s = cl_connection_op (\<lambda>c. (NET_Conn_NewReliable c NET_PACKET_TYPE_LAUNCH, [])) s"

definition NET_CL_StartGame :: "net_gamesettings \<Rightarrow> net_cl \<Rightarrow> net_cl res" where
  "NET_CL_StartGame settings s =
     (let s = s\<lparr>last_ticcmd := zero_ticcmd\<rparr>;
          c = NET_Conn_NewReliable (client_connection s) NET_PACKET_TYPE_GAMESTART
      in bindR (NET_WriteSettings (rp_packet (last (cn_reliable_packets c))) settings) (\<lambda>p.
         Inr (s\<lparr>client_connection := on_new_reliable (\<lambda>_. p) c\<rparr>)))"

definition NET_CL_SendGameDataACK :: "cl_env \<Rightarrow> net_cl \<Rightarrow> net_cl" where
  "NET_CL_SendGameDataACK e s =
     (let packet = NET_WriteInt16 (NET_NewPacket 10) NET_PACKET_TYPE_GAMEDATA_ACK;
          packet = NET_WriteInt8 packet (cw_start s AND 0xff)
      in (cl_connection_op (\<lambda>c. NET_Conn_SendPacket (ce_now e) c packet) s)\<lparr>need_to_acknowledge := False\<rparr>)"

text \<open>The loop runs over the signed numbers from \<open>start\<close> to \<open>end\<close>.\<close>

definition write_send_tics :: "net_cl \<Rightarrow> u32 \<Rightarrow> u32 \<Rightarrow> net_packet \<Rightarrow> net_packet" where
  "write_send_tics s start final packet =
     fold (\<lambda>i packet.
       NET_WriteTiccmdDiff (NET_WriteInt16 packet (last_latency s))
         (ss_cmd (send_queue s ! (nat i mod BACKUPTICS))) (gs_lowres_turn (cl_settings s) \<noteq> 0))
       [sint start..sint final] packet"

definition NET_CL_SendTics :: "cl_env \<Rightarrow> u32 \<Rightarrow> u32 \<Rightarrow> net_cl \<Rightarrow> net_cl" where
  "NET_CL_SendTics e start final s =
     (if \<not> net_client_connected s then s
      else let start = (if start <s 0 then 0 else start);
               packet = NET_WriteInt16 (NET_NewPacket 512) NET_PACKET_TYPE_GAMEDATA;
               packet = NET_WriteInt8 packet (cw_start s AND 0xff);
               packet = NET_WriteInt8 packet (start AND 0xff);
               packet = NET_WriteInt8 packet (final - start + 1);
               packet = write_send_tics s start final packet
           in (cl_connection_op (\<lambda>c. NET_Conn_SendPacket (ce_now e) c packet) s)
                \<lparr>need_to_acknowledge := False\<rparr>)"

text \<open>\<open>maketic % BACKUPTICS\<close> as an index: the remainder of a negative number is not positive.\<close>

definition NET_CL_SendTiccmd :: "cl_env \<Rightarrow> ticcmd \<Rightarrow> u32 \<Rightarrow> net_cl \<Rightarrow> net_cl res" where
  "NET_CL_SendTiccmd e cmd maketic s =
     (let diff = NET_TiccmdDiff (last_ticcmd s) cmd
      in if maketic <s 0 \<and> unat maketic mod BACKUPTICS \<noteq> 0 then Inl OutOfBounds
         else let k = unat maketic mod BACKUPTICS;
                  s = s\<lparr>send_queue := (send_queue s)
                     [k := \<lparr>ss_active = True, ss_seq = maketic, ss_time = ce_now e, ss_cmd = diff\<rparr>],
                       last_ticcmd := cmd\<rparr>;
                  starttic = maketic - gs_extratics (cl_settings s);
                  starttic = (if starttic <s 0 then 0 else starttic)
              in Inr (NET_CL_SendTics e starttic maketic s))"

subsection \<open>Packets from the server\<close>

definition NET_CL_ParseSYN :: "net_packet \<Rightarrow> net_cl \<Rightarrow> net_cl" where
  "NET_CL_ParseSYN packet s =
     (case NET_ReadSafeString packet of
        (None, _) \<Rightarrow> s
      | (Some server_version, packet) \<Rightarrow>
          case NET_ReadProtocol packet of
            (NET_PROTOCOL_UNKNOWN, _) \<Rightarrow> s
          | (protocol, _) \<Rightarrow>
              s\<lparr>client_connection := (client_connection s)
                  \<lparr>cn_state := NET_CONN_STATE_CONNECTED, cn_protocol := protocol\<rparr>\<rparr>)"

definition SetRejectReason :: "bytes option \<Rightarrow> net_cl \<Rightarrow> net_cl" where
  "SetRejectReason reason s = s\<lparr>net_client_reject_reason := reason\<rparr>"

definition NET_CL_ParseReject :: "net_packet \<Rightarrow> net_cl \<Rightarrow> net_cl" where
  "NET_CL_ParseReject packet s =
     (case NET_ReadSafeString packet of
        (None, _) \<Rightarrow> s
      | (Some msg, _) \<Rightarrow>
          if cn_state (client_connection s) = NET_CONN_STATE_CONNECTING
          then SetRejectReason (Some msg)
                 (s\<lparr>client_connection := (client_connection s)
                   \<lparr>cn_state := NET_CONN_STATE_DISCONNECTED, cn_disconnect_reason := NET_DISCONNECT_REMOTE\<rparr>\<rparr>)
          else s)"

definition NET_CL_ParseWaitingData :: "cl_env \<Rightarrow> net_packet \<Rightarrow> net_cl \<Rightarrow> net_cl" where
  "NET_CL_ParseWaitingData e packet s =
     (case NET_ReadWaitData packet (ce_junk_wait e) of
        None \<Rightarrow> s
      | Some (wdata, _) \<Rightarrow>
          if wd_max_players wdata <s wd_num_players wdata
            \<or> wd_num_players wdata <s wd_ready_players wdata
            \<or> of_nat NET_MAXPLAYERS <s wd_max_players wdata
          then s
          else if (0 \<le>s wd_consoleplayer wdata \<and> drone s)
            \<or> (wd_consoleplayer wdata <s 0 \<and> \<not> drone s)
            \<or> wd_num_players wdata \<le>s wd_consoleplayer wdata
          then s
          else s\<lparr>net_client_wait_data := wdata, net_client_received_wait_data := True\<rparr>)"

definition NET_CL_ParseLaunch :: "net_packet \<Rightarrow> net_cl \<Rightarrow> net_cl" where
  "NET_CL_ParseLaunch packet s =
     (if client_state s \<noteq> CLIENT_STATE_WAITING_LAUNCH then s
      else case NET_ReadInt8 packet of
             None \<Rightarrow> s
           | Some (num_players, _) \<Rightarrow>
               s\<lparr>net_client_wait_data := (net_client_wait_data s)\<lparr>wd_num_players := num_players\<rparr>,
                 client_state := CLIENT_STATE_WAITING_START\<rparr>)"

text \<open>
  \<open>NET_ReadSettings\<close> stores the fields as it reads them, here straight into the client's settings:
  a read that fails leaves those it got to. The result is the settings and whether it succeeded.
\<close>

definition settings_fields ::
  "((net_packet \<Rightarrow> (u32 \<times> net_packet) option) \<times> (u32 \<Rightarrow> net_gamesettings \<Rightarrow> net_gamesettings)) list" where
  "settings_fields =
     [(NET_ReadInt8, \<lambda>v. gs_ticdup_update (\<lambda>_. v)), (NET_ReadInt8, \<lambda>v. gs_extratics_update (\<lambda>_. v)),
      (NET_ReadInt8, \<lambda>v. gs_deathmatch_update (\<lambda>_. v)), (NET_ReadInt8, \<lambda>v. gs_nomonsters_update (\<lambda>_. v)),
      (NET_ReadInt8, \<lambda>v. gs_fast_monsters_update (\<lambda>_. v)),
      (NET_ReadInt8, \<lambda>v. gs_respawn_monsters_update (\<lambda>_. v)),
      (NET_ReadInt8, \<lambda>v. gs_episode_update (\<lambda>_. v)), (NET_ReadInt8, \<lambda>v. gs_map_update (\<lambda>_. v)),
      (NET_ReadSInt8, \<lambda>v. gs_skill_update (\<lambda>_. v)), (NET_ReadInt8, \<lambda>v. gs_gameversion_update (\<lambda>_. v)),
      (NET_ReadInt8, \<lambda>v. gs_lowres_turn_update (\<lambda>_. v)), (NET_ReadInt8, \<lambda>v. gs_new_sync_update (\<lambda>_. v)),
      (NET_ReadInt32, \<lambda>v. gs_timelimit_update (\<lambda>_. v)), (NET_ReadSInt8, \<lambda>v. gs_loadgame_update (\<lambda>_. v)),
      (NET_ReadInt8, \<lambda>v. gs_random_update (\<lambda>_. v)), (NET_ReadInt8, \<lambda>v. gs_num_players_update (\<lambda>_. v)),
      (NET_ReadSInt8, \<lambda>v. gs_consoleplayer_update (\<lambda>_. v))]"

fun read_fields :: "((net_packet \<Rightarrow> (u32 \<times> net_packet) option) \<times> (u32 \<Rightarrow> 's \<Rightarrow> 's)) list
    \<Rightarrow> net_packet \<Rightarrow> 's \<Rightarrow> bool \<times> 's \<times> net_packet" where
  "read_fields [] p s = (True, s, p)"
| "read_fields ((rd, set_field) # fs) p s =
     (case rd p of
        None \<Rightarrow> (False, s, p)
      | Some (v, p) \<Rightarrow> read_fields fs p (set_field v s))"

function read_classes_into :: "nat \<Rightarrow> net_packet \<Rightarrow> net_gamesettings \<Rightarrow> (bool \<times> net_gamesettings) res" where
  "read_classes_into i p s =
     (if int i < sint (gs_num_players s)
      then case NET_ReadInt8 p of
             None \<Rightarrow> Inr (False, s)
           | Some (c, p) \<Rightarrow>
               if i < NET_MAXPLAYERS
               then read_classes_into (Suc i) p (s\<lparr>gs_player_classes := (gs_player_classes s)[i := c]\<rparr>)
               else Inl OutOfBounds
      else Inr (True, s))"
  by pat_completeness auto
termination
  by (relation "measure (\<lambda>(i, p, s). NET_MAXPLAYERS - i)") auto

declare read_classes_into.simps [simp del]

definition NET_ReadSettings_into :: "net_packet \<Rightarrow> net_gamesettings \<Rightarrow> (bool \<times> net_gamesettings) res" where
  "NET_ReadSettings_into packet s =
     (case read_fields settings_fields packet s of
        (False, s, _) \<Rightarrow> Inr (False, s)
      | (True, s, p) \<Rightarrow> read_classes_into 0 p s)"

definition NET_CL_ParseGameStart :: "net_packet \<Rightarrow> net_cl \<Rightarrow> net_cl res" where
  "NET_CL_ParseGameStart packet s =
     bindR (NET_ReadSettings_into packet (cl_settings s)) (\<lambda>(ok, settings).
       let s = s\<lparr>cl_settings := settings\<rparr>
       in Inr (if \<not> ok then s
         else if client_state s \<noteq> CLIENT_STATE_WAITING_START then s
         else if of_nat NET_MAXPLAYERS <s gs_num_players settings
           \<or> gs_num_players settings \<le>s gs_consoleplayer settings then s
         else if (drone s \<and> 0 \<le>s gs_consoleplayer settings)
           \<or> (\<not> drone s \<and> gs_consoleplayer settings <s 0) then s
         else s\<lparr>client_state := CLIENT_STATE_IN_GAME,
                cw := replicate BACKUPTICS blank_server_recv, cw_start := 0,
                recvwindow_cmd_base := replicate NET_MAXPLAYERS zero_ticcmd,
                send_queue := replicate BACKUPTICS blank_server_send\<rparr>))"

text \<open>The times of the request are stored in those of its tics that are in the window.\<close>

definition mark_resend :: "cl_env \<Rightarrow> int \<Rightarrow> net_cl \<Rightarrow> net_cl" where
  "mark_resend e i s =
     (let index = (of_int i :: u32) - cw_start s
      in if index <s 0 \<or> of_nat BACKUPTICS \<le>s index then s
         else s\<lparr>cw := (cw s)[unat index := (cw s ! unat index)\<lparr>sr_resend_time := ce_now e\<rparr>]\<rparr>)"

definition NET_CL_SendResendRequest :: "cl_env \<Rightarrow> u32 \<Rightarrow> u32 \<Rightarrow> net_cl \<Rightarrow> net_cl" where
  "NET_CL_SendResendRequest e start final s =
     (let packet = NET_WriteInt16 (NET_NewPacket 64) NET_PACKET_TYPE_GAMEDATA_RESEND;
          packet = NET_WriteInt32 packet start;
          packet = NET_WriteInt8 packet (final - start + 1);
          s = cl_connection_op (\<lambda>c. NET_Conn_SendPacket (ce_now e) c packet) s
      in fold (mark_resend e) [sint start..sint final] s)"

definition cl_need_resend :: "cl_env \<Rightarrow> bool \<Rightarrow> nat \<Rightarrow> net_server_recv \<Rightarrow> bool" where
  "cl_need_resend e maybe_deadlocked i r \<longleftrightarrow>
     (\<not> sr_active r \<and> sr_resend_time r \<noteq> 0 \<and> ce_now e > sr_resend_time r + 300)
     \<or> (i = 0 \<and> \<not> sr_active r \<and> sr_resend_time r = 0 \<and> maybe_deadlocked)"

definition cl_request_run :: "cl_env \<Rightarrow> nat option \<Rightarrow> nat \<Rightarrow> net_cl \<Rightarrow> net_cl" where
  "cl_request_run e run_start run_end s =
     (case run_start of
        None \<Rightarrow> s
      | Some start \<Rightarrow>
          NET_CL_SendResendRequest e (cw_start s + of_nat start) (cw_start s + of_nat run_end) s)"

text \<open>The scan of \<open>NET_CL_CheckResends\<close>, with the run found so far.\<close>

fun cl_check_resends :: "cl_env \<Rightarrow> bool \<Rightarrow> nat list \<Rightarrow> nat option \<Rightarrow> nat \<Rightarrow> net_cl \<Rightarrow> net_cl" where
  "cl_check_resends e dl [] run_start run_end s = cl_request_run e run_start run_end s"
| "cl_check_resends e dl (i # is) run_start run_end s =
     (if cl_need_resend e dl i (cw s ! i)
      then cl_check_resends e dl is (case run_start of None \<Rightarrow> Some i | Some k \<Rightarrow> Some k) i s
      else cl_check_resends e dl is None run_end (cl_request_run e run_start run_end s))"

definition NET_CL_CheckResends :: "cl_env \<Rightarrow> net_cl \<Rightarrow> net_cl" where
  "NET_CL_CheckResends e s =
     (let maybe_deadlocked = ce_now e - gamedata_recv_time s > 1000;
          s = cl_check_resends e maybe_deadlocked [0..<BACKUPTICS] None 0 s
      in if need_to_acknowledge s \<and> ce_now e - gamedata_recv_time s > 200
         then NET_CL_SendGameDataACK e s else s)"

text \<open>The loop over the tics of a packet: the result says whether all of them could be read.\<close>

fun store_tics :: "cl_env \<Rightarrow> u32 \<Rightarrow> u32 \<Rightarrow> nat list \<Rightarrow> net_packet \<Rightarrow> net_cl \<Rightarrow> bool \<times> net_cl" where
  "store_tics e seq num_tics [] p s = (True, s)"
| "store_tics e seq num_tics (i # is) p s =
     (let index = seq - cw_start s + of_nat i
      in case NET_ReadFullTiccmd p (ce_junk_cmd e) (gs_lowres_turn (cl_settings s) \<noteq> 0) of
           None \<Rightarrow> (False, s)
         | Some (cmd, p) \<Rightarrow>
             if index <s 0 \<or> of_nat BACKUPTICS \<le>s index then store_tics e seq num_tics is p s
             else let s = s\<lparr>cw := (cw s)[unat index := (cw s ! unat index)\<lparr>sr_active := True, sr_cmd := cmd\<rparr>]\<rparr>;
                      s = (if of_nat i = num_tics - 1
                           then UpdateClockSync e (seq + of_nat i) (fc_latency cmd) s else s)
                  in store_tics e seq num_tics is p s)"

text \<open>The backward scan for tics that are missing before a packet and not yet requested.\<close>

fun cl_resend_start :: "net_server_recv list \<Rightarrow> nat \<Rightarrow> nat" where
  "cl_resend_start w 0 = 0"
| "cl_resend_start w (Suc index) =
     (if sr_active (w ! index) \<or> sr_resend_time (w ! index) \<noteq> 0 then Suc index
      else cl_resend_start w index)"

definition cl_request_missing :: "cl_env \<Rightarrow> u32 \<Rightarrow> net_cl \<Rightarrow> net_cl" where
  "cl_request_missing e seq s =
     (let run_end = seq - cw_start s
      in if run_end \<le>s 0 then s
         else let run_end = (if of_nat BACKUPTICS \<le>s run_end then BACKUPTICS - 1 else unat run_end);
                  run_start = cl_resend_start (cw s) run_end
              in if run_start < run_end
                 then NET_CL_SendResendRequest e (cw_start s + of_nat run_start)
                        (cw_start s + of_nat run_end - 1) s
                 else s)"

definition NET_CL_ParseGameData :: "cl_env \<Rightarrow> net_packet \<Rightarrow> net_cl \<Rightarrow> net_cl" where
  "NET_CL_ParseGameData e packet s =
     (case NET_ReadInt8 packet of None \<Rightarrow> s | Some (seq, packet) \<Rightarrow>
      case NET_ReadInt8 packet of None \<Rightarrow> s | Some (num_tics, packet) \<Rightarrow>
      let s = (if need_to_acknowledge s then s
               else s\<lparr>need_to_acknowledge := True, gamedata_recv_time := ce_now e\<rparr>);
          seq = NET_CL_ExpandTicNum s seq
      in case store_tics e seq num_tics [0..<unat num_tics] packet s of
           (False, s) \<Rightarrow> s
         | (True, s) \<Rightarrow> cl_request_missing e seq s)"

text \<open>
  The two loops that narrow a request down to the tics that are there. The numbers are unsigned and
  wrap, and the loops need not end: \<open>None\<close>.
\<close>

definition holds_tic :: "net_cl \<Rightarrow> u32 \<Rightarrow> bool" where
  "holds_tic s t \<longleftrightarrow> ss_active (send_slot s t) \<and> ss_seq (send_slot s t) = t"

partial_function (option) narrow_start :: "net_cl \<Rightarrow> u32 \<Rightarrow> u32 \<Rightarrow> u32 option" where
  "narrow_start s start final =
     (if start \<le> final \<and> \<not> holds_tic s start then narrow_start s (start + 1) final else Some start)"

partial_function (option) narrow_end :: "net_cl \<Rightarrow> u32 \<Rightarrow> u32 \<Rightarrow> u32 option" where
  "narrow_end s start final =
     (if start \<le> final \<and> \<not> holds_tic s final then narrow_end s start (final - 1) else Some final)"

definition NET_CL_ParseResendRequest :: "cl_env \<Rightarrow> net_packet \<Rightarrow> net_cl \<Rightarrow> net_cl res" where
  "NET_CL_ParseResendRequest e packet s =
     (if drone s then Inr s
      else case NET_ReadInt32 packet of None \<Rightarrow> Inr s | Some (start, packet) \<Rightarrow>
        case NET_ReadInt8 packet of None \<Rightarrow> Inr s | Some (num_tics, packet) \<Rightarrow>
        let final = start + num_tics - 1
        in case narrow_start s start final of
             None \<Rightarrow> Inl Diverges
           | Some start \<Rightarrow>
               case narrow_end s start final of
                 None \<Rightarrow> Inl Diverges
               | Some final \<Rightarrow> Inr (if start \<le> final then NET_CL_SendTics e start final s else s))"

text \<open>A console message is only printed.\<close>

definition NET_CL_ParseConsoleMessage :: "net_packet \<Rightarrow> net_cl \<Rightarrow> net_cl" where
  "NET_CL_ParseConsoleMessage packet s =
     (case NET_ReadSafeString packet of (None, _) \<Rightarrow> s | (Some msg, _) \<Rightarrow> s)"

definition cl_dispatch :: "cl_env \<Rightarrow> u32 \<Rightarrow> net_packet \<Rightarrow> net_cl \<Rightarrow> net_cl res" where
  "cl_dispatch e packet_type packet s =
     (if packet_type = NET_PACKET_TYPE_SYN then Inr (NET_CL_ParseSYN packet s)
      else if packet_type = NET_PACKET_TYPE_REJECTED then Inr (NET_CL_ParseReject packet s)
      else if packet_type = NET_PACKET_TYPE_WAITING_DATA then Inr (NET_CL_ParseWaitingData e packet s)
      else if packet_type = NET_PACKET_TYPE_LAUNCH then Inr (NET_CL_ParseLaunch packet s)
      else if packet_type = NET_PACKET_TYPE_GAMESTART then NET_CL_ParseGameStart packet s
      else if packet_type = NET_PACKET_TYPE_GAMEDATA then Inr (NET_CL_ParseGameData e packet s)
      else if packet_type = NET_PACKET_TYPE_GAMEDATA_RESEND then NET_CL_ParseResendRequest e packet s
      else if packet_type = NET_PACKET_TYPE_CONSOLE_MESSAGE then Inr (NET_CL_ParseConsoleMessage packet s)
      else Inr s)"

definition NET_CL_ParsePacket :: "cl_env \<Rightarrow> net_packet \<Rightarrow> net_cl \<Rightarrow> net_cl res" where
  "NET_CL_ParsePacket e packet s =
     (case NET_ReadInt16 packet of
        None \<Rightarrow> Inr s
      | Some (packet_type, packet) \<Rightarrow>
          let r = NET_Conn_Packet (ce_now e) (client_connection s) packet packet_type;
              s = s\<lparr>client_connection := cr_conn r, cl_out := cl_out s @ cr_out r\<rparr>
          in if cr_eaten r then Inr s else cl_dispatch e (cr_type r) (cr_packet r) s)"

subsection \<open>Running the client\<close>

text \<open>\<open>inbox\<close> is what \<open>NET_RecvPacket\<close> hands out during the call; each packet comes with a reference
  to its address that is released again.\<close>

type_synonym inbox = "(net_addr \<times> net_packet) list"

definition cl_receive_one :: "cl_env \<Rightarrow> net_addr \<times> net_packet \<Rightarrow> net_cl \<Rightarrow> net_cl res" where
  "cl_receive_one e x s =
     (case x of (addr, packet) \<Rightarrow> if Some addr = server_addr s then NET_CL_ParsePacket e packet s else Inr s)"

definition cl_ended :: "net_cl \<Rightarrow> bool" where
  "cl_ended s \<longleftrightarrow> cn_state (client_connection s) = NET_CONN_STATE_DISCONNECTED
     \<or> cn_state (client_connection s) = NET_CONN_STATE_DISCONNECTED_SLEEP"

definition NET_CL_Run :: "cl_env \<Rightarrow> inbox \<Rightarrow> net_cl \<Rightarrow> net_cl res" where
  "NET_CL_Run e inbox s =
     (if \<not> net_client_connected s then Inr s
      else bindR (foldR (cl_receive_one e) inbox s) (\<lambda>s.
        let s = cl_connection_op (NET_Conn_Run (ce_now e)) s;
            s = (if cl_ended s then NET_CL_Shutdown (NET_CL_Disconnected s) else s);
            s = s\<lparr>net_waiting_for_launch :=
                  cn_state (client_connection s) = NET_CONN_STATE_CONNECTED
                  \<and> client_state s = CLIENT_STATE_WAITING_LAUNCH\<rparr>
        in Inr (if client_state s = CLIENT_STATE_IN_GAME
                then NET_CL_CheckResends e (NET_CL_AdvanceWindow e s) else s)))"

definition NET_CL_SendSYN :: "cl_env \<Rightarrow> net_connect_data \<Rightarrow> net_cl \<Rightarrow> net_cl res" where
  "NET_CL_SendSYN e data s =
     (let packet = NET_WriteInt16 (NET_NewPacket 10) NET_PACKET_TYPE_SYN;
          packet = NET_WriteInt32 packet NET_MAGIC_NUMBER;
          packet = NET_WriteString packet PACKAGE_STRING
      in bindR (NET_WriteProtocolList packet) (\<lambda>packet.
         let packet = NET_WriteConnectData packet data
         in case net_player_name s of
              None \<Rightarrow> Inl NullDeref
            | Some name \<Rightarrow>
                Inr (cl_connection_op (\<lambda>c. NET_Conn_SendPacket (ce_now e) c (NET_WriteString packet name)) s)))"

definition NET_RequestHolePunch :: "cl_env \<Rightarrow> net_addr \<Rightarrow> net_cl \<Rightarrow> net_cl" where
  "NET_RequestHolePunch e addr s =
     (case resolve_in (ce_resolve e) MASTER_SERVER_ADDRESS of
        None \<Rightarrow> s
      | Some master \<Rightarrow>
          let packet = NET_WriteInt16 (NET_NewPacket 32) NET_MASTER_PACKET_TYPE_NAT_HOLE_PUNCH;
              packet = NET_WriteString packet (ce_addr_to_string e addr)
          in s\<lparr>cl_out := cl_out s @ [(master, pdata packet)]\<rparr>)"

text \<open>
  A round of a waiting loop: the time and the packets that arrive while \<open>NET_CL_Run\<close> and
  \<open>NET_SV_Run\<close> run. The loop of \<open>NET_CL_Connect\<close> goes through the rounds to come; \<open>None\<close> means
  that it is still going on after the last of them. \<open>last_send_time\<close> is -1 before the first SYN.
\<close>

type_synonym round = "cl_env \<times> inbox"

fun connect_loop :: "net_addr \<Rightarrow> net_connect_data \<Rightarrow> u32 \<Rightarrow> round list \<Rightarrow> u32 \<Rightarrow> bool \<Rightarrow> net_cl
    \<Rightarrow> net_cl res option" where
  "connect_loop addr data start_time rounds last_send_time sent_hole_punch s =
     (if cn_state (client_connection s) \<noteq> NET_CONN_STATE_CONNECTING then Some (Inr s)
      else case rounds of
             [] \<Rightarrow> None
           | (e, inbox) # rounds \<Rightarrow>
               let nowtime = ce_now e
               in case (if 1000 <s nowtime - last_send_time \<or> last_send_time <s 0
                        then bindR (NET_CL_SendSYN e data s) (\<lambda>s. Inr (nowtime, s))
                        else Inr (last_send_time, s)) of
                    Inl f \<Rightarrow> Some (Inl f)
                  | Inr (last_send_time, s) \<Rightarrow>
                      if 5000 <s nowtime - start_time
                      then Some (Inr (SetRejectReason (Some (cstr ''No response from server'')) s))
                      else let punch = \<not> sent_hole_punch \<and> 2000 <s nowtime - start_time;
                               s = (if punch then NET_RequestHolePunch e addr s else s)
                           in case NET_CL_Run e inbox s of
                                Inl f \<Rightarrow> Some (Inl f)
                              | Inr s \<Rightarrow> connect_loop addr data start_time rounds last_send_time
                                          (sent_hole_punch \<or> punch) s)"

declare connect_loop.simps [simp del]

definition NET_CL_Connect :: "cl_env \<Rightarrow> net_addr \<Rightarrow> net_connect_data \<Rightarrow> round list \<Rightarrow> net_cl
    \<Rightarrow> (bool \<times> net_cl) res option" where
  "NET_CL_Connect e addr data rounds s =
     (let s = s\<lparr>server_addr := Some addr, server_refs := server_refs s + 1,
               net_local_wad_sha1sum := cd_wad_sha1sum data, net_local_deh_sha1sum := cd_deh_sha1sum data,
               net_local_is_freedoom := cd_is_freedoom data\<rparr>
      in if \<not> ce_init_client e
         then Some (Inr (False, SetRejectReason (Some (cstr ''Failed to initialize client module'')) s))
         else let s = s\<lparr>net_client_connected := True, net_client_received_wait_data := False,
                       client_connection := NET_Conn_InitClient (ce_now e) (client_connection s) addr
                                              NET_PROTOCOL_UNKNOWN\<rparr>;
                  s = SetRejectReason (Some (cstr ''Unknown reason'')) s
              in map_option (\<lambda>r. bindR r (\<lambda>s.
                   if cn_state (client_connection s) = NET_CONN_STATE_CONNECTED
                   then Inr (True, (SetRejectReason None s)
                          \<lparr>client_state := CLIENT_STATE_WAITING_LAUNCH, drone := cd_drone data \<noteq> 0\<rparr>)
                   else Inr (False, NET_CL_Shutdown s)))
                 (connect_loop addr data (ce_now e) rounds (- 1) False s))"

definition NET_CL_GetSettings :: "net_cl \<Rightarrow> net_gamesettings option" where
  "NET_CL_GetSettings s =
     (if client_state s \<noteq> CLIENT_STATE_IN_GAME then None else Some (cl_settings s))"

fun disconnect_loop :: "u32 \<Rightarrow> round list \<Rightarrow> net_cl \<Rightarrow> net_cl res option" where
  "disconnect_loop start_time rounds s =
     (if cl_ended s then Some (Inr s)
      else case rounds of
             [] \<Rightarrow> None
           | (e, inbox) # rounds \<Rightarrow>
               if 5000 <s ce_now e - start_time
               then Some (Inr (s\<lparr>client_state := CLIENT_STATE_WAITING_START\<rparr>))
               else case NET_CL_Run e inbox s of
                      Inl f \<Rightarrow> Some (Inl f)
                    | Inr s \<Rightarrow> disconnect_loop start_time rounds s)"

declare disconnect_loop.simps [simp del]

definition NET_CL_Disconnect :: "cl_env \<Rightarrow> round list \<Rightarrow> net_cl \<Rightarrow> net_cl res option" where
  "NET_CL_Disconnect e rounds s =
     (if \<not> net_client_connected s then Some (Inr s)
      else let s = cl_connection_op (\<lambda>c. (NET_Conn_Disconnect c, [])) s
           in map_option (\<lambda>r. bindR r (\<lambda>s. Inr (NET_CL_Shutdown s))) (disconnect_loop (ce_now e) rounds s))"

definition NET_CL_Init :: "bytes \<Rightarrow> net_cl \<Rightarrow> net_cl" where
  "NET_CL_Init pet_name s =
     (case net_player_name s of None \<Rightarrow> s\<lparr>net_player_name := Some pet_name\<rparr> | Some _ \<Rightarrow> s)"

end
