(* ===== verification/Net_Client_Game.thy ===== *)
theory Net_Client_Game
  imports Net_Client Net_Structrw_Codec
begin

text \<open>
  The client in a game: whatever it sends and is sent, its receive window follows the sequence of
  tics of the server, and every tic is handed on once, in order, with the commands the differences
  add up to.
\<close>

subsection \<open>What leaves the game alone\<close>

text \<open>Operations that at most note the times of requests in the window.\<close>

definition window_view :: "net_server_recv list \<Rightarrow> (bool \<times> net_full_ticcmd) list" where
  "window_view w = map (\<lambda>r. (sr_active r, sr_cmd r)) w"

definition same_game :: "net_cl \<Rightarrow> net_cl \<Rightarrow> bool" where
  "same_game s s' \<longleftrightarrow> cl_settings s' = cl_settings s \<and> drone s' = drone s \<and> server_addr s' = server_addr s
     \<and> client_state s' = client_state s \<and> recvwindow_cmd_base s' = recvwindow_cmd_base s
     \<and> cw_start s' = cw_start s \<and> window_view (cw s') = window_view (cw s)
     \<and> concat (map (\<lambda>x. case x of None \<Rightarrow> [] | Some y \<Rightarrow> [y]) (cl_ticcalls s'))
       = concat (map (\<lambda>x. case x of None \<Rightarrow> [] | Some y \<Rightarrow> [y]) (cl_ticcalls s))"

text \<open>The tics handed on so far.\<close>

definition delivered :: "net_cl \<Rightarrow> (ticcmd list \<times> bool list) list" where
  "delivered s = concat (map (\<lambda>x. case x of None \<Rightarrow> [] | Some y \<Rightarrow> [y]) (cl_ticcalls s))"

lemma same_game_refl [simp]: "same_game s s"
  by (simp add: same_game_def)

lemma same_game_trans: "same_game a b \<Longrightarrow> same_game b c \<Longrightarrow> same_game a c"
  by (simp add: same_game_def)

lemma same_game_connection [simp]: "same_game s (cl_connection_op f s)"
  by (simp add: same_game_def cl_connection_op_def split_def)

lemma same_game_quiet [simp]:
  "same_game s (s'\<lparr>need_to_acknowledge := b\<rparr>) = same_game s s'"
  "same_game s (s'\<lparr>gamedata_recv_time := t\<rparr>) = same_game s s'"
  "same_game s (s'\<lparr>client_connection := c\<rparr>) = same_game s s'"
  "same_game s (s'\<lparr>cl_out := out\<rparr>) = same_game s s'"
  "same_game s (s'\<lparr>send_queue := q\<rparr>) = same_game s s'"
  "same_game s (s'\<lparr>last_ticcmd := l\<rparr>) = same_game s s'"
  "same_game s (s'\<lparr>net_waiting_for_launch := b\<rparr>) = same_game s s'"
  "same_game s (s'\<lparr>net_client_reject_reason := r\<rparr>) = same_game s s'"
  "same_game s (s'\<lparr>net_client_wait_data := w\<rparr>) = same_game s s'"
  "same_game s (s'\<lparr>net_client_received_wait_data := b\<rparr>) = same_game s s'"
  "same_game s (s'\<lparr>net_client_connected := b\<rparr>) = same_game s s'"
  "same_game s (s'\<lparr>server_refs := n\<rparr>) = same_game s s'"
  "same_game s (s'\<lparr>cumul_error := a\<rparr>) = same_game s s'"
  "same_game s (s'\<lparr>offsetms := a\<rparr>) = same_game s s'"
  "same_game s (s'\<lparr>last_error := a\<rparr>) = same_game s s'"
  "same_game s (s'\<lparr>last_latency := a\<rparr>) = same_game s s'"
  by (simp_all add: same_game_def)

lemma same_game_clock [simp]: "same_game s (UpdateClockSync e seq lat s') = same_game s s'"
  by (simp add: UpdateClockSync_def Let_def)

lemma same_game_shutdown [simp]: "same_game s (NET_CL_Shutdown s') = same_game s s'"
  by (simp add: NET_CL_Shutdown_def)

lemma same_game_disconnected [simp]: "same_game s (NET_CL_Disconnected s)"
  by (simp add: same_game_def NET_CL_Disconnected_def)

lemma same_game_ack [simp]: "same_game s (NET_CL_SendGameDataACK e s)"
  by (simp add: NET_CL_SendGameDataACK_def Let_def)

lemma same_game_SendTics [simp]: "same_game s (NET_CL_SendTics e a b s)"
  by (simp add: NET_CL_SendTics_def Let_def)

lemma view_resend_any: "window_view (w[i := (w ! i)\<lparr>sr_resend_time := t\<rparr>]) = window_view w"
  by (cases "i < length w") (auto intro!: nth_equalityI simp: window_view_def nth_list_update)

lemma same_game_mark: "same_game s (mark_resend e i s)"
  by (simp add: mark_resend_def Let_def same_game_def view_resend_any)

lemma same_game_marks: "same_game s (fold (mark_resend e) is s)"
proof (induction "is" arbitrary: s)
  case Nil
  then show ?case by simp
next
  case (Cons i "is")
  show ?case using same_game_trans [OF same_game_mark Cons.IH] by simp
qed

lemma same_game_resend: "same_game s (NET_CL_SendResendRequest e a b s)"
  unfolding NET_CL_SendResendRequest_def Let_def
  by (rule same_game_trans [OF same_game_connection same_game_marks])

lemma same_game_request_run: "same_game s (cl_request_run e a b s)"
  by (simp add: cl_request_run_def same_game_resend split: option.split)

lemma same_game_check: "same_game s (cl_check_resends e dl is a b s)"
proof (induction "is" arbitrary: a b s)
  case Nil
  then show ?case by (simp add: same_game_request_run)
next
  case (Cons i "is")
  show ?case
    using Cons.IH same_game_trans [OF same_game_request_run [of s e a b] Cons.IH] by simp
qed

lemma same_game_CheckResends: "same_game s (NET_CL_CheckResends e s)"
  unfolding NET_CL_CheckResends_def Let_def
  by (simp add: same_game_check same_game_trans [OF same_game_check same_game_ack])

lemma same_game_missing: "same_game s (cl_request_missing e seq s)"
  by (simp add: cl_request_missing_def Let_def same_game_resend)

lemma same_game_SYN: "same_game s (NET_CL_ParseSYN p s)"
  by (simp add: NET_CL_ParseSYN_def split: prod.split option.split net_protocol.split)

lemma same_game_Reject: "same_game s (NET_CL_ParseReject p s)"
  by (simp add: NET_CL_ParseReject_def SetRejectReason_def split: prod.split option.split)

lemma same_game_WaitingData: "same_game s (NET_CL_ParseWaitingData e p s)"
  by (simp add: NET_CL_ParseWaitingData_def split: prod.split option.split)

lemma same_game_Console: "same_game s (NET_CL_ParseConsoleMessage p s)"
  by (simp add: NET_CL_ParseConsoleMessage_def split: prod.split option.split)

lemma same_game_Launch: "client_state s = CLIENT_STATE_IN_GAME \<Longrightarrow> NET_CL_ParseLaunch p s = s"
  by (simp add: NET_CL_ParseLaunch_def)

lemma same_game_ResendRequest: "NET_CL_ParseResendRequest e p s = Inr s' \<Longrightarrow> same_game s s'"
  by (auto simp: NET_CL_ParseResendRequest_def Let_def split: if_splits option.splits)

lemma same_game_SendTiccmd: "NET_CL_SendTiccmd e c m s = Inr s' \<Longrightarrow> same_game s s'"
  unfolding NET_CL_SendTiccmd_def Let_def
  by (auto split: if_splits intro: same_game_trans [OF _ same_game_SendTics])

subsection \<open>The tics of the server\<close>

text \<open>
  \<open>tics k\<close> is the command set of tic \<open>k\<close>. The command of player \<open>p\<close> after \<open>n\<close> tics is what the
  differences of the tics in which \<open>p\<close> plays add up to, from the zero command.
\<close>

fun commands :: "(nat \<Rightarrow> net_full_ticcmd) \<Rightarrow> nat \<Rightarrow> nat \<Rightarrow> ticcmd" where
  "commands tics p 0 = zero_ticcmd"
| "commands tics p (Suc n) =
     (if fc_playeringame (tics n) ! p then NET_TiccmdPatch (commands tics p n) (fc_cmds (tics n) ! p)
      else commands tics p n)"

text \<open>What the wire preserves of a command set: the players, and what their differences do.\<close>

definition same_tic :: "net_full_ticcmd \<Rightarrow> net_full_ticcmd \<Rightarrow> bool" where
  "same_tic c d \<longleftrightarrow> fc_playeringame c = fc_playeringame d
     \<and> (\<forall>i < NET_MAXPLAYERS. \<forall>cmd. fc_playeringame d ! i \<longrightarrow>
          NET_TiccmdPatch cmd (fc_cmds c ! i) = NET_TiccmdPatch cmd (fc_cmds d ! i))"

text \<open>The rest of a packet that carries the tics \<open>t\<close> to \<open>t + k - 1\<close>, as \<open>NET_SV_SendTics\<close> writes it.\<close>

definition tic_data :: "bool \<Rightarrow> (nat \<Rightarrow> net_full_ticcmd) \<Rightarrow> nat \<Rightarrow> nat \<Rightarrow> net_packet \<Rightarrow> bool" where
  "tic_data low tics t k p \<longleftrightarrow> k < 256 \<and> (\<exists>r. rest p =
     ucast (of_nat t :: u32) # of_nat k # concat (map (\<lambda>i. enc_full low (tics (t + i))) [0..<k]) @ r)"

text \<open>A client that follows the tics, with \<open>n\<close> of them handed on.\<close>

definition others :: "net_cl \<Rightarrow> nat \<Rightarrow> bool" where
  "others s p \<longleftrightarrow> p < NET_MAXPLAYERS \<and> \<not> (of_nat p = gs_consoleplayer (cl_settings s) \<and> \<not> drone s)"

definition good_tic :: "net_cl \<Rightarrow> (nat \<Rightarrow> net_full_ticcmd) \<Rightarrow> nat \<Rightarrow> ticcmd list \<times> bool list \<Rightarrow> bool" where
  "good_tic s tics k x \<longleftrightarrow> length (fst x) = NET_MAXPLAYERS \<and> snd x = fc_playeringame (tics k)
     \<and> (\<forall>p. others s p \<longrightarrow> fc_playeringame (tics k) ! p \<longrightarrow> fst x ! p = commands tics p (Suc k))"

definition follows :: "(ticcmd list \<times> bool list) list \<Rightarrow> (nat \<Rightarrow> net_full_ticcmd) \<Rightarrow> nat \<Rightarrow> net_cl \<Rightarrow> bool" where
  "follows before tics n s \<longleftrightarrow> client_state s = CLIENT_STATE_IN_GAME
     \<and> cw_start s = of_nat n \<and> length (cw s) = BACKUPTICS
     \<and> (\<forall>i < BACKUPTICS. sr_active (cw s ! i) \<longrightarrow> same_tic (sr_cmd (cw s ! i)) (tics (n + i)))
     \<and> length (recvwindow_cmd_base s) = NET_MAXPLAYERS
     \<and> (\<forall>p. others s p \<longrightarrow> recvwindow_cmd_base s ! p = commands tics p n)
     \<and> (\<exists>ds. delivered s = before @ ds \<and> length ds = n \<and> (\<forall>k < n. good_tic s tics k (ds ! k)))"

lemma view_nth:
  assumes "window_view w = window_view v"
  shows "length w = length v" and "i < length v \<Longrightarrow> sr_active (w ! i) = sr_active (v ! i) \<and> sr_cmd (w ! i) = sr_cmd (v ! i)"
proof -
  show l: "length w = length v" using assms map_eq_imp_length_eq unfolding window_view_def by blast
  assume "i < length v"
  then show "sr_active (w ! i) = sr_active (v ! i) \<and> sr_cmd (w ! i) = sr_cmd (v ! i)"
    using l arg_cong [OF assms, of "\<lambda>w. w ! i"] by (simp add: window_view_def)
qed

lemma follows_same: "same_game s s' \<Longrightarrow> follows before tics n s \<Longrightarrow> follows before tics n s'"
  unfolding follows_def same_game_def
  using view_nth [of "cw s'" "cw s"]
  by (auto simp: delivered_def others_def good_tic_def)

subsection \<open>Reading the tics of a packet\<close>

lemma read_same_tic:
  assumes "full_ok low c" "rest p = enc_full low c @ r" "length (fc_cmds c0) = NET_MAXPLAYERS"
  shows "\<exists>c'. NET_ReadFullTiccmd p c0 low = Some (c', adv (length (enc_full low c)) p) \<and> same_tic c' c"
proof -
  let ?cs = "merge_cmds (fc_playeringame c) [0..<NET_MAXPLAYERS] (fc_cmds c) (fc_cmds c0)"
  have "NET_TiccmdPatch cmd (?cs ! i) = NET_TiccmdPatch cmd (fc_cmds c ! i)"
    if "i < NET_MAXPLAYERS" "fc_playeringame c ! i" for i cmd
    using that assms(3) by (simp add: merge_cmds_nth merge_ticdiff_def patch_overlay)
  then show ?thesis using NET_ReadFullTiccmd_enc [OF assms(1,2), of c0] by (simp add: same_tic_def)
qed

text \<open>The index of a tic near the start of the window, in words and in numbers.\<close>

lemma near_index:
  fixes t n i :: nat
  assumes "t + i < n + 1000" "n < t + i + 1000"
  defines "x \<equiv> of_nat t - of_nat n + of_nat i :: u32"
  shows "\<not> (x <s 0 \<or> of_nat BACKUPTICS \<le>s x) \<longleftrightarrow> n \<le> t + i \<and> t + i < n + BACKUPTICS"
    and "n \<le> t + i \<Longrightarrow> unat x = t + i - n"
proof -
  have x: "x = word_of_int (int (t + i) - int n)" by (simp add: x_def algebra_simps)
  have s: "sint x = int (t + i) - int n"
  proof -
    have "sint x = signed_take_bit 31 (int (t + i) - int n)" unfolding x by (simp only: signed_of_int) simp
    also have "\<dots> = int (t + i) - int n" by (rule signed_take_bit_int_eq_self) (use assms in auto)
    finally show ?thesis .
  qed
  show "\<not> (x <s 0 \<or> of_nat BACKUPTICS \<le>s x) \<longleftrightarrow> n \<le> t + i \<and> t + i < n + BACKUPTICS"
    using s by (auto simp: word_sless_alt word_sle_eq BACKUPTICS_def)
  assume "n \<le> t + i"
  then have "x = of_nat (t + i - n)" unfolding x by (simp add: of_nat_diff)
  then show "unat x = t + i - n" using assms by (simp add: unat_of_nat_small)
qed

lemma seq_of_byte:
  fixes t n :: nat
  assumes "t < n + 65" "n < t + 65"
  shows "NET_ExpandTicNum (of_nat n) (ucast (ucast (of_nat t :: u32) :: u8)) = (of_nat t :: u32)"
proof -
  define d where "d = int t - int n"
  have r: "of_nat n + word_of_int d = (of_nat t :: u32)" by (simp add: d_def)
  have "ucast (ucast (of_nat t :: u32) :: u8) = ((of_nat t :: u32) AND 0xff)"
    by (rule bit_word_eqI) (auto simp: ff_mask bit_simps)
  moreover have "\<bar>d\<bar> \<le> 64" using assms by (simp add: d_def)
  ultimately show ?thesis using NET_ExpandTicNum_near [of d "of_nat n"] unfolding r by simp
qed

lemma store_tics_follow:
  assumes "\<And>i. i \<in> set is \<Longrightarrow> i < 256" "is = [a..<b]"
    and "rest p = concat (map (\<lambda>i. enc_full low (tics (t + i))) [a..<b]) @ r"
    and "\<And>i. full_ok low (tics i)" "length (fc_cmds (ce_junk_cmd e)) = NET_MAXPLAYERS"
    and "follows before tics n s" "low = (gs_lowres_turn (cl_settings s) \<noteq> 0)"
    and "t < n + 65" "n < t + 65"
  shows "\<exists>s'. store_tics e (of_nat t) num is p s = (True, s') \<and> follows before tics n s'
    \<and> cl_settings s' = cl_settings s \<and> drone s' = drone s \<and> server_addr s' = server_addr s"
  using assms
proof (induction "is" arbitrary: a p s)
  case Nil
  then show ?case by simp
next
  case (Cons i "is")
  have ab: "a < b" "i = a" "is = [Suc a..<b]" using Cons.prems(2) [symmetric] by (auto simp: upt_eq_Cons_conv)
  have "rest p = enc_full low (tics (t + a)) @ concat (map (\<lambda>i. enc_full low (tics (t + i))) [Suc a..<b]) @ r"
    using Cons.prems(3) ab(1) by (simp add: upt_rec)
  from read_same_tic [OF Cons.prems(4) this Cons.prems(5)]
  obtain c where c: "NET_ReadFullTiccmd p (ce_junk_cmd e) low = Some (c, adv (length (enc_full low (tics (t + a)))) p)"
    "same_tic c (tics (t + a))" by blast
  define p' where "p' = adv (length (enc_full low (tics (t + a)))) p"
  have p': "rest p' = concat (map (\<lambda>i. enc_full low (tics (t + i))) [Suc a..<b]) @ r"
    using Cons.prems(3) ab(1) by (simp add: p'_def upt_rec rest_adv)
  define x :: u32 where "x = of_nat t - cw_start s + of_nat i"
  have x: "x = of_nat t - of_nat n + of_nat a" using Cons.prems(6) ab(2) by (simp add: x_def follows_def)
  have near: "t + a < n + 1000" "n < t + a + 1000" using Cons.prems(1) [of i] Cons.prems(8,9) ab(2) by simp_all
  note ix = near_index [OF near, folded x]
  define s1 where "s1 = (if x <s 0 \<or> of_nat BACKUPTICS \<le>s x then s
      else let s = s\<lparr>cw := (cw s)[unat x := (cw s ! unat x)\<lparr>sr_active := True, sr_cmd := c\<rparr>]\<rparr>
           in if of_nat i = num - 1 then UpdateClockSync e (of_nat t + of_nat i) (fc_latency c) s else s)"
  have step: "store_tics e (of_nat t) num (i # is) p s = store_tics e (of_nat t) num is p' s1"
    using c(1) Cons.prems(7) by (simp add: s1_def x_def p'_def Let_def)
  have f1: "follows before tics n s1 \<and> cl_settings s1 = cl_settings s \<and> drone s1 = drone s \<and> server_addr s1 = server_addr s"
  proof (cases "x <s 0 \<or> of_nat BACKUPTICS \<le>s x")
    case True
    then show ?thesis using Cons.prems(6) by (simp add: s1_def)
  next
    case False
    then have in_window: "n \<le> t + a" "t + a < n + BACKUPTICS" "unat x = t + a - n" using ix by auto
    let ?s = "s\<lparr>cw := (cw s)[unat x := (cw s ! unat x)\<lparr>sr_active := True, sr_cmd := c\<rparr>]\<rparr>"
    have same: "same_tic c (tics (n + unat x))" using c(2) in_window by simp
    have "same_tic (sr_cmd (cw ?s ! j)) (tics (n + j))" if "j < BACKUPTICS" "sr_active (cw ?s ! j)" for j
    proof (cases "j = unat x")
      case True
      then show ?thesis using same that(1) Cons.prems(6) by (simp add: follows_def)
    next
      case False
      then show ?thesis using that Cons.prems(6) by (simp add: follows_def)
    qed
    then have "follows before tics n ?s"
      using Cons.prems(6) by (simp add: follows_def delivered_def others_def good_tic_def)
    then have "follows before tics n s1 \<and> same_game ?s s1"
      using False follows_same [of ?s s1 before tics n] by (auto simp: s1_def Let_def)
    then show ?thesis by (simp add: same_game_def)
  qed
  have "\<exists>s'. store_tics e (of_nat t) num is p' s1 = (True, s') \<and> follows before tics n s'
    \<and> cl_settings s' = cl_settings s1 \<and> drone s' = drone s1 \<and> server_addr s' = server_addr s1"
    using Cons.prems f1 ab p' by (intro Cons.IH [of "Suc a"]) auto
  then show ?case using step f1 by auto
qed

lemma GameData_stores:
  assumes "tic_data low tics t k p" "\<And>i. full_ok low (tics i)"
    "length (fc_cmds (ce_junk_cmd e)) = NET_MAXPLAYERS" "follows before tics n s"
    "low = (gs_lowres_turn (cl_settings s) \<noteq> 0)" "t < n + 65" "n < t + 65"
  shows "\<exists>num q s'. NET_CL_ParseGameData e p s = cl_request_missing e (of_nat t) s'
    \<and> store_tics e (of_nat t) num [0..<k] q
        (if need_to_acknowledge s then s else s\<lparr>need_to_acknowledge := True, gamedata_recv_time := ce_now e\<rparr>) = (True, s')
    \<and> follows before tics n s' \<and> cl_settings s' = cl_settings s \<and> drone s' = drone s \<and> server_addr s' = server_addr s"
proof -
  obtain r where p: "k < 256" "rest p =
     ucast (of_nat t :: u32) # of_nat k # concat (map (\<lambda>i. enc_full low (tics (t + i))) [0..<k]) @ r"
    using assms(1) unfolding tic_data_def by blast
  have r1: "NET_ReadInt8 p = Some (ucast (ucast (of_nat t :: u32) :: u8), adv 1 p)"
    using p(2) by (simp add: NET_ReadInt8_rest)
  have r2: "NET_ReadInt8 (adv 1 p) = Some (ucast (of_nat k :: u8), adv 1 (adv 1 p))"
    using p(2) by (simp add: NET_ReadInt8_rest)
  have u8: "unat (of_nat k :: u8) = k" unfolding unat_of_nat using p(1) by (simp add: take_bit_nat_eq_self_iff)
  have k: "unat (ucast (of_nat k :: u8) :: u32) = k" using u8 p(1) by (simp add: unsigned_ucast_eq take_bit_nat_eq_self_iff)
  let ?s = "if need_to_acknowledge s then s else s\<lparr>need_to_acknowledge := True, gamedata_recv_time := ce_now e\<rparr>"
  have f: "follows before tics n ?s" by (rule follows_same [OF _ assms(4)]) simp
  have same: "cl_settings ?s = cl_settings s" "drone ?s = drone s" "server_addr ?s = server_addr s" by simp_all
  have seq: "NET_CL_ExpandTicNum ?s (ucast (ucast (of_nat t :: u32) :: u8)) = of_nat t"
    using f seq_of_byte [OF assms(6,7)] by (simp add: NET_CL_ExpandTicNum_def follows_def)
  have "rest (adv 1 (adv 1 p)) = concat (map (\<lambda>i. enc_full low (tics (t + i))) [0..<k]) @ r"
    using p(2) by (simp add: rest_adv)
  then obtain s' where s': "store_tics e (of_nat t) (ucast (of_nat k :: u8)) [0..<k] (adv 1 (adv 1 p)) ?s = (True, s')"
    "follows before tics n s'" "cl_settings s' = cl_settings s" "drone s' = drone s" "server_addr s' = server_addr s"
    using store_tics_follow [of "[0..<k]" 0 k "adv 1 (adv 1 p)" low tics t r e before n ?s]
      p(1) assms(2,3,5-7) f same by auto
  have eq: "NET_CL_ParseGameData e p s = cl_request_missing e (of_nat t) s'"
    unfolding NET_CL_ParseGameData_def r1 option.case prod.case r2 Let_def k seq s'(1) by simp
  then show ?thesis using s' by blast
qed

lemma GameData_follow:
  assumes "tic_data low tics t k p" "\<And>i. full_ok low (tics i)"
    "length (fc_cmds (ce_junk_cmd e)) = NET_MAXPLAYERS" "follows before tics n s"
    "low = (gs_lowres_turn (cl_settings s) \<noteq> 0)" "t < n + 65" "n < t + 65"
  shows "follows before tics n (NET_CL_ParseGameData e p s)
    \<and> cl_settings (NET_CL_ParseGameData e p s) = cl_settings s \<and> drone (NET_CL_ParseGameData e p s) = drone s
    \<and> server_addr (NET_CL_ParseGameData e p s) = server_addr s"
proof -
  obtain s' where s': "NET_CL_ParseGameData e p s = cl_request_missing e (of_nat t) s'" "follows before tics n s'"
    "cl_settings s' = cl_settings s" "drone s' = drone s" "server_addr s' = server_addr s"
    using GameData_stores [OF assms] by blast
  then show ?thesis
    using follows_same [OF same_game_missing [of s' e "of_nat t"] s'(2)] same_game_missing [of s' e "of_nat t"] s'(3-5)
    by (simp add: same_game_def)
qed

subsection \<open>Handing on the tics\<close>

lemma expand_players_spec:
  assumes "distinct is" "\<And>i. i \<in> set is \<Longrightarrow> i < NET_MAXPLAYERS"
    "length base = NET_MAXPLAYERS" "length ticcmds = NET_MAXPLAYERS"
  shows "case expand_players s c is base ticcmds of (base', ticcmds') \<Rightarrow>
      length base' = NET_MAXPLAYERS \<and> length ticcmds' = NET_MAXPLAYERS
      \<and> (\<forall>p. p \<notin> set is \<or> \<not> others s p \<or> \<not> fc_playeringame c ! p \<longrightarrow> base' ! p = base ! p \<and> ticcmds' ! p = ticcmds ! p)
      \<and> (\<forall>p \<in> set is. others s p \<and> fc_playeringame c ! p \<longrightarrow>
            base' ! p = NET_TiccmdPatch (base ! p) (fc_cmds c ! p) \<and> ticcmds' ! p = base' ! p)"
  using assms
proof (induction "is" arbitrary: base ticcmds)
  case Nil
  then show ?case by simp
next
  case (Cons i "is")
  have i: "i < NET_MAXPLAYERS" "i \<notin> set is" using Cons.prems by auto
  show ?case
  proof (cases "others s i \<and> fc_playeringame c ! i")
    case False
    then have "expand_players s c (i # is) base ticcmds = expand_players s c is base ticcmds"
      using i by (auto simp: others_def)
    then show ?thesis using Cons.IH [of base ticcmds] Cons.prems False by (auto split: prod.splits)
  next
    case True
    let ?new = "NET_TiccmdPatch (base ! i) (fc_cmds c ! i)"
    have "expand_players s c (i # is) base ticcmds = expand_players s c is (base[i := ?new]) (ticcmds[i := ?new])"
      using i True by (auto simp: others_def Let_def)
    moreover obtain base' ticcmds' where r: "expand_players s c is (base[i := ?new]) (ticcmds[i := ?new]) = (base', ticcmds')"
      by fastforce
    moreover note Cons.IH [of "base[i := ?new]" "ticcmds[i := ?new]"]
    ultimately show ?thesis using Cons.prems i True by (auto simp: nth_list_update)
  qed
qed

lemma advance_tic_follow:
  assumes "follows before tics n s" "sr_active (cw s ! 0)" "length ticcmds = NET_MAXPLAYERS"
  shows "case advance_tic ticcmds s of (ticcmds', s') \<Rightarrow> follows before tics (Suc n) s' \<and> length ticcmds' = NET_MAXPLAYERS
    \<and> cl_settings s' = cl_settings s \<and> drone s' = drone s \<and> server_addr s' = server_addr s"
proof -
  let ?c = "sr_cmd (cw s ! 0)"
  have len: "length (cw s) = BACKUPTICS" "length (recvwindow_cmd_base s) = NET_MAXPLAYERS"
    using assms(1) by (simp_all add: follows_def)
  have held: "\<And>i. i < BACKUPTICS \<Longrightarrow> sr_active (cw s ! i) \<Longrightarrow> same_tic (sr_cmd (cw s ! i)) (tics (n + i))"
    using assms(1) unfolding follows_def by blast
  have tic: "same_tic ?c (tics n)" using held [of 0] assms(2) by (simp add: BACKUPTICS_def)
  obtain base' ticcmds' where r: "expand_players s ?c [0..<NET_MAXPLAYERS] (recvwindow_cmd_base s) ticcmds = (base', ticcmds')"
    by fastforce
  have e: "length base' = NET_MAXPLAYERS" "length ticcmds' = NET_MAXPLAYERS"
    "\<And>p. \<not> others s p \<or> \<not> fc_playeringame ?c ! p \<Longrightarrow> base' ! p = recvwindow_cmd_base s ! p"
    "\<And>p. others s p \<Longrightarrow> fc_playeringame ?c ! p \<Longrightarrow>
       base' ! p = NET_TiccmdPatch (recvwindow_cmd_base s ! p) (fc_cmds ?c ! p) \<and> ticcmds' ! p = base' ! p"
    using expand_players_spec [of "[0..<NET_MAXPLAYERS]" "recvwindow_cmd_base s" ticcmds s ?c] r len(2) assms(3)
    by (auto simp: others_def)
  have base: "base' ! p = commands tics p (Suc n)" if "others s p" for p
  proof -
    have b: "recvwindow_cmd_base s ! p = commands tics p n" using assms(1) that by (simp add: follows_def)
    show ?thesis
    proof (cases "fc_playeringame (tics n) ! p")
      case True
      then show ?thesis using e(4) [OF that] b tic that by (simp add: same_tic_def others_def)
    next
      case False
      then show ?thesis using e(3) [of p] b tic by (simp add: same_tic_def)
    qed
  qed
  have new: "good_tic s tics n (ticcmds', fc_playeringame ?c)"
    using e(2,4) base tic by (auto simp: good_tic_def same_tic_def)
  let ?s = "s\<lparr>recvwindow_cmd_base := base', cl_ticcalls := cl_ticcalls s @ [Some (ticcmds', fc_playeringame ?c)],
      cw := tl (cw s) @ [blank_server_recv], cw_start := cw_start s + 1\<rparr>"
  have eq: "advance_tic ticcmds s = (ticcmds', ?s)"
    by (simp add: advance_tic_def NET_CL_ExpandFullTiccmd_def r Let_def)
  obtain ds where ds: "delivered s = before @ ds" "length ds = n" "\<And>k. k < n \<Longrightarrow> good_tic s tics k (ds ! k)"
    using assms(1) by (auto simp: follows_def)
  have win: "sr_active ((tl (cw s) @ [blank_server_recv]) ! i) \<longrightarrow> i < BACKUPTICS - 1 \<and> (tl (cw s) @ [blank_server_recv]) ! i = cw s ! Suc i"
    if "i < BACKUPTICS" for i
    using that len(1) by (auto simp: nth_append nth_tl blank_server_recv_def less_Suc_eq)
  have "follows before tics (Suc n) ?s"
    unfolding follows_def
  proof (intro conjI allI impI)
    show "client_state ?s = CLIENT_STATE_IN_GAME" "cw_start ?s = of_nat (Suc n)"
      using assms(1) by (simp_all add: follows_def)
    show "length (cw ?s) = BACKUPTICS" "length (recvwindow_cmd_base ?s) = NET_MAXPLAYERS"
      using len(1) e(1) by (simp_all add: BACKUPTICS_def)
    show "recvwindow_cmd_base ?s ! p = commands tics p (Suc n)" if "others ?s p" for p
      using base [of p] that by (simp add: others_def)
    show "same_tic (sr_cmd (cw ?s ! i)) (tics (Suc n + i))" if "i < BACKUPTICS" "sr_active (cw ?s ! i)" for i
      using win [OF that(1)] that held [of "Suc i"] by (simp add: less_diff_conv)
    have "good_tic ?s tics k ((ds @ [(ticcmds', fc_playeringame ?c)]) ! k)" if "k < Suc n" for k
      using ds(2) ds(3) [of k] new that
      by (cases "k < n") (auto simp: nth_append good_tic_def others_def less_Suc_eq)
    then show "\<exists>ds. delivered ?s = before @ ds \<and> length ds = Suc n \<and> (\<forall>k < Suc n. good_tic ?s tics k (ds ! k))"
      using ds(1,2) by (intro exI [of _ "ds @ [(ticcmds', fc_playeringame ?c)]"]) (simp add: delivered_def)
  qed
  then show ?thesis using eq e(2) by simp
qed

lemma advance_window_follow:
  "follows before tics n s \<Longrightarrow> length ticcmds = NET_MAXPLAYERS \<Longrightarrow>
   \<exists>n'. follows before tics n' (advance_window ticcmds s) \<and> n \<le> n'
     \<and> cl_settings (advance_window ticcmds s) = cl_settings s \<and> drone (advance_window ticcmds s) = drone s
     \<and> server_addr (advance_window ticcmds s) = server_addr s"
proof (induction ticcmds s arbitrary: n rule: advance_window.induct)
  case (1 ticcmds s)
  show ?case
  proof (cases "cw s \<noteq> [] \<and> sr_active (cw s ! 0)")
    case False
    then show ?thesis using 1(2) by (subst (1 2 3 4) advance_window.simps) auto
  next
    case True
    obtain ticcmds' s' where a: "advance_tic ticcmds s = (ticcmds', s')" by fastforce
    have f: "follows before tics (Suc n) s'" "length ticcmds' = NET_MAXPLAYERS" "cl_settings s' = cl_settings s"
      "drone s' = drone s" "server_addr s' = server_addr s"
      using advance_tic_follow [OF 1(2) _ 1(3)] True a by simp_all
    have eq: "advance_window ticcmds s = advance_window ticcmds' s'"
      using True a by (subst advance_window.simps) simp
    from 1(1) [OF True a [symmetric] f(1,2)] show ?thesis unfolding eq using f(3-5) Suc_leD by metis
  qed
qed

end
