(* ===== verification/Net_Client_Delivery.thy ===== *)
theory Net_Client_Delivery
  imports Net_Client_Game
begin

text \<open>
  What the client hands to the game loop: over any packets that carry the tics of the server, in
  any order, with any of them lost or repeated, it hands on every tic once, in order.
\<close>

subsection \<open>The packets of the server\<close>

text \<open>
  A packet a client that has handed on \<open>n\<close> tics may get in the game: no second start of the game,
  and game data only as the server sends them, unreliably and of tics near its own.
\<close>

definition good_packet :: "bool \<Rightarrow> (nat \<Rightarrow> net_full_ticcmd) \<Rightarrow> nat \<Rightarrow> net_packet \<Rightarrow> bool" where
  "good_packet low tics n p \<longleftrightarrow> (\<forall>ty q. NET_ReadInt16 p = Some (ty, q) \<longrightarrow>
      ty AND NOT NET_RELIABLE_PACKET \<noteq> NET_PACKET_TYPE_GAMESTART
      \<and> (ty AND NOT NET_RELIABLE_PACKET = NET_PACKET_TYPE_GAMEDATA \<longrightarrow>
           ty = NET_PACKET_TYPE_GAMEDATA \<and> (\<exists>t k. tic_data low tics t k q \<and> t < n + 65 \<and> n < t + 65)))"

text \<open>Game data with tic \<open>n\<close>, the next one, among the tics it carries.\<close>

definition next_tic :: "bool \<Rightarrow> (nat \<Rightarrow> net_full_ticcmd) \<Rightarrow> nat \<Rightarrow> net_packet \<Rightarrow> bool" where
  "next_tic low tics n p \<longleftrightarrow> (\<exists>q t k. NET_ReadInt16 p = Some (NET_PACKET_TYPE_GAMEDATA, q)
     \<and> tic_data low tics t k q \<and> t \<le> n \<and> n < t + k \<and> n < t + 65)"

lemma conn_dispatch_open:
  "\<not> cr_eaten (conn_dispatch now c p ty out) \<Longrightarrow>
   cr_type (conn_dispatch now c p ty out) = ty \<and> cr_packet (conn_dispatch now c p ty out) = p"
  by (simp add: conn_dispatch_def Let_def split_def split: if_splits)

lemma conn_packet_type:
  assumes "\<not> cr_eaten (NET_Conn_Packet now c p ty)"
  shows "cr_type (NET_Conn_Packet now c p ty) = ty AND NOT NET_RELIABLE_PACKET"
    and "ty AND NET_RELIABLE_PACKET = 0 \<Longrightarrow> cr_packet (NET_Conn_Packet now c p ty) = p"
proof -
  let ?c = "c\<lparr>cn_keepalive_recv_time := now\<rparr>"
  have "cr_type (NET_Conn_Packet now c p ty) = ty AND NOT NET_RELIABLE_PACKET
    \<and> (ty AND NET_RELIABLE_PACKET = 0 \<longrightarrow> cr_packet (NET_Conn_Packet now c p ty) = p)"
  proof (cases "ty AND NET_RELIABLE_PACKET = 0")
    case True
    then have d: "NET_Conn_Packet now c p ty = conn_dispatch now ?c p ty []" by (simp add: NET_Conn_Packet_def)
    have "ty AND NOT NET_RELIABLE_PACKET = ty"
      using True by (intro bit_word_eqI) (auto simp: bit_eq_iff bit_simps)
    then show ?thesis using assms conn_dispatch_open [of now ?c p ty "[]"] unfolding d by simp
  next
    case False
    obtain eaten c' p' out where r: "NET_Conn_ReliablePacket now ?c p = (eaten, c', p', out)" by (metis prod_cases4)
    then show ?thesis
      using assms False conn_dispatch_open [of now c' p' "ty AND NOT NET_RELIABLE_PACKET" out]
      by (cases eaten) (simp_all add: NET_Conn_Packet_def)
  qed
  then show "cr_type (NET_Conn_Packet now c p ty) = ty AND NOT NET_RELIABLE_PACKET"
    and "ty AND NET_RELIABLE_PACKET = 0 \<Longrightarrow> cr_packet (NET_Conn_Packet now c p ty) = p" by simp_all
qed

text \<open>The server's packet of the tics from \<open>t\<close> to \<open>t + k\<close>.\<close>

lemma write_tics_data:
  "write_tics cl low (of_nat t) (of_nat (t + k)) q = Inr q' \<Longrightarrow> t + k + 1 < 2 ^ 32 \<Longrightarrow>
   pdata q' = pdata q @ concat (map (\<lambda>i. enc_full low (queue_slot cl (of_nat (t + i)))) [0..<Suc k]) \<and> ppos q' = ppos q"
proof (induction k arbitrary: t q)
  case 0
  have "unat (of_nat t + 1 :: u32) = Suc t" using 0(2) unat_of_nat_small [of "Suc t"] by (simp add: add.commute)
  then have "\<not> (of_nat t + 1 :: u32) \<le> of_nat t"
    using 0(2) unat_of_nat_small [of t] by (simp add: word_le_nat_alt)
  then have "write_tics cl low (of_nat t + 1) (of_nat t) x = Inr x" for x by (subst write_tics.simps) simp
  then show ?case using 0(1) by (subst (asm) write_tics.simps) (auto split: if_splits)
next
  case (Suc k)
  let ?w = "NET_WriteFullTiccmd q (queue_slot cl (of_nat t)) low"
  have "(of_nat t :: u32) \<le> of_nat (t + Suc k)"
    using Suc.prems(2) unat_of_nat_small [of t] unat_of_nat_small [of "t + Suc k"]
    by (simp add: word_le_nat_alt)
  then have "write_tics cl low (of_nat (Suc t)) (of_nat (Suc t + k)) ?w = Inr q'"
    using Suc.prems(1) by (subst (asm) write_tics.simps) (auto split: if_splits simp: add.commute)
  then have "pdata q' = pdata ?w @ concat (map (\<lambda>i. enc_full low (queue_slot cl (of_nat (Suc t + i)))) [0..<Suc k])
      \<and> ppos q' = ppos ?w"
    using Suc.prems(2) by (intro Suc.IH) auto
  then show ?case
    unfolding map_upt_Suc [of _ "Suc k"] concat.simps NET_WriteFullTiccmd_frame add_Suc add_Suc_right append_assoc by simp
qed

lemma byte_u32: "ucast (of_nat k :: u32) = (of_nat k :: u8)"
  by (rule bit_word_eqI) (simp add: bit_simps)

lemma sent_tics:
  assumes "NET_SV_SendTics e i (of_nat t) (of_nat (t + k)) s = Inr s'" "t + k + 1 < 2 ^ 32" "k < 255"
    and "\<And>j. j \<le> k \<Longrightarrow> queue_slot (client s i) (of_nat (t + j)) = tics (t + j)"
  shows "\<exists>q. s' = on_connection i (\<lambda>c. NET_Conn_SendPacket (e_now e) c q) s
    \<and> pdata q = [0, 6, ucast (of_nat t :: u32), of_nat (Suc k)]
        @ concat (map (\<lambda>j. enc_full (gs_lowres_turn (sv_settings s) \<noteq> 0) (tics (t + j))) [0..<Suc k])"
proof -
  let ?low = "gs_lowres_turn (sv_settings s) \<noteq> 0"
  let ?h = "NET_WriteInt8 (NET_WriteInt8 (NET_WriteInt16 (NET_NewPacket 500) NET_PACKET_TYPE_GAMEDATA)
      (of_nat t AND 0xff)) (of_nat (t + k) - of_nat t + 1)"
  obtain q where q: "write_tics (client s i) ?low (of_nat t) (of_nat (t + k)) ?h = Inr q"
    "s' = on_connection i (\<lambda>c. NET_Conn_SendPacket (e_now e) c q) s"
    using assms(1) by (auto simp: NET_SV_SendTics_def Let_def bindR_def split: sum.splits)
  have low_byte: "ucast ((of_nat t :: u32) AND 0xff) = (ucast (of_nat t :: u32) :: u8)"
    by (rule bit_word_eqI) (auto simp: ff_mask bit_simps)
  have count: "of_nat (t + k) - of_nat t + 1 = (of_nat (Suc k) :: u32)" by simp
  have h: "pdata ?h = [0, 6, ucast (of_nat t :: u32), of_nat (Suc k)]"
    unfolding count WriteInt8_frame WriteInt16_frame NewPacket_frame low_byte byte_u32 NET_PACKET_TYPE_GAMEDATA_def
    by simp
  have "concat (map (\<lambda>j. enc_full ?low (queue_slot (client s i) (of_nat (t + j)))) [0..<Suc k])
      = concat (map (\<lambda>j. enc_full ?low (tics (t + j))) [0..<Suc k])"
    using assms(4) by (intro arg_cong [where f = concat] map_cong) (auto simp: less_Suc_eq_le)
  then show ?thesis using q(2) write_tics_data [OF q(1) assms(2)] h by metis
qed

lemma sent_tics_good:
  assumes "pdata q = [0, 6, ucast (of_nat t :: u32), of_nat (Suc k)]
      @ concat (map (\<lambda>j. enc_full low (tics (t + j))) [0..<Suc k])"
    and "ppos q = 0" "k < 255" "t < n + 65" "n < t + 65"
  shows "NET_ReadInt16 q = Some (NET_PACKET_TYPE_GAMEDATA, adv 2 q)" "tic_data low tics t (Suc k) (adv 2 q)"
    "good_packet low tics n q"
proof -
  have r: "rest q = [0, 6, ucast (of_nat t :: u32), of_nat (Suc k)]
      @ concat (map (\<lambda>j. enc_full low (tics (t + j))) [0..<Suc k])" using assms(1,2) by (simp add: rest_def)
  show a: "NET_ReadInt16 q = Some (NET_PACKET_TYPE_GAMEDATA, adv 2 q)"
    by (simp add: NET_ReadInt16_rest r NET_PACKET_TYPE_GAMEDATA_def del: upt_Suc)
  show b: "tic_data low tics t (Suc k) (adv 2 q)"
    unfolding tic_data_def using assms(3) by (simp add: r del: upt_Suc)
  have "NET_PACKET_TYPE_GAMEDATA AND NOT NET_RELIABLE_PACKET = NET_PACKET_TYPE_GAMEDATA"
    "NET_PACKET_TYPE_GAMEDATA \<noteq> NET_PACKET_TYPE_GAMESTART"
    by (simp_all add: NET_RELIABLE_PACKET_def packet_types)
  then show "good_packet low tics n q" unfolding good_packet_def a using b assms(4,5) by auto
qed

subsection \<open>Calls of the client during a game\<close>

text \<open>What a game leaves alone: the settings, the role and the server.\<close>

definition keeps :: "net_cl \<Rightarrow> net_cl \<Rightarrow> bool" where
  "keeps s s' \<longleftrightarrow> cl_settings s' = cl_settings s \<and> drone s' = drone s \<and> server_addr s' = server_addr s"

lemma keeps_refl [simp]: "keeps s s"
  by (simp add: keeps_def)

lemma keeps_trans: "keeps a b \<Longrightarrow> keeps b c \<Longrightarrow> keeps a c"
  by (simp add: keeps_def)

lemma same_game_keeps: "same_game s s' \<Longrightarrow> keeps s s'"
  by (simp add: keeps_def same_game_def)

lemma keeps_others: "keeps s s' \<Longrightarrow> others s' p = others s p" "keeps s s' \<Longrightarrow> good_tic s' tics k x = good_tic s tics k x"
  by (simp_all add: keeps_def others_def good_tic_def)

lemma same_game_dispatch:
  assumes "cl_dispatch e ty p s = Inr s'" "ty \<noteq> NET_PACKET_TYPE_GAMESTART" "ty \<noteq> NET_PACKET_TYPE_GAMEDATA"
    "client_state s = CLIENT_STATE_IN_GAME"
  shows "same_game s s'"
  using assms same_game_SYN same_game_Reject same_game_WaitingData same_game_Console same_game_ResendRequest
    same_game_Launch [OF assms(4)]
  by (auto simp: cl_dispatch_def split: if_splits)

text \<open>Every packet keeps the client on the tics, and no tic that is in the window gets lost.\<close>

lemma ParsePacket_follow:
  assumes "good_packet low tics n p" "follows before tics n s" "low = (gs_lowres_turn (cl_settings s) \<noteq> 0)"
    "\<And>i. full_ok low (tics i)" "length (fc_cmds (ce_junk_cmd e)) = NET_MAXPLAYERS"
    "NET_CL_ParsePacket e p s = Inr s'"
  shows "follows before tics n s' \<and> keeps s s'"
proof (cases "NET_ReadInt16 p")
  case None
  then show ?thesis using assms(2,6) by (simp add: NET_CL_ParsePacket_def)
next
  case (Some x)
  obtain ty q where x: "x = (ty, q)" by fastforce
  define r where "r = NET_Conn_Packet (ce_now e) (client_connection s) q ty"
  define s1 where "s1 = s\<lparr>client_connection := cr_conn r, cl_out := cl_out s @ cr_out r\<rparr>"
  have s1: "same_game s s1" by (simp add: s1_def)
  have f1: "follows before tics n s1" by (rule follows_same [OF s1 assms(2)])
  have p: "(if cr_eaten r then Inr s1 else cl_dispatch e (cr_type r) (cr_packet r) s1) = Inr s'"
    using assms(6) unfolding NET_CL_ParsePacket_def Some x option.case prod.case Let_def r_def [symmetric] s1_def [symmetric] .
  show ?thesis
  proof (cases "cr_eaten r")
    case True
    then show ?thesis using p f1 same_game_keeps [OF s1] by simp
  next
    case False
    note ty = conn_packet_type [OF False [unfolded r_def], folded r_def]
    have g: "cr_type r \<noteq> NET_PACKET_TYPE_GAMESTART"
      "cr_type r = NET_PACKET_TYPE_GAMEDATA \<Longrightarrow> ty = NET_PACKET_TYPE_GAMEDATA
         \<and> (\<exists>t k. tic_data low tics t k q \<and> t < n + 65 \<and> n < t + 65)"
      using assms(1) Some x ty(1) unfolding good_packet_def by auto
    show ?thesis
    proof (cases "cr_type r = NET_PACKET_TYPE_GAMEDATA")
      case False
      then have "same_game s1 s'"
        using p g(1) f1 \<open>\<not> cr_eaten r\<close> same_game_dispatch [of e "cr_type r" "cr_packet r" s1 s'] by (simp add: follows_def)
      then show ?thesis using follows_same f1 same_game_keeps same_game_trans s1 by blast
    next
      case True
      have "NET_PACKET_TYPE_GAMEDATA AND NET_RELIABLE_PACKET = 0" by (simp add: NET_PACKET_TYPE_GAMEDATA_def NET_RELIABLE_PACKET_def)
      then have q: "cr_packet r = q" using ty(2) g(2) [OF True] by simp
      obtain t k where tk: "tic_data low tics t k q" "t < n + 65" "n < t + 65" using g(2) [OF True] by blast
      have s': "s' = NET_CL_ParseGameData e q s1"
        using p True \<open>\<not> cr_eaten r\<close> q by (simp add: cl_dispatch_def packet_types)
      have "low = (gs_lowres_turn (cl_settings s1) \<noteq> 0)" using assms(3) by (simp add: s1_def)
      from GameData_follow [OF tk(1) assms(4,5) f1 this tk(2,3)] show ?thesis
        using keeps_trans [OF same_game_keeps [OF s1]] unfolding s' keeps_def by blast
    qed
  qed
qed

lemma receive_follow:
  assumes "\<And>addr p. (addr, p) \<in> set inbox \<Longrightarrow> Some addr = server_addr s \<Longrightarrow> good_packet low tics n p"
    "follows before tics n s" "low = (gs_lowres_turn (cl_settings s) \<noteq> 0)"
    "\<And>i. full_ok low (tics i)" "length (fc_cmds (ce_junk_cmd e)) = NET_MAXPLAYERS"
    "foldR (cl_receive_one e) inbox s = Inr s'"
  shows "follows before tics n s' \<and> keeps s s'"
  using assms
proof (induction inbox arbitrary: s)
  case Nil
  then show ?case by simp
next
  case (Cons x inbox)
  obtain addr p where x: "x = (addr, p)" by fastforce
  obtain s1 where s1: "cl_receive_one e x s = Inr s1" "foldR (cl_receive_one e) inbox s1 = Inr s'"
    using Cons.prems(6) by (auto simp: bindR_def split: sum.splits)
  have f1: "follows before tics n s1 \<and> keeps s s1"
  proof (cases "Some addr = server_addr s")
    case True
    then have "NET_CL_ParsePacket e p s = Inr s1" "good_packet low tics n p"
      using s1(1) Cons.prems(1) by (auto simp: cl_receive_one_def x)
    then show ?thesis using ParsePacket_follow [OF _ Cons.prems(2-5)] by blast
  next
    case False
    then show ?thesis using s1(1) Cons.prems(2) by (simp add: cl_receive_one_def x)
  qed
  then have "follows before tics n s' \<and> keeps s1 s'"
    using Cons.prems s1(2) by (intro Cons.IH) (auto simp: keeps_def)
  then show ?case using f1 keeps_trans by blast
qed

subsection \<open>A tic that arrives is handed on\<close>

definition still :: "net_cl \<Rightarrow> net_cl \<Rightarrow> bool" where
  "still s s' \<longleftrightarrow> (\<forall>i < BACKUPTICS. sr_active (cw s ! i) \<longrightarrow> sr_active (cw s' ! i))"

lemma still_refl [simp]: "still s s"
  by (simp add: still_def)

lemma still_trans: "still a b \<Longrightarrow> still b c \<Longrightarrow> still a c"
  by (simp add: still_def)

lemma same_game_still: "same_game s s' \<Longrightarrow> length (cw s) = BACKUPTICS \<Longrightarrow> still s s'"
  using view_nth [of "cw s'" "cw s"] by (simp add: same_game_def still_def)

lemma clock_window [simp]: "cw (UpdateClockSync e seq lat s) = cw s" "cw_start (UpdateClockSync e seq lat s) = cw_start s"
  by (simp_all add: UpdateClockSync_def Let_def)

definition settled :: "net_cl \<Rightarrow> u32 \<Rightarrow> bool" where
  "settled s x \<longleftrightarrow> x <s 0 \<or> of_nat BACKUPTICS \<le>s x \<or> sr_active (cw s ! unat x)"

lemma window_index: "\<not> (x <s 0 \<or> of_nat BACKUPTICS \<le>s x) \<Longrightarrow> unat (x :: u32) < BACKUPTICS"
proof -
  assume a: "\<not> (x <s 0 \<or> of_nat BACKUPTICS \<le>s x)"
  then have "unat x < 2147483648" using sle_nat_iff [of 0 x] by (simp add: word_sless_alt word_sle_eq)
  then show ?thesis using a sle_nat_iff [of BACKUPTICS x] by (simp add: BACKUPTICS_def)
qed

lemma settled_still: "still s s' \<Longrightarrow> settled s x \<Longrightarrow> settled s' x"
  using window_index [of x] unfolding still_def settled_def by blast

lemma store_tics_active:
  "store_tics e seq num is p s = (ok, s') \<Longrightarrow> length (cw s) = BACKUPTICS \<Longrightarrow>
   length (cw s') = BACKUPTICS \<and> still s s' \<and> (ok \<longrightarrow> (\<forall>i \<in> set is. settled s' (seq - cw_start s + of_nat i)))"
proof (induction "is" arbitrary: p s)
  case Nil
  then show ?case by simp
next
  case (Cons i "is")
  define x :: u32 where "x = seq - cw_start s + of_nat i"
  show ?case
  proof (cases "NET_ReadFullTiccmd p (ce_junk_cmd e) (gs_lowres_turn (cl_settings s) \<noteq> 0)")
    case None
    then show ?thesis using Cons.prems by auto
  next
    case (Some y)
    obtain c p' where y: "y = (c, p')" by fastforce
    show ?thesis
    proof (cases "x <s 0 \<or> of_nat BACKUPTICS \<le>s x")
      case True
      then have "store_tics e seq num is p' s = (ok, s')" using Cons.prems(1) Some y by (simp add: x_def Let_def)
      from Cons.IH [OF this Cons.prems(2)] True show ?thesis by (auto simp: settled_def x_def [symmetric])
    next
      case False
      define s1 where "s1 = s\<lparr>cw := (cw s)[unat x := (cw s ! unat x)\<lparr>sr_active := True, sr_cmd := c\<rparr>]\<rparr>"
      define s2 where "s2 = (if of_nat i = num - 1 then UpdateClockSync e (seq + of_nat i) (fc_latency c) s1 else s1)"
      have r: "store_tics e seq num is p' s2 = (ok, s')"
        using Cons.prems(1) False
        unfolding store_tics.simps Let_def Some y option.case prod.case x_def [symmetric] s2_def s1_def
        by (simp only: if_False)
      have w: "cw s2 = (cw s)[unat x := (cw s ! unat x)\<lparr>sr_active := True, sr_cmd := c\<rparr>]" "cw_start s2 = cw_start s"
        by (simp_all add: s2_def s1_def)
      have ux: "unat x < BACKUPTICS" by (rule window_index [OF False])
      have here: "sr_active (cw s2 ! unat x)" using w(1) ux Cons.prems(2) by simp
      have "still s s2" unfolding still_def
      proof (intro allI impI)
        fix j assume "j < BACKUPTICS" "sr_active (cw s ! j)"
        then show "sr_active (cw s2 ! j)" using here w(1) by (cases "j = unat x") simp_all
      qed
      moreover note Cons.IH [OF r]
      moreover have "settled s2 x" using here by (simp add: settled_def)
      ultimately show ?thesis
        using Cons.prems(2) w still_trans settled_still by (auto simp: x_def [symmetric])
    qed
  qed
qed

lemma GameData_still:
  assumes "length (cw s) = BACKUPTICS"
  shows "still s (NET_CL_ParseGameData e p s)"
proof (cases "NET_ReadInt8 p")
  case None
  then show ?thesis by (simp add: NET_CL_ParseGameData_def)
next
  case (Some x)
  obtain seq q where x: "x = (seq, q)" by fastforce
  show ?thesis
  proof (cases "NET_ReadInt8 q")
    case None
    then show ?thesis by (simp add: NET_CL_ParseGameData_def Some x)
  next
    case (Some y)
    obtain num q' where y: "y = (num, q')" by fastforce
    let ?s = "if need_to_acknowledge s then s else s\<lparr>need_to_acknowledge := True, gamedata_recv_time := ce_now e\<rparr>"
    obtain ok s1 where r: "store_tics e (NET_CL_ExpandTicNum ?s seq) num [0..<unat num] q' ?s = (ok, s1)" by fastforce
    have a: "still ?s s1" "length (cw s1) = BACKUPTICS" using store_tics_active [OF r] assms by auto
    have "NET_CL_ParseGameData e p s = (if ok then cl_request_missing e (NET_CL_ExpandTicNum ?s seq) s1 else s1)"
      unfolding NET_CL_ParseGameData_def \<open>NET_ReadInt8 p = Some x\<close> x option.case prod.case Some y Let_def r
      by (cases ok) simp_all
    moreover have "still s ?s" by (simp add: still_def)
    ultimately show ?thesis
      using still_trans [OF \<open>still s ?s\<close> a(1)]
        still_trans [OF still_trans [OF \<open>still s ?s\<close> a(1)] same_game_still [OF same_game_missing a(2)]] by (cases ok) simp_all
  qed
qed

text \<open>The game data of the tics from \<open>t\<close> on, with the next tic \<open>n\<close> among them.\<close>

lemma GameData_arrives:
  assumes "tic_data low tics t k p" "\<And>i. full_ok low (tics i)"
    "length (fc_cmds (ce_junk_cmd e)) = NET_MAXPLAYERS" "follows before tics n s"
    "low = (gs_lowres_turn (cl_settings s) \<noteq> 0)" "t \<le> n" "n < t + k" "n < t + 65"
  shows "sr_active (cw (NET_CL_ParseGameData e p s) ! 0)"
proof -
  let ?s = "if need_to_acknowledge s then s else s\<lparr>need_to_acknowledge := True, gamedata_recv_time := ce_now e\<rparr>"
  have f: "follows before tics n ?s" by (rule follows_same [OF _ assms(4)]) simp
  have "gs_lowres_turn (cl_settings ?s) = gs_lowres_turn (cl_settings s)" by simp
  then obtain num q s' where r: "NET_CL_ParseGameData e p s = cl_request_missing e (of_nat t) s'"
    "store_tics e (of_nat t) num [0..<k] q ?s = (True, s')"
    using GameData_stores [OF assms(1-4)] assms(5-8) by fastforce
  have w: "length (cw ?s) = BACKUPTICS" "cw_start ?s = of_nat n" using f by (simp_all only: follows_def)
  have a: "length (cw s') = BACKUPTICS" "\<forall>i \<in> set [0..<k]. settled s' (of_nat t - of_nat n + of_nat i)"
    using store_tics_active [OF r(2) w(1)] w(2) by auto
  have "settled s' (of_nat t - of_nat n + of_nat (n - t))"
    by (rule bspec [OF a(2)]) (use assms(6,7) in auto)
  moreover have "of_nat t - of_nat n + of_nat (n - t) = (0 :: u32)" using assms(6) by (simp add: of_nat_diff)
  ultimately have "sr_active (cw s' ! 0)" by (simp add: settled_def BACKUPTICS_def word_sle_eq)
  moreover have "still s' (cl_request_missing e (of_nat t) s')"
    by (rule same_game_still [OF same_game_missing a(1)])
  ultimately show ?thesis unfolding r(1) by (simp add: still_def BACKUPTICS_def)
qed

lemma ParsePacket_still:
  assumes "NET_CL_ParsePacket e p s = Inr s'" "client_state s = CLIENT_STATE_IN_GAME" "length (cw s) = BACKUPTICS"
    and "\<And>ty q. NET_ReadInt16 p = Some (ty, q) \<Longrightarrow> ty AND NOT NET_RELIABLE_PACKET \<noteq> NET_PACKET_TYPE_GAMESTART"
  shows "still s s'"
proof (cases "NET_ReadInt16 p")
  case None
  then show ?thesis using assms(1) by (simp add: NET_CL_ParsePacket_def)
next
  case (Some x)
  obtain ty q where x: "x = (ty, q)" by fastforce
  define r where "r = NET_Conn_Packet (ce_now e) (client_connection s) q ty"
  define s1 where "s1 = s\<lparr>client_connection := cr_conn r, cl_out := cl_out s @ cr_out r\<rparr>"
  have s1: "still s s1" "client_state s1 = CLIENT_STATE_IN_GAME" "length (cw s1) = BACKUPTICS"
    using assms(2,3) by (simp_all add: s1_def still_def)
  have p: "(if cr_eaten r then Inr s1 else cl_dispatch e (cr_type r) (cr_packet r) s1) = Inr s'"
    using assms(1) unfolding NET_CL_ParsePacket_def Some x option.case prod.case Let_def r_def [symmetric] s1_def [symmetric] .
  show ?thesis
  proof (cases "cr_eaten r")
    case True
    then show ?thesis using p s1 by simp
  next
    case False
    have g: "cr_type r \<noteq> NET_PACKET_TYPE_GAMESTART"
      using conn_packet_type(1) [OF False [unfolded r_def], folded r_def] assms(4) Some x by simp
    show ?thesis
    proof (cases "cr_type r = NET_PACKET_TYPE_GAMEDATA")
      case data: False
      then have "same_game s1 s'"
        using p g s1(2) False same_game_dispatch [of e "cr_type r" "cr_packet r" s1 s'] by simp
      then show ?thesis using same_game_still [OF _ s1(3)] still_trans s1(1) by blast
    next
      case True
      then have "s' = NET_CL_ParseGameData e (cr_packet r) s1" using p False by (simp add: cl_dispatch_def packet_types)
      moreover have "still s1 (NET_CL_ParseGameData e (cr_packet r) s1)"
        using s1(3) by (intro GameData_still)
      ultimately show ?thesis using still_trans s1(1) by blast
    qed
  qed
qed


text \<open>A packet with tic \<open>n\<close>, the next one, puts it at the start of the window.\<close>

lemma ParsePacket_arrives:
  assumes "NET_CL_ParsePacket e p s = Inr s'" "next_tic low tics n p"
    "\<And>i. full_ok low (tics i)" "length (fc_cmds (ce_junk_cmd e)) = NET_MAXPLAYERS"
    "follows before tics n s" "low = (gs_lowres_turn (cl_settings s) \<noteq> 0)"
  shows "sr_active (cw s' ! 0)"
proof -
  obtain q t k where q: "NET_ReadInt16 p = Some (NET_PACKET_TYPE_GAMEDATA, q)" "tic_data low tics t k q"
    "t \<le> n" "n < t + k" "n < t + 65" using assms(2) unfolding next_tic_def by blast
  define s1 where "s1 = s\<lparr>client_connection := (client_connection s)\<lparr>cn_keepalive_recv_time := ce_now e\<rparr>\<rparr>"
  have sg: "same_game s s1" by (simp add: s1_def)
  have f1: "follows before tics n s1" by (rule follows_same [OF sg assms(5)])
  have "s' = NET_CL_ParseGameData e q s1"
    using assms(1) q(1) by (simp add: NET_CL_ParsePacket_def NET_Conn_Packet_def conn_dispatch_def cl_dispatch_def
        packet_types NET_RELIABLE_PACKET_def s1_def Let_def)
  then show ?thesis
    using GameData_arrives [OF q(2) assms(3,4) f1 _ q(3-5)] assms(6) by (simp add: s1_def)
qed

lemma receive_active:
  assumes "\<And>addr p. (addr, p) \<in> set inbox \<Longrightarrow> Some addr = server_addr s \<Longrightarrow> good_packet low tics n p"
    "follows before tics n s" "low = (gs_lowres_turn (cl_settings s) \<noteq> 0)"
    "\<And>i. full_ok low (tics i)" "length (fc_cmds (ce_junk_cmd e)) = NET_MAXPLAYERS"
    "foldR (cl_receive_one e) inbox s = Inr s'"
    "sr_active (cw s ! 0)
     \<or> (\<exists>addr p. (addr, p) \<in> set inbox \<and> Some addr = server_addr s \<and> next_tic low tics n p)"
  shows "sr_active (cw s' ! 0)"
  using assms
proof (induction inbox arbitrary: s)
  case Nil
  then show ?case by simp
next
  case (Cons x inbox)
  obtain addr p where x: "x = (addr, p)" by fastforce
  obtain s1 where s1: "cl_receive_one e x s = Inr s1" "foldR (cl_receive_one e) inbox s1 = Inr s'"
    using Cons.prems(6) by (auto simp: bindR_def split: sum.splits)
  have one: "foldR (cl_receive_one e) [x] s = Inr s1" using s1(1) by simp
  have f1: "follows before tics n s1" "keeps s s1"
    using receive_follow [OF _ Cons.prems(2-5) one] Cons.prems(1) by auto
  have w: "length (cw s) = BACKUPTICS" "client_state s = CLIENT_STATE_IN_GAME" using Cons.prems(2) by (simp_all add: follows_def)
  have still: "still s s1"
  proof (cases "Some addr = server_addr s")
    case True
    then have "NET_CL_ParsePacket e p s = Inr s1" "good_packet low tics n p"
      using s1(1) Cons.prems(1) by (auto simp: cl_receive_one_def x)
    then show ?thesis using ParsePacket_still [OF _ w(2,1)] by (simp add: good_packet_def)
  next
    case False
    then show ?thesis using s1(1) by (simp add: cl_receive_one_def x)
  qed
  have "sr_active (cw s1 ! 0)
     \<or> (\<exists>addr p. (addr, p) \<in> set inbox \<and> Some addr = server_addr s1 \<and> next_tic low tics n p)"
  proof (cases "sr_active (cw s ! 0)")
    case True
    then show ?thesis using still by (simp add: still_def BACKUPTICS_def)
  next
    case False
    then obtain addr' p' where g: "(addr', p') \<in> set (x # inbox)" "Some addr' = server_addr s" "next_tic low tics n p'"
      using Cons.prems(7) by blast
    show ?thesis
    proof (cases "(addr', p') = x")
      case True
      then have "NET_CL_ParsePacket e p s = Inr s1" using s1(1) g(2) by (auto simp: cl_receive_one_def x)
      then have "sr_active (cw s1 ! 0)"
        using ParsePacket_arrives [OF _ _ Cons.prems(4,5,2,3)] g(3) True x by simp
      then show ?thesis by simp
    next
      case False
      then have "(addr', p') \<in> set inbox" using g(1) by auto
      moreover have "server_addr s1 = server_addr s" using f1(2) by (simp add: keeps_def)
      ultimately show ?thesis using g by metis
    qed
  qed
  moreover have "server_addr s1 = server_addr s" "low = (gs_lowres_turn (cl_settings s1) \<noteq> 0)"
    using f1(2) Cons.prems(3) by (simp_all add: keeps_def)
  ultimately show ?case using Cons.prems(1,4,5) s1(2) f1(1) by (intro Cons.IH) auto
qed

subsection \<open>A run of the client\<close>

lemma advance_window_progress:
  assumes "follows before tics n s" "length ticcmds = NET_MAXPLAYERS"
  shows "\<exists>n' \<ge> n. follows before tics n' (advance_window ticcmds s) \<and> keeps s (advance_window ticcmds s)
    \<and> (sr_active (cw s ! 0) \<longrightarrow> n < n')"
proof (cases "sr_active (cw s ! 0)")
  case False
  then show ?thesis using advance_window_follow [OF assms] unfolding keeps_def by blast
next
  case True
  have "cw s \<noteq> []" using assms(1) by (auto simp: follows_def BACKUPTICS_def)
  obtain ticcmds' s' where a: "advance_tic ticcmds s = (ticcmds', s')" by fastforce
  have f: "follows before tics (Suc n) s'" "length ticcmds' = NET_MAXPLAYERS" "keeps s s'"
    using advance_tic_follow [OF assms(1) True assms(2)] a by (simp_all add: keeps_def)
  have eq: "advance_window ticcmds s = advance_window ticcmds' s'"
    using True a \<open>cw s \<noteq> []\<close> by (subst advance_window.simps) simp
  obtain n' where "follows before tics n' (advance_window ticcmds s)" "Suc n \<le> n'" "keeps s' (advance_window ticcmds s)"
    using advance_window_follow [OF f(1,2)] unfolding eq keeps_def by blast
  then show ?thesis using keeps_trans [OF f(3)] by (intro exI [of _ n']) simp
qed

lemma Run_follow:
  assumes "\<forall>addr p. (addr, p) \<in> set inbox \<and> Some addr = server_addr s \<longrightarrow> good_packet low tics n p"
    "follows before tics n s" "low = (gs_lowres_turn (cl_settings s) \<noteq> 0)"
    "\<And>i. full_ok low (tics i)" "length (fc_cmds (ce_junk_cmd e)) = NET_MAXPLAYERS"
    "length (ce_junk_ticcmds e) = NET_MAXPLAYERS" "NET_CL_Run e inbox s = Inr s'"
  shows "\<exists>n' \<ge> n. follows before tics n' s' \<and> keeps s s' \<and>
    (net_client_connected s \<and> (\<exists>addr p. (addr, p) \<in> set inbox \<and> Some addr = server_addr s \<and> next_tic low tics n p)
       \<longrightarrow> n < n')"
proof (cases "net_client_connected s")
  case False
  then show ?thesis using assms(2,7) by (auto simp: NET_CL_Run_def)
next
  case True
  obtain s1 where s1: "foldR (cl_receive_one e) inbox s = Inr s1"
    using assms(7) True by (auto simp: NET_CL_Run_def bindR_def split: sum.splits)
  have f1: "follows before tics n s1" "keeps s s1"
    using receive_follow [OF _ assms(2-5) s1] assms(1) by blast+
  define s2 where "s2 = cl_connection_op (NET_Conn_Run (ce_now e)) s1"
  define s3 where "s3 = (if cl_ended s2 then NET_CL_Shutdown (NET_CL_Disconnected s2) else s2)"
  define s4 where "s4 = s3\<lparr>net_waiting_for_launch := cn_state (client_connection s3) = NET_CONN_STATE_CONNECTED
                  \<and> client_state s3 = CLIENT_STATE_WAITING_LAUNCH\<rparr>"
  have sg: "same_game s1 s4"
    using same_game_trans [OF same_game_connection [of s1 "NET_Conn_Run (ce_now e)"] same_game_disconnected]
    by (simp add: s4_def s3_def s2_def)
  have f4: "follows before tics n s4" by (rule follows_same [OF sg f1(1)])
  have "NET_CL_Run e inbox s = Inr (if client_state s4 = CLIENT_STATE_IN_GAME
      then NET_CL_CheckResends e (NET_CL_AdvanceWindow e s4) else s4)"
    using True s1 unfolding NET_CL_Run_def s4_def s3_def s2_def by (simp add: Let_def)
  moreover have "client_state s4 = CLIENT_STATE_IN_GAME" using f4 by (simp add: follows_def)
  ultimately have s': "s' = NET_CL_CheckResends e (advance_window (ce_junk_ticcmds e) s4)"
    using assms(7) by (simp add: NET_CL_AdvanceWindow_def)
  have act: "sr_active (cw s4 ! 0)"
    if "\<exists>addr p. (addr, p) \<in> set inbox \<and> Some addr = server_addr s \<and> next_tic low tics n p"
  proof -
    have "sr_active (cw s1 ! 0)" by (rule receive_active [OF _ assms(2-5) s1]) (use assms(1) that in blast)+
    moreover have "still s1 s4" using same_game_still [OF sg] f1(1) by (simp add: follows_def)
    ultimately show ?thesis by (simp add: still_def BACKUPTICS_def)
  qed
  obtain n' where n': "follows before tics n' (advance_window (ce_junk_ticcmds e) s4)" "n \<le> n'"
    "keeps s4 (advance_window (ce_junk_ticcmds e) s4)" "sr_active (cw s4 ! 0) \<longrightarrow> n < n'"
    using advance_window_progress [OF f4 assms(6)] by blast
  note sg' = same_game_CheckResends [of "advance_window (ce_junk_ticcmds e) s4" e]
  have "follows before tics n' s'" unfolding s' by (rule follows_same [OF sg' n'(1)])
  moreover have "keeps s s'"
    using keeps_trans [OF f1(2) keeps_trans [OF same_game_keeps [OF sg] keeps_trans [OF n'(3) same_game_keeps [OF sg']]]]
    unfolding s' .
  ultimately show ?thesis using n'(2,4) act by blast
qed

subsection \<open>A game from its start\<close>

text \<open>
  The runs of the client and the commands it sends from the state \<open>s0\<close> in which the game starts, in
  any order; the packets of the server carry its tics.
\<close>

inductive plays :: "(nat \<Rightarrow> net_full_ticcmd) \<Rightarrow> net_cl \<Rightarrow> net_cl \<Rightarrow> bool" for tics s0 where
  plays_start: "plays tics s0 s0"
| plays_run: "plays tics s0 s \<Longrightarrow> length (fc_cmds (ce_junk_cmd e)) = NET_MAXPLAYERS \<Longrightarrow>
    length (ce_junk_ticcmds e) = NET_MAXPLAYERS \<Longrightarrow>
    (\<And>addr p. (addr, p) \<in> set inbox \<Longrightarrow> Some addr = server_addr s \<Longrightarrow>
       good_packet (gs_lowres_turn (cl_settings s) \<noteq> 0) tics (length (delivered s) - length (delivered s0)) p) \<Longrightarrow>
    NET_CL_Run e inbox s = Inr s' \<Longrightarrow> plays tics s0 s'"
| plays_send: "plays tics s0 s \<Longrightarrow> NET_CL_SendTiccmd e cmd maketic s = Inr s' \<Longrightarrow> plays tics s0 s'"

lemma start_follows:
  assumes "NET_CL_ParseGameStart p s = Inr s0" "client_state s \<noteq> CLIENT_STATE_IN_GAME"
    "client_state s0 = CLIENT_STATE_IN_GAME"
  shows "follows (delivered s) tics 0 s0 \<and> delivered s0 = delivered s"
proof -
  obtain ok settings where "NET_ReadSettings_into p (cl_settings s) = Inr (ok, settings)"
    using assms(1) by (auto simp: NET_CL_ParseGameStart_def bindR_def split: sum.splits)
  then have "s0 = s\<lparr>cl_settings := settings, client_state := CLIENT_STATE_IN_GAME,
                cw := replicate BACKUPTICS blank_server_recv, cw_start := 0,
                recvwindow_cmd_base := replicate NET_MAXPLAYERS zero_ticcmd,
                send_queue := replicate BACKUPTICS blank_server_send\<rparr>"
    using assms by (auto simp: NET_CL_ParseGameStart_def Let_def split: if_splits)
  then show ?thesis
    by (auto simp: follows_def delivered_def blank_server_recv_def others_def)
qed

lemma plays_follows:
  assumes "plays tics s0 s" "follows (delivered s0) tics 0 s0"
    "\<And>i. full_ok (gs_lowres_turn (cl_settings s0) \<noteq> 0) (tics i)"
  shows "\<exists>n. follows (delivered s0) tics n s \<and> keeps s0 s"
  using assms
proof (induction rule: plays.induct)
  case plays_start
  then show ?case by auto
next
  case (plays_run s e inbox s')
  then obtain n where n: "follows (delivered s0) tics n s" "keeps s0 s" by blast
  have count: "length (delivered s) - length (delivered s0) = n" using n(1) by (auto simp: follows_def)
  have low: "gs_lowres_turn (cl_settings s) = gs_lowres_turn (cl_settings s0)" using n(2) by (simp add: keeps_def)
  have good: "\<forall>addr p. (addr, p) \<in> set inbox \<and> Some addr = server_addr s
      \<longrightarrow> good_packet (gs_lowres_turn (cl_settings s) \<noteq> 0) tics n p" using plays_run.hyps(4) unfolding count by blast
  have "\<exists>n' \<ge> n. follows (delivered s0) tics n' s' \<and> keeps s s'"
    using Run_follow [OF good n(1) refl _ plays_run.hyps(2,3,5)] plays_run.prems(2) unfolding low by blast
  then show ?case using n(2) keeps_trans by blast
next
  case (plays_send s e cmd maketic s')
  then obtain n where n: "follows (delivered s0) tics n s" "keeps s0 s" by blast
  note sg = same_game_SendTiccmd [OF plays_send.hyps(2)]
  show ?case using follows_same [OF sg n(1)] keeps_trans [OF n(2) same_game_keeps [OF sg]] by blast
qed

text \<open>The commands the differences add up to are those a player gave.\<close>

lemma commands_given:
  assumes "\<And>j. j \<le> k \<Longrightarrow> fc_playeringame (tics j) ! p"
    "\<And>j. j \<le> k \<Longrightarrow> fc_cmds (tics j) ! p = NET_TiccmdDiff (case j of 0 \<Rightarrow> zero_ticcmd | Suc i \<Rightarrow> given i) (given j)"
  shows "commands tics p (Suc k) = given k"
  using assms
proof (induction k)
  case 0
  then show ?case using patch_diff by simp
next
  case (Suc k)
  have "commands tics p (Suc k) = given k" using Suc.prems by (intro Suc.IH) auto
  then show ?case using Suc.prems(1,2) [of "Suc k"] patch_diff by simp
qed

end
