(* ===== verification/Net_Client_View.thy ===== *)
theory Net_Client_View
  imports Net_Client
begin

text \<open>
  A part of the client that handling packets and sending leave alone: the interface \<open>client_view\<close> asks
  for a view that none of the fields they assign shows, and gives what every operation keeps of it.
\<close>

locale client_view =
  fixes v :: "net_cl \<Rightarrow> 'a"
  assumes view_fields [simp]:
    "v (s\<lparr>need_to_acknowledge := b\<rparr>) = v s"
    "v (s\<lparr>gamedata_recv_time := t\<rparr>) = v s"
    "v (s\<lparr>client_connection := c\<rparr>) = v s"
    "v (s\<lparr>cl_out := out\<rparr>) = v s"
    "v (s\<lparr>send_queue := q\<rparr>) = v s"
    "v (s\<lparr>last_ticcmd := l\<rparr>) = v s"
    "v (s\<lparr>net_waiting_for_launch := b\<rparr>) = v s"
    "v (s\<lparr>net_client_reject_reason := r\<rparr>) = v s"
    "v (s\<lparr>net_client_wait_data := w\<rparr>) = v s"
    "v (s\<lparr>net_client_received_wait_data := b\<rparr>) = v s"
    "v (s\<lparr>cumul_error := a\<rparr>) = v s"
    "v (s\<lparr>offsetms := a\<rparr>) = v s"
    "v (s\<lparr>last_error := a\<rparr>) = v s"
    "v (s\<lparr>last_latency := a\<rparr>) = v s"
    "v (s\<lparr>cl_settings := g\<rparr>) = v s"
    "v (s\<lparr>client_state := st\<rparr>) = v s"
    "v (s\<lparr>cw := w'\<rparr>) = v s"
    "v (s\<lparr>cw_start := t\<rparr>) = v s"
    "v (s\<lparr>recvwindow_cmd_base := cs\<rparr>) = v s"
begin

lemma view_connection [simp]: "v (cl_connection_op f s) = v s"
  by (simp add: cl_connection_op_def split_def)

lemma view_clock [simp]: "v (UpdateClockSync e seq lat s) = v s"
  by (simp add: UpdateClockSync_def Let_def)

lemma view_ack [simp]: "v (NET_CL_SendGameDataACK e s) = v s"
  by (simp add: NET_CL_SendGameDataACK_def Let_def)

lemma view_SendTics [simp]: "v (NET_CL_SendTics e a b s) = v s"
  by (simp add: NET_CL_SendTics_def Let_def)

lemma view_mark [simp]: "v (mark_resend e i s) = v s"
  by (simp add: mark_resend_def Let_def)

lemma view_marks [simp]: "v (fold (mark_resend e) is s) = v s"
  by (induction "is" arbitrary: s) simp_all

lemma view_resend [simp]: "v (NET_CL_SendResendRequest e a b s) = v s"
  by (simp add: NET_CL_SendResendRequest_def Let_def)

lemma view_request_run [simp]: "v (cl_request_run e a b s) = v s"
  by (simp add: cl_request_run_def split: option.split)

lemma view_check [simp]: "v (cl_check_resends e dl is a b s) = v s"
  by (induction "is" arbitrary: a b s) simp_all

lemma view_CheckResends [simp]: "v (NET_CL_CheckResends e s) = v s"
  by (simp add: NET_CL_CheckResends_def Let_def)

lemma view_missing [simp]: "v (cl_request_missing e seq s) = v s"
  by (simp add: cl_request_missing_def Let_def)

lemma view_expand [simp]: "v (snd (NET_CL_ExpandFullTiccmd c ticcmds s)) = v s"
  by (simp add: NET_CL_ExpandFullTiccmd_def split_def)

lemma view_store: "store_tics e seq num is p s = (ok, s') \<Longrightarrow> v s' = v s"
proof (induction "is" arbitrary: p s)
  case Nil
  then show ?case by simp
next
  case (Cons i "is")
  show ?case
    by (cases "NET_ReadFullTiccmd p (ce_junk_cmd e) (gs_lowres_turn (cl_settings s) \<noteq> 0)")
      (use Cons in \<open>auto simp: Let_def split: if_splits dest!: Cons.IH\<close>)
qed

lemma view_GameData [simp]: "v (NET_CL_ParseGameData e p s) = v s"
  by (auto simp: NET_CL_ParseGameData_def Let_def split: option.split prod.split bool.split dest!: view_store)

lemma view_simple [simp]:
  "v (NET_CL_ParseSYN p s) = v s" "v (NET_CL_ParseReject p s) = v s"
  "v (NET_CL_ParseWaitingData e p s) = v s" "v (NET_CL_ParseLaunch p s) = v s"
  "v (NET_CL_ParseConsoleMessage p s) = v s"
  by (simp_all add: NET_CL_ParseSYN_def NET_CL_ParseReject_def SetRejectReason_def NET_CL_ParseWaitingData_def
      NET_CL_ParseLaunch_def NET_CL_ParseConsoleMessage_def split: option.split prod.split net_protocol.split)

lemma view_GameStart: "NET_CL_ParseGameStart p s = Inr s' \<Longrightarrow> v s' = v s"
  by (auto simp: NET_CL_ParseGameStart_def bindR_def Let_def split: sum.splits if_splits prod.splits)

lemma view_ResendRequest: "NET_CL_ParseResendRequest e p s = Inr s' \<Longrightarrow> v s' = v s"
  by (auto simp: NET_CL_ParseResendRequest_def Let_def split: if_splits option.splits)

lemma view_ParsePacket: "NET_CL_ParsePacket e p s = Inr s' \<Longrightarrow> v s' = v s"
  by (auto simp: NET_CL_ParsePacket_def cl_dispatch_def Let_def split: option.splits if_splits
      dest!: view_GameStart view_ResendRequest)

lemma view_receive: "foldR (cl_receive_one e) inbox s = Inr s' \<Longrightarrow> v s' = v s"
  by (induction inbox arbitrary: s)
    (auto simp: cl_receive_one_def bindR_def split: sum.splits prod.splits if_splits dest!: view_ParsePacket)

lemma view_SendTiccmd: "NET_CL_SendTiccmd e cmd t s = Inr s' \<Longrightarrow> v s' = v s"
  by (auto simp: NET_CL_SendTiccmd_def Let_def split: if_splits)

lemma view_StartGame: "NET_CL_StartGame settings s = Inr s' \<Longrightarrow> v s' = v s"
  by (auto simp: NET_CL_StartGame_def bindR_def Let_def split: sum.splits)

lemma view_SendSYN: "NET_CL_SendSYN e data s = Inr s' \<Longrightarrow> v s' = v s"
  by (auto simp: NET_CL_SendSYN_def Let_def bindR_def split: sum.splits option.splits)

lemma view_hole_punch [simp]: "v (NET_RequestHolePunch e addr s) = v s"
  by (simp add: NET_RequestHolePunch_def Let_def split: option.split)

lemma view_reject [simp]: "v (SetRejectReason r s) = v s"
  by (simp add: SetRejectReason_def)

end

end
