(* ===== verification/Net_Client_Link.thy ===== *)
theory Net_Client_Link
  imports Net_Client_View
begin

text \<open>
  The client's hold on its server: the reference to the address, the ends of the loops that
  connect and disconnect, and the packets that stop the client.
\<close>

subsection \<open>What leaves the link to the server alone\<close>

definition link :: "net_cl \<Rightarrow> net_addr option \<times> bool \<times> int" where
  "link s = (server_addr s, net_client_connected s, server_refs s)"

interpretation link: client_view link
  by unfold_locales (simp_all add: link_def)

lemma link_ticcalls [simp]: "link (s\<lparr>cl_ticcalls := c\<rparr>) = link s" "link (s\<lparr>drone := b\<rparr>) = link s"
  by (simp_all add: link_def)

lemma link_disconnected [simp]: "link (NET_CL_Disconnected s) = link s"
  by (simp add: NET_CL_Disconnected_def)

lemma link_advance_tic [simp]: "link (snd (advance_tic ticcmds s)) = link s"
  by (simp add: advance_tic_def split_def Let_def)

lemma link_advance_window [simp]: "link (advance_window ticcmds s) = link s"
proof (induction ticcmds s rule: advance_window.induct)
  case (1 ticcmds s)
  obtain ticcmds' s' where a: "advance_tic ticcmds s = (ticcmds', s')" by fastforce
  then have "link s' = link s" using link_advance_tic [of ticcmds s] by simp
  then show ?case using 1 [OF _ a [symmetric]] a by (subst advance_window.simps) simp
qed

subsection \<open>The reference to the server\<close>

text \<open>\<open>k\<close> references are held besides the one that the client holds while it is connected.\<close>

definition holds_server :: "net_addr \<Rightarrow> int \<Rightarrow> net_cl \<Rightarrow> bool" where
  "holds_server addr k s \<longleftrightarrow> server_addr s = Some addr
     \<and> server_refs s = k + (if net_client_connected s then 1 else 0)"

lemma holds_link: "link s' = link s \<Longrightarrow> holds_server addr k s' = holds_server addr k s"
  by (simp add: link_def holds_server_def)

lemma holds_shutdown: "holds_server addr k s \<Longrightarrow> holds_server addr k (NET_CL_Shutdown s) \<and> \<not> net_client_connected (NET_CL_Shutdown s)"
  by (simp add: holds_server_def NET_CL_Shutdown_def)

lemma holds_Run:
  assumes "holds_server addr k s" "NET_CL_Run e inbox s = Inr s'"
  shows "holds_server addr k s'"
proof (cases "net_client_connected s")
  case False
  then show ?thesis using assms by (simp add: NET_CL_Run_def)
next
  case True
  obtain s1 where s1: "foldR (cl_receive_one e) inbox s = Inr s1"
    using assms(2) True by (auto simp: NET_CL_Run_def bindR_def split: sum.splits)
  define s2 where "s2 = cl_connection_op (NET_Conn_Run (ce_now e)) s1"
  define s3 where "s3 = (if cl_ended s2 then NET_CL_Shutdown (NET_CL_Disconnected s2) else s2)"
  define s4 where "s4 = s3\<lparr>net_waiting_for_launch := cn_state (client_connection s3) = NET_CONN_STATE_CONNECTED
                  \<and> client_state s3 = CLIENT_STATE_WAITING_LAUNCH\<rparr>"
  have s': "s' = (if client_state s4 = CLIENT_STATE_IN_GAME
      then NET_CL_CheckResends e (NET_CL_AdvanceWindow e s4) else s4)"
    using assms(2) True s1 unfolding NET_CL_Run_def s4_def s3_def s2_def by (simp add: Let_def)
  have "link s2 = link s" by (simp add: s2_def link.view_receive [OF s1])
  then have "holds_server addr k s2" using holds_link assms(1) by metis
  then have "holds_server addr k s3"
    using holds_shutdown [of addr k "NET_CL_Disconnected s2"] holds_link [of "NET_CL_Disconnected s2" s2] by (simp add: s3_def)
  moreover have "link s' = link s3" by (simp add: s' s4_def NET_CL_AdvanceWindow_def)
  ultimately show ?thesis using holds_link by metis
qed

subsection \<open>The loops that connect and disconnect\<close>

text \<open>One turn of the connecting loop: the result that ends it, or what it goes on with.\<close>

definition connect_turn :: "net_addr \<Rightarrow> net_connect_data \<Rightarrow> u32 \<Rightarrow> round \<Rightarrow> u32 \<Rightarrow> bool \<Rightarrow> net_cl
    \<Rightarrow> net_cl res + (u32 \<times> bool \<times> net_cl)" where
  "connect_turn addr data start_time rd last_send_time sent s =
     (case rd of (e, inbox) \<Rightarrow>
        case (if 1000 <s ce_now e - last_send_time \<or> last_send_time <s 0
              then bindR (NET_CL_SendSYN e data s) (\<lambda>s. Inr (ce_now e, s)) else Inr (last_send_time, s)) of
          Inl f \<Rightarrow> Inl (Inl f)
        | Inr (last_send_time, s) \<Rightarrow>
            if 5000 <s ce_now e - start_time
            then Inl (Inr (SetRejectReason (Some (cstr ''No response from server'')) s))
            else let punch = \<not> sent \<and> 2000 <s ce_now e - start_time
                 in case NET_CL_Run e inbox (if punch then NET_RequestHolePunch e addr s else s) of
                      Inl f \<Rightarrow> Inl (Inl f)
                    | Inr s \<Rightarrow> Inr (last_send_time, sent \<or> punch, s))"

lemma connect_loop_turn:
  "connect_loop addr data start_time rounds last_send_time sent s =
     (if cn_state (client_connection s) \<noteq> NET_CONN_STATE_CONNECTING then Some (Inr s)
      else case rounds of
             [] \<Rightarrow> None
           | rd # rounds \<Rightarrow>
               case connect_turn addr data start_time rd last_send_time sent s of
                 Inl r \<Rightarrow> Some r
               | Inr (last_send_time, sent, s) \<Rightarrow> connect_loop addr data start_time rounds last_send_time sent s)"
  by (subst connect_loop.simps)
    (auto simp: connect_turn_def Let_def split: list.split prod.split sum.split)

lemma connect_turn_late:
  "5000 <s ce_now e - start_time \<Longrightarrow> \<exists>r. connect_turn addr data start_time (e, inbox) last_send_time sent s = Inl r"
  by (auto simp: connect_turn_def bindR_def split: sum.split)

lemma connect_turn_holds:
  assumes "holds_server addr k s"
  shows "case connect_turn addr data start_time rd last_send_time sent s of
      Inl (Inl f) \<Rightarrow> True | Inl (Inr s') \<Rightarrow> holds_server addr k s' | Inr (l, b, s') \<Rightarrow> holds_server addr k s'"
proof -
  obtain e inbox where rd: "rd = (e, inbox)" by fastforce
  have syn: "holds_server addr k s'" if "NET_CL_SendSYN e data s = Inr s'" for s'
    using holds_link [OF link.view_SendSYN [OF that]] assms by simp
  have run: "holds_server addr k s''"
    if "holds_server addr k s'" "NET_CL_Run e inbox (if b then NET_RequestHolePunch e addr s' else s') = Inr s''" for b s' s''
    using holds_Run [OF _ that(2)] that(1) holds_link [of "NET_RequestHolePunch e addr s'" s' addr k] by simp
  have rej: "holds_server addr k s' \<Longrightarrow> holds_server addr k (SetRejectReason r s')" for s' r
    using holds_link [of "SetRejectReason r s'" s'] by simp
  define q where "q = (if 1000 <s ce_now e - last_send_time \<or> last_send_time <s 0
      then bindR (NET_CL_SendSYN e data s) (\<lambda>s. Inr (ce_now e, s)) else Inr (last_send_time, s))"
  have t: "connect_turn addr data start_time rd last_send_time sent s = (case q of
          Inl f \<Rightarrow> Inl (Inl f)
        | Inr (last_send_time, s) \<Rightarrow>
            if 5000 <s ce_now e - start_time
            then Inl (Inr (SetRejectReason (Some (cstr ''No response from server'')) s))
            else let punch = \<not> sent \<and> 2000 <s ce_now e - start_time
                 in case NET_CL_Run e inbox (if punch then NET_RequestHolePunch e addr s else s) of
                      Inl f \<Rightarrow> Inl (Inl f)
                    | Inr s \<Rightarrow> Inr (last_send_time, sent \<or> punch, s))"
    unfolding connect_turn_def rd prod.case q_def ..
  show ?thesis
  proof (cases q)
    case (Inl f)
    then show ?thesis unfolding t by simp
  next
    case (Inr y)
    obtain l u where y: "y = (l, u)" by fastforce
    have u: "holds_server addr k u"
      using Inr y assms syn by (auto simp: q_def bindR_def split: if_splits sum.splits)
    let ?punch = "\<not> sent \<and> 2000 <s ce_now e - start_time"
    show ?thesis
    proof (cases "NET_CL_Run e inbox (if ?punch then NET_RequestHolePunch e addr u else u)")
      case (Inl f)
      then show ?thesis unfolding t Inr y Let_def using rej [OF u] by simp
    next
      case (Inr v)
      then show ?thesis unfolding t \<open>q = Inr y\<close> y Let_def using rej [OF u] run [OF u Inr] by simp
    qed
  qed
qed

lemma connect_loop_ends:
  "(e, inbox) \<in> set rounds \<Longrightarrow> 5000 <s ce_now e - start_time \<Longrightarrow>
   \<exists>r. connect_loop addr data start_time rounds last_send_time sent s = Some r"
proof (induction rounds arbitrary: last_send_time sent s)
  case Nil
  then show ?case by simp
next
  case (Cons rd rounds)
  show ?case
  proof (cases "connect_turn addr data start_time rd last_send_time sent s")
    case (Inl r)
    then show ?thesis by (subst connect_loop_turn) simp
  next
    case (Inr x)
    then have "rd \<noteq> (e, inbox)"
      using connect_turn_late [OF Cons.prems(2), of addr data inbox last_send_time sent s] by auto
    then have "(e, inbox) \<in> set rounds" using Cons.prems(1) by simp
    then show ?thesis using Cons.IH Cons.prems(2) Inr by (subst connect_loop_turn) (auto split: prod.split)
  qed
qed

lemma connect_loop_holds:
  "connect_loop addr data start_time rounds last_send_time sent s = Some (Inr s') \<Longrightarrow> holds_server addr k s \<Longrightarrow>
   holds_server addr k s'"
proof (induction rounds arbitrary: last_send_time sent s)
  case Nil
  then show ?case by (subst (asm) connect_loop_turn) (auto split: if_splits)
next
  case (Cons rd rounds)
  show ?case
  proof (cases "cn_state (client_connection s) \<noteq> NET_CONN_STATE_CONNECTING")
    case True
    then show ?thesis using Cons.prems by (subst (asm) connect_loop_turn) auto
  next
    case False
    note t = connect_turn_holds [OF Cons.prems(2), of data start_time rd last_send_time sent]
    show ?thesis
    proof (cases "connect_turn addr data start_time rd last_send_time sent s")
      case (Inl r)
      then show ?thesis using Cons.prems(1) False t by (subst (asm) connect_loop_turn) auto
    next
      case (Inr x)
      obtain l b u where x: "x = (l, b, u)" by (metis prod_cases3)
      have "connect_loop addr data start_time rounds l b u = Some (Inr s')"
        using Cons.prems(1) False Inr x by (subst (asm) connect_loop_turn) simp
      then show ?thesis using Cons.IH t Inr x by simp
    qed
  qed
qed

lemma disconnect_loop_ends:
  "(e, inbox) \<in> set rounds \<Longrightarrow> 5000 <s ce_now e - start_time \<Longrightarrow>
   \<exists>r. disconnect_loop start_time rounds s = Some r"
  by (induction rounds arbitrary: s)
    (subst disconnect_loop.simps; force split: list.split prod.split sum.split)+

lemma disconnect_loop_holds:
  "disconnect_loop start_time rounds s = Some (Inr s') \<Longrightarrow> holds_server addr k s \<Longrightarrow> holds_server addr k s'"
proof (induction rounds arbitrary: s)
  case Nil
  then show ?case by (subst (asm) disconnect_loop.simps) (auto split: if_splits)
next
  case (Cons rd rounds)
  have st: "holds_server addr k s \<Longrightarrow> holds_server addr k (s\<lparr>client_state := st\<rparr>)" for s st
    using holds_link [of "s\<lparr>client_state := st\<rparr>" s] by simp
  show ?case using Cons.prems Cons.IH holds_Run st
    by (subst (asm) disconnect_loop.simps) (auto split: if_splits prod.splits sum.splits)
qed

subsection \<open>Requests for tics\<close>

lemma unat_pred: "(w :: u32) \<noteq> 0 \<Longrightarrow> unat (w - 1) < unat w"
  by (simp add: unat_minus_one unat_gt_0)

lemma narrow_start_stops:
  "holds_tic s h \<or> \<not> h \<le> final \<Longrightarrow> \<exists>r. narrow_start s start final = Some r \<and> (\<not> r \<le> final \<or> holds_tic s r)"
proof (induction "unat (h - start)" arbitrary: start rule: less_induct)
  case less
  show ?case
  proof (cases "start \<le> final \<and> \<not> holds_tic s start")
    case False
    then show ?thesis by (subst narrow_start.simps) auto
  next
    case True
    then have "h \<noteq> start" using less.prems by auto
    then have "unat (h - start - 1) < unat (h - start)" by (intro unat_pred) simp
    then have "unat (h - (start + 1)) < unat (h - start)" by (simp only: diff_diff_add)
    then show ?thesis using less True by (subst narrow_start.simps) auto
  qed
qed

lemma narrow_start_held: "narrow_start s start final = Some r \<Longrightarrow> \<not> r \<le> final \<or> holds_tic s r"
  by (rule narrow_start.raw_induct [of "\<lambda>s start final r. \<not> r \<le> final \<or> holds_tic s r"])
    (auto split: if_splits)

lemma narrow_end_stops:
  "\<not> start \<le> final \<or> holds_tic s start \<Longrightarrow> \<exists>r. narrow_end s start final = Some r"
proof (induction "unat (final - start)" arbitrary: final rule: less_induct)
  case less
  show ?case
  proof (cases "start \<le> final \<and> \<not> holds_tic s final")
    case False
    then show ?thesis by (subst narrow_end.simps) auto
  next
    case True
    then have "final \<noteq> start" "start \<le> final" using less.prems by auto
    then have "unat (final - start - 1) < unat (final - start)" by (intro unat_pred) simp
    then have "unat (final - 1 - start) < unat (final - start)" by (simp only: diff_right_commute)
    then show ?thesis using less True by (subst narrow_end.simps) auto
  qed
qed

text \<open>The search for tics of an unbounded request goes on for ever exactly when there are none.\<close>

lemma resend_request_result:
  "NET_CL_ParseResendRequest e p s = Inl f \<longleftrightarrow> f = Diverges \<and> \<not> drone s
     \<and> (\<exists>start num q q'. NET_ReadInt32 p = Some (start, q) \<and> NET_ReadInt8 q = Some (num, q') \<and> start + num = 0)
     \<and> (\<forall>t. \<not> holds_tic s t)"
proof (cases "drone s \<or> NET_ReadInt32 p = None")
  case True
  then show ?thesis by (auto simp: NET_CL_ParseResendRequest_def)
next
  case False
  then obtain start q where 1: "NET_ReadInt32 p = Some (start, q)" "\<not> drone s" by fastforce
  show ?thesis
  proof (cases "NET_ReadInt8 q")
    case None
    then show ?thesis using 1 by (simp add: NET_CL_ParseResendRequest_def)
  next
    case (Some x)
    obtain num q' where 2: "NET_ReadInt8 q = Some (num, q')" using Some by fastforce
    let ?final = "start + num - 1"
    show ?thesis
    proof (cases "start + num = 0 \<and> (\<forall>t. \<not> holds_tic s t)")
      case True
      then have "\<not> (\<not> r \<le> ?final \<or> holds_tic s r)" for r by simp
      then have "narrow_start s start ?final = None" using narrow_start_held by (metis not_None_eq)
      then have "NET_CL_ParseResendRequest e p s = Inl Diverges"
        using 1 2 by (simp only: NET_CL_ParseResendRequest_def option.case prod.case Let_def if_False)
      then show ?thesis using True 1 2 by auto
    next
      case False
      have "\<exists>h. holds_tic s h \<or> \<not> h \<le> ?final"
      proof (cases "start + num = 0")
        case True
        then show ?thesis using False by blast
      next
        case nz: False
        then have "unat ?final < unat (start + num)" by (rule unat_pred)
        then show ?thesis by (metis word_le_nat_alt linorder_not_le)
      qed
      then obtain r where r: "narrow_start s start ?final = Some r" "\<not> r \<le> ?final \<or> holds_tic s r"
        using narrow_start_stops by blast
      obtain r' where "narrow_end s r ?final = Some r'" using narrow_end_stops [OF r(2)] by blast
      then have "\<exists>s'. NET_CL_ParseResendRequest e p s = Inr s'"
        using 1 2 r(1) by (simp only: NET_CL_ParseResendRequest_def option.case prod.case Let_def if_False) blast
      then show ?thesis using False 1 2 by auto
    qed
  qed
qed

lemma read_classes_faults:
  "read_classes_into i p s = Inl f \<Longrightarrow> f = OutOfBounds \<and> int NET_MAXPLAYERS < sint (gs_num_players s)"
proof (induction i p s rule: read_classes_into.induct)
  case (1 i p s)
  show ?case
  proof (cases "int i < sint (gs_num_players s) \<and> i < NET_MAXPLAYERS")
    case True
    then show ?thesis using 1 by (subst (asm) (2) read_classes_into.simps) (auto split: option.splits)
  next
    case False
    then show ?thesis using "1.prems" by (subst (asm) read_classes_into.simps) (auto split: if_splits option.splits)
  qed
qed

lemma ParsePacket_faults:
  assumes "NET_CL_ParsePacket e p s = Inl f"
  shows "f = Diverges \<and> \<not> drone s \<and> (\<forall>t. \<not> holds_tic s t)
    \<or> f = OutOfBounds \<and> (\<exists>q q' settings. read_fields settings_fields q (cl_settings s) = (True, settings, q')
         \<and> int NET_MAXPLAYERS < sint (gs_num_players settings))"
proof (cases "NET_ReadInt16 p")
  case None
  then show ?thesis using assms by (simp add: NET_CL_ParsePacket_def)
next
  case (Some x)
  obtain ty q where x: "x = (ty, q)" by fastforce
  define r where "r = NET_Conn_Packet (ce_now e) (client_connection s) q ty"
  define s1 where "s1 = s\<lparr>client_connection := cr_conn r, cl_out := cl_out s @ cr_out r\<rparr>"
  have p: "(if cr_eaten r then Inr s1 else cl_dispatch e (cr_type r) (cr_packet r) s1) = Inl f"
    using assms unfolding NET_CL_ParsePacket_def Some x option.case prod.case Let_def r_def [symmetric] s1_def [symmetric] .
  have s1: "drone s1 = drone s" "holds_tic s1 = holds_tic s" "cl_settings s1 = cl_settings s"
    by (simp_all add: s1_def holds_tic_def send_slot_def fun_eq_iff)
  from p have "NET_CL_ParseGameStart (cr_packet r) s1 = Inl f \<or> NET_CL_ParseResendRequest e (cr_packet r) s1 = Inl f"
    by (auto simp: cl_dispatch_def split: if_splits)
  then show ?thesis
  proof
    assume "NET_CL_ParseGameStart (cr_packet r) s1 = Inl f"
    then have "NET_ReadSettings_into (cr_packet r) (cl_settings s) = Inl f"
      by (auto simp: NET_CL_ParseGameStart_def bindR_def s1(3) Let_def split: sum.splits)
    then obtain settings q' where "read_fields settings_fields (cr_packet r) (cl_settings s) = (True, settings, q')"
      "read_classes_into 0 q' settings = Inl f"
      by (auto simp: NET_ReadSettings_into_def split: prod.splits bool.splits)
    then show ?thesis using read_classes_faults by blast
  next
    assume "NET_CL_ParseResendRequest e (cr_packet r) s1 = Inl f"
    then show ?thesis unfolding resend_request_result s1 by blast
  qed
qed

lemma Connect_outcome:
  assumes "(e', inbox) \<in> set rounds" "5000 <s ce_now e' - ce_now e"
  shows "\<exists>r. NET_CL_Connect e addr data rounds s = Some r \<and> (\<forall>ok s'. r = Inr (ok, s') \<longrightarrow>
      (ok \<longrightarrow> cn_state (client_connection s') = NET_CONN_STATE_CONNECTED \<and> client_state s' = CLIENT_STATE_WAITING_LAUNCH
         \<and> net_client_reject_reason s' = None)
    \<and> (ce_init_client e \<longrightarrow> holds_server addr (server_refs s) s' \<and> (ok \<or> \<not> net_client_connected s')))"
proof (cases "ce_init_client e")
  case False
  then show ?thesis by (auto simp: NET_CL_Connect_def Let_def)
next
  case True
  define s1 where "s1 = SetRejectReason (Some (cstr ''Unknown reason''))
    (s\<lparr>server_addr := Some addr, server_refs := server_refs s + 1,
       net_local_wad_sha1sum := cd_wad_sha1sum data, net_local_deh_sha1sum := cd_deh_sha1sum data,
       net_local_is_freedoom := cd_is_freedoom data, net_client_connected := True, net_client_received_wait_data := False,
       client_connection := NET_Conn_InitClient (ce_now e) (client_connection s) addr NET_PROTOCOL_UNKNOWN\<rparr>)"
  obtain r where r: "connect_loop addr data (ce_now e) rounds (- 1) False s1 = Some r"
    using connect_loop_ends [OF assms] by blast
  have h1: "holds_server addr (server_refs s) s1" by (simp add: s1_def SetRejectReason_def holds_server_def)
  have c: "NET_CL_Connect e addr data rounds s = Some (bindR r (\<lambda>s.
      if cn_state (client_connection s) = NET_CONN_STATE_CONNECTED
      then Inr (True, (SetRejectReason None s)\<lparr>client_state := CLIENT_STATE_WAITING_LAUNCH, drone := cd_drone data \<noteq> 0\<rparr>)
      else Inr (False, NET_CL_Shutdown s)))"
    using True r by (simp add: NET_CL_Connect_def Let_def s1_def)
  show ?thesis
  proof (cases r)
    case (Inl f)
    then show ?thesis using c by simp
  next
    case (Inr s2)
    have h: "holds_server addr (server_refs s) s2" using connect_loop_holds [OF r [unfolded Inr] h1] .
    let ?s = "(SetRejectReason None s2)\<lparr>client_state := CLIENT_STATE_WAITING_LAUNCH, drone := cd_drone data \<noteq> 0\<rparr>"
    have "holds_server addr (server_refs s) ?s" using h holds_link [of ?s s2] by simp
    then show ?thesis using c Inr True holds_shutdown [OF h] by (auto simp: SetRejectReason_def)
  qed
qed

lemma Disconnect_outcome:
  assumes "(e', inbox) \<in> set rounds" "5000 <s ce_now e' - ce_now e" "holds_server addr k s"
  shows "\<exists>r. NET_CL_Disconnect e rounds s = Some r
    \<and> (\<forall>s'. r = Inr s' \<longrightarrow> \<not> net_client_connected s' \<and> server_refs s' = k)"
proof (cases "net_client_connected s")
  case False
  then show ?thesis using assms(3) by (auto simp: NET_CL_Disconnect_def holds_server_def)
next
  case True
  define s1 where "s1 = cl_connection_op (\<lambda>c. (NET_Conn_Disconnect c, [])) s"
  obtain r where r: "disconnect_loop (ce_now e) rounds s1 = Some r" using disconnect_loop_ends [OF assms(1,2)] by blast
  have h1: "holds_server addr k s1" using assms(3) holds_link [of s1 s] by (simp add: s1_def)
  have d: "NET_CL_Disconnect e rounds s = Some (bindR r (\<lambda>s. Inr (NET_CL_Shutdown s)))"
    using True r by (simp add: NET_CL_Disconnect_def s1_def)
  show ?thesis
  proof (cases r)
    case (Inl f)
    then show ?thesis using d by simp
  next
    case (Inr s2)
    have "holds_server addr k s2" using disconnect_loop_holds [OF r [unfolded Inr] h1] .
    then show ?thesis using d Inr holds_shutdown [of addr k s2] by (simp add: holds_server_def)
  qed
qed

end
