(* ===== verification/Net_Client_Props.thy ===== *)
theory Net_Client_Props
  imports Net_Client_Delivery Net_Client_Link
begin

text \<open>
  The properties of the client.
\<close>

subsection \<open>A sample game\<close>

text \<open>A client that waits for the start of a game, the packet that starts a game of two players with
  the client as the first of them, and the client then.\<close>

definition blank_wait :: net_waitdata where
  "blank_wait = \<lparr>wd_num_players = 0, wd_num_drones = 0, wd_ready_players = 0, wd_max_players = 0,
     wd_is_controller = 0, wd_consoleplayer = 0, wd_player_names = [], wd_player_addrs = [],
     wd_wad_sha1sum = [], wd_deh_sha1sum = [], wd_is_freedoom = 0\<rparr>"

definition no_settings :: net_gamesettings where
  "no_settings = \<lparr>gs_ticdup = 0, gs_extratics = 0, gs_deathmatch = 0, gs_episode = 0, gs_nomonsters = 0,
     gs_fast_monsters = 0, gs_respawn_monsters = 0, gs_map = 0, gs_skill = 0, gs_gameversion = 0,
     gs_lowres_turn = 0, gs_new_sync = 0, gs_timelimit = 0, gs_loadgame = 0, gs_random = 0,
     gs_num_players = 0, gs_consoleplayer = 0, gs_player_classes = replicate 8 0\<rparr>"

definition idle_client :: net_cl where
  "idle_client = \<lparr>client_connection = \<lparr>cn_state = NET_CONN_STATE_CONNECTED,
       cn_disconnect_reason = NET_DISCONNECT_REMOTE, cn_addr = 1, cn_protocol = NET_PROTOCOL_CHOCOLATE_DOOM_0,
       cn_last_send_time = 0, cn_num_retries = 0, cn_keepalive_send_time = 0, cn_keepalive_recv_time = 0,
       cn_reliable_packets = [], cn_reliable_send_seq = 0, cn_reliable_recv_seq = 0\<rparr>,
     client_state = CLIENT_STATE_WAITING_START, server_addr = Some 1, cl_settings = no_settings,
     net_client_reject_reason = None, net_client_connected = True, net_client_received_wait_data = False,
     net_client_wait_data = blank_wait, net_waiting_for_launch = False, net_player_name = None, drone = False,
     last_ticcmd = zero_ticcmd, send_queue = replicate BACKUPTICS blank_server_send,
     recvwindow_cmd_base = replicate NET_MAXPLAYERS zero_ticcmd, cw_start = 0,
     cw = replicate BACKUPTICS blank_server_recv, need_to_acknowledge = False, gamedata_recv_time = 0,
     last_latency = 0, last_error = 0, cumul_error = 0, offsetms = 0, net_local_wad_sha1sum = [],
     net_local_deh_sha1sum = [], net_local_is_freedoom = 0, cl_out = [], cl_ticcalls = [], server_refs = 1\<rparr>"

definition start_packet :: net_packet where
  "start_packet = \<lparr>pdata = [1, 1, 0, 0, 0, 0, 1, 1, 2, 9, 0, 1, 0, 0, 0, 0, 255, 0, 2, 0, 0, 0], palloced = 64, ppos = 0\<rparr>"

definition two_player_settings :: net_gamesettings where
  "two_player_settings = no_settings\<lparr>gs_ticdup := 1, gs_extratics := 1, gs_episode := 1, gs_map := 1, gs_skill := 2,
     gs_gameversion := 9, gs_new_sync := 1, gs_loadgame := 0xffffffff, gs_num_players := 2\<rparr>"

definition game_client :: net_cl where
  "game_client = idle_client\<lparr>cl_settings := two_player_settings, client_state := CLIENT_STATE_IN_GAME\<rparr>"

lemma read_start_packet: "NET_ReadSettings_into start_packet no_settings = Inr (True, two_player_settings)"
  by code_simp

lemma game_starts: "NET_CL_ParseGameStart start_packet idle_client = Inr game_client"
proof -
  have "cl_settings idle_client = no_settings" by (simp add: idle_client_def)
  then show ?thesis
    unfolding NET_CL_ParseGameStart_def \<open>cl_settings idle_client = no_settings\<close> read_start_packet
    by (simp add: game_client_def idle_client_def Let_def two_player_settings_def no_settings_def word_sless_alt word_sle_eq
        NET_MAXPLAYERS_def)
qed

text \<open>The tics of the sample game: the second player keeps running forward.\<close>

definition run_cmd :: ticcmd where "run_cmd = zero_ticcmd\<lparr>forwardmove := 50\<rparr>"

definition game_tics :: "nat \<Rightarrow> net_full_ticcmd" where
  "game_tics k = \<lparr>fc_latency = 7, fc_seq = of_nat k,
     fc_playeringame = [False, True, False, False, False, False, False, False],
     fc_cmds = (replicate 8 (NET_TiccmdDiff zero_ticcmd zero_ticcmd))
       [1 := NET_TiccmdDiff (case k of 0 \<Rightarrow> zero_ticcmd | Suc i \<Rightarrow> run_cmd) run_cmd]\<rparr>"

lemma game_tics_ok: "full_ok low (game_tics k)"
proof -
  have "ticdiff_ok low (NET_TiccmdDiff c run_cmd)" for c
    by (simp add: ticdiff_ok_def NET_TiccmdDiff_fits run_cmd_def zero_ticcmd_def fits_u16_def)
  then show ?thesis
    by (auto simp: full_ok_def game_tics_def net_consts fits_s16_def word_sle_eq word_sless_alt nth_Cons'
        less_Suc_eq numeral_eq_Suc)
qed

lemma game_client_facts [simp]:
  "client_state idle_client \<noteq> CLIENT_STATE_IN_GAME" "client_state game_client = CLIENT_STATE_IN_GAME"
  "gs_lowres_turn (cl_settings game_client) = 0" "server_addr game_client = Some 1" "net_client_connected game_client"
  "delivered game_client = []" "delivered idle_client = []" "others game_client (Suc 0)"
  by (simp_all add: idle_client_def game_client_def two_player_settings_def no_settings_def delivered_def others_def
      NET_MAXPLAYERS_def)

text \<open>The packet of the first tic, as the server sends it, and the run of the client that gets it.\<close>

definition tic_packet :: net_packet where
  "tic_packet = \<lparr>pdata = [0, 6, 0, 1] @ enc_full False (game_tics 0), palloced = 500, ppos = 0\<rparr>"

definition sample_cl_env :: cl_env where
  "sample_cl_env = \<lparr>ce_now = 20, ce_pid = \<lambda>_ _ _. 0, ce_junk_ticcmds = replicate 8 zero_ticcmd,
     ce_junk_cmd = game_tics 0, ce_junk_wait = blank_wait, ce_addr_to_string = \<lambda>_. [], ce_resolve = [],
     ce_init_client = True\<rparr>"

lemma tic_packet_good: "good_packet False game_tics 0 tic_packet" "next_tic False game_tics 0 tic_packet"
proof -
  have "pdata tic_packet = [0, 6, ucast (of_nat 0 :: u32), of_nat (Suc 0)]
      @ concat (map (\<lambda>j. enc_full False (game_tics (0 + j))) [0..<Suc 0])" "ppos tic_packet = 0"
    by (simp_all add: tic_packet_def)
  note g = sent_tics_good [OF this, of 0]
  then show "good_packet False game_tics 0 tic_packet" by simp
  show "next_tic False game_tics 0 tic_packet" unfolding next_tic_def using g by fastforce
qed

lemma data_run_returns:
  assumes "next_tic low tics n p"
  shows "\<exists>s'. NET_CL_Run e [(addr, p)] s = Inr s'"
proof -
  obtain q where q: "NET_ReadInt16 p = Some (NET_PACKET_TYPE_GAMEDATA, q)" using assms unfolding next_tic_def by blast
  have "\<exists>s'. NET_CL_ParsePacket e p s = Inr s'"
    by (simp add: NET_CL_ParsePacket_def q NET_Conn_Packet_def conn_dispatch_def cl_dispatch_def packet_types
        NET_RELIABLE_PACKET_def Let_def)
  then have "\<exists>s'. cl_receive_one e (addr, p) s = Inr s'" by (auto simp: cl_receive_one_def)
  then show ?thesis unfolding NET_CL_Run_def by (auto simp: Let_def)
qed

lemma sample_env_ok: "length (fc_cmds (ce_junk_cmd sample_cl_env)) = NET_MAXPLAYERS"
  "length (ce_junk_ticcmds sample_cl_env) = NET_MAXPLAYERS"
  by (simp_all add: sample_cl_env_def game_tics_def NET_MAXPLAYERS_def)

definition played_client :: net_cl where
  "played_client = (case NET_CL_Run sample_cl_env [(1, tic_packet)] game_client of Inr s \<Rightarrow> s | Inl _ \<Rightarrow> game_client)"

lemma played_run: "NET_CL_Run sample_cl_env [(1, tic_packet)] game_client = Inr played_client"
  using data_run_returns [OF tic_packet_good(2), of sample_cl_env 1 game_client] by (auto simp: played_client_def)

lemma sample_plays: "plays game_tics game_client played_client"
  by (rule plays_run [OF plays_start sample_env_ok _ played_run]) (simp add: tic_packet_good(1))

lemma sample_played: "length (delivered played_client) \<noteq> 0"
proof -
  have f: "follows [] game_tics 0 game_client" using start_follows [OF game_starts] by simp
  have "\<exists>n' > 0. follows [] game_tics n' played_client"
    using Run_follow [OF _ f refl _ sample_env_ok played_run] tic_packet_good game_tics_ok by auto
  then show ?thesis by (auto simp: follows_def)
qed

subsection \<open>What the game loop gets\<close>

text \<open>C11: From the start of a game on, whatever the client is sent and sends, the tics it hands to the
  game loop are the first tics of the server, each once and in order, with the players in the game
  and, for every other player, the command its differences add up to.\<close>

theorem client_delivers:
  assumes "NET_CL_ParseGameStart p s = Inr s0" "client_state s \<noteq> CLIENT_STATE_IN_GAME"
    "client_state s0 = CLIENT_STATE_IN_GAME" "plays tics s0 s1"
    "\<And>i. full_ok (gs_lowres_turn (cl_settings s0) \<noteq> 0) (tics i)"
  shows "\<exists>ds. delivered s1 = delivered s @ ds \<and> cw_start s1 = of_nat (length ds)
    \<and> (\<forall>k < length ds. length (fst (ds ! k)) = NET_MAXPLAYERS \<and> snd (ds ! k) = fc_playeringame (tics k)
         \<and> (\<forall>i. others s0 i \<and> fc_playeringame (tics k) ! i \<longrightarrow> fst (ds ! k) ! i = commands tics i (Suc k)))"
proof -
  have f0: "follows (delivered s0) tics 0 s0" "delivered s0 = delivered s" using start_follows [OF assms(1-3)] by simp_all
  obtain n where n: "follows (delivered s0) tics n s1" "keeps s0 s1" using plays_follows [OF assms(4) f0(1) assms(5)] by blast
  obtain ds where "delivered s1 = delivered s @ ds" "length ds = n" "\<forall>k < n. good_tic s1 tics k (ds ! k)" "cw_start s1 = of_nat n"
    using n(1) f0(2) by (auto simp: follows_def)
  then show ?thesis using keeps_others(2) [OF n(2)] by (intro exI [of _ ds]) (auto simp: good_tic_def)
qed

theorem client_delivers_witness:
  "\<exists>d ds. delivered played_client = d # ds \<and> snd d = fc_playeringame (game_tics 0)
    \<and> fst d ! 1 = commands game_tics 1 1"
proof -
  obtain ds where ds: "delivered played_client = delivered idle_client @ ds"
    "\<forall>k < length ds. length (fst (ds ! k)) = NET_MAXPLAYERS \<and> snd (ds ! k) = fc_playeringame (game_tics k)
         \<and> (\<forall>i. others game_client i \<and> fc_playeringame (game_tics k) ! i \<longrightarrow> fst (ds ! k) ! i = commands game_tics i (Suc k))"
    using client_delivers [OF game_starts _ _ sample_plays game_tics_ok] by auto
  then have "length ds \<noteq> 0" using sample_played by simp
  then have "snd (ds ! 0) = fc_playeringame (game_tics 0)" "fst (ds ! 0) ! 1 = commands game_tics 1 1"
    using ds(2) by (auto simp: game_tics_def)
  then show ?thesis using ds(1) \<open>length ds \<noteq> 0\<close> by (cases ds) auto
qed

text \<open>C12: The players see each other's commands: when every tic carries the difference of a player's
  command to the previous one, what the client hands on for that player is the very command.\<close>

theorem client_sees_commands:
  assumes "NET_CL_ParseGameStart p s = Inr s0" "client_state s \<noteq> CLIENT_STATE_IN_GAME"
    "client_state s0 = CLIENT_STATE_IN_GAME" "plays tics s0 s1"
    "\<And>i. full_ok (gs_lowres_turn (cl_settings s0) \<noteq> 0) (tics i)" "others s0 i"
    "\<And>k. fc_playeringame (tics k) ! i"
    "\<And>k. fc_cmds (tics k) ! i = NET_TiccmdDiff (case k of 0 \<Rightarrow> zero_ticcmd | Suc j \<Rightarrow> given j) (given k)"
  shows "\<exists>ds. delivered s1 = delivered s @ ds \<and> (\<forall>k < length ds. fst (ds ! k) ! i = given k)"
proof -
  have f0: "follows (delivered s0) tics 0 s0" "delivered s0 = delivered s" using start_follows [OF assms(1-3)] by simp_all
  obtain n where n: "follows (delivered s0) tics n s1" "keeps s0 s1" using plays_follows [OF assms(4) f0(1) assms(5)] by blast
  obtain ds where "delivered s1 = delivered s @ ds" "length ds = n" "\<forall>k < n. good_tic s1 tics k (ds ! k)"
    using n(1) f0(2) by (auto simp: follows_def)
  moreover have "others s1 i" using keeps_others(1) [OF n(2)] assms(6) by simp
  moreover have "commands tics i (Suc k) = given k" for k by (rule commands_given) (use assms(7,8) in simp_all)
  ultimately show ?thesis using assms(7) by (intro exI [of _ ds]) (simp add: good_tic_def)
qed

theorem client_sees_commands_witness:
  "\<exists>d ds. delivered played_client = d # ds \<and> fst d ! 1 = run_cmd"
proof -
  obtain ds where ds: "delivered played_client = delivered idle_client @ ds" "\<forall>k < length ds. fst (ds ! k) ! Suc 0 = run_cmd"
    using client_sees_commands [OF game_starts _ _ sample_plays game_tics_ok, of "Suc 0" "\<lambda>_. run_cmd"]
    by (auto simp: game_tics_def)
  then show ?thesis using sample_played by (cases ds) auto
qed

text \<open>C13: No tic is held back: a run of a connected client that gets game data with the next tic
  among it hands on that tic.\<close>

theorem client_hands_on_next:
  assumes "NET_CL_ParseGameStart p s = Inr s0" "client_state s \<noteq> CLIENT_STATE_IN_GAME"
    "client_state s0 = CLIENT_STATE_IN_GAME" "plays tics s0 s1"
    "\<And>i. full_ok (gs_lowres_turn (cl_settings s0) \<noteq> 0) (tics i)"
    "length (fc_cmds (ce_junk_cmd e)) = NET_MAXPLAYERS" "length (ce_junk_ticcmds e) = NET_MAXPLAYERS"
    "\<forall>addr q. (addr, q) \<in> set inbox \<and> Some addr = server_addr s1 \<longrightarrow>
       good_packet (gs_lowres_turn (cl_settings s1) \<noteq> 0) tics (length (delivered s1) - length (delivered s0)) q"
    "(addr, q) \<in> set inbox" "Some addr = server_addr s1" "net_client_connected s1"
    "next_tic (gs_lowres_turn (cl_settings s1) \<noteq> 0) tics (length (delivered s1) - length (delivered s0)) q"
    "NET_CL_Run e inbox s1 = Inr s2"
  shows "length (delivered s1) < length (delivered s2)"
proof -
  have f0: "follows (delivered s0) tics 0 s0" using start_follows [OF assms(1-3)] by simp
  obtain n where n: "follows (delivered s0) tics n s1" "keeps s0 s1" using plays_follows [OF assms(4) f0 assms(5)] by blast
  have count: "length (delivered s1) - length (delivered s0) = n" using n(1) by (auto simp: follows_def)
  have low: "gs_lowres_turn (cl_settings s1) = gs_lowres_turn (cl_settings s0)" using n(2) by (simp add: keeps_def)
  have "\<exists>n' \<ge> n. follows (delivered s0) tics n' s2 \<and> keeps s1 s2 \<and>
    (net_client_connected s1 \<and> (\<exists>addr p. (addr, p) \<in> set inbox \<and> Some addr = server_addr s1
       \<and> next_tic (gs_lowres_turn (cl_settings s1) \<noteq> 0) tics n p) \<longrightarrow> n < n')"
    using Run_follow [OF assms(8) [unfolded count] n(1) refl _ assms(6,7,13)] assms(5) unfolding low by blast
  then obtain n' where n': "follows (delivered s0) tics n' s2" "n < n'" using assms(9-12) unfolding count by blast
  have "length (delivered s2) = length (delivered s0) + n'" "length (delivered s1) = length (delivered s0) + n"
    using n(1) n'(1) by (auto simp: follows_def)
  then show ?thesis using n'(2) by simp
qed

theorem client_hands_on_next_witness: "0 < length (delivered played_client)"
proof -
  have "length (delivered game_client) < length (delivered played_client)"
    by (rule client_hands_on_next [OF game_starts _ _ plays_start game_tics_ok sample_env_ok, of "[(1, tic_packet)]"])
      (use played_run tic_packet_good in simp_all)
  then show ?thesis by simp
qed

subsection \<open>What stops the client\<close>

text \<open>C16: A retransmission request makes the client loop for ever exactly when the tics it asks for wrap
  around to the last number and the client has sent none yet. It never fails in another way.\<close>

theorem client_resend_request:
  "NET_CL_ParseResendRequest e p s = Inl f \<longleftrightarrow> f = Diverges \<and> \<not> drone s
     \<and> (\<exists>start num q q'. NET_ReadInt32 p = Some (start, q) \<and> NET_ReadInt8 q = Some (num, q') \<and> start + num = 0)
     \<and> (\<forall>t. \<not> holds_tic s t)"
  by (rule resend_request_result)






subsection \<open>Connecting and disconnecting\<close>




end
