(* ===== verification/D_Loop.thy ===== *)
theory D_Loop
  imports Net_Client
begin

text \<open>
  The game loop (\<open>engine/src/d_loop.c\<close>). The variables of the file are the fields of \<open>game_loop\<close>, with
  the static \<open>oldentertics\<close> of \<open>TryRunTics\<close>; \<open>lp_client\<close> is the client, whose \<open>offsetms\<close>, \<open>drone\<close> and
  \<open>net_client_connected\<close> the loop reads. Two fields are no variables: \<open>lp_runs\<close>, the calls made of
  \<open>RunTic\<close>, and \<open>lp_made\<close>, the commands built.

  \<open>loop_env\<close> is what one call of \<open>NetUpdate\<close> gets from outside: what the client gets, the time in
  milliseconds (\<open>I_GetTimeMS\<close>), the command that \<open>BuildTiccmd\<close> makes for a tic, and the time in tics
  (\<open>I_GetTime\<close>) once it has returned. The other callbacks are taken to leave the loop alone, and so
  is a server that runs in the same process.

  An \<open>int\<close> that overflows wraps around here; \<open>a % b\<close> of a negative number is not positive, which is
  out of bounds as an index unless it is 0.
\<close>

record ticcmd_set =
  ts_cmds :: "ticcmd list"
  ts_ingame :: "bool list"

record game_loop =
  ticdata :: "ticcmd_set list"
  maketic :: u32
  recvtic :: u32
  gametic :: u32
  singletics :: bool
  localplayer :: u32
  skiptics :: u32
  ticdup :: u32
  new_sync :: bool
  local_playeringame :: "bool list"
  player_class :: u32
  lasttime :: u32
  frameon :: u32
  frameskip :: "bool list"
  oldnettics :: u32
  oldentertics :: u32
  lp_client :: net_cl
  lp_runs :: "(ticcmd list \<times> bool list) list"
  lp_made :: "ticcmd list"

record loop_env =
  le_client :: cl_env
  le_inbox :: inbox
  le_ms :: u32
  le_cmd :: "u32 \<Rightarrow> ticcmd"
  le_tics :: u32

definition TICRATE :: u32 where "TICRATE = 35"
definition FRACUNIT :: u32 where "FRACUNIT = push_bit 16 1"
definition MAX_NETGAME_STALL_TICS :: u32 where "MAX_NETGAME_STALL_TICS = 5"
definition BT_SPECIAL :: u8 where "BT_SPECIAL = 128"

text \<open>Division by an \<open>int\<close> that may be zero; an index into \<open>ticdata\<close>.\<close>

definition divR :: "u32 \<Rightarrow> u32 \<Rightarrow> u32 res" where
  "divR a b = (if b = 0 then Inl DivByZero else Inr (c_div a b))"

definition ring_index :: "u32 \<Rightarrow> nat res" where
  "ring_index k = (if k <s 0 \<and> unat k mod BACKUPTICS \<noteq> 0 then Inl OutOfBounds else Inr (unat k mod BACKUPTICS))"

subsection \<open>Making and receiving tics\<close>

definition GetAdjustedTime :: "u32 \<Rightarrow> game_loop \<Rightarrow> u32" where
  "GetAdjustedTime time_ms s =
     (let time_ms = (if new_sync s then time_ms + c_div (offsetms (lp_client s)) FRACUNIT else time_ms)
      in c_div (time_ms * TICRATE) 1000)"

definition set_local :: "ticcmd \<Rightarrow> nat \<Rightarrow> ticcmd_set \<Rightarrow> ticcmd_set" where
  "set_local cmd i t = t\<lparr>ts_cmds := (ts_cmds t)[i := cmd], ts_ingame := (ts_ingame t)[i := True]\<rparr>"

definition BuildNewTic :: "loop_env \<Rightarrow> game_loop \<Rightarrow> (bool \<times> game_loop) res" where
  "BuildNewTic e s =
     bindR (divR (gametic s) (ticdup s)) (\<lambda>gameticdiv.
       let ahead = maketic s - gameticdiv; connected = net_client_connected (lp_client s)
       in if drone (lp_client s) then Inr (False, s)
          else if new_sync s \<and> \<not> connected \<and> 2 <s ahead then Inr (False, s)
          else if new_sync s \<and> 8 <s ahead then Inr (False, s)
          else if \<not> new_sync s \<and> 5 \<le>s ahead then Inr (False, s)
          else let cmd = le_cmd e (maketic s)
               in bindR (if connected then NET_CL_SendTiccmd (le_client e) cmd (maketic s) (lp_client s)
                         else Inr (lp_client s)) (\<lambda>c.
                  bindR (ring_index (maketic s)) (\<lambda>k.
                    if NET_MAXPLAYERS \<le> unat (localplayer s) then Inl OutOfBounds
                    else Inr (True, s\<lparr>lp_client := c, lp_made := lp_made s @ [cmd],
                           ticdata := (ticdata s)[k := set_local cmd (unat (localplayer s)) (ticdata s ! k)],
                           maketic := maketic s + 1\<rparr>))))"

definition D_Disconnected :: "game_loop \<Rightarrow> game_loop res" where
  "D_Disconnected s = (if drone (lp_client s) then Inl IError else Inr s)"

text \<open>The loop of \<open>D_ReceiveTic\<close> over the players, on one entry of \<open>ticdata\<close>.\<close>

fun recv_players :: "bool \<Rightarrow> u32 \<Rightarrow> ticcmd list \<Rightarrow> bool list \<Rightarrow> nat list \<Rightarrow> ticcmd_set \<Rightarrow> ticcmd_set" where
  "recv_players dr me ticcmds players_mask [] t = t"
| "recv_players dr me ticcmds players_mask (i # is) t =
     (if \<not> dr \<and> of_nat i = me then recv_players dr me ticcmds players_mask is t
      else recv_players dr me ticcmds players_mask is
             (t\<lparr>ts_cmds := (ts_cmds t)[i := ticcmds ! i], ts_ingame := (ts_ingame t)[i := players_mask ! i]\<rparr>))"

definition D_ReceiveTic :: "(ticcmd list \<times> bool list) option \<Rightarrow> game_loop \<Rightarrow> game_loop res" where
  "D_ReceiveTic x s =
     (case x of
        None \<Rightarrow> D_Disconnected s
      | Some (ticcmds, players_mask) \<Rightarrow>
          bindR (ring_index (recvtic s)) (\<lambda>k.
            Inr (s\<lparr>ticdata := (ticdata s)[k := recv_players (drone (lp_client s)) (localplayer s) ticcmds
                     players_mask [0..<NET_MAXPLAYERS] (ticdata s ! k)],
                   recvtic := recvtic s + 1\<rparr>)))"

text \<open>\<open>NET_CL_Run\<close> with the tics it hands on: \<open>D_ReceiveTic\<close> changes nothing the client uses.\<close>

definition loop_NET_CL_Run :: "cl_env \<Rightarrow> inbox \<Rightarrow> game_loop \<Rightarrow> game_loop res" where
  "loop_NET_CL_Run e inbox s =
     bindR (NET_CL_Run e inbox (lp_client s)) (\<lambda>c.
       foldR D_ReceiveTic (drop (length (cl_ticcalls (lp_client s))) (cl_ticcalls c)) (s\<lparr>lp_client := c\<rparr>))"

fun build_tics :: "loop_env \<Rightarrow> nat \<Rightarrow> game_loop \<Rightarrow> game_loop res" where
  "build_tics e 0 s = Inr s"
| "build_tics e (Suc n) s =
     bindR (BuildNewTic e s) (\<lambda>(more, s). if more then build_tics e n s else Inr s)"

definition NetUpdate :: "loop_env \<Rightarrow> game_loop \<Rightarrow> game_loop res" where
  "NetUpdate e s =
     (if singletics s then Inr s
      else bindR (loop_NET_CL_Run (le_client e) (le_inbox e) s) (\<lambda>s.
           bindR (divR (GetAdjustedTime (le_ms e) s) (ticdup s)) (\<lambda>nowtime.
             let newtics = nowtime - lasttime s;
                 s = s\<lparr>lasttime := nowtime\<rparr>;
                 (newtics, s) = (if skiptics s \<le>s newtics then (newtics - skiptics s, s\<lparr>skiptics := 0\<rparr>)
                                 else (0, s\<lparr>skiptics := skiptics s - newtics\<rparr>))
             in build_tics e (nat (sint newtics)) s)))"

definition D_StartGameLoop :: "u32 \<Rightarrow> game_loop \<Rightarrow> game_loop res" where
  "D_StartGameLoop time_ms s =
     bindR (divR (GetAdjustedTime time_ms s) (ticdup s)) (\<lambda>t. Inr (s\<lparr>lasttime := t\<rparr>))"

subsection \<open>Starting a game\<close>

text \<open>
  A round of the waiting loop: what the client gets in it, and the answer of the startup callback.
  \<open>None\<close>: still waiting after the last round.
\<close>

fun BlockUntilStart :: "(cl_env \<times> inbox \<times> bool) list \<Rightarrow> net_gamesettings \<Rightarrow> game_loop
    \<Rightarrow> (net_gamesettings \<times> game_loop) res option" where
  "BlockUntilStart rounds settings s =
     (case NET_CL_GetSettings (lp_client s) of
        Some settings \<Rightarrow> Some (Inr (settings, s))
      | None \<Rightarrow>
          case rounds of
            [] \<Rightarrow> None
          | (e, inbox, go_on) # rounds \<Rightarrow>
              case loop_NET_CL_Run e inbox s of
                Inl f \<Rightarrow> Some (Inl f)
              | Inr s \<Rightarrow> if \<not> net_client_connected (lp_client s) then Some (Inl IError)
                         else if \<not> go_on then Some (Inl IError)
                         else BlockUntilStart rounds settings s)"

declare BlockUntilStart.simps [simp del]

text \<open>The options \<open>-oldsync\<close>, \<open>-extratics\<close> and \<open>-dup\<close>, the last two with their numbers.\<close>

record loop_options =
  opt_oldsync :: bool
  opt_extratics :: "u32 option"
  opt_dup :: "u32 option"

definition start_settings :: "loop_options \<Rightarrow> net_gamesettings \<Rightarrow> game_loop \<Rightarrow> net_gamesettings" where
  "start_settings opts settings s =
     settings\<lparr>gs_consoleplayer := 0, gs_num_players := 1,
       gs_player_classes := (gs_player_classes settings)[0 := player_class s],
       gs_new_sync := (if opt_oldsync opts then 0 else 1),
       gs_extratics := (case opt_extratics opts of Some n \<Rightarrow> n | None \<Rightarrow> 1),
       gs_ticdup := (case opt_dup opts of Some n \<Rightarrow> n | None \<Rightarrow> 1)\<rparr>"

definition D_StartNetGame :: "loop_options \<Rightarrow> (cl_env \<times> inbox \<times> bool) list \<Rightarrow> net_gamesettings \<Rightarrow> game_loop
    \<Rightarrow> (net_gamesettings \<times> game_loop) res option" where
  "D_StartNetGame opts rounds settings s =
     (let s = s\<lparr>lp_client := (lp_client s)\<lparr>offsetms := 0\<rparr>, recvtic := 0\<rparr>;
          settings = start_settings opts settings s
      in map_option (\<lambda>r. bindR r (\<lambda>(settings, s).
           let settings = (if drone (lp_client s) then settings\<lparr>gs_consoleplayer := 0\<rparr> else settings)
           in Inr (settings, s\<lparr>localplayer := gs_consoleplayer settings,
                local_playeringame := map (\<lambda>i. of_nat i <s gs_num_players settings) [0..<NET_MAXPLAYERS],
                ticdup := gs_ticdup settings, new_sync := (gs_new_sync settings \<noteq> 0)\<rparr>)))
         (if net_client_connected (lp_client s)
          then case NET_CL_StartGame settings (lp_client s) of
                 Inl f \<Rightarrow> Some (Inl f)
               | Inr c \<Rightarrow> BlockUntilStart rounds settings (s\<lparr>lp_client := c\<rparr>)
          else Some (Inr (settings, s))))"

subsection \<open>Running tics\<close>

definition GetLowTic :: "game_loop \<Rightarrow> u32" where
  "GetLowTic s =
     (let lowtic = maketic s
      in if net_client_connected (lp_client s) \<and> (drone (lp_client s) \<or> recvtic s <s lowtic) then recvtic s
         else lowtic)"

text \<open>The first player in the game, the key player.\<close>

fun key_player :: "bool list \<Rightarrow> nat \<Rightarrow> nat option" where
  "key_player [] i = None"
| "key_player (b # bs) i = (if b then Some i else key_player bs (Suc i))"

definition OldNetSync :: "game_loop \<Rightarrow> game_loop" where
  "OldNetSync s =
     (let s = s\<lparr>frameon := frameon s + 1\<rparr>
      in case key_player (local_playeringame s) 0 of
           None \<Rightarrow> s
         | Some keyplayer \<Rightarrow>
             if localplayer s = of_nat keyplayer then s
             else let s = (if maketic s \<le>s recvtic s then s\<lparr>lasttime := lasttime s - 1\<rparr> else s);
                      s = s\<lparr>frameskip := (frameskip s)[unat (frameon s AND 3) := recvtic s <s oldnettics s],
                            oldnettics := maketic s\<rparr>
                  in if \<forall>b \<in> set (take 4 (frameskip s)). b then s\<lparr>skiptics := 1\<rparr> else s)"

definition PlayersInGame :: "game_loop \<Rightarrow> bool" where
  "PlayersInGame s \<longleftrightarrow> net_client_connected (lp_client s) \<and> (\<exists>b \<in> set (local_playeringame s). b)
     \<or> \<not> drone (lp_client s)"

definition squash_cmd :: "ticcmd \<Rightarrow> ticcmd" where
  "squash_cmd cmd =
     (let cmd = cmd\<lparr>chatchar := 0\<rparr>
      in if buttons cmd AND BT_SPECIAL \<noteq> 0 then cmd\<lparr>buttons := 0\<rparr> else cmd)"

definition TicdupSquash :: "ticcmd_set \<Rightarrow> ticcmd_set" where
  "TicdupSquash t = t\<lparr>ts_cmds := map squash_cmd (ts_cmds t)\<rparr>"

definition SinglePlayerClear :: "u32 \<Rightarrow> ticcmd_set \<Rightarrow> ticcmd_set" where
  "SinglePlayerClear me t =
     t\<lparr>ts_ingame := map (\<lambda>i. if of_nat i \<noteq> me then False else ts_ingame t ! i) [0..<NET_MAXPLAYERS]\<rparr>"

text \<open>The inner loop: a tic is run \<open>ticdup\<close> times, from entry \<open>k\<close>.\<close>

fun run_dup :: "nat \<Rightarrow> nat \<Rightarrow> u32 \<Rightarrow> game_loop \<Rightarrow> game_loop res" where
  "run_dup 0 k lowtic s = Inr s"
| "run_dup (Suc n) k lowtic s =
     (if lowtic <s c_div (gametic s) (ticdup s) then Inl IError
      else let t = ticdata s ! k
           in run_dup n k lowtic (s\<lparr>local_playeringame := ts_ingame t,
                lp_runs := lp_runs s @ [(ts_cmds t, ts_ingame t)], gametic := gametic s + 1,
                ticdata := (ticdata s)[k := TicdupSquash t]\<rparr>))"

definition run_one :: "u32 \<Rightarrow> game_loop \<Rightarrow> game_loop res" where
  "run_one lowtic s =
     bindR (divR (gametic s) (ticdup s)) (\<lambda>g.
     bindR (ring_index g) (\<lambda>k.
       let s = (if net_client_connected (lp_client s) then s
                else s\<lparr>ticdata := (ticdata s)[k := SinglePlayerClear (localplayer s) (ticdata s ! k)]\<rparr>)
       in run_dup (nat (sint (ticdup s))) k lowtic s))"

text \<open>
  \<open>TryRunTics\<close> goes through the calls of \<open>NetUpdate\<close> to come: \<open>None\<close> means that it is still going on
  after the last of them.
\<close>

fun run_tics :: "nat \<Rightarrow> u32 \<Rightarrow> loop_env list \<Rightarrow> game_loop \<Rightarrow> game_loop res option" where
  "run_tics 0 lowtic es s = Some (Inr s)"
| "run_tics (Suc n) lowtic es s =
     (if \<not> PlayersInGame s then Some (Inr s)
      else case run_one lowtic s of
             Inl f \<Rightarrow> Some (Inl f)
           | Inr s \<Rightarrow>
               case es of
                 [] \<Rightarrow> None
               | e # es \<Rightarrow> case NetUpdate e s of
                             Inl f \<Rightarrow> Some (Inl f)
                           | Inr s \<Rightarrow> run_tics n lowtic es s)"

text \<open>The waiting loop, and what follows it; \<open>counts\<close> is at least 1.\<close>

fun wait_tics :: "u32 \<Rightarrow> u32 \<Rightarrow> u32 \<Rightarrow> loop_env list \<Rightarrow> game_loop \<Rightarrow> game_loop res option" where
  "wait_tics entertic counts lowtic es s =
     (case divR (gametic s) (ticdup s) of
        Inl f \<Rightarrow> Some (Inl f)
      | Inr g \<Rightarrow>
          if PlayersInGame s \<and> \<not> lowtic <s g + counts then run_tics (nat (sint counts)) lowtic es s
          else case es of
                 [] \<Rightarrow> None
               | e # es \<Rightarrow>
                   case NetUpdate e s of
                     Inl f \<Rightarrow> Some (Inl f)
                   | Inr s \<Rightarrow>
                       let lowtic = GetLowTic s; g = c_div (gametic s) (ticdup s)
                       in if lowtic <s g then Some (Inl IError)
                          else if lowtic <s g + counts
                            \<and> MAX_NETGAME_STALL_TICS \<le>s c_div (le_tics e) (ticdup s) - entertic
                          then Some (Inr s)
                          else wait_tics entertic counts lowtic es s)"

declare wait_tics.simps [simp del]

definition tic_count :: "bool \<Rightarrow> u32 \<Rightarrow> u32 \<Rightarrow> u32" where
  "tic_count sync realtics availabletics =
     (let counts = (if sync then availabletics
                    else if realtics <s availabletics - 1 then realtics + 1
                    else if realtics <s availabletics then realtics
                    else availabletics)
      in if counts <s 1 then 1 else counts)"

definition TryRunTics :: "u32 \<Rightarrow> loop_env list \<Rightarrow> game_loop \<Rightarrow> game_loop res option" where
  "TryRunTics time es s =
     (case es of
        [] \<Rightarrow> None
      | e # es \<Rightarrow>
          let r = bindR (divR time (ticdup s)) (\<lambda>entertic.
                let realtics = entertic - oldentertics s;
                    s = s\<lparr>oldentertics := entertic\<rparr>
                in bindR (if singletics s then bindR (BuildNewTic e s) (\<lambda>(_, s). Inr s) else NetUpdate e s) (\<lambda>s.
                   let lowtic = GetLowTic s;
                       counts = tic_count (new_sync s) realtics (lowtic - c_div (gametic s) (ticdup s));
                       s = (if \<not> new_sync s \<and> net_client_connected (lp_client s) then OldNetSync s else s)
                   in Inr (entertic, counts, lowtic, s)))
          in case r of
               Inl f \<Rightarrow> Some (Inl f)
             | Inr (entertic, counts, lowtic, s) \<Rightarrow> wait_tics entertic counts lowtic es s)"

end
