(* ===== verification/D_Loop_Lockstep.thy ===== *)
theory D_Loop_Lockstep
  imports D_Loop Net_Client_Link Net_Client_Game
begin

text \<open>
  Lockstep: in a network game every tic is run with the commands the client handed on for it and the
  command built for it, however the calls of the loop fall.
\<close>

subsection \<open>The client under the loop\<close>

interpretation calls: client_view cl_ticcalls
  by unfold_locales simp_all

interpretation role: client_view drone
  by unfold_locales simp_all

definition somes :: "'a option list \<Rightarrow> 'a list" where
  "somes xs = concat (map (\<lambda>x. case x of None \<Rightarrow> [] | Some y \<Rightarrow> [y]) xs)"

lemma somes_simps [simp]: "somes [] = []" "somes (None # xs) = somes xs" "somes (Some x # xs) = x # somes xs"
  "somes (xs @ ys) = somes xs @ somes ys"
  by (simp_all add: somes_def)

lemma delivered_somes: "delivered c = somes (cl_ticcalls c)"
  by (simp add: delivered_def somes_def)

lemma advance_window_calls:
  "(\<exists>new. cl_ticcalls (advance_window ticcmds s) = cl_ticcalls s @ new) \<and> drone (advance_window ticcmds s) = drone s
   \<and> net_client_connected (advance_window ticcmds s) = net_client_connected s"
proof (induction ticcmds s rule: advance_window.induct)
  case (1 ticcmds s)
  obtain ticcmds' s' where a: "advance_tic ticcmds s = (ticcmds', s')" by fastforce
  then have "\<exists>x. cl_ticcalls s' = cl_ticcalls s @ [x]" "drone s' = drone s" "net_client_connected s' = net_client_connected s"
    by (auto simp: advance_tic_def NET_CL_ExpandFullTiccmd_def split_def Let_def)
  then show ?case using 1 [OF _ a [symmetric]] a by (subst (1 2 3) advance_window.simps) auto
qed

lemma Run_calls:
  assumes "NET_CL_Run e inbox c = Inr c'"
  shows "(\<exists>new. cl_ticcalls c' = cl_ticcalls c @ new) \<and> drone c' = drone c
    \<and> (net_client_connected c' \<longrightarrow> net_client_connected c)"
proof (cases "net_client_connected c")
  case False
  then show ?thesis using assms by (simp add: NET_CL_Run_def)
next
  case True
  obtain s1 where s1: "foldR (cl_receive_one e) inbox c = Inr s1"
    using assms True by (auto simp: NET_CL_Run_def bindR_def split: sum.splits)
  define s2 where "s2 = cl_connection_op (NET_Conn_Run (ce_now e)) s1"
  define s3 where "s3 = (if cl_ended s2 then NET_CL_Shutdown (NET_CL_Disconnected s2) else s2)"
  define s4 where "s4 = s3\<lparr>net_waiting_for_launch := cn_state (client_connection s3) = NET_CONN_STATE_CONNECTED
                  \<and> client_state s3 = CLIENT_STATE_WAITING_LAUNCH\<rparr>"
  have c': "c' = (if client_state s4 = CLIENT_STATE_IN_GAME
      then NET_CL_CheckResends e (NET_CL_AdvanceWindow e s4) else s4)"
    using assms True s1 unfolding NET_CL_Run_def s4_def s3_def s2_def by (simp add: Let_def)
  have "cl_ticcalls s2 = cl_ticcalls c" "drone s2 = drone c"
    using calls.view_receive [OF s1] role.view_receive [OF s1] by (simp_all add: s2_def)
  then have "\<exists>new. cl_ticcalls s4 = cl_ticcalls c @ new" "drone s4 = drone c"
    by (simp_all add: s4_def s3_def NET_CL_Shutdown_def NET_CL_Disconnected_def)
  then show ?thesis
    using True advance_window_calls [of "ce_junk_ticcmds e" s4] by (auto simp: c' NET_CL_AdvanceWindow_def)
qed

subsection \<open>Counters\<close>

lemma c_div_nat:
  assumes "a < 2147483648" "b < 2147483648"
  shows "c_div (of_nat a) (of_nat b) = of_nat (a div b)"
proof (cases "a = 0 \<or> b = 0")
  case True
  then show ?thesis by (auto simp: c_div_def c_quot_def)
next
  case False
  then show ?thesis using assms by (simp add: c_div_def c_quot_def sint_nat zdiv_int [symmetric])
qed

lemma ring_index_nat: "n < 2147483648 \<Longrightarrow> ring_index (of_nat n) = Inr (n mod BACKUPTICS)"
  by (simp add: ring_index_def word_sless_alt sint_nat unat_of_nat_small)

lemma nat_0: "n < 2147483648 \<Longrightarrow> (of_nat n = (0 :: u32)) = (n = 0)"
  using sint_nat [of n] by auto

lemma sless_nat: "a < 2147483648 \<Longrightarrow> b < 2147483648 \<Longrightarrow> (of_nat a <s (of_nat b :: u32)) = (a < b)"
  by (simp add: word_sless_alt sint_nat)

lemma sle_nat: "a < 2147483648 \<Longrightarrow> b < 2147483648 \<Longrightarrow> (of_nat a \<le>s (of_nat b :: u32)) = (a \<le> b)"
  by (simp add: word_sle_eq sint_nat)

subsection \<open>The entries of the ring\<close>

definition squashed :: "bool \<Rightarrow> ticcmd \<Rightarrow> ticcmd" where
  "squashed q c = (if q then squash_cmd c else c)"

lemma squash_twice [simp]: "squash_cmd (squash_cmd c) = squash_cmd c"
  by (simp add: squash_cmd_def Let_def)

text \<open>
  The commands and players \<open>x\<close> of tic \<open>k\<close>, for the player \<open>me\<close> or a drone, given the tics received
  and the commands made; \<open>q\<close> says whether the tic is run again.
\<close>

definition tic_ok :: "bool \<Rightarrow> nat \<Rightarrow> (ticcmd list \<times> bool list) list \<Rightarrow> ticcmd list \<Rightarrow> nat \<Rightarrow> bool
    \<Rightarrow> ticcmd list \<times> bool list \<Rightarrow> bool" where
  "tic_ok dr me recs made k q x \<longleftrightarrow> length (fst x) = NET_MAXPLAYERS \<and> length (snd x) = NET_MAXPLAYERS
     \<and> (k < length recs \<longrightarrow> (\<forall>i < NET_MAXPLAYERS. dr \<or> i \<noteq> me \<longrightarrow>
          fst x ! i = squashed q (fst (recs ! k) ! i) \<and> snd x ! i = snd (recs ! k) ! i))
     \<and> (\<not> dr \<and> k < length made \<longrightarrow> fst x ! me = squashed q (made ! k) \<and> snd x ! me)"

definition set_pair :: "ticcmd_set \<Rightarrow> ticcmd list \<times> bool list" where
  "set_pair t = (ts_cmds t, ts_ingame t)"

lemma NET_MAXPLAYERS_small: "NET_MAXPLAYERS < 4294967296"
  by (simp add: NET_MAXPLAYERS_def)

lemma player_eq:
  assumes "i < NET_MAXPLAYERS" "j < NET_MAXPLAYERS"
  shows "of_nat i = (of_nat j :: u32) \<longleftrightarrow> i = j"
  using assms unat_of_nat_small [of i] unat_of_nat_small [of j]
  by (metis NET_MAXPLAYERS_small less_trans)

text \<open>Entry \<open>u\<close> is \<open>t\<close> with the commands of the players in \<open>J\<close>, except for the player \<open>me\<close>.\<close>

definition fed :: "bool \<Rightarrow> nat \<Rightarrow> ticcmd list \<Rightarrow> bool list \<Rightarrow> nat set \<Rightarrow> ticcmd_set \<Rightarrow> ticcmd_set \<Rightarrow> bool" where
  "fed dr me ticcmds players_mask J t u \<longleftrightarrow> length (ts_cmds u) = NET_MAXPLAYERS \<and> length (ts_ingame u) = NET_MAXPLAYERS
     \<and> (\<forall>i < NET_MAXPLAYERS. i \<in> J \<and> (dr \<or> i \<noteq> me) \<longrightarrow> ts_cmds u ! i = ticcmds ! i \<and> ts_ingame u ! i = players_mask ! i)
     \<and> (\<forall>i < NET_MAXPLAYERS. i \<notin> J \<or> \<not> dr \<and> i = me \<longrightarrow> ts_cmds u ! i = ts_cmds t ! i \<and> ts_ingame u ! i = ts_ingame t ! i)"

lemma recv_players_fed:
  assumes "distinct is" "\<And>i. i \<in> set is \<Longrightarrow> i < NET_MAXPLAYERS" "me < NET_MAXPLAYERS"
    "length (ts_cmds t) = NET_MAXPLAYERS" "length (ts_ingame t) = NET_MAXPLAYERS"
  shows "fed dr me ticcmds players_mask (set is) t (recv_players dr (of_nat me) ticcmds players_mask is t)"
  using assms(1,2,4,5)
proof (induction "is" arbitrary: t)
  case Nil
  then show ?case by (simp add: fed_def)
next
  case (Cons i "is")
  have i: "i < NET_MAXPLAYERS" "i \<notin> set is" using Cons.prems by auto
  show ?case
  proof (cases "\<not> dr \<and> i = me")
    case True
    then have "recv_players dr (of_nat me) ticcmds players_mask (i # is) t
        = recv_players dr (of_nat me) ticcmds players_mask is t" by simp
    moreover have "fed dr me ticcmds players_mask (set is) t (recv_players dr (of_nat me) ticcmds players_mask is t)"
      using Cons.prems by (intro Cons.IH) simp_all
    ultimately show ?thesis using True unfolding fed_def by auto
  next
    case False
    let ?t = "t\<lparr>ts_cmds := (ts_cmds t)[i := ticcmds ! i], ts_ingame := (ts_ingame t)[i := players_mask ! i]\<rparr>"
    have "\<not> (\<not> dr \<and> of_nat i = (of_nat me :: u32))" using False player_eq [OF i(1) assms(3)] by blast
    then have eq: "recv_players dr (of_nat me) ticcmds players_mask (i # is) t
        = recv_players dr (of_nat me) ticcmds players_mask is ?t" by (simp only: recv_players.simps if_False)
    define u where "u = recv_players dr (of_nat me) ticcmds players_mask is ?t"
    have f: "fed dr me ticcmds players_mask (set is) ?t u"
      unfolding u_def using Cons.prems by (intro Cons.IH) simp_all
    have "ts_cmds ?t ! i = ticcmds ! i" "ts_ingame ?t ! i = players_mask ! i"
      "\<And>j. j \<noteq> i \<Longrightarrow> ts_cmds ?t ! j = ts_cmds t ! j \<and> ts_ingame ?t ! j = ts_ingame t ! j"
      using Cons.prems(3,4) i(1) by simp_all
    then have "fed dr me ticcmds players_mask (set (i # is)) t u"
      using f i False unfolding fed_def by (metis set_ConsD list.set_intros)
    then show ?thesis unfolding eq u_def .
  qed
qed

subsection \<open>The invariant\<close>

text \<open>
  The loop with \<open>d\<close> runs of each tic, the player \<open>me\<close> (or a drone), the tics received, and \<open>g\<close> tics run.
\<close>

definition lock :: "nat \<Rightarrow> bool \<Rightarrow> nat \<Rightarrow> (ticcmd list \<times> bool list) list \<Rightarrow> nat \<Rightarrow> game_loop \<Rightarrow> bool" where
  "lock d dr me recs g s \<longleftrightarrow> 0 < d \<and> me < NET_MAXPLAYERS \<and> ticdup s = of_nat d \<and> localplayer s = of_nat me
     \<and> drone (lp_client s) = dr \<and> \<not> singletics s \<and> length (ticdata s) = BACKUPTICS
     \<and> recvtic s = of_nat (length recs) \<and> maketic s = of_nat (length (lp_made s)) \<and> gametic s = of_nat (d * g)
     \<and> g \<le> length recs \<and> length recs \<le> g + BACKUPTICS \<and> (\<not> dr \<longrightarrow> g \<le> length (lp_made s) \<and> length (lp_made s) \<le> g + 9) \<and> length (lp_runs s) = d * g
     \<and> (\<forall>k. g \<le> k \<and> k < g + BACKUPTICS \<longrightarrow> tic_ok dr me recs (lp_made s) k False (set_pair (ticdata s ! (k mod BACKUPTICS))))
     \<and> (\<forall>j < d * g. tic_ok dr me recs (lp_made s) (j div d) (j mod d \<noteq> 0) (lp_runs s ! j))"

text \<open>Numbers that stay below the sign bit.\<close>

definition small :: "nat \<Rightarrow> nat \<Rightarrow> bool" where
  "small d n \<longleftrightarrow> d * (n + 16) < 2147483648"

lemma small_mono: "small d n \<Longrightarrow> m \<le> n \<Longrightarrow> small d m"
  unfolding small_def by (rule le_less_trans [OF mult_le_mono2]) simp_all

lemma small_le: "small d n \<Longrightarrow> 0 < d \<Longrightarrow> k \<le> n + 16 \<Longrightarrow> k < 2147483648 \<and> d * k < 2147483648"
  using mult_le_mono2 [of k "n + 16" d] by (cases d) (simp_all add: small_def)

lemma same_slot:
  fixes k g n :: nat
  assumes "g \<le> k" "k < g + n" "g \<le> l" "l < g + n"
  shows "k mod n = l mod n \<longleftrightarrow> k = l"
proof -
  have "k mod n = l mod n \<Longrightarrow> k \<le> l \<Longrightarrow> k = l" if "g \<le> k" "k < g + n" "g \<le> l" "l < g + n" for k l :: nat
  proof -
    assume "k mod n = l mod n" "k \<le> l"
    then have "n dvd l - k" by (metis mod_eq_dvd_iff_nat)
    then show "k = l" using that \<open>k \<le> l\<close> dvd_imp_le [of n "l - k"] by (cases "l - k = 0") auto
  qed
  then show ?thesis using assms by (metis nat_le_linear)
qed

lemma tic_ok_recs: "tic_ok dr me recs made k q x \<Longrightarrow> k \<noteq> length recs \<Longrightarrow> tic_ok dr me (recs @ [r]) made k q x"
  by (auto simp: tic_ok_def nth_append)

lemma tic_ok_made: "tic_ok dr me recs made k q x \<Longrightarrow> k \<noteq> length made \<Longrightarrow> tic_ok dr me recs (made @ [c]) k q x"
  by (auto simp: tic_ok_def nth_append)

lemma ReceiveTic_lock:
  assumes "lock d dr me recs g s" "length recs < g + BACKUPTICS" "small d (length recs)"
  shows "\<exists>s'. D_ReceiveTic (Some r) s = Inr s' \<and> lock d dr me (recs @ [r]) g s' \<and> lp_client s' = lp_client s"
proof -
  let ?n = "length recs"
  obtain ticcmds players_mask where r: "r = (ticcmds, players_mask)" by fastforce
  have l: "0 < d" "me < NET_MAXPLAYERS" "length (ticdata s) = BACKUPTICS" "recvtic s = of_nat ?n" "g \<le> ?n"
    "localplayer s = of_nat me" "drone (lp_client s) = dr"
    using assms(1) by (simp_all add: lock_def)
  have entries: "tic_ok dr me recs (lp_made s) k False (set_pair (ticdata s ! (k mod BACKUPTICS)))"
    if "g \<le> k" "k < g + BACKUPTICS" for k using assms(1) that unfolding lock_def by blast
  have runs: "tic_ok dr me recs (lp_made s) (j div d) (j mod d \<noteq> 0) (lp_runs s ! j)" if "j < d * g" for j
    using assms(1) that unfolding lock_def by blast
  have ring: "ring_index (recvtic s) = Inr (?n mod BACKUPTICS)"
    using small_le [OF assms(3) l(1), of ?n] l(4) by (simp add: ring_index_nat)
  let ?t = "ticdata s ! (?n mod BACKUPTICS)"
  define t' where "t' = recv_players dr (of_nat me) ticcmds players_mask [0..<NET_MAXPLAYERS] ?t"
  let ?s = "s\<lparr>ticdata := (ticdata s)[?n mod BACKUPTICS := t'], recvtic := recvtic s + 1\<rparr>"
  have eq: "D_ReceiveTic (Some r) s = Inr ?s"
    by (simp add: D_ReceiveTic_def r ring t'_def l(6,7))
  have old: "tic_ok dr me recs (lp_made s) ?n False (set_pair ?t)" using entries assms(2) l(5) by simp
  have new: "tic_ok dr me (recs @ [r]) (lp_made s) ?n False (set_pair t')"
    using recv_players_fed [of "[0..<NET_MAXPLAYERS]" me ?t dr ticcmds players_mask, folded t'_def] old l(2)
    by (auto simp: tic_ok_def set_pair_def r squashed_def nth_append fed_def)
  have "lock d dr me (recs @ [r]) g ?s"
    unfolding lock_def
  proof (intro conjI allI impI)
    fix k assume k: "g \<le> k \<and> k < g + BACKUPTICS"
    show "tic_ok dr me (recs @ [r]) (lp_made ?s) k False (set_pair (ticdata ?s ! (k mod BACKUPTICS)))"
    proof (cases "k = ?n")
      case True
      then show ?thesis using new l(3) by (simp add: BACKUPTICS_def)
    next
      case False
      then have "k mod BACKUPTICS \<noteq> ?n mod BACKUPTICS" using same_slot [of g k BACKUPTICS ?n] k l(5) assms(2) by simp
      then show ?thesis using tic_ok_recs [OF entries False] k by simp
    qed
  next
    fix j assume j: "j < d * g"
    then have "j div d < g" by (simp add: less_mult_imp_div_less mult.commute)
    then show "tic_ok dr me (recs @ [r]) (lp_made ?s) (j div d) (j mod d \<noteq> 0) (lp_runs ?s ! j)"
      using tic_ok_recs [OF runs [OF j]] l(5) by simp
  qed (use assms(1,2) in \<open>simp_all add: lock_def\<close>)
  then show ?thesis using eq by simp
qed

lemma receive_lock:
  assumes "lock d dr me recs g s" "length recs + length (somes xs) \<le> g + BACKUPTICS"
    "small d (length recs + length (somes xs))" "foldR D_ReceiveTic xs s = Inr s'"
  shows "lock d dr me (recs @ somes xs) g s' \<and> lp_client s' = lp_client s"
  using assms
proof (induction xs arbitrary: recs s)
  case Nil
  then show ?case by simp
next
  case (Cons x xs)
  show ?case
  proof (cases x)
    case None
    have "D_ReceiveTic None s = (if drone (lp_client s) then Inl IError else Inr s)"
      by (simp add: D_ReceiveTic_def D_Disconnected_def)
    then have "foldR D_ReceiveTic xs s = Inr s'" using Cons.prems(4) None by (simp split: if_splits)
    then show ?thesis using Cons.IH [OF Cons.prems(1)] Cons.prems(2,3) None by simp
  next
    case (Some r)
    have "small d (length recs)" by (rule small_mono [OF Cons.prems(3)]) simp
    then obtain s1 where s1: "D_ReceiveTic (Some r) s = Inr s1" "lock d dr me (recs @ [r]) g s1" "lp_client s1 = lp_client s"
      using ReceiveTic_lock [OF Cons.prems(1)] Cons.prems(2) Some by fastforce
    then show ?thesis using Cons.IH [OF s1(2)] Cons.prems(2-4) Some by simp
  qed
qed

subsection \<open>Making tics\<close>

lemma gameticdiv:
  assumes "lock d dr me recs g s" "small d (length recs)"
  shows "divR (gametic s) (ticdup s) = Inr (of_nat g)" "c_div (gametic s) (ticdup s) = of_nat g"
proof -
  have l: "0 < d" "gametic s = of_nat (d * g)" "ticdup s = of_nat d" "g \<le> length recs" using assms(1) by (simp_all add: lock_def)
  have b: "d * g < 2147483648" "d * 1 < 2147483648"
    using small_le [OF assms(2) l(1), of g] small_le [OF assms(2) l(1), of 1] l(4) by simp_all
  then have "c_div (gametic s) (ticdup s) = of_nat ((d * g) div d)" unfolding l(2,3) by (intro c_div_nat) simp_all
  then show c: "c_div (gametic s) (ticdup s) = of_nat g" using l(1) by simp
  have "ticdup s \<noteq> 0" using nat_0 [of d] b l(1,3) by simp
  then show "divR (gametic s) (ticdup s) = Inr (of_nat g)" by (simp add: divR_def c)
qed

lemma SendTiccmd_ok:
  assumes "k < 2147483648"
  shows "\<exists>c'. NET_CL_SendTiccmd e cmd (of_nat k) c = Inr c' \<and> same_game c c' \<and> cl_ticcalls c' = cl_ticcalls c
    \<and> net_client_connected c' = net_client_connected c"
proof -
  have "\<not> ((of_nat k :: u32) <s 0 \<and> unat (of_nat k :: u32) mod BACKUPTICS \<noteq> 0)"
    using assms by (simp add: word_sless_alt sint_nat)
  then obtain c' where c': "NET_CL_SendTiccmd e cmd (of_nat k) c = Inr c'" by (simp add: NET_CL_SendTiccmd_def Let_def)
  then show ?thesis
    using same_game_SendTiccmd [OF c'] calls.view_SendTiccmd [OF c'] link.view_SendTiccmd [OF c'] by (simp add: link_def)
qed

lemma BuildNewTic_lock:
  assumes "lock d dr me recs g s" "small d (length recs)"
  shows "\<exists>more s'. BuildNewTic e s = Inr (more, s') \<and> lock d dr me recs g s'
    \<and> cl_ticcalls (lp_client s') = cl_ticcalls (lp_client s)
    \<and> net_client_connected (lp_client s') = net_client_connected (lp_client s)
    \<and> (\<exists>new. lp_made s' = lp_made s @ new)"
proof (cases dr)
  case True
  then have "BuildNewTic e s = Inr (False, s)"
    using assms(1) gameticdiv(1) [OF assms] by (simp add: BuildNewTic_def lock_def Let_def)
  then show ?thesis using assms(1) by auto
next
  case False
  let ?M = "length (lp_made s)" and ?n = "length recs"
  have l: "0 < d" "me < NET_MAXPLAYERS" "length (ticdata s) = BACKUPTICS" "maketic s = of_nat ?M" "g \<le> ?n"
    "localplayer s = of_nat me" "drone (lp_client s) = False" "g \<le> ?M" "?M \<le> g + 9"
    using assms(1) False by (simp_all add: lock_def)
  have M: "?M < 2147483648" using small_le [OF assms(2) l(1), of ?M] l(5,9) by simp
  have ahead: "maketic s - of_nat g = of_nat (?M - g)" using l(4,8) by (simp add: of_nat_diff)
  show ?thesis
  proof (cases "\<exists>b. BuildNewTic e s = Inr (b, s)")
    case True
    then show ?thesis using assms(1) by auto
  next
    case go: False
    have "BuildNewTic e s = Inr (False, s)"
      if "new_sync s \<and> 8 <s maketic s - of_nat g \<or> \<not> new_sync s \<and> 5 \<le>s maketic s - of_nat g
        \<or> new_sync s \<and> \<not> net_client_connected (lp_client s) \<and> 2 <s maketic s - of_nat g"
      using that gameticdiv(1) [OF assms] l(7) by (auto simp: BuildNewTic_def Let_def)
    then have guards: "\<not> (new_sync s \<and> 8 <s maketic s - of_nat g)" "\<not> (\<not> new_sync s \<and> 5 \<le>s maketic s - of_nat g)"
      "\<not> (new_sync s \<and> \<not> net_client_connected (lp_client s) \<and> 2 <s maketic s - of_nat g)"
      using go by blast+
    have room: "?M < g + 9"
    proof (rule ccontr)
      assume "\<not> ?M < g + 9"
      then have "?M - g = 9" using l(9) by simp
      then show False using guards(1,2) unfolding ahead by (cases "new_sync s") (simp_all add: word_sless_alt word_sle_eq)
    qed
    define cmd where "cmd = le_cmd e (maketic s)"
    define c where "c = (if net_client_connected (lp_client s)
        then NET_CL_SendTiccmd (le_client e) cmd (maketic s) (lp_client s) else Inr (lp_client s))"
    obtain c' where c': "c = Inr c'" "same_game (lp_client s) c'" "cl_ticcalls c' = cl_ticcalls (lp_client s)"
      "net_client_connected c' = net_client_connected (lp_client s)"
      using SendTiccmd_ok [OF M, of "le_client e" cmd "lp_client s"] unfolding c_def l(4) by auto
    have ring: "ring_index (maketic s) = Inr (?M mod BACKUPTICS)" unfolding l(4) by (rule ring_index_nat [OF M])
    have me: "unat (localplayer s) = me" "\<not> NET_MAXPLAYERS \<le> unat (localplayer s)"
      using l(2,6) unat_of_nat_small [of me] by (simp_all add: NET_MAXPLAYERS_def)
    let ?t = "ticdata s ! (?M mod BACKUPTICS)"
    let ?s = "s\<lparr>lp_client := c', lp_made := lp_made s @ [cmd],
                ticdata := (ticdata s)[?M mod BACKUPTICS := set_local cmd me ?t], maketic := maketic s + 1\<rparr>"
    have eq: "BuildNewTic e s = Inr (True, ?s)"
      unfolding BuildNewTic_def gameticdiv(1) [OF assms] bindR_Inr Let_def cmd_def [symmetric] c_def [symmetric] c'(1) ring
      using guards l(7) me by (simp split: if_splits)
    have entries: "tic_ok dr me recs (lp_made s) k False (set_pair (ticdata s ! (k mod BACKUPTICS)))"
      if "g \<le> k" "k < g + BACKUPTICS" for k using assms(1) that unfolding lock_def by blast
    have runs: "tic_ok dr me recs (lp_made s) (j div d) (j mod d \<noteq> 0) (lp_runs s ! j)" if "j < d * g" for j
      using assms(1) that unfolding lock_def by blast
    have old: "tic_ok dr me recs (lp_made s) ?M False (set_pair ?t)" using entries l(8) room by (simp add: BACKUPTICS_def)
    have new: "tic_ok dr me recs (lp_made s @ [cmd]) ?M False (set_pair (set_local cmd me ?t))"
      using old l(2) False by (auto simp: tic_ok_def set_pair_def set_local_def squashed_def nth_list_update)
    have "lock d dr me recs g ?s"
      unfolding lock_def
    proof (intro conjI allI impI)
      fix k assume k: "g \<le> k \<and> k < g + BACKUPTICS"
      show "tic_ok dr me recs (lp_made ?s) k False (set_pair (ticdata ?s ! (k mod BACKUPTICS)))"
      proof (cases "k = ?M")
        case True
        then show ?thesis using new l(3) by (simp add: BACKUPTICS_def)
      next
        case other: False
        then have "k mod BACKUPTICS \<noteq> ?M mod BACKUPTICS"
          using same_slot [of g k BACKUPTICS ?M] k l(8) room by (simp add: BACKUPTICS_def)
        then show ?thesis using tic_ok_made [OF entries other] k by simp
      qed
    next
      fix j assume j: "j < d * g"
      then have "j div d < g" by (simp add: less_mult_imp_div_less mult.commute)
      then show "tic_ok dr me recs (lp_made ?s) (j div d) (j mod d \<noteq> 0) (lp_runs ?s ! j)"
        using tic_ok_made [OF runs [OF j]] l(8) by simp
    qed (use assms(1) room c'(2) in \<open>simp_all add: lock_def same_game_def\<close>)
    then show ?thesis using eq c'(3,4) by auto
  qed
qed

lemma build_tics_lock:
  assumes "lock d dr me recs g s" "small d (length recs)"
  shows "\<exists>s'. build_tics e n s = Inr s' \<and> lock d dr me recs g s' \<and> cl_ticcalls (lp_client s') = cl_ticcalls (lp_client s)
    \<and> net_client_connected (lp_client s') = net_client_connected (lp_client s) \<and> (\<exists>new. lp_made s' = lp_made s @ new)"
  using assms
proof (induction n arbitrary: s)
  case 0
  then show ?case by simp
next
  case (Suc n)
  obtain more s1 where s1: "BuildNewTic e s = Inr (more, s1)" "lock d dr me recs g s1"
    "cl_ticcalls (lp_client s1) = cl_ticcalls (lp_client s)"
    "net_client_connected (lp_client s1) = net_client_connected (lp_client s)" "\<exists>new. lp_made s1 = lp_made s @ new"
    using BuildNewTic_lock [OF Suc.prems] by blast
  show ?case
  proof (cases more)
    case True
    obtain s2 where "build_tics e n s1 = Inr s2" "lock d dr me recs g s2"
      "cl_ticcalls (lp_client s2) = cl_ticcalls (lp_client s1)"
      "net_client_connected (lp_client s2) = net_client_connected (lp_client s1)" "\<exists>new. lp_made s2 = lp_made s1 @ new"
      using Suc.IH [OF s1(2) Suc.prems(2)] by blast
    then show ?thesis using s1 True by auto
  next
    case False
    then show ?thesis using s1 by auto
  qed
qed

subsection \<open>Updates\<close>

text \<open>The loop with the client's tics since the start of the game, after \<open>before\<close>.\<close>

definition in_step :: "nat \<Rightarrow> bool \<Rightarrow> nat \<Rightarrow> (ticcmd list \<times> bool list) list \<Rightarrow> nat \<Rightarrow> game_loop \<Rightarrow> bool" where
  "in_step d dr me before g s \<longleftrightarrow> (\<exists>recs. delivered (lp_client s) = before @ recs \<and> lock d dr me recs g s)"

definition received :: "(ticcmd list \<times> bool list) list \<Rightarrow> game_loop \<Rightarrow> nat" where
  "received before s = length (delivered (lp_client s)) - length before"

definition grown :: "game_loop \<Rightarrow> game_loop \<Rightarrow> bool" where
  "grown s s' \<longleftrightarrow> (\<exists>new. delivered (lp_client s') = delivered (lp_client s) @ new)
     \<and> (\<exists>new. lp_made s' = lp_made s @ new)
     \<and> (net_client_connected (lp_client s') \<longrightarrow> net_client_connected (lp_client s))"

lemma grown_refl [simp]: "grown s s"
  by (simp add: grown_def)

lemma grown_trans: "grown a b \<Longrightarrow> grown b c \<Longrightarrow> grown a c"
  unfolding grown_def by (metis append.assoc)

lemma grown_received: "grown s s' \<Longrightarrow> received before s \<le> received before s'"
  by (auto simp: grown_def received_def)

lemma grown_made: "grown s s' \<Longrightarrow> length (lp_made s) \<le> length (lp_made s')"
  by (auto simp: grown_def)

lemma in_step_received: "in_step d dr me before g s \<Longrightarrow> g \<le> received before s"
  by (auto simp: in_step_def received_def lock_def)

lemma lock_quiet:
  "lock d dr me recs g (s\<lparr>lasttime := t\<rparr>) = lock d dr me recs g s" "lock d dr me recs g (s\<lparr>skiptics := t\<rparr>) = lock d dr me recs g s"
  "lock d dr me recs g (s\<lparr>oldentertics := t\<rparr>) = lock d dr me recs g s" "lock d dr me recs g (s\<lparr>frameon := t\<rparr>) = lock d dr me recs g s"
  "lock d dr me recs g (s\<lparr>frameskip := fs\<rparr>) = lock d dr me recs g s" "lock d dr me recs g (s\<lparr>oldnettics := t\<rparr>) = lock d dr me recs g s"
  by (simp_all add: lock_def)

lemma ReceiveTic_same: "D_ReceiveTic x s = Inr s' \<Longrightarrow> lp_client s' = lp_client s \<and> lp_made s' = lp_made s"
  by (cases x) (auto simp: D_ReceiveTic_def D_Disconnected_def bindR_eq_Inr split: if_splits)

lemma client_run_lock:
  assumes "in_step d dr me before g s" "loop_NET_CL_Run e inbox s = Inr s'"
    "received before s' \<le> g + BACKUPTICS" "small d (received before s')"
  shows "in_step d dr me before g s' \<and> grown s s'"
proof -
  obtain recs where recs: "delivered (lp_client s) = before @ recs" "lock d dr me recs g s"
    using assms(1) by (auto simp: in_step_def)
  obtain c where c: "NET_CL_Run e inbox (lp_client s) = Inr c"
    "foldR D_ReceiveTic (drop (length (cl_ticcalls (lp_client s))) (cl_ticcalls c)) (s\<lparr>lp_client := c\<rparr>) = Inr s'"
    using assms(2) by (auto simp: loop_NET_CL_Run_def bindR_eq_Inr)
  obtain new where new: "cl_ticcalls c = cl_ticcalls (lp_client s) @ new" "drone c = drone (lp_client s)"
    "net_client_connected c \<longrightarrow> net_client_connected (lp_client s)" using Run_calls [OF c(1)] by blast
  have f: "foldR D_ReceiveTic new (s\<lparr>lp_client := c\<rparr>) = Inr s'" using c(2) new(1) by simp
  have l: "lock d dr me recs g (s\<lparr>lp_client := c\<rparr>)" using recs(2) new(2) by (simp add: lock_def)
  have same: "lp_client s' = c \<and> lp_made s' = lp_made s"
    by (rule foldR_inv [OF f]) (use ReceiveTic_same in fastforce)+
  have d: "delivered c = before @ (recs @ somes new)" using recs(1) new(1) by (simp add: delivered_somes)
  then have "length recs + length (somes new) = received before s'" using same by (simp add: received_def)
  then have "lock d dr me (recs @ somes new) g s'"
    using receive_lock [OF l _ _ f] assms(3,4) by simp
  then show ?thesis using d same recs(1) new(3) by (auto simp: in_step_def grown_def)
qed

lemma BuildNewTic_calls: "BuildNewTic e s = Inr (b, s') \<Longrightarrow> cl_ticcalls (lp_client s') = cl_ticcalls (lp_client s)"
  by (auto simp: BuildNewTic_def bindR_eq_Inr Let_def split: if_splits dest: calls.view_SendTiccmd)

lemma build_tics_calls: "build_tics e n s = Inr s' \<Longrightarrow> cl_ticcalls (lp_client s') = cl_ticcalls (lp_client s)"
proof (induction n arbitrary: s)
  case (Suc n)
  obtain b s1 where s1: "BuildNewTic e s = Inr (b, s1)" "(if b then build_tics e n s1 else Inr s1) = Inr s'"
    using Suc.prems by (auto simp: bindR_eq_Inr)
  then show ?case using BuildNewTic_calls [OF s1(1)] Suc.IH by (cases b) simp_all
qed simp

lemma NetUpdate_lock:
  assumes "in_step d dr me before g s" "NetUpdate e s = Inr s'"
    "received before s' \<le> g + BACKUPTICS" "small d (received before s')"
  shows "in_step d dr me before g s' \<and> grown s s'"
proof -
  have "\<not> singletics s" using assms(1) by (auto simp: in_step_def lock_def)
  then obtain s1 t where s1: "loop_NET_CL_Run (le_client e) (le_inbox e) s = Inr s1"
    "divR (GetAdjustedTime (le_ms e) s1) (ticdup s1) = Inr t"
    and u: "(let newtics = t - lasttime s1; s = s1\<lparr>lasttime := t\<rparr>;
            (newtics, s) = (if skiptics s \<le>s newtics then (newtics - skiptics s, s\<lparr>skiptics := 0\<rparr>)
                            else (0, s\<lparr>skiptics := skiptics s - newtics\<rparr>))
        in build_tics e (nat (sint newtics)) s) = Inr s'"
    using assms(2) by (auto simp: NetUpdate_def bindR_eq_Inr)
  have "\<exists>n k. build_tics e n (s1\<lparr>lasttime := t, skiptics := k\<rparr>) = Inr s'"
  proof (cases "skiptics s1 \<le>s t - lasttime s1")
    case True
    then show ?thesis using u by (auto simp: Let_def)
  next
    case False
    then show ?thesis
      using u by (intro exI [of _ 0] exI [of _ "skiptics s1 - (t - lasttime s1)"]) (simp add: Let_def)
  qed
  then obtain n k where s2': "build_tics e n (s1\<lparr>lasttime := t, skiptics := k\<rparr>) = Inr s'" by blast
  define s2 where "s2 = s1\<lparr>lasttime := t, skiptics := k\<rparr>"
  have s2: "build_tics e n s2 = Inr s'" "s2 = s1\<lparr>lasttime := t, skiptics := k\<rparr>" using s2' by (simp_all add: s2_def)
  have l2: "lock d dr me recs g s2 = lock d dr me recs g s1" for recs
    unfolding s2(2) lock_quiet ..
  have c2: "lp_client s2 = lp_client s1 \<and> lp_made s2 = lp_made s1" by (simp add: s2(2))
  have calls: "cl_ticcalls (lp_client s') = cl_ticcalls (lp_client s1)" using build_tics_calls [OF s2(1)] c2 by simp
  then have rec: "received before s' = received before s1" by (simp add: received_def delivered_somes)
  have 1: "in_step d dr me before g s1 \<and> grown s s1" using client_run_lock [OF assms(1) s1(1)] assms(3,4) rec by simp
  then obtain recs where recs: "delivered (lp_client s1) = before @ recs" "lock d dr me recs g s1" by (auto simp: in_step_def)
  have "small d (length recs)" using assms(4) rec recs(1) by (simp add: received_def)
  then obtain s3 where s3: "build_tics e n s2 = Inr s3" "lock d dr me recs g s3"
    "cl_ticcalls (lp_client s3) = cl_ticcalls (lp_client s2)"
    "net_client_connected (lp_client s3) = net_client_connected (lp_client s2)" "\<exists>new. lp_made s3 = lp_made s2 @ new"
    using build_tics_lock [of d dr me recs g s2 e n] recs(2) l2 by blast
  have "s3 = s'" using s3(1) s2(1) by simp
  then have "in_step d dr me before g s'" "grown s1 s'"
    using s3 recs(1) c2 by (auto simp: in_step_def grown_def delivered_somes)
  then show ?thesis using 1 grown_trans by blast
qed

subsection \<open>Running tics\<close>

lemma TicdupSquash_twice [simp]: "TicdupSquash (TicdupSquash t) = TicdupSquash t"
  by (simp add: TicdupSquash_def o_def)

text \<open>What the runs of one entry do: all but the first get it squashed.\<close>

lemma run_dup_result:
  "run_dup n k lowtic s = Inr s' \<Longrightarrow> k < length (ticdata s) \<Longrightarrow>
   s' = s\<lparr>local_playeringame := (if n = 0 then local_playeringame s else ts_ingame (ticdata s ! k)),
          lp_runs := lp_runs s @ map (\<lambda>i. set_pair (if i = 0 then ticdata s ! k else TicdupSquash (ticdata s ! k))) [0..<n],
          gametic := gametic s + of_nat n,
          ticdata := (ticdata s)[k := (if n = 0 then ticdata s ! k else TicdupSquash (ticdata s ! k))]\<rparr>"
proof (induction n arbitrary: s)
  case 0
  then show ?case by simp
next
  case (Suc n)
  let ?t = "ticdata s ! k"
  let ?s = "s\<lparr>local_playeringame := ts_ingame ?t, lp_runs := lp_runs s @ [(ts_cmds ?t, ts_ingame ?t)],
      gametic := gametic s + 1, ticdata := (ticdata s)[k := TicdupSquash ?t]\<rparr>"
  have r: "run_dup n k lowtic ?s = Inr s'" using Suc.prems(1) by (simp add: Let_def split: if_splits)
  have t: "ticdata ?s ! k = TicdupSquash ?t" "k < length (ticdata ?s)" using Suc.prems(2) by simp_all
  have "map (\<lambda>i. set_pair (if i = 0 then ?t else TicdupSquash ?t)) [0..<Suc n]
      = (ts_cmds ?t, ts_ingame ?t) # map (\<lambda>i. set_pair (TicdupSquash ?t)) [0..<n]"
    unfolding map_upt_Suc by (simp add: set_pair_def)
  moreover have "ts_ingame (TicdupSquash ?t) = ts_ingame ?t" by (simp add: TicdupSquash_def)
  ultimately show ?case unfolding Suc.IH [OF r t(2)] t(1) by (simp add: algebra_simps cong: if_cong)
qed

lemma run_dup_faults: "run_dup n k lowtic s = Inl f \<Longrightarrow> f = IError"
  by (induction n arbitrary: s) (auto simp: Let_def split: if_splits)

lemma tic_ok_squash:
  assumes "tic_ok dr me recs made k False (set_pair t)" "dr \<or> k < length made" "me < NET_MAXPLAYERS" "k < length recs"
  shows "tic_ok dr me recs made k True (set_pair (TicdupSquash t))"
  using assms by (auto simp: tic_ok_def set_pair_def TicdupSquash_def squashed_def)

lemma run_one_lock:
  assumes "lock d dr me recs g s" "small d (length recs)" "net_client_connected (lp_client s)"
    "g < length recs" "\<not> dr \<Longrightarrow> g < length (lp_made s)" "run_one lowtic s = Inr s'"
  shows "lock d dr me recs (Suc g) s' \<and> lp_client s' = lp_client s \<and> lp_made s' = lp_made s"
proof -
  have l: "0 < d" "me < NET_MAXPLAYERS" "length (ticdata s) = BACKUPTICS" "ticdup s = of_nat d" "gametic s = of_nat (d * g)"
    "length (lp_runs s) = d * g"
    using assms(1) by (simp_all add: lock_def)
  have entries: "tic_ok dr me recs (lp_made s) k False (set_pair (ticdata s ! (k mod BACKUPTICS)))"
    if "g \<le> k" "k < g + BACKUPTICS" for k using assms(1) that unfolding lock_def by blast
  have runs: "tic_ok dr me recs (lp_made s) (j div d) (j mod d \<noteq> 0) (lp_runs s ! j)" if "j < d * g" for j
    using assms(1) that unfolding lock_def by blast
  have dd: "d < 2147483648" "g < 2147483648"
    using small_le [OF assms(2) l(1), of 1] small_le [OF assms(2) l(1), of g] assms(4) by simp_all
  let ?k = "g mod BACKUPTICS"
  let ?t = "ticdata s ! ?k"
  have k: "?k < length (ticdata s)" using l(3) by (simp add: BACKUPTICS_def)
  have n: "nat (sint (ticdup s)) = d" using l(4) dd by (simp add: sint_nat)
  have "run_dup d ?k lowtic s = Inr s'"
    using assms(6) gameticdiv(1) [OF assms(1,2)] ring_index_nat [OF dd(2)] assms(3) n by (simp add: run_one_def)
  note s' = run_dup_result [OF this k]
  have here: "tic_ok dr me recs (lp_made s) g False (set_pair ?t)" using entries by (simp add: BACKUPTICS_def)
  have again: "tic_ok dr me recs (lp_made s) g True (set_pair (TicdupSquash ?t))"
    using tic_ok_squash [OF here _ l(2) assms(4)] assms(5) by blast
  have made: "lp_made s' = lp_made s" unfolding s' by simp
  have "lock d dr me recs (Suc g) s'"
    unfolding lock_def made
  proof (intro conjI allI impI)
    fix k assume k': "Suc g \<le> k \<and> k < Suc g + BACKUPTICS"
    show "tic_ok dr me recs (lp_made s) k False (set_pair (ticdata s' ! (k mod BACKUPTICS)))"
    proof (cases "k = g + BACKUPTICS")
      case True
      have "length recs \<le> k \<and> (\<not> dr \<longrightarrow> length (lp_made s) \<le> k)"
        using True assms(1) by (auto simp: lock_def BACKUPTICS_def)
      moreover have "ticdata s' ! (k mod BACKUPTICS) = TicdupSquash ?t"
        using True l(1) k unfolding s' by simp
      ultimately show ?thesis using again by (auto simp: tic_ok_def)
    next
      case False
      then have "k mod BACKUPTICS \<noteq> ?k" using same_slot [of g k BACKUPTICS g] k' by (simp add: BACKUPTICS_def)
      then show ?thesis using entries [of k] k' False unfolding s' by simp
    qed
  next
    fix j assume j: "j < d * Suc g"
    show "tic_ok dr me recs (lp_made s) (j div d) (j mod d \<noteq> 0) (lp_runs s' ! j)"
    proof (cases "j < d * g")
      case True
      then show ?thesis using runs [OF True] l(6) unfolding s' by (simp add: nth_append)
    next
      case False
      define i where "i = j - d * g"
      have i: "j = d * g + i" "i < d" using False j by (simp_all add: i_def)
      then have "j div d = g" "j mod d = i" using l(1) by simp_all
      moreover have "lp_runs s' ! j = set_pair (if i = 0 then ?t else TicdupSquash ?t)"
        unfolding s' using l(6) i by (simp add: nth_append)
      ultimately show ?thesis using here again by simp
    qed
  qed (use assms(1,4,5) in \<open>simp_all add: lock_def s' algebra_simps\<close>)
  then show ?thesis using made unfolding s' by simp
qed

text \<open>Enough tics for \<open>n\<close> more.\<close>

definition ready :: "bool \<Rightarrow> (ticcmd list \<times> bool list) list \<Rightarrow> nat \<Rightarrow> game_loop \<Rightarrow> bool" where
  "ready dr before k s \<longleftrightarrow> k \<le> received before s \<and> (\<not> dr \<longrightarrow> k \<le> length (lp_made s))"

lemma ready_grown: "grown s s' \<Longrightarrow> ready dr before k s \<Longrightarrow> ready dr before k s'"
  using grown_received [of s s' before] grown_made [of s s'] by (auto simp: ready_def)

lemma GetLowTic_ready:
  assumes "in_step d dr me before g s" "net_client_connected (lp_client s)" "small d (received before s)"
  shows "\<exists>low. GetLowTic s = of_nat low \<and> low < 2147483648 \<and> g \<le> low \<and> (\<forall>k. k \<le> low \<longleftrightarrow> ready dr before k s)"
proof -
  obtain recs where recs: "delivered (lp_client s) = before @ recs" "lock d dr me recs g s" using assms(1) by (auto simp: in_step_def)
  have n: "received before s = length recs" using recs(1) by (simp add: received_def)
  have l: "0 < d" "drone (lp_client s) = dr" "recvtic s = of_nat (length recs)" "maketic s = of_nat (length (lp_made s))"
    "g \<le> length recs" "\<not> dr \<longrightarrow> g \<le> length (lp_made s) \<and> length (lp_made s) \<le> g + 9" using recs(2) by (simp_all add: lock_def)
  have b: "length recs < 2147483648" using small_le [OF assms(3) l(1), of "length recs"] n by simp
  show ?thesis
  proof (cases dr)
    case True
    then show ?thesis using assms(2) l n b by (intro exI [of _ "length recs"]) (simp add: GetLowTic_def ready_def)
  next
    case False
    then have m: "length (lp_made s) < 2147483648" using small_le [OF assms(3) l(1), of "length (lp_made s)"] n l(5,6) by simp
    show ?thesis
      using False assms(2) l n b m
      by (intro exI [of _ "min (length recs) (length (lp_made s))"]) (auto simp: GetLowTic_def ready_def sless_nat Let_def)
  qed
qed

lemma NetUpdate_step:
  assumes "in_step d dr me before g s" "NetUpdate e s = Inr s'" "grown s' s''"
    "received before s'' \<le> g + BACKUPTICS" "small d (received before s'')"
  shows "in_step d dr me before g s' \<and> grown s s'"
  using NetUpdate_lock [OF assms(1,2)] grown_received [OF assms(3), of before] assms(4,5) small_mono by (metis le_trans)

text \<open>Growth comes first: it holds however many tics arrive.\<close>

lemma client_run_grown: "loop_NET_CL_Run e inbox s = Inr s' \<Longrightarrow> grown s s'"
proof -
  assume "loop_NET_CL_Run e inbox s = Inr s'"
  then obtain c where c: "NET_CL_Run e inbox (lp_client s) = Inr c"
    "foldR D_ReceiveTic (drop (length (cl_ticcalls (lp_client s))) (cl_ticcalls c)) (s\<lparr>lp_client := c\<rparr>) = Inr s'"
    by (auto simp: loop_NET_CL_Run_def bindR_eq_Inr)
  have "lp_client s' = c \<and> lp_made s' = lp_made s" by (rule foldR_inv [OF c(2)]) (use ReceiveTic_same in fastforce)+
  then show ?thesis using Run_calls [OF c(1)] by (auto simp: grown_def delivered_somes)
qed

lemma BuildNewTic_grown: "BuildNewTic e s = Inr (b, s') \<Longrightarrow> grown s s'"
proof -
  assume b: "BuildNewTic e s = Inr (b, s')"
  then have "net_client_connected (lp_client s') = net_client_connected (lp_client s) \<and> (\<exists>new. lp_made s' = lp_made s @ new)"
    by (auto simp: BuildNewTic_def bindR_eq_Inr Let_def link_def split: if_splits dest: link.view_SendTiccmd)
  then show ?thesis using BuildNewTic_calls [OF b] by (simp add: grown_def delivered_somes)
qed

lemma build_tics_grown: "build_tics e n s = Inr s' \<Longrightarrow> grown s s'"
proof (induction n arbitrary: s)
  case (Suc n)
  obtain b s1 where s1: "BuildNewTic e s = Inr (b, s1)" "(if b then build_tics e n s1 else Inr s1) = Inr s'"
    using Suc.prems by (auto simp: bindR_eq_Inr)
  then show ?case using grown_trans [OF BuildNewTic_grown [OF s1(1)]] Suc.IH BuildNewTic_grown [OF s1(1)] by (cases b) auto
qed simp

lemma NetUpdate_grown:
  assumes "NetUpdate e s = Inr s'"
  shows "grown s s'"
proof (cases "singletics s")
  case True
  then show ?thesis using assms by (simp add: NetUpdate_def)
next
  case False
  then obtain s1 t where s1: "loop_NET_CL_Run (le_client e) (le_inbox e) s = Inr s1"
    and u: "(let newtics = t - lasttime s1; s = s1\<lparr>lasttime := t\<rparr>;
            (newtics, s) = (if skiptics s \<le>s newtics then (newtics - skiptics s, s\<lparr>skiptics := 0\<rparr>)
                            else (0, s\<lparr>skiptics := skiptics s - newtics\<rparr>))
        in build_tics e (nat (sint newtics)) s) = Inr s'"
    using assms by (auto simp: NetUpdate_def bindR_eq_Inr)
  have "grown s1 (s1\<lparr>lasttime := t, skiptics := k\<rparr>)" for k by (simp add: grown_def)
  then have b: "build_tics e n (s1\<lparr>lasttime := t, skiptics := k\<rparr>) = Inr s' \<Longrightarrow> grown s1 s'" for n k
    using grown_trans build_tics_grown by blast
  have "grown s1 s'"
  proof (cases "skiptics s1 \<le>s t - lasttime s1")
    case True
    then show ?thesis using u by (auto simp: Let_def dest: b)
  next
    case False
    then show ?thesis using u by (auto simp: Let_def grown_def)
  qed
  then show ?thesis using grown_trans [OF client_run_grown [OF s1]] by blast
qed

lemma run_dup_same: "run_dup n k lowtic s = Inr s' \<Longrightarrow> lp_client s' = lp_client s \<and> lp_made s' = lp_made s"
  by (induction n arbitrary: s) (auto simp: Let_def split: if_splits)

lemma run_one_same: "run_one lowtic s = Inr s' \<Longrightarrow> lp_client s' = lp_client s \<and> lp_made s' = lp_made s"
  by (auto simp: run_one_def bindR_eq_Inr Let_def split: if_splits dest!: run_dup_same)

lemma run_tics_grown: "run_tics n lowtic es s = Some (Inr s') \<Longrightarrow> grown s s'"
proof (induction n arbitrary: es s)
  case (Suc n)
  show ?case
  proof (cases "PlayersInGame s")
    case False
    then show ?thesis using Suc.prems by simp
  next
    case True
    then obtain s1 e es' s2 where s1: "run_one lowtic s = Inr s1" "NetUpdate e s1 = Inr s2"
      "run_tics n lowtic es' s2 = Some (Inr s')"
      using Suc.prems by (auto split: sum.splits list.splits)
    have "grown s s1" using run_one_same [OF s1(1)] by (simp add: grown_def)
    then show ?thesis using grown_trans NetUpdate_grown [OF s1(2)] Suc.IH [OF s1(3)] by blast
  qed
qed simp

lemma run_tics_lock:
  "run_tics n lowtic es s = Some (Inr s') \<Longrightarrow> in_step d dr me before g s \<Longrightarrow> ready dr before (g + n) s \<Longrightarrow>
   net_client_connected (lp_client s') \<Longrightarrow> received before s' \<le> g + BACKUPTICS \<Longrightarrow> small d (received before s') \<Longrightarrow>
   \<exists>g'. in_step d dr me before g' s' \<and> g \<le> g' \<and> g' \<le> g + n"
proof (induction n arbitrary: es s g)
  case 0
  then show ?case by auto
next
  case (Suc n)
  show ?case
  proof (cases "PlayersInGame s")
    case False
    then show ?thesis using Suc.prems(1,2) by auto
  next
    case True
    then obtain s1 e es' s2 where s1: "run_one lowtic s = Inr s1" "NetUpdate e s1 = Inr s2"
      "run_tics n lowtic es' s2 = Some (Inr s')"
      using Suc.prems(1) by (auto split: sum.splits list.splits)
    have gr: "grown s1 s2" "grown s2 s'" using NetUpdate_grown [OF s1(2)] run_tics_grown [OF s1(3)] by simp_all
    have same: "lp_client s1 = lp_client s" "lp_made s1 = lp_made s" using run_one_same [OF s1(1)] by simp_all
    then have "grown s s1" by (simp add: grown_def)
    then have gs: "grown s s'" using gr grown_trans by blast
    obtain recs where recs: "delivered (lp_client s) = before @ recs" "lock d dr me recs g s"
      using Suc.prems(2) by (auto simp: in_step_def)
    have n: "received before s = length recs" using recs(1) by (simp add: received_def)
    have "small d (length recs)" using small_mono [OF Suc.prems(6)] grown_received [OF gs, of before] n by simp
    moreover have "net_client_connected (lp_client s)" using gs Suc.prems(4) by (simp add: grown_def)
    moreover have "g < length recs" "\<not> dr \<Longrightarrow> g < length (lp_made s)" using Suc.prems(3) n by (simp_all add: ready_def)
    ultimately have "lock d dr me recs (Suc g) s1" using run_one_lock [OF recs(2) _ _ _ _ s1(1)] by blast
    then have i1: "in_step d dr me before (Suc g) s1" using recs(1) same by (auto simp: in_step_def)
    have i2: "in_step d dr me before (Suc g) s2"
      using NetUpdate_step [OF i1 s1(2) gr(2)] Suc.prems(5,6) by simp
    have "ready dr before (Suc g + n) s1" using Suc.prems(3) same by (simp add: ready_def received_def)
    then have "ready dr before (Suc g + n) s2" by (rule ready_grown [OF gr(1)])
    then obtain g' where "in_step d dr me before g' s'" "Suc g \<le> g'" "g' \<le> Suc g + n"
      using Suc.IH [OF s1(3) i2 _ Suc.prems(4)] Suc.prems(5,6) by auto
    then show ?thesis by (intro exI [of _ g']) simp
  qed
qed

text \<open>The waiting loop with \<open>c\<close> tics to run.\<close>

lemma wait_tics_grown: "wait_tics entertic counts lowtic es s = Some (Inr s') \<Longrightarrow> grown s s'"
proof (induction es arbitrary: lowtic s)
  case Nil
  then show ?case by (subst (asm) wait_tics.simps) (auto split: sum.splits if_splits dest: run_tics_grown)
next
  case (Cons e es)
  obtain g where g: "divR (gametic s) (ticdup s) = Inr g"
    using Cons.prems by (subst (asm) wait_tics.simps) (auto split: sum.splits)
  show ?case
  proof (cases "PlayersInGame s \<and> \<not> lowtic <s g + counts")
    case True
    then show ?thesis using Cons.prems g by (subst (asm) wait_tics.simps) (auto dest: run_tics_grown)
  next
    case False
    then obtain s1 where s1: "NetUpdate e s = Inr s1"
      and "s1 = s' \<or> wait_tics entertic counts (GetLowTic s1) es s1 = Some (Inr s')"
      using Cons.prems g by (subst (asm) wait_tics.simps) (auto simp: Let_def split: sum.splits if_splits)
    then show ?thesis using grown_trans [OF NetUpdate_grown [OF s1]] NetUpdate_grown [OF s1] Cons.IH by blast
  qed
qed

lemma wait_tics_exit:
  assumes "wait_tics entertic (of_nat c) lowtic es s = Some (Inr s')" "in_step d dr me before g s" "lowtic = GetLowTic s"
    "g + c < 2147483648" "small d (received before s)" "net_client_connected (lp_client s)"
  shows "(net_client_connected (lp_client s') \<longrightarrow> received before s' \<le> g + BACKUPTICS \<longrightarrow> small d (received before s') \<longrightarrow>
      (\<exists>g'. in_step d dr me before g' s' \<and> g \<le> g'))
    \<or> (\<exists>e es' s1. es = e # es' \<and> NetUpdate e s = Inr s1
        \<and> (s1 = s' \<or> wait_tics entertic (of_nat c) (GetLowTic s1) es' s1 = Some (Inr s')))"
proof -
  obtain recs where recs: "delivered (lp_client s) = before @ recs" "lock d dr me recs g s" using assms(2) by (auto simp: in_step_def)
  have "small d (length recs)" using assms(5) recs(1) by (simp add: received_def)
  note gd = gameticdiv [OF recs(2) this]
  obtain low where low: "GetLowTic s = of_nat low" "low < 2147483648" "\<forall>k. k \<le> low \<longleftrightarrow> ready dr before k s"
    using GetLowTic_ready [OF assms(2,6,5)] by blast
  have lt: "(lowtic <s of_nat g + of_nat c) = (low < g + c)"
    using sless_nat [OF low(2) assms(4)] assms(3) low(1) by simp
  show ?thesis
  proof (cases "PlayersInGame s \<and> \<not> low < g + c")
    case True
    then have "run_tics c lowtic es s = Some (Inr s')"
      using assms(1,4) gd lt by (subst (asm) wait_tics.simps) (simp add: sint_nat)
    moreover have "ready dr before (g + c) s" using True low(3) [rule_format, of "g + c"] by linarith
    ultimately show ?thesis using run_tics_lock [OF _ assms(2)] by blast
  next
    case False
    then show ?thesis
      using assms(1) gd lt by (subst (asm) wait_tics.simps) (auto simp: Let_def split: list.splits sum.splits if_splits)
  qed
qed

lemma wait_tics_lock:
  "wait_tics entertic (of_nat c) lowtic es s = Some (Inr s') \<Longrightarrow> in_step d dr me before g s \<Longrightarrow> lowtic = GetLowTic s \<Longrightarrow>
   g + c < 2147483648 \<Longrightarrow> net_client_connected (lp_client s') \<Longrightarrow>
   received before s' \<le> g + BACKUPTICS \<Longrightarrow> small d (received before s') \<Longrightarrow>
   \<exists>g'. in_step d dr me before g' s' \<and> g \<le> g'"
proof (induction es arbitrary: lowtic s)
  case Nil
  note gr = wait_tics_grown [OF Nil.prems(1)]
  have sm: "small d (received before s)" using small_mono [OF Nil.prems(7)] grown_received [OF gr] by blast
  have con: "net_client_connected (lp_client s)" using gr Nil.prems(5) by (simp add: grown_def)
  show ?case using wait_tics_exit [OF Nil.prems(1-4) sm con] Nil.prems(5-7) by auto
next
  case (Cons e es)
  note gr = wait_tics_grown [OF Cons.prems(1)]
  have sm: "small d (received before s)" using small_mono [OF Cons.prems(7)] grown_received [OF gr] by blast
  have con: "net_client_connected (lp_client s)" using gr Cons.prems(5) by (simp add: grown_def)
  from wait_tics_exit [OF Cons.prems(1-4) sm con] show ?case
  proof
    assume "\<exists>e' es' s1. e # es = e' # es' \<and> NetUpdate e' s = Inr s1
      \<and> (s1 = s' \<or> wait_tics entertic (of_nat c) (GetLowTic s1) es' s1 = Some (Inr s'))"
    then obtain s1 where s1: "NetUpdate e s = Inr s1"
      "s1 = s' \<or> wait_tics entertic (of_nat c) (GetLowTic s1) es s1 = Some (Inr s')" by blast
    have "grown s1 s'" using s1(2) wait_tics_grown by auto
    from NetUpdate_step [OF Cons.prems(2) s1(1) this Cons.prems(6,7)] have "in_step d dr me before g s1" by simp
    then show ?thesis using s1(2) Cons.IH [OF _ _ refl Cons.prems(4-7)] by auto
  qed (use Cons.prems(5-7) in blast)
qed

subsection \<open>A whole turn\<close>

lemma word_nonneg: "0 \<le> sint w \<Longrightarrow> w = of_nat (nat (sint w))"
  by simp

lemma tic_count_range:
  assumes "a < 2147483647"
  shows "\<exists>c. tic_count sy r (of_nat a) = of_nat c \<and> 1 \<le> c \<and> c \<le> max 1 a"
proof -
  define w where "w = (if sy then of_nat a else if r <s of_nat a - 1 then r + 1 else if r <s of_nat a then r else of_nat a)"
  have a: "sint (of_nat a :: u32) = int a" using assms by (simp add: sint_nat)
  have a1: "sint (of_nat a - 1 :: u32) = int a - 1"
    using sint_of_int32 [of "int a - 1"] assms by simp
  have "sint (r + 1) \<le> int a" if "r <s of_nat a - 1"
  proof -
    have "r + 1 = word_of_int (sint r + 1)" by simp
    moreover have "- 2147483648 \<le> sint r" using sint_greater_eq [of r] by simp
    ultimately have "sint (r + 1) = sint r + 1" using sint_of_int32 [of "sint r + 1"] that a1 assms by (simp add: word_sless_alt)
    then show ?thesis using that a1 by (simp add: word_sless_alt)
  qed
  then have w: "sint w \<le> int a" using a by (auto simp: w_def word_sless_alt)
  have t: "tic_count sy r (of_nat a) = (if w <s 1 then 1 else w)" by (simp add: tic_count_def w_def Let_def)
  show ?thesis
  proof (cases "w <s 1")
    case True
    then show ?thesis unfolding t by (intro exI [of _ 1]) simp
  next
    case False
    then have "1 \<le> sint w" by (simp add: word_sless_alt)
    then show ?thesis unfolding t using w word_nonneg [of w] False
      by (intro exI [of _ "nat (sint w)"]) auto
  qed
qed

lemma OldNetSync_lock: "lock d dr me recs g (OldNetSync s) = lock d dr me recs g s"
  "GetLowTic (OldNetSync s) = GetLowTic s" "lp_client (OldNetSync s) = lp_client s" "lp_made (OldNetSync s) = lp_made s"
  by (auto simp: OldNetSync_def Let_def lock_quiet GetLowTic_def split: option.split)

lemma TryRunTics_split:
  assumes "TryRunTics time es s = Some (Inr s')" "\<not> singletics s"
  obtains entertic e es' s2 where "es = e # es'" "NetUpdate e (s\<lparr>oldentertics := entertic\<rparr>) = Inr s2"
    "wait_tics entertic (tic_count (new_sync s2) (entertic - oldentertics s)
          (GetLowTic s2 - c_div (gametic s2) (ticdup s2))) (GetLowTic s2) es'
        (if \<not> new_sync s2 \<and> net_client_connected (lp_client s2) then OldNetSync s2 else s2) = Some (Inr s')"
  using assms by (auto simp: TryRunTics_def Let_def bindR_def split: list.splits sum.splits)

lemma TryRunTics_grown:
  assumes "TryRunTics time es s = Some (Inr s')" "\<not> singletics s"
  shows "grown s s'"
proof -
  obtain entertic e es' s2 where s2: "NetUpdate e (s\<lparr>oldentertics := entertic\<rparr>) = Inr s2"
    "wait_tics entertic (tic_count (new_sync s2) (entertic - oldentertics s)
          (GetLowTic s2 - c_div (gametic s2) (ticdup s2))) (GetLowTic s2) es'
        (if \<not> new_sync s2 \<and> net_client_connected (lp_client s2) then OldNetSync s2 else s2) = Some (Inr s')"
    by (rule TryRunTics_split [OF assms])
  have "grown s (s\<lparr>oldentertics := entertic\<rparr>)" by (simp add: grown_def)
  moreover have "grown s2 (if \<not> new_sync s2 \<and> net_client_connected (lp_client s2) then OldNetSync s2 else s2)"
    by (simp add: grown_def OldNetSync_lock)
  ultimately show ?thesis using NetUpdate_grown [OF s2(1)] wait_tics_grown [OF s2(2)] grown_trans by blast
qed

lemma TryRunTics_lock:
  assumes "TryRunTics time es s = Some (Inr s')" "in_step d dr me before g s" "net_client_connected (lp_client s')"
    "received before s' \<le> g + BACKUPTICS" "small d (received before s')"
  shows "\<exists>g'. in_step d dr me before g' s' \<and> g \<le> g'"
proof -
  have ns: "\<not> singletics s" using assms(2) by (auto simp: in_step_def lock_def)
  obtain entertic e es' s2 where s2: "NetUpdate e (s\<lparr>oldentertics := entertic\<rparr>) = Inr s2"
    "wait_tics entertic (tic_count (new_sync s2) (entertic - oldentertics s)
          (GetLowTic s2 - c_div (gametic s2) (ticdup s2))) (GetLowTic s2) es'
        (if \<not> new_sync s2 \<and> net_client_connected (lp_client s2) then OldNetSync s2 else s2) = Some (Inr s')"
    by (rule TryRunTics_split [OF assms(1) ns])
  define s3 where "s3 = (if \<not> new_sync s2 \<and> net_client_connected (lp_client s2) then OldNetSync s2 else s2)"
  have i0: "in_step d dr me before g (s\<lparr>oldentertics := entertic\<rparr>)" using assms(2) by (simp add: in_step_def lock_quiet)
  have gr3: "grown s2 s3" by (simp add: s3_def grown_def OldNetSync_lock)
  have gr: "grown s2 s'" using wait_tics_grown [OF s2(2) [folded s3_def]] grown_trans [OF gr3] by blast
  have i2: "in_step d dr me before g s2" using NetUpdate_step [OF i0 s2(1) gr assms(4,5)] by simp
  then have i3: "in_step d dr me before g s3" by (simp add: s3_def in_step_def OldNetSync_lock)
  have sm: "small d (received before s2)" using small_mono [OF assms(5)] grown_received [OF gr] by blast
  have con: "net_client_connected (lp_client s2)" using gr assms(3) by (simp add: grown_def)
  obtain recs where recs: "delivered (lp_client s2) = before @ recs" "lock d dr me recs g s2" using i2 by (auto simp: in_step_def)
  have n: "received before s2 = length recs" using recs(1) by (simp add: received_def)
  have d0: "0 < d" "g \<le> length recs" using recs(2) by (simp_all add: lock_def)
  obtain low where low: "GetLowTic s2 = of_nat low" "g \<le> low" "\<forall>k. k \<le> low \<longleftrightarrow> ready dr before k s2"
    using GetLowTic_ready [OF i2 con sm] by blast
  have "low \<le> length recs" using low(3) [rule_format, of low] n by (simp add: ready_def)
  then have low_small: "low + 1 < 2147483647" using small_le [OF sm d0(1), of "low + 2"] n by simp
  have "c_div (gametic s2) (ticdup s2) = of_nat g" using gameticdiv(2) [OF recs(2)] sm n by simp
  then have avail: "GetLowTic s2 - c_div (gametic s2) (ticdup s2) = of_nat (low - g)" using low(1,2) by (simp add: of_nat_diff)
  obtain c where c: "tic_count (new_sync s2) (entertic - oldentertics s) (of_nat (low - g)) = of_nat c" "c \<le> max 1 (low - g)"
  proof -
    have "low - g < 2147483647" using low_small by simp
    from tic_count_range [OF this] show thesis using that by blast
  qed
  have "g + c < 2147483648" using c(2) low(2) low_small by simp
  moreover have "GetLowTic s2 = GetLowTic s3" by (simp add: s3_def OldNetSync_lock)
  ultimately show ?thesis
    using wait_tics_lock [OF s2(2) [folded s3_def, unfolded avail c(1)] i3] assms(3-5) by blast
qed

end
