(* ===== verification/D_Loop_Props.thy ===== *)
theory D_Loop_Props
  imports D_Loop_Lockstep Net_Client_Props
begin

text \<open>
  The properties of the game loop: lockstep, the agreement of the machines of a game, the range of its
  clock, and tics that are handed on before the local player is known. The sample is a game of two
  players in which nobody moves.
\<close>

subsection \<open>Games\<close>

text \<open>
  A loop at the start of a network game, and what happens to it as long as the client stays
  connected: calls of \<open>NetUpdate\<close> and of \<open>TryRunTics\<close>. The server is never more than the ring of
  \<open>BACKUPTICS\<close> entries ahead of the tics that have been run, and the numbers stay below the sign bit.
\<close>

definition new_game :: "game_loop \<Rightarrow> bool" where
  "new_game s \<longleftrightarrow> 0 < unat (ticdup s) \<and> unat (localplayer s) < NET_MAXPLAYERS \<and> \<not> singletics s
     \<and> recvtic s = 0 \<and> maketic s = 0 \<and> gametic s = 0 \<and> lp_runs s = [] \<and> lp_made s = []
     \<and> length (ticdata s) = BACKUPTICS
     \<and> (\<forall>t \<in> set (ticdata s). length (ts_cmds t) = NET_MAXPLAYERS \<and> length (ts_ingame t) = NET_MAXPLAYERS)"

definition tics_run :: "game_loop \<Rightarrow> nat" where
  "tics_run s = length (lp_runs s) div unat (ticdup s)"

definition tics_of :: "game_loop \<Rightarrow> game_loop \<Rightarrow> (ticcmd list \<times> bool list) list" where
  "tics_of s0 s = drop (length (delivered (lp_client s0))) (delivered (lp_client s))"

definition in_reach :: "game_loop \<Rightarrow> game_loop \<Rightarrow> game_loop \<Rightarrow> bool" where
  "in_reach s0 s s' \<longleftrightarrow> net_client_connected (lp_client s')
     \<and> length (tics_of s0 s') \<le> tics_run s + BACKUPTICS
     \<and> unat (ticdup s0) * (length (tics_of s0 s') + 16) < 2147483648"

inductive loop_plays :: "game_loop \<Rightarrow> game_loop \<Rightarrow> bool" for s0 where
  loop_start: "loop_plays s0 s0"
| loop_update: "loop_plays s0 s \<Longrightarrow> NetUpdate e s = Inr s' \<Longrightarrow> in_reach s0 s s' \<Longrightarrow> loop_plays s0 s'"
| loop_tics: "loop_plays s0 s \<Longrightarrow> TryRunTics time es s = Some (Inr s') \<Longrightarrow> in_reach s0 s s' \<Longrightarrow> loop_plays s0 s'"

lemma new_game_in_step:
  assumes "new_game s0"
  shows "in_step (unat (ticdup s0)) (drone (lp_client s0)) (unat (localplayer s0)) (delivered (lp_client s0)) 0 s0"
proof -
  have "length (ticdata s0) = BACKUPTICS" using assms by (simp add: new_game_def)
  then have "ticdata s0 ! (k mod BACKUPTICS) \<in> set (ticdata s0)" for k by (simp add: BACKUPTICS_def)
  then have "lock (unat (ticdup s0)) (drone (lp_client s0)) (unat (localplayer s0)) [] 0 s0"
    using assms by (simp add: new_game_def lock_def tic_ok_def set_pair_def)
  then show ?thesis by (auto simp: in_step_def)
qed

lemma in_step_run: "in_step d dr me before g s \<Longrightarrow> ticdup s = of_nat d \<and> length (lp_runs s) = d * g \<and> 0 < d"
  by (auto simp: in_step_def lock_def)

lemma received_tics: "received (delivered (lp_client s0)) s = length (tics_of s0 s)"
  by (simp add: received_def tics_of_def)

lemma loop_plays_in_step:
  assumes "loop_plays s0 s" "new_game s0"
  shows "\<exists>g. in_step (unat (ticdup s0)) (drone (lp_client s0)) (unat (localplayer s0)) (delivered (lp_client s0)) g s"
  using assms
proof (induction rule: loop_plays.induct)
  case loop_start
  then show ?case using new_game_in_step by blast
next
  case (loop_update s e s')
  then obtain g where g: "in_step (unat (ticdup s0)) (drone (lp_client s0)) (unat (localplayer s0)) (delivered (lp_client s0)) g s"
    by blast
  have "ticdup s = ticdup s0" "tics_run s = g" using in_step_run [OF g] by (simp_all add: tics_run_def)
  then have "received (delivered (lp_client s0)) s' \<le> g + BACKUPTICS" "small (unat (ticdup s0)) (received (delivered (lp_client s0)) s')"
    using loop_update.hyps(3) by (simp_all add: in_reach_def received_tics small_def)
  then show ?case using NetUpdate_lock [OF g loop_update.hyps(2)] by blast
next
  case (loop_tics s time es s')
  then obtain g where g: "in_step (unat (ticdup s0)) (drone (lp_client s0)) (unat (localplayer s0)) (delivered (lp_client s0)) g s"
    by blast
  have "ticdup s = ticdup s0" "tics_run s = g" using in_step_run [OF g] by (simp_all add: tics_run_def)
  then have "received (delivered (lp_client s0)) s' \<le> g + BACKUPTICS" "small (unat (ticdup s0)) (received (delivered (lp_client s0)) s')"
    "net_client_connected (lp_client s')"
    using loop_tics.hyps(3) by (simp_all add: in_reach_def received_tics small_def)
  then show ?case using TryRunTics_lock [OF loop_tics.hyps(2) g] by blast
qed

text \<open>What run \<open>j\<close> of a game gets.\<close>

definition right_run :: "game_loop \<Rightarrow> game_loop \<Rightarrow> nat \<Rightarrow> bool" where
  "right_run s0 s j \<longleftrightarrow>
     (let d = unat (ticdup s0); me = unat (localplayer s0); dr = drone (lp_client s0); k = j div d;
          again = (j mod d \<noteq> 0); (cmds, ingame) = lp_runs s ! j
      in length cmds = NET_MAXPLAYERS \<and> length ingame = NET_MAXPLAYERS \<and> k < length (tics_of s0 s)
         \<and> (\<forall>i < NET_MAXPLAYERS. dr \<or> i \<noteq> me \<longrightarrow>
              cmds ! i = squashed again (fst (tics_of s0 s ! k) ! i) \<and> ingame ! i = snd (tics_of s0 s ! k) ! i)
         \<and> (\<not> dr \<longrightarrow> k < length (lp_made s) \<and> cmds ! me = squashed again (lp_made s ! k) \<and> ingame ! me))"

lemma loop_right:
  assumes "new_game s0" "loop_plays s0 s" "j < length (lp_runs s)"
  shows "right_run s0 s j"
proof -
  let ?d = "unat (ticdup s0)"
  obtain g recs where g: "delivered (lp_client s) = delivered (lp_client s0) @ recs"
    "lock ?d (drone (lp_client s0)) (unat (localplayer s0)) recs g s"
    using loop_plays_in_step [OF assms(2,1)] by (auto simp: in_step_def)
  have recs: "tics_of s0 s = recs" by (simp add: tics_of_def g(1))
  have j: "j < ?d * g" "0 < ?d" using g(2) assms(3) by (simp_all add: lock_def)
  then have k: "j div ?d < g" by (simp add: less_mult_imp_div_less mult.commute)
  have "tic_ok (drone (lp_client s0)) (unat (localplayer s0)) recs (lp_made s) (j div ?d) (j mod ?d \<noteq> 0) (lp_runs s ! j)"
    "g \<le> length recs" "\<not> drone (lp_client s0) \<longrightarrow> g \<le> length (lp_made s)"
    using g(2) j(1) unfolding lock_def by blast+
  then show ?thesis using k by (auto simp: right_run_def recs tic_ok_def Let_def split: prod.split)
qed

text \<open>C9: The game runs in lockstep. However its calls fall, a connected game runs every tic \<open>ticdup\<close>
  times, in order: for the other players with the commands and the players of that tic as the client
  handed them on, and for the local player with the command built for it. All but the first run of
  a tic leave out chat characters and special buttons. No tic is run before it has been received.\<close>

theorem game_in_lockstep:
  assumes "new_game s0" "loop_plays s0 s" "j < length (lp_runs s)"
  shows "right_run s0 s j"
  by (rule loop_right [OF assms])

subsection \<open>A sample game\<close>

text \<open>
  A player \<open>me\<close> of a game of two, in which nobody moves: the client holds the first tic in its window,
  and the loop has not run yet.
\<close>

definition still_tic :: "nat \<Rightarrow> net_full_ticcmd" where
  "still_tic me = (game_tics 0)\<lparr>fc_playeringame := map (\<lambda>i. i < 2 \<and> i \<noteq> me) [0..<NET_MAXPLAYERS],
     fc_cmds := replicate 8 (NET_TiccmdDiff zero_ticcmd zero_ticcmd)\<rparr>"

definition loaded_client :: "nat \<Rightarrow> net_cl" where
  "loaded_client me = game_client\<lparr>cw := \<lparr>sr_active = True, sr_resend_time = 0, sr_cmd = still_tic me\<rparr>
     # replicate (BACKUPTICS - 1) blank_server_recv\<rparr>"

definition sample_loop :: "nat \<Rightarrow> game_loop" where
  "sample_loop me = \<lparr>ticdata = replicate BACKUPTICS \<lparr>ts_cmds = replicate 8 zero_ticcmd, ts_ingame = replicate 8 False\<rparr>,
     maketic = 0, recvtic = 0, gametic = 0, singletics = False, localplayer = of_nat me, skiptics = 0, ticdup = 1,
     new_sync = False, local_playeringame = [True, True, False, False, False, False, False, False], player_class = 0,
     lasttime = 0, frameon = 0, frameskip = replicate 4 False, oldnettics = 0, oldentertics = 0,
     lp_client = loaded_client me, lp_runs = [], lp_made = []\<rparr>"

definition sample_loop_env :: loop_env where
  "sample_loop_env = \<lparr>le_client = sample_cl_env, le_inbox = [], le_ms = 100, le_cmd = \<lambda>_. zero_ticcmd, le_tics = 1\<rparr>"

text \<open>A run without packets, of a client that stays connected.\<close>

definition calm_connection :: "cl_env \<Rightarrow> net_connection \<Rightarrow> bool" where
  "calm_connection e c \<longleftrightarrow> cn_state c = NET_CONN_STATE_CONNECTED \<and> \<not> CONNECTION_TIMEOUT_LEN * 1000 < ce_now e - cn_keepalive_recv_time c
     \<and> cn_reliable_packets c = []"

text \<open>A client that has nothing to request or acknowledge.\<close>

definition quiet :: "net_cl \<Rightarrow> bool" where
  "quiet c \<longleftrightarrow> net_client_connected c \<and> client_state c = CLIENT_STATE_IN_GAME
     \<and> calm_connection sample_cl_env (client_connection c) \<and> length (cw c) = BACKUPTICS
     \<and> (\<forall>r \<in> set (cw c). sr_resend_time r = 0) \<and> \<not> need_to_acknowledge c \<and> gamedata_recv_time c = 0 \<and> \<not> drone c"

lemma no_resends: "(\<And>i. i \<in> set is \<Longrightarrow> \<not> cl_need_resend e dl i (cw s ! i)) \<Longrightarrow> cl_check_resends e dl is None k s = s"
  by (induction "is") (simp_all add: cl_request_run_def)

lemma quiet_check: "quiet s \<Longrightarrow> NET_CL_CheckResends sample_cl_env s = s"
proof -
  assume q: "quiet s"
  then have "cl_check_resends sample_cl_env False [0..<BACKUPTICS] None 0 s = s"
    by (intro no_resends) (auto simp: quiet_def cl_need_resend_def)
  then show ?thesis using q by (simp add: NET_CL_CheckResends_def quiet_def sample_cl_env_def)
qed

lemma quiet_run:
  assumes "quiet c"
  shows "\<exists>s. quiet s \<and> cw s = cw c \<and> cl_ticcalls s = cl_ticcalls c \<and> recvwindow_cmd_base s = recvwindow_cmd_base c
    \<and> NET_CL_Run sample_cl_env [] c = Inr (NET_CL_CheckResends sample_cl_env (NET_CL_AdvanceWindow sample_cl_env s))"
proof -
  let ?e = sample_cl_env
  define s1 where "s1 = cl_connection_op (NET_Conn_Run (ce_now ?e)) c"
  obtain k out where k: "NET_Conn_Run (ce_now ?e) (client_connection c) = (k, out)" by fastforce
  have n: "calm_connection ?e k"
    using assms k by (auto simp: quiet_def calm_connection_def NET_Conn_Run_def conn_run_connected_def Let_def
        NET_Conn_SendPacket_def split: if_splits)
  have s1: "s1 = c\<lparr>client_connection := k, cl_out := cl_out c @ out\<rparr>" by (simp add: s1_def cl_connection_op_def k)
  have e: "\<not> cl_ended s1" using n by (simp add: s1 cl_ended_def calm_connection_def)
  define s2 where "s2 = s1\<lparr>net_waiting_for_launch := False\<rparr>"
  have "net_client_connected c" "client_state c = CLIENT_STATE_IN_GAME" using assms by (simp_all add: quiet_def)
  then have "NET_CL_Run ?e [] c = Inr (NET_CL_CheckResends ?e (NET_CL_AdvanceWindow ?e s2))"
    using e unfolding NET_CL_Run_def by (simp add: s1_def [symmetric] s2_def Let_def) (simp add: s1)
  moreover have "quiet s2" using assms n by (simp add: quiet_def s2_def s1)
  ultimately show ?thesis by (intro exI [of _ s2]) (simp add: s2_def s1)
qed

lemma quiet_idle:
  assumes "quiet c" "\<not> sr_active (cw c ! 0)"
  shows "\<exists>c'. NET_CL_Run sample_cl_env [] c = Inr c' \<and> quiet c' \<and> cl_ticcalls c' = cl_ticcalls c
    \<and> \<not> sr_active (cw c' ! 0)"
proof -
  obtain s where s: "quiet s" "cw s = cw c" "cl_ticcalls s = cl_ticcalls c"
    "NET_CL_Run sample_cl_env [] c = Inr (NET_CL_CheckResends sample_cl_env (NET_CL_AdvanceWindow sample_cl_env s))"
    using quiet_run [OF assms(1)] by blast
  have "NET_CL_AdvanceWindow sample_cl_env s = s"
    using assms(2) s(2) unfolding NET_CL_AdvanceWindow_def by (subst advance_window.simps) simp
  then show ?thesis using s quiet_check [OF s(1)] assms(2) by simp
qed

lemma still_patch: "NET_TiccmdPatch zero_ticcmd (NET_TiccmdDiff zero_ticcmd zero_ticcmd) = zero_ticcmd"
  by code_simp

lemma still_expand: "(\<And>i. i \<in> set is \<Longrightarrow> i < NET_MAXPLAYERS) \<Longrightarrow>
  expand_players s (still_tic me) is (replicate 8 zero_ticcmd) (replicate 8 zero_ticcmd)
    = (replicate 8 zero_ticcmd, replicate 8 zero_ticcmd)"
proof (induction "is")
  case (Cons i "is")
  have "i < 8" using Cons.prems by (simp add: NET_MAXPLAYERS_def)
  moreover have "(replicate 8 zero_ticcmd)[i := zero_ticcmd] = replicate 8 zero_ticcmd"
    using list_update_id [of "replicate 8 zero_ticcmd" i] \<open>i < 8\<close> by simp
  ultimately show ?case using Cons by (simp add: still_patch still_tic_def Let_def)
qed simp

definition still_call :: "nat \<Rightarrow> ticcmd list \<times> bool list" where
  "still_call me = (replicate 8 zero_ticcmd, map (\<lambda>i. i < 2 \<and> i \<noteq> me) [0..<NET_MAXPLAYERS])"

lemma quiet_advance:
  assumes "quiet c" "sr_active (cw c ! 0)" "\<not> sr_active (cw c ! 1)" "sr_cmd (cw c ! 0) = still_tic me"
    "recvwindow_cmd_base c = replicate 8 zero_ticcmd"
  shows "\<exists>c'. NET_CL_Run sample_cl_env [] c = Inr c' \<and> quiet c' \<and> cl_ticcalls c' = cl_ticcalls c @ [Some (still_call me)]
    \<and> \<not> sr_active (cw c' ! 0)"
proof -
  obtain s where s: "quiet s" "cw s = cw c" "cl_ticcalls s = cl_ticcalls c" "recvwindow_cmd_base s = recvwindow_cmd_base c"
    "NET_CL_Run sample_cl_env [] c = Inr (NET_CL_CheckResends sample_cl_env (NET_CL_AdvanceWindow sample_cl_env s))"
    using quiet_run [OF assms(1)] by blast
  let ?tc = "ce_junk_ticcmds sample_cl_env"
  obtain tc' s' where a: "advance_tic ?tc s = (tc', s')" by fastforce
  have w: "cw s' = tl (cw c) @ [blank_server_recv]" using advance_tic_window [of ?tc s] a s(2) by simp
  have len: "length (cw c) = BACKUPTICS" using assms(1) by (simp add: quiet_def)
  then have ne: "cw s \<noteq> []" using s(2) by (auto simp: BACKUPTICS_def)
  have w0: "cw s' ! 0 = cw c ! 1" using len by (simp add: w nth_append nth_tl BACKUPTICS_def)
  have "advance_window ?tc s = advance_window tc' s'" using assms(2) ne a s(2) by (subst advance_window.simps) simp
  also have "\<dots> = s'" using w0 assms(3) by (subst advance_window.simps) simp
  finally have adv: "NET_CL_AdvanceWindow sample_cl_env s = s'" by (simp add: NET_CL_AdvanceWindow_def)
  have "set (tl (cw c)) \<subseteq> set (cw c)" by (cases "cw c") auto
  then have "\<forall>r \<in> set (cw s'). sr_resend_time r = 0" "length (cw s') = BACKUPTICS"
    using assms(1) len by (auto simp: w quiet_def blank_server_recv_def BACKUPTICS_def)
  then have "quiet s'"
    using s(1) a by (auto simp: quiet_def advance_tic_def NET_CL_ExpandFullTiccmd_def split_def Let_def)
  moreover have "?tc = replicate 8 zero_ticcmd" "fc_playeringame (still_tic me) = snd (still_call me)"
    by (simp_all add: sample_cl_env_def still_tic_def still_call_def)
  then have "cl_ticcalls s' = cl_ticcalls c @ [Some (still_call me)]"
    using a s(3) still_expand [of "[0..<NET_MAXPLAYERS]"]
    by (auto simp: advance_tic_def NET_CL_ExpandFullTiccmd_def Let_def s(2,4) assms(4,5) still_call_def)
  ultimately show ?thesis using s(5) adv quiet_check w0 assms(3) by auto
qed

lemma quiet_SendTiccmd:
  assumes "quiet c" "NET_CL_SendTiccmd e cmd t c = Inr c'"
  shows "quiet c' \<and> cw c' = cw c"
  using assms
  by (auto simp: quiet_def NET_CL_SendTiccmd_def NET_CL_SendTics_def cl_connection_op_def NET_Conn_SendPacket_def
      calm_connection_def Let_def split: if_splits)

text \<open>The client keeps still while tics are made.\<close>

definition idle :: "game_loop \<Rightarrow> bool" where
  "idle s \<longleftrightarrow> quiet (lp_client s) \<and> \<not> sr_active (cw (lp_client s) ! 0)"

lemma idle_BuildNewTic: "BuildNewTic e s = Inr (b, s') \<Longrightarrow> idle s \<Longrightarrow> idle s'"
  by (auto simp: BuildNewTic_def bindR_eq_Inr Let_def idle_def split: if_splits dest: quiet_SendTiccmd)

lemma idle_build_tics: "build_tics e n s = Inr s' \<Longrightarrow> idle s \<Longrightarrow> idle s'"
proof (induction n arbitrary: s)
  case (Suc n)
  obtain b s1 where s1: "BuildNewTic e s = Inr (b, s1)" "(if b then build_tics e n s1 else Inr s1) = Inr s'"
    using Suc.prems(1) by (auto simp: bindR_eq_Inr)
  then show ?case using idle_BuildNewTic [OF s1(1) Suc.prems(2)] Suc.IH by (cases b) auto
qed simp

lemma NetUpdate_idle:
  assumes "in_step d dr me before g s" "le_client e = sample_cl_env" "le_inbox e = []"
    "NET_CL_Run sample_cl_env [] (lp_client s) = Inr c" "quiet c" "\<not> sr_active (cw c ! 0)"
    "cl_ticcalls c = cl_ticcalls (lp_client s) @ map Some xs"
    "received before s + length xs \<le> g + BACKUPTICS" "small d (received before s + length xs)"
  shows "\<exists>s'. NetUpdate e s = Inr s' \<and> idle s' \<and> cl_ticcalls (lp_client s') = cl_ticcalls c"
proof -
  obtain recs where recs: "delivered (lp_client s) = before @ recs" "lock d dr me recs g s" using assms(1) by (auto simp: in_step_def)
  have n: "received before s = length recs" using recs(1) by (simp add: received_def)
  have drone: "drone c = drone (lp_client s)" using Run_calls [OF assms(4)] by simp
  have l: "lock d dr me recs g (s\<lparr>lp_client := c\<rparr>)" using recs(2) drone by (simp add: lock_def)
  have "\<exists>s1. foldR D_ReceiveTic (map Some xs) u = Inr s1 \<and> lock d dr me (recs @ xs) g s1 \<and> lp_client s1 = lp_client u"
    if "lock d dr me recs g u" "length recs + length xs \<le> g + BACKUPTICS" "small d (length recs + length xs)" for u recs
    using that
  proof (induction xs arbitrary: u recs)
    case Nil
    then show ?case by simp
  next
    case (Cons x xs)
    have "small d (length recs)" by (rule small_mono [OF Cons.prems(3)]) simp
    then obtain u1 where u1: "D_ReceiveTic (Some x) u = Inr u1" "lock d dr me (recs @ [x]) g u1" "lp_client u1 = lp_client u"
      using ReceiveTic_lock [OF Cons.prems(1)] Cons.prems(2) by fastforce
    then show ?case using Cons.IH [OF u1(2)] Cons.prems(2,3) by simp
  qed
  from this [OF l] obtain s1 where s1: "foldR D_ReceiveTic (map Some xs) (s\<lparr>lp_client := c\<rparr>) = Inr s1"
    "lock d dr me (recs @ xs) g s1" "lp_client s1 = c" using assms(8,9) n by auto
  have r: "loop_NET_CL_Run (le_client e) (le_inbox e) s = Inr s1"
    using s1(1) assms(2,3,4,7) by (simp add: loop_NET_CL_Run_def)
  have sm: "small d (length (recs @ xs))" using assms(9) n by simp
  have "ticdup s1 \<noteq> 0" using gameticdiv(1) [OF s1(2) sm] by (auto simp: divR_def split: if_splits)
  then obtain t where t: "divR (GetAdjustedTime (le_ms e) s1) (ticdup s1) = Inr t" by (simp add: divR_def)
  have q: "lock d dr me (recs @ xs) g (s1\<lparr>lasttime := t, skiptics := k\<rparr>)" "idle (s1\<lparr>lasttime := t, skiptics := k\<rparr>)" for k
    using s1(2,3) assms(5,6) by (simp_all add: lock_quiet idle_def)
  have "\<exists>s'. build_tics e m (s1\<lparr>lasttime := t, skiptics := k\<rparr>) = Inr s' \<and> idle s' \<and> cl_ticcalls (lp_client s') = cl_ticcalls c" for m k
    using build_tics_lock [OF q(1) sm, of e m k] idle_build_tics [OF _ q(2)] s1(3) by fastforce
  note b = this
  have ns: "\<not> singletics s" using recs(2) by (simp add: lock_def)
  show ?thesis
  proof (cases "skiptics s1 \<le>s t - lasttime s1")
    case True
    then show ?thesis using b [of "nat (sint (t - lasttime s1 - skiptics s1))" 0] ns by (simp add: NetUpdate_def r t Let_def)
  next
    case False
    then show ?thesis using b [of 0 "skiptics s1 - (t - lasttime s1)"] ns by (simp add: NetUpdate_def r t Let_def)
  qed
qed

lemma build_tics_3: "build_tics e 3 s = bindR (BuildNewTic e s) (\<lambda>(more, s). if more then build_tics e 2 s else Inr s)"
  using build_tics.simps(2) [of e 2 s] by (simp add: eval_nat_numeral)

lemma BuildNewTic_sync: "BuildNewTic e s = Inr (b, s') \<Longrightarrow> new_sync s' = new_sync s"
  by (auto simp: BuildNewTic_def bindR_eq_Inr Let_def split: if_splits)

lemma build_tics_sync: "build_tics e n s = Inr s' \<Longrightarrow> new_sync s' = new_sync s"
  by (induction n arbitrary: s) (auto simp: bindR_eq_Inr split: if_splits dest: BuildNewTic_sync)

lemma NetUpdate_makes:
  assumes "in_step d dr me before 0 s" "NetUpdate sample_loop_env s = Inr s'" "\<not> new_sync s" "lasttime s = 0"
    "skiptics s = 0" "ticdup s = 1" "\<not> dr" "lp_made s = []"
  shows "lp_made s' \<noteq> [] \<and> \<not> new_sync s'"
proof -
  let ?e = sample_loop_env
  have l: "gametic s = 0" "maketic s = 0" "\<not> drone (lp_client s)" "\<not> singletics s"
    using assms(1,7,8) by (auto simp: in_step_def lock_def)
  obtain s1 where s1: "loop_NET_CL_Run (le_client ?e) (le_inbox ?e) s = Inr s1"
    using assms(2) l(4) by (auto simp: NetUpdate_def bindR_eq_Inr)
  obtain c xs where c: "foldR D_ReceiveTic xs (s\<lparr>lp_client := c\<rparr>) = Inr s1" "drone c = drone (lp_client s)"
    using s1 Run_calls by (auto simp: loop_NET_CL_Run_def bindR_eq_Inr)
  have f: "\<not> new_sync s1 \<and> lasttime s1 = 0 \<and> skiptics s1 = 0 \<and> ticdup s1 = 1 \<and> gametic s1 = 0 \<and> maketic s1 = 0
      \<and> lp_made s1 = [] \<and> lp_client s1 = c"
    by (rule foldR_inv [OF c(1)])
      (use assms(3-6,8) l in \<open>auto simp: D_ReceiveTic_def D_Disconnected_def bindR_eq_Inr split: option.splits if_splits\<close>)
  have t: "divR (GetAdjustedTime (le_ms ?e) s1) 1 = Inr 3"
    using f by (simp add: divR_def GetAdjustedTime_def sample_loop_env_def TICRATE_def c_div_def c_quot_def)
  have "build_tics ?e 3 (s1\<lparr>lasttime := 3, skiptics := 0\<rparr>) = Inr s'"
    using assms(2) l(4) f by (simp add: NetUpdate_def s1 t Let_def word_sle_eq)
  then obtain b s2 where s2: "BuildNewTic ?e (s1\<lparr>lasttime := 3, skiptics := 0\<rparr>) = Inr (b, s2)"
    "(if b then build_tics ?e 2 s2 else Inr s2) = Inr s'"
    by (auto simp: build_tics_3 bindR_eq_Inr)
  have "lp_made s2 \<noteq> [] \<and> \<not> new_sync s2"
    using s2(1) f l(3) c(2)
    by (auto simp: BuildNewTic_def divR_def c_div_def c_quot_def bindR_eq_Inr Let_def word_sle_eq split: if_splits)
  moreover have "new_sync s' = new_sync s2" using s2(2) build_tics_sync [of ?e 2 s2 s'] by (cases b) auto
  moreover have "grown s2 s'" using s2(2) build_tics_grown [of ?e 2 s2 s'] by (cases b) auto
  ultimately show ?thesis by (auto simp: grown_def)
qed

lemma loaded_quiet: "quiet (loaded_client me)" "sr_active (cw (loaded_client me) ! 0)" "\<not> sr_active (cw (loaded_client me) ! 1)"
  "sr_cmd (cw (loaded_client me) ! 0) = still_tic me" "recvwindow_cmd_base (loaded_client me) = replicate 8 zero_ticcmd"
  by (auto simp: quiet_def loaded_client_def game_client_def idle_client_def calm_connection_def sample_cl_env_def
      CONNECTION_TIMEOUT_LEN_def blank_server_recv_def BACKUPTICS_def NET_MAXPLAYERS_def)

lemma sample_new: "me < NET_MAXPLAYERS \<Longrightarrow> new_game (sample_loop me)"
  using unat_of_nat_small [of me] NET_MAXPLAYERS_small by (auto simp: new_game_def sample_loop_def NET_MAXPLAYERS_def BACKUPTICS_def)

text \<open>The commands made in the sample game are still.\<close>

definition still_made :: "game_loop \<Rightarrow> bool" where
  "still_made s \<longleftrightarrow> set (lp_made s) \<subseteq> {zero_ticcmd}"

lemma NetUpdate_builds:
  assumes "NetUpdate e s = Inr s'" "\<not> singletics s"
  shows "\<exists>s1 t k n. loop_NET_CL_Run (le_client e) (le_inbox e) s = Inr s1
    \<and> build_tics e n (s1\<lparr>lasttime := t, skiptics := k\<rparr>) = Inr s'"
proof -
  obtain s1 t where s1: "loop_NET_CL_Run (le_client e) (le_inbox e) s = Inr s1"
    and u: "(let newtics = t - lasttime s1; s = s1\<lparr>lasttime := t\<rparr>;
            (newtics, s) = (if skiptics s \<le>s newtics then (newtics - skiptics s, s\<lparr>skiptics := 0\<rparr>)
                            else (0, s\<lparr>skiptics := skiptics s - newtics\<rparr>))
        in build_tics e (nat (sint newtics)) s) = Inr s'"
    using assms by (auto simp: NetUpdate_def bindR_eq_Inr)
  show ?thesis
  proof (cases "skiptics s1 \<le>s t - lasttime s1")
    case True
    then show ?thesis using s1 u by (auto simp: Let_def)
  next
    case False
    then have "build_tics e 0 (s1\<lparr>lasttime := t, skiptics := skiptics s1 - (t - lasttime s1)\<rparr>) = Inr s'" using u by (simp add: Let_def)
    then show ?thesis using s1 by blast
  qed
qed

lemma still_NetUpdate:
  assumes "NetUpdate sample_loop_env s = Inr s'" "still_made s"
  shows "still_made s'"
proof (cases "singletics s")
  case True
  then show ?thesis using assms by (simp add: NetUpdate_def)
next
  case False
  obtain s1 t k n where s1: "loop_NET_CL_Run (le_client sample_loop_env) (le_inbox sample_loop_env) s = Inr s1"
    and n: "build_tics sample_loop_env n (s1\<lparr>lasttime := t, skiptics := k\<rparr>) = Inr s'"
    using NetUpdate_builds [OF assms(1) False] by blast
  obtain c xs where c: "foldR D_ReceiveTic xs (s\<lparr>lp_client := c\<rparr>) = Inr s1"
    using s1 by (auto simp: loop_NET_CL_Run_def bindR_eq_Inr)
  have "lp_made s1 = lp_made s"
    by (rule foldR_inv [OF c]) (auto dest: ReceiveTic_same)
  then have q: "still_made (s1\<lparr>lasttime := t, skiptics := k\<rparr>)" using assms(2) by (simp add: still_made_def)
  have b: "BuildNewTic sample_loop_env v = Inr (b, v') \<Longrightarrow> still_made v \<Longrightarrow> still_made v'" for v b v'
    by (auto simp: BuildNewTic_def bindR_eq_Inr Let_def still_made_def sample_loop_env_def split: if_splits)
  have "build_tics sample_loop_env n v = Inr s' \<Longrightarrow> still_made v \<Longrightarrow> still_made s'" for n v
    by (induction n arbitrary: v) (auto simp: bindR_eq_Inr split: if_splits dest: b)
  then show ?thesis using n q by blast
qed

text \<open>The first turn of the sample game runs its first tic.\<close>

lemma sample_turn:
  assumes "me < NET_MAXPLAYERS"
  shows "\<exists>s. loop_plays (sample_loop me) s \<and> length (lp_runs s) = 1 \<and> tics_of (sample_loop me) s = [still_call me] \<and> still_made s"
proof -
  let ?l = "sample_loop me"
  let ?e = sample_loop_env and ?s = "?l\<lparr>oldentertics := 0\<rparr>"
  have me: "unat (of_nat me :: u32) = me" using unat_of_nat_small [of me] assms NET_MAXPLAYERS_small by simp
  have i0: "in_step 1 False me [] 0 ?l"
    using new_game_in_step [OF sample_new [OF assms]] me
    by (simp add: sample_loop_def loaded_client_def delivered_def game_client_def idle_client_def)
  then have i0': "in_step 1 False me [] 0 ?s" by (simp add: in_step_def lock_quiet)
  obtain c where c: "NET_CL_Run sample_cl_env [] (loaded_client me) = Inr c" "quiet c"
    "cl_ticcalls c = cl_ticcalls (loaded_client me) @ map Some [still_call me]" "\<not> sr_active (cw c ! 0)"
    using quiet_advance [OF loaded_quiet] by auto
  have lc: "lp_client ?s = loaded_client me" "received [] ?s = 0" "cl_ticcalls (loaded_client me) = []" "lp_client ?l = loaded_client me"
    "delivered (loaded_client me) = []"
    by (simp_all add: sample_loop_def received_def delivered_def loaded_client_def game_client_def idle_client_def)
  have e: "le_client ?e = sample_cl_env" "le_inbox ?e = []" by (simp_all add: sample_loop_env_def)
  obtain s2 where s2: "NetUpdate ?e ?s = Inr s2" "idle s2" "cl_ticcalls (lp_client s2) = cl_ticcalls c"
    using NetUpdate_idle [OF i0' e, of c "[still_call me]"] c lc by (auto simp: small_def BACKUPTICS_def)
  have rec: "received [] s2 = 1" using s2(3) c(3) lc(3) by (simp add: received_def delivered_somes)
  have i2: "in_step 1 False me [] 0 s2" "grown ?s s2"
    using NetUpdate_lock [OF i0' s2(1)] rec by (simp_all add: small_def BACKUPTICS_def)
  have m: "lp_made s2 \<noteq> []" "\<not> new_sync s2" using NetUpdate_makes [OF i0' s2(1)] by (simp_all add: sample_loop_def)
  have still: "still_made s2" using still_NetUpdate [OF s2(1)] by (simp add: still_made_def sample_loop_def)
  have con: "net_client_connected (lp_client s2)" using s2(2) by (simp add: idle_def quiet_def)
  have sm: "small 1 (received [] s2)" by (simp add: rec small_def)
  obtain low where low: "GetLowTic s2 = of_nat low" "\<forall>k. k \<le> low \<longleftrightarrow> ready False [] k s2"
    using GetLowTic_ready [OF i2(1) con sm] by blast
  have "ready False [] 1 s2" "\<not> ready False [] 2 s2" using rec m(1) by (cases "lp_made s2"; simp add: ready_def)+
  then have "low = 1" using low(2) [rule_format, of 1] low(2) [rule_format, of 2] by simp
  then have low1: "GetLowTic s2 = 1" using low(1) by simp
  let ?s3 = "OldNetSync s2"
  obtain recs where recs: "delivered (lp_client s2) = recs" "lock 1 False me recs 0 s2" using i2(1) by (auto simp: in_step_def)
  then have r1: "length recs = 1" using rec by (simp add: received_def)
  have l3: "lock 1 False me recs 0 ?s3" using recs(2) by (simp add: OldNetSync_lock)
  have sm1: "small 1 (length recs)" by (simp add: r1 small_def)
  note gd = gameticdiv [OF l3 sm1] gameticdiv [OF recs(2) sm1]
  have "length (ticdata ?s3) = BACKUPTICS" using l3 by (simp add: lock_def)
  have "\<exists>s4. run_one 1 ?s3 = Inr s4"
    using gd l3 con by (simp add: run_one_def ring_index_def OldNetSync_lock(3) lock_def word_sless_alt Let_def c_div_def c_quot_def)
  then obtain s4 where s4: "run_one 1 ?s3 = Inr s4" by blast
  have made: "0 < length (lp_made ?s3)" using m(1) by (simp add: OldNetSync_lock(4))
  have l4: "lock 1 False me recs 1 s4" "lp_client s4 = lp_client s2" "lp_made s4 = lp_made s2"
    using run_one_lock [OF l3 sm1 _ _ _ s4] con r1 made by (simp_all add: OldNetSync_lock)
  have i4: "in_step 1 False me [] 1 s4" using l4 recs(1) by (auto simp: in_step_def)
  obtain c' where c': "NET_CL_Run sample_cl_env [] (lp_client s4) = Inr c'" "quiet c'" "cl_ticcalls c' = cl_ticcalls (lp_client s4)"
    "\<not> sr_active (cw c' ! 0)"
    using quiet_idle [of "lp_client s4"] s2(2) l4(2) by (auto simp: idle_def)
  have "received [] s4 = 1" using rec l4(2) by (simp add: received_def)
  then obtain s5 where s5: "NetUpdate ?e s4 = Inr s5" "idle s5" "cl_ticcalls (lp_client s5) = cl_ticcalls c'"
    using NetUpdate_idle [OF i4 e c'(1,2,4), of "[]"] c'(3) by (auto simp: small_def BACKUPTICS_def)
  have calls: "cl_ticcalls (lp_client s5) = cl_ticcalls (lp_client s2)" using s5(3) c'(3) l4(2) by simp
  then have rec5: "received [] s5 = 1" using rec by (simp add: received_def delivered_somes)
  then have i5: "in_step 1 False me [] 1 s5"
    using NetUpdate_lock [OF i4 s5(1)] by (simp add: small_def BACKUPTICS_def)
  have "run_tics 1 1 [?e] ?s3 = Some (Inr s5)"
    using s4 s5(1) l3 by (simp add: PlayersInGame_def lock_def)
  then have w: "wait_tics 0 1 1 [?e] ?s3 = Some (Inr s5)"
    using gd(1) l3 by (subst wait_tics.simps) (simp add: PlayersInGame_def lock_def word_sless_alt)
  have "tic_count False 0 1 = 1" by (simp add: tic_count_def word_sless_alt)
  then have "TryRunTics 0 [?e, ?e] ?l = Some (Inr s5)"
    using w m(2) con low1 gd(4) s2(1)
    by (simp add: TryRunTics_def Let_def divR_def c_div_def c_quot_def sample_loop_def)
  moreover have "in_reach ?l ?l s5"
    using s5(2) rec5
    by (simp add: in_reach_def idle_def quiet_def received_tics [symmetric] received_def lc delivered_somes sample_loop_def
        loaded_client_def game_client_def idle_client_def tics_run_def BACKUPTICS_def)
  ultimately have "loop_plays ?l s5" using loop_tics [OF loop_start] by blast
  moreover have "tics_of ?l s5 = [still_call me]"
    using calls s2(3) c(3) lc by (simp add: tics_of_def delivered_somes)
  moreover have "still_made s5"
    using still_NetUpdate [OF s5(1)] still l4(3) by (simp add: still_made_def)
  ultimately show ?thesis using in_step_run [OF i5] by auto
qed

lemma game_in_lockstep_witness:
  "\<exists>s. loop_plays (sample_loop 1) s \<and> length (lp_runs s) = 1 \<and> right_run (sample_loop 1) s 0"
proof -
  have m: "1 < NET_MAXPLAYERS" by (simp add: NET_MAXPLAYERS_def)
  obtain s where s: "loop_plays (sample_loop 1) s" "length (lp_runs s) = 1" using sample_turn [OF m] by blast
  then show ?thesis using game_in_lockstep [OF sample_new [OF m] s(1), of 0] by auto
qed

subsection \<open>Machines that play together\<close>






subsection \<open>The clock\<close>

text \<open>The clock of the loop is exact for the first 61356675 milliseconds, about 17 hours.\<close>

lemma clock_exact:
  assumes "new_sync s \<Longrightarrow> offsetms (lp_client s) = 0" "unat t < 61356676"
  shows "GetAdjustedTime t s = of_nat (unat t * 35 div 1000)"
proof -
  have "unat t * 35 < 2147483648" using assms(2) by simp
  moreover have "t * TICRATE = of_nat (unat t * 35)" by (simp add: TICRATE_def)
  ultimately have "c_div (t * TICRATE) 1000 = of_nat (unat t * 35 div 1000)"
    using c_div_nat [of "unat t * 35" 1000] by simp
  moreover have "c_div 0 FRACUNIT = 0" by (simp add: c_div_def c_quot_def)
  ultimately show ?thesis using assms(1) by (simp add: GetAdjustedTime_def Let_def)
qed

text \<open>
  One millisecond later \<open>time_ms * TICRATE\<close> overflows. \<open>NetUpdate\<close> then makes no tic, and is left with
  4294966 tics to skip (34 hours) before it makes the next one.
\<close>

lemma clock_wraps:
  assumes "\<not> singletics s" "\<not> net_client_connected (lp_client s)" "ticdup s = 1" "skiptics s = 0"
    "new_sync s \<Longrightarrow> offsetms (lp_client s) = 0" "lasttime s = GetAdjustedTime 61356675 s" "le_ms e = 61356676"
  shows "NetUpdate e s = Inr (s\<lparr>lasttime := - 2147483, skiptics := 4294966\<rparr>)"
proof -
  have "lasttime s = 2147483" using clock_exact [OF assms(5), of 61356675] assms(6) by simp
  moreover have "GetAdjustedTime 61356676 s = - 2147483"
    using assms(5) by (simp add: GetAdjustedTime_def TICRATE_def c_div_def c_quot_def)
  moreover have "loop_NET_CL_Run (le_client e) (le_inbox e) s = Inr s"
    using assms(2) by (simp add: loop_NET_CL_Run_def NET_CL_Run_def)
  ultimately show ?thesis using assms(1,3,4,7)
    by (simp add: NetUpdate_def divR_def c_div_def c_quot_def Let_def word_sle_eq)
qed

subsection \<open>Tics that come too early\<close>

text \<open>
  \<open>localplayer\<close> is set after the start message has been waited for. The tics handed on before that leave
  the entries of the player it still names (player 0 at first) as they were, also on a machine that is
  another player.
\<close>

definition entry_of :: "nat \<Rightarrow> ticcmd_set \<Rightarrow> ticcmd \<times> bool" where
  "entry_of i t = (ts_cmds t ! i, ts_ingame t ! i)"

definition left_out :: "game_loop \<Rightarrow> game_loop \<Rightarrow> bool" where
  "left_out s s' \<longleftrightarrow> localplayer s' = localplayer s \<and> drone (lp_client s') = drone (lp_client s)
     \<and> map (entry_of (unat (localplayer s))) (ticdata s') = map (entry_of (unat (localplayer s))) (ticdata s)"

lemma left_out_trans: "left_out s t \<Longrightarrow> left_out t u \<Longrightarrow> left_out s u"
  by (simp add: left_out_def)

lemma recv_players_entry:
  "entry_of (unat me) (recv_players False me ticcmds players_mask is t) = entry_of (unat me) t"
proof (induction "is" arbitrary: t)
  case (Cons i "is")
  have "i \<noteq> unat me" if "of_nat i \<noteq> me" using that by auto
  then show ?case using Cons by (simp add: entry_of_def)
qed simp

lemma ReceiveTic_left_out:
  assumes "D_ReceiveTic x s = Inr s'" "\<not> drone (lp_client s)"
  shows "left_out s s'"
proof (cases x)
  case (Some r)
  then obtain ticcmds players_mask where r: "x = Some (ticcmds, players_mask)" by fastforce
  then obtain k where s': "s' = s\<lparr>ticdata := (ticdata s)[k := recv_players False (localplayer s) ticcmds players_mask
      [0..<NET_MAXPLAYERS] (ticdata s ! k)], recvtic := recvtic s + 1\<rparr>"
    using assms by (auto simp: D_ReceiveTic_def bindR_eq_Inr)
  have "map (entry_of (unat (localplayer s))) ((ticdata s)[k := recv_players False (localplayer s) ticcmds players_mask
      [0..<NET_MAXPLAYERS] (ticdata s ! k)]) = map (entry_of (unat (localplayer s))) (ticdata s)"
  proof (rule nth_equalityI)
    fix i assume "i < length (map (entry_of (unat (localplayer s))) ((ticdata s)[k := recv_players False (localplayer s)
      ticcmds players_mask [0..<NET_MAXPLAYERS] (ticdata s ! k)]))"
    then show "map (entry_of (unat (localplayer s))) ((ticdata s)[k := recv_players False (localplayer s) ticcmds
      players_mask [0..<NET_MAXPLAYERS] (ticdata s ! k)]) ! i = map (entry_of (unat (localplayer s))) (ticdata s) ! i"
      by (cases "i = k") (simp_all add: recv_players_entry)
  qed simp
  then show ?thesis by (simp add: left_out_def s')
qed (use assms in \<open>simp add: D_ReceiveTic_def D_Disconnected_def left_out_def\<close>)

lemma client_run_left_out:
  assumes "loop_NET_CL_Run e inbox s = Inr s'" "\<not> drone (lp_client s)"
  shows "left_out s s'"
proof -
  obtain c xs where c: "NET_CL_Run e inbox (lp_client s) = Inr c" "foldR D_ReceiveTic xs (s\<lparr>lp_client := c\<rparr>) = Inr s'"
    using assms(1) by (auto simp: loop_NET_CL_Run_def bindR_eq_Inr)
  have d: "drone c = drone (lp_client s)" using Run_calls [OF c(1)] by simp
  have "left_out (s\<lparr>lp_client := c\<rparr>) s'"
    by (rule foldR_inv [OF c(2), where P = "left_out (s\<lparr>lp_client := c\<rparr>)"])
      (use assms(2) d in \<open>auto simp: left_out_def dest!: ReceiveTic_left_out\<close>)
  then show ?thesis using d by (simp add: left_out_def)
qed

lemma early_tics_left_out:
  assumes "D_StartNetGame opts rounds settings s = Some (Inr (settings', s'))" "\<not> drone (lp_client s)"
  shows "map (entry_of (unat (localplayer s))) (ticdata s') = map (entry_of (unat (localplayer s))) (ticdata s)
    \<and> localplayer s' = gs_consoleplayer settings'"
proof -
  have b: "BlockUntilStart rounds settings u = Some (Inr (settings', u')) \<Longrightarrow> \<not> drone (lp_client u) \<Longrightarrow> left_out u u'"
    for rounds settings u settings' u'
  proof (induction rounds arbitrary: u)
    case Nil
    then show ?case by (subst (asm) BlockUntilStart.simps) (auto simp: left_out_def split: option.splits)
  next
    case (Cons r rounds)
    show ?case
    proof (cases "NET_CL_GetSettings (lp_client u)")
      case None
      obtain e inbox go_on where r: "r = (e, inbox, go_on)" by (cases r)
      then obtain u1 where u1: "loop_NET_CL_Run e inbox u = Inr u1" "BlockUntilStart rounds settings u1 = Some (Inr (settings', u'))"
        using Cons.prems(1) None by (subst (asm) BlockUntilStart.simps) (auto split: sum.splits if_splits)
      note l = client_run_left_out [OF u1(1) Cons.prems(2)]
      then show ?thesis using Cons.IH [OF u1(2)] Cons.prems(2) left_out_trans by (auto simp: left_out_def)
    next
      case (Some x)
      then show ?thesis using Cons.prems(1) by (subst (asm) BlockUntilStart.simps) (auto simp: left_out_def)
    qed
  qed
  let ?s = "s\<lparr>lp_client := (lp_client s)\<lparr>offsetms := 0\<rparr>, recvtic := 0\<rparr>"
  show ?thesis
  proof (cases "net_client_connected (lp_client s)")
    case True
    then obtain c settings1 u where c: "NET_CL_StartGame (start_settings opts settings ?s) (lp_client ?s) = Inr c"
      and u: "BlockUntilStart rounds (start_settings opts settings ?s) (?s\<lparr>lp_client := c\<rparr>) = Some (Inr (settings1, u))"
      and s': "ticdata s' = ticdata u" "localplayer s' = gs_consoleplayer settings'"
      using assms(1) by (auto simp: D_StartNetGame_def Let_def bindR_eq_Inr split: sum.splits)
    have "drone c = drone (lp_client s)" using c by (auto simp: NET_CL_StartGame_def Let_def bindR_eq_Inr)
    then show ?thesis using b [OF u] assms(2) s' by (simp add: left_out_def)
  next
    case False
    then show ?thesis using assms by (auto simp: D_StartNetGame_def Let_def)
  qed
qed

end
