(* ===== verification/P_World.thy ===== *)
theory P_World
  imports Net_Structrw
begin

text \<open>
  The data of the play simulation (\<open>doom/p_mobj.h\<close>, \<open>d_player.h\<close>, \<open>p_pspr.h\<close>, \<open>p_spec.h\<close>, \<open>r_defs.h\<close>,
  \<open>d_think.h\<close>): objects that think, players, and the map. An \<open>int\<close>, a \<open>fixed_t\<close>, an angle, an
  enumeration and a \<open>boolean\<close> are 32-bit words, a \<open>short\<close> is a 16-bit word.

  Objects that think are allocated; a pointer to one is an address (\<open>ptr\<close>, 0 is NULL), as are
  the other pointers the game only passes on. A pointer into an array that lasts for the level is the
  index into it: \<open>sector_t *\<close>, \<open>state_t *\<close>, \<open>player_t *\<close>. Fields that only drawing uses are left out.
\<close>

type_synonym ptr = u32
type_synonym fixed = u32

subsection \<open>Objects that think\<close>

record thinker =
  th_prev :: ptr
  th_next :: ptr
  th_function :: ptr

record mapthing =
  mt_x :: u16
  mt_y :: u16
  mt_angle :: u16
  mt_type :: u16
  mt_options :: u16

record mobj =
  mo_thinker :: thinker
  mo_x :: fixed
  mo_y :: fixed
  mo_z :: fixed
  mo_snext :: ptr
  mo_sprev :: ptr
  mo_angle :: u32
  mo_sprite :: u32
  mo_frame :: u32
  mo_bnext :: ptr
  mo_bprev :: ptr
  mo_subsector :: ptr
  mo_floorz :: fixed
  mo_ceilingz :: fixed
  mo_radius :: fixed
  mo_height :: fixed
  mo_momx :: fixed
  mo_momy :: fixed
  mo_momz :: fixed
  mo_validcount :: u32
  mo_type :: u32
  mo_info :: ptr
  mo_tics :: u32
  mo_state :: u32
  mo_flags :: u32
  mo_health :: u32
  mo_movedir :: u32
  mo_movecount :: u32
  mo_target :: ptr
  mo_reactiontime :: u32
  mo_threshold :: u32
  mo_player :: "u32 option"
  mo_lastlook :: u32
  mo_spawnpoint :: mapthing
  mo_tracer :: ptr

record ceiling =
  ceil_thinker :: thinker
  ceil_type :: u32
  ceil_sector :: u32
  ceil_bottomheight :: fixed
  ceil_topheight :: fixed
  ceil_speed :: fixed
  ceil_oldspeed :: fixed
  ceil_crush :: u32
  ceil_newspecial :: u32
  ceil_oldspecial :: u32
  ceil_texture :: u16
  ceil_direction :: u32
  ceil_tag :: u32
  ceil_olddirection :: u32
  ceil_list :: ptr

record vldoor =
  door_thinker :: thinker
  door_type :: u32
  door_sector :: u32
  door_topheight :: fixed
  door_speed :: fixed
  door_direction :: u32
  door_topwait :: u32
  door_topcountdown :: u32
  door_line :: ptr
  door_lighttag :: u32

record floormove =
  floor_thinker :: thinker
  floor_type :: u32
  floor_crush :: u32
  floor_sector :: u32
  floor_direction :: u32
  floor_newspecial :: u32
  floor_oldspecial :: u32
  floor_texture :: u16
  floor_floordestheight :: fixed
  floor_speed :: fixed

record plat =
  plat_thinker :: thinker
  plat_sector :: u32
  plat_speed :: fixed
  plat_low :: fixed
  plat_high :: fixed
  plat_wait :: u32
  plat_count :: u32
  plat_status :: u32
  plat_oldstatus :: u32
  plat_crush :: u32
  plat_tag :: u32
  plat_type :: u32

record lightflash =
  flash_thinker :: thinker
  flash_sector :: u32
  flash_count :: u32
  flash_maxlight :: u32
  flash_minlight :: u32
  flash_maxtime :: u32
  flash_mintime :: u32

record strobe =
  strobe_thinker :: thinker
  strobe_sector :: u32
  strobe_count :: u32
  strobe_minlight :: u32
  strobe_maxlight :: u32
  strobe_darktime :: u32
  strobe_brighttime :: u32

record glow =
  glow_thinker :: thinker
  glow_sector :: u32
  glow_minlight :: u32
  glow_maxlight :: u32
  glow_direction :: u32

record fireflicker =
  flick_thinker :: thinker
  flick_sector :: u32
  flick_count :: u32
  flick_maxlight :: u32
  flick_minlight :: u32

record elevator =
  elev_thinker :: thinker
  elev_type :: u32
  elev_sector :: u32
  elev_direction :: u32
  elev_floordestheight :: fixed
  elev_ceilingdestheight :: fixed
  elev_speed :: fixed

text \<open>\<open>Other\<close> is any other object that thinks (the head of the list of thinkers, for one).\<close>

datatype object = Mobj mobj | Ceiling ceiling | Door vldoor | Floor floormove | Plat plat | Flash lightflash
  | Strobe strobe | Glow glow | Flicker fireflicker | Elevator elevator | Other thinker

text \<open>The thinker at the start of every object.\<close>

fun thinker_of :: "object \<Rightarrow> thinker" where
  "thinker_of (Mobj x) = mo_thinker x"
| "thinker_of (Ceiling x) = ceil_thinker x"
| "thinker_of (Door x) = door_thinker x"
| "thinker_of (Floor x) = floor_thinker x"
| "thinker_of (Plat x) = plat_thinker x"
| "thinker_of (Flash x) = flash_thinker x"
| "thinker_of (Strobe x) = strobe_thinker x"
| "thinker_of (Glow x) = glow_thinker x"
| "thinker_of (Flicker x) = flick_thinker x"
| "thinker_of (Elevator x) = elev_thinker x"
| "thinker_of (Other x) = x"

fun set_thinker :: "thinker \<Rightarrow> object \<Rightarrow> object" where
  "set_thinker t (Mobj x) = Mobj (x\<lparr>mo_thinker := t\<rparr>)"
| "set_thinker t (Ceiling x) = Ceiling (x\<lparr>ceil_thinker := t\<rparr>)"
| "set_thinker t (Door x) = Door (x\<lparr>door_thinker := t\<rparr>)"
| "set_thinker t (Floor x) = Floor (x\<lparr>floor_thinker := t\<rparr>)"
| "set_thinker t (Plat x) = Plat (x\<lparr>plat_thinker := t\<rparr>)"
| "set_thinker t (Flash x) = Flash (x\<lparr>flash_thinker := t\<rparr>)"
| "set_thinker t (Strobe x) = Strobe (x\<lparr>strobe_thinker := t\<rparr>)"
| "set_thinker t (Glow x) = Glow (x\<lparr>glow_thinker := t\<rparr>)"
| "set_thinker t (Flicker x) = Flicker (x\<lparr>flick_thinker := t\<rparr>)"
| "set_thinker t (Elevator x) = Elevator (x\<lparr>elev_thinker := t\<rparr>)"
| "set_thinker t (Other x) = Other t"

lemma thinker_of_set [simp]: "thinker_of (set_thinker t x) = t"
  by (cases x) simp_all

lemma set_thinker_twice [simp]: "set_thinker t (set_thinker u x) = set_thinker t x"
  by (cases x) simp_all

lemma set_thinker_same [simp]: "set_thinker (thinker_of x) x = x"
  by (cases x) simp_all

text \<open>What memory that was just allocated holds.\<close>

record fresh =
  fresh_mobj :: "ptr \<Rightarrow> mobj"
  fresh_ceiling :: "ptr \<Rightarrow> ceiling"
  fresh_door :: "ptr \<Rightarrow> vldoor"
  fresh_floor :: "ptr \<Rightarrow> floormove"
  fresh_plat :: "ptr \<Rightarrow> plat"
  fresh_flash :: "ptr \<Rightarrow> lightflash"
  fresh_strobe :: "ptr \<Rightarrow> strobe"
  fresh_glow :: "ptr \<Rightarrow> glow"
  fresh_flicker :: "ptr \<Rightarrow> fireflicker"

subsection \<open>Players\<close>

record pspdef =
  psp_state :: "u32 option"
  psp_tics :: u32
  psp_sx :: fixed
  psp_sy :: fixed

record player =
  pl_mo :: ptr
  pl_playerstate :: u32
  pl_cmd :: ticcmd
  pl_viewz :: fixed
  pl_viewheight :: fixed
  pl_deltaviewheight :: fixed
  pl_bob :: fixed
  pl_health :: u32
  pl_armorpoints :: u32
  pl_armortype :: u32
  pl_powers :: "u32 list"
  pl_cards :: "u32 list"
  pl_backpack :: u32
  pl_frags :: "u32 list"
  pl_readyweapon :: u32
  pl_pendingweapon :: u32
  pl_weaponowned :: "u32 list"
  pl_ammo :: "u32 list"
  pl_maxammo :: "u32 list"
  pl_attackdown :: u32
  pl_usedown :: u32
  pl_cheats :: u32
  pl_refire :: u32
  pl_killcount :: u32
  pl_itemcount :: u32
  pl_secretcount :: u32
  pl_message :: ptr
  pl_damagecount :: u32
  pl_bonuscount :: u32
  pl_attacker :: ptr
  pl_extralight :: u32
  pl_fixedcolormap :: u32
  pl_colormap :: u32
  pl_psprites :: "pspdef list"
  pl_didsecret :: u32

definition MAXPLAYERS :: nat where "MAXPLAYERS = 4"
definition NUMPOWERS :: nat where "NUMPOWERS = 6"
definition NUMCARDS :: nat where "NUMCARDS = 6"
definition NUMWEAPONS :: nat where "NUMWEAPONS = 9"
definition NUMAMMO :: nat where "NUMAMMO = 4"
definition NUMPSPRITES :: nat where "NUMPSPRITES = 2"

lemmas player_consts = MAXPLAYERS_def NUMPOWERS_def NUMCARDS_def NUMWEAPONS_def NUMAMMO_def NUMPSPRITES_def

text \<open>The arrays of a player have their lengths.\<close>

definition player_ok :: "player \<Rightarrow> bool" where
  "player_ok p \<longleftrightarrow> length (pl_powers p) = NUMPOWERS \<and> length (pl_cards p) = NUMCARDS \<and> length (pl_frags p) = MAXPLAYERS
     \<and> length (pl_weaponowned p) = NUMWEAPONS \<and> length (pl_ammo p) = NUMAMMO \<and> length (pl_maxammo p) = NUMAMMO
     \<and> length (pl_psprites p) = NUMPSPRITES"

end
