(* ===== verification/P_Saveg.thy ===== *)
theory P_Saveg
  imports P_World
begin

text \<open>
  Saved games (\<open>doom/p_saveg.c\<close>): the stream, and the reading and writing of structures. \<open>ss_data\<close> is
  the contents of the file, \<open>ss_pos\<close> the position in it, and \<open>ss_room\<close> how many more bytes can be
  written. A function that reads a structure changes the one it is given, field by field, as in the
  code: it works on the structure and the stream. A pointer to a static array is read and written
  as its index.
\<close>

record save =
  ss_data :: bytes
  ss_pos :: nat
  ss_room :: nat
  savegame_error :: bool

text \<open>Statements in sequence; a loop over an array; a field that is read; a part of a structure that is read.\<close>

definition stmts :: "('s \<Rightarrow> 's) list \<Rightarrow> 's \<Rightarrow> 's" where
  "stmts fs s = fold (\<lambda>f s. f s) fs s"

definition array :: "nat \<Rightarrow> (nat \<Rightarrow> 's \<Rightarrow> 's) \<Rightarrow> 's \<Rightarrow> 's" where
  "array n f = stmts (map f [0..<n])"

definition field :: "(save \<Rightarrow> 'v \<times> save) \<Rightarrow> ('v \<Rightarrow> 'a \<Rightarrow> 'a) \<Rightarrow> 'a \<times> save \<Rightarrow> 'a \<times> save" where
  "field r put = (\<lambda>(x, st). case r st of (v, st) \<Rightarrow> (put v x, st))"

definition sub :: "('a \<Rightarrow> 'b) \<Rightarrow> ('b \<Rightarrow> 'a \<Rightarrow> 'a) \<Rightarrow> ('b \<times> save \<Rightarrow> 'b \<times> save) \<Rightarrow> 'a \<times> save \<Rightarrow> 'a \<times> save" where
  "sub get put f = (\<lambda>(x, st). case f (get x, st) of (y, st) \<Rightarrow> (put y x, st))"

subsection \<open>Numbers\<close>

definition saveg_read8 :: "save \<Rightarrow> u8 \<times> save" where
  "saveg_read8 st =
     (if ss_pos st < length (ss_data st) then (ss_data st ! ss_pos st, st\<lparr>ss_pos := ss_pos st + 1\<rparr>)
      else (- 1, st\<lparr>savegame_error := True\<rparr>))"

definition saveg_write8 :: "u8 \<Rightarrow> save \<Rightarrow> save" where
  "saveg_write8 v st =
     (if 0 < ss_room st
      then st\<lparr>ss_data := ss_data st @ [v], ss_pos := ss_pos st + 1, ss_room := ss_room st - 1\<rparr>
      else st\<lparr>savegame_error := True\<rparr>)"

definition saveg_read16 :: "save \<Rightarrow> u16 \<times> save" where
  "saveg_read16 st =
     (let (a, st) = saveg_read8 st; (b, st) = saveg_read8 st in (ucast a OR push_bit 8 (ucast b), st))"

definition saveg_write16 :: "u16 \<Rightarrow> save \<Rightarrow> save" where
  "saveg_write16 v = stmts [saveg_write8 (ucast (v AND 0xff)), saveg_write8 (ucast (drop_bit 8 v AND 0xff))]"

definition saveg_read32 :: "save \<Rightarrow> u32 \<times> save" where
  "saveg_read32 st =
     (let (a, st) = saveg_read8 st; (b, st) = saveg_read8 st; (c, st) = saveg_read8 st; (d, st) = saveg_read8 st
      in (ucast a OR push_bit 8 (ucast b) OR push_bit 16 (ucast c) OR push_bit 24 (ucast d), st))"

definition saveg_write32 :: "u32 \<Rightarrow> save \<Rightarrow> save" where
  "saveg_write32 v =
     stmts [saveg_write8 (ucast (v AND 0xff)), saveg_write8 (ucast (drop_bit 8 v AND 0xff)),
            saveg_write8 (ucast (drop_bit 16 v AND 0xff)), saveg_write8 (ucast (drop_bit 24 v AND 0xff))]"

definition padding :: "nat \<Rightarrow> nat" where
  "padding pos = (4 - pos mod 4) mod 4"

definition saveg_read_pad :: "save \<Rightarrow> save" where
  "saveg_read_pad st = array (padding (ss_pos st)) (\<lambda>_ st. snd (saveg_read8 st)) st"

definition saveg_write_pad :: "save \<Rightarrow> save" where
  "saveg_write_pad st = array (padding (ss_pos st)) (\<lambda>_. saveg_write8 0) st"

definition saveg_readp :: "save \<Rightarrow> ptr \<times> save" where
  "saveg_readp = saveg_read32"

definition saveg_writep :: "ptr \<Rightarrow> save \<Rightarrow> save" where
  "saveg_writep p = saveg_write32 p"

subsection \<open>Structures\<close>

definition saveg_read_actionf_t :: "ptr \<times> save \<Rightarrow> ptr \<times> save" where
  "saveg_read_actionf_t = field saveg_readp (\<lambda>v _. v)"

definition saveg_write_actionf_t :: "ptr \<Rightarrow> save \<Rightarrow> save" where
  "saveg_write_actionf_t = saveg_writep"

definition saveg_read_mapthing_t :: "mapthing \<times> save \<Rightarrow> mapthing \<times> save" where
  "saveg_read_mapthing_t = stmts [
     field saveg_read16 (\<lambda>v s. s\<lparr>mt_x := v\<rparr>),
     field saveg_read16 (\<lambda>v s. s\<lparr>mt_y := v\<rparr>),
     field saveg_read16 (\<lambda>v s. s\<lparr>mt_angle := v\<rparr>),
     field saveg_read16 (\<lambda>v s. s\<lparr>mt_type := v\<rparr>),
     field saveg_read16 (\<lambda>v s. s\<lparr>mt_options := v\<rparr>)]"

definition saveg_write_mapthing_t :: "mapthing \<Rightarrow> save \<Rightarrow> save" where
  "saveg_write_mapthing_t s = stmts [
     saveg_write16 (mt_x s),
     saveg_write16 (mt_y s),
     saveg_write16 (mt_angle s),
     saveg_write16 (mt_type s),
     saveg_write16 (mt_options s)]"

definition saveg_read_thinker_t :: "thinker \<times> save \<Rightarrow> thinker \<times> save" where
  "saveg_read_thinker_t = stmts [
     field saveg_readp (\<lambda>v s. s\<lparr>th_prev := v\<rparr>),
     field saveg_readp (\<lambda>v s. s\<lparr>th_next := v\<rparr>),
     sub th_function (\<lambda>v s. s\<lparr>th_function := v\<rparr>) saveg_read_actionf_t]"

definition saveg_write_thinker_t :: "thinker \<Rightarrow> save \<Rightarrow> save" where
  "saveg_write_thinker_t s = stmts [
     saveg_writep (th_prev s),
     saveg_writep (th_next s),
     saveg_write_actionf_t (th_function s)]"

definition saveg_read_mobj_t :: "mobj \<times> save \<Rightarrow> mobj \<times> save" where
  "saveg_read_mobj_t = stmts [
     sub mo_thinker (\<lambda>v s. s\<lparr>mo_thinker := v\<rparr>) saveg_read_thinker_t,
     field saveg_read32 (\<lambda>v s. s\<lparr>mo_x := v\<rparr>),
     field saveg_read32 (\<lambda>v s. s\<lparr>mo_y := v\<rparr>),
     field saveg_read32 (\<lambda>v s. s\<lparr>mo_z := v\<rparr>),
     field saveg_readp (\<lambda>v s. s\<lparr>mo_snext := v\<rparr>),
     field saveg_readp (\<lambda>v s. s\<lparr>mo_sprev := v\<rparr>),
     field saveg_read32 (\<lambda>v s. s\<lparr>mo_angle := v\<rparr>),
     field saveg_read32 (\<lambda>v s. s\<lparr>mo_sprite := v\<rparr>),
     field saveg_read32 (\<lambda>v s. s\<lparr>mo_frame := v\<rparr>),
     field saveg_readp (\<lambda>v s. s\<lparr>mo_bnext := v\<rparr>),
     field saveg_readp (\<lambda>v s. s\<lparr>mo_bprev := v\<rparr>),
     field saveg_readp (\<lambda>v s. s\<lparr>mo_subsector := v\<rparr>),
     field saveg_read32 (\<lambda>v s. s\<lparr>mo_floorz := v\<rparr>),
     field saveg_read32 (\<lambda>v s. s\<lparr>mo_ceilingz := v\<rparr>),
     field saveg_read32 (\<lambda>v s. s\<lparr>mo_radius := v\<rparr>),
     field saveg_read32 (\<lambda>v s. s\<lparr>mo_height := v\<rparr>),
     field saveg_read32 (\<lambda>v s. s\<lparr>mo_momx := v\<rparr>),
     field saveg_read32 (\<lambda>v s. s\<lparr>mo_momy := v\<rparr>),
     field saveg_read32 (\<lambda>v s. s\<lparr>mo_momz := v\<rparr>),
     field saveg_read32 (\<lambda>v s. s\<lparr>mo_validcount := v\<rparr>),
     field saveg_read32 (\<lambda>v s. s\<lparr>mo_type := v\<rparr>),
     field saveg_readp (\<lambda>v s. s\<lparr>mo_info := v\<rparr>),
     field saveg_read32 (\<lambda>v s. s\<lparr>mo_tics := v\<rparr>),
     field saveg_read32 (\<lambda>v s. s\<lparr>mo_state := v\<rparr>),
     field saveg_read32 (\<lambda>v s. s\<lparr>mo_flags := v\<rparr>),
     field saveg_read32 (\<lambda>v s. s\<lparr>mo_health := v\<rparr>),
     field saveg_read32 (\<lambda>v s. s\<lparr>mo_movedir := v\<rparr>),
     field saveg_read32 (\<lambda>v s. s\<lparr>mo_movecount := v\<rparr>),
     field saveg_readp (\<lambda>v s. s\<lparr>mo_target := v\<rparr>),
     field saveg_read32 (\<lambda>v s. s\<lparr>mo_reactiontime := v\<rparr>),
     field saveg_read32 (\<lambda>v s. s\<lparr>mo_threshold := v\<rparr>),
     field saveg_read32 (\<lambda>pl s. s\<lparr>mo_player := (if 0 <s pl then Some (pl - 1) else None)\<rparr>),
     field saveg_read32 (\<lambda>v s. s\<lparr>mo_lastlook := v\<rparr>),
     sub mo_spawnpoint (\<lambda>v s. s\<lparr>mo_spawnpoint := v\<rparr>) saveg_read_mapthing_t,
     field saveg_readp (\<lambda>v s. s\<lparr>mo_tracer := v\<rparr>)]"

definition saveg_write_mobj_t :: "mobj \<Rightarrow> save \<Rightarrow> save" where
  "saveg_write_mobj_t s = stmts [
     saveg_write_thinker_t (mo_thinker s),
     saveg_write32 (mo_x s),
     saveg_write32 (mo_y s),
     saveg_write32 (mo_z s),
     saveg_writep (mo_snext s),
     saveg_writep (mo_sprev s),
     saveg_write32 (mo_angle s),
     saveg_write32 (mo_sprite s),
     saveg_write32 (mo_frame s),
     saveg_writep (mo_bnext s),
     saveg_writep (mo_bprev s),
     saveg_writep (mo_subsector s),
     saveg_write32 (mo_floorz s),
     saveg_write32 (mo_ceilingz s),
     saveg_write32 (mo_radius s),
     saveg_write32 (mo_height s),
     saveg_write32 (mo_momx s),
     saveg_write32 (mo_momy s),
     saveg_write32 (mo_momz s),
     saveg_write32 (mo_validcount s),
     saveg_write32 (mo_type s),
     saveg_writep (mo_info s),
     saveg_write32 (mo_tics s),
     saveg_write32 (mo_state s),
     saveg_write32 (mo_flags s),
     saveg_write32 (mo_health s),
     saveg_write32 (mo_movedir s),
     saveg_write32 (mo_movecount s),
     saveg_writep (mo_target s),
     saveg_write32 (mo_reactiontime s),
     saveg_write32 (mo_threshold s),
     saveg_write32 (case mo_player s of Some pl \<Rightarrow> pl + 1 | None \<Rightarrow> 0),
     saveg_write32 (mo_lastlook s),
     saveg_write_mapthing_t (mo_spawnpoint s),
     saveg_writep (mo_tracer s)]"

definition saveg_read_ticcmd_t :: "ticcmd \<times> save \<Rightarrow> ticcmd \<times> save" where
  "saveg_read_ticcmd_t = stmts [
     field saveg_read8 (\<lambda>v s. s\<lparr>forwardmove := v\<rparr>),
     field saveg_read8 (\<lambda>v s. s\<lparr>sidemove := v\<rparr>),
     field saveg_read16 (\<lambda>v s. s\<lparr>angleturn := v\<rparr>),
     field saveg_read16 (\<lambda>v s. s\<lparr>consistancy := ucast v\<rparr>),
     field saveg_read8 (\<lambda>v s. s\<lparr>chatchar := v\<rparr>),
     field saveg_read8 (\<lambda>v s. s\<lparr>buttons := v\<rparr>)]"

definition saveg_write_ticcmd_t :: "ticcmd \<Rightarrow> save \<Rightarrow> save" where
  "saveg_write_ticcmd_t s = stmts [
     saveg_write8 (forwardmove s),
     saveg_write8 (sidemove s),
     saveg_write16 (angleturn s),
     saveg_write16 (ucast (consistancy s)),
     saveg_write8 (chatchar s),
     saveg_write8 (buttons s)]"

definition saveg_read_pspdef_t :: "pspdef \<times> save \<Rightarrow> pspdef \<times> save" where
  "saveg_read_pspdef_t = stmts [
     field saveg_read32 (\<lambda>state s. s\<lparr>psp_state := (if 0 <s state then Some state else None)\<rparr>),
     field saveg_read32 (\<lambda>v s. s\<lparr>psp_tics := v\<rparr>),
     field saveg_read32 (\<lambda>v s. s\<lparr>psp_sx := v\<rparr>),
     field saveg_read32 (\<lambda>v s. s\<lparr>psp_sy := v\<rparr>)]"

definition saveg_write_pspdef_t :: "pspdef \<Rightarrow> save \<Rightarrow> save" where
  "saveg_write_pspdef_t s = stmts [
     saveg_write32 (case psp_state s of Some state \<Rightarrow> state | None \<Rightarrow> 0),
     saveg_write32 (psp_tics s),
     saveg_write32 (psp_sx s),
     saveg_write32 (psp_sy s)]"

definition saveg_read_player_t :: "player \<times> save \<Rightarrow> player \<times> save" where
  "saveg_read_player_t = stmts [
     field saveg_readp (\<lambda>v s. s\<lparr>pl_mo := v\<rparr>),
     field saveg_read32 (\<lambda>v s. s\<lparr>pl_playerstate := v\<rparr>),
     sub pl_cmd (\<lambda>v s. s\<lparr>pl_cmd := v\<rparr>) saveg_read_ticcmd_t,
     field saveg_read32 (\<lambda>v s. s\<lparr>pl_viewz := v\<rparr>),
     field saveg_read32 (\<lambda>v s. s\<lparr>pl_viewheight := v\<rparr>),
     field saveg_read32 (\<lambda>v s. s\<lparr>pl_deltaviewheight := v\<rparr>),
     field saveg_read32 (\<lambda>v s. s\<lparr>pl_bob := v\<rparr>),
     field saveg_read32 (\<lambda>v s. s\<lparr>pl_health := v\<rparr>),
     field saveg_read32 (\<lambda>v s. s\<lparr>pl_armorpoints := v\<rparr>),
     field saveg_read32 (\<lambda>v s. s\<lparr>pl_armortype := v\<rparr>),
     array NUMPOWERS (\<lambda>i. field saveg_read32 (\<lambda>v s. s\<lparr>pl_powers := (pl_powers s)[i := v]\<rparr>)),
     array NUMCARDS (\<lambda>i. field saveg_read32 (\<lambda>v s. s\<lparr>pl_cards := (pl_cards s)[i := v]\<rparr>)),
     field saveg_read32 (\<lambda>v s. s\<lparr>pl_backpack := v\<rparr>),
     array MAXPLAYERS (\<lambda>i. field saveg_read32 (\<lambda>v s. s\<lparr>pl_frags := (pl_frags s)[i := v]\<rparr>)),
     field saveg_read32 (\<lambda>v s. s\<lparr>pl_readyweapon := v\<rparr>),
     field saveg_read32 (\<lambda>v s. s\<lparr>pl_pendingweapon := v\<rparr>),
     array NUMWEAPONS (\<lambda>i. field saveg_read32 (\<lambda>v s. s\<lparr>pl_weaponowned := (pl_weaponowned s)[i := v]\<rparr>)),
     array NUMAMMO (\<lambda>i. field saveg_read32 (\<lambda>v s. s\<lparr>pl_ammo := (pl_ammo s)[i := v]\<rparr>)),
     array NUMAMMO (\<lambda>i. field saveg_read32 (\<lambda>v s. s\<lparr>pl_maxammo := (pl_maxammo s)[i := v]\<rparr>)),
     field saveg_read32 (\<lambda>v s. s\<lparr>pl_attackdown := v\<rparr>),
     field saveg_read32 (\<lambda>v s. s\<lparr>pl_usedown := v\<rparr>),
     field saveg_read32 (\<lambda>v s. s\<lparr>pl_cheats := v\<rparr>),
     field saveg_read32 (\<lambda>v s. s\<lparr>pl_refire := v\<rparr>),
     field saveg_read32 (\<lambda>v s. s\<lparr>pl_killcount := v\<rparr>),
     field saveg_read32 (\<lambda>v s. s\<lparr>pl_itemcount := v\<rparr>),
     field saveg_read32 (\<lambda>v s. s\<lparr>pl_secretcount := v\<rparr>),
     field saveg_readp (\<lambda>v s. s\<lparr>pl_message := v\<rparr>),
     field saveg_read32 (\<lambda>v s. s\<lparr>pl_damagecount := v\<rparr>),
     field saveg_read32 (\<lambda>v s. s\<lparr>pl_bonuscount := v\<rparr>),
     field saveg_readp (\<lambda>v s. s\<lparr>pl_attacker := v\<rparr>),
     field saveg_read32 (\<lambda>v s. s\<lparr>pl_extralight := v\<rparr>),
     field saveg_read32 (\<lambda>v s. s\<lparr>pl_fixedcolormap := v\<rparr>),
     field saveg_read32 (\<lambda>v s. s\<lparr>pl_colormap := v\<rparr>),
     array NUMPSPRITES (\<lambda>i. sub (\<lambda>s. pl_psprites s ! i) (\<lambda>v s. s\<lparr>pl_psprites := (pl_psprites s)[i := v]\<rparr>) saveg_read_pspdef_t),
     field saveg_read32 (\<lambda>v s. s\<lparr>pl_didsecret := v\<rparr>)]"

definition saveg_write_player_t :: "player \<Rightarrow> save \<Rightarrow> save" where
  "saveg_write_player_t s = stmts [
     saveg_writep (pl_mo s),
     saveg_write32 (pl_playerstate s),
     saveg_write_ticcmd_t (pl_cmd s),
     saveg_write32 (pl_viewz s),
     saveg_write32 (pl_viewheight s),
     saveg_write32 (pl_deltaviewheight s),
     saveg_write32 (pl_bob s),
     saveg_write32 (pl_health s),
     saveg_write32 (pl_armorpoints s),
     saveg_write32 (pl_armortype s),
     array NUMPOWERS (\<lambda>i. saveg_write32 (pl_powers s ! i)),
     array NUMCARDS (\<lambda>i. saveg_write32 (pl_cards s ! i)),
     saveg_write32 (pl_backpack s),
     array MAXPLAYERS (\<lambda>i. saveg_write32 (pl_frags s ! i)),
     saveg_write32 (pl_readyweapon s),
     saveg_write32 (pl_pendingweapon s),
     array NUMWEAPONS (\<lambda>i. saveg_write32 (pl_weaponowned s ! i)),
     array NUMAMMO (\<lambda>i. saveg_write32 (pl_ammo s ! i)),
     array NUMAMMO (\<lambda>i. saveg_write32 (pl_maxammo s ! i)),
     saveg_write32 (pl_attackdown s),
     saveg_write32 (pl_usedown s),
     saveg_write32 (pl_cheats s),
     saveg_write32 (pl_refire s),
     saveg_write32 (pl_killcount s),
     saveg_write32 (pl_itemcount s),
     saveg_write32 (pl_secretcount s),
     saveg_writep (pl_message s),
     saveg_write32 (pl_damagecount s),
     saveg_write32 (pl_bonuscount s),
     saveg_writep (pl_attacker s),
     saveg_write32 (pl_extralight s),
     saveg_write32 (pl_fixedcolormap s),
     saveg_write32 (pl_colormap s),
     array NUMPSPRITES (\<lambda>i. saveg_write_pspdef_t (pl_psprites s ! i)),
     saveg_write32 (pl_didsecret s)]"

definition saveg_read_ceiling_t :: "ceiling \<times> save \<Rightarrow> ceiling \<times> save" where
  "saveg_read_ceiling_t = stmts [
     sub ceil_thinker (\<lambda>v s. s\<lparr>ceil_thinker := v\<rparr>) saveg_read_thinker_t,
     field saveg_read32 (\<lambda>v s. s\<lparr>ceil_type := v\<rparr>),
     field saveg_read32 (\<lambda>sector s. s\<lparr>ceil_sector := sector\<rparr>),
     field saveg_read32 (\<lambda>v s. s\<lparr>ceil_bottomheight := v\<rparr>),
     field saveg_read32 (\<lambda>v s. s\<lparr>ceil_topheight := v\<rparr>),
     field saveg_read32 (\<lambda>v s. s\<lparr>ceil_speed := v\<rparr>),
     field saveg_read32 (\<lambda>v s. s\<lparr>ceil_crush := v\<rparr>),
     field saveg_read32 (\<lambda>v s. s\<lparr>ceil_direction := v\<rparr>),
     field saveg_read32 (\<lambda>v s. s\<lparr>ceil_tag := v\<rparr>),
     field saveg_read32 (\<lambda>v s. s\<lparr>ceil_olddirection := v\<rparr>)]"

definition saveg_write_ceiling_t :: "ceiling \<Rightarrow> save \<Rightarrow> save" where
  "saveg_write_ceiling_t s = stmts [
     saveg_write_thinker_t (ceil_thinker s),
     saveg_write32 (ceil_type s),
     saveg_write32 (ceil_sector s),
     saveg_write32 (ceil_bottomheight s),
     saveg_write32 (ceil_topheight s),
     saveg_write32 (ceil_speed s),
     saveg_write32 (ceil_crush s),
     saveg_write32 (ceil_direction s),
     saveg_write32 (ceil_tag s),
     saveg_write32 (ceil_olddirection s)]"

definition saveg_read_vldoor_t :: "vldoor \<times> save \<Rightarrow> vldoor \<times> save" where
  "saveg_read_vldoor_t = stmts [
     sub door_thinker (\<lambda>v s. s\<lparr>door_thinker := v\<rparr>) saveg_read_thinker_t,
     field saveg_read32 (\<lambda>v s. s\<lparr>door_type := v\<rparr>),
     field saveg_read32 (\<lambda>sector s. s\<lparr>door_sector := sector\<rparr>),
     field saveg_read32 (\<lambda>v s. s\<lparr>door_topheight := v\<rparr>),
     field saveg_read32 (\<lambda>v s. s\<lparr>door_speed := v\<rparr>),
     field saveg_read32 (\<lambda>v s. s\<lparr>door_direction := v\<rparr>),
     field saveg_read32 (\<lambda>v s. s\<lparr>door_topwait := v\<rparr>),
     field saveg_read32 (\<lambda>v s. s\<lparr>door_topcountdown := v\<rparr>)]"

definition saveg_write_vldoor_t :: "vldoor \<Rightarrow> save \<Rightarrow> save" where
  "saveg_write_vldoor_t s = stmts [
     saveg_write_thinker_t (door_thinker s),
     saveg_write32 (door_type s),
     saveg_write32 (door_sector s),
     saveg_write32 (door_topheight s),
     saveg_write32 (door_speed s),
     saveg_write32 (door_direction s),
     saveg_write32 (door_topwait s),
     saveg_write32 (door_topcountdown s)]"

definition saveg_read_floormove_t :: "floormove \<times> save \<Rightarrow> floormove \<times> save" where
  "saveg_read_floormove_t = stmts [
     sub floor_thinker (\<lambda>v s. s\<lparr>floor_thinker := v\<rparr>) saveg_read_thinker_t,
     field saveg_read32 (\<lambda>v s. s\<lparr>floor_type := v\<rparr>),
     field saveg_read32 (\<lambda>v s. s\<lparr>floor_crush := v\<rparr>),
     field saveg_read32 (\<lambda>sector s. s\<lparr>floor_sector := sector\<rparr>),
     field saveg_read32 (\<lambda>v s. s\<lparr>floor_direction := v\<rparr>),
     field saveg_read32 (\<lambda>v s. s\<lparr>floor_newspecial := v\<rparr>),
     field saveg_read16 (\<lambda>v s. s\<lparr>floor_texture := v\<rparr>),
     field saveg_read32 (\<lambda>v s. s\<lparr>floor_floordestheight := v\<rparr>),
     field saveg_read32 (\<lambda>v s. s\<lparr>floor_speed := v\<rparr>)]"

definition saveg_write_floormove_t :: "floormove \<Rightarrow> save \<Rightarrow> save" where
  "saveg_write_floormove_t s = stmts [
     saveg_write_thinker_t (floor_thinker s),
     saveg_write32 (floor_type s),
     saveg_write32 (floor_crush s),
     saveg_write32 (floor_sector s),
     saveg_write32 (floor_direction s),
     saveg_write32 (floor_newspecial s),
     saveg_write16 (floor_texture s),
     saveg_write32 (floor_floordestheight s),
     saveg_write32 (floor_speed s)]"

definition saveg_read_plat_t :: "plat \<times> save \<Rightarrow> plat \<times> save" where
  "saveg_read_plat_t = stmts [
     sub plat_thinker (\<lambda>v s. s\<lparr>plat_thinker := v\<rparr>) saveg_read_thinker_t,
     field saveg_read32 (\<lambda>sector s. s\<lparr>plat_sector := sector\<rparr>),
     field saveg_read32 (\<lambda>v s. s\<lparr>plat_speed := v\<rparr>),
     field saveg_read32 (\<lambda>v s. s\<lparr>plat_low := v\<rparr>),
     field saveg_read32 (\<lambda>v s. s\<lparr>plat_high := v\<rparr>),
     field saveg_read32 (\<lambda>v s. s\<lparr>plat_wait := v\<rparr>),
     field saveg_read32 (\<lambda>v s. s\<lparr>plat_count := v\<rparr>),
     field saveg_read32 (\<lambda>v s. s\<lparr>plat_status := v\<rparr>),
     field saveg_read32 (\<lambda>v s. s\<lparr>plat_oldstatus := v\<rparr>),
     field saveg_read32 (\<lambda>v s. s\<lparr>plat_crush := v\<rparr>),
     field saveg_read32 (\<lambda>v s. s\<lparr>plat_tag := v\<rparr>),
     field saveg_read32 (\<lambda>v s. s\<lparr>plat_type := v\<rparr>)]"

definition saveg_write_plat_t :: "plat \<Rightarrow> save \<Rightarrow> save" where
  "saveg_write_plat_t s = stmts [
     saveg_write_thinker_t (plat_thinker s),
     saveg_write32 (plat_sector s),
     saveg_write32 (plat_speed s),
     saveg_write32 (plat_low s),
     saveg_write32 (plat_high s),
     saveg_write32 (plat_wait s),
     saveg_write32 (plat_count s),
     saveg_write32 (plat_status s),
     saveg_write32 (plat_oldstatus s),
     saveg_write32 (plat_crush s),
     saveg_write32 (plat_tag s),
     saveg_write32 (plat_type s)]"

definition saveg_read_lightflash_t :: "lightflash \<times> save \<Rightarrow> lightflash \<times> save" where
  "saveg_read_lightflash_t = stmts [
     sub flash_thinker (\<lambda>v s. s\<lparr>flash_thinker := v\<rparr>) saveg_read_thinker_t,
     field saveg_read32 (\<lambda>sector s. s\<lparr>flash_sector := sector\<rparr>),
     field saveg_read32 (\<lambda>v s. s\<lparr>flash_count := v\<rparr>),
     field saveg_read32 (\<lambda>v s. s\<lparr>flash_maxlight := v\<rparr>),
     field saveg_read32 (\<lambda>v s. s\<lparr>flash_minlight := v\<rparr>),
     field saveg_read32 (\<lambda>v s. s\<lparr>flash_maxtime := v\<rparr>),
     field saveg_read32 (\<lambda>v s. s\<lparr>flash_mintime := v\<rparr>)]"

definition saveg_write_lightflash_t :: "lightflash \<Rightarrow> save \<Rightarrow> save" where
  "saveg_write_lightflash_t s = stmts [
     saveg_write_thinker_t (flash_thinker s),
     saveg_write32 (flash_sector s),
     saveg_write32 (flash_count s),
     saveg_write32 (flash_maxlight s),
     saveg_write32 (flash_minlight s),
     saveg_write32 (flash_maxtime s),
     saveg_write32 (flash_mintime s)]"

definition saveg_read_strobe_t :: "strobe \<times> save \<Rightarrow> strobe \<times> save" where
  "saveg_read_strobe_t = stmts [
     sub strobe_thinker (\<lambda>v s. s\<lparr>strobe_thinker := v\<rparr>) saveg_read_thinker_t,
     field saveg_read32 (\<lambda>sector s. s\<lparr>strobe_sector := sector\<rparr>),
     field saveg_read32 (\<lambda>v s. s\<lparr>strobe_count := v\<rparr>),
     field saveg_read32 (\<lambda>v s. s\<lparr>strobe_minlight := v\<rparr>),
     field saveg_read32 (\<lambda>v s. s\<lparr>strobe_maxlight := v\<rparr>),
     field saveg_read32 (\<lambda>v s. s\<lparr>strobe_darktime := v\<rparr>),
     field saveg_read32 (\<lambda>v s. s\<lparr>strobe_brighttime := v\<rparr>)]"

definition saveg_write_strobe_t :: "strobe \<Rightarrow> save \<Rightarrow> save" where
  "saveg_write_strobe_t s = stmts [
     saveg_write_thinker_t (strobe_thinker s),
     saveg_write32 (strobe_sector s),
     saveg_write32 (strobe_count s),
     saveg_write32 (strobe_minlight s),
     saveg_write32 (strobe_maxlight s),
     saveg_write32 (strobe_darktime s),
     saveg_write32 (strobe_brighttime s)]"

definition saveg_read_glow_t :: "glow \<times> save \<Rightarrow> glow \<times> save" where
  "saveg_read_glow_t = stmts [
     sub glow_thinker (\<lambda>v s. s\<lparr>glow_thinker := v\<rparr>) saveg_read_thinker_t,
     field saveg_read32 (\<lambda>sector s. s\<lparr>glow_sector := sector\<rparr>),
     field saveg_read32 (\<lambda>v s. s\<lparr>glow_minlight := v\<rparr>),
     field saveg_read32 (\<lambda>v s. s\<lparr>glow_maxlight := v\<rparr>),
     field saveg_read32 (\<lambda>v s. s\<lparr>glow_direction := v\<rparr>)]"

definition saveg_write_glow_t :: "glow \<Rightarrow> save \<Rightarrow> save" where
  "saveg_write_glow_t s = stmts [
     saveg_write_thinker_t (glow_thinker s),
     saveg_write32 (glow_sector s),
     saveg_write32 (glow_minlight s),
     saveg_write32 (glow_maxlight s),
     saveg_write32 (glow_direction s)]"

end
