(* ===== verification/P_Saveg_Codec.thy ===== *)
theory P_Saveg_Codec
  imports P_Saveg
begin

text \<open>
  Writing and reading in step: a writer and a reader form a codec when the bytes the one appends, at
  whatever position, are read back by the other. Codecs compose as the statements do, so the codec of
  a structure follows line by line from those of its fields.
\<close>

named_theorems codecs \<open>writers and readers that match\<close>

subsection \<open>Writing\<close>

definition put_bytes :: "bytes \<Rightarrow> save \<Rightarrow> save" where
  "put_bytes bs st = st\<lparr>ss_data := ss_data st @ bs, ss_pos := ss_pos st + length bs, ss_room := ss_room st - length bs\<rparr>"

text \<open>At position \<open>p\<close>, \<open>w\<close> writes \<open>bs\<close>; if there is no room for that, there is an error, and it stays.\<close>

definition writes :: "nat \<Rightarrow> (save \<Rightarrow> save) \<Rightarrow> bytes \<Rightarrow> bool" where
  "writes p w bs \<longleftrightarrow>
     (\<forall>st. ss_pos st = p \<and> length bs \<le> ss_room st \<longrightarrow> w st = put_bytes bs st)
   \<and> (\<forall>st. ss_pos st = p \<and> ss_room st < length bs \<longrightarrow> savegame_error (w st))"

definition keeps_error :: "(save \<Rightarrow> save) \<Rightarrow> bool" where
  "keeps_error w \<longleftrightarrow> (\<forall>st. savegame_error st \<longrightarrow> savegame_error (w st))"

lemma stmts_simps: "stmts [] s = s" "stmts (f # fs) s = stmts fs (f s)"
  by (simp_all add: stmts_def)

lemma stmts_Nil: "stmts [] = (\<lambda>x. x)"
  by (rule ext) (simp add: stmts_simps)

lemma stmts_append: "stmts (fs @ gs) s = stmts gs (stmts fs s)"
  by (simp add: stmts_def)

lemma put_bytes_simps [simp]: "put_bytes [] st = st" "put_bytes cs (put_bytes bs st) = put_bytes (bs @ cs) st"
  "ss_pos (put_bytes bs st) = ss_pos st + length bs" "ss_room (put_bytes bs st) = ss_room st - length bs"
  by (simp_all add: put_bytes_def add.commute)

lemma keeps_error_stmts: "(\<And>f. f \<in> set fs \<Longrightarrow> keeps_error f) \<Longrightarrow> keeps_error (stmts fs)"
  by (induction fs) (auto simp: keeps_error_def stmts_simps)

lemma writes_Nil: "writes p (stmts []) []"
  by (simp add: writes_def stmts_simps)

lemma writes_Cons:
  assumes "writes p w bs" "writes (p + length bs) (stmts ws) cs" "keeps_error (stmts ws)"
  shows "writes p (stmts (w # ws)) (bs @ cs)"
  unfolding writes_def
proof (intro conjI allI impI)
  fix st :: save assume st: "ss_pos st = p \<and> length (bs @ cs) \<le> ss_room st"
  then have w: "w st = put_bytes bs st" using assms(1) by (simp add: writes_def)
  have "ss_pos (put_bytes bs st) = p + length bs \<and> length cs \<le> ss_room (put_bytes bs st)" using st by (simp add: le_diff_conv2)
  then have "stmts ws (put_bytes bs st) = put_bytes cs (put_bytes bs st)" using assms(2) unfolding writes_def by blast
  then show "stmts (w # ws) st = put_bytes (bs @ cs) st" by (simp add: w stmts_simps)
next
  fix st :: save assume st: "ss_pos st = p \<and> ss_room st < length (bs @ cs)"
  show "savegame_error (stmts (w # ws) st)"
  proof (cases "ss_room st < length bs")
    case True
    then show ?thesis using st assms(1,3) by (simp add: writes_def keeps_error_def stmts_simps)
  next
    case False
    then have w: "w st = put_bytes bs st" using st assms(1) by (simp add: writes_def)
    have "ss_pos (put_bytes bs st) = p + length bs \<and> ss_room (put_bytes bs st) < length cs" using st False by simp linarith
    then have "savegame_error (stmts ws (put_bytes bs st))" using assms(2) unfolding writes_def by blast
    then show ?thesis by (simp add: w stmts_simps)
  qed
qed

lemma writes_8: "writes p (saveg_write8 v) [v]"
  by (auto simp: writes_def saveg_write8_def put_bytes_def)

lemma keeps_error_8: "keeps_error (saveg_write8 v)"
  by (simp add: keeps_error_def saveg_write8_def)

subsection \<open>Reading\<close>

definition here :: "bytes \<Rightarrow> save \<Rightarrow> bool" where
  "here bs st \<longleftrightarrow> (\<exists>cs. drop (ss_pos st) (ss_data st) = bs @ cs)"

definition skipped :: "nat \<Rightarrow> save \<Rightarrow> save" where
  "skipped n st = st\<lparr>ss_pos := ss_pos st + n\<rparr>"

text \<open>At position \<open>p\<close>, where \<open>bs\<close> stands, the reader consumes it, and changes the structure by \<open>g\<close>.\<close>

definition reads :: "nat \<Rightarrow> ('a \<times> save \<Rightarrow> 'a \<times> save) \<Rightarrow> ('a \<Rightarrow> 'a) \<Rightarrow> bytes \<Rightarrow> bool" where
  "reads p r g bs \<longleftrightarrow> (\<forall>x st. ss_pos st = p \<and> here bs st \<longrightarrow> r (x, st) = (g x, skipped (length bs) st))"

definition gets :: "(save \<Rightarrow> 'v \<times> save) \<Rightarrow> 'v \<Rightarrow> bytes \<Rightarrow> bool" where
  "gets r v bs \<longleftrightarrow> (\<forall>st. here bs st \<longrightarrow> r st = (v, skipped (length bs) st))"

lemma here_append: "here (bs @ cs) st \<longleftrightarrow> here bs st \<and> here cs (skipped (length bs) st)"
proof
  assume "here (bs @ cs) st"
  then show "here bs st \<and> here cs (skipped (length bs) st)"
    by (auto simp: here_def skipped_def add.commute [of "ss_pos st"] simp flip: drop_drop)
next
  assume a: "here bs st \<and> here cs (skipped (length bs) st)"
  then obtain ds where ds: "drop (ss_pos st) (ss_data st) = bs @ ds" by (auto simp: here_def)
  then have "drop (ss_pos st + length bs) (ss_data st) = ds" by (simp add: add.commute [of "ss_pos st"] flip: drop_drop)
  then show "here (bs @ cs) st" using a ds by (auto simp: here_def skipped_def)
qed

lemma skipped_simps [simp]: "skipped 0 st = st" "skipped n (skipped m st) = skipped (m + n) st"
  "ss_pos (skipped n st) = ss_pos st + n"
  by (simp_all add: skipped_def add.assoc)

lemma reads_Nil: "reads p (stmts []) (\<lambda>x. x) []"
  by (simp add: reads_def stmts_simps)

lemma reads_Cons:
  assumes "reads p r g bs" "reads (p + length bs) (stmts rs) h cs"
  shows "reads p (stmts (r # rs)) (\<lambda>x. h (g x)) (bs @ cs)"
  using assms by (auto simp: reads_def here_append stmts_simps)

lemma reads_field: "gets r v bs \<Longrightarrow> reads p (field r put) (put v) bs"
  by (simp add: reads_def gets_def field_def)

lemma reads_sub: "reads p f g bs \<Longrightarrow> reads p (sub get put f) (\<lambda>x. put (g (get x)) x) bs"
  by (simp add: reads_def sub_def)

lemma here_byte: "here (v # bs) st \<Longrightarrow> saveg_read8 st = (v, skipped 1 st)"
proof -
  assume "here (v # bs) st"
  then obtain cs where cs: "drop (ss_pos st) (ss_data st) = v # bs @ cs" by (auto simp: here_def)
  then have l: "ss_pos st < length (ss_data st)" by (metis drop_eq_Nil list.distinct(1) not_le)
  then have "ss_data st ! ss_pos st = v" using cs by (metis Cons_nth_drop_Suc list.inject)
  then show ?thesis using l by (simp add: saveg_read8_def skipped_def)
qed

lemma here_Cons: "here (v # bs) st \<longleftrightarrow> here [v] st \<and> here bs (skipped 1 st)"
  using here_append [of "[v]" bs st] by simp

subsection \<open>Codecs\<close>

text \<open>A number \<open>v\<close>, which \<open>w\<close> writes and \<open>r\<close> returns; a part of a structure, changed by \<open>g\<close>.\<close>

definition vcodec :: "(save \<Rightarrow> save) \<Rightarrow> (save \<Rightarrow> 'v \<times> save) \<Rightarrow> 'v \<Rightarrow> bool" where
  "vcodec w r v \<longleftrightarrow> keeps_error w \<and> (\<exists>bs. (\<forall>p. writes p w bs) \<and> gets r v bs)"

definition codec :: "(save \<Rightarrow> save) \<Rightarrow> ('a \<times> save \<Rightarrow> 'a \<times> save) \<Rightarrow> ('a \<Rightarrow> 'a) \<Rightarrow> bool" where
  "codec w r g \<longleftrightarrow> keeps_error w \<and> (\<forall>p. \<exists>bs. writes p w bs \<and> reads p r g bs)"

lemma codec_Nil [codecs]: "codec (stmts []) (stmts []) (\<lambda>x. x)"
  unfolding codec_def using writes_Nil reads_Nil keeps_error_stmts [of "[]"] by auto

lemma codec_Cons [codecs]:
  assumes "codec w r g" "codec (stmts ws) (stmts rs) h"
  shows "codec (stmts (w # ws)) (stmts (r # rs)) (\<lambda>x. h (g x))"
  unfolding codec_def
proof (intro conjI allI)
  show "keeps_error (stmts (w # ws))" using assms by (simp add: codec_def keeps_error_def stmts_simps)
  fix p
  obtain bs where bs: "writes p w bs" "reads p r g bs" using assms(1) by (auto simp: codec_def)
  obtain cs where cs: "writes (p + length bs) (stmts ws) cs" "reads (p + length bs) (stmts rs) h cs"
    using assms(2) by (auto simp: codec_def)
  show "\<exists>bs. writes p (stmts (w # ws)) bs \<and> reads p (stmts (r # rs)) (\<lambda>x. h (g x)) bs"
    using writes_Cons [OF bs(1) cs(1)] reads_Cons [OF bs(2) cs(2)] assms(2) unfolding codec_def by blast
qed

lemma codec_field [codecs]:
  assumes "vcodec w r v"
  shows "codec w (field r put) (put v)"
proof -
  obtain bs where bs: "\<forall>p. writes p w bs" "gets r v bs" using assms by (auto simp: vcodec_def)
  have "writes p w bs \<and> reads p (field r put) (put v) bs" for p using bs(1) reads_field [OF bs(2)] by simp
  then show ?thesis using assms unfolding codec_def vcodec_def by blast
qed

lemma codec_sub [codecs]:
  assumes "codec w r g"
  shows "codec w (sub get put r) (\<lambda>x. put (g (get x)) x)"
  unfolding codec_def
proof (intro conjI allI)
  show "keeps_error w" using assms by (simp add: codec_def)
  fix p
  obtain bs where "writes p w bs" "reads p r g bs" using assms unfolding codec_def by blast
  then show "\<exists>bs. writes p w bs \<and> reads p (sub get put r) (\<lambda>x. put (g (get x)) x) bs" using reads_sub by blast
qed

lemma codec_list: "list_all2 (\<lambda>w (r, g). codec w r g) ws rs \<Longrightarrow>
    codec (stmts ws) (stmts (map fst rs)) (stmts (map snd rs))"
proof (induction ws rs rule: list_all2_induct)
  case Nil
  show ?case using codec_Nil by (simp only: list.map stmts_Nil)
next
  case (Cons w ws r rs)
  have "stmts (map snd (r # rs)) = (\<lambda>x. stmts (map snd rs) (snd r x))" by (rule ext) (simp add: stmts_simps)
  then show ?case using codec_Cons [of w "fst r" "snd r", OF _ Cons(3)] Cons(1) by (simp add: split_def)
qed

lemma codec_array [codecs]:
  assumes "\<And>i. i < n \<Longrightarrow> codec (w i) (r i) (g i)"
  shows "codec (array n w) (array n r) (array n g)"
proof -
  have "list_all2 (\<lambda>w (r, g). codec w r g) (map w [0..<n]) (map (\<lambda>i. (r i, g i)) [0..<n])"
    using assms by (auto simp: list_all2_conv_all_nth)
  from codec_list [OF this] show ?thesis by (simp add: array_def [abs_def] comp_def)
qed

lemma codec_cong: "codec w r g \<Longrightarrow> (\<And>x. g x = h x) \<Longrightarrow> codec w r h"
  by (metis ext)

lemma vcodec_8 [codecs]: "vcodec (saveg_write8 v) saveg_read8 v"
  unfolding vcodec_def gets_def using writes_8 keeps_error_8 here_byte by fastforce

lemma writes_stmts_8: "writes p (stmts (map saveg_write8 bs)) bs"
proof (induction bs arbitrary: p)
  case Nil
  show ?case unfolding list.map using writes_Nil .
next
  case (Cons b bs)
  have "keeps_error (stmts (map saveg_write8 bs))" by (auto intro!: keeps_error_stmts keeps_error_8)
  then show ?case unfolding list.map using writes_Cons [OF writes_8 Cons.IH, of p b] by simp
qed

lemma vcodec_bytes:
  assumes "w = stmts (map saveg_write8 bs)" "gets r v bs"
  shows "vcodec w r v"
  unfolding vcodec_def assms(1) using writes_stmts_8 assms(2) by (auto intro!: keeps_error_stmts keeps_error_8)

lemma byte_mask: "w AND 255 = take_bit 8 (w :: 'w :: len word)"
  by (simp add: take_bit_eq_mask mask_eq_exp_minus_1)

lemma vcodec_16 [codecs]: "vcodec (saveg_write16 v) saveg_read16 v"
proof (rule vcodec_bytes)
  let ?a = "ucast (v AND 0xff) :: u8" and ?b = "ucast (drop_bit 8 v AND 0xff) :: u8"
  show "saveg_write16 v = stmts (map saveg_write8 [?a, ?b])" by (simp add: saveg_write16_def)
  have "ucast ?a OR push_bit 8 (ucast ?b) = v"
    by (rule bit_word_eqI) (auto simp: byte_mask bit_simps)
  then show "gets saveg_read16 v [?a, ?b]"
    by (auto simp: gets_def saveg_read16_def here_Cons [of _ "[_]"] here_byte skipped_simps)
qed

lemma vcodec_32 [codecs]: "vcodec (saveg_write32 v) saveg_read32 v"
proof (rule vcodec_bytes)
  let ?a = "ucast (v AND 0xff) :: u8" and ?b = "ucast (drop_bit 8 v AND 0xff) :: u8"
  let ?c = "ucast (drop_bit 16 v AND 0xff) :: u8" and ?d = "ucast (drop_bit 24 v AND 0xff) :: u8"
  show "saveg_write32 v = stmts (map saveg_write8 [?a, ?b, ?c, ?d])" by (simp add: saveg_write32_def)
  have "ucast ?a OR push_bit 8 (ucast ?b) OR push_bit 16 (ucast ?c) OR push_bit 24 (ucast ?d) = v"
  proof (rule bit_word_eqI)
    fix n assume "n < LENGTH(32)"
    then consider "n < 8" | "8 \<le> n" "n < 16" | "16 \<le> n" "n < 24" | "24 \<le> n" "n < 32" by fastforce
    then show "bit (ucast ?a OR push_bit 8 (ucast ?b) OR push_bit 16 (ucast ?c) OR push_bit 24 (ucast ?d) :: u32) n = bit v n"
      by cases (auto simp: byte_mask bit_simps)
  qed
  then show "gets saveg_read32 v [?a, ?b, ?c, ?d]"
    by (auto simp: gets_def saveg_read32_def here_Cons [of _ "_ # _"] here_byte skipped_simps)
qed

lemma vcodec_ptr [codecs]: "vcodec (saveg_writep v) saveg_readp v"
  using vcodec_32 by (simp add: saveg_writep_def [abs_def] saveg_readp_def)

lemma codec_pad [codecs]: "codec saveg_write_pad (\<lambda>(x, st). (x, saveg_read_pad st)) (\<lambda>x. x)"
  unfolding codec_def
proof (intro conjI allI)
  show "keeps_error saveg_write_pad"
    unfolding keeps_error_def saveg_write_pad_def array_def
    using keeps_error_stmts [of "map (\<lambda>_. saveg_write8 0) [0..<_]"] keeps_error_8 by (auto simp: keeps_error_def)
  fix p
  have "array n (\<lambda>_. saveg_write8 0) = stmts (map saveg_write8 (replicate n 0))" for n
    by (simp add: array_def map_replicate_const)
  then have "writes p saveg_write_pad (replicate (padding p) 0)"
    using writes_stmts_8 [of p "replicate (padding p) 0"] by (simp add: writes_def saveg_write_pad_def)
  moreover have "here (replicate n 0) st \<Longrightarrow> array n (\<lambda>_ st. snd (saveg_read8 st)) st = skipped n st" for n st
  proof (induction n arbitrary: st)
    case 0
    then show ?case by (simp add: array_def stmts_simps)
  next
    case (Suc n)
    have "array (Suc n) (\<lambda>_ st. snd (saveg_read8 st)) st = array n (\<lambda>_ st. snd (saveg_read8 st)) (snd (saveg_read8 st))"
      by (simp add: array_def map_replicate_const stmts_simps)
    then show ?case using Suc here_byte [of 0 "replicate n 0" st] here_Cons [of 0 "replicate n 0" st] by simp
  qed
  then have "reads p (\<lambda>(x, st). (x, saveg_read_pad st)) (\<lambda>x. x) (replicate (padding p) 0)"
    by (simp add: reads_def saveg_read_pad_def)
  ultimately show "\<exists>bs. writes p saveg_write_pad bs \<and> reads p (\<lambda>(x, st). (x, saveg_read_pad st)) (\<lambda>x. x) bs" by blast
qed

subsection \<open>Structures\<close>

lemma codec_actionf: "codec (saveg_write_actionf_t p) saveg_read_actionf_t (\<lambda>_. p)"
  unfolding saveg_write_actionf_t_def saveg_read_actionf_t_def by (rule codec_cong, rule codecs, rule codecs) simp

lemma codec_mapthing [codecs]: "codec (saveg_write_mapthing_t m) saveg_read_mapthing_t (\<lambda>_. m)"
  unfolding saveg_write_mapthing_t_def saveg_read_mapthing_t_def
  by (rule codec_cong, (rule codecs)+) simp

lemma codec_thinker [codecs]: "codec (saveg_write_thinker_t t) saveg_read_thinker_t (\<lambda>_. t)"
  unfolding saveg_write_thinker_t_def saveg_read_thinker_t_def
  by (rule codec_cong, (rule codecs codec_actionf)+) simp

lemma codec_ceiling:
  "codec (saveg_write_ceiling_t c) saveg_read_ceiling_t
     (\<lambda>x. c\<lparr>ceil_oldspeed := ceil_oldspeed x, ceil_newspecial := ceil_newspecial x, ceil_oldspecial := ceil_oldspecial x,
          ceil_texture := ceil_texture x, ceil_list := ceil_list x\<rparr>)"
  unfolding saveg_write_ceiling_t_def saveg_read_ceiling_t_def
  by (rule codec_cong, (rule codecs)+) simp

lemma codec_vldoor:
  "codec (saveg_write_vldoor_t d) saveg_read_vldoor_t (\<lambda>x. d\<lparr>door_line := door_line x, door_lighttag := door_lighttag x\<rparr>)"
  unfolding saveg_write_vldoor_t_def saveg_read_vldoor_t_def
  by (rule codec_cong, (rule codecs)+) simp

lemma codec_floormove:
  "codec (saveg_write_floormove_t f) saveg_read_floormove_t (\<lambda>x. f\<lparr>floor_oldspecial := floor_oldspecial x\<rparr>)"
  unfolding saveg_write_floormove_t_def saveg_read_floormove_t_def
  by (rule codec_cong, (rule codecs)+) simp

lemma codec_plat: "codec (saveg_write_plat_t p) saveg_read_plat_t (\<lambda>_. p)"
  unfolding saveg_write_plat_t_def saveg_read_plat_t_def
  by (rule codec_cong, (rule codecs)+) simp

lemma codec_lightflash: "codec (saveg_write_lightflash_t l) saveg_read_lightflash_t (\<lambda>_. l)"
  unfolding saveg_write_lightflash_t_def saveg_read_lightflash_t_def
  by (rule codec_cong, (rule codecs)+) simp

lemma codec_strobe: "codec (saveg_write_strobe_t l) saveg_read_strobe_t (\<lambda>_. l)"
  unfolding saveg_write_strobe_t_def saveg_read_strobe_t_def
  by (rule codec_cong, (rule codecs)+) simp

lemma codec_glow: "codec (saveg_write_glow_t l) saveg_read_glow_t (\<lambda>_. l)"
  unfolding saveg_write_glow_t_def saveg_read_glow_t_def
  by (rule codec_cong, (rule codecs)+) simp

lemma byte_through_short: "ucast (ucast b :: u16) = (b :: u8)"
  by (rule bit_word_eqI) (auto simp: bit_simps)

lemma codec_ticcmd [codecs]:
  "codec (saveg_write_ticcmd_t c) saveg_read_ticcmd_t
     (\<lambda>x. c\<lparr>buttons2 := buttons2 x, inventory := inventory x, lookfly := lookfly x, arti := arti x\<rparr>)"
  unfolding saveg_write_ticcmd_t_def saveg_read_ticcmd_t_def
  by (rule codec_cong, (rule codecs)+) (simp add: byte_through_short)

text \<open>A number that says where in an array, or 0 for a null pointer.\<close>

definition psp_ok :: "pspdef \<Rightarrow> bool" where
  "psp_ok p \<longleftrightarrow> (case psp_state p of None \<Rightarrow> True | Some state \<Rightarrow> 0 <s state)"

definition mobj_ok :: "mobj \<Rightarrow> bool" where
  "mobj_ok m \<longleftrightarrow> (case mo_player m of None \<Rightarrow> True | Some pl \<Rightarrow> unat pl < MAXPLAYERS)"

lemma codec_pspdef:
  "psp_ok p \<Longrightarrow> codec (saveg_write_pspdef_t p) saveg_read_pspdef_t (\<lambda>_. p)"
  unfolding saveg_write_pspdef_t_def saveg_read_pspdef_t_def
  by (rule codec_cong, (rule codecs)+) (auto simp: psp_ok_def split: option.splits)

lemma player_positive: "unat (pl :: u32) < MAXPLAYERS \<Longrightarrow> 0 <s pl + 1"
proof -
  assume p: "unat pl < MAXPLAYERS"
  have "pl + 1 = of_nat (Suc (unat pl))" by simp
  then have "sint (pl + 1) = int (Suc (unat pl))" using p by (simp only: sint_nat MAXPLAYERS_def)
  then have "0 < sint (pl + 1)" by linarith
  then show ?thesis by (simp add: word_sless_alt)
qed

lemma codec_mobj: "mobj_ok m \<Longrightarrow> codec (saveg_write_mobj_t m) saveg_read_mobj_t (\<lambda>_. m)"
  unfolding saveg_write_mobj_t_def saveg_read_mobj_t_def
  by (rule codec_cong, (rule codecs)+) (auto simp: mobj_ok_def player_positive split: option.splits)

definition savable_player :: "player \<Rightarrow> bool" where
  "savable_player p \<longleftrightarrow> player_ok p \<and> (\<forall>q \<in> set (pl_psprites p). psp_ok q)"

text \<open>A loop that stores the elements of an array, one by one, stores the array.\<close>

lemma array_Suc: "array (Suc n) f s = f n (array n f s)"
  by (simp add: array_def stmts_append stmts_simps)

lemma array_put:
  assumes put: "\<And>y z s. put y (put z s) = put y s" "\<And>y s. get (put y s) = y" "\<And>s. put (get s) s = s"
    and len: "length v = n" "length (get x) = n"
  shows "array n (\<lambda>i s. put ((get s)[i := v ! i]) s) x = put v x"
proof -
  have "array k (\<lambda>i s. put ((get s)[i := v ! i]) s) x = put (take k v @ drop k (get x)) x" if "k \<le> n" for k
    using that
  proof (induction k)
    case 0
    then show ?case by (simp add: array_def stmts_simps put(3))
  next
    case (Suc k)
    then have "(take k v @ drop k (get x))[k := v ! k] = take (Suc k) v @ drop (Suc k) (get x)"
      using len by (intro nth_equalityI) (auto simp: nth_list_update nth_append less_Suc_eq)
    then show ?case using Suc by (simp add: array_Suc put(1,2))
  qed
  from this [of n] len show ?thesis by simp
qed

lemmas player_arrays =
  array_put [where put = "\<lambda>y s. s\<lparr>pl_powers := y\<rparr>" and get = pl_powers]
  array_put [where put = "\<lambda>y s. s\<lparr>pl_cards := y\<rparr>" and get = pl_cards]
  array_put [where put = "\<lambda>y s. s\<lparr>pl_frags := y\<rparr>" and get = pl_frags]
  array_put [where put = "\<lambda>y s. s\<lparr>pl_weaponowned := y\<rparr>" and get = pl_weaponowned]
  array_put [where put = "\<lambda>y s. s\<lparr>pl_ammo := y\<rparr>" and get = pl_ammo]
  array_put [where put = "\<lambda>y s. s\<lparr>pl_maxammo := y\<rparr>" and get = pl_maxammo]
  array_put [where put = "\<lambda>y s. s\<lparr>pl_psprites := y\<rparr>" and get = pl_psprites]

lemma codec_player:
  assumes "savable_player p"
  shows "\<exists>g. codec (saveg_write_player_t p) saveg_read_player_t g \<and> (\<forall>x. player_ok x \<longrightarrow> g x =
     p\<lparr>pl_cmd := (pl_cmd p)\<lparr>buttons2 := buttons2 (pl_cmd x), inventory := inventory (pl_cmd x),
        lookfly := lookfly (pl_cmd x), arti := arti (pl_cmd x)\<rparr>\<rparr>)"
proof -
  have psp: "i < NUMPSPRITES \<Longrightarrow> codec (saveg_write_pspdef_t (pl_psprites p ! i)) saveg_read_pspdef_t (\<lambda>_. pl_psprites p ! i)" for i
    using assms by (intro codec_pspdef) (simp add: savable_player_def player_ok_def)
  show ?thesis
    unfolding saveg_write_player_t_def saveg_read_player_t_def
    by (rule exI, rule conjI, (rule codecs psp | assumption)+)
      (use assms in \<open>auto simp: player_arrays savable_player_def player_ok_def\<close>)
qed

end
