(* ===== verification/M_Fixed.thy ===== *)
theory M_Fixed
  imports Doom_Prelude
begin

text \<open>
  Fixed-point numbers (\<open>m_fixed.c\<close>) and bounding boxes (\<open>m_bbox.c\<close>). A \<open>fixed_t\<close> is a 32-bit word with
  16 bits after the point. \<open>abs (INT_MIN)\<close> is taken to wrap around.
\<close>

definition FRACBITS :: nat where "FRACBITS = 16"
definition INT_MIN :: u32 where "INT_MIN = 0x80000000"
definition INT_MAX :: u32 where "INT_MAX = 0x7fffffff"

definition FixedMul :: "u32 \<Rightarrow> u32 \<Rightarrow> u32" where
  "FixedMul a b = ucast (signed_drop_bit FRACBITS (scast a * scast b :: u64))"

definition c_abs :: "u32 \<Rightarrow> u32" where
  "c_abs a = (if a <s 0 then - a else a)"

text \<open>Division and remainder of 64-bit and of 32-bit integers.\<close>

definition c_div64 :: "u64 \<Rightarrow> u64 \<Rightarrow> u64 res" where
  "c_div64 a b = (if b = 0 then Inl DivByZero else Inr (word_of_int (c_quot (sint a) (sint b))))"

definition c_mod :: "u32 \<Rightarrow> u32 \<Rightarrow> u32 res" where
  "c_mod a b = (if b = 0 then Inl DivByZero else Inr (a - b * c_div a b))"

definition FixedDiv :: "u32 \<Rightarrow> u32 \<Rightarrow> u32 res" where
  "FixedDiv a b =
     (if c_abs b \<le>s signed_drop_bit 14 (c_abs a)
      then Inr (if (a XOR b) <s 0 then INT_MIN else INT_MAX)
      else bindR (c_div64 (push_bit FRACBITS (scast a)) (scast b)) (\<lambda>result. Inr (ucast result)))"

definition FixedMod :: "u32 \<Rightarrow> u32 \<Rightarrow> u32 res" where
  "FixedMod a b =
     (if b AND (b - 1) \<noteq> 0
      then bindR (c_mod a b) (\<lambda>r. Inr (if r <s 0 then r + b else r))
      else Inr (a AND (b - 1)))"

definition Scale :: "u32 \<Rightarrow> u32 \<Rightarrow> u32 \<Rightarrow> u32 res" where
  "Scale a b c = bindR (c_div64 (scast a * scast b) (scast c)) (\<lambda>result. Inr (ucast result))"

subsection \<open>What they compute\<close>

lemma sint_of_int64: "- 9223372036854775808 \<le> i \<Longrightarrow> i < 9223372036854775808 \<Longrightarrow> sint (word_of_int i :: u64) = i"
  by (simp add: signed_of_int signed_take_bit_int_eq_self)

lemma product_range: "\<bar>sint (a :: u32) * sint (b :: u32)\<bar> \<le> 4611686018427387904"
proof -
  have "\<bar>sint a\<bar> \<le> 2147483648" "\<bar>sint b\<bar> \<le> 2147483648" using sint_u32_range [of a] sint_u32_range [of b] by linarith+
  then have "\<bar>sint a\<bar> * \<bar>sint b\<bar> \<le> 2147483648 * 2147483648" by (intro mult_mono) simp_all
  then show ?thesis by (simp add: abs_mult)
qed

lemma scast_product: "sint (scast a * scast b :: u64) = sint (a :: u32) * sint (b :: u32)"
proof -
  have "(scast a * scast b :: u64) = word_of_int (sint a * sint b)" by simp
  moreover have "sint (word_of_int (sint a * sint b) :: u64) = sint a * sint b"
    by (rule sint_of_int64) (use product_range [of a b] in linarith)+
  ultimately show ?thesis by simp
qed

lemma narrow: "(ucast (word_of_int i :: u64) :: u32) = word_of_int i"
  by (rule bit_word_eqI) (simp add: bit_simps)

lemma FixedMul_exact: "FixedMul a b = word_of_int (sint a * sint b div 65536)"
proof -
  let ?w = "scast a * scast b :: u64"
  have "signed_drop_bit 16 ?w = word_of_int (sint (signed_drop_bit 16 ?w))" by (rule word_sint [symmetric])
  also have "\<dots> = word_of_int (sint a * sint b div 65536)"
    by (simp only: sint_signed_drop_bit_eq scast_product) (simp add: drop_bit_eq_div)
  finally show ?thesis by (simp only: FixedMul_def FRACBITS_def narrow)
qed

lemma sint_neg: "sint a \<noteq> - 2147483648 \<Longrightarrow> sint (- a) = - sint (a :: u32)"
proof -
  assume a: "sint a \<noteq> - 2147483648"
  have "- a = word_of_int (- sint a)" by simp
  moreover have "sint (word_of_int (- sint a) :: u32) = - sint a"
    by (rule sint_of_int32) (use sint_u32_range [of a] a in linarith)+
  ultimately show "sint (- a) = - sint a" by (simp only:)
qed

lemma sint_INT_MIN: "sint INT_MIN = - 2147483648" "sint w = - 2147483648 \<Longrightarrow> w = INT_MIN"
proof -
  show m: "sint INT_MIN = - 2147483648" by (simp add: INT_MIN_def)
  assume "sint w = - 2147483648"
  then show "w = INT_MIN" by (simp only: m [symmetric] signed_word_eqI)
qed

lemma c_abs_sint: "a \<noteq> INT_MIN \<Longrightarrow> sint (c_abs a) = \<bar>sint a\<bar>"
  using sint_neg [of a] sint_INT_MIN(2) [of a] by (auto simp: c_abs_def word_sless_alt)

lemma signs_differ: "((a XOR b) <s 0) \<longleftrightarrow> (sint a < 0) \<noteq> (sint (b :: u32) < 0)"
proof -
  have "bit w 31 \<longleftrightarrow> sint w < 0" for w :: u32
    using bit_last_iff [of w] by simp
  then show ?thesis by (simp add: word_sless_alt bit_xor_iff flip: \<open>\<And>w. bit w 31 = (sint w < 0)\<close>)
qed

lemma div_bound:
  fixes x y k :: int
  assumes "0 < y" "x < y * k"
  shows "x div y < k"
proof (rule ccontr)
  assume "\<not> x div y < k"
  then have "y * k \<le> y * (x div y)" using assms(1) by simp
  also have "\<dots> \<le> x" using assms(1) mult_div_mod_eq [of y x] pos_mod_sign [of y x] by linarith
  finally show False using assms(2) by simp
qed

text \<open>
  A quotient is computed exactly, rounded towards zero, or replaced by the largest or smallest number
  when the dividend is \<open>2 ^ 14\<close> times the divisor or more. It never overflows, and division by zero is
  always caught, unless the smallest number is involved.
\<close>

lemma FixedDiv_cases:
  assumes "a \<noteq> INT_MIN" "b \<noteq> INT_MIN"
  shows "if \<bar>sint b\<bar> \<le> \<bar>sint a\<bar> div 16384
    then FixedDiv a b = Inr (if (sint a < 0) \<noteq> (sint b < 0) then INT_MIN else INT_MAX)
    else \<exists>q. FixedDiv a b = Inr q \<and> sint q = c_quot (sint a * 65536) (sint b)"
proof -
  have s: "(c_abs b \<le>s signed_drop_bit 14 (c_abs a)) = (\<bar>sint b\<bar> \<le> \<bar>sint a\<bar> div 16384)"
    by (simp add: word_sle_eq sint_signed_drop_bit_eq c_abs_sint [OF assms(1)] c_abs_sint [OF assms(2)] drop_bit_eq_div)
  show ?thesis
  proof (cases "\<bar>sint b\<bar> \<le> \<bar>sint a\<bar> div 16384")
    case True
    then show ?thesis using s by (simp add: FixedDiv_def signs_differ)
  next
    case False
    let ?a = "sint a * 65536" and ?b = "sint b"
    have b0: "?b \<noteq> 0" using False by auto
    have "(push_bit FRACBITS (scast a) :: u64) = word_of_int ?a"
      by (simp add: FRACBITS_def push_bit_eq_mult)
    moreover have "sint (word_of_int ?a :: u64) = ?a"
      by (rule sint_of_int64) (use sint_u32_range [of a] in linarith)+
    ultimately have sa: "sint (push_bit FRACBITS (scast a) :: u64) = ?a" by simp
    have "sint (word_of_int ?b :: u64) = ?b" by (rule sint_of_int64) (use sint_u32_range [of b] in linarith)+
    then have sb: "sint (scast b :: u64) = ?b" by simp
    have "\<bar>sint a\<bar> < \<bar>?b\<bar> * 16384" using False by linarith
    then have "\<bar>?a\<bar> < \<bar>?b\<bar> * 1073741824" by (simp add: abs_mult)
    then have d: "\<bar>?a\<bar> div \<bar>?b\<bar> < 1073741824" "0 \<le> \<bar>?a\<bar> div \<bar>?b\<bar>"
      using b0 div_bound [of "\<bar>?b\<bar>" "\<bar>?a\<bar>" 1073741824] by (simp_all add: pos_imp_zdiv_nonneg_iff)
    define q where "q = c_quot ?a ?b"
    have q: "\<bar>q\<bar> < 1073741824" using d by (auto simp: q_def c_quot_def abs_mult sgn_if)
    have "sint (scast b :: u64) \<noteq> 0" using sb b0 by simp
    then have "(scast b :: u64) \<noteq> 0" by auto
    then have "c_div64 (push_bit FRACBITS (scast a)) (scast b) = Inr (word_of_int q)"
      by (simp only: c_div64_def sa sb q_def if_False)
    then have "FixedDiv a b = Inr (ucast (word_of_int q :: u64))" using s False by (simp add: FixedDiv_def)
    then have "FixedDiv a b = Inr (word_of_int q)" by (simp only: narrow)
    moreover have "sint (word_of_int q :: u32) = q" by (rule sint_of_int32) (use q in linarith)+
    ultimately show ?thesis using False by (simp add: q_def)
  qed
qed

text \<open>With the smallest number, the absolute value overflows and the check is passed.\<close>

lemma FixedDiv_INT_MIN: "FixedDiv INT_MIN 0 = Inl DivByZero" "FixedDiv INT_MIN 1 = Inr 0"
  by (simp_all add: FixedDiv_def INT_MIN_def c_abs_def c_div64_def c_quot_def FRACBITS_def word_sle_eq word_sless_alt)

text \<open>C24: Division of fixed-point numbers fails in one case only, the smallest number by zero: whatever
else is divided by zero, or by too small a number, is cut off at the largest or the smallest number.\<close>

theorem fixed_division_fails:
  "FixedDiv a b = Inl e \<longleftrightarrow> a = INT_MIN \<and> b = 0 \<and> e = DivByZero"
proof -
  have "sint (scast b :: u64) = sint b" by (rule sint_of_int64 [of "sint b", simplified]) (use sint_u32_range [of b] in linarith)+
  then have z: "(scast b :: u64) = 0 \<longleftrightarrow> b = 0" by (metis signed_0 signed_word_eqI)
  have neg: "signed_drop_bit 14 (c_abs a) <s 0 \<longleftrightarrow> a = INT_MIN"
  proof (cases "a = INT_MIN")
    case True
    then show ?thesis by (simp add: INT_MIN_def c_abs_def word_sless_alt)
  next
    case False
    then have "0 \<le> sint (c_abs a)" by (simp add: c_abs_sint)
    then have "0 \<le> sint (signed_drop_bit 14 (c_abs a))" by (simp add: sint_signed_drop_bit_eq drop_bit_eq_div)
    then show ?thesis using False by (simp add: word_sless_alt)
  qed
  show ?thesis
  proof (cases "b = 0")
    case True
    have "c_abs 0 \<le>s signed_drop_bit 14 (c_abs a) \<longleftrightarrow> \<not> signed_drop_bit 14 (c_abs a) <s 0"
      by (simp add: c_abs_def word_sle_eq word_sless_alt not_less)
    then show ?thesis using True neg by (auto simp: FixedDiv_def c_div64_def)
  qed (simp add: FixedDiv_def c_div64_def z)
qed

subsection \<open>Bounding boxes\<close>

record bbox =
  BOXTOP :: u32
  BOXBOTTOM :: u32
  BOXLEFT :: u32
  BOXRIGHT :: u32

definition M_ClearBox :: bbox where
  "M_ClearBox = \<lparr>BOXTOP = INT_MIN, BOXBOTTOM = INT_MAX, BOXLEFT = INT_MAX, BOXRIGHT = INT_MIN\<rparr>"

definition M_AddToBox :: "u32 \<Rightarrow> u32 \<Rightarrow> bbox \<Rightarrow> bbox" where
  "M_AddToBox x y box =
     (let box = (if x <s BOXLEFT box then box\<lparr>BOXLEFT := x\<rparr>
                 else if BOXRIGHT box <s x then box\<lparr>BOXRIGHT := x\<rparr> else box)
      in if y <s BOXBOTTOM box then box\<lparr>BOXBOTTOM := y\<rparr>
         else if BOXTOP box <s y then box\<lparr>BOXTOP := y\<rparr> else box)"

text \<open>One axis of a box.\<close>

fun extend :: "int \<Rightarrow> int \<times> int \<Rightarrow> int \<times> int" where
  "extend x (lo, hi) = (if x < lo then (x, hi) else if hi < x then (lo, x) else (lo, hi))"

lemma extend_range:
  "fold extend xs (lo, hi) = (lo', hi') \<Longrightarrow>
   lo' = Min (insert lo (set xs)) \<and> hi \<le> hi' \<and> hi' \<in> insert hi (set xs) \<and> (\<forall>x \<in> set xs. lo \<le> x \<longrightarrow> x \<le> hi')"
proof (induction xs arbitrary: lo hi)
  case Nil
  then show ?case by simp
next
  case (Cons x xs)
  obtain lo1 hi1 where e: "extend x (lo, hi) = (lo1, hi1)" by fastforce
  have "fold extend xs (lo1, hi1) = (lo', hi')" using Cons.prems e by simp
  note ih = Cons.IH [OF this]
  have x: "lo1 = min x lo" "hi \<le> hi1" "hi1 = hi \<or> hi1 = x" "lo \<le> x \<longrightarrow> x \<le> hi1" using e by (auto split: if_splits)
  have "Min (insert (min x lo) (set xs)) = Min (insert lo (set (x # xs)))"
    by (cases "xs = []") (auto simp: Min_insert2 min.commute min.left_commute min.assoc)
  then show ?case using ih x by auto
qed

definition axes :: "bbox \<Rightarrow> (int \<times> int) \<times> (int \<times> int)" where
  "axes b = ((sint (BOXLEFT b), sint (BOXRIGHT b)), (sint (BOXBOTTOM b), sint (BOXTOP b)))"

lemma M_AddToBox_axes: "axes (M_AddToBox x y b) = map_prod (extend (sint x)) (extend (sint y)) (axes b)"
  by (simp add: M_AddToBox_def axes_def word_sless_alt Let_def)

lemma box_axes:
  "axes (fold (\<lambda>(x, y). M_AddToBox x y) ps b)
    = map_prod (fold extend (map (sint \<circ> fst) ps)) (fold extend (map (sint \<circ> snd) ps)) (axes b)"
  by (induction ps arbitrary: b) (auto simp: M_AddToBox_axes split_def prod.map_comp comp_def prod.map_id)

text \<open>
  A box around points has the right left edge. Its right edge is right if a later point is as far
  right as the first, and too small otherwise: the first point sets only one of the edges.
\<close>

lemma M_AddToBox_range:
  assumes "b = fold (\<lambda>(x, y). M_AddToBox x y) (p # ps) M_ClearBox"
  shows "sint (BOXLEFT b) = Min (set (map (sint \<circ> fst) (p # ps)))"
    and "\<exists>q \<in> set ps. fst p \<le>s fst q \<Longrightarrow> sint (BOXRIGHT b) = Max (set (map (sint \<circ> fst) (p # ps)))"
    and "\<forall>q \<in> set ps. fst q <s fst p \<Longrightarrow> fst p \<noteq> INT_MAX \<Longrightarrow> fst p \<noteq> INT_MIN \<Longrightarrow> BOXRIGHT b <s fst p"
proof -
  let ?x = "sint (fst p)" and ?xs = "map (sint \<circ> fst) ps"
  have c: "fst (axes M_ClearBox) = (2147483647, - 2147483648)"
    by (simp add: axes_def M_ClearBox_def INT_MAX_def INT_MIN_def)
  have r: "- 2147483648 \<le> ?x" "?x \<le> 2147483647" using sint_u32_range [of "fst p"] by linarith+
  have "(sint (BOXLEFT b), sint (BOXRIGHT b)) = fst (axes b)" by (simp add: axes_def)
  also have "\<dots> = fold extend ?xs (extend ?x (2147483647, - 2147483648))"
    unfolding assms box_axes using c by (simp add: map_prod_def split_def)
  finally have f: "fold extend ?xs (extend ?x (2147483647, - 2147483648)) = (sint (BOXLEFT b), sint (BOXRIGHT b))" by simp
  obtain h where h: "extend ?x (2147483647, - 2147483648) = (?x, h)" "h = - 2147483648 \<or> h = ?x \<and> ?x = 2147483647"
  proof (cases "?x < 2147483647")
    case False
    then have "?x = 2147483647" using r by simp
    then show thesis using that [of "?x"] by simp
  qed (use that in simp)
  note e = extend_range [OF f [unfolded h(1)]]
  have h_le: "h \<le> ?x" using h(2) r by auto
  show "sint (BOXLEFT b) = Min (set (map (sint \<circ> fst) (p # ps)))" using e by simp
  show "sint (BOXRIGHT b) = Max (set (map (sint \<circ> fst) (p # ps)))" if later: "\<exists>q \<in> set ps. fst p \<le>s fst q"
  proof -
    obtain q where q: "q \<in> set ps" "?x \<le> sint (fst q)" using later by (auto simp: word_sle_eq)
    then have y: "sint (fst q) \<in> set ?xs" "?x \<le> sint (fst q)" "sint (fst q) \<le> sint (BOXRIGHT b)" using e by simp_all
    have "sint (BOXRIGHT b) = h \<Longrightarrow> sint (BOXRIGHT b) = ?x" using y(2,3) h_le by linarith
    moreover have "sint (BOXRIGHT b) \<in> insert h (set ?xs)" using e by blast
    ultimately have "sint (BOXRIGHT b) \<in> insert ?x (set ?xs)" by blast
    moreover have "z \<le> sint (BOXRIGHT b)" if "z \<in> insert ?x (set ?xs)" for z
    proof (cases "?x \<le> z \<and> z \<in> set ?xs")
      case False
      then have "z \<le> ?x" using that by auto
      then show ?thesis using y(2,3) by linarith
    qed (use e in blast)
    ultimately show ?thesis by (intro Max_eqI [symmetric]) auto
  qed
  show "BOXRIGHT b <s fst p" if "\<forall>q \<in> set ps. fst q <s fst p" "fst p \<noteq> INT_MAX" "fst p \<noteq> INT_MIN"
  proof -
    have "?x \<noteq> 2147483647" using that(2) signed_word_eqI [of "fst p" INT_MAX] by (auto simp: INT_MAX_def)
    moreover have "?x \<noteq> - 2147483648" using that(3) sint_INT_MIN(2) by blast
    ultimately have "h < ?x" using h(2) r by auto
    then have "\<forall>z \<in> insert h (set ?xs). z < ?x" using that(1) by (auto simp: word_sless_alt)
    then show ?thesis using e by (auto simp: word_sless_alt)
  qed
qed

end
