(* ===== verification/P_Level.thy ===== *)
theory P_Level
  imports P_World M_Fixed
begin

text \<open>
  The level (\<open>doom/r_state.h\<close>, \<open>doom/p_local.h\<close>, \<open>doom/doomstat.h\<close>): the objects in memory, the map, and the lists that link
  them: the thinkers (\<open>p_tick.c\<close>), and the things of a sector and of a block of the map
  (\<open>p_maputl.c\<close>, \<open>r_main.c\<close>). \<open>lv_objects\<close> is the memory: what an address holds. \<open>Z_Malloc\<close> hands out
  addresses in order. \<open>thinkercap\<close> is an object of its own at a fixed address. The records of the map have
  the fields that saving, loading, the lists and the moving parts of the level use.
\<close>

subsection \<open>The map\<close>

record sector =
  sec_floorheight :: fixed
  sec_ceilingheight :: fixed
  sec_floorpic :: u16
  sec_ceilingpic :: u16
  sec_lightlevel :: u16
  sec_special :: u16
  sec_oldspecial :: u16
  sec_tag :: u16
  sec_soundtarget :: ptr
  sec_thinglist :: ptr
  sec_floordata :: ptr
  sec_ceilingdata :: ptr
  sec_lightingdata :: ptr
  sec_lines :: "nat list"
  sec_stairlock :: u32
  sec_prevsec :: u32
  sec_nextsec :: u32

record side =
  si_textureoffset :: fixed
  si_rowoffset :: fixed
  si_toptexture :: u16
  si_bottomtexture :: u16
  si_midtexture :: u16
  si_sector :: nat

record line =
  li_flags :: u16
  li_special :: u16
  li_tag :: u16
  li_sidenum :: "u16 \<times> u16"
  li_frontsector :: "nat option"
  li_backsector :: "nat option"

record node =
  nd_x :: fixed
  nd_y :: fixed
  nd_dx :: fixed
  nd_dy :: fixed
  nd_children :: "u32 \<times> u32"

record level =
  lv_objects :: "ptr \<Rightarrow> object option"
  lv_next :: ptr
  lv_sectors :: "sector list"
  lv_sides :: "side list"
  lv_lines :: "line list"
  lv_subsectors :: "nat list"
  lv_nodes :: "node list"
  bmaporgx :: fixed
  bmaporgy :: fixed
  bmapwidth :: u32
  bmapheight :: u32
  blocklinks :: "ptr list"
  lv_players :: "player list"
  lv_playeringame :: "u32 list"
  gameskill :: u32
  gameepisode :: u32
  gamemap :: u32
  leveltime :: u32
  gameversion :: u32
  activeceilings :: "ptr list"
  activeplats :: "ptr list"
  itemrespawnque :: "(mapthing \<times> u32) list"
  iquehead :: u32
  iquetail :: u32

definition thinkercap :: ptr where "thinkercap = 1"
definition MAPBLOCKSHIFT :: nat where "MAPBLOCKSHIFT = FRACBITS + 7"
definition NF_SUBSECTOR :: u32 where "NF_SUBSECTOR = 0x80000000"
definition ITEMQUESIZE :: nat where "ITEMQUESIZE = 128"
definition MAXCEILINGS :: nat where "MAXCEILINGS = 30"
definition MAXPLATS :: nat where "MAXPLATS = 30 * 256"
definition MT_INV :: u32 where "MT_INV = 56"
definition MT_INS :: u32 where "MT_INS = 58"
definition MF_SPECIAL :: u32 where "MF_SPECIAL = 1"
definition MF_NOSECTOR :: u32 where "MF_NOSECTOR = 8"
definition MF_NOBLOCKMAP :: u32 where "MF_NOBLOCKMAP = 16"
definition MF_DROPPED :: u32 where "MF_DROPPED = 0x20000"

text \<open>The functions a thinker may have: pointers, of which it only matters that they differ.\<close>

definition P_MobjThinker :: ptr where "P_MobjThinker = 0x101"
definition T_MoveCeiling :: ptr where "T_MoveCeiling = 0x102"
definition T_VerticalDoor :: ptr where "T_VerticalDoor = 0x103"
definition T_MoveFloor :: ptr where "T_MoveFloor = 0x104"
definition T_PlatRaise :: ptr where "T_PlatRaise = 0x105"
definition T_LightFlash :: ptr where "T_LightFlash = 0x106"
definition T_StrobeFlash :: ptr where "T_StrobeFlash = 0x107"
definition T_Glow :: ptr where "T_Glow = 0x108"
definition T_FireFlicker :: ptr where "T_FireFlicker = 0x109"
definition T_MoveElevator :: ptr where "T_MoveElevator = 0x10a"

lemmas thinker_functions = P_MobjThinker_def T_MoveCeiling_def T_VerticalDoor_def T_MoveFloor_def T_PlatRaise_def
  T_LightFlash_def T_StrobeFlash_def T_Glow_def T_FireFlicker_def T_MoveElevator_def

subsection \<open>Memory\<close>

definition load :: "ptr \<Rightarrow> level \<Rightarrow> object res" where
  "load p lv = (if p = 0 then Inl NullDeref else case lv_objects lv p of None \<Rightarrow> Inl BadPointer | Some x \<Rightarrow> Inr x)"

definition store :: "ptr \<Rightarrow> object \<Rightarrow> level \<Rightarrow> level" where
  "store p x lv = lv\<lparr>lv_objects := (lv_objects lv)(p \<mapsto> x)\<rparr>"

definition load_mobj :: "ptr \<Rightarrow> level \<Rightarrow> mobj res" where
  "load_mobj p lv = bindR (load p lv) (\<lambda>x. case x of Mobj m \<Rightarrow> Inr m | _ \<Rightarrow> Inl BadPointer)"

definition upd_mobj :: "ptr \<Rightarrow> (mobj \<Rightarrow> mobj) \<Rightarrow> level \<Rightarrow> level res" where
  "upd_mobj p f lv = bindR (load_mobj p lv) (\<lambda>m. Inr (store p (Mobj (f m)) lv))"

definition upd_thinker :: "ptr \<Rightarrow> (thinker \<Rightarrow> thinker) \<Rightarrow> level \<Rightarrow> level res" where
  "upd_thinker p f lv = bindR (load p lv) (\<lambda>x. Inr (store p (set_thinker (f (thinker_of x)) x) lv))"

text \<open>New memory, whose contents are \<open>x\<close> of its address; without any left, an error.\<close>

definition Z_Malloc :: "(ptr \<Rightarrow> object) \<Rightarrow> level \<Rightarrow> (ptr \<times> level) res" where
  "Z_Malloc x lv =
     (if lv_next lv = - 1 then Inl IError
      else Inr (lv_next lv, (store (lv_next lv) (x (lv_next lv)) lv)\<lparr>lv_next := lv_next lv + 1\<rparr>))"

definition Z_Free :: "ptr \<Rightarrow> level \<Rightarrow> level res" where
  "Z_Free p lv = bindR (load p lv) (\<lambda>_. Inr (lv\<lparr>lv_objects := (lv_objects lv)(p := None)\<rparr>))"

definition sector_at :: "nat \<Rightarrow> level \<Rightarrow> sector res" where
  "sector_at i lv = (if i < length (lv_sectors lv) then Inr (lv_sectors lv ! i) else Inl OutOfBounds)"

definition upd_sector :: "nat \<Rightarrow> (sector \<Rightarrow> sector) \<Rightarrow> level \<Rightarrow> level res" where
  "upd_sector i f lv = bindR (sector_at i lv) (\<lambda>s. Inr (lv\<lparr>lv_sectors := (lv_sectors lv)[i := f s]\<rparr>))"

subsection \<open>Thinkers\<close>

definition P_InitThinkers :: "level \<Rightarrow> level res" where
  "P_InitThinkers = upd_thinker thinkercap (\<lambda>t. t\<lparr>th_prev := thinkercap, th_next := thinkercap\<rparr>)"

definition P_AddThinker :: "ptr \<Rightarrow> level \<Rightarrow> level res" where
  "P_AddThinker thinker lv =
     bindR (load thinkercap lv) (\<lambda>cap.
     bindR (upd_thinker (th_prev (thinker_of cap)) (\<lambda>t. t\<lparr>th_next := thinker\<rparr>) lv) (\<lambda>lv.
     bindR (upd_thinker thinker (\<lambda>t. t\<lparr>th_next := thinkercap\<rparr>) lv) (\<lambda>lv.
     bindR (load thinkercap lv) (\<lambda>cap.
     bindR (upd_thinker thinker (\<lambda>t. t\<lparr>th_prev := th_prev (thinker_of cap)\<rparr>) lv) (\<lambda>lv.
     upd_thinker thinkercap (\<lambda>t. t\<lparr>th_prev := thinker\<rparr>) lv)))))"

definition P_RemoveThinker :: "ptr \<Rightarrow> level \<Rightarrow> level res" where
  "P_RemoveThinker thinker = upd_thinker thinker (\<lambda>t. t\<lparr>th_function := - 1\<rparr>)"

subsection \<open>Where a thing is\<close>

definition R_PointOnSide :: "fixed \<Rightarrow> fixed \<Rightarrow> node \<Rightarrow> bool" where
  "R_PointOnSide x y node =
     (if nd_dx node = 0 then (if x \<le>s nd_x node then 0 <s nd_dy node else nd_dy node <s 0)
      else if nd_dy node = 0 then (if y \<le>s nd_y node then nd_dx node <s 0 else 0 <s nd_dx node)
      else let dx = x - nd_x node; dy = y - nd_y node
           in if (nd_dy node XOR nd_dx node XOR dx XOR dy) AND 0x80000000 \<noteq> 0
              then (nd_dy node XOR dx) AND 0x80000000 \<noteq> 0
              else let left = FixedMul (signed_drop_bit FRACBITS (nd_dy node)) dx;
                       right = FixedMul dy (signed_drop_bit FRACBITS (nd_dx node))
                   in \<not> right <s left)"

text \<open>The walk down the tree; the index is an \<open>int\<close>.\<close>

partial_function (option) bsp_walk :: "fixed \<Rightarrow> fixed \<Rightarrow> node list \<Rightarrow> u32 \<Rightarrow> u32 res option" where
  "bsp_walk x y nodes nodenum =
     (if nodenum AND NF_SUBSECTOR \<noteq> 0 then Some (Inr (nodenum AND NOT NF_SUBSECTOR))
      else if length nodes \<le> unat nodenum then Some (Inl OutOfBounds)
      else let node = nodes ! unat nodenum
           in bsp_walk x y nodes ((if R_PointOnSide x y node then snd else fst) (nd_children node)))"

definition R_PointInSubsector :: "fixed \<Rightarrow> fixed \<Rightarrow> level \<Rightarrow> nat res" where
  "R_PointInSubsector x y lv =
     (if lv_nodes lv = [] then Inr 0
      else case bsp_walk x y (lv_nodes lv) (of_nat (length (lv_nodes lv) - 1)) of
             None \<Rightarrow> Inl Diverges
           | Some (Inl f) \<Rightarrow> Inl f
           | Some (Inr ss) \<Rightarrow> Inr (unat ss))"

definition subsector_sector :: "nat \<Rightarrow> level \<Rightarrow> nat res" where
  "subsector_sector ss lv = (if ss < length (lv_subsectors lv) then Inr (lv_subsectors lv ! ss) else Inl OutOfBounds)"

text \<open>The block of the map a point is in, if it is on the map.\<close>

definition block_of :: "fixed \<Rightarrow> fixed \<Rightarrow> level \<Rightarrow> u32 option" where
  "block_of x y lv =
     (let blockx = signed_drop_bit MAPBLOCKSHIFT (x - bmaporgx lv);
          blocky = signed_drop_bit MAPBLOCKSHIFT (y - bmaporgy lv)
      in if 0 \<le>s blockx \<and> blockx <s bmapwidth lv \<and> 0 \<le>s blocky \<and> blocky <s bmapheight lv
         then Some (blocky * bmapwidth lv + blockx) else None)"

definition block_get :: "u32 \<Rightarrow> level \<Rightarrow> ptr res" where
  "block_get i lv = (if unat i < length (blocklinks lv) then Inr (blocklinks lv ! unat i) else Inl OutOfBounds)"

definition block_set :: "u32 \<Rightarrow> ptr \<Rightarrow> level \<Rightarrow> level res" where
  "block_set i p lv =
     (if unat i < length (blocklinks lv) then Inr (lv\<lparr>blocklinks := (blocklinks lv)[unat i := p]\<rparr>) else Inl OutOfBounds)"

definition unlink_sector :: "mobj \<Rightarrow> level \<Rightarrow> level res" where
  "unlink_sector m lv =
     bindR (if mo_snext m \<noteq> 0 then upd_mobj (mo_snext m) (\<lambda>n. n\<lparr>mo_sprev := mo_sprev m\<rparr>) lv else Inr lv) (\<lambda>lv.
     if mo_sprev m \<noteq> 0 then upd_mobj (mo_sprev m) (\<lambda>n. n\<lparr>mo_snext := mo_snext m\<rparr>) lv
     else bindR (subsector_sector (unat (mo_subsector m)) lv) (\<lambda>sec.
          upd_sector sec (\<lambda>s. s\<lparr>sec_thinglist := mo_snext m\<rparr>) lv))"

definition unlink_block :: "mobj \<Rightarrow> level \<Rightarrow> level res" where
  "unlink_block m lv =
     bindR (if mo_bnext m \<noteq> 0 then upd_mobj (mo_bnext m) (\<lambda>n. n\<lparr>mo_bprev := mo_bprev m\<rparr>) lv else Inr lv) (\<lambda>lv.
     if mo_bprev m \<noteq> 0 then upd_mobj (mo_bprev m) (\<lambda>n. n\<lparr>mo_bnext := mo_bnext m\<rparr>) lv
     else case block_of (mo_x m) (mo_y m) lv of
            None \<Rightarrow> Inr lv
          | Some i \<Rightarrow> block_set i (mo_bnext m) lv)"

definition P_UnsetThingPosition :: "ptr \<Rightarrow> level \<Rightarrow> level res" where
  "P_UnsetThingPosition thing lv =
     bindR (load_mobj thing lv) (\<lambda>m.
     bindR (if mo_flags m AND MF_NOSECTOR = 0 then unlink_sector m lv else Inr lv) (\<lambda>lv.
     if mo_flags m AND MF_NOBLOCKMAP = 0 then unlink_block m lv else Inr lv))"

definition link_sector :: "ptr \<Rightarrow> nat \<Rightarrow> level \<Rightarrow> level res" where
  "link_sector thing ss lv =
     bindR (subsector_sector ss lv) (\<lambda>sec.
     bindR (sector_at sec lv) (\<lambda>s.
     bindR (upd_mobj thing (\<lambda>m. m\<lparr>mo_sprev := 0, mo_snext := sec_thinglist s\<rparr>) lv) (\<lambda>lv.
     bindR (if sec_thinglist s \<noteq> 0 then upd_mobj (sec_thinglist s) (\<lambda>n. n\<lparr>mo_sprev := thing\<rparr>) lv else Inr lv) (\<lambda>lv.
     upd_sector sec (\<lambda>s. s\<lparr>sec_thinglist := thing\<rparr>) lv))))"

definition link_block :: "ptr \<Rightarrow> mobj \<Rightarrow> level \<Rightarrow> level res" where
  "link_block thing m lv =
     (case block_of (mo_x m) (mo_y m) lv of
        None \<Rightarrow> upd_mobj thing (\<lambda>m. m\<lparr>mo_bnext := 0, mo_bprev := 0\<rparr>) lv
      | Some i \<Rightarrow>
          bindR (block_get i lv) (\<lambda>link.
          bindR (upd_mobj thing (\<lambda>m. m\<lparr>mo_bprev := 0, mo_bnext := link\<rparr>) lv) (\<lambda>lv.
          bindR (if link \<noteq> 0 then upd_mobj link (\<lambda>n. n\<lparr>mo_bprev := thing\<rparr>) lv else Inr lv) (\<lambda>lv.
          block_set i thing lv))))"

definition P_SetThingPosition :: "ptr \<Rightarrow> level \<Rightarrow> level res" where
  "P_SetThingPosition thing lv =
     bindR (load_mobj thing lv) (\<lambda>m.
     bindR (R_PointInSubsector (mo_x m) (mo_y m) lv) (\<lambda>ss.
     bindR (upd_mobj thing (\<lambda>m. m\<lparr>mo_subsector := of_nat ss\<rparr>) lv) (\<lambda>lv.
     bindR (if mo_flags m AND MF_NOSECTOR = 0 then link_sector thing ss lv else Inr lv) (\<lambda>lv.
     if mo_flags m AND MF_NOBLOCKMAP = 0 then link_block thing m lv else Inr lv))))"

subsection \<open>Removing a thing\<close>

definition P_RemoveMobj :: "ptr \<Rightarrow> level \<Rightarrow> level res" where
  "P_RemoveMobj mobj lv =
     bindR (load_mobj mobj lv) (\<lambda>m.
     bindR (if mo_flags m AND MF_SPECIAL \<noteq> 0 \<and> mo_flags m AND MF_DROPPED = 0 \<and> mo_type m \<noteq> MT_INV \<and> mo_type m \<noteq> MT_INS
            then if length (itemrespawnque lv) \<le> unat (iquehead lv) then Inl OutOfBounds
                 else let lv = lv\<lparr>itemrespawnque := (itemrespawnque lv)[unat (iquehead lv) := (mo_spawnpoint m, leveltime lv)],
                                  iquehead := (iquehead lv + 1) AND (of_nat ITEMQUESIZE - 1)\<rparr>
                      in Inr (if iquehead lv = iquetail lv
                              then lv\<lparr>iquetail := (iquetail lv + 1) AND (of_nat ITEMQUESIZE - 1)\<rparr> else lv)
            else Inr lv) (\<lambda>lv.
     bindR (P_UnsetThingPosition mobj lv) (\<lambda>lv.
     P_RemoveThinker mobj lv)))"

definition P_AddActiveCeiling :: "ptr \<Rightarrow> level \<Rightarrow> level" where
  "P_AddActiveCeiling c lv =
     (case find (\<lambda>i. activeceilings lv ! i = 0) [0..<length (activeceilings lv)] of
        None \<Rightarrow> lv
      | Some i \<Rightarrow> lv\<lparr>activeceilings := (activeceilings lv)[i := c]\<rparr>)"

definition P_AddActivePlat :: "ptr \<Rightarrow> level \<Rightarrow> level res" where
  "P_AddActivePlat plat lv =
     (case find (\<lambda>i. activeplats lv ! i = 0) [0..<length (activeplats lv)] of
        None \<Rightarrow> Inl IError
      | Some i \<Rightarrow> Inr (lv\<lparr>activeplats := (activeplats lv)[i := plat]\<rparr>))"

end
