(* ===== verification/P_Links.thy ===== *)
theory P_Links
  imports P_Level
begin

text \<open>
  The linked lists of the level as HOL lists: the thinkers, and the things of each sector and of each
  block. All are rings: the thinkers run through \<open>thinkercap\<close>, a list of things through the null
  pointer, whose successor is the head of the list.
\<close>

subsection \<open>Rings\<close>

fun dseg :: "(ptr \<Rightarrow> ptr) \<Rightarrow> (ptr \<Rightarrow> ptr) \<Rightarrow> ptr \<Rightarrow> ptr list \<Rightarrow> ptr \<Rightarrow> bool" where
  "dseg nx pv x [] y \<longleftrightarrow> nx x = y \<and> pv y = x"
| "dseg nx pv x (a # as) y \<longleftrightarrow> nx x = a \<and> pv a = x \<and> dseg nx pv a as y"

lemma dseg_append: "dseg nx pv x (as @ b # bs) y \<longleftrightarrow> dseg nx pv x as b \<and> dseg nx pv b bs y"
  by (induction as arbitrary: x) auto

lemma dseg_cong: "(\<And>p. p \<in> set (x # as) \<Longrightarrow> nx p = nx' p) \<Longrightarrow> (\<And>p. p \<in> set (as @ [y]) \<Longrightarrow> pv p = pv' p) \<Longrightarrow>
  dseg nx pv x as y = dseg nx' pv' x as y"
  by (induction as arbitrary: x) auto

lemma dseg_next: "dseg nx pv x as y \<Longrightarrow> nx x = hd (as @ [y])"
  by (cases as) auto

lemma dseg_prev: "dseg nx pv x as y \<Longrightarrow> pv y = last (x # as)"
  by (induction as arbitrary: x) auto

definition ring :: "(ptr \<Rightarrow> ptr) \<Rightarrow> (ptr \<Rightarrow> ptr) \<Rightarrow> ptr \<Rightarrow> ptr list \<Rightarrow> bool" where
  "ring nx pv c as \<longleftrightarrow> dseg nx pv c as c \<and> distinct (c # as)"

lemma ring_front:
  assumes "ring nx pv c as" "a \<notin> set (c # as)"
  shows "ring (nx(a := nx c, c := a)) (pv(a := c, nx c := a)) c (a # as)"
proof (cases as)
  case Nil
  then show ?thesis using assms by (auto simp: ring_def)
next
  case (Cons b bs)
  have d: "dseg nx pv b bs c" "nx c = b" "distinct (c # b # bs)" using assms(1) by (simp_all add: ring_def Cons)
  have "dseg (nx(a := b, c := a)) (pv(a := c, b := a)) b bs c"
    using d assms(2) by (subst dseg_cong [where nx' = nx and pv' = pv]) (auto simp: Cons)
  then show ?thesis using d assms(2) by (auto simp: ring_def Cons)
qed

lemma ring_end:
  assumes "ring nx pv c as" "a \<notin> set (c # as)"
  shows "ring (nx(pv c := a, a := c)) (pv(a := pv c, c := a)) c (as @ [a])"
proof (cases as rule: rev_cases)
  case Nil
  then show ?thesis using assms by (auto simp: ring_def)
next
  case (snoc bs b)
  have d: "dseg nx pv c bs b" "pv c = b" "distinct (c # bs @ [b])" using assms(1) by (auto simp: ring_def snoc dseg_append)
  have "dseg (nx(b := a, a := c)) (pv(a := b, c := a)) c bs b"
    using d assms(2) by (subst dseg_cong [where nx' = nx and pv' = pv]) (auto simp: snoc)
  then show ?thesis using d assms(2) by (auto simp: ring_def snoc dseg_append)
qed

lemma ring_remove:
  assumes "ring nx pv c as" "a \<in> set as"
  shows "ring (nx(pv a := nx a)) (pv(nx a := pv a)) c (remove1 a as)"
proof -
  obtain bs cs where as: "as = bs @ a # cs" using assms(2) by (auto simp: in_set_conv_decomp)
  have d: "dseg nx pv c bs a" "dseg nx pv a cs c" "distinct (c # bs @ a # cs)"
    using assms(1) by (auto simp: ring_def as dseg_append)
  have n: "nx a = hd (cs @ [c])" "pv a = last (c # bs)" using dseg_next [OF d(2)] dseg_prev [OF d(1)] by simp_all
  have r: "remove1 a as = bs @ cs" using d(3) by (simp add: as remove1_append)
  let ?nx = "nx(pv a := nx a)" and ?pv = "pv(nx a := pv a)"
  have "dseg ?nx ?pv c (bs @ cs) c"
  proof (cases cs)
    case Nil
    have "dseg ?nx ?pv c bs c"
    proof (cases bs rule: rev_cases)
      case (snoc es e)
      have "dseg ?nx ?pv c es e" using d n Nil snoc
        by (subst dseg_cong [where nx' = nx and pv' = pv]) (auto simp: dseg_append)
      then show ?thesis using d n Nil snoc by (auto simp: dseg_append)
    qed (use n Nil in auto)
    then show ?thesis by (simp add: Nil)
  next
    case (Cons e es)
    have "last (c # bs) \<in> set (c # bs)" by (rule last_in_set) simp
    then have l: "pv a \<notin> set (e # es)" using d(3) n(2) Cons by (metis Un_iff distinct_append append_Cons disjoint_iff list.set_intros(2) set_append)
    have tail: "dseg ?nx ?pv e es c" using d n Cons l
      by (subst dseg_cong [where nx' = nx and pv' = pv]) (auto split: if_splits)
    have "dseg ?nx ?pv c bs e"
    proof (cases bs rule: rev_cases)
      case (snoc gs g)
      have "dseg ?nx ?pv c gs g" using d n Cons snoc
        by (subst dseg_cong [where nx' = nx and pv' = pv]) (auto simp: dseg_append)
      then show ?thesis using d n Cons snoc by (auto simp: dseg_append)
    qed (use n Cons in auto)
    then show ?thesis using tail by (simp add: Cons dseg_append)
  qed
  then show ?thesis using d(3) by (auto simp: ring_def r)
qed

lemma ring_next: "ring nx pv c as \<Longrightarrow> a \<in> set (c # as) \<Longrightarrow> nx a \<in> set (c # as)"
proof -
  assume r: "ring nx pv c as" and a: "a \<in> set (c # as)"
  show ?thesis
  proof (cases "a = c")
    case True
    then show ?thesis using r dseg_next [of nx pv c as c] by (cases as) (auto simp: ring_def)
  next
    case False
    then obtain bs cs where "as = bs @ a # cs" using a by (auto simp: in_set_conv_decomp)
    then show ?thesis using r dseg_next [of nx pv a cs c] by (cases cs) (auto simp: ring_def dseg_append)
  qed
qed

lemma ring_prev: "ring nx pv c as \<Longrightarrow> a \<in> set (c # as) \<Longrightarrow> pv a \<in> set (c # as)"
proof -
  assume r: "ring nx pv c as" and a: "a \<in> set (c # as)"
  show ?thesis
  proof (cases "a = c")
    case True
    then show ?thesis using r dseg_prev [of nx pv c as c] last_in_set [of "c # as"] by (simp add: ring_def)
  next
    case False
    then obtain bs cs where "as = bs @ a # cs" using a by (auto simp: in_set_conv_decomp)
    then show ?thesis using r dseg_prev [of nx pv c bs a] last_in_set [of "c # bs"] by (auto simp: ring_def dseg_append)
  qed
qed

subsection \<open>Lists of things\<close>

definition mobj_at :: "level \<Rightarrow> ptr \<Rightarrow> mobj option" where
  "mobj_at lv p = (case lv_objects lv p of Some (Mobj m) \<Rightarrow> Some m | _ \<Rightarrow> None)"

lemma load_mobj_at: "p \<noteq> 0 \<Longrightarrow> mobj_at lv p = Some m \<Longrightarrow> load_mobj p lv = Inr m"
  by (auto simp: mobj_at_def load_mobj_def load_def split: option.splits object.splits)

lemma upd_mobj_at: "p \<noteq> 0 \<Longrightarrow> mobj_at lv p = Some m \<Longrightarrow> upd_mobj p f lv = Inr (store p (Mobj (f m)) lv)"
  by (simp add: upd_mobj_def load_mobj_at)

lemma mobj_at_store [simp]: "mobj_at (store p (Mobj m) lv) = (mobj_at lv)(p := Some m)"
  by (auto simp: mobj_at_def store_def)

definition link_fun :: "(mobj \<Rightarrow> ptr) \<Rightarrow> (ptr \<Rightarrow> mobj option) \<Rightarrow> ptr \<Rightarrow> ptr" where
  "link_fun get ms p = (case ms p of None \<Rightarrow> 0 | Some m \<Rightarrow> get m)"

text \<open>
  The list \<open>as\<close> of the things linked by \<open>nxt\<close> and \<open>prv\<close>, from \<open>head\<close> on; \<open>sel m\<close> says in which list a
  thing belongs.
\<close>

definition chain :: "(mobj \<Rightarrow> ptr) \<Rightarrow> (mobj \<Rightarrow> ptr) \<Rightarrow> (ptr \<Rightarrow> mobj option) \<Rightarrow> ptr \<Rightarrow> ptr list \<Rightarrow> bool" where
  "chain nxt prv ms head as \<longleftrightarrow> ring ((link_fun nxt ms)(0 := head)) ((link_fun prv ms)(0 := last (0 # as))) 0 as
     \<and> (\<forall>p \<in> set as. ms p \<noteq> None)"

lemma chainI:
  assumes "ring nx pv 0 as" "nx 0 = head" "\<And>p. p \<noteq> 0 \<Longrightarrow> nx p = link_fun nxt ms p" "\<And>p. p \<noteq> 0 \<Longrightarrow> pv p = link_fun prv ms p"
    "\<And>p. p \<in> set as \<Longrightarrow> ms p \<noteq> None"
  shows "chain nxt prv ms head as"
proof -
  have "pv 0 = last (0 # as)" using assms(1) dseg_prev [of nx pv 0 as 0] by (simp add: ring_def)
  then have "(link_fun nxt ms)(0 := head) = nx" "(link_fun prv ms)(0 := last (0 # as)) = pv"
    using assms(2-4) by (auto simp: fun_eq_iff)
  then show ?thesis using assms(1,5) by (simp add: chain_def)
qed

lemma chainD:
  assumes "chain nxt prv ms head as" "a \<in> set as"
  shows "\<exists>m. ms a = Some m \<and> a \<noteq> 0 \<and> nxt m \<in> set (0 # as) \<and> prv m \<in> set (0 # as)
    \<and> ((link_fun nxt ms)(0 := head)) a = nxt m \<and> ((link_fun prv ms)(0 := last (0 # as))) a = prv m"
proof -
  have r: "ring ((link_fun nxt ms)(0 := head)) ((link_fun prv ms)(0 := last (0 # as))) 0 as" using assms(1) by (simp add: chain_def)
  then have a: "a \<noteq> 0" using assms(2) by (auto simp: ring_def)
  obtain m where m: "ms a = Some m" using assms by (auto simp: chain_def)
  have "a \<in> set (0 # as)" using assms(2) by simp
  from ring_next [OF r this] ring_prev [OF r this] show ?thesis using a m by (simp add: link_fun_def)
qed

lemma chain_head: "chain nxt prv ms head as \<Longrightarrow> head = hd (as @ [0])"
  using dseg_next by (fastforce simp: chain_def ring_def)

locale thing_links =
  fixes nxt prv :: "mobj \<Rightarrow> ptr" and set_nxt set_prv :: "ptr \<Rightarrow> mobj \<Rightarrow> mobj"
  assumes lens: "nxt (set_nxt p m) = p" "nxt (set_prv p m) = nxt m" "prv (set_prv p m) = p" "prv (set_nxt p m) = prv m"
begin

lemma link_fun_upd [simp]: "link_fun get (ms(p := Some m)) = (link_fun get ms)(p := get m)"
  by (auto simp: link_fun_def)

text \<open>Putting a thing in front, and taking one out, on the memory.\<close>

lemma chain_front:
  assumes "chain nxt prv ms head as" "a \<noteq> 0" "a \<notin> set as" "ms a = Some m"
  shows "head \<noteq> 0 \<Longrightarrow> \<exists>h. ms head = Some h \<and> head \<noteq> a
      \<and> chain nxt prv (ms(a := Some (set_nxt head (set_prv 0 m)), head := Some (set_prv a h))) a (a # as)"
    and "head = 0 \<Longrightarrow> chain nxt prv (ms(a := Some (set_nxt head (set_prv 0 m)))) a (a # as)"
proof -
  let ?F = "(link_fun nxt ms)(0 := head)" and ?G = "(link_fun prv ms)(0 := last (0 # as))"
  have "ring ?F ?G 0 as" "a \<notin> set (0 # as)" using assms(1-3) by (simp_all add: chain_def)
  then have r: "ring (?F(a := ?F 0, 0 := a)) (?G(a := 0, ?F 0 := a)) 0 (a # as)" by (rule ring_front)
  have some: "\<forall>p \<in> set as. ms p \<noteq> None" using assms(1) by (simp add: chain_def)
  show "\<exists>h. ms head = Some h \<and> head \<noteq> a
      \<and> chain nxt prv (ms(a := Some (set_nxt head (set_prv 0 m)), head := Some (set_prv a h))) a (a # as)" if "head \<noteq> 0"
  proof -
    have "head \<in> set as" using chain_head [OF assms(1)] that by (cases as) auto
    moreover then obtain h where "ms head = Some h" using some by auto
    ultimately show ?thesis using assms(2-4) that some
      by (intro exI [of _ h] conjI chainI [OF r]) (auto simp: lens link_fun_def)
  qed
  show "chain nxt prv (ms(a := Some (set_nxt head (set_prv 0 m)))) a (a # as)" if "head = 0"
    using assms(2-4) that some by (intro chainI [OF r]) (auto simp: lens link_fun_def)
qed

lemma chain_remove:
  assumes "chain nxt prv ms head as" "a \<in> set as" "ms a = Some m"
    and ms1: "ms1 = (if nxt m = 0 then ms else ms(nxt m := map_option (set_prv (prv m)) (ms (nxt m))))"
  shows "nxt m \<noteq> 0 \<Longrightarrow> ms (nxt m) \<noteq> None"
    and "prv m \<noteq> 0 \<Longrightarrow> \<exists>n. ms1 (prv m) = Some n \<and> chain nxt prv (ms1(prv m := Some (set_nxt (nxt m) n))) head (remove1 a as)"
    and "prv m = 0 \<Longrightarrow> head = a \<and> chain nxt prv ms1 (nxt m) (remove1 a as)"
proof -
  let ?F = "(link_fun nxt ms)(0 := head)" and ?G = "(link_fun prv ms)(0 := last (0 # as))"
  have r: "ring ?F ?G 0 as" using assms(1) by (simp add: chain_def)
  have some: "\<forall>p \<in> set as. ms p \<noteq> None" using assms(1) by (simp add: chain_def)
  have m: "a \<noteq> 0" "nxt m \<in> set (0 # as)" "prv m \<in> set (0 # as)" "?F a = nxt m" "?G a = prv m"
    using chainD [OF assms(1,2)] assms(3) by auto
  have r': "ring (?F(prv m := nxt m)) (?G(nxt m := prv m)) 0 (remove1 a as)"
    using ring_remove [OF r assms(2)] unfolding m(4,5) .
  show n: "ms (nxt m) \<noteq> None" if "nxt m \<noteq> 0" using m(2) some that by auto
  have F1: "link_fun nxt ms1 p = link_fun nxt ms p" "link_fun prv ms1 p = (if p = nxt m \<and> p \<noteq> 0 then prv m else link_fun prv ms p)"
    "p \<in> set as \<Longrightarrow> ms1 p \<noteq> None" for p
    using n some by (auto simp: ms1 link_fun_def lens split: option.splits)
  show "\<exists>n. ms1 (prv m) = Some n \<and> chain nxt prv (ms1(prv m := Some (set_nxt (nxt m) n))) head (remove1 a as)" if pz: "prv m \<noteq> 0"
  proof -
    obtain n where n: "ms1 (prv m) = Some n" using F1(3) [of "prv m"] m(3) pz by auto
    have pn: "prv n = (if prv m = nxt m then prv m else link_fun prv ms (prv m))"
      using F1(2) [of "prv m"] n pz by (simp add: link_fun_def [of prv ms1])
    have "chain nxt prv (ms1(prv m := Some (set_nxt (nxt m) n))) head (remove1 a as)"
      using pz F1(1,2) F1(3) [OF subsetD [OF set_remove1_subset]] by (intro chainI [OF r']) (auto simp: lens pn)
    then show ?thesis using n by blast
  qed
  show "head = a \<and> chain nxt prv ms1 (nxt m) (remove1 a as)" if pz: "prv m = 0"
  proof
    obtain bs cs where as: "as = bs @ a # cs" using assms(2) by (auto simp: in_set_conv_decomp)
    then have "dseg ?F ?G 0 bs a" and z: "0 \<notin> set bs" using r by (auto simp: ring_def dseg_append)
    then have "last (0 # bs) = 0" using dseg_prev m(5) pz by fastforce
    then have "bs = []" using z last_in_set [of bs] by (cases "bs = []") simp_all
    then show "head = a" using chain_head [OF assms(1)] as by simp
    show "chain nxt prv ms1 (nxt m) (remove1 a as)"
      using pz F1(1,2) F1(3) [OF subsetD [OF set_remove1_subset]] by (intro chainI [OF r']) auto
  qed
qed

end

text \<open>A list does not depend on the things that are not in it.\<close>

lemma chain_cong:
  assumes "chain nxt prv ms head as"
    "\<And>p. p \<in> set as \<Longrightarrow> map_option nxt (ms' p) = map_option nxt (ms p)"
    "\<And>p. p \<in> set as \<Longrightarrow> map_option prv (ms' p) = map_option prv (ms p)"
  shows "chain nxt prv ms' head as"
proof -
  have eq: "link_fun nxt ms' p = link_fun nxt ms p" "link_fun prv ms' p = link_fun prv ms p" if "p \<in> set as" for p
    using assms(2,3) [OF that] by (auto simp: link_fun_def split: option.splits)
  have "dseg ((link_fun nxt ms')(0 := head)) ((link_fun prv ms')(0 := last (0 # as))) 0 as 0
      = dseg ((link_fun nxt ms)(0 := head)) ((link_fun prv ms)(0 := last (0 # as))) 0 as 0"
    using eq by (intro dseg_cong) auto
  moreover have "ms' p \<noteq> None" if "p \<in> set as" for p using assms(1) assms(2) [OF that] that by (force simp: chain_def)
  ultimately show ?thesis using assms(1) by (simp add: chain_def ring_def)
qed

subsection \<open>All the lists of a map\<close>

text \<open>\<open>heads\<close>: for each sector, or each block, where its list starts. No thing is in two of them.\<close>

definition linked :: "(mobj \<Rightarrow> ptr) \<Rightarrow> (mobj \<Rightarrow> ptr) \<Rightarrow> (ptr \<Rightarrow> mobj option) \<Rightarrow> ptr list \<Rightarrow> (nat \<Rightarrow> ptr list) \<Rightarrow> bool" where
  "linked nxt prv ms heads L \<longleftrightarrow> (\<forall>i < length heads. chain nxt prv ms (heads ! i) (L i))
     \<and> (\<forall>i j a. a \<in> set (L i) \<longrightarrow> a \<in> set (L j) \<longrightarrow> i = j)"

lemma linked_cong:
  assumes "linked nxt prv ms heads L"
    "\<And>p i. p \<in> set (L i) \<Longrightarrow> map_option nxt (ms' p) = map_option nxt (ms p)"
    "\<And>p i. p \<in> set (L i) \<Longrightarrow> map_option prv (ms' p) = map_option prv (ms p)"
  shows "linked nxt prv ms' heads L"
  using assms(1) chain_cong [of nxt prv ms _ _ ms'] assms(2,3) unfolding linked_def by blast

text \<open>A change of one list, which leaves the things outside it alone.\<close>

lemma linked_change:
  assumes "linked nxt prv ms heads L" "i < length heads" "chain nxt prv ms' head as"
    "\<And>p j. p \<in> set (L j) \<Longrightarrow> p \<notin> set (L i) \<Longrightarrow> ms' p = ms p" "set as - A \<subseteq> set (L i)"
    "\<And>a j. a \<in> A \<Longrightarrow> a \<notin> set (L j)"
  shows "linked nxt prv ms' (heads[i := head]) (L(i := as))"
  unfolding linked_def
proof (intro conjI allI impI)
  fix j assume j: "j < length (heads[i := head])"
  show "chain nxt prv ms' (heads[i := head] ! j) ((L(i := as)) j)"
  proof (cases "j = i")
    case True
    then show ?thesis using assms(2,3) by simp
  next
    case False
    have "ms' p = ms p" if "p \<in> set (L j)" for p
      using assms(1) that False by (intro assms(4) [OF that]) (auto simp: linked_def)
    then show ?thesis using assms(1) j False chain_cong [of nxt prv ms "heads ! j" "L j" ms'] by (simp add: linked_def)
  qed
next
  fix j k a assume a: "a \<in> set ((L(i := as)) j)" "a \<in> set ((L(i := as)) k)"
  have own: "x \<in> set (L i) \<or> x \<in> A" if "x \<in> set as" for x using assms(5) that by auto
  have "\<forall>i j a. a \<in> set (L i) \<longrightarrow> a \<in> set (L j) \<longrightarrow> i = j" using assms(1) by (simp add: linked_def)
  then show "j = k" using a own assms(6) by (auto split: if_splits) (metis+)
qed

context thing_links
begin

lemma linked_front:
  assumes "linked nxt prv ms heads L" "i < length heads" "a \<noteq> 0" "\<And>j. a \<notin> set (L j)" "ms a = Some m"
    and head: "head = heads ! i" and ms1: "ms1 = ms(a := Some (set_nxt head (set_prv 0 m)))"
  shows "head \<noteq> 0 \<Longrightarrow> \<exists>h. ms1 head = Some h \<and> linked nxt prv (ms1(head := Some (set_prv a h))) (heads[i := a]) (L(i := a # L i))"
    and "head = 0 \<Longrightarrow> linked nxt prv ms1 (heads[i := a]) (L(i := a # L i))"
proof -
  have c: "chain nxt prv ms head (L i)" using assms(1,2) by (simp add: linked_def head)
  show "\<exists>h. ms1 head = Some h \<and> linked nxt prv (ms1(head := Some (set_prv a h))) (heads[i := a]) (L(i := a # L i))"
    if h0: "head \<noteq> 0"
  proof -
    obtain h where h: "ms head = Some h" "head \<noteq> a" and c': "chain nxt prv (ms1(head := Some (set_prv a h))) a (a # L i)"
      using chain_front(1) [OF c assms(3,4,5) h0] unfolding ms1 by blast
    have "head \<in> set (L i)" using chain_head [OF c] h0 by (cases "L i") auto
    then have "linked nxt prv (ms1(head := Some (set_prv a h))) (heads[i := a]) (L(i := a # L i))"
      using assms(4) by (intro linked_change [OF assms(1,2) c', where A = "{a}"]) (auto simp: ms1)
    then show ?thesis using h by (auto simp: ms1)
  qed
  show "linked nxt prv ms1 (heads[i := a]) (L(i := a # L i))" if h0: "head = 0"
    using chain_front(2) [OF c assms(3,4,5) h0] assms(4)
    by (intro linked_change [OF assms(1,2), where A = "{a}"]) (auto simp: ms1 h0)
qed

lemma linked_remove:
  assumes "linked nxt prv ms heads L" "i < length heads" "a \<in> set (L i)" "ms a = Some m"
    and ms1: "ms1 = (if nxt m = 0 then ms else ms(nxt m := map_option (set_prv (prv m)) (ms (nxt m))))"
  shows "nxt m \<noteq> 0 \<Longrightarrow> ms (nxt m) \<noteq> None"
    and "prv m \<noteq> 0 \<Longrightarrow> \<exists>n. ms1 (prv m) = Some n
      \<and> linked nxt prv (ms1(prv m := Some (set_nxt (nxt m) n))) heads (L(i := remove1 a (L i)))"
    and "prv m = 0 \<Longrightarrow> linked nxt prv ms1 (heads[i := nxt m]) (L(i := remove1 a (L i)))"
proof -
  have c: "chain nxt prv ms (heads ! i) (L i)" using assms(1,2) by (simp add: linked_def)
  obtain n: "nxt m \<in> set (0 # L i)" "prv m \<in> set (0 # L i)" using chainD [OF c assms(3)] assms(4) by auto
  note remove = chain_remove [OF c assms(3,4) ms1]
  show "ms (nxt m) \<noteq> None" if "nxt m \<noteq> 0" by (rule remove(1) [OF that])
  have other: "ms1 p = ms p" if "p \<notin> set (L i)" for p using that n by (auto simp: ms1)
  show "\<exists>n. ms1 (prv m) = Some n
      \<and> linked nxt prv (ms1(prv m := Some (set_nxt (nxt m) n))) heads (L(i := remove1 a (L i)))" if p0: "prv m \<noteq> 0"
  proof -
    obtain k where k: "ms1 (prv m) = Some k"
      "chain nxt prv (ms1(prv m := Some (set_nxt (nxt m) k))) (heads ! i) (remove1 a (L i))" using remove(2) [OF p0] by blast
    have "linked nxt prv (ms1(prv m := Some (set_nxt (nxt m) k))) (heads[i := heads ! i]) (L(i := remove1 a (L i)))"
      using n p0 other set_remove1_subset [of a "L i"] by (intro linked_change [OF assms(1,2) k(2), where A = "{}"]) auto
    then show ?thesis using k(1) by simp
  qed
  show "linked nxt prv ms1 (heads[i := nxt m]) (L(i := remove1 a (L i)))" if p0: "prv m = 0"
    using remove(3) [OF p0] other set_remove1_subset [of a "L i"] by (intro linked_change [OF assms(1,2), where A = "{}"]) auto
qed

end

interpretation sector_links: thing_links mo_snext mo_sprev "\<lambda>p m. m\<lparr>mo_snext := p\<rparr>" "\<lambda>p m. m\<lparr>mo_sprev := p\<rparr>"
  by unfold_locales simp_all

interpretation block_links: thing_links mo_bnext mo_bprev "\<lambda>p m. m\<lparr>mo_bnext := p\<rparr>" "\<lambda>p m. m\<lparr>mo_bprev := p\<rparr>"
  by unfold_locales simp_all

end
