(* ===== verification/P_Things.thy ===== *)
theory P_Things
  imports P_Links
begin

text \<open>
  What it takes for the map to be sound (\<open>map_ok\<close>) and for its lists to be (\<open>things_ok\<close>,
  \<open>thinkers_ok\<close>), and what \<open>P_SetThingPosition\<close>, \<open>P_UnsetThingPosition\<close> and \<open>P_AddThinker\<close> do to them.
\<close>

subsection \<open>The map\<close>

text \<open>A child of node \<open>i\<close> is a subsector or a node before it.\<close>

definition child_ok :: "nat \<Rightarrow> nat \<Rightarrow> u32 \<Rightarrow> bool" where
  "child_ok nsubs i c \<longleftrightarrow> (if c AND NF_SUBSECTOR \<noteq> 0 then unat (c AND NOT NF_SUBSECTOR) < nsubs else unat c < i)"

definition bsp_ok :: "level \<Rightarrow> bool" where
  "bsp_ok lv \<longleftrightarrow> lv_subsectors lv \<noteq> []
     \<and> (\<forall>i < length (lv_nodes lv). child_ok (length (lv_subsectors lv)) i (fst (nd_children (lv_nodes lv ! i)))
          \<and> child_ok (length (lv_subsectors lv)) i (snd (nd_children (lv_nodes lv ! i))))
     \<and> (lv_nodes lv \<noteq> [] \<longrightarrow> child_ok (length (lv_subsectors lv)) (length (lv_nodes lv)) (of_nat (length (lv_nodes lv) - 1)))"

definition blockmap_ok :: "level \<Rightarrow> bool" where
  "blockmap_ok lv \<longleftrightarrow> 0 \<le>s bmapwidth lv \<and> 0 \<le>s bmapheight lv
     \<and> length (blocklinks lv) = unat (bmapwidth lv) * unat (bmapheight lv) \<and> length (blocklinks lv) < 2147483648"

definition map_ok :: "level \<Rightarrow> bool" where
  "map_ok lv \<longleftrightarrow> bsp_ok lv \<and> blockmap_ok lv \<and> (\<forall>sec \<in> set (lv_subsectors lv). sec < length (lv_sectors lv))"

lemma bsp_walk_ends:
  assumes "\<And>i. i < length nodes \<Longrightarrow> child_ok nsubs i (fst (nd_children (nodes ! i))) \<and> child_ok nsubs i (snd (nd_children (nodes ! i)))"
  shows "child_ok nsubs k c \<Longrightarrow> k \<le> length nodes \<Longrightarrow> \<exists>ss. bsp_walk x y nodes c = Some (Inr ss) \<and> unat ss < nsubs"
proof (induction k arbitrary: c rule: less_induct)
  case (less k)
  show ?case
  proof (cases "c AND NF_SUBSECTOR = 0")
    case True
    then have c: "unat c < k" "unat c < length nodes" using less.prems by (auto simp: child_ok_def)
    let ?c = "(if R_PointOnSide x y (nodes ! unat c) then snd else fst) (nd_children (nodes ! unat c))"
    have "child_ok nsubs (unat c) ?c" using assms [OF c(2)] by simp
    from less.IH [OF c(1) this] c(2) show ?thesis
      by (subst bsp_walk.simps) (simp add: True Let_def)
  next
    case False
    then show ?thesis using less.prems by (subst bsp_walk.simps) (simp add: child_ok_def)
  qed
qed

lemma point_in_subsector:
  assumes "bsp_ok lv"
  obtains ss where "R_PointInSubsector x y lv = Inr ss" "ss < length (lv_subsectors lv)" "ss < 4294967296"
proof (cases "lv_nodes lv = []")
  case True
  then show ?thesis using that [of 0] assms by (simp add: R_PointInSubsector_def bsp_ok_def)
next
  case False
  then obtain ss where "bsp_walk x y (lv_nodes lv) (of_nat (length (lv_nodes lv) - 1)) = Some (Inr ss)"
    "unat ss < length (lv_subsectors lv)"
    using assms bsp_walk_ends [of "lv_nodes lv" "length (lv_subsectors lv)" "length (lv_nodes lv)" _ x y]
    by (auto simp: bsp_ok_def)
  then show ?thesis using that [of "unat ss"] False unat_bound [of ss] by (simp add: R_PointInSubsector_def)
qed

lemma natural_word: "0 \<le>s (w :: u32) \<Longrightarrow> \<exists>n. w = of_nat n \<and> n < 2147483648"
  by (rule exI [of _ "unat w"]) (simp add: zero_sle_iff)

lemma block_in_range:
  assumes "blockmap_ok lv" "block_of x y lv = Some i"
  shows "unat i < length (blocklinks lv)"
proof -
  let ?bx = "signed_drop_bit MAPBLOCKSHIFT (x - bmaporgx lv)" and ?by = "signed_drop_bit MAPBLOCKSHIFT (y - bmaporgy lv)"
  have b: "0 \<le>s ?bx" "?bx <s bmapwidth lv" "0 \<le>s ?by" "?by <s bmapheight lv" "i = ?by * bmapwidth lv + ?bx"
    using assms(2) by (auto simp: block_of_def Let_def split: if_splits)
  obtain w h where w: "bmapwidth lv = of_nat w" "w < 2147483648" and h: "bmapheight lv = of_nat h" "h < 2147483648"
    using assms(1) natural_word by (metis blockmap_ok_def)
  obtain bx bz where bx: "?bx = of_nat bx" "bx < 2147483648" and bz: "?by = of_nat bz" "bz < 2147483648"
    using b(1,3) natural_word by metis
  have lt: "bx < w" "bz < h" using b(2,4) w h bx bz by (simp_all add: word_sless_alt sint_nat)
  have len: "length (blocklinks lv) = w * h" using assms(1) w h by (simp add: blockmap_ok_def unat_of_nat_small)
  have "bz * w + bx < (bz + 1) * w" using lt by simp
  also have "\<dots> \<le> h * w" using lt by (intro mult_le_mono1) simp
  finally have lt': "bz * w + bx < length (blocklinks lv)" by (simp add: len mult.commute)
  have "bz * w + bx < 4294967296" using lt' assms(1) by (simp add: blockmap_ok_def)
  moreover have "i = of_nat (bz * w + bx)" using b(5) w bx bz by simp
  ultimately show ?thesis using lt' by (simp only: unat_of_nat_small)
qed

subsection \<open>What the lists leave alone\<close>

fun on_mobj :: "(mobj \<Rightarrow> mobj) \<Rightarrow> object \<Rightarrow> object" where
  "on_mobj f (Mobj m) = Mobj (f m)"
| "on_mobj f x = x"

definition no_slinks :: "mobj \<Rightarrow> mobj" where "no_slinks m = m\<lparr>mo_snext := 0, mo_sprev := 0\<rparr>"
definition no_blinks :: "mobj \<Rightarrow> mobj" where "no_blinks m = m\<lparr>mo_bnext := 0, mo_bprev := 0\<rparr>"

text \<open>The level but for the lists of the sectors, and but for those of the blocks.\<close>

definition sector_unlinked :: "level \<Rightarrow> level" where
  "sector_unlinked lv = lv\<lparr>lv_objects := \<lambda>p. map_option (on_mobj no_slinks) (lv_objects lv p),
     lv_sectors := map (\<lambda>s. s\<lparr>sec_thinglist := 0\<rparr>) (lv_sectors lv)\<rparr>"

definition block_unlinked :: "level \<Rightarrow> level" where
  "block_unlinked lv = lv\<lparr>lv_objects := \<lambda>p. map_option (on_mobj no_blinks) (lv_objects lv p),
     blocklinks := map (\<lambda>_. 0) (blocklinks lv)\<rparr>"

definition unlinked :: "level \<Rightarrow> level" where
  "unlinked lv = sector_unlinked (block_unlinked lv)"

lemma on_mobj_thinker [simp]: "thinker_of (on_mobj no_slinks x) = thinker_of x" "thinker_of (on_mobj no_blinks x) = thinker_of x"
  by (cases x; simp add: no_slinks_def no_blinks_def)+

lemma on_mobj_comm: "on_mobj no_slinks (on_mobj no_blinks x) = on_mobj no_blinks (on_mobj no_slinks x)"
  by (cases x) (simp_all add: no_slinks_def no_blinks_def)

lemma unlinked_comm: "unlinked lv = block_unlinked (sector_unlinked lv)"
  by (simp add: unlinked_def sector_unlinked_def block_unlinked_def option.map_comp comp_def on_mobj_comm)

lemma sector_unlinked_step: "sector_unlinked lv' = sector_unlinked lv \<Longrightarrow> unlinked lv' = unlinked lv"
  by (simp add: unlinked_comm)

lemma block_unlinked_step: "block_unlinked lv' = block_unlinked lv \<Longrightarrow> unlinked lv' = unlinked lv"
  by (simp add: unlinked_def)

lemma on_mobj_eq:
  assumes "map_option (on_mobj f) x = map_option (on_mobj f) y"
  shows "(case x of Some (Mobj m) \<Rightarrow> Some (f m) | _ \<Rightarrow> None) = (case y of Some (Mobj m) \<Rightarrow> Some (f m) | _ \<Rightarrow> None)"
proof (cases x; cases y)
  fix a b assume "x = Some a" "y = Some b"
  then show ?thesis using assms by (cases a; cases b) simp_all
qed (use assms in simp_all)

lemma map_mobj_at: "map_option f (mobj_at lv p) = (case lv_objects lv p of Some (Mobj m) \<Rightarrow> Some (f m) | _ \<Rightarrow> None)"
  by (simp add: mobj_at_def split: option.splits object.splits)

lemma mobj_at_sector_unlinked:
  assumes "sector_unlinked lv' = sector_unlinked lv"
  shows "map_option no_slinks (mobj_at lv' p) = map_option no_slinks (mobj_at lv p)"
proof -
  have "lv_objects (sector_unlinked lv') p = lv_objects (sector_unlinked lv) p" using assms by simp
  from on_mobj_eq [OF this [unfolded sector_unlinked_def, simplified]] show ?thesis by (simp only: map_mobj_at)
qed

lemma mobj_at_block_unlinked:
  assumes "block_unlinked lv' = block_unlinked lv"
  shows "map_option no_blinks (mobj_at lv' p) = map_option no_blinks (mobj_at lv p)"
proof -
  have "lv_objects (block_unlinked lv') p = lv_objects (block_unlinked lv) p" using assms by simp
  from on_mobj_eq [OF this [unfolded block_unlinked_def, simplified]] show ?thesis by (simp only: map_mobj_at)
qed

lemma map_option_through:
  assumes "map_option f x = map_option f y" "\<And>m. h (f m) = h m"
  shows "map_option h x = map_option h y"
  using arg_cong [OF assms(1), of "map_option h"] by (simp add: option.map_comp comp_def assms(2))

lemma on_mobj_no_slinks: "no_slinks m' = no_slinks m \<Longrightarrow> mobj_at lv p = Some m \<Longrightarrow>
  sector_unlinked (store p (Mobj m') lv) = sector_unlinked lv"
  by (auto simp: sector_unlinked_def store_def mobj_at_def fun_eq_iff split: option.splits object.splits)

lemma on_mobj_no_blinks: "no_blinks m' = no_blinks m \<Longrightarrow> mobj_at lv p = Some m \<Longrightarrow>
  block_unlinked (store p (Mobj m') lv) = block_unlinked lv"
  by (auto simp: block_unlinked_def store_def mobj_at_def fun_eq_iff split: option.splits object.splits)

lemma store_level [simp]: "lv_sectors (store p x lv) = lv_sectors lv" "blocklinks (store p x lv) = blocklinks lv"
  "lv_subsectors (store p x lv) = lv_subsectors lv"
  by (simp_all add: store_def)

lemma subsector_sector_store [simp]: "subsector_sector ss (store p x lv) = subsector_sector ss lv"
  by (simp add: subsector_sector_def)

lemma block_of_store [simp]: "block_of x y (store p v lv) = block_of x y lv"
  by (simp add: block_of_def store_def Let_def split: if_split)

lemma set_thinglist:
  assumes "sec < length (lv_sectors lv)"
  obtains lv' where "upd_sector sec (\<lambda>s. s\<lparr>sec_thinglist := x\<rparr>) lv = Inr lv'" "sector_unlinked lv' = sector_unlinked lv"
    "mobj_at lv' = mobj_at lv" "map sec_thinglist (lv_sectors lv') = (map sec_thinglist (lv_sectors lv))[sec := x]"
proof
  let ?lv = "lv\<lparr>lv_sectors := (lv_sectors lv)[sec := (lv_sectors lv ! sec)\<lparr>sec_thinglist := x\<rparr>]\<rparr>"
  show "upd_sector sec (\<lambda>s. s\<lparr>sec_thinglist := x\<rparr>) lv = Inr ?lv" using assms by (simp add: upd_sector_def sector_at_def)
  have "map (\<lambda>s. s\<lparr>sec_thinglist := 0\<rparr>) ((lv_sectors lv)[sec := (lv_sectors lv ! sec)\<lparr>sec_thinglist := x\<rparr>])
      = map (\<lambda>s. s\<lparr>sec_thinglist := 0\<rparr>) (lv_sectors lv)"
    using assms by (intro nth_equalityI) (auto simp: nth_list_update)
  then show "sector_unlinked ?lv = sector_unlinked lv" by (simp add: sector_unlinked_def)
  show "mobj_at ?lv = mobj_at lv" by (simp add: mobj_at_def fun_eq_iff)
  show "map sec_thinglist (lv_sectors ?lv) = (map sec_thinglist (lv_sectors lv))[sec := x]" by (simp add: map_update)
qed

lemma set_block:
  assumes "unat i < length (blocklinks lv)"
  obtains lv' where "block_set i x lv = Inr lv'" "block_unlinked lv' = block_unlinked lv"
    "mobj_at lv' = mobj_at lv" "blocklinks lv' = (blocklinks lv)[unat i := x]"
proof
  let ?lv = "lv\<lparr>blocklinks := (blocklinks lv)[unat i := x]\<rparr>"
  show "block_set i x lv = Inr ?lv" using assms by (simp add: block_set_def)
  show "block_unlinked ?lv = block_unlinked lv" using assms
    by (simp add: block_unlinked_def map_update list_update_same_conv)
  show "mobj_at ?lv = mobj_at lv" by (simp add: mobj_at_def fun_eq_iff)
qed simp

subsection \<open>The things of a sector\<close>

definition sector_lists :: "level \<Rightarrow> (nat \<Rightarrow> ptr list) \<Rightarrow> bool" where
  "sector_lists lv S \<longleftrightarrow> linked mo_snext mo_sprev (mobj_at lv) (map sec_thinglist (lv_sectors lv)) S"

definition block_lists :: "level \<Rightarrow> (nat \<Rightarrow> ptr list) \<Rightarrow> bool" where
  "block_lists lv B \<longleftrightarrow> linked mo_bnext mo_bprev (mobj_at lv) (blocklinks lv) B"

lemma link_sector_ok:
  assumes "sector_lists lv S" "a \<noteq> 0" "\<And>j. a \<notin> set (S j)" "mobj_at lv a = Some m"
    "subsector_sector ss lv = Inr sec" "sec < length (lv_sectors lv)"
  obtains lv' where "link_sector a ss lv = Inr lv'" "sector_lists lv' (S(sec := a # S sec))"
    "sector_unlinked lv' = sector_unlinked lv"
proof -
  let ?heads = "map sec_thinglist (lv_sectors lv)" and ?head = "sec_thinglist (lv_sectors lv ! sec)"
  let ?m = "m\<lparr>mo_sprev := 0, mo_snext := ?head\<rparr>"
  let ?lv1 = "store a (Mobj ?m) lv"
  have s1: "sector_unlinked ?lv1 = sector_unlinked lv" by (rule on_mobj_no_slinks [OF _ assms(4)]) (simp add: no_slinks_def)
  have head: "?head = ?heads ! sec" and sec: "sec < length ?heads" using assms(6) by simp_all
  have ms1: "mobj_at ?lv1 = (mobj_at lv)(a := Some (?m))" by simp
  note front = sector_links.linked_front [OF assms(1) [unfolded sector_lists_def] sec assms(2-4) head, of "mobj_at ?lv1"]
  obtain lv2 where lv2: "(if ?head \<noteq> 0 then upd_mobj ?head (\<lambda>n. n\<lparr>mo_sprev := a\<rparr>) ?lv1 else Inr ?lv1) = Inr lv2"
    "sector_unlinked lv2 = sector_unlinked ?lv1" "lv_sectors lv2 = lv_sectors lv"
    "linked mo_snext mo_sprev (mobj_at lv2) (?heads[sec := a]) (S(sec := a # S sec))"
  proof (cases "?head = 0")
    case True
    then show ?thesis using that [of ?lv1] front(2) by simp
  next
    case False
    then obtain h where h: "mobj_at ?lv1 ?head = Some h"
      "linked mo_snext mo_sprev ((mobj_at ?lv1)(?head := Some (h\<lparr>mo_sprev := a\<rparr>))) (?heads[sec := a]) (S(sec := a # S sec))"
      using front(1) by auto
    show ?thesis
    proof (rule that)
      show "(if ?head \<noteq> 0 then upd_mobj ?head (\<lambda>n. n\<lparr>mo_sprev := a\<rparr>) ?lv1 else Inr ?lv1)
          = Inr (store ?head (Mobj (h\<lparr>mo_sprev := a\<rparr>)) ?lv1)"
        using False upd_mobj_at [OF False h(1)] by simp
      show "sector_unlinked (store ?head (Mobj (h\<lparr>mo_sprev := a\<rparr>)) ?lv1) = sector_unlinked ?lv1"
        by (rule on_mobj_no_slinks [OF _ h(1)]) (simp add: no_slinks_def)
    qed (use h(2) in simp_all)
  qed
  obtain lv3 where lv3: "upd_sector sec (\<lambda>s. s\<lparr>sec_thinglist := a\<rparr>) lv2 = Inr lv3" "sector_unlinked lv3 = sector_unlinked lv2"
    "mobj_at lv3 = mobj_at lv2" "map sec_thinglist (lv_sectors lv3) = (map sec_thinglist (lv_sectors lv2))[sec := a]"
    using set_thinglist [of sec lv2 a] assms(6) lv2(3) by auto
  show ?thesis
  proof
    show "link_sector a ss lv = Inr lv3"
      using assms(2,4-6) lv2(1) lv3(1) by (simp add: link_sector_def sector_at_def upd_mobj_at)
    show "sector_lists lv3 (S(sec := a # S sec))" using lv2(3,4) lv3(3,4) by (simp add: sector_lists_def)
    show "sector_unlinked lv3 = sector_unlinked lv" using s1 lv2(2) lv3(2) by simp
  qed
qed

lemma unlink_sector_ok:
  assumes "sector_lists lv S" "mobj_at lv a = Some m" "a \<in> set (S sec)"
    "subsector_sector (unat (mo_subsector m)) lv = Inr sec" "sec < length (lv_sectors lv)"
  obtains lv' where "unlink_sector m lv = Inr lv'" "sector_lists lv' (S(sec := remove1 a (S sec)))"
    "sector_unlinked lv' = sector_unlinked lv"
proof -
  let ?heads = "map sec_thinglist (lv_sectors lv)"
  let ?ms1 = "if mo_snext m = 0 then mobj_at lv
    else (mobj_at lv)(mo_snext m := map_option (\<lambda>n. n\<lparr>mo_sprev := mo_sprev m\<rparr>) (mobj_at lv (mo_snext m)))"
  have sec: "sec < length ?heads" using assms(5) by simp
  note remove = sector_links.linked_remove [OF assms(1) [unfolded sector_lists_def] sec assms(3,2), of ?ms1, OF refl]
  obtain lv1 where lv1: "(if mo_snext m \<noteq> 0 then upd_mobj (mo_snext m) (\<lambda>n. n\<lparr>mo_sprev := mo_sprev m\<rparr>) lv else Inr lv) = Inr lv1"
    "sector_unlinked lv1 = sector_unlinked lv" "lv_sectors lv1 = lv_sectors lv" "subsector_sector (unat (mo_subsector m)) lv1 = Inr sec"
    "mobj_at lv1 = ?ms1"
  proof (cases "mo_snext m = 0")
    case True
    then show ?thesis using that [of lv] assms(4) by simp
  next
    case False
    then obtain n where n: "mobj_at lv (mo_snext m) = Some n" using remove(1) by auto
    show ?thesis
    proof (rule that)
      show "(if mo_snext m \<noteq> 0 then upd_mobj (mo_snext m) (\<lambda>n. n\<lparr>mo_sprev := mo_sprev m\<rparr>) lv else Inr lv)
          = Inr (store (mo_snext m) (Mobj (n\<lparr>mo_sprev := mo_sprev m\<rparr>)) lv)"
        using False upd_mobj_at [OF False n] by simp
      show "sector_unlinked (store (mo_snext m) (Mobj (n\<lparr>mo_sprev := mo_sprev m\<rparr>)) lv) = sector_unlinked lv"
        by (rule on_mobj_no_slinks [OF _ n]) (simp add: no_slinks_def)
    qed (use False n assms(4) in simp_all)
  qed
  show ?thesis
  proof (cases "mo_sprev m = 0")
    case True
    obtain lv2 where lv2: "upd_sector sec (\<lambda>s. s\<lparr>sec_thinglist := mo_snext m\<rparr>) lv1 = Inr lv2" "sector_unlinked lv2 = sector_unlinked lv1"
      "mobj_at lv2 = mobj_at lv1" "map sec_thinglist (lv_sectors lv2) = (map sec_thinglist (lv_sectors lv1))[sec := mo_snext m]"
      using set_thinglist [of sec lv1 "mo_snext m"] assms(5) lv1(3) by auto
    have "sector_lists lv2 (S(sec := remove1 a (S sec)))" using remove(3) [OF True] lv1(3,5) lv2(3,4) by (simp add: sector_lists_def)
    then show ?thesis using that [of lv2] True lv1 lv2(1,2) by (simp add: unlink_sector_def)
  next
    case False
    then obtain n where n: "mobj_at lv1 (mo_sprev m) = Some n"
      "linked mo_snext mo_sprev ((mobj_at lv1)(mo_sprev m := Some (n\<lparr>mo_snext := mo_snext m\<rparr>))) ?heads (S(sec := remove1 a (S sec)))"
      using remove(2) unfolding lv1(5) by blast
    let ?lv2 = "store (mo_sprev m) (Mobj (n\<lparr>mo_snext := mo_snext m\<rparr>)) lv1"
    have "sector_lists ?lv2 (S(sec := remove1 a (S sec)))" using n(2) lv1(3) by (simp add: sector_lists_def)
    moreover have "sector_unlinked ?lv2 = sector_unlinked lv1" by (rule on_mobj_no_slinks [OF _ n(1)]) (simp add: no_slinks_def)
    ultimately show ?thesis using that [of ?lv2] False lv1(1,2) upd_mobj_at [OF False n(1)] by (simp add: unlink_sector_def)
  qed
qed

subsection \<open>The things of a block\<close>

lemma link_block_ok:
  assumes "block_lists lv B" "a \<noteq> 0" "\<And>j. a \<notin> set (B j)" "mobj_at lv a = Some m" "mo_x m = x" "mo_y m = y"
    "block_of x y lv = Some i" "unat i < length (blocklinks lv)"
  obtains lv' where "link_block a m lv = Inr lv'" "block_lists lv' (B(unat i := a # B (unat i)))"
    "block_unlinked lv' = block_unlinked lv" "\<And>p. p \<noteq> a \<Longrightarrow> (\<And>j. p \<notin> set (B j)) \<Longrightarrow> mobj_at lv' p = mobj_at lv p"
proof -
  let ?head = "blocklinks lv ! unat i"
  let ?m = "m\<lparr>mo_bprev := 0, mo_bnext := ?head\<rparr>"
  let ?lv1 = "store a (Mobj ?m) lv"
  have s1: "block_unlinked ?lv1 = block_unlinked lv" by (rule on_mobj_no_blinks [OF _ assms(4)]) (simp add: no_blinks_def)
  note front = block_links.linked_front [OF assms(1) [unfolded block_lists_def] assms(8) assms(2-4) refl, of "mobj_at ?lv1"]
  have "chain mo_bnext mo_bprev (mobj_at lv) ?head (B (unat i))" using assms(1,8) by (simp add: block_lists_def linked_def)
  then have head: "?head = 0 \<or> ?head \<in> set (B (unat i))" using chain_head by (cases "B (unat i)") fastforce+
  obtain lv2 where lv2: "(if ?head \<noteq> 0 then upd_mobj ?head (\<lambda>n. n\<lparr>mo_bprev := a\<rparr>) ?lv1 else Inr ?lv1) = Inr lv2"
    "block_unlinked lv2 = block_unlinked ?lv1" "blocklinks lv2 = blocklinks lv"
    "linked mo_bnext mo_bprev (mobj_at lv2) ((blocklinks lv)[unat i := a]) (B(unat i := a # B (unat i)))"
    "\<And>p. p \<noteq> a \<Longrightarrow> (\<And>j. p \<notin> set (B j)) \<Longrightarrow> mobj_at lv2 p = mobj_at lv p"
  proof (cases "?head = 0")
    case True
    then show ?thesis using that [of ?lv1] front(2) by simp
  next
    case False
    then obtain h where h: "mobj_at ?lv1 ?head = Some h"
      "linked mo_bnext mo_bprev ((mobj_at ?lv1)(?head := Some (h\<lparr>mo_bprev := a\<rparr>))) ((blocklinks lv)[unat i := a]) (B(unat i := a # B (unat i)))"
      using front(1) by auto
    show ?thesis
    proof (rule that)
      show "(if ?head \<noteq> 0 then upd_mobj ?head (\<lambda>n. n\<lparr>mo_bprev := a\<rparr>) ?lv1 else Inr ?lv1)
          = Inr (store ?head (Mobj (h\<lparr>mo_bprev := a\<rparr>)) ?lv1)"
        using False upd_mobj_at [OF False h(1)] by simp
      show "block_unlinked (store ?head (Mobj (h\<lparr>mo_bprev := a\<rparr>)) ?lv1) = block_unlinked ?lv1"
        by (rule on_mobj_no_blinks [OF _ h(1)]) (simp add: no_blinks_def)
    qed (use h(2) head False in auto)
  qed
  obtain lv3 where lv3: "block_set i a lv2 = Inr lv3" "block_unlinked lv3 = block_unlinked lv2"
    "mobj_at lv3 = mobj_at lv2" "blocklinks lv3 = (blocklinks lv2)[unat i := a]"
    using set_block [of i lv2 a] assms(8) lv2(3) by auto
  show ?thesis
  proof
    show "link_block a m lv = Inr lv3"
      using assms(2,4-8) lv2(1) lv3(1) by (simp add: link_block_def block_get_def upd_mobj_at)
    show "block_lists lv3 (B(unat i := a # B (unat i)))" using lv2(3,4) lv3(3,4) by (simp add: block_lists_def)
    show "block_unlinked lv3 = block_unlinked lv" using s1 lv2(2) lv3(2) by simp
  qed (use lv2(5) lv3(3) in simp)
qed

lemma unlink_block_ok:
  assumes "block_lists lv B" "mobj_at lv a = Some m" "a \<in> set (B (unat i))"
    "block_of (mo_x m) (mo_y m) lv = Some i" "unat i < length (blocklinks lv)"
  obtains lv' where "unlink_block m lv = Inr lv'" "block_lists lv' (B(unat i := remove1 a (B (unat i))))"
    "block_unlinked lv' = block_unlinked lv" "\<And>p. (\<And>j. p \<notin> set (B j)) \<Longrightarrow> mobj_at lv' p = mobj_at lv p"
proof -
  let ?ms1 = "if mo_bnext m = 0 then mobj_at lv
    else (mobj_at lv)(mo_bnext m := map_option (\<lambda>n. n\<lparr>mo_bprev := mo_bprev m\<rparr>) (mobj_at lv (mo_bnext m)))"
  note remove = block_links.linked_remove [OF assms(1) [unfolded block_lists_def] assms(5) assms(3,2), of ?ms1, OF refl]
  have "chain mo_bnext mo_bprev (mobj_at lv) (blocklinks lv ! unat i) (B (unat i))" using assms(1,5) by (simp add: block_lists_def linked_def)
  from chainD [OF this assms(3)] assms(2)
  have near: "mo_bnext m = 0 \<or> mo_bnext m \<in> set (B (unat i))" "mo_bprev m = 0 \<or> mo_bprev m \<in> set (B (unat i))" by auto
  then have ms1: "?ms1 p = mobj_at lv p" if "\<And>j. p \<notin> set (B j)" for p using that by auto
  obtain lv1 where lv1: "(if mo_bnext m \<noteq> 0 then upd_mobj (mo_bnext m) (\<lambda>n. n\<lparr>mo_bprev := mo_bprev m\<rparr>) lv else Inr lv) = Inr lv1"
    "block_unlinked lv1 = block_unlinked lv" "blocklinks lv1 = blocklinks lv"
    "block_of (mo_x m) (mo_y m) lv1 = Some i" "mobj_at lv1 = ?ms1"
  proof (cases "mo_bnext m = 0")
    case True
    then show ?thesis using that [of lv] assms(4) by simp
  next
    case False
    then obtain n where n: "mobj_at lv (mo_bnext m) = Some n" using remove(1) by auto
    show ?thesis
    proof (rule that)
      show "(if mo_bnext m \<noteq> 0 then upd_mobj (mo_bnext m) (\<lambda>n. n\<lparr>mo_bprev := mo_bprev m\<rparr>) lv else Inr lv)
          = Inr (store (mo_bnext m) (Mobj (n\<lparr>mo_bprev := mo_bprev m\<rparr>)) lv)"
        using False upd_mobj_at [OF False n] by simp
      show "block_unlinked (store (mo_bnext m) (Mobj (n\<lparr>mo_bprev := mo_bprev m\<rparr>)) lv) = block_unlinked lv"
        by (rule on_mobj_no_blinks [OF _ n]) (simp add: no_blinks_def)
      show "block_of (mo_x m) (mo_y m) (store (mo_bnext m) (Mobj (n\<lparr>mo_bprev := mo_bprev m\<rparr>)) lv) = Some i"
        using assms(4) by simp
    qed (use False n in simp_all)
  qed
  show ?thesis
  proof (cases "mo_bprev m = 0")
    case True
    obtain lv2 where lv2: "block_set i (mo_bnext m) lv1 = Inr lv2" "block_unlinked lv2 = block_unlinked lv1"
      "mobj_at lv2 = mobj_at lv1" "blocklinks lv2 = (blocklinks lv1)[unat i := mo_bnext m]"
      using set_block [of i lv1 "mo_bnext m"] assms(5) lv1(3) by auto
    have "block_lists lv2 (B(unat i := remove1 a (B (unat i))))" using remove(3) [OF True] lv1(3,5) lv2(3,4) by (simp add: block_lists_def)
    then show ?thesis using that [of lv2] True lv1 lv2(1-3) ms1 by (simp add: unlink_block_def)
  next
    case False
    then obtain n where n: "mobj_at lv1 (mo_bprev m) = Some n"
      "linked mo_bnext mo_bprev ((mobj_at lv1)(mo_bprev m := Some (n\<lparr>mo_bnext := mo_bnext m\<rparr>))) (blocklinks lv) (B(unat i := remove1 a (B (unat i))))"
      using remove(2) unfolding lv1(5) by blast
    let ?lv2 = "store (mo_bprev m) (Mobj (n\<lparr>mo_bnext := mo_bnext m\<rparr>)) lv1"
    have "block_lists ?lv2 (B(unat i := remove1 a (B (unat i))))" using n(2) lv1(3) by (simp add: block_lists_def)
    moreover have "block_unlinked ?lv2 = block_unlinked lv1" by (rule on_mobj_no_blinks [OF _ n(1)]) (simp add: no_blinks_def)
    moreover have "mobj_at ?lv2 p = mobj_at lv p" if "\<And>j. p \<notin> set (B j)" for p
      using ms1 [OF that] that [of "unat i"] near(2) False by (auto simp: lv1(5))
    ultimately show ?thesis using that [of ?lv2] False lv1(1,2) upd_mobj_at [OF False n(1)] by (simp add: unlink_block_def)
  qed
qed

subsection \<open>All things\<close>

definition in_sector :: "level \<Rightarrow> mobj \<Rightarrow> nat \<Rightarrow> bool" where
  "in_sector lv m i \<longleftrightarrow> mo_flags m AND MF_NOSECTOR = 0 \<and> subsector_sector (unat (mo_subsector m)) lv = Inr i"

definition in_block :: "level \<Rightarrow> mobj \<Rightarrow> nat \<Rightarrow> bool" where
  "in_block lv m i \<longleftrightarrow> mo_flags m AND MF_NOBLOCKMAP = 0 \<and> (\<exists>b. block_of (mo_x m) (mo_y m) lv = Some b \<and> i = unat b)"

text \<open>A thing is in the list of its sector and its block, and in no other; off the map, it has no links.\<close>

definition thing_ok :: "(nat \<Rightarrow> ptr list) \<Rightarrow> (nat \<Rightarrow> ptr list) \<Rightarrow> level \<Rightarrow> ptr \<Rightarrow> mobj \<Rightarrow> bool" where
  "thing_ok S B lv a m \<longleftrightarrow> (\<forall>i. a \<in> set (S i) \<longleftrightarrow> in_sector lv m i) \<and> (\<forall>i. a \<in> set (B i) \<longleftrightarrow> in_block lv m i)
     \<and> unat (mo_subsector m) < length (lv_subsectors lv)
     \<and> (mo_flags m AND MF_NOBLOCKMAP = 0 \<and> block_of (mo_x m) (mo_y m) lv = None \<longrightarrow> mo_bnext m = 0 \<and> mo_bprev m = 0)"

definition things_ok :: "ptr set \<Rightarrow> (nat \<Rightarrow> ptr list) \<Rightarrow> (nat \<Rightarrow> ptr list) \<Rightarrow> level \<Rightarrow> bool" where
  "things_ok A S B lv \<longleftrightarrow> sector_lists lv S \<and> block_lists lv B \<and> (\<forall>i. set (S i) \<subseteq> A) \<and> (\<forall>i. set (B i) \<subseteq> A)
     \<and> (\<forall>a \<in> A. a \<noteq> 0 \<and> (\<exists>m. mobj_at lv a = Some m \<and> thing_ok S B lv a m))"

lemma unlinked_simps [simp]:
  "lv_subsectors (unlinked lv) = lv_subsectors lv" "bmaporgx (unlinked lv) = bmaporgx lv" "bmaporgy (unlinked lv) = bmaporgy lv"
  "bmapwidth (unlinked lv) = bmapwidth lv" "bmapheight (unlinked lv) = bmapheight lv" "lv_nodes (unlinked lv) = lv_nodes lv"
  "length (lv_sectors (unlinked lv)) = length (lv_sectors lv)" "length (blocklinks (unlinked lv)) = length (blocklinks lv)"
  by (simp_all add: unlinked_def sector_unlinked_def block_unlinked_def)

lemma block_of_unlinked [simp]: "block_of x y (unlinked lv) = block_of x y lv"
  by (simp add: block_of_def Let_def split: if_split)

lemma subsector_sector_unlinked [simp]: "subsector_sector ss (unlinked lv) = subsector_sector ss lv"
  by (simp add: subsector_sector_def)

lemma map_ok_unlinked [simp]: "map_ok (unlinked lv) = map_ok lv"
  by (simp add: map_ok_def bsp_ok_def blockmap_ok_def)

lemma map_ok_store [simp]: "map_ok (store p x lv) = map_ok lv"
  by (simp add: map_ok_def bsp_ok_def blockmap_ok_def store_def)

lemma same_map:
  assumes "unlinked lv' = unlinked lv"
  shows "lv_subsectors lv' = lv_subsectors lv" "subsector_sector ss lv' = subsector_sector ss lv" "block_of x y lv' = block_of x y lv"
    "length (lv_sectors lv') = length (lv_sectors lv)" "length (blocklinks lv') = length (blocklinks lv)" "map_ok lv' = map_ok lv"
  using assms by (metis unlinked_simps(1), metis subsector_sector_unlinked, metis block_of_unlinked, metis unlinked_simps(7),
    metis unlinked_simps(8), metis map_ok_unlinked)

lemma no_links_simps [simp]:
  "mo_flags (no_slinks m) = mo_flags m" "mo_x (no_slinks m) = mo_x m" "mo_y (no_slinks m) = mo_y m"
  "mo_subsector (no_slinks m) = mo_subsector m" "mo_thinker (no_slinks m) = mo_thinker m"
  "mo_flags (no_blinks m) = mo_flags m" "mo_x (no_blinks m) = mo_x m" "mo_y (no_blinks m) = mo_y m"
  "mo_subsector (no_blinks m) = mo_subsector m" "mo_thinker (no_blinks m) = mo_thinker m"
  "mo_bnext (no_slinks m) = mo_bnext m" "mo_bprev (no_slinks m) = mo_bprev m"
  "mo_snext (no_blinks m) = mo_snext m" "mo_sprev (no_blinks m) = mo_sprev m"
  by (simp_all add: no_slinks_def no_blinks_def)

lemma same_but_links:
  assumes "no_slinks (no_blinks m') = no_slinks (no_blinks m)"
  shows "mo_flags m' = mo_flags m" "mo_x m' = mo_x m" "mo_y m' = mo_y m" "mo_subsector m' = mo_subsector m"
    "mo_thinker m' = mo_thinker m"
  using assms by (metis no_links_simps)+

lemma same_but_slinks:
  assumes "no_slinks m' = no_slinks m"
  shows "mo_flags m' = mo_flags m" "mo_x m' = mo_x m" "mo_y m' = mo_y m" "mo_subsector m' = mo_subsector m"
    "mo_bnext m' = mo_bnext m" "mo_bprev m' = mo_bprev m"
  using assms by (metis no_links_simps)+

lemma thing_ok_cong:
  assumes "thing_ok S B lv b m" "unlinked lv' = unlinked lv" "no_slinks (no_blinks m') = no_slinks (no_blinks m)"
    "\<And>i. b \<in> set (S' i) \<longleftrightarrow> b \<in> set (S i)" "\<And>i. b \<in> set (B' i) \<longleftrightarrow> b \<in> set (B i)"
    "mo_flags m AND MF_NOBLOCKMAP = 0 \<Longrightarrow> block_of (mo_x m) (mo_y m) lv = None \<Longrightarrow> mo_bnext m' = mo_bnext m \<and> mo_bprev m' = mo_bprev m"
  shows "thing_ok S' B' lv' b m'"
  using assms(1,4-6)
  by (simp add: thing_ok_def in_sector_def in_block_def same_map [OF assms(2)] same_but_links [OF assms(3)])

lemma things_ok_objects:
  assumes "things_ok A S B lv" "a \<notin> A" and lv': "lv' = lv\<lparr>lv_objects := (lv_objects lv)(a := y)\<rparr>"
  shows "things_ok A S B lv'"
proof -
  have at: "mobj_at lv' p = mobj_at lv p" if "p \<in> A" for p
    using that assms(2) by (auto simp: mobj_at_def lv')
  have A: "p \<in> set (S i) \<Longrightarrow> p \<in> A" "p \<in> set (B i) \<Longrightarrow> p \<in> A" for p i using assms(1) by (auto simp: things_ok_def)
  have [simp]: "lv_sectors lv' = lv_sectors lv" "blocklinks lv' = blocklinks lv" "lv_subsectors lv' = lv_subsectors lv"
    "block_of x y lv' = block_of x y lv" "subsector_sector ss lv' = subsector_sector ss lv" for x y ss
    by (simp_all add: lv' block_of_def Let_def subsector_sector_def split: if_split)
  have "sector_lists lv' S" using assms(1) at A
    by (auto simp: things_ok_def sector_lists_def intro: linked_cong)
  moreover have "block_lists lv' B" using assms(1) at A
    by (auto simp: things_ok_def block_lists_def intro: linked_cong)
  ultimately show ?thesis using assms(1) at by (simp add: things_ok_def thing_ok_def in_sector_def in_block_def)
qed

lemma things_ok_store: "things_ok A S B lv \<Longrightarrow> a \<notin> A \<Longrightarrow> things_ok A S B (store a x lv)"
  by (rule things_ok_objects) (simp_all add: store_def)

lemma sector_lists_block_unlinked:
  assumes "sector_lists lv S" "block_unlinked lv' = block_unlinked lv"
  shows "sector_lists lv' S"
proof -
  have "map_option mo_snext (mobj_at lv' p) = map_option mo_snext (mobj_at lv p)" "map_option mo_sprev (mobj_at lv' p) = map_option mo_sprev (mobj_at lv p)" for p
    by (rule map_option_through [OF mobj_at_block_unlinked [OF assms(2)]], simp add: no_blinks_def)+
  moreover have "lv_sectors lv' = lv_sectors lv" using arg_cong [OF assms(2), of lv_sectors] by (simp add: block_unlinked_def)
  ultimately show ?thesis using assms(1) linked_cong unfolding sector_lists_def by metis
qed

lemma block_lists_sector_unlinked:
  assumes "block_lists lv B" "sector_unlinked lv' = sector_unlinked lv"
  shows "block_lists lv' B"
proof -
  have "map_option mo_bnext (mobj_at lv' p) = map_option mo_bnext (mobj_at lv p)" "map_option mo_bprev (mobj_at lv' p) = map_option mo_bprev (mobj_at lv p)" for p
    by (rule map_option_through [OF mobj_at_sector_unlinked [OF assms(2)]], simp add: no_slinks_def)+
  moreover have "blocklinks lv' = blocklinks lv" using arg_cong [OF assms(2), of blocklinks] by (simp add: sector_unlinked_def)
  ultimately show ?thesis using assms(1) linked_cong unfolding block_lists_def by metis
qed

lemma mobj_at_unlinked:
  assumes "unlinked lv' = unlinked lv"
  shows "map_option (\<lambda>m. no_slinks (no_blinks m)) (mobj_at lv' p) = map_option (\<lambda>m. no_slinks (no_blinks m)) (mobj_at lv p)"
proof -
  have "sector_unlinked (block_unlinked lv') = sector_unlinked (block_unlinked lv)" using assms by (simp add: unlinked_def)
  note mobj_at_sector_unlinked [OF this, of p]
  moreover have "mobj_at (block_unlinked lv) p = map_option no_blinks (mobj_at lv p)" for lv
  proof (cases "lv_objects lv p")
    case (Some x)
    then show ?thesis by (cases x) (simp_all add: mobj_at_def block_unlinked_def)
  qed (simp add: mobj_at_def block_unlinked_def)
  ultimately show ?thesis by (simp add: option.map_comp comp_def)
qed

text \<open>Putting a new thing into its lists.\<close>

lemma set_position_sector:
  assumes "sector_lists lv S" "a \<noteq> 0" "\<And>j. a \<notin> set (S j)" "mobj_at lv a = Some m" "map_ok lv"
    "mo_subsector m = of_nat ss" "ss < length (lv_subsectors lv)" "ss < 4294967296"
  obtains lv' S' where "(if mo_flags m AND MF_NOSECTOR = 0 then link_sector a ss lv else Inr lv) = Inr lv'"
    "sector_lists lv' S'" "sector_unlinked lv' = sector_unlinked lv"
    "\<And>i. a \<in> set (S' i) \<longleftrightarrow> in_sector lv m i" "\<And>b i. b \<noteq> a \<Longrightarrow> b \<in> set (S' i) \<longleftrightarrow> b \<in> set (S i)"
proof (cases "mo_flags m AND MF_NOSECTOR = 0")
  case True
  let ?sec = "lv_subsectors lv ! ss"
  have sec: "subsector_sector ss lv = Inr ?sec" "?sec < length (lv_sectors lv)"
    using assms(5,7) by (simp_all add: subsector_sector_def map_ok_def)
  obtain lv' where lv': "link_sector a ss lv = Inr lv'" "sector_lists lv' (S(?sec := a # S ?sec))" "sector_unlinked lv' = sector_unlinked lv"
    by (rule link_sector_ok [OF assms(1-4) sec])
  show ?thesis
  proof (rule that [OF _ lv'(2,3)])
    show "a \<in> set ((S(?sec := a # S ?sec)) i) \<longleftrightarrow> in_sector lv m i" for i
      using assms(3,6,8) sec(1) True by (auto simp: in_sector_def unat_of_nat_small)
  qed (use True lv'(1) in auto)
next
  case False
  show ?thesis
  proof (rule that)
    show "(if mo_flags m AND MF_NOSECTOR = 0 then link_sector a ss lv else Inr lv) = Inr lv" using False by simp
    show "sector_lists lv S" by fact
    show "a \<in> set (S i) \<longleftrightarrow> in_sector lv m i" for i using assms(3) False by (simp add: in_sector_def)
  qed simp_all
qed

lemma set_position_block:
  assumes "block_lists lv B" "a \<noteq> 0" "\<And>j. a \<notin> set (B j)" "mobj_at lv a = Some m'" "map_ok lv"
    "mo_flags m' = mo_flags m" "mo_x m' = mo_x m" "mo_y m' = mo_y m"
  obtains lv' B' where "(if mo_flags m AND MF_NOBLOCKMAP = 0 then link_block a m lv else Inr lv) = Inr lv'"
    "block_lists lv' B'" "block_unlinked lv' = block_unlinked lv"
    "\<And>i. a \<in> set (B' i) \<longleftrightarrow> in_block lv m' i" "\<And>b i. b \<noteq> a \<Longrightarrow> b \<in> set (B' i) \<longleftrightarrow> b \<in> set (B i)"
    "\<And>p. p \<noteq> a \<Longrightarrow> (\<And>j. p \<notin> set (B j)) \<Longrightarrow> mobj_at lv' p = mobj_at lv p"
    "mo_flags m' AND MF_NOBLOCKMAP = 0 \<and> block_of (mo_x m') (mo_y m') lv = None \<Longrightarrow>
       \<exists>n. mobj_at lv' a = Some n \<and> mo_bnext n = 0 \<and> mo_bprev n = 0"
proof (cases "mo_flags m AND MF_NOBLOCKMAP = 0")
  case True
  show ?thesis
  proof (cases "block_of (mo_x m) (mo_y m) lv")
    case None
    let ?lv = "store a (Mobj (m'\<lparr>mo_bnext := 0, mo_bprev := 0\<rparr>)) lv"
    show ?thesis
    proof (rule that)
      show "(if mo_flags m AND MF_NOBLOCKMAP = 0 then link_block a m lv else Inr lv) = Inr ?lv"
        using True None upd_mobj_at [OF assms(2,4)] by (simp add: link_block_def)
      have "mobj_at ?lv p = mobj_at lv p" if "p \<in> set (B i)" for p i using that assms(3) by auto
      then show "block_lists ?lv B" using assms(1) by (auto simp: block_lists_def intro: linked_cong)
      show "block_unlinked ?lv = block_unlinked lv" by (rule on_mobj_no_blinks [OF _ assms(4)]) (simp add: no_blinks_def)
      show "a \<in> set (B i) \<longleftrightarrow> in_block lv m' i" for i using assms(3,6-8) None by (simp add: in_block_def)
    qed simp_all
  next
    case (Some i)
    have i: "unat i < length (blocklinks lv)" using assms(5) Some by (auto simp: map_ok_def intro: block_in_range)
    have "link_block a m lv = link_block a m' lv" using assms(7,8) by (simp add: link_block_def)
    then obtain lv' where lv': "link_block a m lv = Inr lv'" "block_lists lv' (B(unat i := a # B (unat i)))"
      "block_unlinked lv' = block_unlinked lv" "\<And>p. p \<noteq> a \<Longrightarrow> (\<And>j. p \<notin> set (B j)) \<Longrightarrow> mobj_at lv' p = mobj_at lv p"
      using link_block_ok [OF assms(1-4,7,8) Some i] by metis
    show ?thesis
    proof (rule that [OF _ lv'(2-3) _ _ lv'(4)])
      show "a \<in> set ((B(unat i := a # B (unat i))) j) \<longleftrightarrow> in_block lv m' j" for j
        using assms(3,6-8) Some True by (auto simp: in_block_def)
    qed (use True lv'(1) Some assms(6-8) in auto)
  qed
next
  case False
  show ?thesis
  proof (rule that)
    show "(if mo_flags m AND MF_NOBLOCKMAP = 0 then link_block a m lv else Inr lv) = Inr lv" using False by simp
    show "block_lists lv B" by fact
    show "a \<in> set (B i) \<longleftrightarrow> in_block lv m' i" for i using assms(3,6) False by (simp add: in_block_def)
  qed (use assms(6) False in simp_all)
qed

lemma set_position_ok:
  assumes "things_ok A S B lv" "map_ok lv" "a \<noteq> 0" "a \<notin> A" "mobj_at lv a = Some m"
  obtains lv' ss S' B' where "P_SetThingPosition a lv = Inr lv'" "things_ok (insert a A) S' B' lv'"
    "R_PointInSubsector (mo_x m) (mo_y m) lv = Inr ss" "ss < length (lv_subsectors lv)" "ss < 4294967296"
    "unlinked lv' = unlinked (store a (Mobj (m\<lparr>mo_subsector := of_nat ss\<rparr>)) lv)"
proof -
  have "bsp_ok lv" using assms(2) by (simp add: map_ok_def)
  from point_in_subsector [OF this, of "mo_x m" "mo_y m"] obtain ss where
    ss: "R_PointInSubsector (mo_x m) (mo_y m) lv = Inr ss" "ss < length (lv_subsectors lv)" "ss < 4294967296" .
  let ?m = "m\<lparr>mo_subsector := of_nat ss\<rparr>"
  let ?lv1 = "store a (Mobj ?m) lv"
  have ok1: "things_ok A S B ?lv1" by (rule things_ok_store [OF assms(1,4)])
  then have sl: "sector_lists ?lv1 S" and bl: "block_lists ?lv1 B" and new: "a \<notin> set (S i)" "a \<notin> set (B i)" for i
    using assms(4) by (auto simp: things_ok_def)
  have map1: "map_ok ?lv1" and len1: "ss < length (lv_subsectors ?lv1)" using assms(2) ss(2) by simp_all
  obtain lv2 S' where lv2: "(if mo_flags ?m AND MF_NOSECTOR = 0 then link_sector a ss ?lv1 else Inr ?lv1) = Inr lv2"
    "sector_lists lv2 S'" "sector_unlinked lv2 = sector_unlinked ?lv1"
    "\<And>i. a \<in> set (S' i) \<longleftrightarrow> in_sector ?lv1 ?m i" "\<And>b i. b \<noteq> a \<Longrightarrow> b \<in> set (S' i) \<longleftrightarrow> b \<in> set (S i)"
    by (rule set_position_sector [OF sl assms(3) new(1) _ map1 _ len1 ss(3), of ?m]) simp_all
  have u2: "unlinked lv2 = unlinked ?lv1" by (rule sector_unlinked_step [OF lv2(3)])
  have at2: "map_option no_slinks (mobj_at lv2 p) = map_option no_slinks (mobj_at ?lv1 p)" for p
    by (rule mobj_at_sector_unlinked [OF lv2(3)])
  obtain m2 where m2: "mobj_at lv2 a = Some m2" "no_slinks m2 = no_slinks ?m" using at2 [of a] by auto
  have fields: "mo_flags m2 = mo_flags m" "mo_x m2 = mo_x m" "mo_y m2 = mo_y m"
    "mo_subsector m2 = of_nat ss"
    using same_but_slinks [OF m2(2)] by simp_all
  have map2: "map_ok lv2" using map1 same_map(6) [OF u2] by simp
  obtain lv3 B' where lv3: "(if mo_flags m AND MF_NOBLOCKMAP = 0 then link_block a m lv2 else Inr lv2) = Inr lv3"
    "block_lists lv3 B'" "block_unlinked lv3 = block_unlinked lv2"
    "\<And>i. a \<in> set (B' i) \<longleftrightarrow> in_block lv2 m2 i" "\<And>b i. b \<noteq> a \<Longrightarrow> b \<in> set (B' i) \<longleftrightarrow> b \<in> set (B i)"
    "\<And>p. p \<noteq> a \<Longrightarrow> (\<And>j. p \<notin> set (B j)) \<Longrightarrow> mobj_at lv3 p = mobj_at lv2 p"
    "mo_flags m2 AND MF_NOBLOCKMAP = 0 \<and> block_of (mo_x m2) (mo_y m2) lv2 = None \<Longrightarrow>
       \<exists>n. mobj_at lv3 a = Some n \<and> mo_bnext n = 0 \<and> mo_bprev n = 0"
    by (rule set_position_block [OF block_lists_sector_unlinked [OF bl lv2(3)] assms(3) new(2) m2(1) map2 fields(1-3)]) blast
  have u3: "unlinked lv3 = unlinked ?lv1" using block_unlinked_step [OF lv3(3)] u2 by simp
  have at3: "map_option (\<lambda>m. no_slinks (no_blinks m)) (mobj_at lv3 p) = map_option (\<lambda>m. no_slinks (no_blinks m)) (mobj_at ?lv1 p)" for p
    by (rule mobj_at_unlinked [OF u3])
  have "\<exists>n. mobj_at lv3 b = Some n \<and> thing_ok S' B' lv3 b n" if b: "b \<in> A" for b
  proof -
    have ba: "b \<noteq> a" using b assms(4) by blast
    then obtain k where k: "mobj_at ?lv1 b = Some k" "thing_ok S B ?lv1 b k" using ok1 b by (auto simp: things_ok_def)
    then obtain n where n: "mobj_at lv3 b = Some n" "no_slinks (no_blinks n) = no_slinks (no_blinks k)" using at3 [of b] by auto
    have keep: "mo_bnext n = mo_bnext k \<and> mo_bprev n = mo_bprev k"
      if off: "mo_flags k AND MF_NOBLOCKMAP = 0" "block_of (mo_x k) (mo_y k) ?lv1 = None"
    proof -
      have "b \<notin> set (B j)" for j using k(2) off by (simp add: thing_ok_def in_block_def)
      then have "mobj_at lv2 b = Some n" using lv3(6) [OF ba] n(1) by simp
      then have "no_slinks n = no_slinks k" using at2 [of b] k(1) by simp
      then show ?thesis using same_but_slinks [of n k] by simp
    qed
    have "thing_ok S' B' lv3 b n"
      by (rule thing_ok_cong [OF k(2) u3 n(2) lv2(5) [OF ba] lv3(5) [OF ba]]) (use keep in simp)
    then show ?thesis using n(1) by blast
  qed
  moreover have "\<exists>n. mobj_at lv3 a = Some n \<and> thing_ok S' B' lv3 a n"
  proof -
    obtain n where n: "mobj_at lv3 a = Some n" "no_slinks (no_blinks n) = no_slinks (no_blinks ?m)" using at3 [of a] by auto
    note f = same_but_links [OF n(2)]
    show ?thesis
      using n(1) lv2(4) lv3(4,7) ss(2,3) fields f
      by (auto simp: thing_ok_def in_sector_def in_block_def same_map [OF u3] same_map [OF u2] unat_of_nat_small)
  qed
  moreover have "set (S' i) \<subseteq> insert a A" "set (B' i) \<subseteq> insert a A" for i
    using lv2(5) lv3(5) assms(1) unfolding things_ok_def by blast+
  ultimately have "things_ok (insert a A) S' B' lv3"
    using sector_lists_block_unlinked [OF lv2(2) lv3(3)] lv3(2) assms(1,3) by (auto simp: things_ok_def)
  moreover have "P_SetThingPosition a lv = Inr lv3"
    using lv2(1) lv3(1) by (simp add: P_SetThingPosition_def load_mobj_at [OF assms(3,5)] ss(1) upd_mobj_at [OF assms(3,5)])
  ultimately show ?thesis using that ss u3 by blast
qed

text \<open>Taking a thing out of its lists.\<close>

lemma unset_position_sector:
  assumes "sector_lists lv S" "mobj_at lv a = Some m" "map_ok lv" "\<And>i. a \<in> set (S i) \<longleftrightarrow> in_sector lv m i"
    "unat (mo_subsector m) < length (lv_subsectors lv)"
  obtains lv' S' where "(if mo_flags m AND MF_NOSECTOR = 0 then unlink_sector m lv else Inr lv) = Inr lv'"
    "sector_lists lv' S'" "sector_unlinked lv' = sector_unlinked lv"
    "\<And>b i. b \<in> set (S' i) \<longleftrightarrow> b \<noteq> a \<and> b \<in> set (S i)"
proof (cases "mo_flags m AND MF_NOSECTOR = 0")
  case True
  let ?sec = "lv_subsectors lv ! unat (mo_subsector m)"
  have sec: "subsector_sector (unat (mo_subsector m)) lv = Inr ?sec" "?sec < length (lv_sectors lv)"
    using assms(3,5) by (simp_all add: subsector_sector_def map_ok_def)
  have iff: "a \<in> set (S i) \<longleftrightarrow> i = ?sec" for i using assms(4) sec(1) True by (auto simp: in_sector_def)
  obtain lv' where lv': "unlink_sector m lv = Inr lv'" "sector_lists lv' (S(?sec := remove1 a (S ?sec)))" "sector_unlinked lv' = sector_unlinked lv"
    using unlink_sector_ok [OF assms(1,2) _ sec] iff by blast
  have "distinct (S ?sec)" using assms(1) sec(2) by (auto simp: sector_lists_def linked_def chain_def ring_def)
  then show ?thesis using iff True lv' by (intro that [OF _ lv'(2,3)]) auto
next
  case False
  then show ?thesis using assms(1,4) by (intro that [of lv S]) (auto simp: in_sector_def)
qed

lemma unset_position_block:
  assumes "block_lists lv B" "mobj_at lv a = Some m'" "map_ok lv" "\<And>i. a \<in> set (B i) \<longleftrightarrow> in_block lv m' i"
    "mo_flags m' = mo_flags m" "mo_x m' = mo_x m" "mo_y m' = mo_y m" "mo_bnext m' = mo_bnext m" "mo_bprev m' = mo_bprev m"
    "mo_flags m' AND MF_NOBLOCKMAP = 0 \<Longrightarrow> block_of (mo_x m') (mo_y m') lv = None \<Longrightarrow> mo_bnext m' = 0 \<and> mo_bprev m' = 0"
  obtains lv' B' where "(if mo_flags m AND MF_NOBLOCKMAP = 0 then unlink_block m lv else Inr lv) = Inr lv'"
    "block_lists lv' B'" "block_unlinked lv' = block_unlinked lv" "\<And>b i. b \<in> set (B' i) \<longleftrightarrow> b \<noteq> a \<and> b \<in> set (B i)"
    "\<And>p. (\<And>j. p \<notin> set (B j)) \<Longrightarrow> mobj_at lv' p = mobj_at lv p"
proof -
  have m: "unlink_block m lv = unlink_block m' lv" unfolding unlink_block_def assms(6-9) ..
  consider (off) "mo_flags m' AND MF_NOBLOCKMAP \<noteq> 0" | (none) "mo_flags m' AND MF_NOBLOCKMAP = 0" "block_of (mo_x m') (mo_y m') lv = None"
    | (some) i where "mo_flags m' AND MF_NOBLOCKMAP = 0" "block_of (mo_x m') (mo_y m') lv = Some i" by blast
  then show ?thesis
  proof cases
    case off
    then show ?thesis using assms(1,4,5) by (intro that [of lv B]) (auto simp: in_block_def)
  next
    case none
    then have "unlink_block m' lv = Inr lv" using assms(10) by (simp add: unlink_block_def)
    then show ?thesis using assms(1,4,5) none m by (intro that [of lv B]) (auto simp: in_block_def)
  next
    case some
    have i: "unat i < length (blocklinks lv)" using assms(3) some(2) by (auto simp: map_ok_def intro: block_in_range)
    have iff: "a \<in> set (B j) \<longleftrightarrow> j = unat i" for j using assms(4) some by (auto simp: in_block_def)
    obtain lv' where lv': "unlink_block m' lv = Inr lv'" "block_lists lv' (B(unat i := remove1 a (B (unat i))))"
      "block_unlinked lv' = block_unlinked lv" "\<And>p. (\<And>j. p \<notin> set (B j)) \<Longrightarrow> mobj_at lv' p = mobj_at lv p"
      using unlink_block_ok [OF assms(1,2) _ some(2) i] iff by metis
    have "distinct (B (unat i))" using assms(1) i by (auto simp: block_lists_def linked_def chain_def ring_def)
    then show ?thesis using iff some(1) lv' m assms(5) by (intro that [OF _ lv'(2,3) _ lv'(4)]) auto
  qed
qed

lemma unset_position_ok:
  assumes "things_ok A S B lv" "map_ok lv" "a \<in> A" "mobj_at lv a = Some m"
  obtains lv' S' B' where "P_UnsetThingPosition a lv = Inr lv'" "things_ok (A - {a}) S' B' lv'" "unlinked lv' = unlinked lv"
proof -
  have a: "a \<noteq> 0" "thing_ok S B lv a m" using assms(1,3,4) by (auto simp: things_ok_def)
  then have sec: "a \<in> set (S i) \<longleftrightarrow> in_sector lv m i" "unat (mo_subsector m) < length (lv_subsectors lv)"
    and blk: "a \<in> set (B i) \<longleftrightarrow> in_block lv m i"
      "mo_flags m AND MF_NOBLOCKMAP = 0 \<Longrightarrow> block_of (mo_x m) (mo_y m) lv = None \<Longrightarrow> mo_bnext m = 0 \<and> mo_bprev m = 0" for i
    by (simp_all add: thing_ok_def)
  have sl: "sector_lists lv S" and bl: "block_lists lv B" using assms(1) by (simp_all add: things_ok_def)
  obtain lv2 S' where lv2: "(if mo_flags m AND MF_NOSECTOR = 0 then unlink_sector m lv else Inr lv) = Inr lv2"
    "sector_lists lv2 S'" "sector_unlinked lv2 = sector_unlinked lv"
    "\<And>b i. b \<in> set (S' i) \<longleftrightarrow> b \<noteq> a \<and> b \<in> set (S i)"
    by (rule unset_position_sector [OF sl assms(4,2) sec]) blast
  have u2: "unlinked lv2 = unlinked lv" by (rule sector_unlinked_step [OF lv2(3)])
  have at2: "map_option no_slinks (mobj_at lv2 p) = map_option no_slinks (mobj_at lv p)" for p
    by (rule mobj_at_sector_unlinked [OF lv2(3)])
  obtain m2 where m2: "mobj_at lv2 a = Some m2" "no_slinks m2 = no_slinks m" using at2 [of a] assms(4) by auto
  note f = same_but_slinks [OF m2(2)]
  have map2: "map_ok lv2" using assms(2) same_map(6) [OF u2] by simp
  obtain lv3 B' where lv3: "(if mo_flags m AND MF_NOBLOCKMAP = 0 then unlink_block m lv2 else Inr lv2) = Inr lv3"
    "block_lists lv3 B'" "block_unlinked lv3 = block_unlinked lv2" "\<And>b i. b \<in> set (B' i) \<longleftrightarrow> b \<noteq> a \<and> b \<in> set (B i)"
    "\<And>p. (\<And>j. p \<notin> set (B j)) \<Longrightarrow> mobj_at lv3 p = mobj_at lv2 p"
    by (rule unset_position_block [OF block_lists_sector_unlinked [OF bl lv2(3)] m2(1) map2 _ f(1-3,5,6)])
      (use blk f in \<open>simp_all add: in_block_def same_map [OF u2]\<close>)
  have u3: "unlinked lv3 = unlinked lv" using block_unlinked_step [OF lv3(3)] u2 by simp
  have "\<exists>n. mobj_at lv3 b = Some n \<and> thing_ok S' B' lv3 b n" if b: "b \<in> A - {a}" for b
  proof -
    have ba: "b \<noteq> a" using b by blast
    then obtain k where k: "mobj_at lv b = Some k" "thing_ok S B lv b k" using assms(1) b by (auto simp: things_ok_def)
    then obtain n where n: "mobj_at lv3 b = Some n" "no_slinks (no_blinks n) = no_slinks (no_blinks k)"
      using mobj_at_unlinked [OF u3, of b] by auto
    have keep: "mo_bnext n = mo_bnext k \<and> mo_bprev n = mo_bprev k"
      if off: "mo_flags k AND MF_NOBLOCKMAP = 0" "block_of (mo_x k) (mo_y k) lv = None"
    proof -
      have "b \<notin> set (B j)" for j using k(2) off by (simp add: thing_ok_def in_block_def)
      then have "mobj_at lv2 b = Some n" using lv3(5) n(1) by simp
      then have "no_slinks n = no_slinks k" using at2 [of b] k(1) by simp
      then show ?thesis using same_but_slinks [of n k] by simp
    qed
    have "thing_ok S' B' lv3 b n"
      by (rule thing_ok_cong [OF k(2) u3 n(2)]) (use ba keep lv2(4) lv3(4) in simp_all)
    then show ?thesis using n(1) by blast
  qed
  moreover have "set (S' i) \<subseteq> A - {a}" "set (B' i) \<subseteq> A - {a}" for i
    using lv2(4) lv3(4) assms(1) unfolding things_ok_def by blast+
  ultimately have "things_ok (A - {a}) S' B' lv3"
    using sector_lists_block_unlinked [OF lv2(2) lv3(3)] lv3(2) assms(1) by (auto simp: things_ok_def)
  moreover have "P_UnsetThingPosition a lv = Inr lv3"
    using lv2(1) lv3(1) by (simp add: P_UnsetThingPosition_def load_mobj_at [OF a(1) assms(4)])
  ultimately show ?thesis using that u3 by blast
qed

end
