(* ===== verification/P_Archive.thy ===== *)
theory P_Archive
  imports P_Saveg P_Level D_Mode
begin

text \<open>
  Saving and loading a game (\<open>doom/p_saveg.c\<close>, and \<open>G_DoSaveGame\<close> and \<open>G_DoLoadGame\<close> of
  \<open>doom/g_game.c\<close>). A writer takes the level and the stream; a reader changes both. Memory that
  was just allocated holds anything: \<open>fresh\<close> says what, and is a parameter. The walks over the list of
  thinkers and the loops that read until a marker need not end: they are partial functions.
\<close>

definition SAVESTRINGSIZE :: nat where "SAVESTRINGSIZE = 24"
definition VERSIONSIZE :: nat where "VERSIONSIZE = 16"
definition SAVEGAME_EOF :: u8 where "SAVEGAME_EOF = 0x1d"
definition SAVEGAMESIZE :: nat where "SAVEGAMESIZE = 0x2c000"

definition tc_end :: u8 where "tc_end = 0"
definition tc_mobj :: u8 where "tc_mobj = 1"

definition tc_ceiling :: u8 where "tc_ceiling = 0"
definition tc_door :: u8 where "tc_door = 1"
definition tc_floor :: u8 where "tc_floor = 2"
definition tc_plat :: u8 where "tc_plat = 3"
definition tc_flash :: u8 where "tc_flash = 4"
definition tc_strobe :: u8 where "tc_strobe = 5"
definition tc_glow :: u8 where "tc_glow = 6"
definition tc_endspecials :: u8 where "tc_endspecials = 7"

lemmas tc_defs = tc_end_def tc_mobj_def tc_ceiling_def tc_door_def tc_floor_def tc_plat_def tc_flash_def tc_strobe_def
  tc_glow_def tc_endspecials_def

text \<open>Reading a byte into a variable, and writing some of them.\<close>

definition write_bytes :: "bytes \<Rightarrow> save \<Rightarrow> save" where
  "write_bytes bs = stmts (map saveg_write8 bs)"

definition read_bytes :: "nat \<Rightarrow> save \<Rightarrow> bytes \<times> save" where
  "read_bytes n st = array n (\<lambda>_ (bs, st). case saveg_read8 st of (b, st) \<Rightarrow> (bs @ [b], st)) ([], st)"

subsection \<open>The header and the end\<close>

definition G_VanillaVersionCode :: "level \<Rightarrow> nat res" where
  "G_VanillaVersionCode lv =
     (if gameversion lv = 0 then Inl IError
      else if gameversion lv = exe_doom_1_666 then Inr 106
      else if gameversion lv = exe_doom_1_7 then Inr 107
      else if gameversion lv = exe_doom_1_8 then Inr 108
      else Inr 109)"

text \<open>The version of the game as text, in three digits.\<close>

definition version_text :: "nat \<Rightarrow> bytes" where
  "version_text code = cstr ''version '' @ [of_nat (48 + code div 100), of_nat (48 + code div 10 mod 10), of_nat (48 + code mod 10)]"

definition version_field :: "nat \<Rightarrow> bytes" where
  "version_field code = (let s = M_snprintf VERSIONSIZE (version_text code) in s @ replicate (VERSIONSIZE - length s) 0)"

definition P_WriteSaveGameHeader :: "bytes \<Rightarrow> level \<Rightarrow> save \<Rightarrow> save res" where
  "P_WriteSaveGameHeader description lv st =
     bindR (G_VanillaVersionCode lv) (\<lambda>code. Inr (stmts
       [write_bytes description, write_bytes (replicate (SAVESTRINGSIZE - length description) 0),
        write_bytes (version_field code),
        saveg_write8 (ucast (gameskill lv)), saveg_write8 (ucast (gameepisode lv)), saveg_write8 (ucast (gamemap lv)),
        array MAXPLAYERS (\<lambda>i. saveg_write8 (ucast (lv_playeringame lv ! i))),
        saveg_write8 (ucast (drop_bit 16 (leveltime lv) AND 0xff)), saveg_write8 (ucast (drop_bit 8 (leveltime lv) AND 0xff)),
        saveg_write8 (ucast (leveltime lv AND 0xff))] st))"

text \<open>\<open>strcmp\<close> compares up to the first null byte.\<close>

definition same_string :: "bytes \<Rightarrow> bytes \<Rightarrow> bool" where
  "same_string s t \<longleftrightarrow> takeWhile (\<lambda>b. b \<noteq> 0) s = takeWhile (\<lambda>b. b \<noteq> 0) t"

definition read_byte :: "(u8 \<Rightarrow> level \<Rightarrow> level) \<Rightarrow> level \<times> save \<Rightarrow> level \<times> save" where
  "read_byte put = field saveg_read8 put"

definition read_header_fields :: "level \<times> save \<Rightarrow> level \<times> save" where
  "read_header_fields = stmts
     [read_byte (\<lambda>b lv. lv\<lparr>gameskill := ucast b\<rparr>), read_byte (\<lambda>b lv. lv\<lparr>gameepisode := ucast b\<rparr>),
      read_byte (\<lambda>b lv. lv\<lparr>gamemap := ucast b\<rparr>),
      array MAXPLAYERS (\<lambda>i. read_byte (\<lambda>b lv. lv\<lparr>lv_playeringame := (lv_playeringame lv)[i := ucast b]\<rparr>)),
      \<lambda>(lv, st). let (a, st) = saveg_read8 st; (b, st) = saveg_read8 st; (c, st) = saveg_read8 st
                 in (lv\<lparr>leveltime := push_bit 16 (ucast a) + push_bit 8 (ucast b) + ucast c\<rparr>, st)]"

definition P_ReadSaveGameHeader :: "level \<times> save \<Rightarrow> (bool \<times> level \<times> save) res" where
  "P_ReadSaveGameHeader = (\<lambda>(lv, st).
     let (_, st) = read_bytes SAVESTRINGSIZE st; (read_vcheck, st) = read_bytes VERSIONSIZE st
     in bindR (G_VanillaVersionCode lv) (\<lambda>code.
        Inr (if same_string read_vcheck (version_field code) then (True, read_header_fields (lv, st)) else (False, lv, st))))"

definition P_ReadSaveGameEOF :: "save \<Rightarrow> bool \<times> save" where
  "P_ReadSaveGameEOF st = (case saveg_read8 st of (v, st) \<Rightarrow> (v = SAVEGAME_EOF, st))"

definition P_WriteSaveGameEOF :: "save \<Rightarrow> save" where
  "P_WriteSaveGameEOF = saveg_write8 SAVEGAME_EOF"

subsection \<open>Players\<close>

definition P_ArchivePlayers :: "level \<Rightarrow> save \<Rightarrow> save" where
  "P_ArchivePlayers lv = array MAXPLAYERS (\<lambda>i.
     if lv_playeringame lv ! i = 0 then (\<lambda>st. st) else stmts [saveg_write_pad, saveg_write_player_t (lv_players lv ! i)])"

definition on_stream :: "(save \<Rightarrow> save) \<Rightarrow> 'a \<times> save \<Rightarrow> 'a \<times> save" where
  "on_stream f = (\<lambda>(x, st). (x, f st))"

definition assign :: "('a \<Rightarrow> 'a) \<Rightarrow> 'a \<times> save \<Rightarrow> 'a \<times> save" where
  "assign f = (\<lambda>(x, st). (f x, st))"

text \<open>\<open>playing\<close> is \<open>playeringame\<close>, which the loop does not change.\<close>

definition unarchive_players :: "u32 list \<Rightarrow> level \<times> save \<Rightarrow> level \<times> save" where
  "unarchive_players playing = array MAXPLAYERS (\<lambda>i.
     if playing ! i = 0 then (\<lambda>s. s)
     else sub (\<lambda>lv. lv_players lv ! i) (\<lambda>p lv. lv\<lparr>lv_players := (lv_players lv)[i := p]\<rparr>) (stmts
       [on_stream saveg_read_pad, saveg_read_player_t, assign (\<lambda>p. p\<lparr>pl_mo := 0, pl_message := 0, pl_attacker := 0\<rparr>)]))"

definition P_UnArchivePlayers :: "level \<times> save \<Rightarrow> level \<times> save" where
  "P_UnArchivePlayers = (\<lambda>(lv, st). unarchive_players (lv_playeringame lv) (lv, st))"

subsection \<open>The world\<close>

definition archive_sector :: "sector \<Rightarrow> save \<Rightarrow> save" where
  "archive_sector sec = stmts [
     saveg_write16 (ucast (signed_drop_bit FRACBITS (sec_floorheight sec))),
     saveg_write16 (ucast (signed_drop_bit FRACBITS (sec_ceilingheight sec))),
     saveg_write16 (sec_floorpic sec),
     saveg_write16 (sec_ceilingpic sec),
     saveg_write16 (sec_lightlevel sec),
     saveg_write16 (sec_special sec),
     saveg_write16 (sec_tag sec)]"

definition archive_side :: "side \<Rightarrow> save \<Rightarrow> save" where
  "archive_side si = stmts [
     saveg_write16 (ucast (signed_drop_bit FRACBITS (si_textureoffset si))),
     saveg_write16 (ucast (signed_drop_bit FRACBITS (si_rowoffset si))),
     saveg_write16 (si_toptexture si),
     saveg_write16 (si_bottomtexture si),
     saveg_write16 (si_midtexture si)]"

text \<open>The sides of a line: \<open>-1\<close> is none. A line whose side is not one of the map is a fault.\<close>

definition sides_of :: "line \<Rightarrow> nat list" where
  "sides_of li = map unat (List.filter (\<lambda>n. n \<noteq> - 1) [fst (li_sidenum li), snd (li_sidenum li)])"

definition sides_ok :: "level \<Rightarrow> bool" where
  "sides_ok lv \<longleftrightarrow> list_all (\<lambda>li. list_all (\<lambda>i. i < length (lv_sides lv)) (sides_of li)) (lv_lines lv)"

definition archive_line :: "line \<Rightarrow> save \<Rightarrow> save" where
  "archive_line li = stmts [saveg_write16 (li_flags li), saveg_write16 (li_special li), saveg_write16 (li_tag li)]"

definition P_ArchiveWorld :: "level \<Rightarrow> save \<Rightarrow> save res" where
  "P_ArchiveWorld lv st =
     (if \<not> sides_ok lv then Inl OutOfBounds
      else Inr (stmts [
        array (length (lv_sectors lv)) (\<lambda>i. archive_sector (lv_sectors lv ! i)),
        array (length (lv_lines lv)) (\<lambda>i. let li = lv_lines lv ! i in stmts [
          archive_line li,
          stmts (map (\<lambda>j. archive_side (lv_sides lv ! j)) (sides_of li))])] st))"

definition read_fixed16 :: "(fixed \<Rightarrow> 'a \<Rightarrow> 'a) \<Rightarrow> 'a \<times> save \<Rightarrow> 'a \<times> save" where
  "read_fixed16 put = field saveg_read16 (\<lambda>v. put (push_bit FRACBITS (scast v)))"

definition unarchive_sector :: "sector \<times> save \<Rightarrow> sector \<times> save" where
  "unarchive_sector = stmts [
     read_fixed16 (\<lambda>v s. s\<lparr>sec_floorheight := v\<rparr>),
     read_fixed16 (\<lambda>v s. s\<lparr>sec_ceilingheight := v\<rparr>),
     field saveg_read16 (\<lambda>v s. s\<lparr>sec_floorpic := v\<rparr>),
     field saveg_read16 (\<lambda>v s. s\<lparr>sec_ceilingpic := v\<rparr>),
     field saveg_read16 (\<lambda>v s. s\<lparr>sec_lightlevel := v\<rparr>),
     field saveg_read16 (\<lambda>v s. s\<lparr>sec_special := v\<rparr>),
     field saveg_read16 (\<lambda>v s. s\<lparr>sec_tag := v\<rparr>),
     assign (\<lambda>s. s\<lparr>sec_floordata := 0, sec_ceilingdata := 0, sec_lightingdata := 0, sec_soundtarget := 0\<rparr>)]"

definition unarchive_side :: "side \<times> save \<Rightarrow> side \<times> save" where
  "unarchive_side = stmts [
     read_fixed16 (\<lambda>v s. s\<lparr>si_textureoffset := v\<rparr>),
     read_fixed16 (\<lambda>v s. s\<lparr>si_rowoffset := v\<rparr>),
     field saveg_read16 (\<lambda>v s. s\<lparr>si_toptexture := v\<rparr>),
     field saveg_read16 (\<lambda>v s. s\<lparr>si_bottomtexture := v\<rparr>),
     field saveg_read16 (\<lambda>v s. s\<lparr>si_midtexture := v\<rparr>)]"

definition unarchive_line :: "line \<times> save \<Rightarrow> line \<times> save" where
  "unarchive_line = stmts [
     field saveg_read16 (\<lambda>v s. s\<lparr>li_flags := v\<rparr>),
     field saveg_read16 (\<lambda>v s. s\<lparr>li_special := v\<rparr>),
     field saveg_read16 (\<lambda>v s. s\<lparr>li_tag := v\<rparr>)]"

definition at_sector :: "nat \<Rightarrow> (sector \<times> save \<Rightarrow> sector \<times> save) \<Rightarrow> level \<times> save \<Rightarrow> level \<times> save" where
  "at_sector i = sub (\<lambda>lv. lv_sectors lv ! i) (\<lambda>s lv. lv\<lparr>lv_sectors := (lv_sectors lv)[i := s]\<rparr>)"

definition at_line :: "nat \<Rightarrow> (line \<times> save \<Rightarrow> line \<times> save) \<Rightarrow> level \<times> save \<Rightarrow> level \<times> save" where
  "at_line i = sub (\<lambda>lv. lv_lines lv ! i) (\<lambda>s lv. lv\<lparr>lv_lines := (lv_lines lv)[i := s]\<rparr>)"

definition at_side :: "nat \<Rightarrow> (side \<times> save \<Rightarrow> side \<times> save) \<Rightarrow> level \<times> save \<Rightarrow> level \<times> save" where
  "at_side i = sub (\<lambda>lv. lv_sides lv ! i) (\<lambda>s lv. lv\<lparr>lv_sides := (lv_sides lv)[i := s]\<rparr>)"

text \<open>The numbers of sectors, and the lines with their sides, which the loops do not change.\<close>

definition unarchive_world :: "nat \<Rightarrow> nat list list \<Rightarrow> level \<times> save \<Rightarrow> level \<times> save" where
  "unarchive_world numsectors linesides = stmts [
     array numsectors (\<lambda>i. at_sector i unarchive_sector),
     array (length linesides) (\<lambda>i. stmts [
       at_line i unarchive_line,
       stmts (map (\<lambda>j. at_side j unarchive_side) (linesides ! i))])]"

definition P_UnArchiveWorld :: "level \<times> save \<Rightarrow> (level \<times> save) res" where
  "P_UnArchiveWorld = (\<lambda>(lv, st).
     if \<not> sides_ok lv then Inl OutOfBounds
     else Inr (unarchive_world (length (lv_sectors lv)) (map sides_of (lv_lines lv)) (lv, st)))"

subsection \<open>Thinkers\<close>

text \<open>A walk over the thinkers from \<open>th\<close> to the end of the list, which does not change it.\<close>

partial_function (option) for_thinkers :: "(ptr \<Rightarrow> object \<Rightarrow> 's \<Rightarrow> 's res) \<Rightarrow> level \<Rightarrow> ptr \<Rightarrow> 's \<Rightarrow> 's res option" where
  "for_thinkers f lv th s =
     (if th = thinkercap then Some (Inr s)
      else case bindR (load th lv) (\<lambda>x. bindR (f th x s) (\<lambda>s. Inr (th_next (thinker_of x), s))) of
             Inl e \<Rightarrow> Some (Inl e)
           | Inr (th, s) \<Rightarrow> for_thinkers f lv th s)"

definition archive_all :: "(ptr \<Rightarrow> object \<Rightarrow> save \<Rightarrow> save res) \<Rightarrow> u8 \<Rightarrow> level \<Rightarrow> save \<Rightarrow> save res option" where
  "archive_all f marker lv st =
     (case load thinkercap lv of
        Inl e \<Rightarrow> Some (Inl e)
      | Inr cap \<Rightarrow> map_option (\<lambda>r. bindR r (\<lambda>st. Inr (saveg_write8 marker st))) (for_thinkers f lv (th_next (thinker_of cap)) st))"

text \<open>An object that is not what its function says is a bad pointer.\<close>

definition archive_thinker :: "ptr \<Rightarrow> object \<Rightarrow> save \<Rightarrow> save res" where
  "archive_thinker th x st =
     (if th_function (thinker_of x) = P_MobjThinker
      then case x of Mobj m \<Rightarrow> Inr (stmts [saveg_write8 tc_mobj, saveg_write_pad, saveg_write_mobj_t m] st)
                   | _ \<Rightarrow> Inl BadPointer
      else Inr st)"

definition P_ArchiveThinkers :: "level \<Rightarrow> save \<Rightarrow> save res option" where
  "P_ArchiveThinkers = archive_all archive_thinker tc_end"

partial_function (option) remove_thinkers :: "ptr \<Rightarrow> level \<Rightarrow> level res option" where
  "remove_thinkers currentthinker lv =
     (if currentthinker = thinkercap then Some (Inr lv)
      else case bindR (load currentthinker lv) (\<lambda>x.
                  bindR (if th_function (thinker_of x) = P_MobjThinker then P_RemoveMobj currentthinker lv
                         else Z_Free currentthinker lv) (\<lambda>lv. Inr (th_next (thinker_of x), lv))) of
             Inl e \<Rightarrow> Some (Inl e)
           | Inr (next, lv) \<Rightarrow> remove_thinkers next lv)"

definition set_player_mo :: "nat \<Rightarrow> ptr \<Rightarrow> level \<Rightarrow> level res" where
  "set_player_mo i p lv =
     (if i < length (lv_players lv)
      then Inr (lv\<lparr>lv_players := (lv_players lv)[i := (lv_players lv ! i)\<lparr>pl_mo := p\<rparr>]\<rparr>) else Inl OutOfBounds)"

text \<open>A thing that was read, once it is in memory.\<close>

definition place_mobj :: "ptr \<Rightarrow> level \<Rightarrow> level res" where
  "place_mobj mobj lv =
     bindR (P_SetThingPosition mobj lv) (\<lambda>lv.
     bindR (load_mobj mobj lv) (\<lambda>m.
     bindR (subsector_sector (unat (mo_subsector m)) lv) (\<lambda>sec.
     bindR (sector_at sec lv) (\<lambda>s.
     bindR (upd_mobj mobj (\<lambda>m. m\<lparr>mo_info := mo_type m, mo_floorz := sec_floorheight s, mo_ceilingz := sec_ceilingheight s,
                                mo_thinker := (mo_thinker m)\<lparr>th_function := P_MobjThinker\<rparr>\<rparr>) lv) (\<lambda>lv.
     P_AddThinker mobj lv)))))"

definition unarchive_mobj :: "fresh \<Rightarrow> level \<times> save \<Rightarrow> (level \<times> save) res" where
  "unarchive_mobj fr = (\<lambda>(lv, st).
     let st = saveg_read_pad st
     in bindR (Z_Malloc (\<lambda>p. Mobj (fresh_mobj fr p)) lv) (\<lambda>(mobj, lv).
        let (m, st) = saveg_read_mobj_t (fresh_mobj fr mobj, st)
        in bindR (case mo_player m of None \<Rightarrow> Inr lv | Some pl \<Rightarrow> set_player_mo (unat pl) mobj lv) (\<lambda>lv.
           bindR (place_mobj mobj (store mobj (Mobj (m\<lparr>mo_target := 0, mo_tracer := 0\<rparr>)) lv)) (\<lambda>lv.
           Inr (lv, st)))))"

text \<open>Reading until the marker: \<open>f\<close> gives the function for a class, if there is one.\<close>

partial_function (option) read_thinkers ::
    "(u8 \<Rightarrow> (level \<times> save \<Rightarrow> (level \<times> save) res) option) \<Rightarrow> u8 \<Rightarrow> level \<times> save \<Rightarrow> (level \<times> save) res option" where
  "read_thinkers f marker s =
     (case saveg_read8 (snd s) of (tclass, st) \<Rightarrow>
        if tclass = marker then Some (Inr (fst s, st))
        else case f tclass of
               None \<Rightarrow> Some (Inl IError)
             | Some unarchive \<Rightarrow>
                 (case unarchive (fst s, st) of
                    Inl e \<Rightarrow> Some (Inl e)
                  | Inr s \<Rightarrow> read_thinkers f marker s))"

definition thinker_class :: "fresh \<Rightarrow> u8 \<Rightarrow> (level \<times> save \<Rightarrow> (level \<times> save) res) option" where
  "thinker_class fr tclass = (if tclass = tc_mobj then Some (unarchive_mobj fr) else None)"

definition P_UnArchiveThinkers :: "fresh \<Rightarrow> level \<times> save \<Rightarrow> (level \<times> save) res option" where
  "P_UnArchiveThinkers fr = (\<lambda>(lv, st).
     case load thinkercap lv of
       Inl e \<Rightarrow> Some (Inl e)
     | Inr cap \<Rightarrow>
         (case remove_thinkers (th_next (thinker_of cap)) lv of
            None \<Rightarrow> None
          | Some (Inl e) \<Rightarrow> Some (Inl e)
          | Some (Inr lv) \<Rightarrow>
              (case P_InitThinkers lv of
                 Inl e \<Rightarrow> Some (Inl e)
               | Inr lv \<Rightarrow> read_thinkers (thinker_class fr) tc_end (lv, st))))"

subsection \<open>Special effects\<close>

definition archive_record :: "u8 \<Rightarrow> (save \<Rightarrow> save) \<Rightarrow> save \<Rightarrow> save" where
  "archive_record tc write = stmts [saveg_write8 tc, saveg_write_pad, write]"

definition archive_special :: "ptr list \<Rightarrow> ptr \<Rightarrow> object \<Rightarrow> save \<Rightarrow> save res" where
  "archive_special ceilings th x st =
     (let function = th_function (thinker_of x) in
      if function = 0 then
        (if th \<in> set ceilings
         then case x of Ceiling c \<Rightarrow> Inr (archive_record tc_ceiling (saveg_write_ceiling_t c) st) | _ \<Rightarrow> Inl BadPointer
         else Inr st)
      else if function = T_MoveCeiling then
        (case x of Ceiling c \<Rightarrow> Inr (archive_record tc_ceiling (saveg_write_ceiling_t c) st) | _ \<Rightarrow> Inl BadPointer)
      else if function = T_VerticalDoor then
        (case x of Door d \<Rightarrow> Inr (archive_record tc_door (saveg_write_vldoor_t d) st) | _ \<Rightarrow> Inl BadPointer)
      else if function = T_MoveFloor then
        (case x of Floor f \<Rightarrow> Inr (archive_record tc_floor (saveg_write_floormove_t f) st) | _ \<Rightarrow> Inl BadPointer)
      else if function = T_PlatRaise then
        (case x of Plat p \<Rightarrow> Inr (archive_record tc_plat (saveg_write_plat_t p) st) | _ \<Rightarrow> Inl BadPointer)
      else if function = T_LightFlash then
        (case x of Flash l \<Rightarrow> Inr (archive_record tc_flash (saveg_write_lightflash_t l) st) | _ \<Rightarrow> Inl BadPointer)
      else if function = T_StrobeFlash then
        (case x of Strobe l \<Rightarrow> Inr (archive_record tc_strobe (saveg_write_strobe_t l) st) | _ \<Rightarrow> Inl BadPointer)
      else if function = T_Glow then
        (case x of Glow l \<Rightarrow> Inr (archive_record tc_glow (saveg_write_glow_t l) st) | _ \<Rightarrow> Inl BadPointer)
      else Inr st)"

definition P_ArchiveSpecials :: "level \<Rightarrow> save \<Rightarrow> save res option" where
  "P_ArchiveSpecials lv = archive_all (archive_special (activeceilings lv)) tc_endspecials lv"

text \<open>
  An effect is read into new memory, told to its sector (\<open>hook\<close>), given its function and linked;
  \<open>active\<close> puts it on the list of its kind.
\<close>

definition unarchive_record :: "(ptr \<Rightarrow> 'r) \<Rightarrow> ('r \<times> save \<Rightarrow> 'r \<times> save) \<Rightarrow> ('r \<Rightarrow> object) \<Rightarrow> (thinker \<Rightarrow> thinker) \<Rightarrow>
    (ptr \<Rightarrow> 'r \<Rightarrow> level \<Rightarrow> level res) \<Rightarrow> (ptr \<Rightarrow> level \<Rightarrow> level res) \<Rightarrow> level \<times> save \<Rightarrow> (level \<times> save) res" where
  "unarchive_record fresh_at read mk function hook active = (\<lambda>(lv, st).
     let st = saveg_read_pad st
     in bindR (Z_Malloc (\<lambda>p. mk (fresh_at p)) lv) (\<lambda>(p, lv).
        let (r, st) = read (fresh_at p, st)
        in bindR (hook p r (store p (mk r) lv)) (\<lambda>lv.
           bindR (upd_thinker p function lv) (\<lambda>lv.
           bindR (P_AddThinker p lv) (\<lambda>lv.
           bindR (active p lv) (\<lambda>lv. Inr (lv, st)))))))"

definition sets_function :: "ptr \<Rightarrow> thinker \<Rightarrow> thinker" where
  "sets_function f t = t\<lparr>th_function := f\<rparr>"

definition sets_function_if :: "ptr \<Rightarrow> thinker \<Rightarrow> thinker" where
  "sets_function_if f t = (if th_function t \<noteq> 0 then t\<lparr>th_function := f\<rparr> else t)"

definition hook_ceiling :: "u32 \<Rightarrow> ptr \<Rightarrow> level \<Rightarrow> level res" where
  "hook_ceiling sec p = upd_sector (unat sec) (\<lambda>s. s\<lparr>sec_ceilingdata := p\<rparr>)"

definition hook_floor :: "u32 \<Rightarrow> ptr \<Rightarrow> level \<Rightarrow> level res" where
  "hook_floor sec p = upd_sector (unat sec) (\<lambda>s. s\<lparr>sec_floordata := p\<rparr>)"

definition no_active :: "ptr \<Rightarrow> level \<Rightarrow> level res" where
  "no_active p lv = Inr lv"

definition special_class :: "fresh \<Rightarrow> u8 \<Rightarrow> (level \<times> save \<Rightarrow> (level \<times> save) res) option" where
  "special_class fr tclass =
     (if tclass = tc_ceiling then Some (unarchive_record (fresh_ceiling fr) saveg_read_ceiling_t Ceiling (sets_function_if T_MoveCeiling)
        (\<lambda>p c. hook_ceiling (ceil_sector c) p) (\<lambda>p lv. Inr (P_AddActiveCeiling p lv)))
      else if tclass = tc_door then Some (unarchive_record (fresh_door fr) saveg_read_vldoor_t Door (sets_function T_VerticalDoor)
        (\<lambda>p d. hook_ceiling (door_sector d) p) no_active)
      else if tclass = tc_floor then Some (unarchive_record (fresh_floor fr) saveg_read_floormove_t Floor (sets_function T_MoveFloor)
        (\<lambda>p f. hook_floor (floor_sector f) p) no_active)
      else if tclass = tc_plat then Some (unarchive_record (fresh_plat fr) saveg_read_plat_t Plat (sets_function_if T_PlatRaise)
        (\<lambda>p pl. hook_floor (plat_sector pl) p) P_AddActivePlat)
      else if tclass = tc_flash then Some (unarchive_record (fresh_flash fr) saveg_read_lightflash_t Flash (sets_function T_LightFlash)
        (\<lambda>_ _ lv. Inr lv) no_active)
      else if tclass = tc_strobe then Some (unarchive_record (fresh_strobe fr) saveg_read_strobe_t Strobe (sets_function T_StrobeFlash)
        (\<lambda>_ _ lv. Inr lv) no_active)
      else if tclass = tc_glow then Some (unarchive_record (fresh_glow fr) saveg_read_glow_t Glow (sets_function T_Glow)
        (\<lambda>_ _ lv. Inr lv) no_active)
      else None)"

definition P_UnArchiveSpecials :: "fresh \<Rightarrow> level \<times> save \<Rightarrow> (level \<times> save) res option" where
  "P_UnArchiveSpecials fr = read_thinkers (special_class fr) tc_endspecials"

subsection \<open>Saving and loading a game\<close>

text \<open>A step that may fail, or not return, after one that may.\<close>

definition thenO :: "'a res option \<Rightarrow> ('a \<Rightarrow> 'b res option) \<Rightarrow> 'b res option" where
  "thenO r f = (case r of None \<Rightarrow> None | Some (Inl e) \<Rightarrow> Some (Inl e) | Some (Inr x) \<Rightarrow> f x)"

definition new_file :: "nat \<Rightarrow> save" where
  "new_file room = \<lparr>ss_data = [], ss_pos = 0, ss_room = room, savegame_error = False\<rparr>"

definition write_game :: "bytes \<Rightarrow> level \<Rightarrow> save \<Rightarrow> save res option" where
  "write_game description lv st =
     thenO (Some (P_WriteSaveGameHeader description lv st)) (\<lambda>st.
     let st = P_ArchivePlayers lv st in
     thenO (Some (P_ArchiveWorld lv st)) (\<lambda>st.
     thenO (P_ArchiveThinkers lv st) (\<lambda>st.
     thenO (P_ArchiveSpecials lv st) (\<lambda>st.
     Some (Inr (P_WriteSaveGameEOF st))))))"

text \<open>
  The file that \<open>G_DoSaveGame\<close> leaves under the name of the saved game: \<open>file\<close> is the one that was
  there, \<open>room\<close> what fits on the disk.
\<close>

definition G_DoSaveGame :: "bytes \<Rightarrow> bool \<Rightarrow> nat \<Rightarrow> level \<Rightarrow> bytes \<Rightarrow> bytes res option" where
  "G_DoSaveGame savedescription vanilla_savegame_limit room lv file =
     thenO (write_game savedescription lv (new_file room)) (\<lambda>st.
     if vanilla_savegame_limit \<and> SAVEGAMESIZE < ss_pos st then Some (Inl IError)
     else Some (Inr (ss_data st)))"

definition open_file :: "bytes \<Rightarrow> save" where
  "open_file file = \<lparr>ss_data = file, ss_pos = 0, ss_room = 0, savegame_error = False\<rparr>"

definition read_game :: "fresh \<Rightarrow> level \<times> save \<Rightarrow> (level \<times> save) res option" where
  "read_game fr s =
     thenO (Some (P_UnArchiveWorld (P_UnArchivePlayers s))) (\<lambda>s.
     thenO (P_UnArchiveThinkers fr s) (\<lambda>s.
     thenO (P_UnArchiveSpecials fr s) (\<lambda>(lv, st).
     case P_ReadSaveGameEOF st of (ok, st) \<Rightarrow> Some (if ok then Inr (lv, st) else Inl IError))))"

text \<open>
  \<open>G_InitNew\<close>, which loads the map of the header (\<open>gameskill\<close>, \<open>gameepisode\<close>, \<open>gamemap\<close>), is a parameter.
\<close>

definition G_DoLoadGame :: "(level \<Rightarrow> level) \<Rightarrow> fresh \<Rightarrow> bytes \<Rightarrow> level \<Rightarrow> level res option" where
  "G_DoLoadGame G_InitNew fr file lv =
     (case P_ReadSaveGameHeader (lv, open_file file) of
        Inl e \<Rightarrow> Some (Inl e)
      | Inr (False, lv, st) \<Rightarrow> Some (Inr lv)
      | Inr (True, lv, st) \<Rightarrow>
          let savedleveltime = leveltime lv;
              lv = (G_InitNew lv)\<lparr>leveltime := savedleveltime\<rparr>
          in map_option (\<lambda>r. bindR r (\<lambda>s. Inr (fst s))) (read_game fr (lv, st)))"

end
