(* ===== verification/P_Thinkers.thy ===== *)
theory P_Thinkers
  imports P_Things P_Archive
begin

text \<open>
  The list of thinkers: the ring through \<open>thinkercap\<close>, appending to it, walking it and emptying it,
  as loading a game does.
\<close>

definition th_nxt :: "level \<Rightarrow> ptr \<Rightarrow> ptr" where
  "th_nxt lv p = (case lv_objects lv p of None \<Rightarrow> 0 | Some x \<Rightarrow> th_next (thinker_of x))"

definition th_prv :: "level \<Rightarrow> ptr \<Rightarrow> ptr" where
  "th_prv lv p = (case lv_objects lv p of None \<Rightarrow> 0 | Some x \<Rightarrow> th_prev (thinker_of x))"

definition thinkers_ok :: "level \<Rightarrow> ptr list \<Rightarrow> bool" where
  "thinkers_ok lv T \<longleftrightarrow> ring (th_nxt lv) (th_prv lv) thinkercap T \<and> (\<forall>p \<in> set (thinkercap # T). p \<noteq> 0 \<and> lv_objects lv p \<noteq> None)"

definition object_at :: "level \<Rightarrow> ptr \<Rightarrow> object" where
  "object_at lv p = the (lv_objects lv p)"

lemma load_at: "p \<noteq> 0 \<Longrightarrow> lv_objects lv p = Some x \<Longrightarrow> load p lv = Inr x"
  by (simp add: load_def)

lemma upd_thinker_at:
  "p \<noteq> 0 \<Longrightarrow> lv_objects lv p = Some x \<Longrightarrow> upd_thinker p f lv = Inr (store p (set_thinker (f (thinker_of x)) x) lv)"
  by (simp add: upd_thinker_def load_at)

lemma objects_store [simp]: "lv_objects (store p x lv) = (lv_objects lv)(p \<mapsto> x)"
  by (simp add: store_def)

text \<open>An object, and the level, without the links of the thinkers.\<close>

definition no_thlinks :: "object \<Rightarrow> object" where
  "no_thlinks x = set_thinker ((thinker_of x)\<lparr>th_prev := 0, th_next := 0\<rparr>) x"

definition unthreaded :: "level \<Rightarrow> level" where
  "unthreaded lv = lv\<lparr>lv_objects := \<lambda>p. map_option no_thlinks (lv_objects lv p)\<rparr>"

lemma no_thlinks_set:
  "th_function t = th_function (thinker_of x) \<Longrightarrow> no_thlinks (set_thinker t x) = no_thlinks x"
proof -
  assume "th_function t = th_function (thinker_of x)"
  then have "t\<lparr>th_prev := 0, th_next := 0\<rparr> = (thinker_of x)\<lparr>th_prev := 0, th_next := 0\<rparr>" by (intro thinker.equality) simp_all
  then show ?thesis by (simp add: no_thlinks_def)
qed

lemma unthreaded_store:
  assumes "lv_objects lv p = Some x" "th_function t = th_function (thinker_of x)"
  shows "unthreaded (store p (set_thinker t x) lv) = unthreaded lv"
  using assms no_thlinks_set by (auto simp: unthreaded_def store_def fun_eq_iff)

lemma add_thinker_ok:
  assumes "thinkers_ok lv T" "a \<notin> set (thinkercap # T)" "a \<noteq> 0" "lv_objects lv a = Some x"
  obtains lv' where "P_AddThinker a lv = Inr lv'" "thinkers_ok lv' (T @ [a])" "unthreaded lv' = unthreaded lv"
proof -
  have r: "ring (th_nxt lv) (th_prv lv) thinkercap T" and some: "\<And>p. p \<in> set (thinkercap # T) \<Longrightarrow> p \<noteq> 0 \<and> lv_objects lv p \<noteq> None"
    using assms(1) by (auto simp: thinkers_ok_def)
  obtain c where c: "lv_objects lv thinkercap = Some c" using some [of thinkercap] by auto
  let ?l = "th_prev (thinker_of c)"
  have l: "th_prv lv thinkercap = ?l" by (simp add: th_prv_def c)
  have l_in: "?l \<in> set (thinkercap # T)" using ring_prev [OF r, of thinkercap] l by simp
  then obtain y where y: "lv_objects lv ?l = Some y" "?l \<noteq> 0" using some by blast
  have la: "?l \<noteq> a" "thinkercap \<noteq> a" "thinkercap \<noteq> 0" using l_in assms(2) some [of thinkercap] by auto
  let ?y = "set_thinker ((thinker_of y)\<lparr>th_next := a\<rparr>) y"
  let ?lv1 = "store ?l ?y lv"
  let ?x1 = "set_thinker ((thinker_of x)\<lparr>th_next := thinkercap\<rparr>) x"
  let ?lv2 = "store a ?x1 ?lv1"
  obtain c2 where c2: "lv_objects ?lv2 thinkercap = Some c2" "th_prev (thinker_of c2) = ?l"
    "th_function (thinker_of c2) = th_function (thinker_of c)"
    using c la y by (cases "?l = thinkercap") auto
  let ?x2 = "set_thinker ((thinker_of ?x1)\<lparr>th_prev := ?l\<rparr>) ?x1"
  let ?lv3 = "store a ?x2 ?lv2"
  have c3: "lv_objects ?lv3 thinkercap = Some c2" using c2 la by simp
  let ?lv4 = "store thinkercap (set_thinker ((thinker_of c2)\<lparr>th_prev := a\<rparr>) c2) ?lv3"
  have run: "P_AddThinker a lv = Inr ?lv4"
    unfolding P_AddThinker_def using assms(3,4) c y la c2 c3
    by (simp add: load_at [OF la(3) c] upd_thinker_at [OF y(2,1)] load_at [OF la(3)] upd_thinker_at)
  have x1: "lv_objects ?lv1 a = Some x" using assms(4) la by simp
  have "unthreaded ?lv4 = unthreaded ?lv3" by (rule unthreaded_store [OF c3]) simp
  also have "\<dots> = unthreaded ?lv2" by (rule unthreaded_store) simp_all
  also have "\<dots> = unthreaded ?lv1" by (rule unthreaded_store [OF x1]) simp
  also have "\<dots> = unthreaded lv" by (rule unthreaded_store [OF y(1)]) simp
  finally have u: "unthreaded ?lv4 = unthreaded lv" .
  have "ring ((th_nxt lv)(th_prv lv thinkercap := a, a := thinkercap)) ((th_prv lv)(a := th_prv lv thinkercap, thinkercap := a)) thinkercap (T @ [a])"
    by (rule ring_end [OF r assms(2)])
  moreover have "th_nxt ?lv4 = (th_nxt lv)(th_prv lv thinkercap := a, a := thinkercap)"
    unfolding l using c2 c y la by (auto simp: th_nxt_def fun_eq_iff)
  moreover have "th_prv ?lv4 = (th_prv lv)(a := th_prv lv thinkercap, thinkercap := a)"
    unfolding l using c2 c y la by (auto simp: th_prv_def fun_eq_iff)
  ultimately have "thinkers_ok ?lv4 (T @ [a])" using some assms(3) by (auto simp: thinkers_ok_def)
  then show ?thesis using that run u by blast
qed

text \<open>What does not change a thinker keeps the list.\<close>

lemma thinkers_ok_cong:
  assumes "\<And>p. map_option thinker_of (lv_objects lv' p) = map_option thinker_of (lv_objects lv p)"
  shows "thinkers_ok lv' T = thinkers_ok lv T"
proof -
  have eq: "th_nxt lv p = (case map_option thinker_of (lv_objects lv p) of None \<Rightarrow> 0 | Some t \<Rightarrow> th_next t)"
    "th_prv lv p = (case map_option thinker_of (lv_objects lv p) of None \<Rightarrow> 0 | Some t \<Rightarrow> th_prev t)" for lv p
    by (simp_all add: th_nxt_def th_prv_def split: option.split)
  have "th_nxt lv' = th_nxt lv" by (rule ext) (simp only: eq(1) assms)
  moreover have "th_prv lv' = th_prv lv" by (rule ext) (simp only: eq(2) assms)
  moreover have "lv_objects lv' p = None \<longleftrightarrow> lv_objects lv p = None" for p using assms [of p] by (metis option.map_disc_iff)
  ultimately show ?thesis by (simp add: thinkers_ok_def)
qed

subsection \<open>Walking the list\<close>

lemma thinkers_ok_walk:
  assumes "thinkers_ok lv T" "T = us @ q # vs"
  shows "q \<noteq> thinkercap" "q \<noteq> 0" "lv_objects lv q = Some (object_at lv q)" "th_next (thinker_of (object_at lv q)) = hd (vs @ [thinkercap])"
proof -
  have d: "dseg (th_nxt lv) (th_prv lv) thinkercap (us @ q # vs) thinkercap" "distinct (thinkercap # us @ q # vs)"
    using assms by (simp_all add: thinkers_ok_def ring_def)
  then show "q \<noteq> thinkercap" by auto
  have some: "q \<noteq> 0 \<and> lv_objects lv q \<noteq> None" using assms by (simp add: thinkers_ok_def)
  then show "q \<noteq> 0" and q: "lv_objects lv q = Some (object_at lv q)" by (auto simp: object_at_def)
  have "th_nxt lv q = hd (vs @ [thinkercap])" using d(1) dseg_next [of "th_nxt lv" "th_prv lv" q vs thinkercap] by (simp add: dseg_append)
  then show "th_next (thinker_of (object_at lv q)) = hd (vs @ [thinkercap])" by (simp add: th_nxt_def q)
qed

lemma for_thinkers_walk:
  assumes "thinkers_ok lv T"
  shows "T = us @ vs \<Longrightarrow> for_thinkers f lv (hd (vs @ [thinkercap])) s = Some (foldR (\<lambda>p. f p (object_at lv p)) vs s)"
proof (induction vs arbitrary: us s)
  case Nil
  then show ?case by (subst for_thinkers.simps) simp
next
  case (Cons q vs)
  note q = thinkers_ok_walk [OF assms Cons.prems]
  show ?case
  proof (cases "f q (object_at lv q) s")
    case (Inl e)
    then show ?thesis using q by (subst for_thinkers.simps) (simp add: load_at)
  next
    case (Inr s')
    have "T = (us @ [q]) @ vs" using Cons.prems by simp
    from Cons.IH [OF this] Inr q show ?thesis by (subst for_thinkers.simps) (simp add: load_at)
  qed
qed

lemma archive_all_walk:
  assumes "thinkers_ok lv T"
  shows "archive_all f marker lv st = Some (bindR (foldR (\<lambda>p. f p (object_at lv p)) T st) (\<lambda>st. Inr (saveg_write8 marker st)))"
proof -
  have c: "thinkercap \<noteq> 0" "lv_objects lv thinkercap = Some (object_at lv thinkercap)"
    using assms by (auto simp: thinkers_ok_def object_at_def)
  have "dseg (th_nxt lv) (th_prv lv) thinkercap T thinkercap" using assms by (simp add: thinkers_ok_def ring_def)
  then have "th_nxt lv thinkercap = hd (T @ [thinkercap])" by (rule dseg_next)
  then have "th_next (thinker_of (object_at lv thinkercap)) = hd (T @ [thinkercap])" by (simp add: th_nxt_def c(2))
  then show ?thesis using for_thinkers_walk [OF assms, of "[]" T f st] by (simp add: archive_all_def load_at [OF c])
qed

subsection \<open>Removing all of them\<close>

definition que_ok :: "level \<Rightarrow> bool" where
  "que_ok lv \<longleftrightarrow> length (itemrespawnque lv) = ITEMQUESIZE \<and> unat (iquehead lv) < ITEMQUESIZE"

text \<open>The level without its objects, its lists and the queue of items to respawn.\<close>

definition emptied :: "level \<Rightarrow> level" where
  "emptied lv = (unlinked lv)\<lparr>lv_objects := Map.empty, itemrespawnque := [], iquehead := 0, iquetail := 0\<rparr>"

definition unlinked_object :: "object \<Rightarrow> object" where
  "unlinked_object x = on_mobj no_slinks (on_mobj no_blinks x)"

lemma unlinked_object_thinker [simp]: "thinker_of (unlinked_object x) = thinker_of x"
  by (simp add: unlinked_object_def)

lemma objects_unlinked: "lv_objects (unlinked lv) p = map_option unlinked_object (lv_objects lv p)"
  by (simp add: unlinked_def sector_unlinked_def block_unlinked_def option.map_comp comp_def unlinked_object_def [abs_def])

lemma unlinked_objects_eq: "unlinked lv' = unlinked lv \<Longrightarrow> map_option unlinked_object (lv_objects lv' p) = map_option unlinked_object (lv_objects lv p)"
  by (metis objects_unlinked)

lemma thinker_of_unlinked: "map_option unlinked_object x = map_option unlinked_object y \<Longrightarrow> map_option thinker_of x = map_option thinker_of y"
  by (rule map_option_through [where f = unlinked_object and h = thinker_of]) simp_all

lemma emptied_step: "unlinked lv' = unlinked lv \<Longrightarrow> emptied lv' = emptied lv"
  by (simp add: emptied_def)

lemma emptied_store [simp]: "emptied (store p x lv) = emptied lv"
  by (simp add: emptied_def unlinked_def sector_unlinked_def block_unlinked_def store_def)

lemma que_head: "unat ((w + 1) AND (of_nat ITEMQUESIZE - 1) :: u32) < ITEMQUESIZE"
proof -
  have "(of_nat ITEMQUESIZE - 1 :: u32) = mask 7" by (simp add: ITEMQUESIZE_def mask_eq_exp_minus_1)
  then have "((w + 1) AND (of_nat ITEMQUESIZE - 1) :: u32) = take_bit 7 (w + 1)" by (simp add: take_bit_eq_mask)
  then show ?thesis using take_bit_nat_less_exp [of 7 "unat (w + 1)"] by (simp add: ITEMQUESIZE_def unsigned_take_bit_eq)
qed

lemma mobj_object: "mobj_at lv a = Some m \<Longrightarrow> lv_objects lv a = Some (Mobj m)"
  by (auto simp: mobj_at_def split: option.splits object.splits)

text \<open>What depends on the queue only.\<close>

lemma queue_irrelevant:
  assumes "lv' = lv\<lparr>itemrespawnque := q, iquehead := h, iquetail := t\<rparr>"
  shows "things_ok A S B lv' = things_ok A S B lv" "map_ok lv' = map_ok lv" "emptied lv' = emptied lv"
    "lv_objects lv' = lv_objects lv" "mobj_at lv' = mobj_at lv" "lv_next lv' = lv_next lv"
proof -
  have [simp]: "lv_objects lv' = lv_objects lv" "lv_sectors lv' = lv_sectors lv" "blocklinks lv' = blocklinks lv"
    "lv_subsectors lv' = lv_subsectors lv" "lv_nodes lv' = lv_nodes lv" "bmapwidth lv' = bmapwidth lv" "bmapheight lv' = bmapheight lv"
    "bmaporgx lv' = bmaporgx lv" "bmaporgy lv' = bmaporgy lv" "lv_next lv' = lv_next lv"
    by (simp_all add: assms)
  show ob: "lv_objects lv' = lv_objects lv" "lv_next lv' = lv_next lv" by simp_all
  show at: "mobj_at lv' = mobj_at lv" by (simp add: mobj_at_def fun_eq_iff)
  have [simp]: "block_of x y lv' = block_of x y lv" "subsector_sector ss lv' = subsector_sector ss lv" for x y ss
    by (simp_all add: block_of_def Let_def subsector_sector_def split: if_split)
  show "things_ok A S B lv' = things_ok A S B lv"
    by (simp add: things_ok_def sector_lists_def block_lists_def at thing_ok_def in_sector_def in_block_def)
  show "map_ok lv' = map_ok lv" by (simp add: map_ok_def bsp_ok_def blockmap_ok_def)
  show "emptied lv' = emptied lv" by (simp add: assms emptied_def unlinked_def sector_unlinked_def block_unlinked_def)
qed

lemma objects_irrelevant:
  assumes "lv' = lv\<lparr>lv_objects := f\<rparr>"
  shows "map_ok lv' \<longleftrightarrow> map_ok lv" "que_ok lv' \<longleftrightarrow> que_ok lv" "emptied lv' = emptied lv"
  unfolding assms
  by (simp add: map_ok_def bsp_ok_def blockmap_ok_def, simp add: que_ok_def,
    simp add: emptied_def unlinked_def sector_unlinked_def block_unlinked_def)

lemma remove_mobj_ok:
  assumes "things_ok A S B lv" "map_ok lv" "que_ok lv" "a \<in> A" "mobj_at lv a = Some m"
  obtains lv' S' B' where "P_RemoveMobj a lv = Inr lv'" "things_ok (A - {a}) S' B' lv'" "map_ok lv'" "que_ok lv'" "emptied lv' = emptied lv"
    "\<And>p. p \<noteq> a \<Longrightarrow> map_option unlinked_object (lv_objects lv' p) = map_option unlinked_object (lv_objects lv p)" "lv_objects lv' a \<noteq> None"
proof -
  have a0: "a \<noteq> 0" using assms(1,4) by (auto simp: things_ok_def)
  let ?q = "mo_flags m AND MF_SPECIAL \<noteq> 0 \<and> mo_flags m AND MF_DROPPED = 0 \<and> mo_type m \<noteq> MT_INV \<and> mo_type m \<noteq> MT_INS"
  let ?lv0 = "lv\<lparr>itemrespawnque := (itemrespawnque lv)[unat (iquehead lv) := (mo_spawnpoint m, leveltime lv)],
    iquehead := (iquehead lv + 1) AND (of_nat ITEMQUESIZE - 1)\<rparr>"
  define lv1 where "lv1 = (if ?q then (if iquehead ?lv0 = iquetail ?lv0
      then ?lv0\<lparr>iquetail := (iquetail ?lv0 + 1) AND (of_nat ITEMQUESIZE - 1)\<rparr> else ?lv0) else lv)"
  have "\<exists>q h t. lv1 = lv\<lparr>itemrespawnque := q, iquehead := h, iquetail := t\<rparr>"
    by (cases ?q; cases "iquehead ?lv0 = iquetail ?lv0"; simp only: lv1_def if_True if_False; intro exI) (rule level.equality; simp)+
  then obtain q h t where lv1: "lv1 = lv\<lparr>itemrespawnque := q, iquehead := h, iquetail := t\<rparr>" by blast
  note irr = queue_irrelevant [OF lv1]
  have que: "que_ok lv1" using assms(3) que_head [of "iquehead lv"] by (auto simp: que_ok_def lv1_def)
  have ok1: "things_ok A S B lv1" "map_ok lv1" "mobj_at lv1 a = Some m" using assms irr by simp_all
  obtain lv2 S' B' where lv2: "P_UnsetThingPosition a lv1 = Inr lv2" "things_ok (A - {a}) S' B' lv2" "unlinked lv2 = unlinked lv1"
    by (rule unset_position_ok [OF ok1(1,2) assms(4) ok1(3)])
  have eq2: "map_option unlinked_object (lv_objects lv2 p) = map_option unlinked_object (lv_objects lv p)" for p
    using unlinked_objects_eq [OF lv2(3)] irr(4) by simp
  obtain x where x: "lv_objects lv2 a = Some x" using eq2 [of a] mobj_object [OF assms(5)] by auto
  let ?lv3 = "store a (set_thinker ((thinker_of x)\<lparr>th_function := - 1\<rparr>) x) lv2"
  show ?thesis
  proof
    have "P_RemoveMobj a lv = bindR (P_UnsetThingPosition a lv1) (P_RemoveThinker a)"
      using assms(3) by (simp add: P_RemoveMobj_def load_mobj_at [OF a0 assms(5)] lv1_def que_ok_def Let_def not_le)
    then show "P_RemoveMobj a lv = Inr ?lv3" using lv2(1) by (simp add: P_RemoveThinker_def upd_thinker_at [OF a0 x])
    show "things_ok (A - {a}) S' B' ?lv3" by (rule things_ok_store [OF lv2(2)]) simp
    show "map_ok ?lv3" using ok1(2) same_map(6) [OF lv2(3)] by simp
    have "itemrespawnque (unlinked lv) = itemrespawnque lv" "iquehead (unlinked lv) = iquehead lv" for lv
      by (simp_all add: unlinked_def sector_unlinked_def block_unlinked_def)
    then have "itemrespawnque lv2 = itemrespawnque lv1" "iquehead lv2 = iquehead lv1" using lv2(3) by metis+
    then show "que_ok ?lv3" using que by (simp add: que_ok_def store_def)
    show "emptied ?lv3 = emptied lv" using emptied_step [OF lv2(3)] irr(3) by simp
    show "map_option unlinked_object (lv_objects ?lv3 p) = map_option unlinked_object (lv_objects lv p)" if "p \<noteq> a" for p
      using eq2 that by simp
  qed simp
qed

text \<open>The things that are alive; an object whose function is that of things is one.\<close>

definition live :: "level \<Rightarrow> ptr \<Rightarrow> bool" where
  "live lv p \<longleftrightarrow> th_function (thinker_of (object_at lv p)) = P_MobjThinker"

text \<open>
  The level that loading starts from: its lists are sound, and the things alive are those in the lists.
\<close>

definition level_ok :: "level \<Rightarrow> ptr list \<Rightarrow> (nat \<Rightarrow> ptr list) \<Rightarrow> (nat \<Rightarrow> ptr list) \<Rightarrow> bool" where
  "level_ok lv T S B \<longleftrightarrow> thinkers_ok lv T \<and> things_ok {p \<in> set T. live lv p} S B lv \<and> map_ok lv \<and> que_ok lv
     \<and> (\<forall>p. lv_objects lv p \<noteq> None \<longrightarrow> unat p < unat (lv_next lv))"

lemma remove_thinkers_ok:
  assumes "thinkers_ok lv0 T" "T = us @ vs" "things_ok {p \<in> set vs. live lv0 p} S B lv" "map_ok lv" "que_ok lv"
    "\<And>p. p \<in> set (thinkercap # vs) \<Longrightarrow> map_option unlinked_object (lv_objects lv p) = map_option unlinked_object (lv_objects lv0 p)"
  shows "\<exists>lv' S' B'. remove_thinkers (hd (vs @ [thinkercap])) lv = Some (Inr lv') \<and> things_ok {} S' B' lv' \<and> map_ok lv' \<and> que_ok lv'
    \<and> emptied lv' = emptied lv \<and> dom (lv_objects lv') \<subseteq> dom (lv_objects lv) \<and> lv_objects lv' thinkercap \<noteq> None"
  using assms(2-6)
proof (induction vs arbitrary: us lv S B)
  case Nil
  have "lv_objects lv0 thinkercap \<noteq> None" using assms(1) by (simp add: thinkers_ok_def)
  then have "lv_objects lv thinkercap \<noteq> None" using Nil.prems(5) [of thinkercap] by (auto simp: map_option_case split: option.splits)
  then show ?case using Nil.prems by (subst remove_thinkers.simps) auto
next
  case (Cons q vs)
  note q = thinkers_ok_walk [OF assms(1) Cons.prems(1)]
  have dist: "q \<notin> set vs" "thinkercap \<notin> set (q # vs)" using assms(1) Cons.prems(1) by (auto simp: thinkers_ok_def ring_def)
  obtain x where x: "lv_objects lv q = Some x" "unlinked_object x = unlinked_object (object_at lv0 q)"
    using Cons.prems(5) [of q] q(3) by auto
  then have th: "thinker_of x = thinker_of (object_at lv0 q)" by (metis unlinked_object_thinker)
  have T: "T = (us @ [q]) @ vs" using Cons.prems(1) by simp
  obtain lv1 S1 B1 where lv1: "(if th_function (thinker_of x) = P_MobjThinker then P_RemoveMobj q lv else Z_Free q lv) = Inr lv1"
    "things_ok {p \<in> set vs. live lv0 p} S1 B1 lv1" "map_ok lv1" "que_ok lv1" "emptied lv1 = emptied lv"
    "\<And>p. p \<noteq> q \<Longrightarrow> map_option unlinked_object (lv_objects lv1 p) = map_option unlinked_object (lv_objects lv p)"
    "dom (lv_objects lv1) \<subseteq> dom (lv_objects lv)"
  proof (cases "live lv0 q")
    case True
    then have A: "q \<in> {p \<in> set (q # vs). live lv0 p}" and rm: "{p \<in> set (q # vs). live lv0 p} - {q} = {p \<in> set vs. live lv0 p}"
      using dist by auto
    obtain m where m: "mobj_at lv q = Some m" using Cons.prems(2) A by (auto simp: things_ok_def)
    obtain lv' S' B' where r: "P_RemoveMobj q lv = Inr lv'" "things_ok {p \<in> set vs. live lv0 p} S' B' lv'" "map_ok lv'" "que_ok lv'"
      "emptied lv' = emptied lv" "\<And>p. p \<noteq> q \<Longrightarrow> map_option unlinked_object (lv_objects lv' p) = map_option unlinked_object (lv_objects lv p)" "lv_objects lv' q \<noteq> None"
      by (rule remove_mobj_ok [OF Cons.prems(2-4) A m, unfolded rm]) blast
    have "dom (lv_objects lv') \<subseteq> dom (lv_objects lv)"
    proof
      fix p assume "p \<in> dom (lv_objects lv')"
      then show "p \<in> dom (lv_objects lv)" using r(6) [of p] x(1) by (cases "p = q") (auto simp: map_option_case split: option.splits)
    qed
    moreover have "(if th_function (thinker_of x) = P_MobjThinker then P_RemoveMobj q lv else Z_Free q lv) = Inr lv'"
      using True th r(1) by (simp add: live_def)
    ultimately show ?thesis using that [of lv' S' B'] r(2-6) by blast
  next
    case False
    let ?lv = "lv\<lparr>lv_objects := (lv_objects lv)(q := None)\<rparr>"
    have same: "{p \<in> set (q # vs). live lv0 p} = {p \<in> set vs. live lv0 p}" using False by auto
    have "things_ok {p \<in> set vs. live lv0 p} S B ?lv" 
      by (rule things_ok_objects [OF Cons.prems(2) [unfolded same] _ refl]) (use dist in blast)
    moreover have "map_ok ?lv" "que_ok ?lv" "emptied ?lv = emptied lv" using Cons.prems(3,4) objects_irrelevant [OF refl, where lv = lv] by blast+
    moreover have "(if th_function (thinker_of x) = P_MobjThinker then P_RemoveMobj q lv else Z_Free q lv) = Inr ?lv"
      using False th load_at [OF q(2) x(1)] by (simp add: live_def Z_Free_def)
    moreover have "dom (lv_objects ?lv) \<subseteq> dom (lv_objects lv)" by auto
    moreover have "map_option unlinked_object (lv_objects ?lv p) = map_option unlinked_object (lv_objects lv p)" if "p \<noteq> q" for p
      using that by simp
    ultimately show ?thesis using that [of ?lv S B] by blast
  qed
  have eq1: "map_option unlinked_object (lv_objects lv1 p) = map_option unlinked_object (lv_objects lv0 p)" if "p \<in> set (thinkercap # vs)" for p
    using lv1(6) [of p] Cons.prems(5) [of p] that dist by auto
  have "remove_thinkers (hd ((q # vs) @ [thinkercap])) lv = remove_thinkers (hd (vs @ [thinkercap])) lv1"
    using q lv1(1) th by (subst remove_thinkers.simps) (simp add: load_at [OF q(2) x(1)] split: if_splits)
  moreover obtain lv' S' B' where ih: "remove_thinkers (hd (vs @ [thinkercap])) lv1 = Some (Inr lv')" "things_ok {} S' B' lv'" "map_ok lv'"
    "que_ok lv'" "emptied lv' = emptied lv1" "dom (lv_objects lv') \<subseteq> dom (lv_objects lv1)" "lv_objects lv' thinkercap \<noteq> None"
    using Cons.IH [OF T lv1(2-4) eq1] by blast
  ultimately show ?case using lv1(5) subset_trans [OF ih(6) lv1(7)]
    by (intro exI [of _ lv'] exI [of _ S'] exI [of _ B']) (simp only: ih simp_thms)
qed

text \<open>The whole of the removal: no thinkers, and no things in any list, are left.\<close>

lemma clear_thinkers_ok:
  assumes "level_ok lv T S B"
  shows "\<exists>lv1 lv2 S' B'. remove_thinkers (th_next (thinker_of (object_at lv thinkercap))) lv = Some (Inr lv1)
    \<and> P_InitThinkers lv1 = Inr lv2 \<and> level_ok lv2 [] S' B' \<and> emptied lv2 = emptied lv"
proof -
  let ?A = "{p \<in> set T. live lv p}"
  have ok: "thinkers_ok lv T" "things_ok ?A S B lv" "map_ok lv" "que_ok lv" and heap: "\<And>p. lv_objects lv p \<noteq> None \<Longrightarrow> unat p < unat (lv_next lv)"
    using assms by (auto simp: level_ok_def)
  have c: "thinkercap \<noteq> 0" "lv_objects lv thinkercap = Some (object_at lv thinkercap)"
    using ok(1) by (auto simp: thinkers_ok_def object_at_def)
  have "dseg (th_nxt lv) (th_prv lv) thinkercap T thinkercap" using ok(1) by (simp add: thinkers_ok_def ring_def)
  then have "th_nxt lv thinkercap = hd (T @ [thinkercap])" by (rule dseg_next)
  then have hd: "th_next (thinker_of (object_at lv thinkercap)) = hd (T @ [thinkercap])" by (simp add: th_nxt_def c(2))
  obtain lv1 S1 B1 where lv1: "remove_thinkers (hd (T @ [thinkercap])) lv = Some (Inr lv1)" "things_ok {} S1 B1 lv1" "map_ok lv1" "que_ok lv1"
    "emptied lv1 = emptied lv" "dom (lv_objects lv1) \<subseteq> dom (lv_objects lv)" "lv_objects lv1 thinkercap \<noteq> None"
    using remove_thinkers_ok [OF ok(1) _ ok(2-4), of "[]"] by auto
  obtain y where y: "lv_objects lv1 thinkercap = Some y" using lv1(7) by auto
  let ?lv2 = "store thinkercap (set_thinker ((thinker_of y)\<lparr>th_prev := thinkercap, th_next := thinkercap\<rparr>) y) lv1"
  have "P_InitThinkers lv1 = Inr ?lv2" by (simp add: P_InitThinkers_def upd_thinker_at [OF c(1) y])
  moreover have "level_ok ?lv2 [] S1 B1"
    unfolding level_ok_def
  proof (intro conjI allI impI)
    show "thinkers_ok ?lv2 []" using c(1) by (simp add: thinkers_ok_def ring_def th_nxt_def th_prv_def)
    show "things_ok {p \<in> set []. live ?lv2 p} S1 B1 ?lv2" using things_ok_store [OF lv1(2)] by simp
    show "map_ok ?lv2" using lv1(3) by simp
    show "que_ok ?lv2" using lv1(4) by (simp add: que_ok_def store_def)
    have nx: "lv_next ?lv2 = lv_next lv"
      using arg_cong [OF lv1(5), of lv_next] by (simp add: emptied_def unlinked_def sector_unlinked_def block_unlinked_def store_def)
    fix p assume "lv_objects ?lv2 p \<noteq> None"
    then have "lv_objects lv p \<noteq> None" using lv1(6) c(2) by (cases "p = thinkercap") auto
    then show "unat p < unat (lv_next ?lv2)" using heap nx by simp
  qed
  moreover have "emptied ?lv2 = emptied lv" using lv1(5) by simp
  ultimately show ?thesis using lv1(1) hd by metis
qed

end
