(* ===== verification/P_Archive_World.thy ===== *)
theory P_Archive_World
  imports P_Archive P_Saveg_Codec
begin

text \<open>
  The parts of a saved game of fixed shape, as codecs: the header, the players and the world. What a
  field is after loading is spelled out, with what is not saved kept from the level that was there.
\<close>

subsection \<open>More codecs\<close>

lemma codec_assign [codecs]:
  assumes "codec (stmts []) (stmts rs) h"
  shows "codec (stmts []) (stmts (assign f # rs)) (\<lambda>x. h (f x))"
  unfolding codec_def
proof (intro conjI allI)
  show "keeps_error (stmts [])" using assms by (simp add: codec_def)
  fix p
  obtain bs where bs: "writes p (stmts []) bs" "reads p (stmts rs) h bs" using assms by (auto simp: codec_def)
  have "reads p (stmts (assign f # rs)) (\<lambda>x. h (f x)) bs"
    using bs(2) by (simp add: reads_def stmts_simps assign_def)
  then show "\<exists>bs. writes p (stmts []) bs \<and> reads p (stmts (assign f # rs)) (\<lambda>x. h (f x)) bs" using bs(1) by blast
qed

lemma codec_pad_stream [codecs]: "codec saveg_write_pad (on_stream saveg_read_pad) (\<lambda>x. x)"
  using codec_pad by (simp add: on_stream_def)

lemma codec_skip: "codec (\<lambda>st. st) (\<lambda>s. s) (\<lambda>x. x)"
  using codec_Nil by (simp add: stmts_Nil)

lemma codec_map [codecs]:
  assumes "\<And>j. j \<in> set js \<Longrightarrow> codec (w j) (r j) (g j)"
  shows "codec (stmts (map w js)) (stmts (map r js)) (stmts (map g js))"
  using codec_list [of "map w js" "map (\<lambda>j. (r j, g j)) js"] assms
  by (auto simp: list_all2_conv_all_nth comp_def)

lemma codec_fixed16 [codecs]:
  "codec (saveg_write16 (ucast (signed_drop_bit FRACBITS v))) (read_fixed16 put) (put (v AND NOT (mask FRACBITS)))"
proof -
  have "push_bit FRACBITS (scast (ucast (signed_drop_bit FRACBITS v) :: u16)) = v AND NOT (mask FRACBITS)"
  proof (rule bit_word_eqI)
    fix n assume "n < LENGTH(32)"
    then show "bit (push_bit FRACBITS (scast (ucast (signed_drop_bit FRACBITS v) :: u16) :: u32)) n = bit (v AND NOT (mask FRACBITS)) n"
      by (cases "n = 31") (auto simp: bit_simps FRACBITS_def min_def)
  qed
  then show ?thesis using codec_field [OF vcodec_16, of "ucast (signed_drop_bit FRACBITS v)" "\<lambda>v. put (push_bit FRACBITS (scast v))"]
    by (simp add: read_fixed16_def)
qed

text \<open>A loop that changes the elements of an array one by one.\<close>

lemma array_update:
  assumes put: "\<And>y z s. put y (put z s) = put y s" "\<And>y s. get (put y s) = y" "\<And>s. put (get s) s = s"
    and n: "n \<le> length (get x)"
  shows "array n (\<lambda>i s. put ((get s)[i := h i (get s ! i)]) s) x = put (map (\<lambda>i. h i (get x ! i)) [0..<n] @ drop n (get x)) x"
  using n
proof (induction n)
  case 0
  then show ?case by (simp add: array_def stmts_simps put(3))
next
  case (Suc n)
  let ?xs = "map (\<lambda>i. h i (get x ! i)) [0..<n] @ drop n (get x)"
  have "?xs[n := h n (?xs ! n)] = map (\<lambda>i. h i (get x ! i)) [0..<Suc n] @ drop (Suc n) (get x)"
    using Suc.prems by (intro nth_equalityI) (auto simp: nth_list_update nth_append less_Suc_eq)
  then show ?case using Suc by (simp add: array_Suc put(1,2))
qed

subsection \<open>Players\<close>

text \<open>The player \<open>p\<close>, loaded over the player \<open>x\<close>.\<close>

definition loaded_player :: "player \<Rightarrow> player \<Rightarrow> player" where
  "loaded_player p x = p\<lparr>pl_cmd := (pl_cmd p)\<lparr>buttons2 := buttons2 (pl_cmd x), inventory := inventory (pl_cmd x),
     lookfly := lookfly (pl_cmd x), arti := arti (pl_cmd x)\<rparr>, pl_mo := 0, pl_message := 0, pl_attacker := 0\<rparr>"

definition loaded_players :: "level \<Rightarrow> player list \<Rightarrow> player list" where
  "loaded_players lv xs = map (\<lambda>i. if lv_playeringame lv ! i = 0 then xs ! i else loaded_player (lv_players lv ! i) (xs ! i)) [0..<MAXPLAYERS]"

definition players_ok :: "level \<Rightarrow> bool" where
  "players_ok lv \<longleftrightarrow> length (lv_players lv) = MAXPLAYERS \<and> length (lv_playeringame lv) = MAXPLAYERS \<and> list_all player_ok (lv_players lv)"

definition players_savable :: "level \<Rightarrow> bool" where
  "players_savable lv \<longleftrightarrow> (\<forall>i < MAXPLAYERS. lv_playeringame lv ! i \<noteq> 0 \<longrightarrow> savable_player (lv_players lv ! i))"

lemma codec_one_player:
  assumes "savable_player p"
  shows "\<exists>g. codec (stmts [saveg_write_pad, saveg_write_player_t p])
     (stmts [on_stream saveg_read_pad, saveg_read_player_t, assign (\<lambda>p. p\<lparr>pl_mo := 0, pl_message := 0, pl_attacker := 0\<rparr>)]) g
     \<and> (\<forall>x. player_ok x \<longrightarrow> g x = loaded_player p x)"
proof -
  obtain g where g: "codec (saveg_write_player_t p) saveg_read_player_t g" "\<And>x. player_ok x \<Longrightarrow> g x =
     p\<lparr>pl_cmd := (pl_cmd p)\<lparr>buttons2 := buttons2 (pl_cmd x), inventory := inventory (pl_cmd x),
        lookfly := lookfly (pl_cmd x), arti := arti (pl_cmd x)\<rparr>\<rparr>"
    using codec_player [OF assms] by blast
  let ?clear = "\<lambda>p :: player. p\<lparr>pl_mo := 0, pl_message := 0, pl_attacker := 0\<rparr>"
  have "codec (stmts []) (stmts [assign ?clear]) ?clear" using codec_assign [OF codec_Nil, of ?clear] .
  note codec_Cons [OF codec_pad_stream codec_Cons [OF g(1) this]]
  moreover have "?clear (g x) = loaded_player p x" if "player_ok x" for x using g(2) [OF that] by (simp add: loaded_player_def)
  ultimately show ?thesis by blast
qed

lemma codec_players:
  assumes "players_savable lv"
  shows "\<exists>g. codec (P_ArchivePlayers lv) (unarchive_players (lv_playeringame lv)) g
    \<and> (\<forall>x. players_ok x \<longrightarrow> g x = x\<lparr>lv_players := loaded_players lv (lv_players x)\<rparr>)"
proof -
  let ?pad = "\<lambda>i. stmts [saveg_write_pad, saveg_write_player_t (lv_players lv ! i)]"
  let ?read = "stmts [on_stream saveg_read_pad, saveg_read_player_t, assign (\<lambda>p. p\<lparr>pl_mo := 0, pl_message := 0, pl_attacker := 0\<rparr>)]"
  have "\<exists>k. i < MAXPLAYERS \<longrightarrow> lv_playeringame lv ! i \<noteq> 0 \<longrightarrow> codec (?pad i) ?read k
      \<and> (\<forall>x. player_ok x \<longrightarrow> k x = loaded_player (lv_players lv ! i) x)" for i
  proof (cases "i < MAXPLAYERS \<and> lv_playeringame lv ! i \<noteq> 0")
    case True
    then have "savable_player (lv_players lv ! i)" using assms by (simp add: players_savable_def)
    from codec_one_player [OF this] show ?thesis by blast
  qed simp
  then have "\<forall>i. \<exists>k. i < MAXPLAYERS \<longrightarrow> lv_playeringame lv ! i \<noteq> 0 \<longrightarrow> codec (?pad i) ?read k
      \<and> (\<forall>x. player_ok x \<longrightarrow> k x = loaded_player (lv_players lv ! i) x)" ..
  from choice [OF this] obtain k where k: "\<And>i. i < MAXPLAYERS \<Longrightarrow> lv_playeringame lv ! i \<noteq> 0 \<Longrightarrow> codec (?pad i) ?read (k i)"
    "\<And>i x. i < MAXPLAYERS \<Longrightarrow> lv_playeringame lv ! i \<noteq> 0 \<Longrightarrow> player_ok x \<Longrightarrow> k i x = loaded_player (lv_players lv ! i) x" by blast
  let ?h = "\<lambda>i. if lv_playeringame lv ! i = 0 then (\<lambda>x. x) else k i"
  let ?g = "array MAXPLAYERS (\<lambda>i lv. lv\<lparr>lv_players := (lv_players lv)[i := ?h i (lv_players lv ! i)]\<rparr>)"
  have "codec (P_ArchivePlayers lv) (unarchive_players (lv_playeringame lv)) ?g"
    unfolding P_ArchivePlayers_def unarchive_players_def
  proof (rule codec_array)
    fix i assume i: "i < MAXPLAYERS"
    show "codec (if lv_playeringame lv ! i = 0 then \<lambda>st. st else ?pad i)
      (if lv_playeringame lv ! i = 0 then \<lambda>s. s
       else sub (\<lambda>lv. lv_players lv ! i) (\<lambda>p lv. lv\<lparr>lv_players := (lv_players lv)[i := p]\<rparr>) ?read)
      (\<lambda>lv. lv\<lparr>lv_players := (lv_players lv)[i := ?h i (lv_players lv ! i)]\<rparr>)"
      using codec_skip codec_sub [OF k(1) [OF i]] by (cases "lv_playeringame lv ! i = 0") simp_all
  qed
  moreover have "?g x = x\<lparr>lv_players := loaded_players lv (lv_players x)\<rparr>" if x: "players_ok x" for x
  proof -
    have len: "length (lv_players x) = MAXPLAYERS" using x by (simp add: players_ok_def)
    have ok: "player_ok (lv_players x ! i)" if "i < MAXPLAYERS" for i using x that by (simp add: players_ok_def list_all_nth)
    have "?g x = x\<lparr>lv_players := map (\<lambda>i. ?h i (lv_players x ! i)) [0..<MAXPLAYERS] @ drop MAXPLAYERS (lv_players x)\<rparr>"
      by (rule array_update [where get = lv_players and put = "\<lambda>v s. s\<lparr>lv_players := v\<rparr>"]) (simp_all add: len)
    moreover have "map (\<lambda>i. ?h i (lv_players x ! i)) [0..<MAXPLAYERS] = loaded_players lv (lv_players x)"
      using k(2) ok by (simp add: loaded_players_def)
    ultimately show ?thesis by (simp add: len)
  qed
  ultimately show ?thesis by blast
qed

subsection \<open>Sectors, lines and sides\<close>

definition whole :: "fixed \<Rightarrow> fixed" where
  "whole v = v AND NOT (mask FRACBITS)"

text \<open>\<open>s\<close> loaded over \<open>x\<close>: heights lose their fractions.\<close>

definition loaded_sector :: "sector \<Rightarrow> sector \<Rightarrow> sector" where
  "loaded_sector s x = x\<lparr>sec_floorheight := whole (sec_floorheight s), sec_ceilingheight := whole (sec_ceilingheight s),
     sec_floorpic := sec_floorpic s, sec_ceilingpic := sec_ceilingpic s, sec_lightlevel := sec_lightlevel s,
     sec_special := sec_special s, sec_tag := sec_tag s,
     sec_floordata := 0, sec_ceilingdata := 0, sec_lightingdata := 0, sec_soundtarget := 0\<rparr>"

definition loaded_side :: "side \<Rightarrow> side \<Rightarrow> side" where
  "loaded_side s x = x\<lparr>si_textureoffset := whole (si_textureoffset s), si_rowoffset := whole (si_rowoffset s),
     si_toptexture := si_toptexture s, si_bottomtexture := si_bottomtexture s, si_midtexture := si_midtexture s\<rparr>"

definition loaded_line :: "line \<Rightarrow> line \<Rightarrow> line" where
  "loaded_line l x = x\<lparr>li_flags := li_flags l, li_special := li_special l, li_tag := li_tag l\<rparr>"

lemma codec_sector: "codec (archive_sector s) unarchive_sector (loaded_sector s)"
  unfolding archive_sector_def unarchive_sector_def
  by (rule codec_cong, (rule codecs)+) (simp add: loaded_sector_def whole_def)

lemma codec_side: "codec (archive_side s) unarchive_side (loaded_side s)"
  unfolding archive_side_def unarchive_side_def
  by (rule codec_cong, (rule codecs)+) (simp add: loaded_side_def whole_def)

lemma codec_line: "codec (archive_line l) unarchive_line (loaded_line l)"
  unfolding archive_line_def unarchive_line_def
  by (rule codec_cong, (rule codecs)+) (simp add: loaded_line_def)

definition loaded_sides :: "level \<Rightarrow> side list \<Rightarrow> side list" where
  "loaded_sides lv xs = map (\<lambda>j. if list_ex (\<lambda>li. j \<in> set (sides_of li)) (lv_lines lv) then loaded_side (lv_sides lv ! j) (xs ! j) else xs ! j)
     [0..<length xs]"

definition loaded_world :: "level \<Rightarrow> level \<Rightarrow> level" where
  "loaded_world lv x = x\<lparr>lv_sectors := map2 loaded_sector (lv_sectors lv) (lv_sectors x),
     lv_lines := map2 loaded_line (lv_lines lv) (lv_lines x), lv_sides := loaded_sides lv (lv_sides x)\<rparr>"

text \<open>Two levels of the same map.\<close>

definition same_shape :: "level \<Rightarrow> level \<Rightarrow> bool" where
  "same_shape lv x \<longleftrightarrow> length (lv_sectors x) = length (lv_sectors lv) \<and> map li_sidenum (lv_lines x) = map li_sidenum (lv_lines lv)
     \<and> length (lv_sides x) = length (lv_sides lv)"

lemma loaded_side_twice [simp]: "loaded_side s (loaded_side s x) = loaded_side s x"
  by (simp add: loaded_side_def)

definition load_side :: "level \<Rightarrow> nat \<Rightarrow> side list \<Rightarrow> side list" where
  "load_side lv j xs = xs[j := loaded_side (lv_sides lv ! j) (xs ! j)]"

lemma length_load_sides [simp]: "length (fold (load_side lv) js xs) = length xs"
  by (induction js arbitrary: xs) (simp_all add: load_side_def)

lemma nth_load_sides:
  "k < length xs \<Longrightarrow> fold (load_side lv) js xs ! k = (if k \<in> set js then loaded_side (lv_sides lv ! k) (xs ! k) else xs ! k)"
proof (induction js arbitrary: xs)
  case (Cons a js)
  then show ?case by (cases "a = k") (auto simp: load_side_def)
qed simp

lemma stmts_sides: "stmts (map (\<lambda>j x. x\<lparr>lv_sides := (lv_sides x)[j := loaded_side (lv_sides lv ! j) (lv_sides x ! j)]\<rparr>) js) x
    = x\<lparr>lv_sides := fold (load_side lv) js (lv_sides x)\<rparr>"
  by (induction js arbitrary: x) (simp_all add: stmts_simps load_side_def)

lemma codec_world:
  assumes "sides_ok lv"
  shows "\<exists>w g. (\<forall>st. P_ArchiveWorld lv st = Inr (w st)) \<and> codec w (unarchive_world (length (lv_sectors lv)) (map sides_of (lv_lines lv))) g
    \<and> (\<forall>x. same_shape lv x \<longrightarrow> g x = loaded_world lv x)"
proof -
  let ?n = "length (lv_sectors lv)" and ?m = "length (lv_lines lv)"
  let ?sec = "\<lambda>i x. x\<lparr>lv_sectors := (lv_sectors x)[i := loaded_sector (lv_sectors lv ! i) (lv_sectors x ! i)]\<rparr>"
  let ?line = "\<lambda>i x. x\<lparr>lv_lines := (lv_lines x)[i := loaded_line (lv_lines lv ! i) (lv_lines x ! i)]\<rparr>"
  let ?side = "\<lambda>j x. x\<lparr>lv_sides := (lv_sides x)[j := loaded_side (lv_sides lv ! j) (lv_sides x ! j)]\<rparr>"
  let ?lines = "\<lambda>i x. stmts (map ?side (sides_of (lv_lines lv ! i))) (?line i x)"
  let ?w = "stmts [array ?n (\<lambda>i. archive_sector (lv_sectors lv ! i)),
    array ?m (\<lambda>i. let li = lv_lines lv ! i in stmts [archive_line li, stmts (map (\<lambda>j. archive_side (lv_sides lv ! j)) (sides_of li))])]"
  have w: "P_ArchiveWorld lv st = Inr (?w st)" for st using assms by (simp add: P_ArchiveWorld_def)
  have sec: "codec (array ?n (\<lambda>i. archive_sector (lv_sectors lv ! i))) (array ?n (\<lambda>i. at_sector i unarchive_sector)) (array ?n ?sec)"
    unfolding at_sector_def by (intro codec_array codec_sub codec_sector)
  have "codec (let li = lv_lines lv ! i in stmts [archive_line li, stmts (map (\<lambda>j. archive_side (lv_sides lv ! j)) (sides_of li))])
    (stmts [at_line i unarchive_line, stmts (map (\<lambda>j. at_side j unarchive_side) (map sides_of (lv_lines lv) ! i))]) (?lines i)" if "i < ?m" for i
  proof -
    have "codec (archive_line (lv_lines lv ! i)) (at_line i unarchive_line) (?line i)"
      unfolding at_line_def by (rule codec_sub [OF codec_line])
    moreover have "codec (stmts (map (\<lambda>j. archive_side (lv_sides lv ! j)) (sides_of (lv_lines lv ! i))))
        (stmts (map (\<lambda>j. at_side j unarchive_side) (sides_of (lv_lines lv ! i)))) (stmts (map ?side (sides_of (lv_lines lv ! i))))"
      unfolding at_side_def by (intro codec_map codec_sub codec_side)
    ultimately show ?thesis using codec_Cons [OF _ codec_Cons [OF _ codec_Nil]] that by (simp add: Let_def)
  qed
  then have "codec (array ?m (\<lambda>i. let li = lv_lines lv ! i in stmts [archive_line li, stmts (map (\<lambda>j. archive_side (lv_sides lv ! j)) (sides_of li))]))
    (array (length (map sides_of (lv_lines lv))) (\<lambda>i. stmts [at_line i unarchive_line, stmts (map (\<lambda>j. at_side j unarchive_side) (map sides_of (lv_lines lv) ! i))]))
    (array ?m ?lines)" by (simp add: codec_array)
  from codec_Cons [OF sec codec_Cons [OF this codec_Nil]]
  have codec: "codec ?w (unarchive_world ?n (map sides_of (lv_lines lv))) (\<lambda>x. array ?m ?lines (array ?n ?sec x))"
    by (simp add: unarchive_world_def)
  have "array ?m ?lines (array ?n ?sec x) = loaded_world lv x" if x: "same_shape lv x" for x
  proof -
    have len: "length (lv_sectors x) = ?n" "length (lv_lines x) = ?m" "length (lv_sides x) = length (lv_sides lv)"
      using x map_eq_imp_length_eq [of li_sidenum "lv_lines x" li_sidenum "lv_lines lv"] by (auto simp: same_shape_def)
    have secs: "array ?n ?sec x = x\<lparr>lv_sectors := map (\<lambda>i. loaded_sector (lv_sectors lv ! i) (lv_sectors x ! i)) [0..<?n] @ drop ?n (lv_sectors x)\<rparr>"
      by (rule array_update [where get = lv_sectors and put = "\<lambda>v s. s\<lparr>lv_sectors := v\<rparr>"]) (simp_all add: len)
    have lines: "array k ?lines y = y\<lparr>lv_lines := map (\<lambda>i. loaded_line (lv_lines lv ! i) (lv_lines y ! i)) [0..<k] @ drop k (lv_lines y),
        lv_sides := fold (load_side lv) (concat (map sides_of (take k (lv_lines lv)))) (lv_sides y)\<rparr>" if "k \<le> ?m" "length (lv_lines y) = ?m" for k y
      using that
    proof (induction k)
      case 0
      then show ?case by (simp add: array_def stmts_simps)
    next
      case (Suc k)
      let ?xs = "map (\<lambda>i. loaded_line (lv_lines lv ! i) (lv_lines y ! i)) [0..<k] @ drop k (lv_lines y)"
      have "?xs[k := loaded_line (lv_lines lv ! k) (?xs ! k)] = map (\<lambda>i. loaded_line (lv_lines lv ! i) (lv_lines y ! i)) [0..<Suc k] @ drop (Suc k) (lv_lines y)"
        using Suc.prems by (intro nth_equalityI) (auto simp: nth_list_update nth_append less_Suc_eq)
      then show ?case using Suc by (simp add: array_Suc stmts_sides take_Suc_conv_app_nth)
    qed
    have "fold (load_side lv) (concat (map sides_of (lv_lines lv))) (lv_sides x) = loaded_sides lv (lv_sides x)"
      by (intro nth_equalityI) (auto simp: nth_load_sides loaded_sides_def list_ex_iff)
    moreover have "map (\<lambda>i. loaded_sector (lv_sectors lv ! i) (lv_sectors x ! i)) [0..<?n] = map2 loaded_sector (lv_sectors lv) (lv_sectors x)"
      "map (\<lambda>i. loaded_line (lv_lines lv ! i) (lv_lines x ! i)) [0..<?m] = map2 loaded_line (lv_lines lv) (lv_lines x)"
      using len by (auto intro: nth_equalityI)
    ultimately show ?thesis using lines [of ?m "array ?n ?sec x"] len by (simp add: secs loaded_world_def)
  qed
  then show ?thesis using w codec by blast
qed

subsection \<open>The header and the end\<close>

definition header_bytes :: "bytes \<Rightarrow> nat \<Rightarrow> level \<Rightarrow> bytes" where
  "header_bytes description code lv =
     description @ replicate (SAVESTRINGSIZE - length description) 0 @ version_field code
     @ [ucast (gameskill lv), ucast (gameepisode lv), ucast (gamemap lv)] @ map (\<lambda>i. ucast (lv_playeringame lv ! i)) [0..<MAXPLAYERS]
     @ [ucast (drop_bit 16 (leveltime lv) AND 0xff), ucast (drop_bit 8 (leveltime lv) AND 0xff), ucast (leveltime lv AND 0xff)]"

lemma stmts_Cons_append: "stmts (stmts fs # gs) s = stmts (fs @ gs) s"
  by (simp add: stmts_append stmts_simps)

lemma array_bytes: "array n (\<lambda>i. saveg_write8 (f i)) = write_bytes (map f [0..<n])"
  by (simp add: array_def write_bytes_def comp_def)

lemma write_bytes_append: "write_bytes (as @ bs) st = write_bytes bs (write_bytes as st)"
  by (simp add: write_bytes_def stmts_append)

lemma write_bytes_Cons: "write_bytes (b # bs) st = write_bytes bs (saveg_write8 b st)"
  by (simp add: write_bytes_def stmts_simps)

lemma write_header:
  "G_VanillaVersionCode lv = Inr code \<Longrightarrow> P_WriteSaveGameHeader description lv st = Inr (write_bytes (header_bytes description code lv) st)"
  by (simp add: P_WriteSaveGameHeader_def header_bytes_def stmts_simps array_bytes write_bytes_append write_bytes_Cons)
    (simp add: write_bytes_def stmts_simps)

lemma read_bytes_here:
  assumes "here bs st"
  shows "read_bytes (length bs) st = (bs, skipped (length bs) st)"
  using assms
proof (induction bs rule: rev_induct)
  case Nil
  then show ?case by (simp add: read_bytes_def array_def stmts_simps)
next
  case (snoc b bs)
  then have h: "here bs st" "here [b] (skipped (length bs) st)" by (simp_all add: here_append)
  then show ?case using snoc.IH here_byte [OF h(2)] by (simp add: read_bytes_def array_Suc)
qed

lemma leveltime_bytes:
  "push_bit 16 (ucast (ucast (drop_bit 16 t) :: u8)) + push_bit 8 (ucast (ucast (drop_bit 8 t) :: u8))
    + ucast (ucast t :: u8) = take_bit 24 (t :: u32)"
proof -
  let ?a = "push_bit 16 (ucast (ucast (drop_bit 16 t) :: u8)) :: u32" and ?b = "push_bit 8 (ucast (ucast (drop_bit 8 t) :: u8)) :: u32"
    and ?c = "ucast (ucast t :: u8) :: u32"
  have ab: "?a AND ?b = 0" by (rule bit_word_eqI) (auto simp: bit_simps)
  have abc: "(?a OR ?b) AND ?c = 0" by (rule bit_word_eqI) (auto simp: bit_simps)
  have "?a + ?b = ?a OR ?b" using word_plus_and_or [of ?a ?b] unfolding ab by (metis add_0)
  then have "?a + ?b + ?c = (?a OR ?b) + ?c" by (simp only:)
  also have "\<dots> = (?a OR ?b) OR ?c" using word_plus_and_or [of "?a OR ?b" ?c] unfolding abc by (metis add_0)
  also have "\<dots> = take_bit 24 t"
  proof (rule bit_word_eqI)
    fix n assume "n < LENGTH(32)"
    then consider "n < 8" | "8 \<le> n" "n < 16" | "16 \<le> n" "n < 24" | "24 \<le> n" "n < 32" by fastforce
    then show "bit ((?a OR ?b) OR ?c) n = bit (take_bit 24 t) n" by cases (auto simp: bit_simps)
  qed
  finally show ?thesis .
qed

text \<open>What the header says, in the level it is read into.\<close>

definition loaded_header :: "level \<Rightarrow> level \<Rightarrow> level" where
  "loaded_header lv x = x\<lparr>gameskill := take_bit 8 (gameskill lv), gameepisode := take_bit 8 (gameepisode lv), gamemap := take_bit 8 (gamemap lv),
     lv_playeringame := map (take_bit 8) (lv_playeringame lv), leveltime := take_bit 24 (leveltime lv)\<rparr>"

lemma array_4: "array MAXPLAYERS f s = f 3 (f 2 (f 1 (f 0 s)))"
proof -
  have "[0..<MAXPLAYERS] = [0, 1, 2, 3]" by (simp add: MAXPLAYERS_def upt_rec)
  then show ?thesis by (simp add: array_def stmts_simps)
qed

lemma read_byte_here: "here [b] st \<Longrightarrow> read_byte put (x, st) = (put b x, skipped 1 st)"
  by (simp add: read_byte_def field_def here_byte)

lemma read_header_tail:
  assumes "here ([a, b, c, p0, p1, p2, p3, t0, t1, t2]) st" "length (lv_playeringame x) = MAXPLAYERS"
  shows "read_header_fields (x, st)
   = (x\<lparr>gameskill := ucast a, gameepisode := ucast b, gamemap := ucast c, lv_playeringame := [ucast p0, ucast p1, ucast p2, ucast p3],
        leveltime := push_bit 16 (ucast t0) + push_bit 8 (ucast t1) + ucast t2\<rparr>, skipped 10 st)"
proof -
  obtain q0 q1 q2 q3 where q: "lv_playeringame x = [q0, q1, q2, q3]"
    using assms(2) by (auto simp: MAXPLAYERS_def eval_nat_numeral length_Suc_conv)
  define S where "S k = skipped k st" for k
  have S: "saveg_read8 (S k) = (v, S (Suc k))" if "here [v] (skipped k st)" for k v
    using here_byte [OF that] by (simp add: S_def)
  have h: "saveg_read8 (S 0) = (a, S 1)" "saveg_read8 (S 1) = (b, S 2)" "saveg_read8 (S 2) = (c, S 3)" "saveg_read8 (S 3) = (p0, S 4)"
    "saveg_read8 (S 4) = (p1, S 5)" "saveg_read8 (S 5) = (p2, S 6)" "saveg_read8 (S 6) = (p3, S 7)" "saveg_read8 (S 7) = (t0, S 8)"
    "saveg_read8 (S 8) = (t1, S 9)" "saveg_read8 (S 9) = (t2, S 10)"
    using assms(1) S [of a 0] S [of b 1] S [of c 2] S [of p0 3] S [of p1 4] S [of p2 5] S [of p3 6] S [of t0 7] S [of t1 8] S [of t2 9]
    by (simp_all add: here_Cons [of _ "_ # _"] eval_nat_numeral)
  have "read_header_fields (x, S 0) = (x\<lparr>gameskill := ucast a, gameepisode := ucast b, gamemap := ucast c,
      lv_playeringame := [ucast p0, ucast p1, ucast p2, ucast p3],
      leveltime := push_bit 16 (ucast t0) + push_bit 8 (ucast t1) + ucast t2\<rparr>, S 10)"
    by (simp add: read_header_fields_def stmts_simps read_byte_def field_def array_4 q h h(1,2) [unfolded One_nat_def])
  then show ?thesis by (simp add: S_def)
qed

lemma read_header:
  assumes "G_VanillaVersionCode lv = Inr code" "G_VanillaVersionCode x = Inr code" "length description \<le> SAVESTRINGSIZE"
    "length (lv_playeringame lv) = MAXPLAYERS" "length (lv_playeringame x) = MAXPLAYERS" "here (header_bytes description code lv) st"
  shows "P_ReadSaveGameHeader (x, st) = Inr (True, loaded_header lv x, skipped (length (header_bytes description code lv)) st)"
proof -
  let ?d = "description @ replicate (SAVESTRINGSIZE - length description) 0" and ?v = "version_field code"
  obtain p0 p1 p2 p3 where q: "lv_playeringame lv = [p0, p1, p2, p3]"
    using assms(4) by (auto simp: MAXPLAYERS_def eval_nat_numeral length_Suc_conv)
  let ?tail = "[ucast (gameskill lv), ucast (gameepisode lv), ucast (gamemap lv), ucast p0, ucast p1, ucast p2, ucast p3,
    ucast (drop_bit 16 (leveltime lv) AND 0xff), ucast (drop_bit 8 (leveltime lv) AND 0xff), ucast (leveltime lv AND 0xff)] :: bytes"
  have ld: "length ?d = SAVESTRINGSIZE" using assms(3) by simp
  have lv: "length ?v = VERSIONSIZE"
    using M_StringCopy_length by (simp add: version_field_def Let_def M_snprintf_def VERSIONSIZE_def)
  have bytes: "header_bytes description code lv = ?d @ ?v @ ?tail"
    by (simp add: header_bytes_def q MAXPLAYERS_def upt_rec)
  have h: "here ?d st" "here ?v (skipped SAVESTRINGSIZE st)" "here ?tail (skipped (SAVESTRINGSIZE + VERSIONSIZE) st)"
    using assms(6) unfolding bytes here_append [of ?d "?v @ ?tail"] here_append [of ?v ?tail] ld lv by simp_all
  have "read_bytes SAVESTRINGSIZE st = (?d, skipped SAVESTRINGSIZE st)"
    "read_bytes VERSIONSIZE (skipped SAVESTRINGSIZE st) = (?v, skipped (SAVESTRINGSIZE + VERSIONSIZE) st)"
    using read_bytes_here [OF h(1)] read_bytes_here [OF h(2)] unfolding ld lv by simp_all
  then have "P_ReadSaveGameHeader (x, st) = Inr (True, x\<lparr>gameskill := ucast (ucast (gameskill lv) :: u8), gameepisode := ucast (ucast (gameepisode lv) :: u8),
      gamemap := ucast (ucast (gamemap lv) :: u8), lv_playeringame := map (\<lambda>p. ucast (ucast p :: u8)) (lv_playeringame lv),
      leveltime := take_bit 24 (leveltime lv)\<rparr>, skipped (SAVESTRINGSIZE + VERSIONSIZE + 10) st)"
    using assms(2) unfolding P_ReadSaveGameHeader_def
    by (simp add: same_string_def read_header_tail [OF h(3) assms(5)] leveltime_bytes q del: ucast_u8_back)
  moreover have "length (header_bytes description code lv) = SAVESTRINGSIZE + VERSIONSIZE + 10" using ld lv unfolding bytes by simp
  ultimately show ?thesis by (simp only: loaded_header_def ucast_u8_back)
qed

end
