(* ===== verification/P_Archive_Load.thy ===== *)
theory P_Archive_Load
  imports P_Thinkers P_Archive_World
begin

text \<open>
  What loading adds to a level for each object that was saved: the object itself (\<open>expect\<close>), and
  what else comes to know it (\<open>attach\<close>). The functions that load do this, and keep the level sound.
\<close>

subsection \<open>The specification\<close>

text \<open>The object that \<open>x\<close> becomes at address \<open>p\<close>, but for its links.\<close>

definition expect_mobj :: "level \<Rightarrow> mobj \<Rightarrow> mobj" where
  "expect_mobj lv m =
     (let ss = case R_PointInSubsector (mo_x m) (mo_y m) lv of Inr ss \<Rightarrow> ss | Inl _ \<Rightarrow> 0;
          sec = lv_sectors lv ! (lv_subsectors lv ! ss)
      in m\<lparr>mo_subsector := of_nat ss, mo_target := 0, mo_tracer := 0, mo_info := mo_type m,
           mo_floorz := sec_floorheight sec, mo_ceilingz := sec_ceilingheight sec,
           mo_thinker := sets_function P_MobjThinker (mo_thinker m)\<rparr>)"

fun expect :: "fresh \<Rightarrow> level \<Rightarrow> ptr \<Rightarrow> object \<Rightarrow> object" where
  "expect fr lv p (Mobj m) = Mobj (expect_mobj lv m)"
| "expect fr lv p (Ceiling c) = Ceiling (c\<lparr>ceil_oldspeed := ceil_oldspeed (fresh_ceiling fr p), ceil_newspecial := ceil_newspecial (fresh_ceiling fr p),
     ceil_oldspecial := ceil_oldspecial (fresh_ceiling fr p), ceil_texture := ceil_texture (fresh_ceiling fr p),
     ceil_list := ceil_list (fresh_ceiling fr p), ceil_thinker := sets_function_if T_MoveCeiling (ceil_thinker c)\<rparr>)"
| "expect fr lv p (Door d) = Door (d\<lparr>door_line := door_line (fresh_door fr p), door_lighttag := door_lighttag (fresh_door fr p),
     door_thinker := sets_function T_VerticalDoor (door_thinker d)\<rparr>)"
| "expect fr lv p (Floor f) = Floor (f\<lparr>floor_oldspecial := floor_oldspecial (fresh_floor fr p),
     floor_thinker := sets_function T_MoveFloor (floor_thinker f)\<rparr>)"
| "expect fr lv p (Plat l) = Plat (l\<lparr>plat_thinker := sets_function_if T_PlatRaise (plat_thinker l)\<rparr>)"
| "expect fr lv p (Flash l) = Flash (l\<lparr>flash_thinker := sets_function T_LightFlash (flash_thinker l)\<rparr>)"
| "expect fr lv p (Strobe l) = Strobe (l\<lparr>strobe_thinker := sets_function T_StrobeFlash (strobe_thinker l)\<rparr>)"
| "expect fr lv p (Glow l) = Glow (l\<lparr>glow_thinker := sets_function T_Glow (glow_thinker l)\<rparr>)"
| "expect fr lv p (Flicker l) = Flicker l"
| "expect fr lv p (Elevator e) = Elevator e"
| "expect fr lv p (Other t) = Other t"

text \<open>The first free place of a list of active objects.\<close>

definition add_active :: "ptr \<Rightarrow> ptr list \<Rightarrow> ptr list" where
  "add_active p ps = (case find (\<lambda>i. ps ! i = 0) [0..<length ps] of None \<Rightarrow> ps | Some i \<Rightarrow> ps[i := p])"

definition hook_in :: "(sector \<Rightarrow> sector) \<Rightarrow> u32 \<Rightarrow> sector list \<Rightarrow> sector list" where
  "hook_in f sec secs = secs[unat sec := f (secs ! unat sec)]"

fun attach :: "ptr \<Rightarrow> object \<Rightarrow> level \<Rightarrow> level" where
  "attach p (Mobj m) lv = (case mo_player m of None \<Rightarrow> lv
     | Some pl \<Rightarrow> lv\<lparr>lv_players := (lv_players lv)[unat pl := (lv_players lv ! unat pl)\<lparr>pl_mo := p\<rparr>]\<rparr>)"
| "attach p (Ceiling c) lv = lv\<lparr>lv_sectors := hook_in (\<lambda>s. s\<lparr>sec_ceilingdata := p\<rparr>) (ceil_sector c) (lv_sectors lv),
     activeceilings := add_active p (activeceilings lv)\<rparr>"
| "attach p (Door d) lv = lv\<lparr>lv_sectors := hook_in (\<lambda>s. s\<lparr>sec_ceilingdata := p\<rparr>) (door_sector d) (lv_sectors lv)\<rparr>"
| "attach p (Floor f) lv = lv\<lparr>lv_sectors := hook_in (\<lambda>s. s\<lparr>sec_floordata := p\<rparr>) (floor_sector f) (lv_sectors lv)\<rparr>"
| "attach p (Plat l) lv = lv\<lparr>lv_sectors := hook_in (\<lambda>s. s\<lparr>sec_floordata := p\<rparr>) (plat_sector l) (lv_sectors lv),
     activeplats := add_active p (activeplats lv)\<rparr>"
| "attach p _ lv = lv"

text \<open>An object without links, and the level without links and objects.\<close>

definition bare :: "object \<Rightarrow> object" where
  "bare x = no_thlinks (unlinked_object x)"

definition shell :: "level \<Rightarrow> level" where
  "shell lv = (unlinked lv)\<lparr>lv_objects := Map.empty, lv_next := 0\<rparr>"

definition as_saved :: "fresh \<Rightarrow> level \<Rightarrow> ptr \<Rightarrow> object \<Rightarrow> bool" where
  "as_saved fr lv p x \<longleftrightarrow> bare (object_at lv p) = bare (expect fr lv p x)"

subsection \<open>What the invariants depend on\<close>

definition relevant :: "mobj \<Rightarrow> ptr \<times> ptr \<times> ptr \<times> ptr \<times> u32 \<times> fixed \<times> fixed \<times> ptr" where
  "relevant m = (mo_snext m, mo_sprev m, mo_bnext m, mo_bprev m, mo_flags m, mo_x m, mo_y m, mo_subsector m)"

lemma things_ok_relevant:
  assumes "things_ok A S B lv" "\<And>p. map_option relevant (mobj_at lv' p) = map_option relevant (mobj_at lv p)"
    "map sec_thinglist (lv_sectors lv') = map sec_thinglist (lv_sectors lv)" "blocklinks lv' = blocklinks lv"
    "lv_subsectors lv' = lv_subsectors lv" "\<And>x y. block_of x y lv' = block_of x y lv"
  shows "things_ok A S B lv'"
proof -
  have eq: "map_option h (mobj_at lv' p) = map_option h (mobj_at lv p)" if "\<And>m. h m = k (relevant m)" for h k p
  proof -
    have "h = (\<lambda>m. k (relevant m))" using that by (rule ext)
    then show ?thesis using arg_cong [OF assms(2) [of p], of "map_option k"] by (simp add: option.map_comp comp_def)
  qed
  have links: "map_option mo_snext (mobj_at lv' p) = map_option mo_snext (mobj_at lv p)" "map_option mo_sprev (mobj_at lv' p) = map_option mo_sprev (mobj_at lv p)"
    "map_option mo_bnext (mobj_at lv' p) = map_option mo_bnext (mobj_at lv p)" "map_option mo_bprev (mobj_at lv' p) = map_option mo_bprev (mobj_at lv p)" for p
    using eq [of mo_snext fst] eq [of mo_sprev "\<lambda>x. fst (snd x)"] eq [of mo_bnext "\<lambda>x. fst (snd (snd x))"]
      eq [of mo_bprev "\<lambda>x. fst (snd (snd (snd x)))"] by (simp_all add: relevant_def)
  have "sector_lists lv' S" using assms(1,3) links linked_cong unfolding things_ok_def sector_lists_def by metis
  moreover have "block_lists lv' B" using assms(1,4) links linked_cong unfolding things_ok_def block_lists_def by metis
  moreover have "\<exists>m. mobj_at lv' a = Some m \<and> thing_ok S B lv' a m" if a: "a \<in> A" for a
  proof -
    obtain m where m: "mobj_at lv a = Some m" "thing_ok S B lv a m" using assms(1) a by (auto simp: things_ok_def)
    then obtain m' where m': "mobj_at lv' a = Some m'" "relevant m' = relevant m" using assms(2) [of a] by auto
    then have "thing_ok S B lv' a m'" using m(2) assms(5,6)
      by (simp add: thing_ok_def in_sector_def in_block_def relevant_def subsector_sector_def)
    then show ?thesis using m'(1) by blast
  qed
  ultimately show ?thesis using assms(1) by (auto simp: things_ok_def)
qed

lemma map_ok_heap:
  assumes "lv_nodes lv' = lv_nodes lv" "lv_subsectors lv' = lv_subsectors lv" "length (lv_sectors lv') = length (lv_sectors lv)"
    "length (blocklinks lv') = length (blocklinks lv)" "bmapwidth lv' = bmapwidth lv" "bmapheight lv' = bmapheight lv"
  shows "map_ok lv' \<longleftrightarrow> map_ok lv"
  using assms by (simp add: map_ok_def bsp_ok_def blockmap_ok_def)

lemma bare_thinker [simp]: "th_function (thinker_of (bare x)) = th_function (thinker_of x)"
  by (cases x) (simp_all add: bare_def no_thlinks_def unlinked_object_def no_slinks_def no_blinks_def)

lemma no_thlinks_unlinked: "no_thlinks (unlinked_object x) = unlinked_object (no_thlinks x)"
  by (cases x) (simp_all add: no_thlinks_def unlinked_object_def no_slinks_def no_blinks_def)

lemma bare_no_thlinks: "no_thlinks y = no_thlinks x \<Longrightarrow> bare y = bare x"
  by (simp add: bare_def no_thlinks_unlinked)

lemma bare_unlinked: "unlinked_object y = unlinked_object x \<Longrightarrow> bare y = bare x"
  by (simp add: bare_def)

lemma object_at_eq:
  assumes "map_option f (lv_objects lv' p) = map_option f (lv_objects lv p)" "lv_objects lv p \<noteq> None"
  shows "lv_objects lv' p \<noteq> None" "f (object_at lv' p) = f (object_at lv p)"
  using assms by (auto simp: object_at_def)

lemma unthreaded_objects: "unthreaded lv' = unthreaded lv \<Longrightarrow> map_option no_thlinks (lv_objects lv' p) = map_option no_thlinks (lv_objects lv p)"
  by (drule arg_cong [where f = "\<lambda>lv. lv_objects lv p"]) (simp add: unthreaded_def)

lemma unthreaded_rest: "unthreaded lv' = unthreaded lv \<Longrightarrow> lv' = lv\<lparr>lv_objects := lv_objects lv'\<rparr>"
proof -
  assume "unthreaded lv' = unthreaded lv"
  then have "(unthreaded lv')\<lparr>lv_objects := lv_objects lv'\<rparr> = (unthreaded lv)\<lparr>lv_objects := lv_objects lv'\<rparr>" by simp
  then show ?thesis by (simp add: unthreaded_def)
qed

lemma no_thlinks_relevant: "map_option no_thlinks (lv_objects lv' p) = map_option no_thlinks (lv_objects lv p) \<Longrightarrow>
  map_option relevant (mobj_at lv' p) = map_option relevant (mobj_at lv p)"
proof -
  have r: "map_option relevant (mobj_at lv p) = (case map_option no_thlinks (lv_objects lv p) of Some (Mobj m) \<Rightarrow> Some (relevant m) | _ \<Rightarrow> None)" for lv
    by (auto simp: mobj_at_def no_thlinks_def relevant_def split: option.splits object.splits)
  assume "map_option no_thlinks (lv_objects lv' p) = map_option no_thlinks (lv_objects lv p)"
  then show ?thesis unfolding r by simp
qed

text \<open>Appending a thinker keeps the things.\<close>

lemma unthreaded_keeps:
  assumes "unthreaded lv' = unthreaded lv"
  shows "things_ok A S B lv \<Longrightarrow> things_ok A S B lv'" "map_ok lv' \<longleftrightarrow> map_ok lv" "que_ok lv' \<longleftrightarrow> que_ok lv" "shell lv' = shell lv"
    "lv_next lv' = lv_next lv" "lv_objects lv' p = None \<longleftrightarrow> lv_objects lv p = None" "live lv' p \<longleftrightarrow> live lv p"
    "lv_objects lv p \<noteq> None \<Longrightarrow> bare (object_at lv' p) = bare (object_at lv p)"
proof -
  note ob = unthreaded_objects [OF assms]
  obtain f where lv': "lv' = lv\<lparr>lv_objects := f\<rparr>" using unthreaded_rest [OF assms] by blast
  have [simp]: "block_of x y lv' = block_of x y lv" for x y by (simp add: lv' block_of_def Let_def split: if_split)
  show "things_ok A S B lv \<Longrightarrow> things_ok A S B lv'"
    by (erule things_ok_relevant) (simp_all add: no_thlinks_relevant [OF ob], simp_all add: lv')
  show "map_ok lv' \<longleftrightarrow> map_ok lv" "que_ok lv' \<longleftrightarrow> que_ok lv" using objects_irrelevant [OF lv'] by simp_all
  show "shell lv' = shell lv" by (simp add: lv' shell_def unlinked_def sector_unlinked_def block_unlinked_def)
  show "lv_next lv' = lv_next lv" by (simp add: lv')
  show "lv_objects lv' p = None \<longleftrightarrow> lv_objects lv p = None" using ob [of p] by (metis option.map_disc_iff)
  have "no_thlinks (object_at lv' p) = no_thlinks (object_at lv p)" if "lv_objects lv p \<noteq> None" for p
    using object_at_eq(2) [OF ob that] .
  then show "lv_objects lv p \<noteq> None \<Longrightarrow> bare (object_at lv' p) = bare (object_at lv p)" using bare_no_thlinks by blast
  show "live lv' p \<longleftrightarrow> live lv p"
  proof (cases "lv_objects lv p")
    case None
    then show ?thesis using ob [of p] by (simp add: live_def object_at_def)
  next
    case (Some x)
    then obtain y where "lv_objects lv' p = Some y" "no_thlinks y = no_thlinks x" using ob [of p] by auto
    moreover have "th_function (thinker_of (no_thlinks z)) = th_function (thinker_of z)" for z by (simp add: no_thlinks_def)
    ultimately show ?thesis using Some by (metis live_def object_at_def option.sel)
  qed
qed

subsection \<open>Loading, object by object\<close>

text \<open>
  From \<open>lv0\<close>, the objects \<open>xs\<close> have been loaded at the addresses \<open>T\<close>: they are the thinkers, in order.
\<close>

definition loading :: "fresh \<Rightarrow> level \<Rightarrow> level \<Rightarrow> ptr list \<Rightarrow> object list \<Rightarrow> bool" where
  "loading fr lv0 lv T xs \<longleftrightarrow> (\<exists>S B. level_ok lv T S B) \<and> list_all2 (as_saved fr lv) T xs
     \<and> shell lv = shell (fold (\<lambda>(p, x). attach p x) (zip T xs) lv0)"

lemma hook_in_map:
  assumes "\<And>s. g (f s) = f (g s)"
  shows "hook_in f sec (map g secs) = map g (hook_in f sec secs)"
  by (cases "unat sec < length secs") (simp_all add: hook_in_def map_update assms list_update_beyond not_less)

lemma shell_def': "shell lv = lv\<lparr>lv_objects := Map.empty, lv_next := 0, lv_sectors := map (\<lambda>s. s\<lparr>sec_thinglist := 0\<rparr>) (lv_sectors lv),
    blocklinks := map (\<lambda>_. 0) (blocklinks lv)\<rparr>"
  by (simp add: shell_def unlinked_def sector_unlinked_def block_unlinked_def)

lemma shell_attach: "shell (attach p x lv) = attach p x (shell lv)"
  by (cases x) (simp_all add: shell_def' hook_in_map split: option.split)

lemma shell_fold_attach: "shell lv = shell lv' \<Longrightarrow> shell (attach p x lv) = shell (attach p x lv')"
  by (simp add: shell_attach)

lemma shell_store [simp]: "shell (store p x lv) = shell lv"
  by (simp add: shell_def' store_def)

lemma shell_unlinked: "unlinked lv' = unlinked lv \<Longrightarrow> shell lv' = shell lv"
  by (simp add: shell_def)

definition heights :: "level \<Rightarrow> (fixed \<times> fixed) list" where
  "heights lv = map (\<lambda>s. (sec_floorheight s, sec_ceilingheight s)) (lv_sectors lv)"

lemma heights_shell [simp]: "heights (shell lv) = heights lv"
  by (simp add: heights_def shell_def' comp_def)

lemma hook_in_same:
  assumes "\<And>s. h (f s) = h s"
  shows "map h (hook_in f sec secs) = map h secs"
  using assms by (cases "unat sec < length secs") (auto simp: hook_in_def map_update list_update_same_conv list_update_beyond not_less)

lemma heights_attach [simp]: "heights (attach p x lv) = heights lv"
  by (cases x) (simp_all add: heights_def hook_in_same split: option.split)

lemma attach_map [simp]: "lv_nodes (attach p x lv) = lv_nodes lv" "lv_subsectors (attach p x lv) = lv_subsectors lv"
  by (cases x; simp split: option.split)+

lemma shell_map [simp]: "lv_nodes (shell lv) = lv_nodes lv" "lv_subsectors (shell lv) = lv_subsectors lv"
  by (simp_all add: shell_def')

lemma expect_cong:
  assumes "map_ok lv" "lv_nodes lv' = lv_nodes lv" "lv_subsectors lv' = lv_subsectors lv" "heights lv' = heights lv"
  shows "expect fr lv' p x = expect fr lv p x"
proof (cases x)
  case (Mobj m)
  have bsp: "bsp_ok lv" using assms(1) by (simp add: map_ok_def)
  obtain ss where ss: "R_PointInSubsector (mo_x m) (mo_y m) lv = Inr ss" "ss < length (lv_subsectors lv)" "ss < 4294967296"
    by (rule point_in_subsector [OF bsp])
  have ss': "R_PointInSubsector (mo_x m) (mo_y m) lv' = Inr ss" using ss(1) unfolding R_PointInSubsector_def assms(2) .
  let ?i = "lv_subsectors lv ! ss"
  have i: "?i < length (lv_sectors lv)" using assms(1) ss(2) by (simp add: map_ok_def)
  moreover have "length (lv_sectors lv') = length (lv_sectors lv)" using assms(4) unfolding heights_def by (rule map_eq_imp_length_eq)
  ultimately have "sec_floorheight (lv_sectors lv' ! ?i) = sec_floorheight (lv_sectors lv ! ?i) \<and> sec_ceilingheight (lv_sectors lv' ! ?i) = sec_ceilingheight (lv_sectors lv ! ?i)"
    using arg_cong [OF assms(4), of "\<lambda>hs. hs ! ?i"] by (simp add: heights_def)
  then show ?thesis using assms(3) by (simp add: Mobj expect_mobj_def ss ss' Let_def)
qed simp_all

lemma loading_step:
  assumes "loading fr lv0 lv T xs" "level_ok lv' (T @ [p]) S B" "as_saved fr lv' p x" "shell lv' = shell (attach p x lv)"
    "\<And>q. q \<in> set T \<Longrightarrow> bare (object_at lv' q) = bare (object_at lv q)"
  shows "loading fr lv0 lv' (T @ [p]) (xs @ [x])"
proof -
  obtain S0 B0 where lv: "level_ok lv T S0 B0" "list_all2 (as_saved fr lv) T xs" "shell lv = shell (fold (\<lambda>(p, x). attach p x) (zip T xs) lv0)"
    using assms(1) unfolding loading_def by blast
  have len: "length T = length xs" using lv(2) by (rule list_all2_lengthD)
  have "map_ok lv" using lv(1) by (simp add: level_ok_def)
  moreover have "lv_nodes lv' = lv_nodes lv" using arg_cong [OF assms(4), of lv_nodes] by simp
  moreover have "lv_subsectors lv' = lv_subsectors lv" using arg_cong [OF assms(4), of lv_subsectors] by simp
  moreover have "heights lv' = heights lv" using arg_cong [OF assms(4), of heights] by simp
  ultimately have ex: "expect fr lv' q y = expect fr lv q y" for q y by (rule expect_cong)
  have "as_saved fr lv' q y \<longleftrightarrow> as_saved fr lv q y" if "q \<in> set T" for q y
    unfolding as_saved_def ex assms(5) [OF that] ..
  then have "list_all2 (as_saved fr lv') T xs" using lv(2) by (auto simp: list_all2_conv_all_nth)
  then have "list_all2 (as_saved fr lv') (T @ [p]) (xs @ [x])" using assms(3) by (simp add: list_all2_appendI)
  moreover have "shell lv' = shell (fold (\<lambda>(p, x). attach p x) (zip (T @ [p]) (xs @ [x])) lv0)"
    using assms(4) shell_fold_attach [OF lv(3)] by (simp add: len)
  ultimately show ?thesis using assms(2) unfolding loading_def by blast
qed

text \<open>The next address is new.\<close>

lemma next_is_new:
  assumes "level_ok lv T S B"
  shows "lv_next lv \<noteq> 0" "lv_next lv \<notin> set (thinkercap # T)" "lv_objects lv (lv_next lv) = None"
proof -
  have heap: "unat p < unat (lv_next lv)" if "lv_objects lv p \<noteq> None" for p using assms that by (simp add: level_ok_def)
  have T: "lv_objects lv p \<noteq> None" if "p \<in> set (thinkercap # T)" for p
    using assms that by (auto simp: level_ok_def thinkers_ok_def)
  show "lv_next lv \<noteq> 0" using heap [of thinkercap] T [of thinkercap] by auto
  show n: "lv_objects lv (lv_next lv) = None" using heap [of "lv_next lv"] by (metis less_irrefl)
  show "lv_next lv \<notin> set (thinkercap # T)" using T [of "lv_next lv"] n by blast
qed

lemma next_address: "w \<noteq> - 1 \<Longrightarrow> unat (w + 1 :: u32) = Suc (unat w)"
  by (metis add.commute unatSuc add.inverse_inverse add_eq_0_iff)

lemma append_thinker:
  assumes "thinkers_ok lv T" "things_ok {q \<in> set (T @ [p]). live lv q} S B lv" "map_ok lv" "que_ok lv"
    "\<And>q. lv_objects lv q \<noteq> None \<Longrightarrow> unat q < unat (lv_next lv)" "lv_objects lv p \<noteq> None" "p \<noteq> 0" "p \<notin> set (thinkercap # T)"
  obtains lv' where "P_AddThinker p lv = Inr lv'" "level_ok lv' (T @ [p]) S B" "unthreaded lv' = unthreaded lv"
proof -
  obtain x where "lv_objects lv p = Some x" using assms(6) by blast
  then obtain lv' where lv': "P_AddThinker p lv = Inr lv'" "thinkers_ok lv' (T @ [p])" "unthreaded lv' = unthreaded lv"
    using add_thinker_ok [OF assms(1,8,7)] by blast
  note keeps = unthreaded_keeps [OF lv'(3)]
  have "{q \<in> set (T @ [p]). live lv' q} = {q \<in> set (T @ [p]). live lv q}" using keeps(7) by blast
  then have "level_ok lv' (T @ [p]) S B" using lv'(2) keeps(1) [OF assms(2)] keeps(2,3,5,6) assms(3-5) by (simp add: level_ok_def)
  then show ?thesis using that lv' by blast
qed

subsection \<open>Loading a special effect\<close>

lemma extended_level:
  assumes "thinkers_ok lv T" "things_ok A S B lv" "map_ok lv" "que_ok lv" "p \<notin> A" "p \<notin> set (thinkercap # T)"
    and lv': "lv' = lv\<lparr>lv_objects := (lv_objects lv)(p \<mapsto> y), lv_next := n, lv_sectors := secs, lv_players := pls\<rparr>"
    and secs: "map sec_thinglist secs = map sec_thinglist (lv_sectors lv)"
  shows "thinkers_ok lv' T" "things_ok A S B lv'" "map_ok lv'" "que_ok lv'" "lv_objects lv' p = Some y" "object_at lv' p = y"
    "\<And>q. q \<noteq> p \<Longrightarrow> object_at lv' q = object_at lv q"
proof -
  let ?lv = "lv\<lparr>lv_objects := (lv_objects lv)(p := Some y)\<rparr>"
  have "things_ok A S B ?lv" by (rule things_ok_objects [OF assms(2,5) refl])
  then show "things_ok A S B lv'"
    by (rule things_ok_relevant) (simp_all add: lv' secs mobj_at_def block_of_def Let_def split: if_split)
  show "map_ok lv'" using assms(3) map_ok_heap [of lv' lv] map_eq_imp_length_eq [OF secs] by (simp add: lv')
  show "que_ok lv'" using assms(4) by (simp add: lv' que_ok_def)
  have "ring (th_nxt lv') (th_prv lv') thinkercap T = ring (th_nxt lv) (th_prv lv) thinkercap T"
    unfolding ring_def using assms(6)
    by (intro arg_cong2 [where f = "(\<and>)"] dseg_cong refl) (auto simp: th_nxt_def th_prv_def lv')
  then show "thinkers_ok lv' T" using assms(1) by (simp add: thinkers_ok_def lv')
qed (simp_all add: lv' object_at_def)

text \<open>The lists of active objects are not looked at by the rest.\<close>

lemma active_level:
  assumes "lv' = lv\<lparr>activeceilings := cs, activeplats := ps\<rparr>"
  shows "level_ok lv' T S B \<longleftrightarrow> level_ok lv T S B" "object_at lv' q = object_at lv q"
proof -
  have same: "mobj_at lv' = mobj_at lv" "block_of x y lv' = block_of x y lv" for x y
    by (simp_all add: assms mobj_at_def fun_eq_iff block_of_def Let_def split: if_split)
  have "thinkers_ok lv' T \<longleftrightarrow> thinkers_ok lv T" by (rule thinkers_ok_cong) (simp add: assms)
  moreover have "things_ok A S B lv' \<longleftrightarrow> things_ok A S B lv" for A
    by (rule iffI; erule things_ok_relevant) (simp_all add: same, simp_all add: assms)
  moreover have "live lv' q \<longleftrightarrow> live lv q" for q by (simp add: live_def object_at_def assms)
  moreover have "map_ok lv' \<longleftrightarrow> map_ok lv" by (rule map_ok_heap) (simp_all add: assms)
  ultimately show "level_ok lv' T S B \<longleftrightarrow> level_ok lv T S B" by (simp add: level_ok_def que_ok_def assms)
  show "object_at lv' q = object_at lv q" by (simp add: object_at_def assms)
qed

lemma shell_active: "shell (lv\<lparr>activeceilings := cs, activeplats := ps\<rparr>) = (shell lv)\<lparr>activeceilings := cs, activeplats := ps\<rparr>"
  by (rule level.equality) (simp_all add: shell_def')

lemma unarchive_record_ok:
  assumes "level_ok lv T S B" "lv_next lv \<noteq> - 1" "read (fresh_at (lv_next lv), saveg_read_pad st) = (r, st')"
    and hook: "\<And>lvx. lv_sectors lvx = lv_sectors lv \<Longrightarrow> hook (lv_next lv) r lvx = Inr (lvx\<lparr>lv_sectors := secs\<rparr>)"
    and secs: "map sec_thinglist secs = map sec_thinglist (lv_sectors lv)"
    and active: "\<And>lvx. activeceilings lvx = activeceilings lv \<Longrightarrow> activeplats lvx = activeplats lv \<Longrightarrow>
      active (lv_next lv) lvx = Inr (lvx\<lparr>activeceilings := cs, activeplats := ps\<rparr>)"
    and func: "th_function (function (thinker_of (mk r))) \<noteq> P_MobjThinker"
  obtains lv' where "unarchive_record fresh_at read mk function hook active (lv, st) = Inr (lv', st')"
    "level_ok lv' (T @ [lv_next lv]) S B" "lv_next lv' = lv_next lv + 1"
    "shell lv' = shell (lv\<lparr>lv_sectors := secs, activeceilings := cs, activeplats := ps\<rparr>)"
    "bare (object_at lv' (lv_next lv)) = bare (set_thinker (function (thinker_of (mk r))) (mk r))"
    "\<And>q. q \<in> set T \<Longrightarrow> bare (object_at lv' q) = bare (object_at lv q)"
proof -
  let ?p = "lv_next lv" and ?A = "{q \<in> set T. live lv q}"
  note new = next_is_new [OF assms(1)]
  have ok: "thinkers_ok lv T" "things_ok ?A S B lv" "map_ok lv" "que_ok lv"
    and heap: "\<And>q. lv_objects lv q \<noteq> None \<Longrightarrow> unat q < unat ?p" using assms(1) by (simp_all add: level_ok_def)
  have pA: "?p \<notin> ?A" "?p \<notin> set T" using new(2) by simp_all
  let ?y = "set_thinker (function (thinker_of (mk r))) (mk r)"
  let ?lv1 = "store ?p (mk r) ((store ?p (mk (fresh_at ?p)) lv)\<lparr>lv_next := ?p + 1\<rparr>)"
  let ?lv2 = "?lv1\<lparr>lv_sectors := secs\<rparr>"
  define lv3 where "lv3 = store ?p ?y ?lv2"
  have h: "hook ?p r ?lv1 = Inr ?lv2" by (rule hook) (simp add: store_def)
  have f: "upd_thinker ?p function ?lv2 = Inr lv3" using upd_thinker_at [OF new(1), of ?lv2 "mk r" "function"] by (simp add: lv3_def)
  have lv3: "lv3 = lv\<lparr>lv_objects := (lv_objects lv)(?p \<mapsto> ?y), lv_next := ?p + 1, lv_sectors := secs, lv_players := lv_players lv\<rparr>"
    by (simp add: store_def lv3_def)
  note ext = extended_level [OF ok pA(1) new(2) lv3 secs]
  have "\<not> live lv3 ?p" using func by (simp add: live_def ext(6))
  moreover have same: "object_at lv3 q = object_at lv q" if "q \<in> set T" for q by (rule ext(7)) (use that pA(2) in blast)
  ultimately have "{q \<in> set (T @ [?p]). live lv3 q} = ?A" by (auto simp: live_def)
  then have things: "things_ok {q \<in> set (T @ [?p]). live lv3 q} S B lv3" using ext(2) by simp
  have heap3: "unat q < unat (lv_next lv3)" if "lv_objects lv3 q \<noteq> None" for q
    using that heap [of q] next_address [OF assms(2)] by (cases "q = ?p") (auto simp: lv3)
  have ob3: "lv_objects lv3 ?p \<noteq> None" using ext(5) by simp
  obtain lv4 where lv4: "P_AddThinker ?p lv3 = Inr lv4" "level_ok lv4 (T @ [?p]) S B" "unthreaded lv4 = unthreaded lv3"
    by (rule append_thinker [OF ext(1) things ext(3,4) heap3 ob3 new(1,2)])
  note keeps = unthreaded_keeps [OF lv4(3)]
  have act: "activeceilings lv4 = activeceilings lv" "activeplats lv4 = activeplats lv"
    by (subst unthreaded_rest [OF lv4(3)], simp add: lv3)+
  define lv5 where "lv5 = lv4\<lparr>activeceilings := cs, activeplats := ps\<rparr>"
  note lv5 = active_level [OF lv5_def]
  show ?thesis
  proof
    have "Z_Malloc (\<lambda>p. mk (fresh_at p)) lv = Inr (?p, (store ?p (mk (fresh_at ?p)) lv)\<lparr>lv_next := ?p + 1\<rparr>)" using assms(2) by (simp add: Z_Malloc_def)
    moreover have "active ?p lv4 = Inr lv5" unfolding lv5_def by (rule active [OF act])
    ultimately show "unarchive_record fresh_at read mk function hook active (lv, st) = Inr (lv5, st')"
      using assms(3) h f lv4(1) by (simp add: unarchive_record_def)
    show "level_ok lv5 (T @ [?p]) S B" using lv5(1) lv4(2) by simp
    show "lv_next lv5 = ?p + 1" using keeps(5) by (simp add: lv5_def lv3)
    have "shell lv4 = shell (lv\<lparr>lv_sectors := secs\<rparr>)" using keeps(4) by (simp add: lv3 shell_def')
    then show "shell lv5 = shell (lv\<lparr>lv_sectors := secs, activeceilings := cs, activeplats := ps\<rparr>)"
      by (simp only: lv5_def shell_active)
    show "bare (object_at lv5 ?p) = bare ?y" using keeps(8) [of ?p] ext(5,6) lv5(2) by simp
    fix q assume q: "q \<in> set T"
    then have "lv_objects lv3 q \<noteq> None" using ext(1) by (simp add: thinkers_ok_def)
    then show "bare (object_at lv5 q) = bare (object_at lv q)" using keeps(8) [of q] same [OF q] lv5(2) by simp
  qed
qed

subsection \<open>Loading a thing\<close>

lemma thinkers_ok_away:
  assumes "thinkers_ok lv T" "p \<notin> set (thinkercap # T)"
    "\<And>q. q \<noteq> p \<Longrightarrow> map_option thinker_of (lv_objects lv' q) = map_option thinker_of (lv_objects lv q)"
  shows "thinkers_ok lv' T"
proof -
  have eq: "th_nxt lv q = (case map_option thinker_of (lv_objects lv q) of None \<Rightarrow> 0 | Some t \<Rightarrow> th_next t)"
    "th_prv lv q = (case map_option thinker_of (lv_objects lv q) of None \<Rightarrow> 0 | Some t \<Rightarrow> th_prev t)" for lv q
    by (simp_all add: th_nxt_def th_prv_def split: option.split)
  have same: "th_nxt lv' q = th_nxt lv q" "th_prv lv' q = th_prv lv q" "lv_objects lv' q = None \<longleftrightarrow> lv_objects lv q = None" if "q \<in> set (thinkercap # T)" for q
  proof -
    have "q \<noteq> p" using that assms(2) by blast
    note a = assms(3) [OF this]
    show "th_nxt lv' q = th_nxt lv q" "th_prv lv' q = th_prv lv q" unfolding eq a by simp_all
    show "lv_objects lv' q = None \<longleftrightarrow> lv_objects lv q = None" using a by (metis option.map_disc_iff)
  qed
  have "dseg (th_nxt lv') (th_prv lv') thinkercap T thinkercap = dseg (th_nxt lv) (th_prv lv) thinkercap T thinkercap"
    using same(1,2) by (intro dseg_cong) auto
  then show ?thesis using assms(1) same(3) by (simp add: thinkers_ok_def ring_def)
qed

lemma heights_unlinked: "unlinked lv' = unlinked lv \<Longrightarrow> heights lv' = heights lv"
  by (drule shell_unlinked) (metis heights_shell)

lemma place_mobj_ok:
  assumes ok: "thinkers_ok lv T" "things_ok {q \<in> set T. live lv q} S B lv" "map_ok lv" "que_ok lv"
    and heap: "\<And>q. lv_objects lv q \<noteq> None \<Longrightarrow> unat q < unat (lv_next lv)"
    and p: "lv_objects lv p = Some (Mobj m)" "p \<noteq> 0" "p \<notin> set (thinkercap # T)" "mo_target m = 0" "mo_tracer m = 0"
  obtains lv' S' B' where "place_mobj p lv = Inr lv'" "level_ok lv' (T @ [p]) S' B'" "lv_next lv' = lv_next lv" "shell lv' = shell lv"
    "bare (object_at lv' p) = bare (Mobj (expect_mobj lv m))" "\<And>q. q \<in> set T \<Longrightarrow> bare (object_at lv' q) = bare (object_at lv q)"
proof -
  let ?A = "{q \<in> set T. live lv q}"
  have pA: "p \<notin> ?A" "p \<notin> set T" using p(3) by simp_all
  have at: "mobj_at lv p = Some m" using p(1) by (simp add: mobj_at_def)
  obtain lv1 ss S' B' where lv1: "P_SetThingPosition p lv = Inr lv1" "things_ok (insert p ?A) S' B' lv1"
    "R_PointInSubsector (mo_x m) (mo_y m) lv = Inr ss" "ss < length (lv_subsectors lv)" "ss < 4294967296"
    "unlinked lv1 = unlinked (store p (Mobj (m\<lparr>mo_subsector := of_nat ss\<rparr>)) lv)"
    by (rule set_position_ok [OF ok(2,3) p(2) pA(1) at])
  let ?lv0 = "store p (Mobj (m\<lparr>mo_subsector := of_nat ss\<rparr>)) lv"
  obtain m1 where m1: "mobj_at lv1 p = Some m1" "no_slinks (no_blinks m1) = no_slinks (no_blinks (m\<lparr>mo_subsector := of_nat ss\<rparr>))"
    using mobj_at_unlinked [OF lv1(6), of p] by auto
  have ss1: "unat (mo_subsector m1) = ss" using same_but_links(4) [OF m1(2)] lv1(5) by (simp add: unat_of_nat_small)
  let ?sec = "lv_subsectors lv ! ss"
  have sec: "?sec < length (lv_sectors lv)" using ok(3) lv1(4) by (simp add: map_ok_def)
  have sub: "subsector_sector ss lv1 = Inr ?sec" using same_map(2) [OF lv1(6)] lv1(4) by (simp add: subsector_sector_def)
  have len: "length (lv_sectors lv1) = length (lv_sectors lv)" using same_map(4) [OF lv1(6)] by simp
  let ?s = "lv_sectors lv1 ! ?sec"
  have h: "sec_floorheight ?s = sec_floorheight (lv_sectors lv ! ?sec) \<and> sec_ceilingheight ?s = sec_ceilingheight (lv_sectors lv ! ?sec)"
    using arg_cong [OF heights_unlinked [OF lv1(6)], of "\<lambda>hs. hs ! ?sec"] sec len by (simp add: heights_def)
  define m2 where "m2 = m1\<lparr>mo_info := mo_type m1, mo_floorz := sec_floorheight ?s, mo_ceilingz := sec_ceilingheight ?s,
    mo_thinker := (mo_thinker m1)\<lparr>th_function := P_MobjThinker\<rparr>\<rparr>"
  define lv2 where "lv2 = store p (Mobj m2) lv1"
  have ob1: "map_option unlinked_object (lv_objects lv1 q) = map_option unlinked_object (lv_objects lv q)" if "q \<noteq> p" for q
    using unlinked_objects_eq [OF lv1(6), of q] that by simp
  have th2: "thinkers_ok lv2 T"
    by (rule thinkers_ok_away [OF ok(1) p(3)]) (simp add: lv2_def thinker_of_unlinked [OF ob1])
  have things2: "things_ok (insert p ?A) S' B' lv2"
    by (rule things_ok_relevant [OF lv1(2)]) (simp_all add: lv2_def m1(1) m2_def relevant_def)
  have obT: "lv_objects lv q \<noteq> None" if "q \<in> set T" for q using ok(1) that by (simp add: thinkers_ok_def)
  have o2: "unlinked_object (object_at lv2 q) = unlinked_object (object_at lv q)" if "q \<in> set T" for q
  proof -
    have "q \<noteq> p" using that pA(2) by blast
    from object_at_eq(2) [OF ob1 [OF this] obT [OF that]] this show ?thesis by (simp add: lv2_def object_at_def)
  qed
  have "live lv2 q \<longleftrightarrow> live lv q" if "q \<in> set T" for q using o2 [OF that] by (metis live_def unlinked_object_thinker)
  moreover have "live lv2 p" by (simp add: live_def object_at_def lv2_def m2_def)
  ultimately have "{q \<in> set (T @ [p]). live lv2 q} = insert p ?A" by auto
  then have things: "things_ok {q \<in> set (T @ [p]). live lv2 q} S' B' lv2" using things2 by simp
  have map2: "map_ok lv2" using ok(3) same_map(6) [OF lv1(6)] by (simp add: lv2_def)
  have sh: "shell lv2 = shell lv" using shell_unlinked [OF lv1(6)] by (simp add: lv2_def)
  have que: "itemrespawnque (shell lv) = itemrespawnque lv" "iquehead (shell lv) = iquehead lv" for lv by (simp_all add: shell_def')
  have que2: "que_ok lv2" using ok(4) sh que unfolding que_ok_def by metis
  have nx: "lv_next (unlinked lv) = lv_next lv" for lv by (simp add: unlinked_def sector_unlinked_def block_unlinked_def)
  have next2: "lv_next lv2 = lv_next lv" using nx [of lv1] nx [of ?lv0] lv1(6) by (simp add: lv2_def store_def)
  have heap2: "unat q < unat (lv_next lv2)" if "lv_objects lv2 q \<noteq> None" for q
  proof (cases "q = p")
    case True
    then show ?thesis using heap p(1) next2 by simp
  next
    case False
    then have "lv_objects lv1 q \<noteq> None" using that by (simp add: lv2_def)
    then have "lv_objects lv q \<noteq> None" using ob1 [OF False] by (metis option.map_disc_iff)
    then show ?thesis using heap next2 by simp
  qed
  have ob2: "lv_objects lv2 p \<noteq> None" by (simp add: lv2_def)
  obtain lv3 where lv3: "P_AddThinker p lv2 = Inr lv3" "level_ok lv3 (T @ [p]) S' B'" "unthreaded lv3 = unthreaded lv2"
    by (rule append_thinker [OF th2 things map2 que2 heap2 ob2 p(2,3)])
  note keeps = unthreaded_keeps [OF lv3(3)]
  show ?thesis
  proof
    have sat: "sector_at ?sec lv1 = Inr ?s" using sec len by (simp add: sector_at_def)
    show "place_mobj p lv = Inr lv3"
      using lv3(1) unfolding lv2_def m2_def
      by (simp add: place_mobj_def lv1(1) load_mobj_at [OF p(2) m1(1)] ss1 sub sat upd_mobj_at [OF p(2) m1(1)])
    show "level_ok lv3 (T @ [p]) S' B'" by (rule lv3(2))
    show "lv_next lv3 = lv_next lv" using keeps(5) next2 by simp
    show "shell lv3 = shell lv" using keeps(4) sh by simp
    have f: "mo_thinker m1 = mo_thinker m" using same_but_links(5) [OF m1(2)] by simp
    have "mo_type m1 = mo_type m" using arg_cong [OF m1(2), of mo_type] by (simp add: no_slinks_def no_blinks_def)
    then have "no_slinks (no_blinks m2) = (no_slinks (no_blinks (m\<lparr>mo_subsector := of_nat ss\<rparr>)))\<lparr>mo_info := mo_type m,
        mo_floorz := sec_floorheight ?s, mo_ceilingz := sec_ceilingheight ?s, mo_thinker := (mo_thinker m)\<lparr>th_function := P_MobjThinker\<rparr>\<rparr>"
      unfolding m1(2) [symmetric] by (simp add: m2_def f no_slinks_def no_blinks_def)
    also have "\<dots> = no_slinks (no_blinks (expect_mobj lv m))"
      using h p(4,5) unfolding expect_mobj_def Let_def lv1(3) sum.case
      by (simp add: no_slinks_def no_blinks_def sets_function_def mobj.equality)
    finally have "unlinked_object (Mobj m2) = unlinked_object (Mobj (expect_mobj lv m))" by (simp add: unlinked_object_def)
    then have "bare (Mobj m2) = bare (Mobj (expect_mobj lv m))" by (rule bare_unlinked)
    moreover have "object_at lv2 p = Mobj m2" by (simp add: object_at_def lv2_def)
    ultimately show "bare (object_at lv3 p) = bare (Mobj (expect_mobj lv m))" using keeps(8) [OF ob2] by simp
    fix q assume q: "q \<in> set T"
    have "lv_objects lv2 q \<noteq> None" using th2 q by (simp add: thinkers_ok_def)
    then show "bare (object_at lv3 q) = bare (object_at lv q)" using keeps(8) [of q] bare_unlinked [OF o2 [OF q]] by simp
  qed
qed

lemma unarchive_mobj_ok:
  assumes "level_ok lv T S B" "lv_next lv \<noteq> - 1" "saveg_read_mobj_t (fresh_mobj fr (lv_next lv), saveg_read_pad st) = (m, st')"
    "mobj_ok m" "length (lv_players lv) = MAXPLAYERS"
  obtains lv' S' B' where "unarchive_mobj fr (lv, st) = Inr (lv', st')" "level_ok lv' (T @ [lv_next lv]) S' B'" "lv_next lv' = lv_next lv + 1"
    "shell lv' = shell (attach (lv_next lv) (Mobj m) lv)"
    "bare (object_at lv' (lv_next lv)) = bare (expect fr lv (lv_next lv) (Mobj m))"
    "\<And>q. q \<in> set T \<Longrightarrow> bare (object_at lv' q) = bare (object_at lv q)"
proof -
  let ?p = "lv_next lv" and ?A = "{q \<in> set T. live lv q}"
  note new = next_is_new [OF assms(1)]
  have ok: "thinkers_ok lv T" "things_ok ?A S B lv" "map_ok lv" "que_ok lv"
    and heap: "\<And>q. lv_objects lv q \<noteq> None \<Longrightarrow> unat q < unat ?p" using assms(1) by (simp_all add: level_ok_def)
  have pA: "?p \<notin> ?A" "?p \<notin> set T" using new(2) by simp_all
  let ?m = "m\<lparr>mo_target := 0, mo_tracer := 0\<rparr>"
  let ?lv1 = "(store ?p (Mobj (fresh_mobj fr ?p)) lv)\<lparr>lv_next := ?p + 1\<rparr>"
  define pls where "pls = lv_players (attach ?p (Mobj m) lv)"
  have player: "(case mo_player m of None \<Rightarrow> Inr ?lv1 | Some pl \<Rightarrow> set_player_mo (unat pl) ?p ?lv1) = Inr (?lv1\<lparr>lv_players := pls\<rparr>)"
    using assms(4,5) by (cases "mo_player m") (simp_all add: pls_def mobj_ok_def set_player_mo_def store_def)
  define lv2 where "lv2 = store ?p (Mobj ?m) (?lv1\<lparr>lv_players := pls\<rparr>)"
  have lv2: "lv2 = lv\<lparr>lv_objects := (lv_objects lv)(?p \<mapsto> Mobj ?m), lv_next := ?p + 1, lv_sectors := lv_sectors lv, lv_players := pls\<rparr>"
    by (simp add: lv2_def store_def)
  note ext = extended_level [OF ok pA(1) new(2) lv2 refl]
  have same: "object_at lv2 q = object_at lv q" if "q \<in> set T" for q by (rule ext(7)) (use that pA(2) in blast)
  then have "{q \<in> set T. live lv2 q} = ?A" by (auto simp: live_def)
  then have things: "things_ok {q \<in> set T. live lv2 q} S B lv2" using ext(2) by simp
  have heap2: "unat q < unat (lv_next lv2)" if "lv_objects lv2 q \<noteq> None" for q
    using that heap [of q] next_address [OF assms(2)] by (cases "q = ?p") (auto simp: lv2)
  obtain lv3 S' B' where lv3: "place_mobj ?p lv2 = Inr lv3" "level_ok lv3 (T @ [?p]) S' B'" "lv_next lv3 = lv_next lv2" "shell lv3 = shell lv2"
    "bare (object_at lv3 ?p) = bare (Mobj (expect_mobj lv2 ?m))" "\<And>q. q \<in> set T \<Longrightarrow> bare (object_at lv3 q) = bare (object_at lv2 q)"
    by (rule place_mobj_ok [OF ext(1) things ext(3,4) heap2 ext(5) new(1,2)]) auto
  show ?thesis
  proof
    have "Z_Malloc (\<lambda>p. Mobj (fresh_mobj fr p)) lv = Inr (?p, ?lv1)" using assms(2) by (simp add: Z_Malloc_def)
    then show "unarchive_mobj fr (lv, st) = Inr (lv3, st')"
      using assms(3) player lv3(1) by (simp add: unarchive_mobj_def lv2_def)
    show "level_ok lv3 (T @ [?p]) S' B'" by (rule lv3(2))
    show "lv_next lv3 = ?p + 1" using lv3(3) by (simp add: lv2)
    have "shell lv2 = shell (lv\<lparr>lv_players := pls\<rparr>)" by (simp add: lv2 shell_def')
    also have "\<dots> = shell (attach ?p (Mobj m) lv)" by (simp add: pls_def split: option.split)
    finally show "shell lv3 = shell (attach ?p (Mobj m) lv)" using lv3(4) by simp
    have "expect_mobj lv2 ?m = expect_mobj lv2 m" by (simp add: expect_mobj_def Let_def)
    moreover have "expect fr lv2 ?p (Mobj m) = expect fr lv ?p (Mobj m)"
      by (rule expect_cong [OF ok(3)]) (simp_all add: lv2 heights_def)
    ultimately show "bare (object_at lv3 ?p) = bare (expect fr lv ?p (Mobj m))" using lv3(5) by simp
    show "bare (object_at lv3 q) = bare (object_at lv q)" if "q \<in> set T" for q using lv3(6) same that by simp
  qed
qed

end
