(* ===== verification/P_Archive_Trip.thy ===== *)
theory P_Archive_Trip
  imports P_Archive_Load
begin

text \<open>
  A game saved and loaded: what \<open>P_ArchiveThinkers\<close> and \<open>P_ArchiveSpecials\<close> write for the objects of a
  level, the loops of their counterparts read back, object by object.
\<close>

subsection \<open>The objects that are saved\<close>

definition is_thing :: "object \<Rightarrow> bool" where
  "is_thing x \<longleftrightarrow> th_function (thinker_of x) = P_MobjThinker"

definition is_special :: "ptr list \<Rightarrow> ptr \<Rightarrow> object \<Rightarrow> bool" where
  "is_special ceilings p x \<longleftrightarrow> th_function (thinker_of x) = 0 \<and> p \<in> set ceilings
     \<or> th_function (thinker_of x) \<in> {T_MoveCeiling, T_VerticalDoor, T_MoveFloor, T_PlatRaise, T_LightFlash, T_StrobeFlash, T_Glow}"

text \<open>An object is of the kind that its function works on, or waits to be freed (\<open>P_RemoveThinker\<close>).\<close>

definition typed :: "ptr list \<Rightarrow> ptr \<Rightarrow> object \<Rightarrow> bool" where
  "typed ceilings p x \<longleftrightarrow> (let f = th_function (thinker_of x) in
     f = - 1 \<or> (case x of
        Mobj _ \<Rightarrow> f = P_MobjThinker \<or> \<not> is_special ceilings p x \<and> f \<notin> {T_FireFlicker, T_MoveElevator}
      | Ceiling _ \<Rightarrow> f = T_MoveCeiling \<or> f = 0
      | Door _ \<Rightarrow> f = T_VerticalDoor
      | Floor _ \<Rightarrow> f = T_MoveFloor
      | Plat _ \<Rightarrow> f = T_PlatRaise \<or> f = 0 \<and> p \<notin> set ceilings
      | Flash _ \<Rightarrow> f = T_LightFlash
      | Strobe _ \<Rightarrow> f = T_StrobeFlash
      | Glow _ \<Rightarrow> f = T_Glow
      | Flicker _ \<Rightarrow> f = T_FireFlicker
      | Elevator _ \<Rightarrow> f = T_MoveElevator
      | Other _ \<Rightarrow> f \<noteq> P_MobjThinker \<and> \<not> is_special ceilings p x \<and> f \<notin> {T_FireFlicker, T_MoveElevator}))"

definition well_typed :: "level \<Rightarrow> ptr list \<Rightarrow> bool" where
  "well_typed lv T \<longleftrightarrow> (\<forall>p \<in> set T. typed (activeceilings lv) p (object_at lv p))"

definition things_of :: "level \<Rightarrow> ptr list \<Rightarrow> object list" where
  "things_of lv T = filter is_thing (map (object_at lv) T)"

definition specials_of :: "level \<Rightarrow> ptr list \<Rightarrow> object list" where
  "specials_of lv T = map (object_at lv) (filter (\<lambda>p. is_special (activeceilings lv) p (object_at lv p)) T)"

fun archive_object :: "object \<Rightarrow> save \<Rightarrow> save" where
  "archive_object (Mobj m) = archive_record tc_mobj (saveg_write_mobj_t m)"
| "archive_object (Ceiling c) = archive_record tc_ceiling (saveg_write_ceiling_t c)"
| "archive_object (Door d) = archive_record tc_door (saveg_write_vldoor_t d)"
| "archive_object (Floor f) = archive_record tc_floor (saveg_write_floormove_t f)"
| "archive_object (Plat p) = archive_record tc_plat (saveg_write_plat_t p)"
| "archive_object (Flash l) = archive_record tc_flash (saveg_write_lightflash_t l)"
| "archive_object (Strobe l) = archive_record tc_strobe (saveg_write_strobe_t l)"
| "archive_object (Glow l) = archive_record tc_glow (saveg_write_glow_t l)"
| "archive_object (Flicker l) = (\<lambda>st. st)"
| "archive_object (Elevator e) = (\<lambda>st. st)"
| "archive_object (Other t) = (\<lambda>st. st)"

lemma thinker_functions_differ [simp]:
  "P_MobjThinker \<noteq> 0" "T_MoveCeiling \<noteq> 0" "T_VerticalDoor \<noteq> 0" "T_MoveFloor \<noteq> 0" "T_PlatRaise \<noteq> 0" "T_LightFlash \<noteq> 0"
  "T_StrobeFlash \<noteq> 0" "T_Glow \<noteq> 0" "T_MoveCeiling \<noteq> P_MobjThinker" "T_VerticalDoor \<noteq> P_MobjThinker" "T_MoveFloor \<noteq> P_MobjThinker"
  "T_PlatRaise \<noteq> P_MobjThinker" "T_LightFlash \<noteq> P_MobjThinker" "T_StrobeFlash \<noteq> P_MobjThinker" "T_Glow \<noteq> P_MobjThinker"
  "T_FireFlicker \<noteq> P_MobjThinker" "T_MoveElevator \<noteq> P_MobjThinker" "P_MobjThinker \<noteq> - 1" "T_MoveCeiling \<noteq> - 1" "T_VerticalDoor \<noteq> - 1"
  "T_MoveFloor \<noteq> - 1" "T_PlatRaise \<noteq> - 1" "T_LightFlash \<noteq> - 1" "T_StrobeFlash \<noteq> - 1" "T_Glow \<noteq> - 1"
  by (simp_all add: thinker_functions)

lemmas thinker_functions_differ_sym [simp] = thinker_functions_differ [THEN not_sym]

lemma thinker_functions_distinct:
  "distinct [T_MoveCeiling, T_VerticalDoor, T_MoveFloor, T_PlatRaise, T_LightFlash, T_StrobeFlash, T_Glow]"
  by (simp add: thinker_functions)

lemma archive_thinker_typed:
  "typed ceilings p x \<Longrightarrow> archive_thinker p x st = Inr (if is_thing x then archive_object x st else st)"
  by (cases x) (auto simp: typed_def archive_thinker_def is_thing_def archive_record_def Let_def)

lemma archive_special_typed:
  assumes "typed ceilings p x"
  shows "archive_special ceilings p x st = Inr (if is_special ceilings p x then archive_object x st else st)"
proof (cases "th_function (thinker_of x) = - 1")
  case True
  then show ?thesis by (simp add: archive_special_def is_special_def Let_def thinker_functions)
next
  case False
  show ?thesis
  proof (cases x)
    case (Mobj m)
    then show ?thesis using assms False by (auto simp: typed_def archive_special_def is_special_def Let_def)
  next
    case (Other t)
    then show ?thesis using assms False by (simp add: typed_def archive_special_def is_special_def Let_def)
  qed (use assms False in \<open>auto simp: typed_def archive_special_def is_special_def Let_def thinker_functions\<close>)
qed

lemma foldR_filter:
  assumes "\<And>p st. p \<in> set T \<Longrightarrow> f p st = Inr (if P p then g p st else st)"
  shows "foldR f T st = Inr (stmts (map g (filter P T)) st)"
  using assms by (induction T arbitrary: st) (auto simp: stmts_simps)

lemma archive_things:
  assumes "thinkers_ok lv T" "well_typed lv T"
  shows "P_ArchiveThinkers lv st = Some (Inr (stmts (map archive_object (things_of lv T) @ [saveg_write8 tc_end]) st))"
proof -
  have "foldR (\<lambda>p. archive_thinker p (object_at lv p)) T st = Inr (stmts (map (\<lambda>p. archive_object (object_at lv p)) (filter (\<lambda>p. is_thing (object_at lv p)) T)) st)"
    by (rule foldR_filter) (use assms(2) in \<open>simp add: well_typed_def archive_thinker_typed [of "activeceilings lv"]\<close>)
  moreover have "map (\<lambda>p. archive_object (object_at lv p)) (filter (\<lambda>p. is_thing (object_at lv p)) T) = map archive_object (things_of lv T)"
    by (simp add: things_of_def filter_map comp_def)
  ultimately show ?thesis by (simp add: P_ArchiveThinkers_def archive_all_walk [OF assms(1)] stmts_append stmts_simps)
qed

lemma archive_specials:
  assumes "thinkers_ok lv T" "well_typed lv T"
  shows "P_ArchiveSpecials lv st = Some (Inr (stmts (map archive_object (specials_of lv T) @ [saveg_write8 tc_endspecials]) st))"
proof -
  have "foldR (\<lambda>p. archive_special (activeceilings lv) p (object_at lv p)) T st
      = Inr (stmts (map (\<lambda>p. archive_object (object_at lv p)) (filter (\<lambda>p. is_special (activeceilings lv) p (object_at lv p)) T)) st)"
    by (rule foldR_filter) (use assms(2) in \<open>simp add: well_typed_def archive_special_typed\<close>)
  then show ?thesis by (simp add: P_ArchiveSpecials_def archive_all_walk [OF assms(1)] stmts_append stmts_simps specials_of_def comp_def)
qed

subsection \<open>Loading them\<close>

text \<open>What an object needs of the level it is loaded into.\<close>

fun loadable :: "nat \<Rightarrow> object \<Rightarrow> bool" where
  "loadable n (Mobj m) = mobj_ok m"
| "loadable n (Ceiling c) = (unat (ceil_sector c) < n)"
| "loadable n (Door d) = (unat (door_sector d) < n)"
| "loadable n (Floor f) = (unat (floor_sector f) < n)"
| "loadable n (Plat p) = (unat (plat_sector p) < n)"
| "loadable n _ = True"

fun is_plat :: "object \<Rightarrow> bool" where
  "is_plat (Plat p) = True"
| "is_plat _ = False"

definition free_places :: "ptr list \<Rightarrow> nat" where
  "free_places ps = length (filter (\<lambda>p. p = 0) ps)"

definition has_room :: "level \<Rightarrow> object list \<Rightarrow> bool" where
  "has_room lv xs \<longleftrightarrow> length (lv_players lv) = MAXPLAYERS \<and> list_all (loadable (length (lv_sectors lv))) xs
     \<and> length (filter is_plat xs) \<le> free_places (activeplats lv) \<and> unat (lv_next lv) + length xs < 4294967296"

text \<open>Reading one object of the saved ones.\<close>

definition loads :: "fresh \<Rightarrow> (u8 \<Rightarrow> (level \<times> save \<Rightarrow> (level \<times> save) res) option) \<Rightarrow> u8 \<Rightarrow> object \<Rightarrow> bool" where
  "loads fr class marker x \<longleftrightarrow> keeps_error (archive_object x) \<and> (\<forall>p. \<exists>bs. writes p (archive_object x) bs
     \<and> (\<forall>lv0 lv T xs ys st. ss_pos st = p \<longrightarrow> here bs st \<longrightarrow> loading fr lv0 lv T xs \<longrightarrow> has_room lv (x # ys) \<longrightarrow>
          (\<exists>lv'. read_thinkers class marker (lv, st) = read_thinkers class marker (lv', skipped (length bs) st)
             \<and> loading fr lv0 lv' (T @ [lv_next lv]) (xs @ [x]) \<and> has_room lv' ys)))"

lemma codec_record:
  assumes "codec w r g"
  shows "keeps_error (archive_record tc w)"
    "\<exists>bs. writes p (archive_record tc w) bs \<and> (\<forall>st y. ss_pos st = p \<longrightarrow> here bs st \<longrightarrow>
       saveg_read8 st = (tc, skipped 1 st) \<and> r (y, saveg_read_pad (skipped 1 st)) = (g y, skipped (length bs) st))"
proof -
  have w: "keeps_error w" using assms by (simp add: codec_def)
  have pad: "keeps_error saveg_write_pad" using codec_pad [where 'a = unit] by (simp add: codec_def)
  show "keeps_error (archive_record tc w)"
    unfolding archive_record_def by (rule keeps_error_stmts) (use w pad keeps_error_8 in auto)
  have ke: "keeps_error (stmts [w])" "keeps_error (stmts [saveg_write_pad, w])"
    by (rule keeps_error_stmts, use w pad in auto)+
  obtain bs1 where b1: "writes (p + 1) saveg_write_pad bs1"
    "reads (p + 1) (\<lambda>(x, st). (x, saveg_read_pad st)) (\<lambda>x. x :: unit) bs1" using codec_pad unfolding codec_def by blast
  obtain bs2 where b2: "writes (p + 1 + length bs1) w bs2" "reads (p + 1 + length bs1) r g bs2" using assms unfolding codec_def by blast
  have w2: "writes (p + 1 + length bs1) (stmts [w]) bs2"
    using writes_Cons [OF b2(1) writes_Nil keeps_error_stmts] by simp
  have "writes (p + 1) (stmts [saveg_write_pad, w]) (bs1 @ bs2)" by (rule writes_Cons [OF b1(1) w2 ke(1)])
  then have "writes p (archive_record tc w) ([tc] @ bs1 @ bs2)"
    unfolding archive_record_def by (intro writes_Cons [OF writes_8 _ ke(2)]) simp
  moreover have "saveg_read8 st = (tc, skipped 1 st) \<and> r (y, saveg_read_pad (skipped 1 st)) = (g y, skipped (length ([tc] @ bs1 @ bs2)) st)"
    if "ss_pos st = p" "here ([tc] @ bs1 @ bs2) st" for st y
  proof -
    have h: "here [tc] st" "here bs1 (skipped 1 st)" "here bs2 (skipped (1 + length bs1) st)"
      using that(2) [unfolded here_append] by simp_all
    have "saveg_read_pad (skipped 1 st) = skipped (1 + length bs1) st" using b1(2) h(2) that(1) by (simp add: reads_def)
    moreover have "r (y, skipped (1 + length bs1) st) = (g y, skipped (1 + length bs1 + length bs2) st)"
      using b2(2) h(3) that(1) by (simp add: reads_def add.assoc)
    ultimately show ?thesis using here_byte [OF h(1)] by (simp add: add.assoc)
  qed
  ultimately show "\<exists>bs. writes p (archive_record tc w) bs \<and> (\<forall>st y. ss_pos st = p \<longrightarrow> here bs st \<longrightarrow>
       saveg_read8 st = (tc, skipped 1 st) \<and> r (y, saveg_read_pad (skipped 1 st)) = (g y, skipped (length bs) st))" by blast
qed

text \<open>The step of a loading that has read \<open>x\<close>.\<close>

lemma loadable_attach: "loadable (length (lv_sectors lv)) x \<Longrightarrow> length (lv_sectors (attach p y lv)) = length (lv_sectors lv)"
  by (cases y) (simp_all add: hook_in_def split: option.split)

lemma free_places_add:
  assumes "p \<noteq> 0" "0 < free_places ps"
  shows "\<exists>i < length ps. ps ! i = 0 \<and> find (\<lambda>i. ps ! i = 0) [0..<length ps] = Some i" "free_places (add_active p ps) = free_places ps - 1"
proof -
  have "filter (\<lambda>p. p = 0) ps \<noteq> []" using assms(2) by (auto simp: free_places_def)
  then obtain k where "k < length ps" "ps ! k = 0" by (auto simp: filter_empty_conv in_set_conv_nth)
  then have "find (\<lambda>i. ps ! i = 0) [0..<length ps] \<noteq> None" by (auto simp: find_None_iff)
  then obtain i where i: "find (\<lambda>i. ps ! i = 0) [0..<length ps] = Some i" by blast
  then have z: "i < length ps" "ps ! i = 0" by (auto simp: find_Some_iff)
  then show "\<exists>i < length ps. ps ! i = 0 \<and> find (\<lambda>i. ps ! i = 0) [0..<length ps] = Some i" using i by blast
  have ps: "ps = take i ps @ 0 # drop (Suc i) ps" using id_take_nth_drop [OF z(1)] z(2) by simp
  have "free_places ps = Suc (length (filter (\<lambda>p. p = 0) (take i ps)) + length (filter (\<lambda>p. p = 0) (drop (Suc i) ps)))"
    using arg_cong [OF ps, of "\<lambda>ps. length (filter (\<lambda>p. p = 0) ps)"] by (simp add: free_places_def)
  moreover have "add_active p ps = take i ps @ p # drop (Suc i) ps" using z(1) by (simp add: add_active_def i upd_conv_take_nth_drop)
  ultimately show "free_places (add_active p ps) = free_places ps - 1" using assms(1) by (simp add: free_places_def)
qed

lemma loads_step:
  assumes "loading fr lv0 lv T xs" "has_room lv (x # ys)" "level_ok lv' (T @ [lv_next lv]) S B" "lv_next lv' = lv_next lv + 1"
    "shell lv' = shell (attach (lv_next lv) x lv)" "bare (object_at lv' (lv_next lv)) = bare (expect fr lv (lv_next lv) x)"
    "\<And>q. q \<in> set T \<Longrightarrow> bare (object_at lv' q) = bare (object_at lv q)"
  shows "loading fr lv0 lv' (T @ [lv_next lv]) (xs @ [x]) \<and> has_room lv' ys"
proof
  let ?p = "lv_next lv"
  obtain S0 B0 where ok: "level_ok lv T S0 B0" using assms(1) unfolding loading_def by blast
  have p0: "?p \<noteq> 0" by (rule next_is_new(1) [OF ok])
  have "map_ok lv" using ok by (simp add: level_ok_def)
  moreover have "lv_nodes lv' = lv_nodes lv" using arg_cong [OF assms(5), of lv_nodes] by simp
  moreover have "lv_subsectors lv' = lv_subsectors lv" using arg_cong [OF assms(5), of lv_subsectors] by simp
  moreover have "heights lv' = heights lv" using arg_cong [OF assms(5), of heights] by simp
  ultimately have "expect fr lv' ?p x = expect fr lv ?p x" by (rule expect_cong)
  then show "loading fr lv0 lv' (T @ [?p]) (xs @ [x])"
    by (intro loading_step [OF assms(1,3) _ assms(5,7)]) (simp_all add: as_saved_def assms(6))
  have room: "length (lv_players lv) = MAXPLAYERS" "loadable (length (lv_sectors lv)) x" "list_all (loadable (length (lv_sectors lv))) ys"
    "(if is_plat x then 1 else 0) + length (filter is_plat ys) \<le> free_places (activeplats lv)" "unat ?p + Suc (length ys) < 4294967296"
    using assms(2) by (simp_all add: has_room_def split: if_splits)
  have sh: "lv_players (shell lv) = lv_players lv" "length (lv_sectors (shell lv)) = length (lv_sectors lv)" "activeplats (shell lv) = activeplats lv" for lv
    by (simp_all add: shell_def')
  have "length (lv_players (attach ?p x lv)) = length (lv_players lv)" by (cases x) (simp_all split: option.split)
  then have "length (lv_players lv') = MAXPLAYERS" using arg_cong [OF assms(5), of lv_players] room(1) by (simp add: sh)
  moreover have "length (lv_sectors lv') = length (lv_sectors lv)"
    using arg_cong [OF assms(5), of "\<lambda>lv. length (lv_sectors lv)"] loadable_attach [OF room(2)] by (simp add: sh)
  moreover have "length (filter is_plat ys) \<le> free_places (activeplats lv')"
  proof -
    have "activeplats lv' = activeplats (attach ?p x lv)" using arg_cong [OF assms(5), of activeplats] by (simp add: sh)
    moreover have "free_places (add_active ?p (activeplats lv)) = free_places (activeplats lv) - 1" if "0 < free_places (activeplats lv)"
      by (rule free_places_add(2) [OF p0 that])
    ultimately show ?thesis using room(4) by (cases x) (simp_all split: option.split)
  qed
  moreover have "unat (- 1 :: u32) = 4294967295" by (simp add: unsigned_minus_1_eq_mask mask_eq_exp_minus_1)
  then have "?p \<noteq> - 1" using room(5) by auto
  ultimately show "has_room lv' ys" using room(3,5) assms(4) next_address [of ?p] by (simp add: has_room_def)
qed

lemma loads_record:
  assumes arch: "archive_object x = archive_record tc w" and codec: "codec w r g" and tc: "tc \<noteq> marker" "class tc = Some f"
    and step: "\<And>lv T S B st st'. level_ok lv T S B \<Longrightarrow> lv_next lv \<noteq> - 1 \<Longrightarrow> loadable (length (lv_sectors lv)) x \<Longrightarrow>
      length (lv_players lv) = MAXPLAYERS \<Longrightarrow> (is_plat x \<Longrightarrow> 0 < free_places (activeplats lv)) \<Longrightarrow>
      (\<And>y. r (y, saveg_read_pad st) = (g y, st')) \<Longrightarrow>
      \<exists>lv' S' B'. f (lv, st) = Inr (lv', st') \<and> level_ok lv' (T @ [lv_next lv]) S' B' \<and> lv_next lv' = lv_next lv + 1
        \<and> shell lv' = shell (attach (lv_next lv) x lv) \<and> bare (object_at lv' (lv_next lv)) = bare (expect fr lv (lv_next lv) x)
        \<and> (\<forall>q \<in> set T. bare (object_at lv' q) = bare (object_at lv q))"
  shows "loads fr class marker x"
  unfolding loads_def
proof (intro conjI allI)
  show "keeps_error (archive_object x)" unfolding arch by (rule codec_record(1) [OF codec])
  fix p
  obtain bs where bs: "writes p (archive_record tc w) bs" "\<And>st y. ss_pos st = p \<Longrightarrow> here bs st \<Longrightarrow>
      saveg_read8 st = (tc, skipped 1 st) \<and> r (y, saveg_read_pad (skipped 1 st)) = (g y, skipped (length bs) st)"
    using codec_record(2) [OF codec, of p tc] by blast
  have "\<exists>lv'. read_thinkers class marker (lv, st) = read_thinkers class marker (lv', skipped (length bs) st)
      \<and> loading fr lv0 lv' (T @ [lv_next lv]) (xs @ [x]) \<and> has_room lv' ys"
    if "ss_pos st = p" "here bs st" and l: "loading fr lv0 lv T xs" and room: "has_room lv (x # ys)" for lv0 lv T xs ys st
  proof -
    have rd: "saveg_read8 st = (tc, skipped 1 st)" "\<And>y. r (y, saveg_read_pad (skipped 1 st)) = (g y, skipped (length bs) st)"
      using bs(2) [OF that(1,2)] by simp_all
    obtain S B where ok: "level_ok lv T S B" using l unfolding loading_def by blast
    have "unat (- 1 :: u32) = 4294967295" by (simp add: unsigned_minus_1_eq_mask mask_eq_exp_minus_1)
    then have n: "lv_next lv \<noteq> - 1" using room by (auto simp: has_room_def)
    have r: "loadable (length (lv_sectors lv)) x" "length (lv_players lv) = MAXPLAYERS" "is_plat x \<Longrightarrow> 0 < free_places (activeplats lv)"
      using room by (auto simp: has_room_def)
    obtain lv' S' B' where lv': "f (lv, skipped 1 st) = Inr (lv', skipped (length bs) st)" "level_ok lv' (T @ [lv_next lv]) S' B'"
      "lv_next lv' = lv_next lv + 1" "shell lv' = shell (attach (lv_next lv) x lv)"
      "bare (object_at lv' (lv_next lv)) = bare (expect fr lv (lv_next lv) x)" "\<forall>q \<in> set T. bare (object_at lv' q) = bare (object_at lv q)"
      using step [OF ok n r rd(2)] by blast
    have "read_thinkers class marker (lv, st) = read_thinkers class marker (lv', skipped (length bs) st)"
      using tc rd(1) lv'(1) by (subst read_thinkers.simps) simp
    moreover have "loading fr lv0 lv' (T @ [lv_next lv]) (xs @ [x]) \<and> has_room lv' ys"
      by (rule loads_step [OF l room lv'(2-5)]) (use lv'(6) in blast)
    ultimately show ?thesis by blast
  qed
  then show "\<exists>bs. writes p (archive_object x) bs
     \<and> (\<forall>lv0 lv T xs ys st. ss_pos st = p \<longrightarrow> here bs st \<longrightarrow> loading fr lv0 lv T xs \<longrightarrow> has_room lv (x # ys) \<longrightarrow>
          (\<exists>lv'. read_thinkers class marker (lv, st) = read_thinkers class marker (lv', skipped (length bs) st)
             \<and> loading fr lv0 lv' (T @ [lv_next lv]) (xs @ [x]) \<and> has_room lv' ys))"
    using bs(1) unfolding arch by blast
qed

lemma loads_mobj:
  assumes "mobj_ok m"
  shows "loads fr (thinker_class fr) tc_end (Mobj m)"
proof (rule loads_record)
  show "archive_object (Mobj m) = archive_record tc_mobj (saveg_write_mobj_t m)" by simp
  show "codec (saveg_write_mobj_t m) saveg_read_mobj_t (\<lambda>_. m)" by (rule codec_mobj [OF assms])
  show "tc_mobj \<noteq> tc_end" by (simp add: tc_defs)
  show "thinker_class fr tc_mobj = Some (unarchive_mobj fr)" by (simp add: thinker_class_def)
  fix lv T S B st st'
  assume a: "level_ok lv T S B" "lv_next lv \<noteq> - 1" "length (lv_players lv) = MAXPLAYERS"
    "\<And>y. saveg_read_mobj_t (y, saveg_read_pad st) = (m, st')"
  show "\<exists>lv' S' B'. unarchive_mobj fr (lv, st) = Inr (lv', st') \<and> level_ok lv' (T @ [lv_next lv]) S' B' \<and> lv_next lv' = lv_next lv + 1
    \<and> shell lv' = shell (attach (lv_next lv) (Mobj m) lv) \<and> bare (object_at lv' (lv_next lv)) = bare (expect fr lv (lv_next lv) (Mobj m))
    \<and> (\<forall>q \<in> set T. bare (object_at lv' q) = bare (object_at lv q))"
    by (rule unarchive_mobj_ok [OF a(1,2,4) assms a(3)]) blast
qed

text \<open>The special effects: what each tells its sector and its list.\<close>

lemma hook_in_bounds:
  "unat sec < length (lv_sectors lv) \<Longrightarrow> upd_sector (unat sec) f lv = Inr (lv\<lparr>lv_sectors := hook_in f sec (lv_sectors lv)\<rparr>)"
  by (simp add: upd_sector_def sector_at_def hook_in_def)

lemma add_active_ceiling: "P_AddActiveCeiling p lv = lv\<lparr>activeceilings := add_active p (activeceilings lv)\<rparr>"
  by (simp add: P_AddActiveCeiling_def add_active_def split: option.split)

lemma add_active_plat:
  assumes "p \<noteq> 0" "0 < free_places (activeplats lv)"
  shows "P_AddActivePlat p lv = Inr (lv\<lparr>activeplats := add_active p (activeplats lv)\<rparr>)"
  using free_places_add(1) [OF assms] by (auto simp: P_AddActivePlat_def add_active_def)

lemma same_active [simp]:
  "activeceilings lv = cs \<Longrightarrow> activeplats lv = ps \<Longrightarrow> lv\<lparr>activeceilings := cs, activeplats := ps\<rparr> = lv"
  "lv\<lparr>activeceilings := cs, activeplats := activeplats lv\<rparr> = lv\<lparr>activeceilings := cs\<rparr>"
  "lv\<lparr>activeceilings := activeceilings lv, activeplats := ps\<rparr> = lv\<lparr>activeplats := ps\<rparr>"
  by (rule level.equality; simp)+

lemma loads_special:
  assumes arch: "archive_object x = archive_record tc w" and codec: "codec w r g" and tc: "tc \<noteq> tc_endspecials"
    and cls: "special_class fr tc = Some (unarchive_record fresh_at r mk function hook active)"
    and hookp: "\<And>(lv :: level) lvx y p. lv_sectors lvx = lv_sectors lv \<Longrightarrow> loadable (length (lv_sectors lv)) x \<Longrightarrow>
      hook p (g y) lvx = Inr (lvx\<lparr>lv_sectors := secs p (lv_sectors lv)\<rparr>)"
    and secs: "\<And>p ss. map sec_thinglist (secs p ss) = map sec_thinglist ss"
    and active: "\<And>p lvx. p \<noteq> 0 \<Longrightarrow> (is_plat x \<Longrightarrow> 0 < free_places (activeplats lvx)) \<Longrightarrow>
      active p lvx = Inr (lvx\<lparr>activeceilings := cs p (activeceilings lvx), activeplats := ps p (activeplats lvx)\<rparr>)"
    and func: "\<And>y. th_function (function (thinker_of (mk (g y)))) \<noteq> P_MobjThinker"
    and attach: "\<And>p lv. attach p x lv = lv\<lparr>lv_sectors := secs p (lv_sectors lv), activeceilings := cs p (activeceilings lv),
      activeplats := ps p (activeplats lv)\<rparr>"
    and expect: "\<And>p lv. set_thinker (function (thinker_of (mk (g (fresh_at p))))) (mk (g (fresh_at p))) = expect fr lv p x"
  shows "loads fr (special_class fr) tc_endspecials x"
proof (rule loads_record [of x tc w r g tc_endspecials "special_class fr", OF arch codec tc cls])
  fix lv T S B st st'
  assume a: "level_ok lv T S B" "lv_next lv \<noteq> - 1" "loadable (length (lv_sectors lv)) x"
    "is_plat x \<Longrightarrow> 0 < free_places (activeplats lv)" "\<And>y. r (y, saveg_read_pad st) = (g y, st')"
  let ?p = "lv_next lv"
  have act: "active ?p lvx = Inr (lvx\<lparr>activeceilings := cs ?p (activeceilings lv), activeplats := ps ?p (activeplats lv)\<rparr>)"
    if "activeceilings lvx = activeceilings lv" "activeplats lvx = activeplats lv" for lvx
    using active [OF next_is_new(1) [OF a(1)], of lvx] a(4) that by simp
  have hk: "hook ?p (g (fresh_at ?p)) lvx = Inr (lvx\<lparr>lv_sectors := secs ?p (lv_sectors lv)\<rparr>)" if "lv_sectors lvx = lv_sectors lv" for lvx
    by (rule hookp [OF that a(3)])
  obtain lv' where lv': "unarchive_record fresh_at r mk function hook active (lv, st) = Inr (lv', st')"
    "level_ok lv' (T @ [?p]) S B" "lv_next lv' = ?p + 1"
    "shell lv' = shell (lv\<lparr>lv_sectors := secs ?p (lv_sectors lv), activeceilings := cs ?p (activeceilings lv), activeplats := ps ?p (activeplats lv)\<rparr>)"
    "bare (object_at lv' ?p) = bare (set_thinker (function (thinker_of (mk (g (fresh_at ?p))))) (mk (g (fresh_at ?p))))"
    "\<And>q. q \<in> set T \<Longrightarrow> bare (object_at lv' q) = bare (object_at lv q)"
    by (rule unarchive_record_ok [of lv T S B r fresh_at st "g (fresh_at ?p)" st' hook "secs ?p (lv_sectors lv)" active
          "ps ?p (activeplats lv)" "cs ?p (activeceilings lv)" "function" mk, OF a(1,2,5) hk secs act func]) blast+
  have e: "bare (object_at lv' ?p) = bare (expect fr lv ?p x)" using lv'(5) by (simp only: expect [of ?p lv])
  show "\<exists>lv' S' B'. unarchive_record fresh_at r mk function hook active (lv, st) = Inr (lv', st')
    \<and> level_ok lv' (T @ [?p]) S' B' \<and> lv_next lv' = ?p + 1 \<and> shell lv' = shell (attach ?p x lv)
    \<and> bare (object_at lv' ?p) = bare (expect fr lv ?p x) \<and> (\<forall>q \<in> set T. bare (object_at lv' q) = bare (object_at lv q))"
    unfolding attach using lv'(1-4,6) e by blast
qed

lemma hook_in_ceiling:
  "unat sec < length (lv_sectors lv) \<Longrightarrow> lv_sectors lvx = lv_sectors lv \<Longrightarrow>
     hook_ceiling sec p lvx = Inr (lvx\<lparr>lv_sectors := hook_in (\<lambda>s. s\<lparr>sec_ceilingdata := p\<rparr>) sec (lv_sectors lv)\<rparr>)"
  by (simp add: hook_ceiling_def hook_in_bounds)

lemma hook_in_floor:
  "unat sec < length (lv_sectors lv) \<Longrightarrow> lv_sectors lvx = lv_sectors lv \<Longrightarrow>
     hook_floor sec p lvx = Inr (lvx\<lparr>lv_sectors := hook_in (\<lambda>s. s\<lparr>sec_floordata := p\<rparr>) sec (lv_sectors lv)\<rparr>)"
  by (simp add: hook_floor_def hook_in_bounds)

lemma functions_set [simp]:
  "th_function (sets_function f t) = f" "f \<noteq> P_MobjThinker \<Longrightarrow> th_function (sets_function_if f t) \<noteq> P_MobjThinker"
  by (simp_all add: sets_function_def sets_function_if_def)

lemma tc_special [simp]:
  "tc_ceiling \<noteq> tc_endspecials" "tc_door \<noteq> tc_endspecials" "tc_floor \<noteq> tc_endspecials" "tc_plat \<noteq> tc_endspecials"
  "tc_flash \<noteq> tc_endspecials" "tc_strobe \<noteq> tc_endspecials" "tc_glow \<noteq> tc_endspecials"
  by (simp_all add: tc_defs)

lemma special_classes:
  "special_class fr tc_ceiling = Some (unarchive_record (fresh_ceiling fr) saveg_read_ceiling_t Ceiling (sets_function_if T_MoveCeiling)
        (\<lambda>p c. hook_ceiling (ceil_sector c) p) (\<lambda>p lv. Inr (P_AddActiveCeiling p lv)))"
  "special_class fr tc_door = Some (unarchive_record (fresh_door fr) saveg_read_vldoor_t Door (sets_function T_VerticalDoor)
        (\<lambda>p d. hook_ceiling (door_sector d) p) no_active)"
  "special_class fr tc_floor = Some (unarchive_record (fresh_floor fr) saveg_read_floormove_t Floor (sets_function T_MoveFloor)
        (\<lambda>p f. hook_floor (floor_sector f) p) no_active)"
  "special_class fr tc_plat = Some (unarchive_record (fresh_plat fr) saveg_read_plat_t Plat (sets_function_if T_PlatRaise)
        (\<lambda>p pl. hook_floor (plat_sector pl) p) P_AddActivePlat)"
  "special_class fr tc_flash = Some (unarchive_record (fresh_flash fr) saveg_read_lightflash_t Flash (sets_function T_LightFlash)
        (\<lambda>_ _ lv. Inr lv) no_active)"
  "special_class fr tc_strobe = Some (unarchive_record (fresh_strobe fr) saveg_read_strobe_t Strobe (sets_function T_StrobeFlash)
        (\<lambda>_ _ lv. Inr lv) no_active)"
  "special_class fr tc_glow = Some (unarchive_record (fresh_glow fr) saveg_read_glow_t Glow (sets_function T_Glow)
        (\<lambda>_ _ lv. Inr lv) no_active)"
  by (simp_all add: special_class_def tc_defs)

lemma loads_ceiling: "loads fr (special_class fr) tc_endspecials (Ceiling c)"
  by (rule loads_special [where cs = add_active and ps = "\<lambda>_ ps. ps" and secs = "\<lambda>p. hook_in (\<lambda>s. s\<lparr>sec_ceilingdata := p\<rparr>) (ceil_sector c)",
        OF _ codec_ceiling [of c] tc_special(1) special_classes(1)])
    (simp_all add: hook_in_ceiling hook_in_same add_active_ceiling)

lemma loads_door: "loads fr (special_class fr) tc_endspecials (Door d)"
  by (rule loads_special [where cs = "\<lambda>_ cs. cs" and ps = "\<lambda>_ ps. ps" and secs = "\<lambda>p. hook_in (\<lambda>s. s\<lparr>sec_ceilingdata := p\<rparr>) (door_sector d)",
        OF _ codec_vldoor [of d] tc_special(2) special_classes(2)])
    (simp_all add: hook_in_ceiling hook_in_same no_active_def)

lemma loads_floor: "loads fr (special_class fr) tc_endspecials (Floor f)"
  by (rule loads_special [where cs = "\<lambda>_ cs. cs" and ps = "\<lambda>_ ps. ps" and secs = "\<lambda>p. hook_in (\<lambda>s. s\<lparr>sec_floordata := p\<rparr>) (floor_sector f)",
        OF _ codec_floormove [of f] tc_special(3) special_classes(3)])
    (simp_all add: hook_in_floor hook_in_same no_active_def)

lemma loads_plat: "loads fr (special_class fr) tc_endspecials (Plat l)"
  by (rule loads_special [where cs = "\<lambda>_ cs. cs" and ps = add_active and secs = "\<lambda>p. hook_in (\<lambda>s. s\<lparr>sec_floordata := p\<rparr>) (plat_sector l)",
        OF _ codec_plat [of l] tc_special(4) special_classes(4)])
    (simp_all add: hook_in_floor hook_in_same add_active_plat)

lemmas loads_effect = loads_special [where cs = "\<lambda>_ cs. cs" and ps = "\<lambda>_ ps. ps" and secs = "\<lambda>_ ss. ss"]

lemma loads_flash: "loads fr (special_class fr) tc_endspecials (Flash l)"
  by (rule loads_effect [OF _ codec_lightflash [of l] tc_special(5) special_classes(5)]) (simp_all add: no_active_def)

lemma loads_strobe: "loads fr (special_class fr) tc_endspecials (Strobe l)"
  by (rule loads_effect [OF _ codec_strobe [of l] tc_special(6) special_classes(6)]) (simp_all add: no_active_def)

lemma loads_glow: "loads fr (special_class fr) tc_endspecials (Glow l)"
  by (rule loads_effect [OF _ codec_glow [of l] tc_special(7) special_classes(7)]) (simp_all add: no_active_def)

subsection \<open>All of them\<close>

lemma read_marker: "here [marker] st \<Longrightarrow> read_thinkers class marker (lv, st) = Some (Inr (lv, skipped 1 st))"
  by (subst read_thinkers.simps) (simp add: here_byte)

text \<open>What writes a part of the file, and what reads it back: from a level with \<open>P\<close> to one with \<open>Q\<close>.\<close>

definition restores :: "(save \<Rightarrow> save) \<Rightarrow> (level \<times> save \<Rightarrow> (level \<times> save) res option) \<Rightarrow> (level \<Rightarrow> bool) \<Rightarrow> (level \<Rightarrow> bool) \<Rightarrow> bool" where
  "restores w r P Q \<longleftrightarrow> keeps_error w \<and> (\<forall>p. \<exists>bs. writes p w bs \<and> (\<forall>st lv. ss_pos st = p \<longrightarrow> here bs st \<longrightarrow> P lv \<longrightarrow>
     (\<exists>lv'. r (lv, st) = Some (Inr (lv', skipped (length bs) st)) \<and> Q lv')))"

lemma writes_seq:
  assumes "writes p w bs" "writes (p + length bs) v cs" "keeps_error v"
  shows "writes p (\<lambda>st. v (w st)) (bs @ cs)"
proof -
  have k: "keeps_error (stmts [v])" by (rule keeps_error_stmts) (simp add: assms(3))
  have "writes (p + length bs) (stmts [v]) cs" using writes_Cons [OF assms(2) writes_Nil keeps_error_stmts] by simp
  from writes_Cons [OF assms(1) this k] show ?thesis by (simp add: writes_def stmts_simps)
qed

lemma restores_seq:
  assumes "restores w r P Q" "restores v s Q R"
  shows "restores (\<lambda>st. v (w st)) (\<lambda>x. thenO (r x) s) P R"
  unfolding restores_def
proof (intro conjI allI)
  show "keeps_error (\<lambda>st. v (w st))" using assms by (simp add: restores_def keeps_error_def)
  fix p
  obtain bs where bs: "writes p w bs" "\<And>st lv. ss_pos st = p \<Longrightarrow> here bs st \<Longrightarrow> P lv \<Longrightarrow>
     (\<exists>lv'. r (lv, st) = Some (Inr (lv', skipped (length bs) st)) \<and> Q lv')" using assms(1) unfolding restores_def by blast
  obtain cs where cs: "writes (p + length bs) v cs" "\<And>st lv. ss_pos st = p + length bs \<Longrightarrow> here cs st \<Longrightarrow> Q lv \<Longrightarrow>
     (\<exists>lv'. s (lv, st) = Some (Inr (lv', skipped (length cs) st)) \<and> R lv')" using assms(2) unfolding restores_def by blast
  have "writes p (\<lambda>st. v (w st)) (bs @ cs)" using writes_seq [OF bs(1) cs(1)] assms(2) by (simp add: restores_def)
  moreover have "\<exists>lv'. thenO (r (lv, st)) s = Some (Inr (lv', skipped (length (bs @ cs)) st)) \<and> R lv'"
    if a: "ss_pos st = p" "here (bs @ cs) st" "P lv" for st lv
  proof -
    have h: "here bs st" "here cs (skipped (length bs) st)" using a(2) [unfolded here_append] by simp_all
    obtain lv1 where 1: "r (lv, st) = Some (Inr (lv1, skipped (length bs) st))" "Q lv1" using bs(2) [OF a(1) h(1) a(3)] by blast
    have "ss_pos (skipped (length bs) st) = p + length bs" using a(1) by simp
    from cs(2) [OF this h(2) 1(2)] show ?thesis using 1(1) by (auto simp: thenO_def)
  qed
  ultimately show "\<exists>bs. writes p (\<lambda>st. v (w st)) bs \<and> (\<forall>st lv. ss_pos st = p \<longrightarrow> here bs st \<longrightarrow> P lv \<longrightarrow>
     (\<exists>lv'. thenO (r (lv, st)) s = Some (Inr (lv', skipped (length bs) st)) \<and> R lv'))" by blast
qed

lemma restores_weaken:
  "restores w r P Q \<Longrightarrow> (\<And>lv. P' lv \<Longrightarrow> P lv) \<Longrightarrow> (\<And>lv. Q lv \<Longrightarrow> Q' lv) \<Longrightarrow> restores w r P' Q'"
  unfolding restores_def by metis

lemma restores_all:
  assumes "\<And>x. x \<in> set xs \<Longrightarrow> loads fr class marker x"
  shows "restores (stmts (map archive_object xs @ [saveg_write8 marker])) (read_thinkers class marker)
    (\<lambda>lv. has_room lv (xs @ ys) \<and> (\<exists>T. loading fr lv0 lv T done))
    (\<lambda>lv. has_room lv ys \<and> (\<exists>T. loading fr lv0 lv T (done @ xs)))"
  using assms
proof (induction xs arbitrary: "done")
  case Nil
  have k: "keeps_error (stmts [saveg_write8 marker])" by (rule keeps_error_stmts) (simp add: keeps_error_8)
  have "writes p (stmts [saveg_write8 marker]) [marker]" for p
    using writes_Cons [OF writes_8 writes_Nil keeps_error_stmts, of p marker] by simp
  then show ?case unfolding restores_def using k by (auto simp: read_marker intro!: exI [of _ "[marker]"])
next
  case (Cons x xs)
  let ?w = "stmts (map archive_object xs @ [saveg_write8 marker])"
  let ?P = "\<lambda>xs done lv. has_room lv (xs @ ys) \<and> (\<exists>T. loading fr lv0 lv T done)"
  have w: "stmts (map archive_object (x # xs) @ [saveg_write8 marker]) = (\<lambda>st. ?w (archive_object x st))" by (simp add: stmts_simps fun_eq_iff)
  have x: "loads fr class marker x" using Cons.prems by simp
  have ih: "restores ?w (read_thinkers class marker) (?P xs (done @ [x])) (?P [] ((done @ [x]) @ xs))"
    using Cons.IH [OF Cons.prems [OF list.set_intros(2)], of "done @ [x]"] by simp
  show ?case
    unfolding restores_def
  proof (intro conjI allI)
    show "keeps_error (stmts (map archive_object (x # xs) @ [saveg_write8 marker]))"
      using x ih unfolding w by (simp add: loads_def restores_def keeps_error_def)
    fix p
    obtain bs where bs: "writes p (archive_object x) bs" "\<And>lv T zs st. ss_pos st = p \<Longrightarrow> here bs st \<Longrightarrow>
      loading fr lv0 lv T done \<Longrightarrow> has_room lv (x # zs) \<Longrightarrow> (\<exists>lv'. read_thinkers class marker (lv, st) = read_thinkers class marker (lv', skipped (length bs) st)
             \<and> loading fr lv0 lv' (T @ [lv_next lv]) (done @ [x]) \<and> has_room lv' zs)"
      using x unfolding loads_def by blast
    obtain cs where cs: "writes (p + length bs) ?w cs" "\<And>st lv. ss_pos st = p + length bs \<Longrightarrow> here cs st \<Longrightarrow> ?P xs (done @ [x]) lv \<Longrightarrow>
      (\<exists>lv'. read_thinkers class marker (lv, st) = Some (Inr (lv', skipped (length cs) st)) \<and> ?P [] ((done @ [x]) @ xs) lv')"
      and k: "keeps_error ?w"
      using ih unfolding restores_def by blast
    have "writes p (\<lambda>st. ?w (archive_object x st)) (bs @ cs)" by (rule writes_seq [OF bs(1) cs(1) k])
    moreover have "\<exists>lv'. read_thinkers class marker (lv, st) = Some (Inr (lv', skipped (length (bs @ cs)) st)) \<and> ?P [] (done @ x # xs) lv'"
      if a: "ss_pos st = p" "here (bs @ cs) st" "?P (x # xs) done lv" for st lv
    proof -
      have h: "here bs st" "here cs (skipped (length bs) st)" using a(2) [unfolded here_append] by simp_all
      obtain T where T: "loading fr lv0 lv T done" "has_room lv (x # (xs @ ys))" using a(3) by auto
      obtain lv1 where 1: "read_thinkers class marker (lv, st) = read_thinkers class marker (lv1, skipped (length bs) st)"
        "?P xs (done @ [x]) lv1" using bs(2) [OF a(1) h(1) T] by blast
      have "ss_pos (skipped (length bs) st) = p + length bs" using a(1) by simp
      from cs(2) [OF this h(2) 1(2)] 1(1) show ?thesis by simp
    qed
    ultimately show "\<exists>bs. writes p (stmts (map archive_object (x # xs) @ [saveg_write8 marker])) bs \<and> (\<forall>st lv. ss_pos st = p \<longrightarrow> here bs st \<longrightarrow>
      ?P (x # xs) done lv \<longrightarrow> (\<exists>lv'. read_thinkers class marker (lv, st) = Some (Inr (lv', skipped (length bs) st))
         \<and> has_room lv' ys \<and> (\<exists>T. loading fr lv0 lv' T (done @ x # xs))))"
      unfolding w by (intro exI [of _ "bs @ cs"]) simp
  qed
qed

end
