(* ===== verification/P_Archive_Game.thy ===== *)
theory P_Archive_Game
  imports P_Archive_Trip
begin

text \<open>
  A whole saved game: what \<open>G_DoSaveGame\<close> writes and \<open>G_DoLoadGame\<close> makes of it, in a level that
  \<open>G_InitNew\<close> has loaded from the same map.
\<close>

subsection \<open>Saving\<close>

text \<open>A level that can be saved; its thinkers are \<open>T\<close>.\<close>

definition savable :: "bytes \<Rightarrow> level \<Rightarrow> ptr list \<Rightarrow> bool" where
  "savable description lv T \<longleftrightarrow> thinkers_ok lv T \<and> well_typed lv T \<and> list_all (\<lambda>x. case x of Mobj m \<Rightarrow> mobj_ok m | _ \<Rightarrow> True) (things_of lv T)
     \<and> players_savable lv \<and> length (lv_playeringame lv) = MAXPLAYERS \<and> list_all (\<lambda>b. take_bit 8 b = b) (lv_playeringame lv)
     \<and> sides_ok lv \<and> gameversion lv \<noteq> 0 \<and> length description \<le> SAVESTRINGSIZE"

definition version_code :: "level \<Rightarrow> nat" where
  "version_code lv = (case G_VanillaVersionCode lv of Inr code \<Rightarrow> code | Inl _ \<Rightarrow> 0)"

lemma version_code: "gameversion lv \<noteq> 0 \<Longrightarrow> G_VanillaVersionCode lv = Inr (version_code lv)"
  by (simp add: version_code_def G_VanillaVersionCode_def)

lemma saved_things:
  assumes "savable description lv T" "x \<in> set (things_of lv T)"
  shows "loads fr (thinker_class fr) tc_end x"
proof -
  obtain p where p: "p \<in> set T" "x = object_at lv p" "is_thing x" using assms(2) by (auto simp: things_of_def)
  then have "typed (activeceilings lv) p x" using assms(1) by (simp add: savable_def well_typed_def)
  then obtain m where m: "x = Mobj m" using p(3) by (cases x) (auto simp: typed_def is_thing_def Let_def thinker_functions)
  moreover have "case x of Mobj m \<Rightarrow> mobj_ok m | _ \<Rightarrow> True" using assms unfolding savable_def list_all_iff by blast
  ultimately show ?thesis using loads_mobj by simp
qed

lemma saved_specials:
  assumes "savable description lv T" "x \<in> set (specials_of lv T)"
  shows "loads fr (special_class fr) tc_endspecials x"
proof -
  obtain p where p: "p \<in> set T" "x = object_at lv p" "is_special (activeceilings lv) p x" using assms(2) by (auto simp: specials_of_def)
  then have t: "typed (activeceilings lv) p x" using assms(1) by (simp add: savable_def well_typed_def)
  show ?thesis
  proof (cases x)
    case (Mobj m)
    then show ?thesis using t p(3) by (auto simp: typed_def is_special_def Let_def thinker_functions)
  next
    case (Flicker l)
    then show ?thesis using t p(3) by (auto simp: typed_def is_special_def Let_def thinker_functions)
  next
    case (Elevator e)
    then show ?thesis using t p(3) by (auto simp: typed_def is_special_def Let_def thinker_functions)
  next
    case (Other t')
    then show ?thesis using t p(3) by (auto simp: typed_def is_special_def Let_def thinker_functions)
  qed (simp_all add: loads_ceiling loads_door loads_floor loads_plat loads_flash loads_strobe loads_glow)
qed

subsection \<open>What is restored\<close>

text \<open>The level that was loaded, before its thinkers: the players and the world are the saved ones.\<close>

definition loaded_fixed :: "level \<Rightarrow> level \<Rightarrow> level" where
  "loaded_fixed lv y = loaded_world lv (y\<lparr>lv_players := loaded_players lv (lv_players y)\<rparr>)"

text \<open>What no thinker changes.\<close>

definition frame :: "level \<Rightarrow> level" where
  "frame lv = (shell lv)\<lparr>itemrespawnque := [], iquehead := 0, iquetail := 0\<rparr>"

text \<open>
  The thinkers of \<open>lv'\<close> are \<open>xs\<close>, in order; its players, sectors and lists of active objects point to them;
  the rest is that of \<open>y\<close>.
\<close>

definition restored :: "fresh \<Rightarrow> level \<Rightarrow> object list \<Rightarrow> level \<Rightarrow> bool" where
  "restored fr y xs lv' \<longleftrightarrow> (\<exists>T. (\<exists>S B. level_ok lv' T S B) \<and> well_typed lv' T \<and> list_all2 (as_saved fr lv') T xs
     \<and> frame lv' = frame (fold (\<lambda>(p, x). attach p x) (zip T xs) y))"

lemma frame_emptied: "frame lv = (emptied lv)\<lparr>lv_next := 0\<rparr>"
  by (rule level.equality) (simp_all add: frame_def shell_def emptied_def)

lemma frame_attach: "frame (attach p x lv) = attach p x (frame lv)"
  unfolding frame_def shell_attach
  by (cases x) (auto split: option.split intro: level.equality)

lemma frame_fold: "frame lv = frame lv' \<Longrightarrow> frame (fold (\<lambda>(p, x). attach p x) ps lv) = frame (fold (\<lambda>(p, x). attach p x) ps lv')"
proof (induction ps arbitrary: lv lv')
  case (Cons a ps)
  obtain p x where a: "a = (p, x)" by fastforce
  have "frame (attach p x lv) = frame (attach p x lv')" unfolding frame_attach Cons.prems ..
  from Cons.IH [OF this] show ?case by (simp add: a)
qed simp

text \<open>What reading the players and the world does not change.\<close>

definition core :: "level \<Rightarrow> level \<times> ptr list \<times> nat" where
  "core lv = (lv\<lparr>lv_players := [], lv_sectors := [], lv_lines := [], lv_sides := []\<rparr>, map sec_thinglist (lv_sectors lv), length (lv_players lv))"

lemma level_ok_core:
  assumes "core y' = core y"
  shows "level_ok y' T S B \<longleftrightarrow> level_ok y T S B"
proof -
  have secs: "map sec_thinglist (lv_sectors y') = map sec_thinglist (lv_sectors y)" using assms by (simp add: core_def)
  have eq: "f y' = f y" if "\<And>lv. f (lv\<lparr>lv_players := [], lv_sectors := [], lv_lines := [], lv_sides := []\<rparr>) = f lv" for f :: "level \<Rightarrow> 'z"
    using assms that unfolding core_def by (metis fst_conv)
  have same: "lv_objects y' = lv_objects y" "lv_next y' = lv_next y" "blocklinks y' = blocklinks y" "lv_nodes y' = lv_nodes y"
    "lv_subsectors y' = lv_subsectors y" "bmapwidth y' = bmapwidth y" "bmapheight y' = bmapheight y" "bmaporgx y' = bmaporgx y"
    "bmaporgy y' = bmaporgy y" "itemrespawnque y' = itemrespawnque y" "iquehead y' = iquehead y"
    by (rule eq, simp)+
  have "live y' = live y" by (simp add: fun_eq_iff live_def object_at_def same)
  moreover have "thinkers_ok y' T \<longleftrightarrow> thinkers_ok y T" by (rule thinkers_ok_cong) (simp add: same)
  moreover have "map_ok y' \<longleftrightarrow> map_ok y" by (rule map_ok_heap) (simp_all add: same map_eq_imp_length_eq [OF secs])
  moreover have "que_ok y' \<longleftrightarrow> que_ok y" by (simp add: que_ok_def same)
  moreover have "things_ok A S B y' \<longleftrightarrow> things_ok A S B y" for A
    by (rule iffI; erule things_ok_relevant) (simp_all add: secs same mobj_at_def block_of_def Let_def split: if_split)
  ultimately show ?thesis by (simp add: level_ok_def same)
qed

lemma level_ok_loaded:
  assumes "level_ok y T S B" "same_shape lv y" "players_ok y"
  shows "level_ok (loaded_fixed lv y) T S B"
proof -
  let ?y = "loaded_fixed lv y"
  have len: "length (lv_sectors y) = length (lv_sectors lv)" using assms(2) by (simp add: same_shape_def)
  have "map sec_thinglist (lv_sectors ?y) = map sec_thinglist (lv_sectors y)"
    by (rule nth_equalityI) (simp_all add: len loaded_fixed_def loaded_world_def loaded_sector_def)
  then have "core ?y = core y" using assms(3) by (simp add: core_def loaded_fixed_def loaded_world_def loaded_players_def players_ok_def)
  then show ?thesis using assms(1) level_ok_core by blast
qed

text \<open>What a loaded object is, is of the kind of its function.\<close>

lemma bare_kind:
  "bare y = bare x \<Longrightarrow> th_function (thinker_of y) = th_function (thinker_of x) \<and> (typed cs p x \<longrightarrow> typed cs p y)"
proof -
  assume eq: "bare y = bare x"
  have "th_function (thinker_of y) = th_function (thinker_of x)" using arg_cong [OF eq, of "\<lambda>x. th_function (thinker_of x)"] by simp
  moreover have "typed cs p (bare z) = typed cs p z" for z
    by (cases z) (simp_all add: typed_def is_special_def bare_def no_thlinks_def unlinked_object_def no_slinks_def no_blinks_def)
  then have "typed cs p y = typed cs p x" using eq by metis
  ultimately show ?thesis by blast
qed

lemma expect_typed:
  assumes "typed cs p x" "is_thing x \<or> is_special cs p x"
  shows "typed ds q (expect fr lv q x)"
  using assms by (cases x) (auto simp: typed_def is_thing_def is_special_def Let_def expect_mobj_def sets_function_def sets_function_if_def
      thinker_functions)

lemma loading_restored:
  assumes l: "loading fr lv0 z T xs" and base: "emptied lv0 = emptied y"
    and typed: "\<And>x. x \<in> set xs \<Longrightarrow> \<exists>cs p. typed cs p x \<and> (is_thing x \<or> is_special cs p x)"
  shows "restored fr y xs z"
proof -
  have a: "list_all2 (as_saved fr z) T xs" and sh: "shell z = shell (fold (\<lambda>(p, x). attach p x) (zip T xs) lv0)"
    and ok: "\<exists>S B. level_ok z T S B" using l by (simp_all add: loading_def)
  have "frame lv0 = frame y" using base by (simp add: frame_emptied)
  from frame_fold [OF this] have "frame z = frame (fold (\<lambda>(p, x). attach p x) (zip T xs) y)" using sh by (simp add: frame_def)
  moreover have "well_typed z T"
    unfolding well_typed_def
  proof
    fix p assume "p \<in> set T"
    then obtain i where i: "i < length T" "p = T ! i" by (auto simp: in_set_conv_nth)
    have len: "length T = length xs" using a by (rule list_all2_lengthD)
    let ?x = "xs ! i"
    have eq: "bare (object_at z p) = bare (expect fr z p ?x)" using list_all2_nthD [OF a i(1)] i(2) by (simp add: as_saved_def)
    have "?x \<in> set xs" using i(1) len by simp
    then obtain cs q where "typed cs q ?x" "is_thing ?x \<or> is_special cs q ?x" using typed by blast
    then have "typed (activeceilings z) p (expect fr z p ?x)" by (rule expect_typed)
    then show "typed (activeceilings z) p (object_at z p)" using bare_kind [OF eq] by blast
  qed
  ultimately show ?thesis using a ok unfolding restored_def by blast
qed

subsection \<open>The parts\<close>

lemma restores_codec: "codec w r g \<Longrightarrow> restores w (\<lambda>s. Some (Inr (r s))) (\<lambda>z. z = y) (\<lambda>z. z = g y)"
  unfolding restores_def codec_def reads_def by fastforce

lemma restores_reader:
  assumes "restores w r P Q" "\<And>z st. P z \<Longrightarrow> r' (z, st) = r (z, st)"
  shows "restores w r' P Q"
  using assms unfolding restores_def by metis

lemma same_sides: "map li_sidenum ls = map li_sidenum ms \<Longrightarrow> map sides_of ls = map sides_of ms"
proof -
  assume "map li_sidenum ls = map li_sidenum ms"
  then have "map (\<lambda>n. map unat (filter (\<lambda>n. n \<noteq> - 1) [fst n, snd n])) (map li_sidenum ls)
    = map (\<lambda>n. map unat (filter (\<lambda>n. n \<noteq> - 1) [fst n, snd n])) (map li_sidenum ms)" by simp
  then show ?thesis by (simp add: sides_of_def [abs_def] comp_def)
qed

definition ready :: "level \<Rightarrow> ptr list \<Rightarrow> level \<Rightarrow> bool" where
  "ready lv T y \<longleftrightarrow> lv_playeringame y = lv_playeringame lv \<and> players_ok y \<and> same_shape lv y \<and> (\<exists>T S B. level_ok y T S B)
     \<and> has_room y (things_of lv T @ specials_of lv T)"

lemma restores_fixed:
  assumes "players_savable lv" "sides_ok lv" "lv_playeringame y = lv_playeringame lv" "players_ok y" "same_shape lv y"
  obtains ww where "\<And>st. P_ArchiveWorld lv st = Inr (ww st)"
    "restores (\<lambda>st. ww (P_ArchivePlayers lv st)) (\<lambda>s. Some (P_UnArchiveWorld (P_UnArchivePlayers s))) (\<lambda>z. z = y) (\<lambda>z. z = loaded_fixed lv y)"
proof -
  obtain g where g: "codec (P_ArchivePlayers lv) (unarchive_players (lv_playeringame lv)) g"
    "\<And>x. players_ok x \<Longrightarrow> g x = x\<lparr>lv_players := loaded_players lv (lv_players x)\<rparr>" using codec_players [OF assms(1)] by blast
  obtain ww h where h: "\<And>st. P_ArchiveWorld lv st = Inr (ww st)"
    "codec ww (unarchive_world (length (lv_sectors lv)) (map sides_of (lv_lines lv))) h"
    "\<And>x. same_shape lv x \<Longrightarrow> h x = loaded_world lv x" using codec_world [OF assms(2)] by blast
  let ?y = "y\<lparr>lv_players := loaded_players lv (lv_players y)\<rparr>"
  have gy: "g y = ?y" by (rule g(2) [OF assms(4)])
  have shape: "same_shape lv ?y" using assms(5) by (simp add: same_shape_def)
  have sides: "map sides_of (lv_lines ?y) = map sides_of (lv_lines lv)"
    by (rule same_sides) (use assms(5) in \<open>simp add: same_shape_def\<close>)
  have "list_all (list_all (\<lambda>i. i < length (lv_sides ?y))) (map sides_of (lv_lines ?y))"
    using assms(2,5) unfolding sides by (simp add: sides_ok_def same_shape_def list.pred_map comp_def)
  then have sok: "sides_ok ?y" by (simp add: sides_ok_def list.pred_map comp_def)
  have world: "restores ww (\<lambda>s. Some (P_UnArchiveWorld s)) (\<lambda>z. z = ?y) (\<lambda>z. z = loaded_fixed lv y)"
  proof (rule restores_reader)
    show "restores ww (\<lambda>s. Some (Inr (unarchive_world (length (lv_sectors lv)) (map sides_of (lv_lines lv)) s))) (\<lambda>z. z = ?y) (\<lambda>z. z = loaded_fixed lv y)"
      using restores_codec [OF h(2), of ?y] unfolding h(3) [OF shape] loaded_fixed_def .
    show "Some (P_UnArchiveWorld (z, st)) = Some (Inr (unarchive_world (length (lv_sectors lv)) (map sides_of (lv_lines lv)) (z, st)))"
      if "z = ?y" for z st using sok sides assms(5) that by (simp add: P_UnArchiveWorld_def same_shape_def)
  qed
  have "restores (\<lambda>st. ww (P_ArchivePlayers lv st)) (\<lambda>s. Some (P_UnArchiveWorld (P_UnArchivePlayers s))) (\<lambda>z. z = y) (\<lambda>z. z = loaded_fixed lv y)"
    by (rule restores_reader [OF restores_seq [OF restores_codec [OF g(1), of y, unfolded gy] world]])
      (simp add: thenO_def P_UnArchivePlayers_def assms(3))
  then show ?thesis by (rule that [OF h(1)])
qed

lemma restores_eof:
  "restores P_WriteSaveGameEOF (\<lambda>(lv, st). case P_ReadSaveGameEOF st of (ok, st) \<Rightarrow> Some (if ok then Inr (lv, st) else Inl IError)) P P"
  unfolding restores_def P_WriteSaveGameEOF_def
proof (intro conjI allI)
  fix p show "\<exists>bs. writes p (saveg_write8 SAVEGAME_EOF) bs \<and> (\<forall>st lv. ss_pos st = p \<longrightarrow> here bs st \<longrightarrow> P lv \<longrightarrow>
    (\<exists>lv'. (case (lv, st) of (lv, st) \<Rightarrow> case P_ReadSaveGameEOF st of (ok, st) \<Rightarrow> Some (if ok then Inr (lv, st) else Inl IError))
      = Some (Inr (lv', skipped (length bs) st)) \<and> P lv'))"
    by (intro exI [of _ "[SAVEGAME_EOF]"]) (auto simp: writes_8 P_ReadSaveGameEOF_def here_byte)
qed (rule keeps_error_8)

lemma restores_things:
  assumes "savable description lv T" "level_ok y T0 S B" "has_room y (things_of lv T @ ys)"
  obtains lv0 where "emptied lv0 = emptied y"
    "restores (stmts (map archive_object (things_of lv T) @ [saveg_write8 tc_end])) (P_UnArchiveThinkers fr) (\<lambda>z. z = y)
       (\<lambda>z. has_room z ys \<and> (\<exists>T'. loading fr lv0 z T' (things_of lv T)))"
proof -
  obtain lv1 lv2 S' B' where c: "remove_thinkers (th_next (thinker_of (object_at y thinkercap))) y = Some (Inr lv1)"
    "P_InitThinkers lv1 = Inr lv2" "level_ok lv2 [] S' B'" "emptied lv2 = emptied y" using clear_thinkers_ok [OF assms(2)] by blast
  have cap: "load thinkercap y = Inr (object_at y thinkercap)"
    using assms(2) by (auto simp: level_ok_def thinkers_ok_def load_def object_at_def)
  have read: "P_UnArchiveThinkers fr (y, st) = read_thinkers (thinker_class fr) tc_end (lv2, st)" for st
    by (simp add: P_UnArchiveThinkers_def cap c(1,2))
  have "length (lv_players (emptied z)) = length (lv_players z) \<and> length (lv_sectors (emptied z)) = length (lv_sectors z)
      \<and> activeplats (emptied z) = activeplats z \<and> lv_next (emptied z) = lv_next z" for z
    by (simp add: emptied_def unlinked_def sector_unlinked_def block_unlinked_def)
  then have room: "has_room lv2 (things_of lv T @ ys)" using assms(3) c(4) unfolding has_room_def by metis
  have l: "loading fr lv2 lv2 [] []" using c(3) unfolding loading_def by auto
  have all: "restores (stmts (map archive_object (things_of lv T) @ [saveg_write8 tc_end])) (read_thinkers (thinker_class fr) tc_end)
    (\<lambda>z. has_room z (things_of lv T @ ys) \<and> (\<exists>T. loading fr lv2 z T [])) (\<lambda>z. has_room z ys \<and> (\<exists>T'. loading fr lv2 z T' ([] @ things_of lv T)))"
    by (rule restores_all) (rule saved_things [OF assms(1)])
  have "restores (stmts (map archive_object (things_of lv T) @ [saveg_write8 tc_end])) (P_UnArchiveThinkers fr) (\<lambda>z. z = y)
       (\<lambda>z. has_room z ys \<and> (\<exists>T'. loading fr lv2 z T' (things_of lv T)))"
    using all read room l unfolding restores_def append_Nil by metis
  then show ?thesis using that c(4) by blast
qed

subsection \<open>The whole file\<close>

lemma restores_game:
  assumes "savable description lv T" "ready lv T y"
  obtains W where "\<And>st. write_game description lv st = Some (Inr (W (write_bytes (header_bytes description (version_code lv) lv) st)))"
    "restores W (read_game fr) (\<lambda>z. z = y) (restored fr (loaded_fixed lv y) (things_of lv T @ specials_of lv T))"
proof -
  let ?Y = "loaded_fixed lv y" and ?xs = "things_of lv T" and ?ys = "specials_of lv T"
  have s: "thinkers_ok lv T" "well_typed lv T" "players_savable lv" "sides_ok lv" "gameversion lv \<noteq> 0" using assms(1) by (simp_all add: savable_def)
  obtain T0 S B where y: "lv_playeringame y = lv_playeringame lv" "players_ok y" "same_shape lv y" "level_ok y T0 S B" "has_room y (?xs @ ?ys)"
    using assms(2) unfolding ready_def by blast
  obtain ww where ww: "\<And>st. P_ArchiveWorld lv st = Inr (ww st)"
    "restores (\<lambda>st. ww (P_ArchivePlayers lv st)) (\<lambda>s. Some (P_UnArchiveWorld (P_UnArchivePlayers s))) (\<lambda>z. z = y) (\<lambda>z. z = ?Y)"
    by (rule restores_fixed [OF s(3,4) y(1-3)]) blast
  have "length (lv_sectors ?Y) = length (lv_sectors y)" "activeplats ?Y = activeplats y" "lv_next ?Y = lv_next y"
    "length (lv_players ?Y) = length (lv_players y)"
    using y(2,3) by (simp_all add: loaded_fixed_def loaded_world_def same_shape_def loaded_players_def players_ok_def)
  then have room: "has_room ?Y (?xs @ ?ys)" using y(5) by (simp add: has_room_def)
  obtain lv0 where lv0: "emptied lv0 = emptied ?Y"
    "restores (stmts (map archive_object ?xs @ [saveg_write8 tc_end])) (P_UnArchiveThinkers fr) (\<lambda>z. z = ?Y)
       (\<lambda>z. has_room z ?ys \<and> (\<exists>T'. loading fr lv0 z T' ?xs))"
    by (rule restores_things [OF assms(1) level_ok_loaded [OF y(4,3,2)] room])
  have sp: "restores (stmts (map archive_object ?ys @ [saveg_write8 tc_endspecials])) (P_UnArchiveSpecials fr)
       (\<lambda>z. has_room z ?ys \<and> (\<exists>T'. loading fr lv0 z T' ?xs)) (\<lambda>z. has_room z [] \<and> (\<exists>T'. loading fr lv0 z T' (?xs @ ?ys)))"
    using restores_all [of ?ys fr "special_class fr" tc_endspecials "[]" lv0 ?xs] saved_specials [OF assms(1)]
    by (simp add: P_UnArchiveSpecials_def)
  let ?W = "\<lambda>st. P_WriteSaveGameEOF (stmts (map archive_object ?ys @ [saveg_write8 tc_endspecials])
    (stmts (map archive_object ?xs @ [saveg_write8 tc_end]) (ww (P_ArchivePlayers lv st))))"
  have "restores ?W (read_game fr) (\<lambda>z. z = y) (\<lambda>z. has_room z [] \<and> (\<exists>T'. loading fr lv0 z T' (?xs @ ?ys)))"
    unfolding read_game_def by (rule restores_seq [OF ww(2) restores_seq [OF lv0(2) restores_seq [OF sp restores_eof]]])
  moreover have "restored fr ?Y (?xs @ ?ys) z" if l: "loading fr lv0 z T' (?xs @ ?ys)" for z T'
  proof (rule loading_restored [OF l lv0(1)])
    fix x assume "x \<in> set (?xs @ ?ys)"
    then show "\<exists>cs p. typed cs p x \<and> (is_thing x \<or> is_special cs p x)"
      using s(2) unfolding well_typed_def things_of_def specials_of_def by auto
  qed
  ultimately have "restores ?W (read_game fr) (\<lambda>z. z = y) (restored fr ?Y (?xs @ ?ys))"
    by (elim restores_weaken) blast+
  moreover have "write_game description lv st = Some (Inr (?W (write_bytes (header_bytes description (version_code lv) lv) st)))" for st
    by (simp add: write_game_def write_header [OF version_code [OF s(5)]] ww(1) archive_things [OF s(1,2)] archive_specials [OF s(1,2)]
        thenO_def)
  ultimately show ?thesis by (intro that)
qed

definition next_map :: "(level \<Rightarrow> level) \<Rightarrow> level \<Rightarrow> level \<Rightarrow> level" where
  "next_map G_InitNew lv x = (G_InitNew (loaded_header lv x))\<lparr>leveltime := take_bit 24 (leveltime lv)\<rparr>"

lemma new_file_room: "put_bytes bs (new_file n) = \<lparr>ss_data = bs, ss_pos = length bs, ss_room = n - length bs, savegame_error = False\<rparr>"
  by (simp add: put_bytes_def new_file_def)

lemma save_game:
  assumes "savable description lv T" "ready lv T y"
  obtains bs where "\<And>room. length bs \<le> room \<Longrightarrow> \<exists>st. write_game description lv (new_file room) = Some (Inr st) \<and> ss_data st = bs \<and> \<not> savegame_error st"
    "\<And>room. room < length bs \<Longrightarrow> \<exists>st. write_game description lv (new_file room) = Some (Inr st) \<and> savegame_error st"
    "\<And>G_InitNew x. gameversion x = gameversion lv \<Longrightarrow> length (lv_playeringame x) = MAXPLAYERS \<Longrightarrow> next_map G_InitNew lv x = y \<Longrightarrow>
      \<exists>z. G_DoLoadGame G_InitNew fr bs x = Some (Inr z) \<and> restored fr (loaded_fixed lv y) (things_of lv T @ specials_of lv T) z"
proof -
  let ?h = "header_bytes description (version_code lv) lv" and ?R = "restored fr (loaded_fixed lv y) (things_of lv T @ specials_of lv T)"
  obtain W where W: "\<And>st. write_game description lv st = Some (Inr (W (write_bytes ?h st)))" "restores W (read_game fr) (\<lambda>z. z = y) ?R"
    by (rule restores_game [where fr = fr, OF assms]) blast
  obtain cs where cs: "writes (length ?h) W cs" "\<And>st. ss_pos st = length ?h \<Longrightarrow> here cs st \<Longrightarrow>
      (\<exists>z. read_game fr (y, st) = Some (Inr (z, skipped (length cs) st)) \<and> ?R z)" and k: "keeps_error W"
    using W(2) unfolding restores_def by blast
  have "writes 0 (write_bytes ?h) ?h" unfolding write_bytes_def by (rule writes_stmts_8)
  then have w: "writes 0 (\<lambda>st. W (write_bytes ?h st)) (?h @ cs)" using writes_seq [OF _ _ k, of 0 "write_bytes ?h" ?h cs] cs(1) by simp
  show ?thesis
  proof (rule that [of "?h @ cs"])
    fix room assume "length (?h @ cs) \<le> room"
    then have "W (write_bytes ?h (new_file room)) = put_bytes (?h @ cs) (new_file room)" using w by (simp add: writes_def new_file_def)
    then show "\<exists>st. write_game description lv (new_file room) = Some (Inr st) \<and> ss_data st = ?h @ cs \<and> \<not> savegame_error st"
      by (simp add: W(1) new_file_room)
  next
    fix room assume "room < length (?h @ cs)"
    then have "savegame_error (W (write_bytes ?h (new_file room)))" using w by (simp add: writes_def new_file_def)
    then show "\<exists>st. write_game description lv (new_file room) = Some (Inr st) \<and> savegame_error st" by (simp add: W(1))
  next
    fix G_InitNew x assume x: "gameversion x = gameversion lv" "length (lv_playeringame x) = MAXPLAYERS" "next_map G_InitNew lv x = y"
    have s: "gameversion lv \<noteq> 0" "length description \<le> SAVESTRINGSIZE" "length (lv_playeringame lv) = MAXPLAYERS"
      using assms(1) by (simp_all add: savable_def)
    have v: "G_VanillaVersionCode x = Inr (version_code lv)" using version_code [OF s(1)] unfolding G_VanillaVersionCode_def x(1) .
    let ?st = "skipped (length ?h) (open_file (?h @ cs))"
    have h: "here ?h (open_file (?h @ cs))" "here cs ?st" by (simp_all add: here_def open_file_def skipped_def)
    have "P_ReadSaveGameHeader (x, open_file (?h @ cs)) = Inr (True, loaded_header lv x, ?st)"
      by (rule read_header [OF version_code [OF s(1)] v s(2,3) x(2) h(1)])
    moreover have "ss_pos ?st = length ?h" by (simp add: open_file_def)
    then obtain z where "read_game fr (y, ?st) = Some (Inr (z, skipped (length cs) ?st))" "?R z" using cs(2) h(2) by blast
    moreover have "leveltime (loaded_header lv x) = take_bit 24 (leveltime lv)" by (simp add: loaded_header_def)
    ultimately show "\<exists>z. G_DoLoadGame G_InitNew fr (?h @ cs) x = Some (Inr z) \<and> ?R z"
      using x(3) by (simp add: G_DoLoadGame_def next_map_def)
  qed
qed

end
