(* ===== verification/P_Archive_Any.thy ===== *)
theory P_Archive_Any
  imports P_Archive_Game
begin

text \<open>
  Loading any file, whatever it holds: it ends, and if it does not stop with an error, the lists of the
  level are sound. Every reader moves forward in the file, and at its end the next class is none.
\<close>

subsection \<open>Readers move forward\<close>

definition forward :: "save \<Rightarrow> save \<Rightarrow> bool" where
  "forward st st' \<longleftrightarrow> ss_data st' = ss_data st \<and> ss_pos st \<le> ss_pos st'"

lemma forward_refl [simp]: "forward st st"
  by (simp add: forward_def)

lemma forward_trans [trans]: "forward st st1 \<Longrightarrow> forward st1 st2 \<Longrightarrow> forward st st2"
  by (auto simp: forward_def)

text \<open>A reader that moves forward, and does not change what \<open>f\<close> tells of the structure.\<close>

definition steady :: "('a \<Rightarrow> 'b) \<Rightarrow> ('a \<times> save \<Rightarrow> 'a \<times> save) \<Rightarrow> bool" where
  "steady f r \<longleftrightarrow> (\<forall>x st. forward st (snd (r (x, st))) \<and> f (fst (r (x, st))) = f x)"

definition vforward :: "(save \<Rightarrow> 'v \<times> save) \<Rightarrow> bool" where
  "vforward r \<longleftrightarrow> (\<forall>st. forward st (snd (r st)))"

named_theorems steadies

lemma forward_read8: "forward st (snd (saveg_read8 st))"
  by (simp add: saveg_read8_def forward_def)

lemma vforward_reads [steadies]: "vforward saveg_read8" "vforward saveg_read16" "vforward saveg_read32" "vforward saveg_readp"
proof -
  have step: "forward st (snd (saveg_read8 st'))" if "forward st st'" for st st'
    using that forward_read8 forward_trans by blast
  show "vforward saveg_read8" by (simp add: vforward_def forward_read8)
  show "vforward saveg_read16" by (simp add: vforward_def saveg_read16_def Let_def split_beta step)
  show 32: "vforward saveg_read32" by (simp add: vforward_def saveg_read32_def Let_def split_beta step)
  show "vforward saveg_readp" unfolding saveg_readp_def by (rule 32)
qed

lemma forward_pad: "forward st (saveg_read_pad st)"
proof -
  have "forward st (array n (\<lambda>_ st. snd (saveg_read8 st)) st')" if "forward st st'" for n st'
  proof (induction n)
    case (Suc n)
    show ?case unfolding array_Suc by (rule forward_trans [OF Suc.IH forward_read8])
  qed (simp add: array_def stmts_simps that)
  then show ?thesis by (simp add: saveg_read_pad_def)
qed

lemma steady_Nil [steadies]: "steady f (stmts [])"
  by (simp add: steady_def stmts_simps)

lemma steady_Cons [steadies]: "steady f r \<Longrightarrow> steady f (stmts rs) \<Longrightarrow> steady f (stmts (r # rs))"
  unfolding steady_def stmts_simps by (metis forward_trans prod.collapse)

lemma steady_map [steadies]: "(\<And>j. j \<in> set js \<Longrightarrow> steady f (r j)) \<Longrightarrow> steady f (stmts (map r js))"
  by (induction js) (auto intro: steady_Nil steady_Cons)

lemma steady_array [steadies]: "(\<And>i. i < n \<Longrightarrow> steady f (r i)) \<Longrightarrow> steady f (array n r)"
  unfolding array_def by (rule steady_map) simp

lemma steady_field [steadies]: "vforward r \<Longrightarrow> (\<And>v x. f (put v x) = f x) \<Longrightarrow> steady f (field r put)"
  by (auto simp: steady_def vforward_def field_def split_beta)

lemma steady_sub: "steady g r \<Longrightarrow> (\<And>x y. g y = g (get x) \<Longrightarrow> f (put y x) = f x) \<Longrightarrow> steady f (sub get put r)"
  by (auto simp: steady_def sub_def split_beta)

lemma steady_part [steadies]: "steady (\<lambda>_. ()) r \<Longrightarrow> (\<And>x y. f (put y x) = f x) \<Longrightarrow> steady f (sub get put r)"
  by (rule steady_sub) auto

lemma steady_assign [steadies]: "(\<And>x. f (h x) = f x) \<Longrightarrow> steady f (assign h)"
  by (simp add: steady_def assign_def)

lemma steady_pad [steadies]: "steady f (on_stream saveg_read_pad)"
  by (simp add: steady_def on_stream_def forward_pad)

lemma steady_fixed16 [steadies]: "(\<And>v x. f (put v x) = f x) \<Longrightarrow> steady f (read_fixed16 put)"
  unfolding read_fixed16_def by (rule steady_field [OF vforward_reads(2)]) simp

lemma steady_records [steadies]:
  "steady (\<lambda>_. ()) saveg_read_actionf_t" "steady (\<lambda>_. ()) saveg_read_mapthing_t" "steady (\<lambda>_. ()) saveg_read_ticcmd_t"
  "steady (\<lambda>_. ()) saveg_read_pspdef_t"
  unfolding saveg_read_actionf_t_def saveg_read_mapthing_t_def saveg_read_ticcmd_t_def saveg_read_pspdef_t_def
  by (rule steadies refl | simp)+

lemma steady_thinker [steadies]: "steady (\<lambda>_. ()) saveg_read_thinker_t"
  unfolding saveg_read_thinker_t_def by (rule steadies refl | simp)+

lemma steady_objects [steadies]:
  "steady (\<lambda>_. ()) saveg_read_mobj_t" "steady (\<lambda>_. ()) saveg_read_player_t" "steady (\<lambda>_. ()) saveg_read_ceiling_t"
  "steady (\<lambda>_. ()) saveg_read_vldoor_t" "steady (\<lambda>_. ()) saveg_read_floormove_t" "steady (\<lambda>_. ()) saveg_read_plat_t"
  "steady (\<lambda>_. ()) saveg_read_lightflash_t" "steady (\<lambda>_. ()) saveg_read_strobe_t" "steady (\<lambda>_. ()) saveg_read_glow_t"
  unfolding saveg_read_mobj_t_def saveg_read_player_t_def saveg_read_ceiling_t_def saveg_read_vldoor_t_def saveg_read_floormove_t_def
    saveg_read_plat_t_def saveg_read_lightflash_t_def saveg_read_strobe_t_def saveg_read_glow_t_def
  by (rule steadies refl | simp)+

subsection \<open>The players and the world\<close>

lemma steady_sector: "steady sec_thinglist unarchive_sector"
  unfolding unarchive_sector_def by (rule steadies | simp)+

lemma steady_line: "steady (\<lambda>_. ()) unarchive_line" "steady (\<lambda>_. ()) unarchive_side"
  unfolding unarchive_line_def unarchive_side_def by (rule steadies refl | simp)+

lemma steady_world: "steady core (unarchive_world n linesides)"
proof -
  have "steady core (at_sector i unarchive_sector)" for i
    unfolding at_sector_def by (rule steady_sub [OF steady_sector])
      (simp add: core_def map_update, metis length_map linorder_not_less list_update_beyond list_update_id nth_map)
  moreover have "steady core (at_line i unarchive_line)" "steady core (at_side i unarchive_side)" for i
    unfolding at_line_def at_side_def by (rule steady_part steady_line | simp add: core_def)+
  ultimately show ?thesis unfolding unarchive_world_def by (intro steadies) auto
qed

lemma steady_players: "steady core (unarchive_players playing)"
  unfolding unarchive_players_def
proof (rule steady_array)
  fix i
  have "steady core (\<lambda>s. s)" by (simp add: steady_def)
  moreover have "steady core (sub (\<lambda>lv. lv_players lv ! i) (\<lambda>p lv. lv\<lparr>lv_players := (lv_players lv)[i := p]\<rparr>)
    (stmts [on_stream saveg_read_pad, saveg_read_player_t, assign (\<lambda>p. p\<lparr>pl_mo := 0, pl_message := 0, pl_attacker := 0\<rparr>)]))"
    by (rule steadies refl | simp add: core_def)+
  ultimately show "steady core (if playing ! i = 0 then (\<lambda>s. s)
    else sub (\<lambda>lv. lv_players lv ! i) (\<lambda>p lv. lv\<lparr>lv_players := (lv_players lv)[i := p]\<rparr>)
      (stmts [on_stream saveg_read_pad, saveg_read_player_t, assign (\<lambda>p. p\<lparr>pl_mo := 0, pl_message := 0, pl_attacker := 0\<rparr>)]))"
    by simp
qed

subsection \<open>The thinkers\<close>

lemma active_is_none:
  "unarchive_record fresh_at read mk function hook active (lv, st)
    = bindR (unarchive_record fresh_at read mk function hook no_active (lv, st)) (\<lambda>(lv', st'). bindR (active (lv_next lv) lv') (\<lambda>lv'. Inr (lv', st')))"
  by (simp add: unarchive_record_def no_active_def Z_Malloc_def Let_def split_beta bindR_assoc)

definition hooks :: "level \<Rightarrow> (ptr \<Rightarrow> 'r \<Rightarrow> level \<Rightarrow> level res) \<Rightarrow> bool" where
  "hooks lv hook \<longleftrightarrow> (\<forall>p r. (\<exists>e. \<forall>lvx. lv_sectors lvx = lv_sectors lv \<longrightarrow> hook p r lvx = Inl e)
     \<or> (\<exists>secs. map sec_thinglist secs = map sec_thinglist (lv_sectors lv)
          \<and> (\<forall>lvx. lv_sectors lvx = lv_sectors lv \<longrightarrow> hook p r lvx = Inr (lvx\<lparr>lv_sectors := secs\<rparr>))))"

lemma same_active_lists: "lvx\<lparr>activeceilings := activeceilings lvx, activeplats := activeplats lvx\<rparr> = lvx"
  by simp

lemma unarchive_record_any:
  assumes "level_ok lv T S B" "unarchive_record fresh_at read mk function hook active (lv, st) = Inr (lv', st')" "steady (\<lambda>_. ()) read"
    and hook: "hooks lv hook"
    and active: "\<And>p lvx lvy. active p lvx = Inr lvy \<Longrightarrow> \<exists>cs ps. lvy = lvx\<lparr>activeceilings := cs, activeplats := ps\<rparr>"
    and func: "\<And>r. th_function (function (thinker_of (mk r))) \<noteq> P_MobjThinker"
  shows "level_ok lv' (T @ [lv_next lv]) S B \<and> length (lv_players lv') = length (lv_players lv) \<and> forward st st'"
proof -
  let ?p = "lv_next lv"
  obtain lv1 where 1: "unarchive_record fresh_at read mk function hook no_active (lv, st) = Inr (lv1, st')" "active ?p lv1 = Inr lv'"
    using assms(2) unfolding active_is_none [of fresh_at read mk "function" hook active] by (auto simp: bindR_def split: sum.splits)
  have n: "?p \<noteq> - 1" using 1(1) by (auto simp: unarchive_record_def Z_Malloc_def Let_def)
  obtain r st1 where r: "read (fresh_at ?p, saveg_read_pad st) = (r, st1)" by fastforce
  let ?lvx = "store ?p (mk r) ((store ?p (mk (fresh_at ?p)) lv)\<lparr>lv_next := ?p + 1\<rparr>)"
  have "lv_sectors ?lvx = lv_sectors lv" by (simp add: store_def)
  moreover have "\<exists>z. hook ?p r ?lvx = Inr z"
    using 1(1) n r by (cases "hook ?p r ?lvx") (auto simp: unarchive_record_def Z_Malloc_def Let_def)
  ultimately obtain secs where secs: "map sec_thinglist secs = map sec_thinglist (lv_sectors lv)"
    "\<And>lvx. lv_sectors lvx = lv_sectors lv \<Longrightarrow> hook ?p r lvx = Inr (lvx\<lparr>lv_sectors := secs\<rparr>)"
    using hook unfolding hooks_def by (metis Inl_Inr_False)
  have act: "no_active ?p lvx = Inr (lvx\<lparr>activeceilings := activeceilings lv, activeplats := activeplats lv\<rparr>)"
    if "activeceilings lvx = activeceilings lv" "activeplats lvx = activeplats lv" for lvx
    using that by (simp add: no_active_def)
  obtain lv2 where 2: "unarchive_record fresh_at read mk function hook no_active (lv, st) = Inr (lv2, st1)" "level_ok lv2 (T @ [?p]) S B"
    "shell lv2 = shell (lv\<lparr>lv_sectors := secs, activeceilings := activeceilings lv, activeplats := activeplats lv\<rparr>)"
    by (rule unarchive_record_ok [of lv T S B read fresh_at st r st1 hook secs no_active "activeplats lv" "activeceilings lv" "function" mk,
          OF assms(1) n r secs(2,1) act func]) blast+
  have eq: "lv2 = lv1" "st1 = st'" using 1(1) 2(1) by simp_all
  obtain cs ps where "lv' = lv1\<lparr>activeceilings := cs, activeplats := ps\<rparr>" using active [OF 1(2)] by blast
  note same = active_level(1) [OF this] this
  have "lv_players (shell z) = lv_players z" for z by (simp add: shell_def')
  then have "lv_players lv2 = lv_players lv" using arg_cong [OF 2(3), of lv_players] by simp
  then have "length (lv_players lv') = length (lv_players lv)" using same(2) eq by simp
  moreover have "forward (saveg_read_pad st) st1" using assms(3) r unfolding steady_def by (metis snd_conv)
  then have "forward st st'" using forward_pad forward_trans eq(2) by blast
  ultimately show ?thesis using same(1) 2(2) eq by blast
qed

definition sound :: "level \<Rightarrow> bool" where
  "sound lv \<longleftrightarrow> (\<exists>T S B. level_ok lv T S B) \<and> length (lv_players lv) = MAXPLAYERS"

lemma hooks_sector: "(\<And>s p. sec_thinglist (f p s) = sec_thinglist s) \<Longrightarrow> hooks lv (\<lambda>p r. upd_sector (unat (sec r :: u32)) (f p))"
  unfolding hooks_def
proof (intro allI)
  fix p r
  assume f: "\<And>s p. sec_thinglist (f p s) = sec_thinglist s"
  show "(\<exists>e. \<forall>lvx. lv_sectors lvx = lv_sectors lv \<longrightarrow> upd_sector (unat (sec r)) (f p) lvx = Inl e)
    \<or> (\<exists>secs. map sec_thinglist secs = map sec_thinglist (lv_sectors lv)
          \<and> (\<forall>lvx. lv_sectors lvx = lv_sectors lv \<longrightarrow> upd_sector (unat (sec r)) (f p) lvx = Inr (lvx\<lparr>lv_sectors := secs\<rparr>)))"
  proof (cases "unat (sec r) < length (lv_sectors lv)")
    case True
    have "map sec_thinglist (hook_in (f p) (sec r) (lv_sectors lv)) = map sec_thinglist (lv_sectors lv)" by (rule hook_in_same) (rule f)
    then show ?thesis using True hook_in_bounds [of "sec r"] by metis
  qed (simp add: upd_sector_def sector_at_def)
qed

lemma hooks_none: "hooks lv (\<lambda>_ _ lv. Inr lv)"
  unfolding hooks_def by (intro allI disjI2 exI [of _ "lv_sectors lv"]) auto

lemma actives:
  "P_AddActivePlat p lvx = Inr lvy \<Longrightarrow> \<exists>cs ps. lvy = lvx\<lparr>activeceilings := cs, activeplats := ps\<rparr>"
  "Inr (P_AddActiveCeiling p lvx) = Inr lvy \<Longrightarrow> \<exists>cs ps. lvy = lvx\<lparr>activeceilings := cs, activeplats := ps\<rparr>"
  "no_active p lvx = Inr lvy \<Longrightarrow> \<exists>cs ps. lvy = lvx\<lparr>activeceilings := cs, activeplats := ps\<rparr>"
  by (auto simp: P_AddActivePlat_def add_active_ceiling no_active_def split: option.splits intro: same_active(2,3) [symmetric] same_active_lists [symmetric])

lemma special_any:
  assumes "sound lv" "special_class fr c = Some unarchive" "unarchive (lv, st) = Inr (lv', st')"
  shows "sound lv' \<and> forward st st'"
proof -
  obtain T S B where ok: "level_ok lv T S B" "length (lv_players lv) = MAXPLAYERS" using assms(1) by (auto simp: sound_def)
  have hc: "hooks lv (\<lambda>p r. hook_ceiling (sec r) p)" for sec :: "'r \<Rightarrow> u32"
    unfolding hook_ceiling_def by (rule hooks_sector) simp
  have hf: "hooks lv (\<lambda>p r. hook_floor (sec r) p)" for sec :: "'r \<Rightarrow> u32"
    unfolding hook_floor_def by (rule hooks_sector) simp
  note any = unarchive_record_any [OF ok(1)]
  consider "c = tc_ceiling" | "c = tc_door" | "c = tc_floor" | "c = tc_plat" | "c = tc_flash" | "c = tc_strobe" | "c = tc_glow"
    using assms(2) unfolding special_class_def by (auto split: if_splits)
  then have "level_ok lv' (T @ [lv_next lv]) S B \<and> length (lv_players lv') = length (lv_players lv) \<and> forward st st'"
  proof cases
    case 1
    have u: "the (special_class fr tc_ceiling) (lv, st) = Inr (lv', st')" using assms(2,3) 1 by simp
    show ?thesis by (rule any [OF u [unfolded special_classes option.sel] steady_objects(3) hc actives(2)]) simp_all
  next
    case 2
    have u: "the (special_class fr tc_door) (lv, st) = Inr (lv', st')" using assms(2,3) 2 by simp
    show ?thesis by (rule any [OF u [unfolded special_classes option.sel] steady_objects(4) hc actives(3)]) simp_all
  next
    case 3
    have u: "the (special_class fr tc_floor) (lv, st) = Inr (lv', st')" using assms(2,3) 3 by simp
    show ?thesis by (rule any [OF u [unfolded special_classes option.sel] steady_objects(5) hf actives(3)]) simp_all
  next
    case 4
    have u: "the (special_class fr tc_plat) (lv, st) = Inr (lv', st')" using assms(2,3) 4 by simp
    show ?thesis by (rule any [OF u [unfolded special_classes option.sel] steady_objects(6) hf actives(1)]) simp_all
  next
    case 5
    have u: "the (special_class fr tc_flash) (lv, st) = Inr (lv', st')" using assms(2,3) 5 by simp
    show ?thesis by (rule any [OF u [unfolded special_classes option.sel] steady_objects(7) hooks_none actives(3)]) simp_all
  next
    case 6
    have u: "the (special_class fr tc_strobe) (lv, st) = Inr (lv', st')" using assms(2,3) 6 by simp
    show ?thesis by (rule any [OF u [unfolded special_classes option.sel] steady_objects(8) hooks_none actives(3)]) simp_all
  next
    case 7
    have u: "the (special_class fr tc_glow) (lv, st) = Inr (lv', st')" using assms(2,3) 7 by simp
    show ?thesis by (rule any [OF u [unfolded special_classes option.sel] steady_objects(9) hooks_none actives(3)]) simp_all
  qed
  then show ?thesis using ok(2) unfolding sound_def by metis
qed

lemma thing_any:
  assumes "sound lv" "thinker_class fr c = Some unarchive" "unarchive (lv, st) = Inr (lv', st')"
  shows "sound lv' \<and> forward st st'"
proof -
  obtain T S B where ok: "level_ok lv T S B" "length (lv_players lv) = MAXPLAYERS" using assms(1) by (auto simp: sound_def)
  have u: "unarchive_mobj fr (lv, st) = Inr (lv', st')" using assms(2,3) by (auto simp: thinker_class_def split: if_splits)
  have n: "lv_next lv \<noteq> - 1" using u by (auto simp: unarchive_mobj_def Z_Malloc_def Let_def)
  obtain m st1 where m: "saveg_read_mobj_t (fresh_mobj fr (lv_next lv), saveg_read_pad st) = (m, st1)" by fastforce
  have "mobj_ok m"
  proof (cases "mo_player m")
    case (Some pl)
    show ?thesis
    proof (rule ccontr)
      assume "\<not> mobj_ok m"
      then have "\<not> unat pl < length (lv_players lv)" using Some ok(2) by (simp add: mobj_ok_def)
      then show False using u n m Some by (simp add: unarchive_mobj_def Z_Malloc_def Let_def set_player_mo_def store_def)
    qed
  qed (simp add: mobj_ok_def)
  then obtain lv1 S' B' where 1: "unarchive_mobj fr (lv, st) = Inr (lv1, st1)" "level_ok lv1 (T @ [lv_next lv]) S' B'"
    "shell lv1 = shell (attach (lv_next lv) (Mobj m) lv)"
    by (rule unarchive_mobj_ok [OF ok(1) n m _ ok(2)]) blast
  have "lv_players (shell z) = lv_players z" for z by (simp add: shell_def')
  then have "lv_players lv1 = lv_players (attach (lv_next lv) (Mobj m) lv)" using arg_cong [OF 1(3), of lv_players] by simp
  then have "length (lv_players lv1) = MAXPLAYERS" using ok(2) by (simp split: option.splits)
  moreover have "forward (saveg_read_pad st) st1" using steady_objects(1) m unfolding steady_def by (metis snd_conv)
  then have "forward st st1" using forward_pad forward_trans by blast
  ultimately show ?thesis using 1(1,2) u unfolding sound_def by auto
qed

subsection \<open>Reading to the marker\<close>

lemma read_thinkers_any:
  assumes step: "\<And>lv c unarchive st lv' st'. sound lv \<Longrightarrow> class c = Some unarchive \<Longrightarrow> unarchive (lv, st) = Inr (lv', st') \<Longrightarrow> sound lv' \<and> forward st st'"
    and eof: "class (- 1) = None" "marker \<noteq> - 1"
    and "sound lv"
  shows "\<exists>r. read_thinkers class marker (lv, st) = Some r \<and> (\<forall>lv' st'. r = Inr (lv', st') \<longrightarrow> sound lv')"
  using assms(4)
proof (induction "length (ss_data st) - ss_pos st" arbitrary: lv st rule: less_induct)
  case less
  obtain c st1 where r8: "saveg_read8 st = (c, st1)" by fastforce
  consider "c = marker" | "c \<noteq> marker" "class c = None" | unarchive e where "c \<noteq> marker" "class c = Some unarchive" "unarchive (lv, st1) = Inl e"
    | unarchive lv' st' where "c \<noteq> marker" "class c = Some unarchive" "unarchive (lv, st1) = Inr (lv', st')"
    by (metis obj_sumE option.exhaust prod.exhaust)
  then show ?case
  proof cases
    case (4 unarchive lv' st')
    have nx: "sound lv' \<and> forward st1 st'" using step [OF less.prems 4(2,3)] .
    have "c \<noteq> - 1" using 4(2) eof(1) by auto
    then have "ss_pos st < length (ss_data st)" "ss_pos st1 = ss_pos st + 1" "ss_data st1 = ss_data st"
      using r8 by (auto simp: saveg_read8_def split: if_splits)
    then have "length (ss_data st') - ss_pos st' < length (ss_data st) - ss_pos st" using nx by (auto simp: forward_def)
    from less.hyps [OF this] nx have "\<exists>r. read_thinkers class marker (lv', st') = Some r \<and> (\<forall>lv' st'. r = Inr (lv', st') \<longrightarrow> sound lv')" by blast
    moreover have "read_thinkers class marker (lv, st) = read_thinkers class marker (lv', st')"
      using r8 4 by (subst read_thinkers.simps) simp
    ultimately show ?thesis by simp
  qed (use r8 less.prems in \<open>subst read_thinkers.simps, simp\<close>)+
qed

lemma classes_any:
  "thinker_class fr (- 1) = None" "tc_end \<noteq> - 1" "special_class fr (- 1) = None" "tc_endspecials \<noteq> - 1"
  by (simp_all add: thinker_class_def special_class_def tc_defs)

lemma things_any:
  assumes "sound lv"
  shows "\<exists>r. P_UnArchiveThinkers fr (lv, st) = Some r \<and> (\<forall>lv' st'. r = Inr (lv', st') \<longrightarrow> sound lv')"
proof -
  obtain T S B where ok: "level_ok lv T S B" "length (lv_players lv) = MAXPLAYERS" using assms by (auto simp: sound_def)
  obtain lv1 lv2 S' B' where c: "remove_thinkers (th_next (thinker_of (object_at lv thinkercap))) lv = Some (Inr lv1)"
    "P_InitThinkers lv1 = Inr lv2" "level_ok lv2 [] S' B'" "emptied lv2 = emptied lv" using clear_thinkers_ok [OF ok(1)] by blast
  have cap: "load thinkercap lv = Inr (object_at lv thinkercap)"
    using ok(1) by (auto simp: level_ok_def thinkers_ok_def load_def object_at_def)
  have "lv_players (emptied z) = lv_players z" for z by (simp add: emptied_def unlinked_def sector_unlinked_def block_unlinked_def)
  then have "lv_players lv2 = lv_players lv" using c(4) by metis
  then have s2: "sound lv2" using c(3) ok(2) unfolding sound_def by metis
  have "\<exists>r. read_thinkers (thinker_class fr) tc_end (lv2, st) = Some r \<and> (\<forall>lv' st'. r = Inr (lv', st') \<longrightarrow> sound lv')"
    by (rule read_thinkers_any; (rule classes_any s2 | erule (2) thing_any))
  then show ?thesis by (simp add: P_UnArchiveThinkers_def cap c(1,2))
qed

lemma specials_any: "sound lv \<Longrightarrow> \<exists>r. P_UnArchiveSpecials fr (lv, st) = Some r \<and> (\<forall>lv' st'. r = Inr (lv', st') \<longrightarrow> sound lv')"
  unfolding P_UnArchiveSpecials_def by (rule read_thinkers_any; (rule classes_any | erule (2) special_any | assumption))

lemma fixed_any:
  assumes "sound lv" "P_UnArchiveWorld (P_UnArchivePlayers (lv, st)) = Inr (lv', st')"
  shows "sound lv'"
proof -
  obtain lv1 st1 where 1: "P_UnArchivePlayers (lv, st) = (lv1, st1)" by fastforce
  then have "unarchive_players (lv_playeringame lv) (lv, st) = (lv1, st1)" by (simp add: P_UnArchivePlayers_def)
  then have c1: "core lv1 = core lv" using steady_players [of "lv_playeringame lv"] unfolding steady_def by (metis fst_conv)
  have "unarchive_world (length (lv_sectors lv1)) (map sides_of (lv_lines lv1)) (lv1, st1) = (lv', st')"
    using assms(2) unfolding 1 by (simp add: P_UnArchiveWorld_def split: if_splits)
  then have "core lv' = core lv1" using steady_world [of "length (lv_sectors lv1)" "map sides_of (lv_lines lv1)"]
    unfolding steady_def by (metis fst_conv)
  then have c: "core lv' = core lv" using c1 by simp
  then have "length (lv_players lv') = length (lv_players lv)" by (simp add: core_def)
  moreover obtain T S B where "level_ok lv T S B" "length (lv_players lv) = MAXPLAYERS" using assms(1) unfolding sound_def by blast
  ultimately show ?thesis using level_ok_core [OF c, of T S B] unfolding sound_def by auto
qed

lemma thenO_any:
  assumes "\<exists>r. m = Some r \<and> (\<forall>x. r = Inr x \<longrightarrow> P x)" "\<And>x. P x \<Longrightarrow> \<exists>r. f x = Some r \<and> (\<forall>y. r = Inr y \<longrightarrow> Q y)"
  shows "\<exists>r. thenO m f = Some r \<and> (\<forall>y. r = Inr y \<longrightarrow> Q y)"
proof -
  obtain r where "m = Some r" "\<forall>x. r = Inr x \<longrightarrow> P x" using assms(1) by blast
  then show ?thesis using assms(2) by (cases r) (auto simp: thenO_def)
qed

lemma read_game_any:
  assumes "sound lv"
  shows "\<exists>r. read_game fr (lv, st) = Some r \<and> (\<forall>s. r = Inr s \<longrightarrow> sound (fst s))"
proof -
  let ?P = "\<lambda>s :: level \<times> save. sound (fst s)"
  have 1: "\<exists>r. Some (P_UnArchiveWorld (P_UnArchivePlayers (lv, st))) = Some r \<and> (\<forall>s. r = Inr s \<longrightarrow> ?P s)"
    using fixed_any [OF assms] by auto
  have 2: "\<exists>r. P_UnArchiveThinkers fr s = Some r \<and> (\<forall>s. r = Inr s \<longrightarrow> ?P s)" if "?P s" for s
    using things_any [OF that, of fr "snd s"] by auto
  have 3: "\<exists>r. P_UnArchiveSpecials fr s = Some r \<and> (\<forall>s. r = Inr s \<longrightarrow> ?P s)" if "?P s" for s
    using specials_any [OF that, of fr "snd s"] by auto
  show ?thesis unfolding read_game_def
    by (rule thenO_any [OF 1], rule thenO_any [OF 2], assumption, rule thenO_any [OF 3], assumption) (auto split: prod.splits)
qed

end
