(* ===== verification/P_Archive_Props.thy ===== *)
theory P_Archive_Props
  imports P_Archive_Any
begin

text \<open>
  The properties of saved games and of the lists of the level, and a small level to evaluate them on: one
  sector, with a player in it and a door that opens.
\<close>

subsection \<open>A small level\<close>

definition small_thinker :: "ptr \<Rightarrow> ptr \<Rightarrow> ptr \<Rightarrow> thinker" where
  "small_thinker prv nxt f = \<lparr>th_prev = prv, th_next = nxt, th_function = f\<rparr>"

definition small_mobj :: mobj where
  "small_mobj = \<lparr>mo_thinker = small_thinker 1 3 P_MobjThinker, mo_x = 0x10000, mo_y = 0x20000, mo_z = 0, mo_snext = 0, mo_sprev = 0, mo_angle = 0,
     mo_sprite = 28, mo_frame = 0, mo_bnext = 0, mo_bprev = 0, mo_subsector = 0, mo_floorz = 0, mo_ceilingz = 0x800000, mo_radius = 0x100000,
     mo_height = 0x380000, mo_momx = 0, mo_momy = 0, mo_momz = 0, mo_validcount = 0, mo_type = 0, mo_info = 0, mo_tics = - 1, mo_state = 149,
     mo_flags = 0x216, mo_health = 100, mo_movedir = 0, mo_movecount = 0, mo_target = 0, mo_reactiontime = 0, mo_threshold = 0,
     mo_player = Some 0, mo_lastlook = 0, mo_spawnpoint = \<lparr>mt_x = 1, mt_y = 2, mt_angle = 90, mt_type = 1, mt_options = 7\<rparr>, mo_tracer = 0\<rparr>"

definition small_door :: vldoor where
  "small_door = \<lparr>door_thinker = small_thinker 2 1 T_VerticalDoor, door_type = 0, door_sector = 0, door_topheight = 0x7c0000, door_speed = 0x20000,
     door_direction = 1, door_topwait = 150, door_topcountdown = 0, door_line = 0, door_lighttag = 0\<rparr>"

definition small_player :: player where
  "small_player = \<lparr>pl_mo = 2, pl_playerstate = 0, pl_cmd = \<lparr>forwardmove = 0, sidemove = 0, angleturn = 0, chatchar = 0, buttons = 0, consistancy = 0,
       buttons2 = 0, inventory = 0, lookfly = 0, arti = 0\<rparr>, pl_viewz = 0x290000, pl_viewheight = 0x290000, pl_deltaviewheight = 0, pl_bob = 0,
     pl_health = 100, pl_armorpoints = 0, pl_armortype = 0, pl_powers = replicate NUMPOWERS 0, pl_cards = replicate NUMCARDS 0, pl_backpack = 0,
     pl_frags = replicate MAXPLAYERS 0, pl_readyweapon = 1, pl_pendingweapon = 10, pl_weaponowned = replicate NUMWEAPONS 1,
     pl_ammo = replicate NUMAMMO 50, pl_maxammo = replicate NUMAMMO 200, pl_attackdown = 0, pl_usedown = 0, pl_cheats = 0, pl_refire = 0,
     pl_killcount = 0, pl_itemcount = 0, pl_secretcount = 0, pl_message = 0, pl_damagecount = 0, pl_bonuscount = 0, pl_attacker = 0,
     pl_extralight = 0, pl_fixedcolormap = 0, pl_colormap = 0,
     pl_psprites = replicate NUMPSPRITES \<lparr>psp_state = Some 10, psp_tics = 1, psp_sx = 0x10000, psp_sy = 0x200000\<rparr>, pl_didsecret = 0\<rparr>"

definition small_sector :: sector where
  "small_sector = \<lparr>sec_floorheight = 0, sec_ceilingheight = 0x808000, sec_floorpic = 3, sec_ceilingpic = 4, sec_lightlevel = 160, sec_special = 0,
     sec_oldspecial = 0, sec_tag = 0, sec_soundtarget = 0, sec_thinglist = 2, sec_floordata = 0, sec_ceilingdata = 3, sec_lightingdata = 0, sec_lines = [], sec_stairlock = 0, sec_prevsec = - 1, sec_nextsec = - 1\<rparr>"

definition small_level :: level where
  "small_level = \<lparr>lv_objects = [1 \<mapsto> Other (small_thinker 3 2 0), 2 \<mapsto> Mobj small_mobj, 3 \<mapsto> Door small_door], lv_next = 4,
     lv_sectors = [small_sector],
     lv_sides = [\<lparr>si_textureoffset = 0, si_rowoffset = 0x18000, si_toptexture = 1, si_bottomtexture = 1, si_midtexture = 2, si_sector = 0\<rparr>],
     lv_lines = [\<lparr>li_flags = 1, li_special = 31, li_tag = 0, li_sidenum = (0, - 1), li_frontsector = Some 0, li_backsector = None\<rparr>],
     lv_subsectors = [0], lv_nodes = [], bmaporgx = 0, bmaporgy = 0, bmapwidth = 0, bmapheight = 0, blocklinks = [],
     lv_players = replicate MAXPLAYERS small_player, lv_playeringame = [1, 0, 0, 0], gameskill = 2, gameepisode = 1, gamemap = 1, leveltime = 350,
     gameversion = 4, activeceilings = [0, 0], activeplats = [0, 0],
     itemrespawnque = replicate ITEMQUESIZE (mo_spawnpoint small_mobj, 0), iquehead = 0, iquetail = 0\<rparr>"

lemmas small_defs = small_thinker_def small_mobj_def small_door_def small_player_def small_sector_def small_level_def

lemma small_objects:
  "lv_objects small_level 1 = Some (Other (small_thinker 3 2 0))" "lv_objects small_level 2 = Some (Mobj small_mobj)"
  "lv_objects small_level 3 = Some (Door small_door)" "lv_objects small_level p \<noteq> None \<Longrightarrow> p = 1 \<or> p = 2 \<or> p = 3"
  by (auto simp: small_level_def split: if_splits)

lemma small_at:
  "object_at small_level 1 = Other (small_thinker 3 2 0)" "object_at small_level 2 = Mobj small_mobj" "object_at small_level 3 = Door small_door"
  by (simp_all add: object_at_def small_objects)

lemma small_thinkers: "thinkers_ok small_level [2, 3]"
  by (simp add: thinkers_ok_def ring_def th_nxt_def th_prv_def thinkercap_def small_objects) (simp add: small_defs)

lemma small_typed: "well_typed small_level [2, 3]"
  by (simp add: well_typed_def small_at typed_def) (simp add: small_defs)

definition small_lists :: "nat \<Rightarrow> ptr list" where
  "small_lists i = (if i = 0 then [2] else [])"

lemma small_things: "things_ok {2} small_lists (\<lambda>_. []) small_level"
proof -
  have m: "mobj_at small_level 2 = Some small_mobj" by (simp add: mobj_at_def small_objects)
  have "sector_lists small_level small_lists"
    by (simp add: sector_lists_def linked_def small_lists_def small_level_def chain_def ring_def m [unfolded small_level_def])
      (simp add: small_defs link_fun_def mobj_at_def)
  moreover have "block_lists small_level (\<lambda>_. [])" by (simp add: block_lists_def linked_def small_level_def)
  moreover have "thing_ok small_lists (\<lambda>_. []) small_level 2 small_mobj"
    by (simp add: thing_ok_def in_sector_def in_block_def small_lists_def subsector_sector_def) (simp add: small_defs MF_NOSECTOR_def MF_NOBLOCKMAP_def)
  ultimately show ?thesis using m by (auto simp: things_ok_def small_lists_def)
qed

lemma small_ok: "level_ok small_level [2, 3] small_lists (\<lambda>_. [])"
proof -
  have live: "{p \<in> set [2, 3]. live small_level p} = {2}"
    by (auto simp: live_def small_at) (simp_all add: small_defs thinker_functions)
  have "map_ok small_level" by (simp add: map_ok_def bsp_ok_def blockmap_ok_def small_level_def)
  moreover have "que_ok small_level" by (simp add: que_ok_def small_level_def ITEMQUESIZE_def)
  moreover have "unat p < unat (lv_next small_level)" if "lv_objects small_level p \<noteq> None" for p
    using small_objects(4) [OF that] by (auto simp: small_level_def)
  ultimately show ?thesis using small_thinkers small_things live unfolding level_ok_def by simp
qed

lemma small_player_ok: "player_ok small_player"
  by (simp add: player_ok_def small_player_def)

lemma small_players: "lv_players small_level = replicate MAXPLAYERS small_player" "list_all player_ok (lv_players small_level)"
proof -
  show p: "lv_players small_level = replicate MAXPLAYERS small_player" by (simp add: small_level_def)
  show "list_all player_ok (lv_players small_level)" unfolding p by (simp add: list_all_iff small_player_ok)
qed

lemma small_savable: "savable (cstr ''first'') small_level [2, 3]"
proof -
  have "things_of small_level [2, 3] = [Mobj small_mobj]"
    by (simp add: things_of_def small_at is_thing_def) (simp add: small_defs thinker_functions)
  moreover have "mobj_ok small_mobj" by (simp add: mobj_ok_def small_mobj_def MAXPLAYERS_def)
  moreover have "savable_player small_player"
    by (simp add: savable_player_def small_player_ok) (simp add: psp_ok_def small_player_def word_sless_alt)
  then have "players_savable small_level" by (simp add: players_savable_def small_players(1))
  moreover have "sides_ok small_level" by (simp add: sides_ok_def sides_of_def small_level_def)
  ultimately show ?thesis using small_thinkers small_typed
    by (simp add: savable_def) (simp add: small_level_def MAXPLAYERS_def SAVESTRINGSIZE_def cstr_def take_bit_eq_mod)
qed

lemma small_ready: "ready small_level [2, 3] small_level"
proof -
  have "things_of small_level [2, 3] = [Mobj small_mobj]" "specials_of small_level [2, 3] = [Door small_door]"
    by (simp_all add: things_of_def specials_of_def small_at is_thing_def is_special_def) (simp_all add: small_defs thinker_functions)
  then have "has_room small_level (things_of small_level [2, 3] @ specials_of small_level [2, 3])"
    by (simp add: has_room_def free_places_def mobj_ok_def) (simp add: small_defs MAXPLAYERS_def)
  moreover have "players_ok small_level" using small_players by (simp add: players_ok_def) (simp add: small_level_def MAXPLAYERS_def)
  moreover have "same_shape small_level small_level" by (simp add: same_shape_def)
  ultimately show ?thesis using small_ok unfolding ready_def by blast
qed

lemma small_next: "next_map (\<lambda>_. small_level) small_level small_level = small_level"
  by (rule level.equality) (simp_all add: next_map_def small_level_def take_bit_eq_mod)

lemma small_ready_next: "ready small_level [2, 3] (next_map (\<lambda>_. small_level) small_level small_level)"
  unfolding small_next by (rule small_ready)

lemma small_playing: "length (lv_playeringame small_level) = MAXPLAYERS"
  by (simp add: small_level_def MAXPLAYERS_def)


text \<open>Memory that holds the small level already.\<close>

definition small_fresh :: fresh where
  "small_fresh = \<lparr>fresh_mobj = \<lambda>_. small_mobj,
     fresh_ceiling = \<lambda>_. \<lparr>ceil_thinker = small_thinker 0 0 0, ceil_type = 0, ceil_sector = 0, ceil_bottomheight = 0, ceil_topheight = 0, ceil_speed = 0,
       ceil_oldspeed = 7, ceil_crush = 0, ceil_newspecial = 0, ceil_oldspecial = 0, ceil_texture = 0, ceil_direction = 0, ceil_tag = 0,
       ceil_olddirection = 0, ceil_list = 5\<rparr>,
     fresh_door = \<lambda>_. small_door\<lparr>door_lighttag := 9\<rparr>,
     fresh_floor = \<lambda>_. \<lparr>floor_thinker = small_thinker 0 0 0, floor_type = 0, floor_crush = 0, floor_sector = 0, floor_direction = 0, floor_newspecial = 0,
       floor_oldspecial = 0, floor_texture = 0, floor_floordestheight = 0, floor_speed = 0\<rparr>,
     fresh_plat = \<lambda>_. \<lparr>plat_thinker = small_thinker 0 0 0, plat_sector = 0, plat_speed = 0, plat_low = 0, plat_high = 0, plat_wait = 0, plat_count = 0,
       plat_status = 0, plat_oldstatus = 0, plat_crush = 0, plat_tag = 0, plat_type = 0\<rparr>,
     fresh_flash = \<lambda>_. \<lparr>flash_thinker = small_thinker 0 0 0, flash_sector = 0, flash_count = 0, flash_maxlight = 0, flash_minlight = 0, flash_maxtime = 0,
       flash_mintime = 0\<rparr>,
     fresh_strobe = \<lambda>_. \<lparr>strobe_thinker = small_thinker 0 0 0, strobe_sector = 0, strobe_count = 0, strobe_minlight = 0, strobe_maxlight = 0,
       strobe_darktime = 0, strobe_brighttime = 0\<rparr>,
     fresh_glow = \<lambda>_. \<lparr>glow_thinker = small_thinker 0 0 0, glow_sector = 0, glow_minlight = 0, glow_maxlight = 0, glow_direction = 0\<rparr>,
     fresh_flicker = \<lambda>_. \<lparr>flick_thinker = small_thinker 0 0 0, flick_sector = 0, flick_count = 0, flick_maxlight = 0, flick_minlight = 0\<rparr>\<rparr>"


subsection \<open>Saving and loading\<close>

lemma game_loads:
  assumes "savable description lv T" "ready lv T (next_map G_InitNew lv x)"
    "gameversion x = gameversion lv" "length (lv_playeringame x) = MAXPLAYERS"
    "write_game description lv (new_file room) = Some (Inr st)" "\<not> savegame_error st"
  shows "\<exists>z. G_DoSaveGame description False room lv old = Some (Inr (ss_data st))
    \<and> G_DoLoadGame G_InitNew fr (ss_data st) x = Some (Inr z)
    \<and> restored fr (loaded_fixed lv (next_map G_InitNew lv x)) (things_of lv T @ specials_of lv T) z"
proof (rule save_game [OF assms(1,2), of fr])
  fix bs
  assume fits: "\<And>room. length bs \<le> room \<Longrightarrow> \<exists>st. write_game description lv (new_file room) = Some (Inr st) \<and> ss_data st = bs \<and> \<not> savegame_error st"
    and full: "\<And>room. room < length bs \<Longrightarrow> \<exists>st. write_game description lv (new_file room) = Some (Inr st) \<and> savegame_error st"
    and loads: "\<And>G x'. gameversion x' = gameversion lv \<Longrightarrow> length (lv_playeringame x') = MAXPLAYERS \<Longrightarrow>
      next_map G lv x' = next_map G_InitNew lv x \<Longrightarrow> \<exists>z. G_DoLoadGame G fr bs x' = Some (Inr z)
        \<and> restored fr (loaded_fixed lv (next_map G_InitNew lv x)) (things_of lv T @ specials_of lv T) z"
  have "ss_data st = bs"
  proof (cases "length bs \<le> room")
    case True
    then show ?thesis using fits [OF True] assms(5) by auto
  next
    case False
    then show ?thesis using full [of room] assms(5,6) by simp
  qed
  then show ?thesis using loads [OF assms(3,4) refl] assms(5) by (simp add: G_DoSaveGame_def thenO_def)
qed

text \<open>C18: A saved game loads back. If a savable level is saved without an error (\<open>savegame_error\<close>), then
loading the file in the same version, over the same map, gives a level whose thinkers are the saved
things and the saved effects, in that order, each as \<open>expect\<close> says; the players and the world are the
saved ones (\<open>loaded_fixed\<close>), the players, sectors and lists of active objects point to the new objects,
and the lists of thinkers, sectors and blocks are sound.\<close>

theorem saved_game_loads:
  assumes "savable description lv T" "ready lv T (next_map G_InitNew lv x)"
    "gameversion x = gameversion lv" "length (lv_playeringame x) = MAXPLAYERS"
    "write_game description lv (new_file room) = Some (Inr st)" "\<not> savegame_error st"
  shows "\<exists>z. G_DoSaveGame description False room lv old = Some (Inr (ss_data st))
    \<and> G_DoLoadGame G_InitNew fr (ss_data st) x = Some (Inr z)
    \<and> restored fr (loaded_fixed lv (next_map G_InitNew lv x)) (things_of lv T @ specials_of lv T) z"
  by (rule game_loads [OF assms])

text \<open>A disk with room for the whole of the small game.\<close>

lemma small_save: "\<exists>room st. write_game (cstr ''first'') small_level (new_file room) = Some (Inr st) \<and> \<not> savegame_error st"
  by (rule save_game [OF small_savable small_ready]) blast

theorem saved_game_loads_witness:
  "\<exists>room st z. write_game (cstr ''first'') small_level (new_file room) = Some (Inr st) \<and> \<not> savegame_error st
     \<and> G_DoSaveGame (cstr ''first'') False room small_level [] = Some (Inr (ss_data st))
     \<and> G_DoLoadGame (\<lambda>_. small_level) small_fresh (ss_data st) small_level = Some (Inr z)
     \<and> restored small_fresh (loaded_fixed small_level small_level) (things_of small_level [2, 3] @ specials_of small_level [2, 3]) z"
proof -
  obtain room st where st: "write_game (cstr ''first'') small_level (new_file room) = Some (Inr st)" "\<not> savegame_error st" using small_save by blast
  show ?thesis
    using saved_game_loads [OF small_savable small_ready_next refl small_playing st, where fr = small_fresh and old = "[]"] st unfolding small_next by blast
qed

text \<open>What is written does not depend on how much fits on the disk.\<close>

lemma restores_none: "codec w r g \<Longrightarrow> restores w (\<lambda>s. Some (Inr (r s))) (\<lambda>_. False) (\<lambda>_. False)"
  unfolding restores_def codec_def by blast

lemma write_outcome:
  assumes "savable description lv T"
  obtains cs where "\<And>room. room < length (header_bytes description (version_code lv) lv @ cs) \<Longrightarrow>
      \<exists>st. write_game description lv (new_file room) = Some (Inr st) \<and> savegame_error st"
    "\<And>room. length (header_bytes description (version_code lv) lv @ cs) \<le> room \<Longrightarrow>
      \<exists>st. write_game description lv (new_file room) = Some (Inr st) \<and> \<not> savegame_error st \<and> ss_data st = header_bytes description (version_code lv) lv @ cs"
proof -
  let ?h = "header_bytes description (version_code lv) lv" and ?xs = "things_of lv T" and ?ys = "specials_of lv T"
  have s: "thinkers_ok lv T" "well_typed lv T" "players_savable lv" "sides_ok lv" "gameversion lv \<noteq> 0" using assms by (simp_all add: savable_def)
  obtain g where "codec (P_ArchivePlayers lv) (unarchive_players (lv_playeringame lv)) g" using codec_players [OF s(3)] by blast
  note pl = restores_none [OF this]
  obtain ww h where ww: "\<And>st. P_ArchiveWorld lv st = Inr (ww st)"
    "codec ww (unarchive_world (length (lv_sectors lv)) (map sides_of (lv_lines lv))) h" using codec_world [OF s(4)] by blast
  have none: "restores w r (\<lambda>_. False) (\<lambda>_. False)" if "restores w r P Q" for w r P Q
    using that unfolding restores_def by blast
  have th: "restores (stmts (map archive_object ?xs @ [saveg_write8 tc_end])) (read_thinkers (thinker_class small_fresh) tc_end) (\<lambda>_. False) (\<lambda>_. False)"
    by (rule none [OF restores_all]) (rule saved_things [OF assms])
  have sp: "restores (stmts (map archive_object ?ys @ [saveg_write8 tc_endspecials])) (read_thinkers (special_class small_fresh) tc_endspecials) (\<lambda>_. False) (\<lambda>_. False)"
    by (rule none [OF restores_all]) (rule saved_specials [OF assms])
  let ?W = "\<lambda>st. P_WriteSaveGameEOF (stmts (map archive_object ?ys @ [saveg_write8 tc_endspecials])
    (stmts (map archive_object ?xs @ [saveg_write8 tc_end]) (ww (P_ArchivePlayers lv st))))"
  note restores_seq [OF pl restores_seq [OF restores_none [OF ww(2)] restores_seq [OF th restores_seq [OF sp restores_eof]]]]
  then obtain cs where cs: "writes (length ?h) ?W cs" and k: "keeps_error ?W" unfolding restores_def by blast
  have "writes 0 (write_bytes ?h) ?h" unfolding write_bytes_def by (rule writes_stmts_8)
  then have w: "writes 0 (\<lambda>st. ?W (write_bytes ?h st)) (?h @ cs)" using writes_seq [OF _ _ k, of 0 "write_bytes ?h" ?h cs] cs by simp
  have W: "write_game description lv st = Some (Inr (?W (write_bytes ?h st)))" for st
    by (simp add: write_game_def write_header [OF version_code [OF s(5)]] ww(1) archive_things [OF s(1,2)] archive_specials [OF s(1,2)]
        thenO_def)
  show ?thesis
  proof (rule that [of cs])
    fix room assume "room < length (?h @ cs)"
    then have "savegame_error (?W (write_bytes ?h (new_file room)))" using w by (simp add: writes_def new_file_def)
    then show "\<exists>st. write_game description lv (new_file room) = Some (Inr st) \<and> savegame_error st" unfolding W by blast
  next
    fix room assume "length (?h @ cs) \<le> room"
    then have "?W (write_bytes ?h (new_file room)) = put_bytes (?h @ cs) (new_file room)" using w by (simp add: writes_def new_file_def)
    then show "\<exists>st. write_game description lv (new_file room) = Some (Inr st) \<and> \<not> savegame_error st \<and> ss_data st = ?h @ cs"
      unfolding W by (simp add: new_file_room)
  qed
qed




lemma version_fields:
  assumes "c \<in> {106, 107, 108, 109}" "d \<in> {106, 107, 108, 109}" "same_string (version_field c) (version_field d)"
  shows "c = d"
proof -
  have "version_field 106 = cstr ''version 106'' @ replicate 5 0" "version_field 107 = cstr ''version 107'' @ replicate 5 0"
    "version_field 108 = cstr ''version 108'' @ replicate 5 0" "version_field 109 = cstr ''version 109'' @ replicate 5 0" by code_simp+
  then show ?thesis using assms by (auto simp: same_string_def cstr_def)
qed

lemma version_codes: "gameversion lv \<noteq> 0 \<Longrightarrow> version_code lv \<in> {106, 107, 108, 109}"
  by (simp add: version_code_def G_VanillaVersionCode_def)

text \<open>C22: A game that was saved by another version is refused, and the level is left as it was.\<close>

theorem other_version_refused:
  assumes "savable description lv T" "gameversion x \<noteq> 0" "version_code x \<noteq> version_code lv"
    "write_game description lv (new_file room) = Some (Inr st)" "\<not> savegame_error st"
  shows "G_DoLoadGame G_InitNew fr (ss_data st) x = Some (Inr x)"
proof (rule write_outcome [OF assms(1)])
  fix cs
  let ?h = "header_bytes description (version_code lv) lv" and ?v = "version_field (version_code lv)"
    and ?d = "description @ replicate (SAVESTRINGSIZE - length description) 0"
  assume full: "\<And>room. room < length (?h @ cs) \<Longrightarrow> \<exists>st. write_game description lv (new_file room) = Some (Inr st) \<and> savegame_error st"
    and fits: "\<And>room. length (?h @ cs) \<le> room \<Longrightarrow>
      \<exists>st. write_game description lv (new_file room) = Some (Inr st) \<and> \<not> savegame_error st \<and> ss_data st = ?h @ cs"
  have data: "ss_data st = ?h @ cs" using full [of room] fits [of room] assms(4,5) by (cases "room < length (?h @ cs)") auto
  have s: "gameversion lv \<noteq> 0" "length description \<le> SAVESTRINGSIZE" using assms(1) by (simp_all add: savable_def)
  have ld: "length ?d = SAVESTRINGSIZE" using s(2) by simp
  have lv: "length ?v = VERSIONSIZE" using M_StringCopy_length by (simp add: version_field_def Let_def M_snprintf_def VERSIONSIZE_def)
  obtain es where h: "?h = ?d @ ?v @ es" by (simp add: header_bytes_def)
  let ?st = "open_file (ss_data st)"
  have "here (?d @ ?v) ?st" unfolding data h by (simp add: here_def open_file_def)
  then have "here ?d ?st" "here ?v (skipped SAVESTRINGSIZE ?st)" unfolding here_append [of ?d ?v] ld by simp_all
  then have "read_bytes SAVESTRINGSIZE ?st = (?d, skipped SAVESTRINGSIZE ?st)"
    "read_bytes VERSIONSIZE (skipped SAVESTRINGSIZE ?st) = (?v, skipped (SAVESTRINGSIZE + VERSIONSIZE) ?st)"
    using read_bytes_here [of ?d] read_bytes_here [of ?v] unfolding ld lv by simp_all
  moreover have "\<not> same_string ?v (version_field (version_code x))"
    using version_fields [OF version_codes [OF s(1)] version_codes [OF assms(2)]] assms(3) by metis
  ultimately have "\<exists>st'. P_ReadSaveGameHeader (x, ?st) = Inr (False, x, st')"
    using version_code [OF assms(2)] by (simp add: P_ReadSaveGameHeader_def)
  then show ?thesis by (auto simp: G_DoLoadGame_def)
qed

theorem other_version_refused_witness:
  "\<exists>room st. write_game (cstr ''first'') small_level (new_file room) = Some (Inr st) \<and> \<not> savegame_error st
     \<and> G_DoLoadGame (\<lambda>_. small_level) small_fresh (ss_data st) (small_level\<lparr>gameversion := 1\<rparr>) = Some (Inr (small_level\<lparr>gameversion := 1\<rparr>))"
proof -
  obtain room st where st: "write_game (cstr ''first'') small_level (new_file room) = Some (Inr st)" "\<not> savegame_error st" using small_save by blast
  have v: "version_code (small_level\<lparr>gameversion := 1\<rparr>) \<noteq> version_code small_level" "gameversion (small_level\<lparr>gameversion := 1\<rparr>) \<noteq> 0"
    by (simp_all add: version_code_def G_VanillaVersionCode_def) (simp add: small_level_def version_defs)
  show ?thesis using other_version_refused [OF small_savable v(2,1) st] st by blast
qed





subsection \<open>Things in their lists\<close>

text \<open>C23: Putting a thing into the lists of its sector and its block, and taking it out again, never
fails, keeps every list sound, and changes nothing but links.\<close>

theorem thing_moves:
  assumes "things_ok A S B lv" "map_ok lv" "a \<noteq> 0" "a \<notin> A" "mobj_at lv a = Some m"
  shows "\<exists>lv1 S1 B1 lv2 S2 B2. P_SetThingPosition a lv = Inr lv1 \<and> things_ok (insert a A) S1 B1 lv1
    \<and> P_UnsetThingPosition a lv1 = Inr lv2 \<and> things_ok A S2 B2 lv2 \<and> unlinked lv2 = unlinked lv1"
proof -
  obtain lv1 ss S1 B1 where 1: "P_SetThingPosition a lv = Inr lv1" "things_ok (insert a A) S1 B1 lv1"
    "unlinked lv1 = unlinked (store a (Mobj (m\<lparr>mo_subsector := of_nat ss\<rparr>)) lv)"
    by (rule set_position_ok [OF assms])
  have "map_ok lv1" using same_map(6) [OF 1(3)] assms(2) by simp
  moreover obtain m1 where "mobj_at lv1 a = Some m1" using 1(2) by (auto simp: things_ok_def)
  ultimately obtain lv2 S2 B2 where 2: "P_UnsetThingPosition a lv1 = Inr lv2" "things_ok (insert a A - {a}) S2 B2 lv2" "unlinked lv2 = unlinked lv1"
    using unset_position_ok [OF 1(2), of a m1] by blast
  have "insert a A - {a} = A" using assms(4) by blast
  then show ?thesis using 1(1,2) 2 by metis
qed

text \<open>A second thing in the sector of the small level.\<close>

lemma small_second: "mobj_at (store 4 (Mobj small_mobj) small_level) 4 = Some small_mobj" "4 \<notin> {2 :: ptr}"
  by (simp_all add: mobj_at_def store_def)

theorem thing_moves_witness:
  "\<exists>lv1 S1 B1 lv2 S2 B2. P_SetThingPosition 4 (store 4 (Mobj small_mobj) small_level) = Inr lv1 \<and> things_ok (insert 4 {2}) S1 B1 lv1
    \<and> P_UnsetThingPosition 4 lv1 = Inr lv2 \<and> things_ok {2} S2 B2 lv2 \<and> unlinked lv2 = unlinked lv1"
proof (rule thing_moves)
  show "things_ok {2} small_lists (\<lambda>_. []) (store 4 (Mobj small_mobj) small_level)"
    by (rule things_ok_store [OF small_things]) simp
  show "map_ok (store 4 (Mobj small_mobj) small_level)" using small_ok by (simp add: level_ok_def)
qed (use small_second in simp_all)

end
